(* ===== verification/Prelude.thy ===== *)
theory Prelude
  imports Main "HOL-Library.Word" "HOL-Library.Monad_Syntax" "HOL-Library.Signed_Division"
begin

text \<open>
  Shared vocabulary of the development: the C types of the target, memory accesses that fail when
  they leave their object, C strings, and the generic lemmas the components use.

  A C function that touches memory is modelled as a function into \<open>'a option\<close>: \<open>None\<close> means
  that the run performed an access outside of an array (undefined behaviour in C), \<open>Some\<close> is a run
  that stayed inside. Error codes that the code itself returns are ordinary values inside \<open>Some\<close>.
  The target is the ARM of the GTA02: \<open>char\<close> is unsigned, \<open>int\<close> and \<open>long\<close> have 32 bits.
\<close>

unbundle bit_operations_syntax

type_synonym u8 = "8 word"
type_synonym u16 = "16 word"
type_synonym u32 = "32 word"

named_theorems mem_simps \<open>evaluation of memory accesses\<close>
named_theorems const_defs \<open>definitions of the numeric constants of the headers\<close>

section \<open>Arrays\<close>

text \<open>Reading and writing one element of an array, and blocks of consecutive elements.\<close>

definition rd :: "'a list \<Rightarrow> nat \<Rightarrow> 'a option" where
  "rd xs i = (if i < length xs then Some (xs ! i) else None)"

definition wr :: "'a list \<Rightarrow> nat \<Rightarrow> 'a \<Rightarrow> 'a list option" where
  "wr xs i v = (if i < length xs then Some (xs[i := v]) else None)"

definition rdn :: "'a list \<Rightarrow> nat \<Rightarrow> nat \<Rightarrow> 'a list option" where
  "rdn xs i n = (if i + n \<le> length xs then Some (take n (drop i xs)) else None)"

definition wrn :: "'a list \<Rightarrow> nat \<Rightarrow> 'a list \<Rightarrow> 'a list option" where
  "wrn xs i ys =
     (if i + length ys \<le> length xs then Some (take i xs @ ys @ drop (i + length ys) xs) else None)"

lemma rd_in [mem_simps]: "i < length xs \<Longrightarrow> rd xs i = Some (xs ! i)"
  by (simp add: rd_def)

lemma rd_out: "length xs \<le> i \<Longrightarrow> rd xs i = None"
  by (simp add: rd_def)

lemma rd_eq_Some: "rd xs i = Some v \<longleftrightarrow> i < length xs \<and> v = xs ! i"
  by (auto simp: rd_def)

lemma rd_eq_None: "rd xs i = None \<longleftrightarrow> length xs \<le> i"
  by (auto simp: rd_def)

lemma rd_append_left: "i < length xs \<Longrightarrow> rd (xs @ ys) i = rd xs i"
  by (simp add: rd_def nth_append)

lemma rd_append_right: "rd (xs @ ys) (length xs + i) = rd ys i"
  by (simp add: rd_def)

lemma wr_in [mem_simps]: "i < length xs \<Longrightarrow> wr xs i v = Some (xs[i := v])"
  by (simp add: wr_def)

lemma wr_eq_Some: "wr xs i v = Some ys \<longleftrightarrow> i < length xs \<and> ys = xs[i := v]"
  by (auto simp: wr_def)

lemma wr_eq_None: "wr xs i v = None \<longleftrightarrow> length xs \<le> i"
  by (auto simp: wr_def)

lemma rdn_in [mem_simps]: "i + n \<le> length xs \<Longrightarrow> rdn xs i n = Some (take n (drop i xs))"
  by (simp add: rdn_def)

lemma rdn_eq_Some:
  "rdn xs i n = Some ys \<longleftrightarrow> i + n \<le> length xs \<and> ys = take n (drop i xs)"
  by (auto simp: rdn_def)

lemma rdn_eq_None: "rdn xs i n = None \<longleftrightarrow> length xs < i + n"
  by (auto simp: rdn_def)

lemma wrn_in [mem_simps]:
  "i + length ys \<le> length xs \<Longrightarrow> wrn xs i ys = Some (take i xs @ ys @ drop (i + length ys) xs)"
  by (simp add: wrn_def)

lemma wrn_eq_None: "wrn xs i ys = None \<longleftrightarrow> length xs < i + length ys"
  by (auto simp: wrn_def)

lemma wr_length: "wr xs i v = Some ys \<Longrightarrow> length ys = length xs"
  by (auto simp: wr_eq_Some)

lemma wrn_length: "wrn xs i vs = Some ys \<Longrightarrow> length ys = length xs"
  by (auto simp: wrn_def split: if_splits)

lemma rd_wr: "wr xs i v = Some ys \<Longrightarrow> rd ys j = (if j = i then Some v else rd xs j)"
  by (auto simp: wr_eq_Some rd_def)

text \<open>A run that stayed inside its arrays and returned 0.\<close>

definition returns0 :: "(int \<times> 'a) option \<Rightarrow> bool" where
  "returns0 r = (case r of None \<Rightarrow> False | Some (rc, _) \<Rightarrow> rc = 0)"

lemma returns0E:
  assumes "returns0 r"
  obtains x where "r = Some (0, x)"
  using assms by (auto simp: returns0_def split: option.splits)

section \<open>Integers\<close>

text \<open>A signed 32-bit result: arithmetic that leaves the range is undefined in C.\<close>

definition ck_int :: "int \<Rightarrow> int option" where
  "ck_int k = (if - (2 ^ 31) \<le> k \<and> k < 2 ^ 31 then Some k else None)"

lemma ck_int_in [mem_simps]: "- 2147483648 \<le> k \<Longrightarrow> k < 2147483648 \<Longrightarrow> ck_int k = Some k"
  by (simp add: ck_int_def)

lemma ck_int_eq_Some: "ck_int k = Some j \<longleftrightarrow> j = k \<and> - 2147483648 \<le> k \<and> k < 2147483648"
  by (auto simp: ck_int_def)

section \<open>C strings\<close>

text \<open>\<open>c_strlen\<close> walks an array of bytes to its NUL; an array without one is over-read.\<close>

fun c_strlen :: "u8 list \<Rightarrow> nat option" where
  "c_strlen [] = None"
| "c_strlen (c # cs) = (if c = 0 then Some 0 else map_option Suc (c_strlen cs))"

lemma c_strlen_append [simp]: "0 \<notin> set s \<Longrightarrow> c_strlen (s @ 0 # r) = Some (length s)"
  by (induction s) auto

lemma c_strlen_Some:
  "c_strlen xs = Some n \<Longrightarrow> n < length xs \<and> xs ! n = 0 \<and> (\<forall>i < n. xs ! i \<noteq> 0)"
proof (induction xs arbitrary: n)
  case (Cons c cs)
  then show ?case
    by (auto split: if_splits simp: less_Suc_eq_0_disj)
qed simp

section \<open>Lists\<close>

lemma take_Suc_nth: "i < length xs \<Longrightarrow> take (Suc i) xs = take i xs @ [xs ! i]"
  by (rule take_Suc_conv_app_nth)

lemma less_8_cases:
  fixes k :: nat
  assumes "k < 8"
  obtains "k = 0" | "k = 1" | "k = 2" | "k = 3" | "k = 4" | "k = 5" | "k = 6" | "k = 7"
  using assms by linarith

lemma rdn_append_right: "rdn (xs @ ys) (length xs + i) n = rdn ys i n"
  by (simp add: rdn_def)

section \<open>Octets\<close>

lemma word8_eqI:
  fixes x y :: u8
  assumes "\<And>n. n < 8 \<Longrightarrow> bit x n \<longleftrightarrow> bit y n"
  shows "x = y"
  using assms by (intro bit_word_eqI) simp

lemma mask_7F: "(0x7f :: u8) = mask 7" and mask_F: "(0xf :: u8) = mask 4"
  by (simp_all add: mask_eq_exp_minus_1)

lemma mask_F0: "(0xf0 :: u8) = push_bit 4 (mask 4)"
  by (simp add: mask_eq_exp_minus_1)

lemma nibble_low: "(x OR push_bit 4 y) AND 0xf = x AND (0xf :: u8)"
  by (rule word8_eqI) (auto simp: mask_F bit_simps)

lemma nibble_high: "drop_bit 4 (push_bit 4 y) AND 0xf = y AND (0xf :: u8)"
  by (rule word8_eqI) (auto simp: mask_F bit_simps)

lemma nibble_small: "x < 16 \<Longrightarrow> x AND 0xf = x" for x :: u8
  unfolding mask_F
  by (simp add: word_unat_eq_iff take_bit_eq_mask [symmetric] take_bit_eq_mod unat_mod word_less_nat_alt)

lemma nibble_small_high: "x < 16 \<Longrightarrow> drop_bit 4 x = 0" for x :: u8
  by (simp add: word_unat_eq_iff drop_bit_eq_div unat_div word_less_nat_alt)

lemma nibble_fill: "(x OR 0xf0) AND 0xf = x AND (0xf :: u8)"
  by (rule word8_eqI) (auto simp: mask_F mask_F0 bit_simps)

text \<open>Equality of octets as eight statements about bits: most facts about masks follow by \<open>auto\<close>.\<close>

lemma word8_eq_bits:
  fixes x y :: u8
  shows "x = y \<longleftrightarrow> (bit x 0 \<longleftrightarrow> bit y 0) \<and> (bit x 1 \<longleftrightarrow> bit y 1) \<and> (bit x 2 \<longleftrightarrow> bit y 2) \<and> (bit x 3 \<longleftrightarrow> bit y 3) \<and>
     (bit x 4 \<longleftrightarrow> bit y 4) \<and> (bit x 5 \<longleftrightarrow> bit y 5) \<and> (bit x 6 \<longleftrightarrow> bit y 6) \<and> (bit x 7 \<longleftrightarrow> bit y 7)"
    (is "_ \<longleftrightarrow> ?bits")
proof
  assume ?bits
  then show "x = y"
    by (intro word8_eqI) (elim less_8_cases; simp)
qed simp

lemma u8_no_bit [simp]: "8 \<le> n \<Longrightarrow> \<not> bit (x :: u8) n"
  using bit_imp_le_length [of x n] by auto

lemma word16_eqI:
  fixes x y :: u16
  assumes "\<And>n. n < 16 \<Longrightarrow> bit x n \<longleftrightarrow> bit y n"
  shows "x = y"
  using assms by (intro bit_word_eqI) simp

lemma less_16_cases:
  fixes k :: nat
  assumes "k < 16"
  obtains "k = 0" | "k = 1" | "k = 2" | "k = 3" | "k = 4" | "k = 5" | "k = 6" | "k = 7"
    | "k = 8" | "k = 9" | "k = 10" | "k = 11" | "k = 12" | "k = 13" | "k = 14" | "k = 15"
  proof (cases "k < 8")
  case True
  then show thesis by (rule less_8_cases) (rule that; assumption)+
next
  case False
  then have "k - 8 < 8" using assms by simp
  then show thesis using False by (elim less_8_cases) (rule that; simp)+
qed

section \<open>Relations that every step of a block keeps\<close>

text \<open>
  A block of code is a sequence of steps from state to state that may fail. For a relation that is
  reflexive and transitive it is enough to look at the steps.
\<close>

locale step_rel =
  fixes R :: "'s \<Rightarrow> 's \<Rightarrow> bool"
  assumes R_refl: "R g g" and R_trans: "R a b \<Longrightarrow> R b c \<Longrightarrow> R a c"
begin

definition keeps :: "'s \<Rightarrow> ('a \<times> 's) option \<Rightarrow> bool" where
  "keeps g m \<longleftrightarrow> (\<forall>x g'. m = Some (x, g') \<longrightarrow> R g g')"

lemma keepsD: "keeps g m \<Longrightarrow> m = Some (x, g') \<Longrightarrow> R g g'"
  by (simp add: keeps_def)

lemma keeps_return: "R g g' \<Longrightarrow> keeps g (Some (x, g'))"
  by (simp add: keeps_def)

lemma keeps_same: "keeps g (Some (x, g))"
  by (simp add: keeps_def R_refl)

lemma keeps_None: "keeps g None"
  by (simp add: keeps_def)

lemma keeps_bind: "keeps g m \<Longrightarrow> (\<And>x g1. m = Some (x, g1) \<Longrightarrow> keeps g1 (f x g1)) \<Longrightarrow> keeps g (Option.bind m (\<lambda>(x, g). f x g))"
  using R_trans by (fastforce simp: keeps_def split: bind_splits)

lemma keeps_read: "(\<And>x. m = Some x \<Longrightarrow> keeps g (f x)) \<Longrightarrow> keeps g (Option.bind m f)"
  by (simp add: keeps_def split: bind_splits)

lemma keeps_if: "keeps g a \<Longrightarrow> keeps g b \<Longrightarrow> keeps g (if c then a else b)"
  by simp

lemma keeps_option: "keeps g a \<Longrightarrow> (\<And>x. m = Some x \<Longrightarrow> keeps g (f x)) \<Longrightarrow> keeps g (case m of None \<Rightarrow> a | Some x \<Rightarrow> f x)"
  by (cases m) simp_all

lemma keeps_list: "keeps g a \<Longrightarrow> (\<And>x xs. keeps g (f x xs)) \<Longrightarrow> keeps g (case m of [] \<Rightarrow> a | x # xs \<Rightarrow> f x xs)"
  by (cases m) simp_all

lemma keeps_prod: "(\<And>x y. keeps g (f x y)) \<Longrightarrow> keeps g (case p of (x, y) \<Rightarrow> f x y)"
  by (cases p) simp

lemma keeps_split: "(\<And>a b. p = (a, b) \<Longrightarrow> keeps g (f a b)) \<Longrightarrow> keeps g (case p of (a, b) \<Rightarrow> f a b)"
  by (cases p) simp

lemma keeps_pure: "(\<And>x y. m = Some (x, y) \<Longrightarrow> keeps g (f x y)) \<Longrightarrow> keeps g (Option.bind m (\<lambda>(x, y). f x y))"
  by (auto simp: keeps_def split: bind_splits)

lemma keeps_trans: "R g g1 \<Longrightarrow> keeps g1 m \<Longrightarrow> keeps g m"
  using R_trans by (fastforce simp: keeps_def)

lemmas keeps_rules = keeps_same keeps_None keeps_bind keeps_if keeps_option keeps_list keeps_read

end

end
