(* ===== verification/Sms_Types.thy ===== *)
theory Sms_Types
  imports Prelude
begin

text \<open>
  The data of the short-message part of gsmd: the constants and structures of
  \<^verbatim>\<open>gsm/include/gsmd/usock.h\<close> that \<^verbatim>\<open>sms_pdu.c\<close> and \<^verbatim>\<open>libgsmd_sms.c\<close> work on. Enumerations are kept as the
  numbers the code stores (several fields are assigned raw bits of a PDU), arrays as lists whose
  length is the array's size in every well-formed structure (\<open>wf_\<dots>\<close>).
\<close>

section \<open>Constants\<close>

abbreviation (input) ALPHABET_DEFAULT :: u8 where "ALPHABET_DEFAULT \<equiv> 0"
abbreviation (input) ALPHABET_8BIT :: u8 where "ALPHABET_8BIT \<equiv> 4"

text \<open>\<open>0x10<<2\<close> in the header: 64, and not the 8 of the GSM data coding scheme.\<close>

abbreviation (input) ALPHABET_UCS2 :: u8 where "ALPHABET_UCS2 \<equiv> 64"

abbreviation (input) MSG_CLASS_NONE :: u8 where "MSG_CLASS_NONE \<equiv> 4"

abbreviation (input) SMS_ALPHABET_7_BIT_DEFAULT :: u8 where "SMS_ALPHABET_7_BIT_DEFAULT \<equiv> 0"
abbreviation (input) SMS_ALPHABET_8_BIT :: u8 where "SMS_ALPHABET_8_BIT \<equiv> 1"
abbreviation (input) SMS_ALPHABET_UCS2 :: u8 where "SMS_ALPHABET_UCS2 \<equiv> 2"

abbreviation (input) NOT_COMPRESSED :: u8 where "NOT_COMPRESSED \<equiv> 0"
abbreviation (input) COMPRESSED :: u8 where "COMPRESSED \<equiv> 1"

abbreviation (input) MESSAGE_WAITING_NONE :: u8 where "MESSAGE_WAITING_NONE \<equiv> 0"
abbreviation (input) MESSAGE_WAITING_DISCARD :: u8 where "MESSAGE_WAITING_DISCARD \<equiv> 1"
abbreviation (input) MESSAGE_WAITING_STORE :: u8 where "MESSAGE_WAITING_STORE \<equiv> 2"
abbreviation (input) MESSAGE_WAITING_NONE_1111 :: u8 where "MESSAGE_WAITING_NONE_1111 \<equiv> 3"

abbreviation (input) MESSAGE_WAITING_VOICEMAIL :: u8 where "MESSAGE_WAITING_VOICEMAIL \<equiv> 0"
abbreviation (input) MESSAGE_WAITING_OTHER :: u8 where "MESSAGE_WAITING_OTHER \<equiv> 3"

abbreviation (input) NOT_ACTIVE :: u8 where "NOT_ACTIVE \<equiv> 0"
abbreviation (input) ACTIVE :: u8 where "ACTIVE \<equiv> 1"

abbreviation (input) GSMD_SMS_TP_MTI_DELIVER :: u8 where "GSMD_SMS_TP_MTI_DELIVER \<equiv> 0"
abbreviation (input) GSMD_SMS_TP_MTI_SUBMIT :: u8 where "GSMD_SMS_TP_MTI_SUBMIT \<equiv> 1"
abbreviation (input) GSMD_SMS_TP_MTI_STATUS_REPORT :: u8 where "GSMD_SMS_TP_MTI_STATUS_REPORT \<equiv> 2"

abbreviation (input) GSMD_SMS_TP_VPF_NOT_PRESENT :: u8 where "GSMD_SMS_TP_VPF_NOT_PRESENT \<equiv> 0"
abbreviation (input) GSMD_SMS_TP_SRR_NOT_REQUEST :: u8 where "GSMD_SMS_TP_SRR_NOT_REQUEST \<equiv> 0"
abbreviation (input) GSMD_SMS_TP_SRR_STATUS_REQUEST :: u8 where "GSMD_SMS_TP_SRR_STATUS_REQUEST \<equiv> 32"
abbreviation (input) GSMD_SMS_TP_RP_NOT_SET :: u8 where "GSMD_SMS_TP_RP_NOT_SET \<equiv> 0"
abbreviation (input) GSMD_SMS_TP_UDHI_NO_HEADER :: u8 where "GSMD_SMS_TP_UDHI_NO_HEADER \<equiv> 0"
abbreviation (input) GSMD_SMS_TP_UDHI_WITH_HEADER :: u8 where "GSMD_SMS_TP_UDHI_WITH_HEADER \<equiv> 64"

abbreviation (input) GSMD_TOA_NPI_ISDN :: u8 where "GSMD_TOA_NPI_ISDN \<equiv> 1"
abbreviation (input) GSMD_TOA_TON_UNKNOWN :: u8 where "GSMD_TOA_TON_UNKNOWN \<equiv> 0"
abbreviation (input) GSMD_TOA_TON_INTERNATIONAL :: u8 where "GSMD_TOA_TON_INTERNATIONAL \<equiv> 16"
abbreviation (input) GSMD_TOA_TON_ALPHANUMERIC :: u8 where "GSMD_TOA_TON_ALPHANUMERIC \<equiv> 80"
abbreviation (input) GSMD_TOA_TON_MASK :: u8 where "GSMD_TOA_TON_MASK \<equiv> 112"
abbreviation (input) GSMD_TOA_RESERVED :: u8 where "GSMD_TOA_RESERVED \<equiv> 128"

abbreviation (input) GSMD_ADDR_MAXLEN :: nat where "GSMD_ADDR_MAXLEN \<equiv> 32"
abbreviation (input) GSMD_SMS_DATA_MAXLEN :: nat where "GSMD_SMS_DATA_MAXLEN \<equiv> 164"
abbreviation (input) CBM_MAX_PDU_SIZE :: nat where "CBM_MAX_PDU_SIZE \<equiv> 88"

section \<open>Structures\<close>

record gsmd_addr =
  addr_type :: u8
  addr_number :: "u8 list"

record gsmd_sms_datacodingscheme =
  msg_class :: u8
  alphabet :: u8
  is_compressed :: u8
  mwi_group :: u8
  mwi_active :: u8
  mwi_kind :: u8
  raw_dcs_data :: u8

record gsmd_sms =
  sms_length :: u8
  coding_scheme :: u8
  has_header :: int
  is_voicemail :: int
  dcs :: gsmd_sms_datacodingscheme
  sms_data :: "u8 list"

record gsmd_sms_submit =
  sub_addr :: gsmd_addr
  sub_payload :: gsmd_sms
  ask_ds :: int

record gsmd_sms_list =
  sl_index :: u8
  sl_stat :: int
  time_stamp :: "u8 list"
  sl_addr :: gsmd_addr
  sl_payload :: gsmd_sms
  is_last :: int

record gsmd_cbm =
  scope :: u8
  msg_code :: u16
  update_num :: u8
  msg_id :: u16
  language :: u8
  cbm_coding_scheme :: u8
  pages :: u8
  page :: u8
  cbm_data :: "u8 list"

definition wf_addr :: "gsmd_addr \<Rightarrow> bool" where
  "wf_addr a \<longleftrightarrow> length (addr_number a) = GSMD_ADDR_MAXLEN + 1"

definition wf_sms :: "gsmd_sms \<Rightarrow> bool" where
  "wf_sms s \<longleftrightarrow> length (sms_data s) = GSMD_SMS_DATA_MAXLEN + 1"

definition wf_sms_list :: "gsmd_sms_list \<Rightarrow> bool" where
  "wf_sms_list m \<longleftrightarrow> wf_addr (sl_addr m) \<and> wf_sms (sl_payload m) \<and> length (time_stamp m) = 7"

end
