(* ===== verification/Sms_Pdu.thy ===== *)
theory Sms_Pdu
  imports Sms_Types
begin

text \<open>
  \<^verbatim>\<open>gsm/src/gsmd/sms_pdu.c\<close>: conversion between raw SMS PDUs and gsmd's structures. A pointer into the
  PDU is an offset into the list of its bytes; every read goes through \<open>rd\<close> or \<open>rdn\<close>, so that a
  read behind the end of the buffer makes the whole function \<open>None\<close>. A function returns the code's
  return value (0 for success, 1 for a malformed PDU) with the structure as it was left, the partial
  updates of a failing run included.
\<close>

section \<open>Lengths\<close>

definition sms_number_bytelen :: "u8 \<Rightarrow> u8 \<Rightarrow> nat" where
  "sms_number_bytelen ty ln =
     (if ty AND GSMD_TOA_TON_MASK = GSMD_TOA_TON_ALPHANUMERIC then (unat ln + 1) div 2
      else (unat ln + 1) div 2)"

definition sms_data_bytelen :: "u8 \<Rightarrow> u8 \<Rightarrow> nat" where
  "sms_data_bytelen data_coding_scheme ln =
     (if data_coding_scheme = ALPHABET_DEFAULT then (unat ln * 7 + 7) div 8
      else if data_coding_scheme = ALPHABET_8BIT then unat ln
      else if data_coding_scheme = ALPHABET_UCS2 then unat ln * 2
      else 0)"

section \<open>Addresses\<close>

text \<open>The seven bits of character \<open>i\<close> of a packed text, from the two octets that hold them.\<close>

definition septet :: "u8 \<Rightarrow> u8 \<Rightarrow> nat \<Rightarrow> u8" where
  "septet hi lo i =
     (push_bit (7 - (i * 7 + 7) mod 8) hi OR drop_bit ((i * 7) mod 8) lo) AND 0x7f"

text \<open>The two loops of \<open>sms_address2ascii\<close>; \<open>p\<close> is the offset of \<open>src\<close>, \<open>n\<close> its length octet.\<close>

function alnum_loop :: "u8 list \<Rightarrow> nat \<Rightarrow> nat \<Rightarrow> nat \<Rightarrow> u8 list \<Rightarrow> (nat \<times> u8 list) option" where
  "alnum_loop src p n i num =
     (if (i * 7 + 3) div 4 < n
      then do {
        hi \<leftarrow> rd src (p + 2 + (i * 7 + 7) div 8);
        lo \<leftarrow> rd src (p + 2 + (i * 7) div 8);
        num' \<leftarrow> wr num i (septet hi lo i);
        alnum_loop src p n (Suc i) num'
      }
      else Some (i, num))"
  by pat_completeness auto
termination
  by (relation "measure (\<lambda>(src, p, n, i, num). n - (i * 7 + 3) div 4)") auto

function digit_loop :: "u8 list \<Rightarrow> nat \<Rightarrow> nat \<Rightarrow> nat \<Rightarrow> u8 list \<Rightarrow> (nat \<times> u8 list) option" where
  "digit_loop src p n i num =
     (if i < n
      then do {
        b \<leftarrow> rd src (p + 2 + i div 2);
        num' \<leftarrow> wr num i (0x30 + (drop_bit (if odd i then 4 else 0) b AND 0xf));
        digit_loop src p n (Suc i) num'
      }
      else Some (i, num))"
  by pat_completeness auto
termination
  by (relation "measure (\<lambda>(src, p, n, i, num). n - i)") auto

declare alnum_loop.simps [simp del] digit_loop.simps [simp del]

definition sms_address2ascii :: "gsmd_addr \<Rightarrow> u8 list \<Rightarrow> nat \<Rightarrow> (int \<times> gsmd_addr) option" where
  "sms_address2ascii dst src p = do {
     n \<leftarrow> rd src p;
     if unat n > GSMD_ADDR_MAXLEN then Some (1, dst)
     else do {
       ty \<leftarrow> rd src (p + 1);
       (i, num) \<leftarrow>
         (if ty AND GSMD_TOA_TON_MASK = GSMD_TOA_TON_ALPHANUMERIC
          then alnum_loop src p (unat n) 0 (addr_number dst)
          else digit_loop src p (unat n) 0 (addr_number dst));
       num' \<leftarrow> wr num i 0;
       Some (0, \<lparr>addr_type = ty, addr_number = num'\<rparr>)
     }
   }"

section \<open>The data coding scheme\<close>

definition sms_pdu_decode_dcs ::
  "gsmd_sms_datacodingscheme \<Rightarrow> u8 \<Rightarrow> gsmd_sms_datacodingscheme" where
  "sms_pdu_decode_dcs d0 b =
     (let d = d0\<lparr>mwi_active := NOT_ACTIVE, mwi_kind := MESSAGE_WAITING_OTHER\<rparr>;
          i = drop_bit 6 (b AND 0xC0);
          d =
            (if i = 0 then
               d\<lparr>is_compressed := b AND 0x20,
                 msg_class := (if b AND 0x10 \<noteq> 0 then b AND 0x03 else MSG_CLASS_NONE),
                 alphabet := drop_bit 2 (b AND 0x0C),
                 mwi_group := MESSAGE_WAITING_NONE\<rparr>
             else if i = 3 then
               (if b AND 0x30 = 0x30 then
                  d\<lparr>alphabet := (if b AND 0x04 \<noteq> 0 then SMS_ALPHABET_8_BIT
                                 else SMS_ALPHABET_7_BIT_DEFAULT),
                    msg_class := b AND 0x03,
                    is_compressed := NOT_COMPRESSED,
                    mwi_group := MESSAGE_WAITING_NONE_1111\<rparr>
                else
                  (let d = d\<lparr>is_compressed := NOT_COMPRESSED, msg_class := MSG_CLASS_NONE\<rparr>;
                       d = (if b AND 0x30 = 0x00 then
                              d\<lparr>mwi_group := MESSAGE_WAITING_DISCARD,
                                alphabet := SMS_ALPHABET_7_BIT_DEFAULT\<rparr>
                            else if b AND 0x30 = 0x10 then
                              d\<lparr>mwi_group := MESSAGE_WAITING_STORE,
                                alphabet := SMS_ALPHABET_7_BIT_DEFAULT\<rparr>
                            else
                              d\<lparr>mwi_group := MESSAGE_WAITING_STORE,
                                alphabet := SMS_ALPHABET_UCS2\<rparr>)
                   in d\<lparr>mwi_active := (if b AND 0x08 \<noteq> 0 then ACTIVE else NOT_ACTIVE),
                        mwi_kind := b AND 0x03\<rparr>))
             else
               d\<lparr>msg_class := MSG_CLASS_NONE,
                 alphabet := SMS_ALPHABET_7_BIT_DEFAULT,
                 is_compressed := NOT_COMPRESSED,
                 mwi_group := MESSAGE_WAITING_NONE,
                 mwi_active := NOT_ACTIVE,
                 mwi_kind := MESSAGE_WAITING_OTHER\<rparr>);
          d = (if alphabet d > SMS_ALPHABET_UCS2
               then d\<lparr>alphabet := SMS_ALPHABET_7_BIT_DEFAULT\<rparr> else d)
      in d\<lparr>raw_dcs_data := b\<rparr>)"

text \<open>
  The switch on the high nibble of TP-DCS in \<open>sms_pdu_to_msg\<close> (the same text in the DELIVER and in
  the SUBMIT branch); \<open>None\<close> is its \<open>default: return 1\<close>.
\<close>

definition dcs_coding_scheme :: "u8 \<Rightarrow> u8 option" where
  "dcs_coding_scheme b =
     (let h = drop_bit 4 b in
      if h \<le> 3 \<or> h = 0xc then Some (b AND 0xc)
      else if h = 0xd then Some ALPHABET_DEFAULT
      else if h = 0xe then Some ALPHABET_UCS2
      else if h = 0xf then Some (if b AND 4 \<noteq> 0 then ALPHABET_8BIT else ALPHABET_DEFAULT)
      else None)"

section \<open>Decoding: sms\_pdu\_to\_msg\<close>

text \<open>Updating one structure inside another.\<close>

definition upd_payload :: "(gsmd_sms \<Rightarrow> gsmd_sms) \<Rightarrow> gsmd_sms_list \<Rightarrow> gsmd_sms_list" where
  "upd_payload f m = m\<lparr>sl_payload := f (sl_payload m)\<rparr>"

text \<open>
  TP-UDL and TP-UD, the tail that the DELIVER and the SUBMIT branch share: \<open>p\<close> is at TP-UDL and
  \<open>len\<close> octets of the PDU are left.
\<close>

definition read_user_data ::
  "gsmd_sms_list \<Rightarrow> u8 list \<Rightarrow> nat \<Rightarrow> int \<Rightarrow> (int \<times> gsmd_sms_list) option" where
  "read_user_data dst src p len = do {
     udl \<leftarrow> rd src p;
     let dst = upd_payload (\<lambda>s. s\<lparr>sms_length := udl\<rparr>) dst;
     let i = sms_data_bytelen (coding_scheme (sl_payload dst)) udl;
     if len < 1 + int i \<or> i > GSMD_SMS_DATA_MAXLEN then Some (1, dst)
     else do {
       ud \<leftarrow> rdn src (p + 1) i;
       d \<leftarrow> wrn (sms_data (sl_payload dst)) 0 ud;
       d' \<leftarrow> wr d i 0;
       Some (0, upd_payload (\<lambda>s. s\<lparr>sms_data := d'\<rparr>) dst)
     }
   }"

text \<open>The voice-mail indication by the message waiting group of TP-DCS.\<close>

definition mark_voicemail :: "gsmd_sms \<Rightarrow> gsmd_sms" where
  "mark_voicemail s =
     (if mwi_kind (dcs s) = MESSAGE_WAITING_VOICEMAIL \<and>
         (mwi_group (dcs s) = MESSAGE_WAITING_DISCARD \<or>
          mwi_group (dcs s) = MESSAGE_WAITING_STORE)
      then s\<lparr>is_voicemail := 1\<rparr> else s)"

definition read_deliver ::
  "gsmd_sms_list \<Rightarrow> u8 list \<Rightarrow> nat \<Rightarrow> int \<Rightarrow> (int \<times> gsmd_sms_list) option" where
  "read_deliver dst src p len =
     (if len < 3 then Some (1, dst)
      else do {
        ty \<leftarrow> rd src (p + 2);
        ln \<leftarrow> rd src (p + 1);
        let i = sms_number_bytelen ty ln;
        if len < 13 + int i then Some (1, dst)
        else do {
          (rc, a) \<leftarrow> sms_address2ascii (sl_addr dst) src (p + 1);
          let dst = dst\<lparr>sl_addr := a\<rparr>;
          if rc \<noteq> 0 then Some (1, dst)
          else do {
            let len = len - (3 + int i);
            let p = p + 3 + i;
            pid \<leftarrow> rd src p;
            let dst = (if pid = 0x5f then upd_payload (\<lambda>s. s\<lparr>is_voicemail := 1\<rparr>) dst else dst);
            b \<leftarrow> rd src (p + 1);
            let dst = upd_payload (\<lambda>s. s\<lparr>dcs := sms_pdu_decode_dcs (dcs s) b\<rparr>) dst;
            let dst = upd_payload mark_voicemail dst;
            case dcs_coding_scheme b of
              None \<Rightarrow> Some (1, dst)
            | Some cs \<Rightarrow> do {
                let dst = upd_payload (\<lambda>s. s\<lparr>coding_scheme := cs\<rparr>) dst;
                scts \<leftarrow> rdn src (p + 2) 7;
                let dst = dst\<lparr>time_stamp := scts\<rparr>;
                read_user_data dst src (p + 9) (len - 9)
              }
          }
        }
      })"

definition read_submit ::
  "gsmd_sms_list \<Rightarrow> u8 list \<Rightarrow> nat \<Rightarrow> nat \<Rightarrow> int \<Rightarrow> (int \<times> gsmd_sms_list) option" where
  "read_submit dst src p vpf len =
     (if len < 4 then Some (1, dst)
      else do {
        ty \<leftarrow> rd src (p + 3);
        ln \<leftarrow> rd src (p + 2);
        let i = sms_number_bytelen ty ln;
        if len < 8 + int i then Some (1, dst)
        else do {
          (rc, a) \<leftarrow> sms_address2ascii (sl_addr dst) src (p + 2);
          let dst = dst\<lparr>sl_addr := a\<rparr>;
          if rc \<noteq> 0 then Some (1, dst)
          else do {
            let len = len - (4 + int i);
            let p = p + 4 + i;
            b \<leftarrow> rd src (p + 1);
            case dcs_coding_scheme b of
              None \<Rightarrow> Some (1, dst)
            | Some cs \<Rightarrow> do {
                let dst = upd_payload (\<lambda>s. s\<lparr>coding_scheme := cs\<rparr>) dst;
                let skip = (if vpf \<noteq> 0 then 3 else 2);
                let dst = dst\<lparr>time_stamp := replicate 7 0\<rparr>;
                read_user_data dst src (p + skip) (len - int skip)
              }
          }
        }
      })"

definition read_status_report ::
  "gsmd_sms_list \<Rightarrow> u8 list \<Rightarrow> nat \<Rightarrow> int \<Rightarrow> (int \<times> gsmd_sms_list) option" where
  "read_status_report dst src p len =
     (if len < 3 then Some (1, dst)
      else do {
        mr \<leftarrow> rd src (p + 1);
        let dst = dst\<lparr>sl_index := mr\<rparr>;
        st \<leftarrow> rd src (p + nat (len - 1));
        let dst = upd_payload (\<lambda>s. s\<lparr>coding_scheme := st\<rparr>) dst;
        ty \<leftarrow> rd src (p + 3);
        ln \<leftarrow> rd src (p + 2);
        let i = sms_number_bytelen ty ln;
        if len < 13 + int i then Some (1, dst)
        else do {
          (rc, a) \<leftarrow> sms_address2ascii (sl_addr dst) src (p + 2);
          let dst = dst\<lparr>sl_addr := a\<rparr>;
          if rc \<noteq> 0 then Some (1, dst)
          else do {
            scts \<leftarrow> rdn src (p + 4 + i) 7;
            let dst = dst\<lparr>time_stamp := scts\<rparr>;
            d \<leftarrow> wr (sms_data (sl_payload dst)) 0 0;
            Some (0, upd_payload (\<lambda>s. s\<lparr>sms_length := 0, sms_data := d\<rparr>) dst)
          }
        }
      })"

definition sms_pdu_to_msg ::
  "gsmd_sms_list \<Rightarrow> u8 list \<Rightarrow> int \<Rightarrow> int \<Rightarrow> (int \<times> gsmd_sms_list) option" where
  "sms_pdu_to_msg dst src pdulen len =
     (if len < 1 then Some (1, dst)
      else do {
        smsc \<leftarrow> rd src 0;
        if len < 1 + uint smsc + pdulen \<or> pdulen < 1 then Some (1, dst)
        else do {
          let dst = upd_payload (\<lambda>s. s\<lparr>is_voicemail := 0\<rparr>) dst;
          let len = len - (1 + uint smsc);
          let p = 1 + unat smsc;
          fo \<leftarrow> rd src p;
          let dst = upd_payload (\<lambda>s. s\<lparr>has_header :=
                      (if fo AND GSMD_SMS_TP_UDHI_WITH_HEADER \<noteq> 0 then 1 else 0)\<rparr>) dst;
          let vpf = unat (drop_bit 3 fo AND 3);
          let mti = fo AND 3;
          if mti = GSMD_SMS_TP_MTI_DELIVER then read_deliver dst src p len
          else if mti = GSMD_SMS_TP_MTI_SUBMIT then read_submit dst src p vpf len
          else if mti = GSMD_SMS_TP_MTI_STATUS_REPORT then read_status_report dst src p len
          else Some (1, dst)
        }
      })"

section \<open>Encoding: sms\_pdu\_make\_smssubmit\<close>

text \<open>The local array \<open>header[15 + GSMD_ADDR_MAXLEN]\<close>, filled from the front: \<open>pos\<close> is its length.\<close>

definition push_hdr :: "u8 list \<Rightarrow> u8 \<Rightarrow> u8 list option" where
  "push_hdr hdr b = (if length hdr < 15 + GSMD_ADDR_MAXLEN then Some (hdr @ [b]) else None)"

function semi_octets :: "u8 list \<Rightarrow> nat \<Rightarrow> u8 list \<Rightarrow> u8 list option" where
  "semi_octets num i hdr = do {
     c \<leftarrow> rd num i;
     if c = 0 then Some hdr
     else do {
       d \<leftarrow> rd num (Suc i);
       if d \<noteq> 0 then do {
         hdr' \<leftarrow> push_hdr hdr ((c - 0x30) OR push_bit 4 (d - 0x30));
         semi_octets num (Suc (Suc i)) hdr'
       }
       else push_hdr hdr ((c - 0x30) OR 0xf0)
     }
   }"
  by pat_completeness auto
termination
  by (relation "measure (\<lambda>(num, i, hdr). length num - i)") (auto simp: rd_eq_Some)

declare semi_octets.simps [simp del]

definition hex_digit :: "nat \<Rightarrow> char" where
  "hex_digit n = ''0123456789ABCDEF'' ! n"

text \<open>\<open>sprintf(dest, "%02X", b)\<close>.\<close>

definition hex02 :: "u8 \<Rightarrow> string" where
  "hex02 b = [hex_digit (unat b div 16), hex_digit (unat b mod 16)]"

text \<open>
  The octets that \<open>sms_pdu_make_smssubmit\<close> emits: the header and the user data. \<open>strlen\<close> is stored
  in one octet.
\<close>

definition smssubmit_header :: "gsmd_sms_submit \<Rightarrow> u8 list option" where
  "smssubmit_header src = do {
     n \<leftarrow> c_strlen (addr_number (sub_addr src));
     let hdr =
       [0x00,
        GSMD_SMS_TP_MTI_SUBMIT OR GSMD_SMS_TP_VPF_NOT_PRESENT OR
          (if ask_ds src \<noteq> 0 then GSMD_SMS_TP_SRR_STATUS_REQUEST
           else GSMD_SMS_TP_SRR_NOT_REQUEST) OR
          (if has_header (sub_payload src) \<noteq> 0 then GSMD_SMS_TP_UDHI_WITH_HEADER
           else GSMD_SMS_TP_UDHI_NO_HEADER) OR
          GSMD_SMS_TP_RP_NOT_SET,
        0x00,
        of_nat n,
        addr_type (sub_addr src)];
     hdr \<leftarrow> semi_octets (addr_number (sub_addr src)) 0 hdr;
     hdr \<leftarrow> push_hdr hdr 0x00;
     hdr \<leftarrow> push_hdr hdr (coding_scheme (sub_payload src));
     push_hdr hdr (sms_length (sub_payload src))
   }"

text \<open>
  The whole function: the hexadecimal text written to \<open>dest\<close> (empty for a null \<open>dest\<close>) and the
  return value. The user data are only read when there is a \<open>dest\<close>.
\<close>

definition sms_pdu_make_smssubmit :: "bool \<Rightarrow> gsmd_sms_submit \<Rightarrow> (string \<times> nat) option" where
  "sms_pdu_make_smssubmit dest src = do {
     hdr \<leftarrow> smssubmit_header src;
     let len = sms_data_bytelen (coding_scheme (sub_payload src)) (sms_length (sub_payload src));
     if dest then do {
       ud \<leftarrow> rdn (sms_data (sub_payload src)) 0 len;
       Some (concat (map hex02 (hdr @ ud)), length hdr + len)
     }
     else Some ([], length hdr + len)
   }"

section \<open>Cell broadcast: cbs\_pdu\_to\_msg\<close>

definition cbs_pdu_to_msg :: "gsmd_cbm \<Rightarrow> u8 list \<Rightarrow> int \<Rightarrow> int \<Rightarrow> (int \<times> gsmd_cbm) option" where
  "cbs_pdu_to_msg dst src pdulen len =
     (if len \<noteq> pdulen \<or> len \<noteq> int CBM_MAX_PDU_SIZE then Some (1, dst)
      else do {
        b0 \<leftarrow> rd src 0;
        b1 \<leftarrow> rd src 1;
        b2 \<leftarrow> rd src 2;
        b3 \<leftarrow> rd src 3;
        b4 \<leftarrow> rd src 4;
        b5 \<leftarrow> rd src 5;
        ud \<leftarrow> rdn src 6 (nat len - 6);
        d \<leftarrow> wrn (cbm_data dst) 0 ud;
        Some (0, \<lparr>
          scope = drop_bit 6 b0 AND 3,
          msg_code = (push_bit 4 (ucast b0) OR ucast (drop_bit 4 b1)) AND 0x3ff,
          update_num = b1 AND 0xf,
          msg_id = push_bit 8 (ucast b2) OR ucast b3,
          language = b4 AND 0xf,
          cbm_coding_scheme = push_bit 2 (drop_bit 4 b4 AND 3),
          pages = b5 AND 0xf,
          page = drop_bit 4 b5,
          cbm_data = d\<rparr>)
      })"

end
