(* ===== verification/Sms_Pdu_Laws.thy ===== *)
theory Sms_Pdu_Laws
  imports Sms_Pdu
begin

text \<open>
  What \<^verbatim>\<open>gsm/src/gsmd/sms_pdu.c\<close> promises, over the definitions of the theory Sms\_Pdu: the address
  codec as packing of semi-octets, memory safety of the decoder on every branch, the fields of a
  decoded DELIVER message, the readings of TP-DCS, the round trip of SUBMIT messages and the layout
  of cell broadcast pages.
\<close>

section \<open>Semi-octets\<close>

text \<open>The abstract packing of an address and the characters that survive it: \<open>0\<close> to \<open>?\<close>.\<close>

definition is_semi :: "u8 \<Rightarrow> bool" where
  "is_semi c \<longleftrightarrow> 0x30 \<le> c \<and> c < 0x40"

lemma is_semi_sub: "is_semi c \<Longrightarrow> c - 0x30 < 16" "is_semi c \<Longrightarrow> c \<noteq> 0"
  unfolding is_semi_def by unat_arith+

lemma is_semi_back: "0x30 + (c - 0x30) = (c :: u8)"
  by simp

fun semi_pack :: "u8 list \<Rightarrow> u8 list" where
  "semi_pack [] = []"
| "semi_pack [c] = [(c - 0x30) OR 0xf0]"
| "semi_pack (c # d # cs) = ((c - 0x30) OR push_bit 4 (d - 0x30)) # semi_pack cs"

lemma length_semi_pack [simp]: "length (semi_pack ds) = (length ds + 1) div 2"
  by (induction ds rule: semi_pack.induct) auto

lemma semi_octets_eq:
  assumes "0 \<notin> set ds" "length hdr + (length ds + 1) div 2 \<le> 15 + GSMD_ADDR_MAXLEN"
  shows "semi_octets (pre @ ds @ 0 # r) (length pre) hdr = Some (hdr @ semi_pack ds)"
  using assms
proof (induction ds arbitrary: pre hdr rule: semi_pack.induct)
  case 1
  then show ?case by (simp add: semi_octets.simps [of "pre @ 0 # r"] rd_def nth_append)
next
  case (2 c)
  then show ?case
    by (simp add: semi_octets.simps [of "pre @ c # 0 # r"] rd_def nth_append push_hdr_def)
next
  case (3 c d cs)
  let ?b = "(c - 0x30) OR push_bit 4 (d - 0x30)"
  have "semi_octets ((pre @ [c, d]) @ cs @ 0 # r) (length (pre @ [c, d])) (hdr @ [?b]) =
      Some ((hdr @ [?b]) @ semi_pack cs)"
    using "3.prems" by (intro "3.IH") auto
  then show ?case
    using "3.prems"
    by (simp add: semi_octets.simps [of "pre @ c # d # cs @ 0 # r" "length pre"] rd_def nth_append push_hdr_def)
qed

lemma semi_pack_nth:
  assumes "\<forall>c \<in> set ds. is_semi c" "k < length ds"
  shows "0x30 + (drop_bit (if odd k then 4 else 0) (semi_pack ds ! (k div 2)) AND 0xf) = ds ! k"
  using assms
proof (induction ds arbitrary: k rule: semi_pack.induct)
  case (2 c)
  then show ?case by (simp add: nibble_fill nibble_small is_semi_sub)
next
  case (3 c d cs)
  consider "k = 0" | "k = 1" | k' where "k = Suc (Suc k')" by (metis One_nat_def not0_implies_Suc)
  then show ?case
    using 3
    by cases (simp_all add: nibble_low nibble_high nibble_small nibble_small_high is_semi_sub)
qed simp

section \<open>Reading an address\<close>

lemma alnum_index:
  fixes i n :: nat
  assumes "(i * 7 + 3) div 4 < n"
  shows "(i * 7 + 7) div 8 \<le> (n + 1) div 2" and "(i * 7) div 8 \<le> (n + 1) div 2"
  using assms by auto

lemma alnum_loop_ok:
  assumes "n \<le> GSMD_ADDR_MAXLEN" "length num = GSMD_ADDR_MAXLEN + 1"
    and "p + 2 + (n + 1) div 2 < length src" "i \<le> 18"
  shows "\<exists>j num'. alnum_loop src p n i num = Some (j, num') \<and> j \<le> 18 \<and> length num' = length num"
  using assms
proof (induction src p n i num rule: alnum_loop.induct)
  case (1 src p n i num)
  show ?case
  proof (cases "(i * 7 + 3) div 4 < n")
    case True
    have i: "i < 18" using True "1.prems"(1) by auto
    obtain hi lo where rds: "rd src (p + 2 + (i * 7 + 7) div 8) = Some hi" "rd src (p + 2 + (i * 7) div 8) = Some lo"
      using alnum_index [OF True] "1.prems"(3) by (auto simp: rd_def)
    let ?num' = "num[i := septet hi lo i]"
    have w: "wr num i (septet hi lo i) = Some ?num'"
      using i "1.prems"(2) by (simp add: mem_simps)
    obtain j num' where "alnum_loop src p n (Suc i) ?num' = Some (j, num')" "j \<le> 18" "length num' = length num"
      using "1.IH" [OF True rds w] i "1.prems" by auto
    then show ?thesis
      using True rds w by (simp add: alnum_loop.simps [of src p n i num])
  next
    case False
    then show ?thesis using "1.prems" by (simp add: alnum_loop.simps [of src p n i num])
  qed
qed

definition semi_digit :: "u8 list \<Rightarrow> nat \<Rightarrow> nat \<Rightarrow> u8" where
  "semi_digit src p k = 0x30 + (drop_bit (if odd k then 4 else 0) (src ! (p + 2 + k div 2)) AND 0xf)"

lemma digit_loop_eq:
  assumes "n < length num" "i \<le> n" "p + 2 + (n + 1) div 2 \<le> length src"
  shows "digit_loop src p n i num = Some (n, take i num @ map (semi_digit src p) [i..<n] @ drop n num)"
  using assms
proof (induction src p n i num rule: digit_loop.induct)
  case (1 src p n i num)
  show ?case
  proof (cases "i < n")
    case True
    have r: "rd src (p + 2 + i div 2) = Some (src ! (p + 2 + i div 2))"
      using True "1.prems"(3) by (simp add: rd_def)
    let ?num' = "num[i := semi_digit src p i]"
    have w: "wr num i (semi_digit src p i) = Some ?num'"
      using True "1.prems"(1) by (simp add: mem_simps)
    have t: "take (Suc i) ?num' = take i num @ [semi_digit src p i]"
      using True "1.prems"(1) by (simp add: take_Suc_nth)
    have "digit_loop src p n (Suc i) ?num' =
        Some (n, take (Suc i) ?num' @ map (semi_digit src p) [Suc i..<n] @ drop n ?num')"
      using "1.IH" [OF True r w[unfolded semi_digit_def]] True "1.prems" by (simp add: semi_digit_def)
    moreover have "drop n ?num' = drop n num" using True by simp
    ultimately show ?thesis
      using True r w t by (simp add: digit_loop.simps [of src p n i num] semi_digit_def upt_conv_Cons)
  next
    case False
    then have "i = n" using "1.prems" by simp
    then show ?thesis by (simp add: digit_loop.simps [of src p n n num])
  qed
qed

lemma sms_address2ascii_ok:
  assumes "wf_addr a" "p + 2 + (unat (src ! p) + 1) div 2 < length src"
  shows "\<exists>rc a'. sms_address2ascii a src p = Some (rc, a') \<and> wf_addr a' \<and> (rc = 0 \<or> rc = 1)"
proof (cases "unat (src ! p) > GSMD_ADDR_MAXLEN")
  case True
  then show ?thesis using assms by (simp add: sms_address2ascii_def mem_simps)
next
  case False
  let ?n = "unat (src ! p)"
  have n: "?n \<le> GSMD_ADDR_MAXLEN" and num: "length (addr_number a) = GSMD_ADDR_MAXLEN + 1"
    using False assms(1) by (auto simp: wf_addr_def)
  obtain j num' where a: "alnum_loop src p ?n 0 (addr_number a) = Some (j, num')" "j \<le> 18" "length num' = GSMD_ADDR_MAXLEN + 1"
    using alnum_loop_ok [OF n num assms(2), of 0] num by auto
  have d: "digit_loop src p ?n 0 (addr_number a) = Some (?n, map (semi_digit src p) [0..<?n] @ drop ?n (addr_number a))"
    using digit_loop_eq [of ?n "addr_number a" 0 p src] n num assms(2) by simp
  show ?thesis
    using False assms(2) a d n num
    by (auto simp: sms_address2ascii_def mem_simps wf_addr_def)
qed

section \<open>Memory safety of the decoder\<close>

text \<open>A run of the decoder that stays inside its buffers and leaves a well-formed structure.\<close>

definition decodes_ok :: "(int \<times> gsmd_sms_list) option \<Rightarrow> bool" where
  "decodes_ok r = (case r of None \<Rightarrow> False | Some (rc, m) \<Rightarrow> wf_sms_list m \<and> (rc = 0 \<or> rc = 1))"

lemma decodes_ok_Some [simp]: "decodes_ok (Some (rc, m)) \<longleftrightarrow> wf_sms_list m \<and> (rc = 0 \<or> rc = 1)"
  by (simp add: decodes_ok_def)

lemma decodes_okE:
  assumes "decodes_ok r"
  obtains rc m where "r = Some (rc, m)" "wf_sms_list m" "rc = 0 \<or> rc = 1"
  using assms by (auto simp: decodes_ok_def split: option.splits)

lemma upd_payload_sel [simp]:
  "sl_payload (upd_payload f m) = f (sl_payload m)"
  "sl_addr (upd_payload f m) = sl_addr m"
  "time_stamp (upd_payload f m) = time_stamp m"
  "sl_index (upd_payload f m) = sl_index m"
  "sl_stat (upd_payload f m) = sl_stat m"
  "is_last (upd_payload f m) = is_last m"
  by (simp_all add: upd_payload_def)

lemma wf_upd_payload [simp]:
  "(\<And>s. wf_sms s \<Longrightarrow> wf_sms (f s)) \<Longrightarrow> wf_sms_list m \<Longrightarrow> wf_sms_list (upd_payload f m)"
  by (simp add: wf_sms_list_def upd_payload_def)

lemma wf_sms_list_updates [simp]:
  "wf_sms_list m \<Longrightarrow> wf_addr a \<Longrightarrow> wf_sms_list (m\<lparr>sl_addr := a\<rparr>)"
  "wf_sms_list m \<Longrightarrow> length ts = 7 \<Longrightarrow> wf_sms_list (m\<lparr>time_stamp := ts\<rparr>)"
  "wf_sms_list (m\<lparr>sl_index := k\<rparr>) \<longleftrightarrow> wf_sms_list m"
  by (simp_all add: wf_sms_list_def)

lemma wf_sms_updates [simp]:
  "wf_sms (s\<lparr>sms_length := a\<rparr>) \<longleftrightarrow> wf_sms s"
  "wf_sms (s\<lparr>coding_scheme := a\<rparr>) \<longleftrightarrow> wf_sms s"
  "wf_sms (s\<lparr>has_header := b\<rparr>) \<longleftrightarrow> wf_sms s"
  "wf_sms (s\<lparr>is_voicemail := b\<rparr>) \<longleftrightarrow> wf_sms s"
  "wf_sms (s\<lparr>dcs := d\<rparr>) \<longleftrightarrow> wf_sms s"
  "wf_sms (s\<lparr>sms_data := x\<rparr>) \<longleftrightarrow> length x = GSMD_SMS_DATA_MAXLEN + 1"
  "wf_sms (mark_voicemail s) \<longleftrightarrow> wf_sms s"
  by (simp_all add: wf_sms_def mark_voicemail_def)

lemma wf_sms_listD:
  assumes "wf_sms_list m"
  shows "wf_addr (sl_addr m)" "length (sms_data (sl_payload m)) = GSMD_SMS_DATA_MAXLEN + 1"
  using assms by (simp_all add: wf_sms_list_def wf_sms_def)

lemma read_user_data_ok:
  assumes "wf_sms_list m" "int p + len \<le> int (length src)" "1 \<le> len"
  shows "decodes_ok (read_user_data m src p len)"
  using assms wf_sms_listD [OF assms(1)]
  by (auto simp: read_user_data_def mem_simps Let_def)

lemma number_bytelen [simp]: "sms_number_bytelen ty ln = (unat ln + 1) div 2"
  by (simp add: sms_number_bytelen_def)

lemma read_deliver_ok:
  assumes wf: "wf_sms_list m" and len: "int p + len \<le> int (length src)"
  shows "decodes_ok (read_deliver m src p len)"
proof (cases "len < 3 \<or> len < 13 + int ((unat (src ! (p + 1)) + 1) div 2)")
  case True
  then show ?thesis
    using wf len by (auto simp: read_deliver_def mem_simps)
next
  case False
  let ?i = "(unat (src ! (p + 1)) + 1) div 2"
  have b: "p + 13 + ?i \<le> length src" "\<not> len < 3" "\<not> len < 13 + int ?i" using False len by auto
  obtain rc a where a: "sms_address2ascii (sl_addr m) src (p + 1) = Some (rc, a)" "wf_addr a"
    using sms_address2ascii_ok [OF wf_sms_listD(1) [OF wf], of "p + 1" src] b(1) by auto
  show ?thesis
    using b wf a len
    by (auto simp: read_deliver_def mem_simps Let_def split: option.split intro!: read_user_data_ok)
qed

lemma read_submit_ok:
  assumes wf: "wf_sms_list m" and len: "int p + len \<le> int (length src)"
  shows "decodes_ok (read_submit m src p vpf len)"
proof (cases "len < 4 \<or> len < 8 + int ((unat (src ! (p + 2)) + 1) div 2)")
  case True
  then show ?thesis
    using wf len by (auto simp: read_submit_def mem_simps)
next
  case False
  let ?i = "(unat (src ! (p + 2)) + 1) div 2"
  have b: "p + 8 + ?i \<le> length src" "\<not> len < 4" "\<not> len < 8 + int ?i" using False len by auto
  obtain rc a where a: "sms_address2ascii (sl_addr m) src (p + 2) = Some (rc, a)" "wf_addr a"
    using sms_address2ascii_ok [OF wf_sms_listD(1) [OF wf], of "p + 2" src] b(1) by auto
  show ?thesis
    using b wf a len
    by (auto simp: read_submit_def mem_simps Let_def split: option.split intro!: read_user_data_ok)
qed

lemma read_status_report_ok:
  assumes wf: "wf_sms_list m" and len: "int p + len \<le> int (length src)" and four: "p + 4 \<le> length src"
  shows "decodes_ok (read_status_report m src p len)"
proof (cases "len < 3 \<or> len < 13 + int ((unat (src ! (p + 2)) + 1) div 2)")
  case True
  then show ?thesis
    using wf len four by (auto simp: read_status_report_def mem_simps)
next
  case False
  let ?i = "(unat (src ! (p + 2)) + 1) div 2"
  have b: "p + 13 + ?i \<le> length src" "\<not> len < 3" "\<not> len < 13 + int ?i" using False len by auto
  obtain rc a where a: "sms_address2ascii (sl_addr m) src (p + 2) = Some (rc, a)" "wf_addr a"
    using sms_address2ascii_ok [OF wf_sms_listD(1) [OF wf], of "p + 2" src] b(1) by auto
  have n: "p + nat (len - 1) < length src" using len b by simp
  show ?thesis
    using b wf a len n four wf_sms_listD [OF wf]
    by (auto simp: read_status_report_def mem_simps Let_def)
qed

lemma sms_pdu_to_msg_ok:
  assumes wf: "wf_sms_list m" and len: "len < int (length src)"
  shows "decodes_ok (sms_pdu_to_msg m src pdulen len)"
proof (cases "len < 1 \<or> len < 1 + uint (src ! 0) + pdulen \<or> pdulen < 1")
  case True
  have "rd src 0 = Some (src ! 0)" if "\<not> len < 1" using that len by (intro rd_in) linarith
  then show ?thesis using True wf by (auto simp: sms_pdu_to_msg_def)
next
  case False
  let ?p = "1 + unat (src ! 0)" and ?l = "len - (1 + uint (src ! 0))"
  let ?fo = "src ! ?p"
  let ?m = "upd_payload (\<lambda>s. s\<lparr>has_header := (if ?fo AND 64 \<noteq> 0 then 1 else 0)\<rparr>)
              (upd_payload (\<lambda>s. s\<lparr>is_voicemail := 0\<rparr>) m)"
  have u: "int (unat (src ! 0)) = uint (src ! 0)" by simp
  have p: "int ?p + ?l \<le> int (length src)" "?p < length src"
    using False len u by linarith+
  have r: "rd src 0 = Some (src ! 0)" "rd src ?p = Some ?fo"
    using p(2) by (auto intro!: rd_in)
  have m: "wf_sms_list ?m" using wf by simp
  have st: "decodes_ok (read_status_report ?m src ?p ?l)"
  proof (cases "?l < 3")
    case True
    then show ?thesis using m by (simp add: read_status_report_def)
  next
    case False
    then have "?p + 4 \<le> length src" using len u by linarith
    then show ?thesis by (rule read_status_report_ok [OF m p(1)])
  qed
  have "sms_pdu_to_msg m src pdulen len =
     (if ?fo AND 3 = 0 then read_deliver ?m src ?p ?l
      else if ?fo AND 3 = 1 then read_submit ?m src ?p (unat (drop_bit 3 ?fo AND 3)) ?l
      else if ?fo AND 3 = 2 then read_status_report ?m src ?p ?l
      else Some (1, ?m))"
    unfolding sms_pdu_to_msg_def r Let_def using False by (simp add: r [simplified])
  then show ?thesis
    using read_deliver_ok [OF m p(1)] read_submit_ok [OF m p(1)] st m
    by (simp split: if_split)
qed


section \<open>Encoding and decoding again\<close>

text \<open>The first octet of the TPDU and the octets that the encoder emits, in closed form.\<close>

definition first_octet :: "gsmd_sms_submit \<Rightarrow> u8" where
  "first_octet s = 1 OR (if ask_ds s \<noteq> 0 then 32 else 0) OR (if has_header (sub_payload s) \<noteq> 0 then 64 else 0)"

lemma first_octet_bits:
  "first_octet s AND 3 = 1" "drop_bit 3 (first_octet s) AND 3 = 0"
  "first_octet s AND 64 = 0 \<longleftrightarrow> has_header (sub_payload s) = 0"
  by (simp_all add: first_octet_def)

lemma smssubmit_header_eq:
  assumes num: "addr_number (sub_addr s) = ds @ 0 # r" and ds: "0 \<notin> set ds" "length ds \<le> GSMD_ADDR_MAXLEN"
  shows "smssubmit_header s = Some ([0, first_octet s, 0, of_nat (length ds), addr_type (sub_addr s)] @ semi_pack ds @
           [0, coding_scheme (sub_payload s), sms_length (sub_payload s)])"
proof -
  have "semi_octets (ds @ 0 # r) 0 hdr = Some (hdr @ semi_pack ds)" if "length hdr = 5" for hdr
    using semi_octets_eq [of ds hdr "[]" r] ds that by simp
  then show ?thesis
    using ds by (simp add: smssubmit_header_def num Let_def push_hdr_def first_octet_def)
qed

definition smssubmit_octets :: "gsmd_sms_submit \<Rightarrow> u8 list \<Rightarrow> u8 list" where
  "smssubmit_octets s ds =
     [0, first_octet s, 0, of_nat (length ds), addr_type (sub_addr s)] @ semi_pack ds @
     [0, coding_scheme (sub_payload s), sms_length (sub_payload s)] @
     take (sms_data_bytelen (coding_scheme (sub_payload s)) (sms_length (sub_payload s))) (sms_data (sub_payload s))"

lemma length_hex02 [simp]: "length (hex02 b) = 2"
  by (simp add: hex02_def)

lemma length_hexs [simp]: "length (concat (map hex02 bs)) = 2 * length bs"
  by (induction bs) (auto simp: hex02_def)

lemma make_smssubmit_eq:
  assumes num: "addr_number (sub_addr s) = ds @ 0 # r" and ds: "0 \<notin> set ds" "length ds \<le> GSMD_ADDR_MAXLEN"
    and n: "sms_data_bytelen (coding_scheme (sub_payload s)) (sms_length (sub_payload s)) \<le> length (sms_data (sub_payload s))"
  shows "sms_pdu_make_smssubmit True s = Some (concat (map hex02 (smssubmit_octets s ds)), length (smssubmit_octets s ds))"
    and "sms_pdu_make_smssubmit False s = Some ([], length (smssubmit_octets s ds))"
  using n
  by (simp_all add: sms_pdu_make_smssubmit_def smssubmit_header_eq [OF num ds] smssubmit_octets_def mem_simps Let_def)

lemma digits_decode:
  assumes "\<forall>c \<in> set ds. is_semi c" "length ds \<le> GSMD_ADDR_MAXLEN" "length num = GSMD_ADDR_MAXLEN + 1"
  shows "digit_loop (pre @ of_nat (length ds) # ty # semi_pack ds @ r) (length pre) (length ds) 0 num =
           Some (length ds, ds @ drop (length ds) num)"
proof -
  have "map (semi_digit (pre @ of_nat (length ds) # ty # semi_pack ds @ r) (length pre)) [0..<length ds] = ds"
    using semi_pack_nth [OF assms(1)]
    by (intro nth_equalityI) (auto simp: semi_digit_def nth_append)
  then show ?thesis
    using digit_loop_eq [of "length ds" num 0 "length pre" "pre @ of_nat (length ds) # ty # semi_pack ds @ r"] assms(2,3)
    by simp
qed

lemma address_decode:
  assumes "\<forall>c \<in> set ds. is_semi c" "length ds \<le> GSMD_ADDR_MAXLEN" "wf_addr a"
    and "ty AND GSMD_TOA_TON_MASK \<noteq> GSMD_TOA_TON_ALPHANUMERIC"
  shows "sms_address2ascii a (pre @ of_nat (length ds) # ty # semi_pack ds @ r) (length pre) =
           Some (0, \<lparr>addr_type = ty, addr_number = ds @ 0 # drop (length ds + 1) (addr_number a)\<rparr>)"
proof -
  let ?src = "pre @ of_nat (length ds) # ty # semi_pack ds @ r"
  have n: "unat (of_nat (length ds) :: u8) = length ds"
    using assms(2) by (simp add: unat_of_nat)
  have l: "length (addr_number a) = GSMD_ADDR_MAXLEN + 1" using assms(3) by (simp add: wf_addr_def)
  obtain x where x: "drop (length ds) (addr_number a) = x # drop (Suc (length ds)) (addr_number a)"
    using assms(2) l by (metis Cons_nth_drop_Suc Suc_eq_plus1 le_imp_less_Suc)
  show ?thesis
    using digits_decode [OF assms(1,2) l, of pre ty r] assms(2,4) n l x
    by (simp add: sms_address2ascii_def rd_def nth_append wr_def list_update_append)
qed

lemma read_submit_success:
  assumes "rd src (p + 2) = Some ln" "rd src (p + 3) = Some ty" "k = (unat ln + 1) div 2"
    and "8 + int k \<le> len" "sms_address2ascii (sl_addr m) src (p + 2) = Some (0, a)"
    and "rd src (p + 4 + k + 1) = Some b" "dcs_coding_scheme b = Some cs"
  shows "read_submit m src p 0 len =
     read_user_data ((upd_payload (\<lambda>x. x\<lparr>coding_scheme := cs\<rparr>) (m\<lparr>sl_addr := a\<rparr>))\<lparr>time_stamp := replicate 7 0\<rparr>)
       src (p + 4 + k + 2) (len - (4 + int k) - 2)"
  using assms by (simp add: read_submit_def Let_def)

section \<open>What a decoded message contains\<close>

text \<open>The user data of \<open>s\<close> are those that start with the length octet at \<open>p\<close>.\<close>

definition user_data_at :: "gsmd_sms \<Rightarrow> u8 list \<Rightarrow> nat \<Rightarrow> bool" where
  "user_data_at s src p \<longleftrightarrow>
     (let n = sms_data_bytelen (coding_scheme s) (sms_length s)
      in sms_length s = src ! p \<and> n \<le> GSMD_SMS_DATA_MAXLEN \<and>
         take n (sms_data s) = take n (drop (p + 1) src) \<and> sms_data s ! n = 0)"

lemma read_user_data_SomeD:
  assumes "read_user_data m src p len = Some (0, m')" "wf_sms_list m"
  shows "user_data_at (sl_payload m') src p"
    and "sl_addr m' = sl_addr m" "time_stamp m' = time_stamp m"
    and "coding_scheme (sl_payload m') = coding_scheme (sl_payload m)"
    and "is_voicemail (sl_payload m') = is_voicemail (sl_payload m)"
    and "dcs (sl_payload m') = dcs (sl_payload m)"
    and "has_header (sl_payload m') = has_header (sl_payload m)"
  using assms wf_sms_listD [OF assms(2)]
  by (auto simp: read_user_data_def Let_def rd_def rdn_def wrn_def wr_def user_data_at_def
      split: if_splits bind_splits)

definition deliver_fields :: "gsmd_sms_list \<Rightarrow> gsmd_addr \<Rightarrow> u8 \<Rightarrow> u8 \<Rightarrow> u8 \<Rightarrow> u8 list \<Rightarrow> gsmd_sms_list" where
  "deliver_fields m a pid b cs scts =
     (upd_payload (\<lambda>s. s\<lparr>coding_scheme := cs\<rparr>)
       (upd_payload mark_voicemail
         (upd_payload (\<lambda>s. s\<lparr>dcs := sms_pdu_decode_dcs (dcs s) b\<rparr>)
           (if pid = 0x5f then upd_payload (\<lambda>s. s\<lparr>is_voicemail := 1\<rparr>) (m\<lparr>sl_addr := a\<rparr>)
            else m\<lparr>sl_addr := a\<rparr>))))\<lparr>time_stamp := scts\<rparr>"

lemma read_deliver_SomeE:
  assumes "read_deliver m src p len = Some (0, m')"
  defines "k \<equiv> (unat (src ! (p + 1)) + 1) div 2"
  obtains a cs where "sms_address2ascii (sl_addr m) src (p + 1) = Some (0, a)"
    and "dcs_coding_scheme (src ! (p + k + 4)) = Some cs" and "p + k + 12 \<le> length src"
    and "read_user_data
      (deliver_fields m a (src ! (p + k + 3)) (src ! (p + k + 4)) cs (take 7 (drop (p + k + 5) src)))
      src (p + k + 12) (len - (12 + int k)) = Some (0, m')"
  using assms(1)
  by (auto simp: read_deliver_def Let_def rd_def rdn_def k_def deliver_fields_def algebra_simps
      split: if_splits bind_splits option.splits)

section \<open>The data coding scheme, bit by bit\<close>

lemma dcs_bits: 
  fixes b :: u8
  shows "drop_bit 6 b AND 3 = 3 \<longleftrightarrow> bit b 7 \<and> bit b 6"
   "drop_bit 6 b AND 3 = 0 \<longleftrightarrow> \<not> bit b 7 \<and> \<not> bit b 6"
   "b AND 0x30 = 0x30 \<longleftrightarrow> bit b 5 \<and> bit b 4"
   "b AND 0x30 = 0x10 \<longleftrightarrow> \<not> bit b 5 \<and> bit b 4"
   "b AND 0xC0 = 0xC0 \<longleftrightarrow> bit b 7 \<and> bit b 6"
   "b AND 3 = 0 \<longleftrightarrow> \<not> bit b 1 \<and> \<not> bit b 0"
   "b AND 0x30 = 0 \<longleftrightarrow> \<not> bit b 5 \<and> \<not> bit b 4"
   "b AND 4 = 0 \<longleftrightarrow> \<not> bit b 2"
   "b AND 8 = 0 \<longleftrightarrow> \<not> bit b 3"
   "b AND 0x10 = 0 \<longleftrightarrow> \<not> bit b 4"
   "drop_bit 2 b AND 3 = (if bit b 3 then if bit b 2 then 3 else 2 else if bit b 2 then 1 else 0)"
   "drop_bit 4 b = 0xc \<longleftrightarrow> bit b 7 \<and> bit b 6 \<and> \<not> bit b 5 \<and> \<not> bit b 4"
  by (auto simp: word8_eq_bits bit_simps)

lemma dcs_decode_sel:
  "mwi_kind (sms_pdu_decode_dcs d b) = (if bit b 7 \<and> bit b 6 \<and> \<not> (bit b 5 \<and> bit b 4) then b AND 3 else 3)"
  "mwi_group (sms_pdu_decode_dcs d b) =
     (if bit b 7 \<and> bit b 6 then if bit b 5 \<and> bit b 4 then 3 else if \<not> bit b 5 \<and> \<not> bit b 4 then 1 else 2 else 0)"
  "mwi_active (sms_pdu_decode_dcs d b) = (if bit b 7 \<and> bit b 6 \<and> \<not> (bit b 5 \<and> bit b 4) \<and> bit b 3 then 1 else 0)"
  "raw_dcs_data (sms_pdu_decode_dcs d b) = b"
  by (auto simp: sms_pdu_decode_dcs_def Let_def dcs_bits bit_simps)

lemma dcs_decode_alphabet:
  "alphabet (sms_pdu_decode_dcs d b) =
     (if bit b 7 \<and> bit b 6 then
        if bit b 5 \<and> bit b 4 then if bit b 2 then 1 else 0
        else if bit b 5 then 2 else 0
      else if \<not> bit b 7 \<and> \<not> bit b 6 then
        if bit b 3 then if bit b 2 then 0 else 2 else if bit b 2 then 1 else 0
      else 0)"
  by (auto simp: sms_pdu_decode_dcs_def Let_def dcs_bits bit_simps)

lemma dcs_coding_scheme_bits:
  "dcs_coding_scheme b =
     (if \<not> bit b 7 \<and> \<not> bit b 6 \<or> bit b 7 \<and> bit b 6 \<and> \<not> bit b 5 \<and> \<not> bit b 4 then Some (b AND 0xc)
      else if bit b 7 \<and> bit b 6 then
        if \<not> bit b 5 then Some 0 else if \<not> bit b 4 then Some 64 else Some (if bit b 2 then 4 else 0)
      else None)"
proof -
  have "drop_bit 4 b \<le> 3 \<longleftrightarrow> drop_bit 2 (drop_bit 4 b) = 0"
    by (auto simp: word_le_nat_alt word_unat_eq_iff drop_bit_eq_div unat_div)
  then have "drop_bit 4 b \<le> 3 \<longleftrightarrow> \<not> bit b 7 \<and> \<not> bit b 6"
    by (auto simp: word8_eq_bits bit_simps)
  moreover have "drop_bit 4 b = 0xd \<longleftrightarrow> bit b 7 \<and> bit b 6 \<and> \<not> bit b 5 \<and> bit b 4"
    "drop_bit 4 b = 0xe \<longleftrightarrow> bit b 7 \<and> bit b 6 \<and> bit b 5 \<and> \<not> bit b 4"
    "drop_bit 4 b = 0xf \<longleftrightarrow> bit b 7 \<and> bit b 6 \<and> bit b 5 \<and> bit b 4"
    by (auto simp: word8_eq_bits bit_simps)
  ultimately show ?thesis
    by (auto simp: dcs_coding_scheme_def Let_def dcs_bits)
qed

lemma and_bits:
  fixes b :: u8
  shows "b AND 0xF0 = 0xC0 \<longleftrightarrow> bit b 7 \<and> bit b 6 \<and> \<not> bit b 5 \<and> \<not> bit b 4"
    and "b AND 0xCC = 0x0C \<longleftrightarrow> \<not> bit b 7 \<and> \<not> bit b 6 \<and> bit b 3 \<and> bit b 2"
    and "b AND 0xC = (if bit b 3 then if bit b 2 then 12 else 8 else if bit b 2 then 4 else 0)"
  by (auto simp: word8_eq_bits bit_simps)

lemma alphabet_agrees:
  assumes "dcs_coding_scheme b = Some cs" "b AND 0xF0 \<noteq> 0xC0" "b AND 0xCC \<noteq> 0x0C"
  shows "alphabet (sms_pdu_decode_dcs d b) = 0 \<longleftrightarrow> cs = ALPHABET_DEFAULT"
    and "alphabet (sms_pdu_decode_dcs d b) = 1 \<longleftrightarrow> cs = ALPHABET_8BIT"
    and "alphabet (sms_pdu_decode_dcs d b) = 2 \<longleftrightarrow> cs = 8 \<or> cs = ALPHABET_UCS2"
  using assms by (auto simp: dcs_coding_scheme_bits dcs_decode_alphabet and_bits split: if_splits)

section \<open>Inversion of a successful DELIVER\<close>

lemma deliver_fields_simps:
  "coding_scheme (sl_payload (deliver_fields m a pid b cs ts)) = cs"
  "dcs (sl_payload (deliver_fields m a pid b cs ts)) = sms_pdu_decode_dcs (dcs (sl_payload m)) b"
  "time_stamp (deliver_fields m a pid b cs ts) = ts"
  "sl_addr (deliver_fields m a pid b cs ts) = a"
  "wf_sms_list m \<Longrightarrow> wf_addr a \<Longrightarrow> length ts = 7 \<Longrightarrow> wf_sms_list (deliver_fields m a pid b cs ts)"
  by (auto simp: deliver_fields_def mark_voicemail_def)

lemma deliver_fields_voicemail:
  assumes "is_voicemail (sl_payload m) = 0"
  shows "is_voicemail (sl_payload (deliver_fields m a pid b cs ts)) =
    (if pid = 0x5f \<or> b AND 0xC0 = 0xC0 \<and> b AND 0x30 \<noteq> 0x30 \<and> b AND 3 = 0 then 1 else 0)"
  using assms by (auto simp: deliver_fields_def mark_voicemail_def dcs_decode_sel dcs_bits)

lemma sms_address2ascii_Some0D:
  assumes "sms_address2ascii a src p = Some (0, a')" "wf_addr a"
  shows "wf_addr a'"
proof -
  have "length num' = length num" if "alnum_loop src p n i num = Some (j, num')" for src p n i num j num'
    using that
    by (induction src p n i num rule: alnum_loop.induct)
       (subst (asm) alnum_loop.simps, auto split: if_splits bind_splits simp: wr_eq_Some)
  moreover have "length num' = length num" if "digit_loop src p n i num = Some (j, num')" for src p n i num j num'
    using that
    by (induction src p n i num rule: digit_loop.induct)
       (subst (asm) digit_loop.simps, auto split: if_splits bind_splits simp: wr_eq_Some)
  ultimately show ?thesis
    using assms by (fastforce simp: sms_address2ascii_def wf_addr_def wr_eq_Some split: if_splits bind_splits)
qed

lemma sms_pdu_to_msg_deliverD:
  assumes "sms_pdu_to_msg m src pdulen len = Some (0, m')"
    and "src ! (1 + unat (src ! 0)) AND 3 = GSMD_SMS_TP_MTI_DELIVER"
  shows "\<exists>m0. read_deliver m0 src (1 + unat (src ! 0)) (len - (1 + uint (src ! 0))) = Some (0, m') \<and>
     is_voicemail (sl_payload m0) = 0 \<and> dcs (sl_payload m0) = dcs (sl_payload m) \<and> (wf_sms_list m \<longrightarrow> wf_sms_list m0)"
  using assms
  by (auto simp: sms_pdu_to_msg_def Let_def rd_eq_Some split: if_splits bind_splits)

lemma deliver_fields_of_run:
  fixes m m' :: gsmd_sms_list and src :: "u8 list"
  assumes run: "sms_pdu_to_msg m src pdulen len = Some (0, m')" and wf: "wf_sms_list m"
    and mti: "src ! (1 + unat (src ! 0)) AND 3 = GSMD_SMS_TP_MTI_DELIVER"
  defines "p \<equiv> 1 + unat (src ! 0)"
  defines "k \<equiv> (unat (src ! (p + 1)) + 1) div 2"
  defines "b \<equiv> src ! (p + k + 4)"
  shows "dcs_coding_scheme b = Some (coding_scheme (sl_payload m')) \<and>
     dcs (sl_payload m') = sms_pdu_decode_dcs (dcs (sl_payload m)) b \<and>
     time_stamp m' = take 7 (drop (p + k + 5) src) \<and>
     user_data_at (sl_payload m') src (p + k + 12) \<and>
     is_voicemail (sl_payload m') =
       (if src ! (p + k + 3) = 0x5f \<or> b AND 0xC0 = 0xC0 \<and> b AND 0x30 \<noteq> 0x30 \<and> b AND 3 = 0 then 1 else 0)"
proof -
  obtain m0 where m0: "read_deliver m0 src p (len - (1 + uint (src ! 0))) = Some (0, m')"
      "is_voicemail (sl_payload m0) = 0" "dcs (sl_payload m0) = dcs (sl_payload m)" "wf_sms_list m0"
    using sms_pdu_to_msg_deliverD [OF run] mti wf by (auto simp: p_def)
  obtain a cs where d: "sms_address2ascii (sl_addr m0) src (p + 1) = Some (0, a)"
      "dcs_coding_scheme b = Some cs" "p + k + 12 \<le> length src"
      "read_user_data (deliver_fields m0 a (src ! (p + k + 3)) b cs (take 7 (drop (p + k + 5) src)))
        src (p + k + 12) (len - (1 + uint (src ! 0)) - (12 + int k)) = Some (0, m')"
    using read_deliver_SomeE [OF m0(1)] by (auto simp: k_def b_def)
  have w: "wf_sms_list (deliver_fields m0 a (src ! (p + k + 3)) b cs (take 7 (drop (p + k + 5) src)))"
    using sms_address2ascii_Some0D [OF d(1) wf_sms_listD(1) [OF m0(4)]] m0(4) d(3)
    by (simp add: deliver_fields_simps)
  show ?thesis
    using read_user_data_SomeD [OF d(4) w] d(2) m0(3)
    by (simp add: deliver_fields_simps deliver_fields_voicemail [OF m0(2)])
qed

text \<open>The octets of a SUBMIT message, where its fields stand.\<close>

lemma submit_octets_split:
  assumes "length ds \<le> GSMD_ADDR_MAXLEN" "n \<le> length (sms_data (sub_payload s))"
    and n: "n = sms_data_bytelen (coding_scheme (sub_payload s)) (sms_length (sub_payload s))"
  defines "pdu \<equiv> smssubmit_octets s ds" and "k \<equiv> (length ds + 1) div 2"
  shows "pdu = [0, first_octet s, 0] @ of_nat (length ds) # addr_type (sub_addr s) # semi_pack ds @
      ([0, coding_scheme (sub_payload s), sms_length (sub_payload s)] @ take n (sms_data (sub_payload s)))"
    and "length pdu = 8 + k + n"
    and "rd pdu 0 = Some 0" "rd pdu 1 = Some (first_octet s)" "rd pdu 3 = Some (of_nat (length ds))"
    and "rd pdu 4 = Some (addr_type (sub_addr s))" "rd pdu (k + 6) = Some (coding_scheme (sub_payload s))"
    and "rd pdu (k + 7) = Some (sms_length (sub_payload s))"
    and "rdn pdu (k + 8) n = Some (take n (sms_data (sub_payload s)))"
proof -
  let ?ud = "take n (sms_data (sub_payload s))"
  show pdu: "pdu = [0, first_octet s, 0] @ of_nat (length ds) # addr_type (sub_addr s) # semi_pack ds @
      ([0, coding_scheme (sub_payload s), sms_length (sub_payload s)] @ take n (sms_data (sub_payload s)))"
    by (simp add: pdu_def smssubmit_octets_def n(1))
  then show "length pdu = 8 + k + n" "rd pdu 0 = Some 0" "rd pdu 1 = Some (first_octet s)"
      "rd pdu 3 = Some (of_nat (length ds))" "rd pdu 4 = Some (addr_type (sub_addr s))"
      "rd pdu (k + 6) = Some (coding_scheme (sub_payload s))"
      "rd pdu (k + 7) = Some (sms_length (sub_payload s))"
    using assms(2) by (simp_all add: rd_def nth_append k_def)
  let ?pre = "[0, first_octet s, 0, of_nat (length ds), addr_type (sub_addr s)] @ semi_pack ds @
      [0, coding_scheme (sub_payload s), sms_length (sub_payload s)]"
  have "pdu = ?pre @ ?ud" by (simp add: pdu)
  then have "rdn pdu (length ?pre + 0) n = rdn ?ud 0 n"
    by (simp only: rdn_append_right)
  moreover have "length ?pre + 0 = k + 8" "rdn ?ud 0 n = Some ?ud"
    using assms(2) by (simp_all add: rdn_def k_def)
  ultimately show "rdn pdu (k + 8) n = Some ?ud"
    by (simp only:)
qed

lemma read_user_data_copy:
  assumes "rd src p = Some ln" "rdn src (p + 1) n = Some ud"
    and "n = sms_data_bytelen (coding_scheme (sl_payload m)) ln" "n \<le> GSMD_SMS_DATA_MAXLEN"
    and "length (sms_data (sl_payload m)) = 165"
  shows "read_user_data m src p (int n + 1) =
    Some (0, upd_payload (\<lambda>x. x\<lparr>sms_data := ud @ 0 # drop (n + 1) (sms_data (sl_payload m))\<rparr>)
            (upd_payload (\<lambda>x. x\<lparr>sms_length := ln\<rparr>) m))"
proof -
  have x: "drop n (sms_data (sl_payload m)) = sms_data (sl_payload m) ! n # drop (Suc n) (sms_data (sl_payload m))"
    using assms by (simp add: Cons_nth_drop_Suc)
  have l: "length ud = n" using assms(2) by (auto simp: rdn_def split: if_splits)
  show ?thesis
    using assms x l
    by (simp add: read_user_data_def Let_def wrn_def wr_def list_update_append add.commute)
qed

text \<open>The message that the decoder makes of them.\<close>

definition submit_read_back :: "gsmd_sms_list \<Rightarrow> gsmd_sms_submit \<Rightarrow> u8 list \<Rightarrow> nat \<Rightarrow> gsmd_sms_list" where
  "submit_read_back m s ds n = m\<lparr>time_stamp := replicate 7 0,
     sl_addr := \<lparr>addr_type = addr_type (sub_addr s), addr_number = ds @ 0 # drop (length ds + 1) (addr_number (sl_addr m))\<rparr>,
     sl_payload := (sl_payload m)\<lparr>is_voicemail := 0, has_header := (if first_octet s AND 64 \<noteq> 0 then 1 else 0),
       coding_scheme := coding_scheme (sub_payload s), sms_length := sms_length (sub_payload s),
       sms_data := take n (sms_data (sub_payload s)) @ 0 # drop (n + 1) (sms_data (sl_payload m))\<rparr>\<rparr>"

lemma decode_submit_octets:
  assumes ds: "\<forall>c \<in> set ds. is_semi c" "length ds \<le> GSMD_ADDR_MAXLEN"
    and ty: "addr_type (sub_addr s) AND GSMD_TOA_TON_MASK \<noteq> GSMD_TOA_TON_ALPHANUMERIC"
    and cs: "dcs_coding_scheme (coding_scheme (sub_payload s)) = Some (coding_scheme (sub_payload s))"
    and n: "n = sms_data_bytelen (coding_scheme (sub_payload s)) (sms_length (sub_payload s))"
      "1 \<le> n" "n \<le> GSMD_SMS_DATA_MAXLEN"
    and wf: "wf_sms (sub_payload s)" "wf_sms_list m"
  shows "sms_pdu_to_msg m (smssubmit_octets s ds) (int (length (smssubmit_octets s ds)) - 1)
      (int (length (smssubmit_octets s ds))) = Some (0, submit_read_back m s ds n)"
proof -
  let ?cs = "coding_scheme (sub_payload s)" and ?ln = "sms_length (sub_payload s)"
  let ?k = "(length ds + 1) div 2" and ?pdu = "smssubmit_octets s ds"
  let ?a = "\<lparr>addr_type = addr_type (sub_addr s), addr_number = ds @ 0 # drop (length ds + 1) (addr_number (sl_addr m))\<rparr>"
  have dl: "n \<le> length (sms_data (sub_payload s))" using wf(1) n(3) by (simp add: wf_sms_def)
  note so = submit_octets_split [OF ds(2) dl n(1)]
  have un: "unat (of_nat (length ds) :: u8) = length ds" using ds(2) by (simp add: unat_of_nat)
  have ad: "sms_address2ascii (sl_addr m) ?pdu 3 = Some (0, ?a)"
    using address_decode [OF ds _ ty, of "sl_addr m" "[0, first_octet s, 0]"] wf(2) so(1)
    by (simp add: wf_sms_list_def numeral_3_eq_3)
  define m1 where "m1 = upd_payload (\<lambda>x. x\<lparr>has_header := (if first_octet s AND 64 \<noteq> 0 then 1 else 0)\<rparr>)
      (upd_payload (\<lambda>x. x\<lparr>is_voicemail := 0\<rparr>) m)"
  define m4 where "m4 = (upd_payload (\<lambda>x. x\<lparr>coding_scheme := ?cs\<rparr>) (m1\<lparr>sl_addr := ?a\<rparr>))\<lparr>time_stamp := replicate 7 0\<rparr>"
  have m4: "coding_scheme (sl_payload m4) = ?cs" "sms_data (sl_payload m4) = sms_data (sl_payload m)"
    by (simp_all add: m4_def m1_def)
  have len: "length (sms_data (sl_payload m4)) = 165" using wf_sms_listD [OF wf(2)] m4(2) by simp
  have rdu: "rdn ?pdu (?k + 7 + 1) n = Some (take n (sms_data (sub_payload s)))"
    using so(9) by (simp only: add.assoc) simp
  have ud: "read_user_data m4 ?pdu (?k + 7) (int n + 1) = Some (0, submit_read_back m s ds n)"
    using read_user_data_copy [OF so(8) rdu _ n(3) len] n(1) m4
    by (simp add: submit_read_back_def upd_payload_def m4_def m1_def)
  have "read_submit m1 ?pdu 1 0 (int (?k + 7 + n)) = read_user_data m4 ?pdu (1 + 4 + ?k + 2) (int (?k + 7 + n) - (4 + int ?k) - 2)"
    unfolding m4_def using so ad un cs n(2)
    by (intro read_submit_success [where ln = "of_nat (length ds)" and ty = "addr_type (sub_addr s)" and b = ?cs])
       (simp_all add: numeral_eq_Suc m1_def)
  then have "read_submit m1 ?pdu 1 0 (int (?k + 7 + n)) = Some (0, submit_read_back m s ds n)"
    using ud by (simp add: algebra_simps)
  then show ?thesis
    using so(2-4)
    by (cases "has_header (sub_payload s) = 0")
      (simp_all add: sms_pdu_to_msg_def Let_def m1_def first_octet_bits algebra_simps)
qed

section \<open>Properties\<close>

text \<open>A message structure, a DELIVER PDU and a message to submit, for the witnesses.\<close>

definition ex_msg :: gsmd_sms_list where
  "ex_msg = \<lparr>sl_index = 0, sl_stat = 0, time_stamp = replicate 7 0,
     sl_addr = \<lparr>addr_type = 0, addr_number = replicate 33 0\<rparr>,
     sl_payload = \<lparr>sms_length = 0, coding_scheme = 0, has_header = 0, is_voicemail = 0,
       dcs = \<lparr>msg_class = 0, alphabet = 0, is_compressed = 0, mwi_group = 0, mwi_active = 0,
         mwi_kind = 0, raw_dcs_data = 0\<rparr>,
       sms_data = replicate 165 0\<rparr>,
     is_last = 0\<rparr>"

definition ex_deliver :: "u8 \<Rightarrow> u8 list" where
  "ex_deliver b = [0, 4, 2, 0x81, 0x21, 0, b, 1, 2, 3, 4, 5, 6, 7, 2, 0x41, 0x42]"

definition ex_submit :: gsmd_sms_submit where
  "ex_submit = \<lparr>sub_addr = \<lparr>addr_type = 0x91, addr_number = [0x31, 0x32, 0x33] @ 0 # replicate 29 0\<rparr>,
     sub_payload = (sl_payload ex_msg)\<lparr>sms_length := 2, sms_data := 0xC1 # 0x21 # replicate 163 0\<rparr>,
     ask_ds = 1\<rparr>"

lemma wf_ex_msg: "wf_sms_list ex_msg" and wf_ex_submit: "wf_sms (sub_payload ex_submit)"
  by (simp_all add: ex_msg_def ex_submit_def wf_sms_list_def wf_addr_def wf_sms_def)

text \<open>C17: Decoding never reads or writes outside its buffers when at least one octet follows the
  declared length, whatever the octets are; it answers 0 or 1 and leaves a well-formed structure.
\<close>

theorem sms_pdu_to_msg_safe:
  assumes "wf_sms_list m" "len < int (length src)"
  shows "\<exists>rc m'. sms_pdu_to_msg m src pdulen len = Some (rc, m') \<and> rc \<in> {0, 1} \<and> wf_sms_list m'"
  using sms_pdu_to_msg_ok [OF assms, of pdulen] by (elim decodes_okE) auto

theorem sms_pdu_to_msg_safe_witness:
  "\<exists>rc m'. sms_pdu_to_msg ex_msg (ex_deliver 0) 15 16 = Some (rc, m') \<and> rc \<in> {0, 1} \<and> wf_sms_list m'"
  by (rule sms_pdu_to_msg_safe [OF wf_ex_msg]) (simp add: ex_deliver_def)

text \<open>The one octet of slack is needed: a STATUS-REPORT TPDU of three octets that fills its buffer
  makes the decoder read the octet behind the buffer (the type of the recipient address, read before
  the length check).
\<close>

theorem status_report_overread:
  "sms_pdu_to_msg m [0, GSMD_SMS_TP_MTI_STATUS_REPORT, mr, ra] 3 4 = None"
  by (simp add: sms_pdu_to_msg_def read_status_report_def rd_def Let_def)



text \<open>The two readings of TP-DCS agree: outside of the message waiting group "discard" and of the
  reserved alphabet, the alphabet of the data coding scheme record and the coding scheme of the
  payload name the same alphabet. UCS2 is where the two spellings of the coding scheme differ: a
  general data coding octet gives 8, the "store" group gives the constant \<open>ALPHABET_UCS2\<close>.
\<close>

theorem dcs_readings_agree:
  assumes "dcs_coding_scheme b = Some cs" "b AND 0xF0 \<noteq> 0xC0" "b AND 0xCC \<noteq> 0x0C"
  shows "(alphabet (sms_pdu_decode_dcs d b) = SMS_ALPHABET_7_BIT_DEFAULT \<longleftrightarrow> cs = ALPHABET_DEFAULT) \<and>
     (alphabet (sms_pdu_decode_dcs d b) = SMS_ALPHABET_8_BIT \<longleftrightarrow> cs = ALPHABET_8BIT) \<and>
     (alphabet (sms_pdu_decode_dcs d b) = SMS_ALPHABET_UCS2 \<longleftrightarrow>
        cs = 8 \<and> b AND 0xC0 = 0 \<or> cs = ALPHABET_UCS2 \<and> b AND 0xF0 = 0xE0)"
  using assms
  by (auto simp: dcs_coding_scheme_bits dcs_decode_alphabet and_bits word8_eq_bits bit_simps split: if_splits)

theorem dcs_readings_agree_witness:
  "dcs_coding_scheme 0x14 = Some ALPHABET_8BIT \<and>
   alphabet (sms_pdu_decode_dcs (dcs (sl_payload ex_msg)) 0x14) = SMS_ALPHABET_8_BIT"
proof -
  have h: "dcs_coding_scheme 0x14 = Some ALPHABET_8BIT" "(0x14 :: u8) AND 0xF0 \<noteq> 0xC0" "(0x14 :: u8) AND 0xCC \<noteq> 0x0C"
    by (simp_all add: dcs_coding_scheme_def)
  show ?thesis using dcs_readings_agree [OF h] h(1) by simp
qed

text \<open>A UCS2 text of the general data coding group does not survive decoding: the coding scheme 8
  that the decoder stores is not \<open>ALPHABET_UCS2\<close>, its byte length is 0, and the message comes back
  with the sender's length but an empty text.
\<close>

theorem ucs2_text_lost:
  fixes m m' :: gsmd_sms_list and src :: "u8 list"
  defines "p \<equiv> 1 + unat (src ! 0)"
  assumes run: "sms_pdu_to_msg m src pdulen len = Some (0, m')" and wf: "wf_sms_list m"
    and mti: "src ! p AND 3 = GSMD_SMS_TP_MTI_DELIVER"
    and ucs2: "alphabet (dcs (sl_payload m')) = SMS_ALPHABET_UCS2"
      "mwi_group (dcs (sl_payload m')) = MESSAGE_WAITING_NONE"
  shows "coding_scheme (sl_payload m') = 8 \<and> sms_data (sl_payload m') ! 0 = 0"
proof -
  let ?b = "src ! (p + (unat (src ! (p + 1)) + 1) div 2 + 4)"
  have d: "dcs_coding_scheme ?b = Some (coding_scheme (sl_payload m'))"
      "dcs (sl_payload m') = sms_pdu_decode_dcs (dcs (sl_payload m)) ?b"
      "\<exists>q. user_data_at (sl_payload m') src q"
    using deliver_fields_of_run [OF run wf] mti by (auto simp: p_def)
  have "coding_scheme (sl_payload m') = 8"
    using d(1) ucs2 unfolding d(2)
    by (auto simp: dcs_coding_scheme_bits dcs_decode_alphabet dcs_decode_sel and_bits split: if_splits)
  then show ?thesis
    using d(3) by (auto simp: user_data_at_def sms_data_bytelen_def)
qed

theorem ucs2_text_lost_witness:
  "\<exists>m'. sms_pdu_to_msg ex_msg (ex_deliver 8) 16 17 = Some (0, m') \<and>
     coding_scheme (sl_payload m') = 8 \<and> sms_data (sl_payload m') ! 0 = 0"
proof -
  have "returns0 (sms_pdu_to_msg ex_msg (ex_deliver 8) 16 17)"
    by code_simp
  then obtain m' where m': "sms_pdu_to_msg ex_msg (ex_deliver 8) 16 17 = Some (0, m')"
    by (rule returns0E)
  have mti: "ex_deliver 8 ! (1 + unat (ex_deliver 8 ! 0)) AND 3 = 0"
    by (simp add: ex_deliver_def)
  have "dcs (sl_payload m') = sms_pdu_decode_dcs (dcs (sl_payload ex_msg)) 8"
    using deliver_fields_of_run [OF m' wf_ex_msg mti] by (simp add: ex_deliver_def)
  then show ?thesis
    using ucs2_text_lost [OF m' wf_ex_msg mti] m'
    by (simp add: dcs_decode_alphabet dcs_decode_sel)
qed





lemma cbs_serial:
  fixes b0 b1 :: u8
  shows "push_bit 14 (ucast (drop_bit 6 b0 AND 3)) OR
     push_bit 4 ((push_bit 4 (ucast b0) OR ucast (drop_bit 4 b1)) AND 0x3ff) OR ucast (b1 AND 0xf) =
     (push_bit 8 (ucast b0) OR ucast b1 :: u16)"
  by (rule word16_eqI) (elim less_16_cases; simp add: bit_simps)

lemma cbs_pages: "push_bit 4 (drop_bit 4 b) OR (b AND 0xf) = (b :: u8)"
  by (simp add: word8_eq_bits bit_simps)

text \<open>A cell broadcast page is accepted exactly when it has 88 octets; the fields are then the bits
  of its header, the three parts of the serial number make up its first two octets, and the data are
  the remaining 82 octets.
\<close>

theorem cbs_pdu_decodes:
  assumes "length src = CBM_MAX_PDU_SIZE" "length (cbm_data c) = 82"
  shows "(\<forall>len pdulen. cbs_pdu_to_msg c src pdulen len = Some (1, c) \<or> len = 88 \<and> pdulen = 88) \<and>
     (\<exists>d. cbs_pdu_to_msg c src 88 88 = Some (0, d) \<and>
        push_bit 14 (ucast (scope d)) OR push_bit 4 (msg_code d) OR ucast (update_num d) =
          (push_bit 8 (ucast (src ! 0)) OR ucast (src ! 1) :: u16) \<and>
        msg_id d = push_bit 8 (ucast (src ! 2)) OR ucast (src ! 3) \<and>
        push_bit 4 (page d) OR pages d = src ! 5 \<and>
        cbm_data d = drop 6 src)"
proof -
  have r: "rd src i = Some (src ! i)" if "i < 6" for i using that assms(1) by (simp add: rd_def)
  have u: "rdn src 6 82 = Some (drop 6 src)" using assms(1) by (simp add: rdn_def)
  have w: "wrn (cbm_data c) 0 (drop 6 src) = Some (drop 6 src)" using assms by (simp add: wrn_def)
  show ?thesis
    using cbs_serial [of "src ! 0" "src ! 1"]
    by (auto simp: cbs_pdu_to_msg_def r u w cbs_pages)
qed

definition ex_cbm :: gsmd_cbm where
  "ex_cbm = \<lparr>scope = 0, msg_code = 0, update_num = 0, msg_id = 0, language = 0, cbm_coding_scheme = 0,
     pages = 0, page = 0, cbm_data = replicate 82 0\<rparr>"

theorem cbs_pdu_decodes_witness:
  "\<exists>d. cbs_pdu_to_msg ex_cbm (replicate 88 0x11) 88 88 = Some (0, d) \<and> msg_id d = 0x1111"
proof -
  have h: "length (replicate 88 (0x11 :: u8)) = 88" "length (cbm_data ex_cbm) = 82"
    by (simp_all add: ex_cbm_def)
  show ?thesis using cbs_pdu_decodes [OF h] by (auto simp: nth_Cons')
qed

end
