(* ===== verification/Llist.thy ===== *)
theory Llist
  imports Prelude
begin

text \<open>
  The intrusive doubly linked circular lists of \<^verbatim>\<open>gsm/include/common/linux_list.h\<close>, on which gsmd keeps its
  command queues, users, timers and operator names. The heap of list heads is the pair of the \<open>next\<close> and
  \<open>prev\<close> fields of every address. \<open>dl_list h p xs\<close> states that the head at \<open>p\<close> anchors the cycle of the
  entries \<open>xs\<close>; the operations are shown to be the list operations they are used as.
\<close>

section \<open>The heap and the operations\<close>

type_synonym ptr = nat

record links =
  nxt :: "ptr \<Rightarrow> ptr"
  prv :: "ptr \<Rightarrow> ptr"

abbreviation (input) LLIST_POISON1 :: ptr where "LLIST_POISON1 \<equiv> 0x00100100"
abbreviation (input) LLIST_POISON2 :: ptr where "LLIST_POISON2 \<equiv> 0x00200200"

definition set_nxt :: "ptr \<Rightarrow> ptr \<Rightarrow> links \<Rightarrow> links" where
  "set_nxt a v h = h\<lparr>nxt := (nxt h)(a := v)\<rparr>"

definition set_prv :: "ptr \<Rightarrow> ptr \<Rightarrow> links \<Rightarrow> links" where
  "set_prv a v h = h\<lparr>prv := (prv h)(a := v)\<rparr>"

definition INIT_LLIST_HEAD :: "links \<Rightarrow> ptr \<Rightarrow> links" where
  "INIT_LLIST_HEAD h p = set_prv p p (set_nxt p p h)"

text \<open>\<open>__llist_add\<close> and \<open>__llist_del\<close>, in the order of the assignments.\<close>

definition llist_link :: "links \<Rightarrow> ptr \<Rightarrow> ptr \<Rightarrow> ptr \<Rightarrow> links" where
  "llist_link h new prev next' =
     set_nxt prev new (set_prv new prev (set_nxt new next' (set_prv next' new h)))"

definition llist_unlink :: "links \<Rightarrow> ptr \<Rightarrow> ptr \<Rightarrow> links" where
  "llist_unlink h prev next' = set_nxt prev next' (set_prv next' prev h)"

definition llist_add :: "links \<Rightarrow> ptr \<Rightarrow> ptr \<Rightarrow> links" where
  "llist_add h new head = llist_link h new head (nxt h head)"

definition llist_add_tail :: "links \<Rightarrow> ptr \<Rightarrow> ptr \<Rightarrow> links" where
  "llist_add_tail h new head = llist_link h new (prv h head) head"

definition llist_del :: "links \<Rightarrow> ptr \<Rightarrow> links" where
  "llist_del h entry =
     set_prv entry LLIST_POISON2 (set_nxt entry LLIST_POISON1 (llist_unlink h (prv h entry) (nxt h entry)))"

definition llist_del_init :: "links \<Rightarrow> ptr \<Rightarrow> links" where
  "llist_del_init h entry = INIT_LLIST_HEAD (llist_unlink h (prv h entry) (nxt h entry)) entry"

definition llist_move :: "links \<Rightarrow> ptr \<Rightarrow> ptr \<Rightarrow> links" where
  "llist_move h llist head = llist_add (llist_unlink h (prv h llist) (nxt h llist)) llist head"

definition llist_move_tail :: "links \<Rightarrow> ptr \<Rightarrow> ptr \<Rightarrow> links" where
  "llist_move_tail h llist head = llist_add_tail (llist_unlink h (prv h llist) (nxt h llist)) llist head"

definition llist_empty :: "links \<Rightarrow> ptr \<Rightarrow> bool" where
  "llist_empty h head \<longleftrightarrow> nxt h head = head"

definition llist_join :: "links \<Rightarrow> ptr \<Rightarrow> ptr \<Rightarrow> links" where
  "llist_join h llist head =
     (let first = nxt h llist; last' = prv h llist; at = nxt h head
      in set_prv at last' (set_nxt last' at (set_nxt head first (set_prv first head h))))"

definition llist_splice :: "links \<Rightarrow> ptr \<Rightarrow> ptr \<Rightarrow> links" where
  "llist_splice h llist head = (if llist_empty h llist then h else llist_join h llist head)"

definition llist_splice_init :: "links \<Rightarrow> ptr \<Rightarrow> ptr \<Rightarrow> links" where
  "llist_splice_init h llist head =
     (if llist_empty h llist then h else INIT_LLIST_HEAD (llist_join h llist head) llist)"

text \<open>
  The loops: \<open>llist_for_each_entry\<close> and its \<open>_safe\<close> variant, which fetches the successor before the
  body runs. The body works on a state that contains the links (\<open>lnk\<close> reads them). A loop over a
  broken cycle need not end, then its value is \<open>None\<close>.
\<close>

partial_function (option) for_each :: "('s \<Rightarrow> links) \<Rightarrow> (ptr \<Rightarrow> 's \<Rightarrow> 's) \<Rightarrow> ptr \<Rightarrow> ptr \<Rightarrow> 's \<Rightarrow> 's option" where
  "for_each lnk body head pos s =
     (if pos = head then Some s
      else let s' = body pos s in for_each lnk body head (nxt (lnk s') pos) s')"

partial_function (option) for_each_safe ::
  "('s \<Rightarrow> links) \<Rightarrow> (ptr \<Rightarrow> 's \<Rightarrow> 's) \<Rightarrow> ptr \<Rightarrow> ptr \<Rightarrow> ptr \<Rightarrow> 's \<Rightarrow> 's option" where
  "for_each_safe lnk body head pos n s =
     (if pos = head then Some s
      else let s' = body pos s in for_each_safe lnk body head n (nxt (lnk s') n) s')"

definition llist_for_each_entry :: "('s \<Rightarrow> links) \<Rightarrow> (ptr \<Rightarrow> 's \<Rightarrow> 's) \<Rightarrow> ptr \<Rightarrow> 's \<Rightarrow> 's option" where
  "llist_for_each_entry lnk body head s = for_each lnk body head (nxt (lnk s) head) s"

definition llist_for_each_entry_safe :: "('s \<Rightarrow> links) \<Rightarrow> (ptr \<Rightarrow> 's \<Rightarrow> 's) \<Rightarrow> ptr \<Rightarrow> 's \<Rightarrow> 's option" where
  "llist_for_each_entry_safe lnk body head s =
     for_each_safe lnk body head (nxt (lnk s) head) (nxt (lnk s) (nxt (lnk s) head)) s"

section \<open>Lists in the heap\<close>

definition chain :: "links \<Rightarrow> ptr list \<Rightarrow> bool" where
  "chain h = successively (\<lambda>a b. nxt h a = b \<and> prv h b = a)"

definition dl_list :: "links \<Rightarrow> ptr \<Rightarrow> ptr list \<Rightarrow> bool" where
  "dl_list h p xs \<longleftrightarrow> distinct (p # xs) \<and> chain h (p # xs @ [p])"

named_theorems link_simps \<open>reading back the fields of list heads\<close>

lemma set_links_simps [link_simps]:
  "nxt (set_nxt a v h) = (nxt h)(a := v)" "prv (set_nxt a v h) = prv h"
  "nxt (set_prv a v h) = nxt h" "prv (set_prv a v h) = (prv h)(a := v)"
  by (simp_all add: set_nxt_def set_prv_def)

lemma chain_simps [simp]:
  "chain h []" "chain h [a]" "chain h (a # b # r) \<longleftrightarrow> nxt h a = b \<and> prv h b = a \<and> chain h (b # r)"
  by (auto simp: chain_def)

lemma chain_append:
  "chain h (xs @ ys) \<longleftrightarrow> chain h xs \<and> chain h ys \<and>
     (xs = [] \<or> ys = [] \<or> nxt h (last xs) = hd ys \<and> prv h (hd ys) = last xs)"
  by (auto simp: chain_def successively_append_iff)

text \<open>A chain reads \<open>next\<close> of all but its last element and \<open>prev\<close> of all but its first.\<close>

lemma chain_frame:
  assumes "\<And>a. a \<in> set (butlast xs) \<Longrightarrow> nxt h' a = nxt h a" "\<And>a. a \<in> set (tl xs) \<Longrightarrow> prv h' a = prv h a"
  shows "chain h' xs = chain h xs"
  using assms
proof (induction xs)
  case (Cons a xs)
  show ?case
  proof (cases xs)
    case (Cons b r)
    have "chain h' (b # r) = chain h (b # r)"
    proof (rule Cons.IH [unfolded Cons])
      show "\<And>x. x \<in> set (butlast (b # r)) \<Longrightarrow> nxt h' x = nxt h x" using Cons.prems(1) Cons by simp
      show "\<And>x. x \<in> set (tl (b # r)) \<Longrightarrow> prv h' x = prv h x" using Cons.prems(2) Cons by simp
    qed
    then show ?thesis using Cons.prems(1) [of a] Cons.prems(2) [of b] Cons by simp
  qed simp
qed simp

lemma dl_list_frame:
  assumes "dl_list h p xs" "\<And>a. a \<in> set (p # xs) \<Longrightarrow> nxt h' a = nxt h a \<and> prv h' a = prv h a"
  shows "dl_list h' p xs"
proof -
  have "chain h' (p # xs @ [p]) = chain h (p # xs @ [p])"
    using assms(2) by (intro chain_frame) (auto dest: in_set_butlastD)
  then show ?thesis using assms(1) unfolding dl_list_def by blast
qed

lemma dl_list_init: "dl_list (INIT_LLIST_HEAD h p) p []"
  by (simp add: dl_list_def INIT_LLIST_HEAD_def link_simps)

lemma dl_list_append:
  "dl_list h p (xs @ ys) \<longleftrightarrow> distinct (p # xs @ ys) \<and> chain h (p # xs) \<and> chain h (ys @ [p]) \<and>
     nxt h (last (p # xs)) = hd (ys @ [p]) \<and> prv h (hd (ys @ [p])) = last (p # xs)"
  using chain_append [of h "p # xs" "ys @ [p]"] by (auto simp: dl_list_def)

lemma dl_list_next: "dl_list h p xs \<Longrightarrow> nxt h p = hd (xs @ [p])"
  using dl_list_append [of h p "[]" xs] by simp

lemma dl_list_prev: "dl_list h p xs \<Longrightarrow> prv h p = last (p # xs)"
  using dl_list_append [of h p xs "[]"] by simp

lemma dl_list_next_at: "dl_list h p (xs @ e # ys) \<Longrightarrow> nxt h e = hd (ys @ [p]) \<and> prv h e = last (p # xs)"
  using dl_list_append [of h p "xs @ [e]" ys] dl_list_append [of h p xs "e # ys"] by simp

lemma dl_list_unique:
  assumes "dl_list h p xs" "dl_list h p ys"
  shows "xs = ys"
proof -
  have "xs = ys" if "successively (\<lambda>a b. nxt h a = b) (a # xs @ [p])" "successively (\<lambda>a b. nxt h a = b) (a # ys @ [p])"
      "p \<notin> set xs" "p \<notin> set ys" for a
    using that
  proof (induction xs arbitrary: a ys)
    case Nil
    then show ?case by (cases ys) auto
  next
    case (Cons x xs)
    then show ?case by (cases ys) auto
  qed
  moreover have "successively (\<lambda>a b. nxt h a = b) (p # zs @ [p])" "p \<notin> set zs" if "dl_list h p zs" for zs
    using that by (auto simp: dl_list_def chain_def elim: successively_mono)
  ultimately show ?thesis using assms by blast
qed

lemma dl_list_empty: "dl_list h p xs \<Longrightarrow> llist_empty h p \<longleftrightarrow> xs = []"
  by (cases xs) (auto simp: dl_list_def llist_empty_def)

section \<open>Insertion and removal\<close>

lemma last_not_butlast: "distinct xs \<Longrightarrow> xs \<noteq> [] \<Longrightarrow> last xs \<notin> set (butlast xs)"
  by (cases xs rule: rev_cases) auto

lemma hd_not_tl: "distinct xs \<Longrightarrow> xs \<noteq> [] \<Longrightarrow> hd xs \<notin> set (tl xs)"
  by (cases xs) auto

lemma in_butlast: "a \<in> set (butlast (xs @ [p])) \<longleftrightarrow> a \<in> set xs"
  by simp

lemma dl_list_link:
  assumes l: "dl_list h p (xs @ ys)" and new: "new \<notin> set (p # xs @ ys)"
  shows "dl_list (llist_link h new (last (p # xs)) (hd (ys @ [p]))) p (xs @ new # ys)"
proof -
  let ?a = "last (p # xs)" and ?b = "hd (ys @ [p])"
  let ?h = "llist_link h new ?a ?b"
  have d: "distinct (p # xs)" "distinct (ys @ [p])" "set xs \<inter> set ys = {}"
    and c: "chain h (p # xs)" "chain h (ys @ [p])"
    using l by (auto simp: dl_list_append)
  have mem: "?a \<in> set (p # xs)" "?a \<notin> set (butlast (p # xs))" "?b \<in> set (ys @ [p])" "?b \<notin> set (tl (ys @ [p]))"
    using last_not_butlast [OF d(1)] hd_not_tl [OF d(2)] last_in_set [of "p # xs"] hd_in_set [of "ys @ [p]"]
    by (simp_all del: last.simps butlast.simps)
  have "chain ?h (p # xs) = chain h (p # xs)"
  proof (rule chain_frame)
    show "nxt ?h x = nxt h x" if "x \<in> set (butlast (p # xs))" for x
      using that mem(2) new in_set_butlastD [OF that] by (auto simp: llist_link_def link_simps simp del: butlast.simps last.simps)
    show "prv ?h x = prv h x" if "x \<in> set (tl (p # xs))" for x
      using that mem(3) new d by (cases ys) (auto simp: llist_link_def link_simps)
  qed
  moreover have "chain ?h (ys @ [p]) = chain h (ys @ [p])"
  proof (rule chain_frame)
    show "nxt ?h x = nxt h x" if "x \<in> set (butlast (ys @ [p]))" for x
      using that mem(1) new d by (auto simp: llist_link_def link_simps simp del: last.simps)
    show "prv ?h x = prv h x" if "x \<in> set (tl (ys @ [p]))" for x
      using that mem(4) new list.set_sel(2) [of "ys @ [p]" x] by (auto simp: llist_link_def link_simps)
  qed
  moreover have f: "nxt ?h ?a = new" "prv ?h new = ?a" "nxt ?h new = ?b" "prv ?h ?b = new"
    using new mem(1,3) by (auto simp: llist_link_def link_simps simp del: last.simps)
  ultimately show ?thesis
    using c d new f chain_append [of ?h "[new]" "ys @ [p]"]
    by (subst dl_list_append) (simp del: last.simps add: last_ConsL)
qed

lemma dl_list_unlink:
  assumes l: "dl_list h p (xs @ e # ys)"
  shows "dl_list (llist_unlink h (prv h e) (nxt h e)) p (xs @ ys)"
proof -
  let ?a = "last (p # xs)" and ?b = "hd (ys @ [p])"
  let ?h = "llist_unlink h ?a ?b"
  have d: "distinct (p # xs)" "distinct (ys @ [p])" "set xs \<inter> set ys = {}"
    and c: "chain h (p # xs)" "chain h (ys @ [p])"
    using l dl_list_append [of h p "xs @ [e]" ys] by (auto simp: dl_list_append)
  have mem: "?a \<in> set (p # xs)" "?a \<notin> set (butlast (p # xs))" "?b \<in> set (ys @ [p])" "?b \<notin> set (tl (ys @ [p]))"
    using last_not_butlast [OF d(1)] hd_not_tl [OF d(2)] last_in_set [of "p # xs"] hd_in_set [of "ys @ [p]"]
    by (simp_all del: last.simps butlast.simps)
  have "chain ?h (p # xs) = chain h (p # xs)"
  proof (rule chain_frame)
    show "nxt ?h x = nxt h x" if "x \<in> set (butlast (p # xs))" for x
      using that mem(2) by (auto simp: llist_unlink_def link_simps simp del: butlast.simps last.simps)
    show "prv ?h x = prv h x" if "x \<in> set (tl (p # xs))" for x
      using that mem(3) d by (cases ys) (auto simp: llist_unlink_def link_simps)
  qed
  moreover have "chain ?h (ys @ [p]) = chain h (ys @ [p])"
  proof (rule chain_frame)
    show "nxt ?h x = nxt h x" if "x \<in> set (butlast (ys @ [p]))" for x
      using that mem(1) d by (auto simp: llist_unlink_def link_simps simp del: last.simps)
    show "prv ?h x = prv h x" if "x \<in> set (tl (ys @ [p]))" for x
      using that mem(4) by (auto simp: llist_unlink_def link_simps)
  qed
  ultimately show ?thesis
    using c l d unfolding dl_list_next_at [OF l, THEN conjunct1] dl_list_next_at [OF l, THEN conjunct2]
    by (subst dl_list_append) (auto simp: llist_unlink_def link_simps)
qed

text \<open>An entry that is no longer (or not yet) in any list can be written freely.\<close>

lemma dl_list_other:
  assumes "dl_list h p xs" "e \<notin> set (p # xs)"
  shows "dl_list (set_nxt e v h) p xs" "dl_list (set_prv e v h) p xs"
  by (rule dl_list_frame [OF assms(1)]; use assms(2) in \<open>auto simp: link_simps\<close>)+

lemma dl_list_distinct: "dl_list h p xs \<Longrightarrow> distinct (p # xs)"
  by (simp only: dl_list_def)

lemma dl_list_add:
  "dl_list h p xs \<Longrightarrow> n \<notin> set (p # xs) \<Longrightarrow> dl_list (llist_add h n p) p (n # xs)"
  using dl_list_link [of h p "[]" xs n] dl_list_next [of h p xs] by (simp add: llist_add_def)

lemma dl_list_add_tail:
  "dl_list h p xs \<Longrightarrow> n \<notin> set (p # xs) \<Longrightarrow> dl_list (llist_add_tail h n p) p (xs @ [n])"
  using dl_list_link [of h p xs "[]" n] dl_list_prev [of h p xs] by (simp add: llist_add_tail_def)

lemma dl_list_del:
  assumes "dl_list h p (xs @ e # ys)"
  shows "dl_list (llist_del h e) p (xs @ ys)"
proof -
  have "e \<notin> set (p # xs @ ys)" using dl_list_distinct [OF assms] by auto
  then show ?thesis
    using dl_list_unlink [OF assms] by (simp add: llist_del_def dl_list_other)
qed

lemma dl_list_del_init:
  assumes "dl_list h p (xs @ e # ys)"
  shows "dl_list (llist_del_init h e) p (xs @ ys)" "dl_list (llist_del_init h e) e []"
proof -
  have "e \<notin> set (p # xs @ ys)" using dl_list_distinct [OF assms] by auto
  then show "dl_list (llist_del_init h e) p (xs @ ys)"
    using dl_list_unlink [OF assms] by (simp add: llist_del_init_def INIT_LLIST_HEAD_def dl_list_other)
  show "dl_list (llist_del_init h e) e []"
    by (simp add: llist_del_init_def dl_list_init)
qed

lemma dl_list_move:
  assumes "dl_list h p (xs @ e # ys)"
  shows "dl_list (llist_move h e p) p (e # xs @ ys)" "dl_list (llist_move_tail h e p) p (xs @ ys @ [e])"
proof -
  have "e \<notin> set (p # xs @ ys)" using dl_list_distinct [OF assms] by auto
  then show "dl_list (llist_move h e p) p (e # xs @ ys)" "dl_list (llist_move_tail h e p) p (xs @ ys @ [e])"
    using dl_list_unlink [OF assms] dl_list_add dl_list_add_tail [of _ p "xs @ ys" e]
    by (simp_all add: llist_move_def llist_move_tail_def)
qed

text \<open>The operations on one list leave the others alone.\<close>

lemma dl_list_link_frame:
  assumes "dl_list h p xs" "dl_list h q ys" "set (n # p # xs) \<inter> set (q # ys) = {}"
  shows "dl_list (llist_add h n p) q ys" "dl_list (llist_add_tail h n p) q ys"
proof -
  have "nxt h p \<in> set (p # xs)" using dl_list_next [OF assms(1)] by (cases xs) auto
  moreover have "prv h p \<in> set (p # xs)" using dl_list_prev [OF assms(1)] by (metis last_in_set list.distinct(1))
  ultimately show "dl_list (llist_add h n p) q ys" "dl_list (llist_add_tail h n p) q ys"
    using assms(3)
    by (auto simp: llist_add_def llist_add_tail_def llist_link_def link_simps intro!: dl_list_frame [OF assms(2)])
qed

lemma dl_list_del_frame:
  assumes "dl_list h p (xs @ e # ys)" "dl_list h q zs" "set (p # xs @ e # ys) \<inter> set (q # zs) = {}"
  shows "dl_list (llist_del h e) q zs"
proof -
  have "nxt h e \<in> set (p # ys)" using dl_list_next_at [OF assms(1)] by (cases ys) auto
  moreover have "prv h e \<in> set (p # xs)"
    using dl_list_next_at [OF assms(1)] by (metis last_in_set list.distinct(1))
  ultimately show ?thesis
    using assms(3)
    by (auto simp: llist_del_def llist_unlink_def link_simps intro!: dl_list_frame [OF assms(2)])
qed

section \<open>Loops\<close>

text \<open>
  The safe loop with a body that removes the entries that satisfy \<open>P\<close>; the invariant speaks about the
  entries that are still to come and the state.
\<close>

lemma for_each_safe_filter:
  assumes step: "\<And>e kept rest s. \<lbrakk>dl_list (lnk s) p (kept @ e # rest); I (e # rest) s\<rbrakk> \<Longrightarrow>
      dl_list (lnk (body e s)) p (kept @ (if P e then [] else [e]) @ rest) \<and> I rest (body e s)"
    and "dl_list (lnk s) p (kept @ rest)" "I rest s"
  shows "for_each_safe lnk body p (hd (rest @ [p])) (nxt (lnk s) (hd (rest @ [p]))) s = Some (fold body rest s) \<and>
     dl_list (lnk (fold body rest s)) p (kept @ filter (\<lambda>e. \<not> P e) rest) \<and> I [] (fold body rest s)"
  using assms(2,3)
proof (induction rest arbitrary: kept s)
  case Nil
  then show ?case by (simp add: for_each_safe.simps)
next
  case (Cons e rest)
  have "e \<noteq> p" using dl_list_distinct [OF Cons.prems(1)] by auto
  moreover have "nxt (lnk s) e = hd (rest @ [p])"
    using dl_list_next_at Cons.prems(1) by blast
  ultimately show ?case
    using Cons.IH [of "body e s" "kept @ (if P e then [] else [e])"] step [OF Cons.prems]
    by (subst for_each_safe.simps) (auto simp: Let_def)
qed

lemma llist_for_each_safe_filter:
  assumes "\<And>e kept rest s. \<lbrakk>dl_list (lnk s) p (kept @ e # rest); I (e # rest) s\<rbrakk> \<Longrightarrow>
      dl_list (lnk (body e s)) p (kept @ (if P e then [] else [e]) @ rest) \<and> I rest (body e s)"
    and "dl_list (lnk s) p xs" "I xs s"
  shows "llist_for_each_entry_safe lnk body p s = Some (fold body xs s) \<and>
     dl_list (lnk (fold body xs s)) p (filter (\<lambda>e. \<not> P e) xs) \<and> I [] (fold body xs s)"
proof -
  have "for_each_safe lnk body p (hd (xs @ [p])) (nxt (lnk s) (hd (xs @ [p]))) s = Some (fold body xs s) \<and>
     dl_list (lnk (fold body xs s)) p ([] @ filter (\<lambda>e. \<not> P e) xs) \<and> I [] (fold body xs s)"
    by (rule for_each_safe_filter [where lnk = lnk and body = body and I = I]) (use assms in simp_all)
  then show ?thesis
    using dl_list_next [OF assms(2)] by (simp add: llist_for_each_entry_safe_def)
qed

lemma for_each_fold:
  assumes step: "\<And>e s. \<lbrakk>dl_list (lnk s) p xs; e \<in> set xs; I s\<rbrakk> \<Longrightarrow> dl_list (lnk (body e s)) p xs \<and> I (body e s)"
    and "dl_list (lnk s) p xs" "I s" "xs = kept @ rest"
  shows "for_each lnk body p (hd (rest @ [p])) s = Some (fold body rest s) \<and>
     dl_list (lnk (fold body rest s)) p xs \<and> I (fold body rest s)"
  using assms(2-4)
proof (induction rest arbitrary: kept s)
  case Nil
  then show ?case by (simp add: for_each.simps)
next
  case (Cons e rest)
  have s: "dl_list (lnk (body e s)) p xs" "I (body e s)" using step [of s e] Cons.prems by auto
  have "e \<noteq> p" using dl_list_distinct [OF s(1)] Cons.prems(3) by auto
  moreover have "nxt (lnk (body e s)) e = hd (rest @ [p])"
    using s(1) dl_list_next_at Cons.prems(3) by blast
  ultimately show ?case
    using Cons.IH [OF s, of "kept @ [e]"] Cons.prems(3) by (subst for_each.simps) (auto simp: Let_def)
qed

lemma llist_for_each_fold:
  assumes "\<And>e s. \<lbrakk>dl_list (lnk s) p xs; e \<in> set xs; I s\<rbrakk> \<Longrightarrow> dl_list (lnk (body e s)) p xs \<and> I (body e s)"
    and "dl_list (lnk s) p xs" "I s"
  shows "llist_for_each_entry lnk body p s = Some (fold body xs s) \<and>
     dl_list (lnk (fold body xs s)) p xs \<and> I (fold body xs s)"
proof -
  have "for_each lnk body p (hd (xs @ [p])) s = Some (fold body xs s) \<and>
     dl_list (lnk (fold body xs s)) p xs \<and> I (fold body xs s)"
    by (rule for_each_fold [where lnk = lnk and body = body and I = I and kept = "[]"]) (use assms in simp_all)
  then show ?thesis
    using dl_list_next [OF assms(2)] by (simp add: llist_for_each_entry_def)
qed

section \<open>The list interface\<close>

text \<open>
  What the daemon's components use of a list: put at either end, remove an entry wherever it is, look
  at the first one. Each law comes with its frame condition for the lists that share the heap.
\<close>

locale llist_queue =
  fixes rep :: "'h \<Rightarrow> 'p \<Rightarrow> 'p list \<Rightarrow> bool"
    and put :: "'h \<Rightarrow> 'p \<Rightarrow> 'p \<Rightarrow> 'h"
    and push :: "'h \<Rightarrow> 'p \<Rightarrow> 'p \<Rightarrow> 'h"
    and del :: "'h \<Rightarrow> 'p \<Rightarrow> 'h"
    and is_empty :: "'h \<Rightarrow> 'p \<Rightarrow> bool"
    and first :: "'h \<Rightarrow> 'p \<Rightarrow> 'p"
  assumes rep_distinct: "rep h p xs \<Longrightarrow> distinct (p # xs)"
    and rep_put: "rep h p xs \<Longrightarrow> n \<notin> set (p # xs) \<Longrightarrow> rep (put h n p) p (xs @ [n])"
    and rep_push: "rep h p xs \<Longrightarrow> n \<notin> set (p # xs) \<Longrightarrow> rep (push h n p) p (n # xs)"
    and rep_del: "rep h p (xs @ e # ys) \<Longrightarrow> rep (del h e) p (xs @ ys)"
    and rep_put_frame: "rep h p xs \<Longrightarrow> rep h q ys \<Longrightarrow> set (n # p # xs) \<inter> set (q # ys) = {} \<Longrightarrow> rep (put h n p) q ys"
    and rep_push_frame: "rep h p xs \<Longrightarrow> rep h q ys \<Longrightarrow> set (n # p # xs) \<inter> set (q # ys) = {} \<Longrightarrow> rep (push h n p) q ys"
    and rep_del_frame: "rep h p (xs @ e # ys) \<Longrightarrow> rep h q zs \<Longrightarrow> set (p # xs @ e # ys) \<inter> set (q # zs) = {} \<Longrightarrow> rep (del h e) q zs"
    and rep_empty: "rep h p xs \<Longrightarrow> is_empty h p \<longleftrightarrow> xs = []"
    and rep_first: "rep h p (x # xs) \<Longrightarrow> first h p = x"
begin

text \<open>Entries put one after the other come out in that order.\<close>

lemma put_all:
  assumes "rep h p xs" "distinct ns" "set ns \<inter> set (p # xs) = {}"
  shows "rep (fold (\<lambda>n h. put h n p) ns h) p (xs @ ns)"
  using assms
proof (induction ns arbitrary: h xs)
  case (Cons n ns)
  have "rep (put h n p) p (xs @ [n])" using Cons.prems by (intro rep_put) auto
  from Cons.IH [OF this] show ?case using Cons.prems by auto
qed simp

lemma del_first: "rep h p (x # xs) \<Longrightarrow> rep (del h (first h p)) p xs"
  using rep_del [of h p "[]" x xs] rep_first by simp

text \<open>The transfer of the first entry of one list to the end of another.\<close>

lemma transfer:
  assumes "rep h p (x # xs)" "rep h q ys" "set (p # x # xs) \<inter> set (q # ys) = {}"
  defines "h' \<equiv> put (del h (first h p)) (first h p) q"
  shows "rep h' p xs" "rep h' q (ys @ [x])"
proof -
  have f: "first h p = x" by (rule rep_first [OF assms(1)])
  have 1: "rep (del h x) p xs" using del_first [OF assms(1)] f by simp
  have 2: "rep (del h x) q ys" using rep_del_frame [of h p "[]" x xs q ys] assms(1-3) by simp
  show "rep h' q (ys @ [x])" using rep_put [OF 2, of x] assms(3) f by (auto simp: h'_def)
  show "rep h' p xs"
    using rep_put_frame [OF 2 1, of x] assms(3) rep_distinct [OF assms(1)] f by (auto simp: h'_def)
qed

end

definition llist_first :: "links \<Rightarrow> ptr \<Rightarrow> ptr" where
  "llist_first h head = nxt h head"

interpretation lq: llist_queue dl_list llist_add_tail llist_add llist_del llist_empty llist_first
proof unfold_locales
  show "llist_first h p = x" if "dl_list h p (x # xs)" for h p x xs
    using dl_list_next [OF that] by (simp add: llist_first_def)
qed (fact dl_list_distinct dl_list_add_tail dl_list_add dl_list_del dl_list_link_frame dl_list_del_frame
      dl_list_empty)+

section \<open>Joining lists\<close>

lemma dl_list_splice:
  assumes q: "dl_list h q zs" and p: "dl_list h p ys" and dj: "set (q # zs) \<inter> set (p # ys) = {}"
  shows "dl_list (llist_splice h q p) p (zs @ ys)"
proof (cases "zs = []")
  case True
  then show ?thesis using p dl_list_empty [OF q] by (simp add: llist_splice_def)
next
  case False
  let ?h = "llist_join h q p" and ?f = "hd zs" and ?l = "last zs" and ?at = "hd (ys @ [p])"
  have rd: "nxt h q = ?f" "prv h q = ?l" "nxt h p = ?at"
    using dl_list_next [OF q] dl_list_prev [OF q] dl_list_next [OF p] False by simp_all
  have cz: "chain h zs" "distinct zs" and cy: "chain h (ys @ [p])" "distinct (ys @ [p])"
    using dl_list_append [of h q zs "[]"] dl_list_append [of h p "[]" ys] q p False
      chain_append [of h "[q]" zs] by auto
  have mem: "?f \<in> set zs" "?l \<in> set zs" "?at \<in> set (ys @ [p])" "?f \<notin> set (tl zs)" "?l \<notin> set (butlast zs)"
      "?at \<notin> set (tl (ys @ [p]))"
    using False hd_not_tl [OF cz(2) False] last_not_butlast [OF cz(2) False] hd_not_tl [OF cy(2)]
      hd_in_set [of "ys @ [p]"] by simp_all
  have "chain ?h zs = chain h zs"
  proof (rule chain_frame)
    show "nxt ?h x = nxt h x" if "x \<in> set (butlast zs)" for x
      using that mem dj in_set_butlastD [OF that] rd by (auto simp: llist_join_def Let_def link_simps)
    show "prv ?h x = prv h x" if "x \<in> set (tl zs)" for x
      using that mem dj list.set_sel(2) [OF False that] rd by (auto simp: llist_join_def Let_def link_simps)
  qed
  moreover have "chain ?h (ys @ [p]) = chain h (ys @ [p])"
  proof (rule chain_frame)
    show "nxt ?h x = nxt h x" if "x \<in> set (butlast (ys @ [p]))" for x
      using that mem dj rd cy(2) by (auto simp: llist_join_def Let_def link_simps)
    show "prv ?h x = prv h x" if "x \<in> set (tl (ys @ [p]))" for x
      using that mem dj rd list.set_sel(2) [of "ys @ [p]" x] by (auto simp: llist_join_def Let_def link_simps)
  qed
  moreover have "nxt ?h p = ?f" "prv ?h ?f = p" "nxt ?h ?l = ?at" "prv ?h ?at = ?l"
    using mem(1-3) dj rd by (auto simp: llist_join_def Let_def link_simps)
  ultimately have "dl_list ?h p (zs @ ys)"
    using cz cy dj False chain_append [of ?h "[p]" zs] by (auto simp: dl_list_append)
  then show ?thesis using dl_list_empty [OF q] False by (simp add: llist_splice_def)
qed

section \<open>Properties\<close>


text \<open>A heap with the head 1 and the entries 2, 3 and 4, put there by the operations.\<close>

definition ex_links :: links where
  "ex_links = fold (\<lambda>n h. llist_add_tail h n 1) [2, 3, 4] (INIT_LLIST_HEAD \<lparr>nxt = id, prv = id\<rparr> 1)"

lemma ex_links_list: "dl_list ex_links 1 [2, 3, 4]"
  using lq.put_all [OF dl_list_init, of "[2, 3, 4]" 1] by (simp add: ex_links_def)


text \<open>
  Taking the first entry of one list to the end of another, as the daemon does with a command
  that it has sent, does just that, and both lists stay well-formed.
\<close>

theorem llist_transfer:
  assumes "dl_list h p (x # xs)" "dl_list h q ys" "set (p # x # xs) \<inter> set (q # ys) = {}"
  shows "dl_list (llist_add_tail (llist_del h (llist_first h p)) (llist_first h p) q) p xs \<and>
     dl_list (llist_add_tail (llist_del h (llist_first h p)) (llist_first h p) q) q (ys @ [x])"
  using lq.transfer [OF assms] by blast

theorem llist_transfer_witness:
  "dl_list (llist_add_tail (llist_del (INIT_LLIST_HEAD ex_links 9) 2) 2 9) 1 [3, 4]"
proof -
  have "dl_list (INIT_LLIST_HEAD ex_links 9) 1 [2, 3, 4]" "dl_list (INIT_LLIST_HEAD ex_links 9) 9 []"
    using ex_links_list dl_list_other [of _ 1 "[2, 3, 4]" 9] by (simp_all add: INIT_LLIST_HEAD_def dl_list_init [unfolded INIT_LLIST_HEAD_def])
  from llist_transfer [OF this] show ?thesis
    using lq.rep_first [OF \<open>dl_list (INIT_LLIST_HEAD ex_links 9) 1 [2, 3, 4]\<close>] by simp
qed

text \<open>Splicing a list into another puts its entries in front, in their order.
\<close>

theorem llist_splice_joins:
  assumes "dl_list h q zs" "dl_list h p ys" "set (q # zs) \<inter> set (p # ys) = {}"
  shows "dl_list (llist_splice h q p) p (zs @ ys) \<and>
     dl_list (llist_splice_init h q p) p (zs @ ys) \<and> dl_list (llist_splice_init h q p) q []"
proof -
  have "q \<notin> set (p # zs @ ys)" using assms(3) dl_list_distinct [OF assms(1)] by auto
  then have "dl_list (INIT_LLIST_HEAD (llist_splice h q p) q) p (zs @ ys)"
    using dl_list_splice [OF assms] by (simp add: INIT_LLIST_HEAD_def dl_list_other)
  then show ?thesis
    using dl_list_splice [OF assms] dl_list_empty [OF assms(1)] assms(1,2)
    by (cases "zs = []") (simp_all add: llist_splice_init_def llist_splice_def dl_list_init)
qed

theorem llist_splice_joins_witness:
  "dl_list (llist_splice (INIT_LLIST_HEAD ex_links 9) 1 9) 9 [2, 3, 4]"
proof -
  have "dl_list (INIT_LLIST_HEAD ex_links 9) 1 [2, 3, 4]" "dl_list (INIT_LLIST_HEAD ex_links 9) 9 []"
    using ex_links_list dl_list_other [of _ 1 "[2, 3, 4]" 9] by (simp_all add: INIT_LLIST_HEAD_def dl_list_init [unfolded INIT_LLIST_HEAD_def])
  from llist_splice_joins [OF this] show ?thesis by simp
qed

text \<open>The loop \<open>llist_for_each_entry_safe\<close> visits every entry once, in order, and terminates, even
  when the body removes the entry it is run on: what is left are the entries it did not remove.
\<close>

theorem llist_for_each_safe_removes:
  assumes "\<And>e kept rest s. \<lbrakk>dl_list (lnk s) p (kept @ e # rest); I (e # rest) s\<rbrakk> \<Longrightarrow>
      dl_list (lnk (body e s)) p (kept @ (if P e then [] else [e]) @ rest) \<and> I rest (body e s)"
    and "dl_list (lnk s) p xs" "I xs s"
  shows "llist_for_each_entry_safe lnk body p s = Some (fold body xs s) \<and>
     dl_list (lnk (fold body xs s)) p (filter (\<lambda>e. \<not> P e) xs) \<and> I [] (fold body xs s)"
  by (rule llist_for_each_safe_filter [where lnk = lnk and body = body and I = I]) (use assms in simp_all)

theorem llist_for_each_safe_removes_witness:
  "\<exists>h. llist_for_each_entry_safe id (\<lambda>e h. if odd e then llist_del h e else h) 1 ex_links = Some h \<and>
     dl_list h 1 [2, 4]"
  using llist_for_each_safe_removes [where lnk = id and P = odd and p = 1 and I = "\<lambda>_ _. True"
      and body = "\<lambda>e h. if odd e then llist_del h e else h", OF _ _ TrueI, of ex_links "[2, 3, 4]"]
    ex_links_list dl_list_del
  by auto

end
