(* ===== verification/Timer.thy ===== *)
theory Timer
  imports Llist
begin

text \<open>
  The timers of gsmd, \<^verbatim>\<open>gsm/src/gsmd/timer.c\<close>. The list \<open>gsmd_timers\<close> lives in the heap of list heads,
  \<open>t_obj\<close> holds the timer at each address (its list head is its first field, so both have the same
  address). The time of day is an argument, where \<open>None\<close> is a failing \<open>gettimeofday\<close>; \<open>t_itimer\<close> is the value
  that \<open>setitimer\<close> was last given, and its result is the argument \<open>si\<close>. Callbacks are an argument \<open>run\<close>
  that works on the whole state. Seconds and microseconds are the integers of a \<open>struct timeval\<close> whose sums stay in
  the range of \<open>long\<close>.
\<close>

section \<open>Times\<close>

record timeval =
  tv_sec :: int
  tv_usec :: int

definition tv_normalize :: "timeval \<Rightarrow> timeval" where
  "tv_normalize out = \<lparr>tv_sec = tv_sec out + tv_usec out sdiv 1000000, tv_usec = tv_usec out smod 1000000\<rparr>"

function tv_borrow :: "timeval \<Rightarrow> timeval" where
  "tv_borrow res =
     (if tv_usec res < 0 then tv_borrow \<lparr>tv_sec = tv_sec res - 1, tv_usec = tv_usec res + 1000000\<rparr> else res)"
  by pat_completeness auto
termination
  by (relation "measure (\<lambda>r. nat (- tv_usec r))") auto

declare tv_borrow.simps [simp del]

definition tv_sub :: "timeval \<Rightarrow> timeval \<Rightarrow> int \<times> timeval" where
  "tv_sub from sub =
     (0, tv_borrow \<lparr>tv_sec = tv_sec from - tv_sec sub, tv_usec = tv_usec from - tv_usec sub\<rparr>)"

definition tv_add :: "timeval \<Rightarrow> timeval \<Rightarrow> timeval" where
  "tv_add a1 a2 = tv_normalize \<lparr>tv_sec = tv_sec a1 + tv_sec a2, tv_usec = tv_usec a1 + tv_usec a2\<rparr>"

definition tv_later :: "timeval \<Rightarrow> timeval \<Rightarrow> bool" where
  "tv_later expires now =
     (if tv_sec expires < tv_sec now then False
      else if tv_sec expires > tv_sec now then True
      else if tv_usec expires \<ge> tv_usec now then True
      else False)"

definition tv_smaller :: "timeval \<Rightarrow> timeval \<Rightarrow> bool" where
  "tv_smaller t1 t2 = tv_later t2 t1"

section \<open>The timer list\<close>

record gsmd_timer =
  expires :: timeval
  tmr_cb :: nat
  tmr_data :: nat

record 'w tstate =
  t_head :: ptr
  t_links :: links
  t_obj :: "ptr \<Rightarrow> gsmd_timer"
  t_itimer :: "timeval option"
  t_world :: 'w

text \<open>
  The body of the minimum loop of \<open>calc_next_expiration\<close>, on the local variable \<open>min\<close> (uninitialised
  before the first entry).
\<close>

definition min_body :: "ptr \<Rightarrow> 'w tstate \<times> timeval option \<Rightarrow> 'w tstate \<times> timeval option" where
  "min_body cur x =
     (let (s, m) = x;
          e = expires (t_obj s cur);
          m = (if nxt (t_links s) (t_head s) = cur then Some e else m);
          m = (case m of None \<Rightarrow> None | Some v \<Rightarrow> if tv_smaller e v then Some e else Some v)
      in (s, m))"

text \<open>
  \<open>calc_next_expiration\<close>. A negative result of \<open>tv_sub\<close> restarts the loop on the unchanged list and the
  unchanged time, which never ends: the value is then \<open>None\<close>, and so it is when \<open>min\<close> is read
  uninitialised. The result of \<open>gettimeofday\<close> is not tested.
\<close>

definition calc_next_expiration :: "timeval \<Rightarrow> int \<Rightarrow> 'w tstate \<Rightarrow> (int \<times> 'w tstate) option" where
  "calc_next_expiration now si s =
     (if llist_empty (t_links s) (t_head s) then Some (0, s)
      else do {
        (s, m) \<leftarrow> llist_for_each_entry (\<lambda>x. t_links (fst x)) min_body (t_head s) (s, None);
        min \<leftarrow> m;
        let (rc, diff) = tv_sub min now;
        if rc < 0 then None
        else if si < 0 then Some (si, s)
        else Some (0, s\<lparr>t_itimer := Some diff\<rparr>)
      })"

definition check_body ::
  "(ptr \<Rightarrow> 'w tstate \<Rightarrow> 'w tstate) \<Rightarrow> timeval \<Rightarrow> ptr \<Rightarrow> 'w tstate \<Rightarrow> 'w tstate" where
  "check_body run now cur s =
     (if tv_later now (expires (t_obj s cur))
      then run cur (s\<lparr>t_links := llist_del (t_links s) cur\<rparr>)
      else s)"

definition gsmd_timer_check_n_run ::
  "(ptr \<Rightarrow> 'w tstate \<Rightarrow> 'w tstate) \<Rightarrow> timeval option \<Rightarrow> int \<Rightarrow> 'w tstate \<Rightarrow> 'w tstate option" where
  "gsmd_timer_check_n_run run tod si s =
     (case tod of
        None \<Rightarrow> Some s
      | Some now \<Rightarrow> do {
          s \<leftarrow> llist_for_each_entry_safe t_links (check_body run now) (t_head s) s;
          (rc, s) \<leftarrow> calc_next_expiration now si s;
          Some s
        })"

text \<open>Registration adds the time of day to both fields, without normalising the sum.\<close>

definition gsmd_timer_register :: "timeval option \<Rightarrow> int \<Rightarrow> ptr \<Rightarrow> 'w tstate \<Rightarrow> (int \<times> 'w tstate) option" where
  "gsmd_timer_register tod si timer s =
     (case tod of
        None \<Rightarrow> Some (- 1, s)
      | Some tv \<Rightarrow> do {
          let e = expires (t_obj s timer);
          let e = \<lparr>tv_sec = tv_sec e + tv_sec tv, tv_usec = tv_usec e + tv_usec tv\<rparr>;
          let s = s\<lparr>t_obj := (t_obj s)(timer := (t_obj s timer)\<lparr>expires := e\<rparr>),
                    t_links := llist_add_tail (t_links s) timer (t_head s)\<rparr>;
          (rc, s) \<leftarrow> calc_next_expiration tv si s;
          Some (0, s)
        })"

text \<open>\<open>alloc\<close> is what \<open>talloc_size\<close> returns, \<open>None\<close> for NULL; a null result is the pointer \<open>None\<close>.\<close>

definition gsmd_timer_create ::
  "ptr option \<Rightarrow> timeval option \<Rightarrow> int \<Rightarrow> timeval \<Rightarrow> nat \<Rightarrow> nat \<Rightarrow> 'w tstate \<Rightarrow> (ptr option \<times> 'w tstate) option" where
  "gsmd_timer_create alloc tod si ex cb data s =
     (case alloc of
        None \<Rightarrow> Some (None, s)
      | Some tmr \<Rightarrow> do {
          let s = s\<lparr>t_obj := (t_obj s)(tmr := \<lparr>expires = ex, tmr_cb = cb, tmr_data = data\<rparr>)\<rparr>;
          (rc, s) \<leftarrow> gsmd_timer_register tod si tmr s;
          if rc < 0 then Some (None, s) else Some (Some tmr, s)
        })"

definition gsmd_timer_unregister :: "timeval \<Rightarrow> int \<Rightarrow> ptr \<Rightarrow> 'w tstate \<Rightarrow> 'w tstate option" where
  "gsmd_timer_unregister now si timer s = do {
     (rc, s) \<leftarrow> calc_next_expiration now si (s\<lparr>t_links := llist_del (t_links s) timer\<rparr>);
     Some s
   }"

section \<open>Times as microseconds\<close>

definition tv_val :: "timeval \<Rightarrow> int" where
  "tv_val t = tv_sec t * 1000000 + tv_usec t"

definition tv_ok :: "timeval \<Rightarrow> bool" where
  "tv_ok t \<longleftrightarrow> 0 \<le> tv_usec t \<and> tv_usec t < 1000000"

lemma tv_borrow_val: "tv_val (tv_borrow t) = tv_val t \<and> tv_usec (tv_borrow t) \<ge> 0 \<and>
    (tv_usec t < 1000000 \<longrightarrow> tv_ok (tv_borrow t))"
proof (induction t rule: tv_borrow.induct)
  case (1 res)
  then show ?case
    by (subst (1 2 3) tv_borrow.simps) (auto simp: tv_val_def tv_ok_def)
qed

lemma tv_sub_val:
  "fst (tv_sub a b) = 0" "tv_val (snd (tv_sub a b)) = tv_val a - tv_val b"
  "tv_ok a \<Longrightarrow> tv_ok b \<Longrightarrow> tv_ok (snd (tv_sub a b))"
  using tv_borrow_val [of "\<lparr>tv_sec = tv_sec a - tv_sec b, tv_usec = tv_usec a - tv_usec b\<rparr>"]
  by (auto simp: tv_sub_def tv_val_def tv_ok_def algebra_simps)

lemma tv_later_val: "tv_ok a \<Longrightarrow> tv_ok b \<Longrightarrow> tv_later a b \<longleftrightarrow> tv_val b \<le> tv_val a"
  by (auto simp: tv_later_def tv_val_def tv_ok_def)

lemma tv_add_val:
  assumes "tv_ok a" "tv_ok b"
  shows "tv_val (tv_add a b) = tv_val a + tv_val b" "tv_ok (tv_add a b)"
proof -
  have n: "0 \<le> tv_usec a + tv_usec b" using assms by (simp add: tv_ok_def)
  have q: "(tv_usec a + tv_usec b) sdiv 1000000 = (tv_usec a + tv_usec b) div 1000000"
    using n by (simp add: signed_divide_int_def sgn_if)
  have r: "(tv_usec a + tv_usec b) smod 1000000 = (tv_usec a + tv_usec b) mod 1000000"
    using n by (simp add: signed_modulo_int_def q minus_mult_div_eq_mod [symmetric] signed_divide_int_def sgn_if)
  show "tv_val (tv_add a b) = tv_val a + tv_val b"
    using div_mult_mod_eq [of "tv_usec a + tv_usec b" 1000000]
    by (simp add: tv_add_def tv_normalize_def tv_val_def q r algebra_simps)
  show "tv_ok (tv_add a b)" by (simp add: tv_add_def tv_normalize_def tv_ok_def r)
qed

section \<open>The next expiration\<close>

lemma tv_later_refl [simp]: "tv_later a a"
  by (simp add: tv_later_def)

lemma tv_later_trans: "tv_later a b \<Longrightarrow> tv_later b c \<Longrightarrow> tv_later a c"
  by (auto simp: tv_later_def split: if_splits)

lemma tv_later_total: "\<not> tv_later a b \<Longrightarrow> tv_later b a"
  by (auto simp: tv_later_def split: if_splits)

lemma min_fold:
  assumes "nxt (t_links s) (t_head s) \<notin> set r"
  shows "\<exists>m. fold min_body r (s, Some v) = (s, Some m) \<and> (m = v \<or> m \<in> (\<lambda>y. expires (t_obj s y)) ` set r) \<and>
     tv_later v m \<and> (\<forall>y \<in> set r. tv_later (expires (t_obj s y)) m)"
  using assms
proof (induction r arbitrary: v)
  case (Cons y r)
  let ?e = "expires (t_obj s y)"
  let ?v = "if tv_smaller ?e v then ?e else v"
  have "min_body y (s, Some v) = (s, Some ?v)" using Cons.prems by (simp add: min_body_def)
  moreover have l: "tv_later v ?v" "tv_later ?e ?v"
    using tv_later_total [of v ?e] by (auto simp: tv_smaller_def)
  moreover obtain m where m: "fold min_body r (s, Some ?v) = (s, Some m)"
      "m = ?v \<or> m \<in> (\<lambda>y. expires (t_obj s y)) ` set r" "tv_later ?v m" "\<forall>y \<in> set r. tv_later (expires (t_obj s y)) m"
    using Cons.IH [of ?v] Cons.prems by auto
  moreover have "tv_later v m" "tv_later ?e m"
    by (rule tv_later_trans [OF l(1) m(3)], rule tv_later_trans [OF l(2) m(3)])
  moreover have "m = v \<or> m \<in> (\<lambda>y. expires (t_obj s y)) ` set (y # r)"
    using m(2) by (cases "tv_smaller ?e v") auto
  ultimately show ?case using m(4) by (intro exI [of _ m]) simp
qed simp

lemma min_body_state: "fst (min_body c x) = fst x"
  by (simp add: min_body_def split_beta Let_def)

lemma calc_next_eq:
  assumes l: "dl_list (t_links s) (t_head s) (x # xs)"
  obtains y where "y \<in> set (x # xs)"
    and "\<forall>z \<in> set (x # xs). tv_later (expires (t_obj s z)) (expires (t_obj s y))"
    and "calc_next_expiration now si s =
       (if si < 0 then Some (si, s)
        else Some (0, s\<lparr>t_itimer := Some (snd (tv_sub (expires (t_obj s y)) now))\<rparr>))"
proof -
  let ?lnk = "\<lambda>x. t_links (fst x)" and ?i = "(s, None)"
  have "llist_for_each_entry ?lnk min_body (t_head s) ?i = Some (fold min_body (x # xs) ?i) \<and>
      dl_list (?lnk (fold min_body (x # xs) ?i)) (t_head s) (x # xs) \<and> True"
    by (rule llist_for_each_fold [where I = "\<lambda>_. True"]) (use l in \<open>auto simp: min_body_state\<close>)
  moreover have n: "nxt (t_links s) (t_head s) = x" using dl_list_next [OF l] by simp
  moreover obtain m where m: "fold min_body xs (s, Some (expires (t_obj s x))) = (s, Some m)"
      "m = expires (t_obj s x) \<or> m \<in> (\<lambda>y. expires (t_obj s y)) ` set xs" "tv_later (expires (t_obj s x)) m"
      "\<forall>y \<in> set xs. tv_later (expires (t_obj s y)) m"
    using min_fold [of s xs "expires (t_obj s x)"] dl_list_distinct [OF l] n by auto
  moreover have "min_body x ?i = (s, Some (expires (t_obj s x)))"
    using n by (simp add: min_body_def tv_smaller_def)
  ultimately have c: "calc_next_expiration now si s =
      (if si < 0 then Some (si, s) else Some (0, s\<lparr>t_itimer := Some (snd (tv_sub m now))\<rparr>))"
    using dl_list_empty [OF l] tv_sub_val(1) [of m now]
    by (cases "tv_sub m now") (simp add: calc_next_expiration_def)
  obtain y where "y \<in> set (x # xs)" "m = expires (t_obj s y)" using m(2) by auto
  then show thesis using m(3,4) c by (intro that [of y]) auto
qed

lemma calc_next_total:
  assumes "dl_list (t_links s) (t_head s) xs"
  shows "\<exists>rc it. calc_next_expiration now si s = Some (rc, s\<lparr>t_itimer := it\<rparr>)"
proof (cases xs)
  case Nil
  then show ?thesis
    using dl_list_empty [OF assms] by (auto simp: calc_next_expiration_def intro!: exI [of _ "t_itimer s"])
next
  case (Cons x r)
  obtain y where "calc_next_expiration now si s = (if si < 0 then Some (si, s)
      else Some (0, s\<lparr>t_itimer := Some (snd (tv_sub (expires (t_obj s y)) now))\<rparr>))"
    by (rule calc_next_eq [OF assms [unfolded Cons], of now si])
  moreover have "s = s\<lparr>t_itimer := t_itimer s\<rparr>" by simp
  ultimately show ?thesis by metis
qed

section \<open>Properties\<close>

text \<open>The arithmetic on times is exact: subtraction and addition of normalised times give the
  difference and the sum in microseconds, normalised, and comparison is comparison of instants.
\<close>

theorem tv_arithmetic:
  assumes "tv_ok a" "tv_ok b"
  shows "tv_val (snd (tv_sub a b)) = tv_val a - tv_val b \<and> tv_ok (snd (tv_sub a b)) \<and>
     tv_val (tv_add a b) = tv_val a + tv_val b \<and> tv_ok (tv_add a b) \<and>
     (tv_later a b \<longleftrightarrow> tv_val b \<le> tv_val a)"
  using tv_sub_val [of a b] tv_add_val [OF assms] tv_later_val [OF assms] assms by simp

theorem tv_arithmetic_witness:
  "tv_val (snd (tv_sub \<lparr>tv_sec = 5, tv_usec = 100\<rparr> \<lparr>tv_sec = 2, tv_usec = 900000\<rparr>)) = 2100100"
proof -
  have "tv_ok \<lparr>tv_sec = 5, tv_usec = 100\<rparr>" "tv_ok \<lparr>tv_sec = 2, tv_usec = 900000\<rparr>" by (simp_all add: tv_ok_def)
  from tv_arithmetic [OF this] show ?thesis by (simp add: tv_val_def)
qed


text \<open>One timer at address 2, for the witnesses.\<close>

definition ex_timers :: "int \<Rightarrow> nat list tstate" where
  "ex_timers sec = \<lparr>t_head = 1, t_links = llist_add_tail (INIT_LLIST_HEAD \<lparr>nxt = id, prv = id\<rparr> 1) 2 1,
     t_obj = (\<lambda>_. \<lparr>expires = \<lparr>tv_sec = sec, tv_usec = 0\<rparr>, tmr_cb = 0, tmr_data = 0\<rparr>), t_itimer = None, t_world = []\<rparr>"

lemma ex_timers_list: "dl_list (t_links (ex_timers sec)) (t_head (ex_timers sec)) [2]"
  using dl_list_add_tail [OF dl_list_init, of 2 1] by (simp add: ex_timers_def)




text \<open>A registered timer can expire early: registration leaves the sum of the microseconds as it is,
  and the comparison of the seconds then decides before the carry is seen.
\<close>

theorem timer_expires_early:
  assumes l: "dl_list (t_links s) (t_head s) xs" "tmr \<notin> set (t_head s # xs)"
    and carry: "tv_usec (expires (t_obj s tmr)) + tv_usec now > 1000000"
  defines "fire \<equiv> \<lparr>tv_sec = tv_sec (expires (t_obj s tmr)) + tv_sec now + 1, tv_usec = 0\<rparr>"
  shows "\<exists>s'. gsmd_timer_register (Some now) si tmr s = Some (0, s') \<and>
     dl_list (t_links s') (t_head s) (xs @ [tmr]) \<and>
     tv_later fire (expires (t_obj s' tmr)) \<and>
     tv_val fire < tv_val now + tv_val (expires (t_obj s tmr))"
proof -
  let ?e = "\<lparr>tv_sec = tv_sec (expires (t_obj s tmr)) + tv_sec now,
    tv_usec = tv_usec (expires (t_obj s tmr)) + tv_usec now\<rparr>"
  let ?s = "s\<lparr>t_obj := (t_obj s)(tmr := (t_obj s tmr)\<lparr>expires := ?e\<rparr>), t_links := llist_add_tail (t_links s) tmr (t_head s)\<rparr>"
  have d: "dl_list (t_links ?s) (t_head ?s) (xs @ [tmr])" using dl_list_add_tail [OF l] by simp
  obtain rc it where "calc_next_expiration now si ?s = Some (rc, ?s\<lparr>t_itimer := it\<rparr>)"
    using calc_next_total [OF d] by blast
  then have "gsmd_timer_register (Some now) si tmr s = Some (0, ?s\<lparr>t_itimer := it\<rparr>)"
    by (simp add: gsmd_timer_register_def Let_def)
  then show ?thesis using d carry by (auto simp: fire_def tv_later_def tv_val_def)
qed

theorem timer_expires_early_witness:
  "\<exists>s'. gsmd_timer_register (Some \<lparr>tv_sec = 10, tv_usec = 900000\<rparr>) 0 3
       ((ex_timers 5)\<lparr>t_obj := (\<lambda>_. \<lparr>expires = \<lparr>tv_sec = 1, tv_usec = 500000\<rparr>, tmr_cb = 0, tmr_data = 0\<rparr>)\<rparr>) = Some (0, s') \<and>
     tv_later \<lparr>tv_sec = 12, tv_usec = 0\<rparr> (expires (t_obj s' 3))"
proof -
  let ?s = "(ex_timers 5)\<lparr>t_obj := (\<lambda>_. \<lparr>expires = \<lparr>tv_sec = 1, tv_usec = 500000\<rparr>, tmr_cb = 0, tmr_data = 0\<rparr>)\<rparr>"
  have l: "dl_list (t_links ?s) (t_head ?s) [2]" using ex_timers_list [of 5] by simp
  show ?thesis
    using timer_expires_early [OF l, of 3 "\<lparr>tv_sec = 10, tv_usec = 900000\<rparr>" 0] by (auto simp: ex_timers_def)
qed

text \<open>A timer that is already over is not detected when the next expiration is computed: the
  subtraction never answers a negative number, and the kernel timer is given a negative second.
\<close>

theorem calc_next_expiration_negative:
  assumes "dl_list (t_links s) (t_head s) xs" "x \<in> set xs" "0 \<le> si"
    and "tv_ok (expires (t_obj s x))" "tv_ok now" "tv_sec (expires (t_obj s x)) < tv_sec now"
    and "\<forall>x \<in> set xs. tv_ok (expires (t_obj s x))"
  shows "\<exists>d. calc_next_expiration now si s = Some (0, s\<lparr>t_itimer := Some d\<rparr>) \<and> tv_sec d < 0"
proof -
  obtain z r where xs: "xs = z # r" using assms(2) by (cases xs) auto
  obtain y where "y \<in> set xs" "\<forall>z \<in> set xs. tv_later (expires (t_obj s z)) (expires (t_obj s y))"
      and "calc_next_expiration now si s = (if si < 0 then Some (si, s)
        else Some (0, s\<lparr>t_itimer := Some (snd (tv_sub (expires (t_obj s y)) now))\<rparr>))"
    using xs by (auto intro: calc_next_eq [OF assms(1) [unfolded xs], of now si])
  then have y: "y \<in> set xs" "tv_later (expires (t_obj s x)) (expires (t_obj s y))"
      "calc_next_expiration now si s = Some (0, s\<lparr>t_itimer := Some (snd (tv_sub (expires (t_obj s y)) now))\<rparr>)"
    using assms(2,3) by simp_all
  have "tv_val (snd (tv_sub (expires (t_obj s y)) now)) < 0" "tv_ok (snd (tv_sub (expires (t_obj s y)) now))"
    using y(1,2) assms(4-7) tv_sub_val [of "expires (t_obj s y)" now] tv_later_val
    by (auto simp: tv_val_def tv_ok_def tv_later_def split: if_splits)
  then show ?thesis using y(3) by (auto simp: tv_val_def tv_ok_def)
qed

theorem calc_next_expiration_negative_witness:
  "\<exists>d. calc_next_expiration \<lparr>tv_sec = 9, tv_usec = 0\<rparr> 0 (ex_timers 5) = Some (0, (ex_timers 5)\<lparr>t_itimer := Some d\<rparr>) \<and>
     tv_sec d < 0"
  by (rule calc_next_expiration_negative [OF ex_timers_list, of 2]) (simp_all add: ex_timers_def tv_ok_def)

end
