(* ===== verification/Llparse.thy ===== *)
theory Llparse
  imports Prelude
begin

text \<open>
  The low-level parser of modem output, \<^verbatim>\<open>gsm/src/gsmd/atcmd.c\<close> (\<open>llparse_append\<close> to \<open>llparse_init\<close>) with its
  state \<^verbatim>\<open>struct llparser\<close> of \<^verbatim>\<open>gsm/include/gsmd/gsmd.h\<close>. The cursor is an offset into the buffer. The two
  callbacks are arguments that work on a state \<open>'s\<close> of the caller (the daemon); none of the callbacks of
  gsmd touches the parser itself (the plugin of \<^verbatim>\<open>vendor_bcm.c\<close>, which is not linked, would). \<open>STRICT\<close> is not defined in the build.
\<close>



section \<open>State\<close>

datatype llparse_state =
    LLPARSE_STATE_IDLE
  | LLPARSE_STATE_IDLE_CR
  | LLPARSE_STATE_IDLE_LF
  | LLPARSE_STATE_RESULT
  | LLPARSE_STATE_RESULT_CR
  | LLPARSE_STATE_RESULT_LF
  | LLPARSE_STATE_PROMPT
  | LLPARSE_STATE_PROMPT_SPC
  | LLPARSE_STATE_ERROR

abbreviation (input) LGSM_ATCMD_F_EXTENDED :: u32 where "LGSM_ATCMD_F_EXTENDED \<equiv> 1"
abbreviation (input) LGSM_ATCMD_F_LFCR :: u32 where "LGSM_ATCMD_F_LFCR \<equiv> 4"
abbreviation (input) LLPARSE_BUF_SIZE :: nat where "LLPARSE_BUF_SIZE \<equiv> 1024"

definition EFBIG :: int where "EFBIG = 27"

abbreviation (input) CR :: char where "CR \<equiv> CHR 0x0D"
abbreviation (input) LF :: char where "LF \<equiv> CHR 0x0A"

record llparser =
  ll_state :: llparse_state
  ll_len :: nat
  ll_flags :: u32
  ll_cur :: nat
  ll_buf :: string

text \<open>The parser between its creation and its last call: the cursor is inside, the rest is zero.\<close>

definition wf_llparser :: "llparser \<Rightarrow> bool" where
  "wf_llparser l \<longleftrightarrow> length (ll_buf l) = LLPARSE_BUF_SIZE \<and> ll_len l = LLPARSE_BUF_SIZE \<and>
     ll_cur l \<le> LLPARSE_BUF_SIZE \<and> (\<forall>i < LLPARSE_BUF_SIZE. ll_cur l \<le> i \<longrightarrow> ll_buf l ! i = CHR 0x00)"

section \<open>Operations\<close>

definition llparse_append :: "llparser \<Rightarrow> char \<Rightarrow> int \<times> llparser" where
  "llparse_append llp byte =
     (if ll_cur llp < ll_len llp
      then (0, llp\<lparr>ll_buf := (ll_buf llp)[ll_cur llp := byte], ll_cur := ll_cur llp + 1\<rparr>)
      else (- EFBIG, llp))"

definition llparse_endline :: "llparser \<Rightarrow> llparser" where
  "llparse_endline llp =
     llp\<lparr>ll_cur := 0, ll_state := LLPARSE_STATE_IDLE, ll_buf := replicate LLPARSE_BUF_SIZE CHR 0x00\<rparr>"

definition enter_result :: "llparser \<Rightarrow> char \<Rightarrow> int \<times> llparser" where
  "enter_result llp byte = llparse_append (llp\<lparr>ll_state := LLPARSE_STATE_RESULT\<rparr>) byte"

definition llparse_byte :: "llparser \<Rightarrow> char \<Rightarrow> int \<times> llparser" where
  "llparse_byte llp byte =
     (if ll_state llp = LLPARSE_STATE_IDLE \<or> ll_state llp = LLPARSE_STATE_PROMPT_SPC then
        (if ll_flags llp AND LGSM_ATCMD_F_EXTENDED \<noteq> 0 then
           (if byte = CR then (0, llp\<lparr>ll_state := LLPARSE_STATE_IDLE_CR\<rparr>)
            else if byte = CHR ''>'' then (0, llp\<lparr>ll_state := LLPARSE_STATE_PROMPT\<rparr>)
            else enter_result llp byte)
         else enter_result llp byte)
      else if ll_state llp = LLPARSE_STATE_IDLE_CR then
        (if byte = LF then (0, llp\<lparr>ll_state := LLPARSE_STATE_IDLE_LF\<rparr>)
         else (0, llp\<lparr>ll_state := LLPARSE_STATE_ERROR\<rparr>))
      else if ll_state llp = LLPARSE_STATE_IDLE_LF then
        (if byte = CR then (0, llp\<lparr>ll_state := LLPARSE_STATE_RESULT_CR\<rparr>)
         else if byte = CHR ''>'' then (0, llp\<lparr>ll_state := LLPARSE_STATE_PROMPT\<rparr>)
         else enter_result llp byte)
      else if ll_state llp = LLPARSE_STATE_RESULT then
        (if byte = CR then (0, llp\<lparr>ll_state := LLPARSE_STATE_RESULT_CR\<rparr>)
         else if ll_flags llp AND LGSM_ATCMD_F_LFCR \<noteq> 0 \<and> byte = LF
         then (0, llp\<lparr>ll_state := LLPARSE_STATE_RESULT_LF\<rparr>)
         else llparse_append llp byte)
      else if ll_state llp = LLPARSE_STATE_RESULT_CR then
        (0, if byte = LF then llparse_endline llp else llp)
      else if ll_state llp = LLPARSE_STATE_RESULT_LF then
        (0, if byte = CR then llparse_endline llp else llp)
      else if ll_state llp = LLPARSE_STATE_PROMPT then
        (if byte = CHR '' '' then (0, llp\<lparr>ll_state := LLPARSE_STATE_PROMPT_SPC\<rparr>)
         else enter_result (snd (llparse_append llp CHR ''>'')) byte)
      else (0, llp))"

text \<open>
  \<open>llparse_string\<close>: the line callback after every byte that leaves the parser behind the CR of a
  result, the prompt callback after a complete prompt, and the first negative return ends the run.
\<close>

fun llparse_string ::
  "(string \<Rightarrow> nat \<Rightarrow> 's \<Rightarrow> 's) \<Rightarrow> ('s \<Rightarrow> 's) \<Rightarrow> llparser \<Rightarrow> string \<Rightarrow> 's \<Rightarrow> int \<times> llparser \<times> 's" where
  "llparse_string cb prompt_cb llp [] s = (0, llp, s)"
| "llparse_string cb prompt_cb llp (byte # buf) s =
     (let (rc, llp) = llparse_byte llp byte
      in if rc < 0 then (rc, llp, s)
         else
           let s = (if ll_state llp = LLPARSE_STATE_RESULT_CR then cb (ll_buf llp) (ll_cur llp) s else s);
               s = (if ll_state llp = LLPARSE_STATE_PROMPT_SPC then prompt_cb s else s)
           in llparse_string cb prompt_cb llp buf s)"

definition llparse_init :: "llparser \<Rightarrow> llparser" where
  "llparse_init llp = llp\<lparr>ll_state := LLPARSE_STATE_IDLE\<rparr>"

section \<open>Well-formedness is kept\<close>

lemma wf_llparser_endline: "wf_llparser l \<Longrightarrow> wf_llparser (llparse_endline l)"
  by (simp add: wf_llparser_def llparse_endline_def)

lemma wf_llparser_append: "wf_llparser l \<Longrightarrow> wf_llparser (snd (llparse_append l b))"
  by (auto simp: wf_llparser_def llparse_append_def nth_list_update)

lemma wf_llparser_state [simp]: "wf_llparser (l\<lparr>ll_state := x\<rparr>) = wf_llparser l"
  by (simp add: wf_llparser_def)

lemma wf_llparser_enter: "wf_llparser l \<Longrightarrow> wf_llparser (snd (enter_result l b))"
  by (simp add: enter_result_def wf_llparser_append)

lemma wf_llparser_byte: "wf_llparser l \<Longrightarrow> wf_llparser (snd (llparse_byte l b))"
  by (simp add: llparse_byte_def wf_llparser_endline wf_llparser_append wf_llparser_enter)

lemma wf_llparser_string:
  assumes "wf_llparser l" "llparse_string cb pcb l buf s = (rc, l', s')"
  shows "wf_llparser l'"
  using assms
proof (induction cb pcb l buf s rule: llparse_string.induct)
  case (2 cb pcb l byte buf s)
  then show ?case
    using wf_llparser_byte [of l byte] by (auto simp: Let_def split: prod.splits if_splits)
qed simp

section \<open>Chunks of input\<close>

lemma llparse_string_app:
  "llparse_string cb pcb l (xs @ ys) s =
     (let (rc, l', s') = llparse_string cb pcb l xs s
      in if rc < 0 then (rc, l', s') else llparse_string cb pcb l' ys s')"
proof (induction cb pcb l xs s rule: llparse_string.induct)
  case (2 cb pcb l byte buf s)
  then show ?case by (auto simp: Let_def split: prod.splits)
qed simp

lemma llparse_append_rc: "fst (llparse_append l b) \<in> {0, - EFBIG}"
  by (simp add: llparse_append_def)

lemma llparse_byte_rc: "fst (llparse_byte l b) \<in> {0, - EFBIG}"
  using llparse_append_rc by (simp add: llparse_byte_def enter_result_def)

lemma llparse_string_rc: "fst (llparse_string cb pcb l buf s) \<in> {0, - EFBIG}"
proof (induction cb pcb l buf s rule: llparse_string.induct)
  case (2 cb pcb l byte buf s)
  then show ?case
    using llparse_byte_rc [of l byte] by (auto simp: Let_def EFBIG_def split: prod.splits)
qed simp

section \<open>Framed lines\<close>

text \<open>
  What the modem sends in verbose (V1) mode: lines framed by \<open>CR LF\<close> on both sides, and prompts for
  more input. \<open>ll_idle\<close> is the parser that waits for the next of them.
\<close>

datatype ll_item = Line string | Prompt

fun v1_frame :: "ll_item \<Rightarrow> string" where
  "v1_frame (Line t) = [CR, LF] @ t @ [CR, LF]"
| "v1_frame Prompt = [CR, LF, CHR ''>'', CHR '' '']"

fun plain_item :: "ll_item \<Rightarrow> bool" where
  "plain_item (Line t) \<longleftrightarrow>
     (t = [] \<or> hd t \<noteq> CHR ''>'') \<and> CR \<notin> set t \<and> LF \<notin> set t \<and> length t \<le> LLPARSE_BUF_SIZE"
| "plain_item Prompt \<longleftrightarrow> True"

text \<open>The calls that an item causes: the line callback sees the whole zero-filled buffer.\<close>

fun deliver_item :: "(string \<Rightarrow> nat \<Rightarrow> 's \<Rightarrow> 's) \<Rightarrow> ('s \<Rightarrow> 's) \<Rightarrow> ll_item \<Rightarrow> 's \<Rightarrow> 's" where
  "deliver_item cb prompt_cb (Line t) s =
     cb (t @ replicate (LLPARSE_BUF_SIZE - length t) CHR 0x00) (length t) s"
| "deliver_item cb prompt_cb Prompt s = prompt_cb s"

definition ll_idle :: "llparser \<Rightarrow> bool" where
  "ll_idle l \<longleftrightarrow> ll_state l \<in> {LLPARSE_STATE_IDLE, LLPARSE_STATE_PROMPT_SPC} \<and> ll_cur l = 0 \<and>
     ll_len l = LLPARSE_BUF_SIZE \<and> ll_buf l = replicate LLPARSE_BUF_SIZE CHR 0x00 \<and>
     ll_flags l AND LGSM_ATCMD_F_EXTENDED \<noteq> 0"

definition in_result :: "llparser \<Rightarrow> string \<Rightarrow> llparser" where
  "in_result l t = l\<lparr>ll_state := LLPARSE_STATE_RESULT, ll_cur := length t,
     ll_buf := t @ replicate (LLPARSE_BUF_SIZE - length t) CHR 0x00\<rparr>"

lemma append_in_result:
  assumes "length t < LLPARSE_BUF_SIZE" "ll_len l = LLPARSE_BUF_SIZE"
  shows "llparse_append (in_result l t) b = (0, in_result l (t @ [b]))"
proof -
  have "LLPARSE_BUF_SIZE - length t = Suc (LLPARSE_BUF_SIZE - Suc (length t))" using assms(1) by simp
  then show ?thesis
    using assms by (simp add: llparse_append_def in_result_def list_update_append)
qed

lemma byte_in_result:
  "b \<noteq> CR \<Longrightarrow> b \<noteq> LF \<Longrightarrow> llparse_byte (in_result l u) b = llparse_append (in_result l u) b"
  by (auto simp: llparse_byte_def in_result_def)

lemma result_bytes:
  assumes "CR \<notin> set t" "LF \<notin> set t" "length u + length t \<le> LLPARSE_BUF_SIZE" "ll_len l = LLPARSE_BUF_SIZE"
  shows "llparse_string cb pcb (in_result l u) t s = (0, in_result l (u @ t), s)"
  using assms(1-3)
proof (induction t arbitrary: u)
  case (Cons b t)
  have "llparse_byte (in_result l u) b = (0, in_result l (u @ [b]))"
    using Cons.prems append_in_result [of u l b] assms(4) by (auto simp: byte_in_result)
  moreover have "llparse_string cb pcb (in_result l (u @ [b])) t s = (0, in_result l (u @ b # t), s)"
    using Cons.IH [of "u @ [b]"] Cons.prems by simp
  ultimately show ?case
    by (simp add: in_result_def)
qed simp

lemma idle_start:
  assumes "ll_idle l"
  shows "llparse_string cb pcb l (CR # LF # t) s = llparse_string cb pcb (l\<lparr>ll_state := LLPARSE_STATE_IDLE_LF\<rparr>) t s"
  using assms by (auto simp: llparse_byte_def ll_idle_def)

lemma line_body:
  assumes "ll_idle l" "plain_item (Line (b # u))"
  shows "llparse_string cb pcb (l\<lparr>ll_state := LLPARSE_STATE_IDLE_LF\<rparr>) (b # u) s = (0, in_result l (b # u), s)"
proof -
  have len: "ll_len l = LLPARSE_BUF_SIZE" using assms(1) by (simp add: ll_idle_def)
  have e: "l\<lparr>ll_state := LLPARSE_STATE_RESULT\<rparr> = in_result l []"
    using assms(1) by (cases l) (simp add: in_result_def ll_idle_def)
  have "llparse_byte (l\<lparr>ll_state := LLPARSE_STATE_IDLE_LF\<rparr>) b = (0, in_result l [b])"
    using assms append_in_result [OF _ len, of "[]" b] e
    by (auto simp: llparse_byte_def enter_result_def)
  moreover have "llparse_string cb pcb (in_result l [b]) u s = (0, in_result l (b # u), s)"
    using result_bytes [of u "[b]" l cb pcb s] assms(2) len by simp
  ultimately show ?thesis by (simp add: in_result_def)
qed

lemma endline_idle:
  assumes "ll_idle l"
  shows "llparse_endline (l\<lparr>ll_cur := n, ll_buf := t, ll_state := x\<rparr>) = l\<lparr>ll_state := LLPARSE_STATE_IDLE\<rparr>"
    and "llparse_endline (l\<lparr>ll_state := x\<rparr>) = l\<lparr>ll_state := LLPARSE_STATE_IDLE\<rparr>"
    and "ll_idle (l\<lparr>ll_state := LLPARSE_STATE_IDLE\<rparr>)" "ll_idle (l\<lparr>ll_state := LLPARSE_STATE_PROMPT_SPC\<rparr>)"
  using assms by (cases l; simp add: llparse_endline_def ll_idle_def)+

lemma llparse_item:
  assumes "ll_idle l" "plain_item x"
  shows "\<exists>l'. ll_idle l' \<and> llparse_string cb pcb l (v1_frame x) s = (0, l', deliver_item cb pcb x s)"
proof (cases x)
  case Prompt
  have "llparse_string cb pcb l (v1_frame x) s = (0, l\<lparr>ll_state := LLPARSE_STATE_PROMPT_SPC\<rparr>, pcb s)"
    by (simp only: Prompt v1_frame.simps idle_start [OF assms(1)]) (simp add: llparse_byte_def)
  then show ?thesis using endline_idle(4) [OF assms(1)] by (auto simp: Prompt)
next
  case (Line t)
  show ?thesis
  proof (cases t)
    case Nil
    have "ll_buf l = replicate LLPARSE_BUF_SIZE CHR 0x00" "ll_cur l = 0"
      using assms(1) by (simp_all add: ll_idle_def)
    then have "llparse_string cb pcb l (v1_frame x) s =
        (0, l\<lparr>ll_state := LLPARSE_STATE_IDLE\<rparr>, deliver_item cb pcb x s)"
      by (simp only: Line Nil v1_frame.simps append.simps idle_start [OF assms(1)])
        (simp add: llparse_byte_def endline_idle [OF assms(1)])
    then show ?thesis using endline_idle(3) [OF assms(1)] by blast
  next
    case (Cons b u)
    have tl: "llparse_string cb pcb (in_result l t) [CR, LF] s =
        (0, l\<lparr>ll_state := LLPARSE_STATE_IDLE\<rparr>, deliver_item cb pcb x s)"
      using endline_idle(1) [OF assms(1)]
      by (simp add: llparse_byte_def in_result_def Line Let_def)
    have "llparse_string cb pcb l (v1_frame x) s =
        llparse_string cb pcb (l\<lparr>ll_state := LLPARSE_STATE_IDLE_LF\<rparr>) (t @ [CR, LF]) s"
      by (simp only: Line v1_frame.simps append_Cons append_Nil idle_start [OF assms(1)])
    also have "\<dots> = (0, l\<lparr>ll_state := LLPARSE_STATE_IDLE\<rparr>, deliver_item cb pcb x s)"
      using line_body [OF assms(1), of b u cb pcb s] assms(2) tl
      by (simp only: llparse_string_app Line Cons) simp
    finally show ?thesis using endline_idle(3) [OF assms(1)] by blast
  qed
qed

lemma llparse_item_stream:
  assumes "ll_idle l" "\<forall>x \<in> set xs. plain_item x"
  shows "\<exists>l'. ll_idle l' \<and>
     llparse_string cb pcb l (concat (map v1_frame xs)) s = (0, l', fold (deliver_item cb pcb) xs s)"
  using assms
proof (induction xs arbitrary: l s)
  case (Cons x xs)
  obtain l1 where 1: "ll_idle l1" "llparse_string cb pcb l (v1_frame x) s = (0, l1, deliver_item cb pcb x s)"
    using llparse_item Cons.prems by force
  obtain l2 where "ll_idle l2" "llparse_string cb pcb l1 (concat (map v1_frame xs)) (deliver_item cb pcb x s) =
      (0, l2, fold (deliver_item cb pcb) xs (deliver_item cb pcb x s))"
    using Cons.IH [OF 1(1)] Cons.prems(2) by auto
  then show ?case using 1(2) by (auto simp: llparse_string_app)
qed simp

section \<open>Properties\<close>

text \<open>C37: Framing: from an idle parser, a stream of framed lines and prompts calls the line callback once
  for each line, with the zero-terminated text and its length, and the prompt callback once for each
  prompt, in the order of the stream, and leaves the parser idle again.
\<close>

theorem llparse_stream:
  assumes "ll_idle l" "\<forall>x \<in> set xs. plain_item x"
  shows "\<exists>l'. ll_idle l' \<and>
     llparse_string cb pcb l (concat (map v1_frame xs)) s = (0, l', fold (deliver_item cb pcb) xs s)"
  by (rule llparse_item_stream [OF assms])

definition ex_llp :: llparser where
  "ex_llp = \<lparr>ll_state = LLPARSE_STATE_IDLE, ll_len = LLPARSE_BUF_SIZE, ll_flags = LGSM_ATCMD_F_EXTENDED,
     ll_cur = 0, ll_buf = replicate LLPARSE_BUF_SIZE CHR 0x00\<rparr>"

lemma ll_idle_ex: "ll_idle ex_llp"
  by (simp add: ll_idle_def ex_llp_def)

theorem llparse_stream_witness:
  "\<exists>l'. llparse_string (\<lambda>b n s. s @ [take n b]) (\<lambda>s. s @ [''>'']) ex_llp
      (concat (map v1_frame [Line ''+CSQ: 5'', Line ''OK'', Prompt])) [] =
     (0, l', [''+CSQ: 5'', ''OK'', ''>''])"
  using llparse_stream [OF ll_idle_ex, of "[Line ''+CSQ: 5'', Line ''OK'', Prompt]"
      "\<lambda>b n s. s @ [take n b]" "\<lambda>s. s @ [''>'']" "[]"]
  by auto


text \<open>Every run keeps the parser well-formed (cursor inside of the buffer, zeros behind it) and
  answers 0 or \<open>-EFBIG\<close>; the buffer that a line callback sees is a C string as long as the
  line has at most 1023 characters.
\<close>

theorem llparse_string_invariant:
  assumes "wf_llparser l" "llparse_string cb pcb l buf s = (rc, l', s')"
  shows "wf_llparser l' \<and> rc \<in> {0, - EFBIG} \<and>
     (ll_cur l' < LLPARSE_BUF_SIZE \<longrightarrow> ll_buf l' ! ll_cur l' = CHR 0x00)"
  using wf_llparser_string [OF assms] llparse_string_rc [of cb pcb l buf s] assms(2)
  by (auto simp: wf_llparser_def)

theorem llparse_string_invariant_witness:
  "case llparse_string (\<lambda>b n s. s) (\<lambda>s. s) ex_llp [CR, LF, CHR ''O''] () of (rc, l', s') \<Rightarrow>
     rc \<in> {0, - EFBIG} \<and> ll_cur l' \<le> LLPARSE_BUF_SIZE"
proof -
  have w: "wf_llparser ex_llp" by (simp add: wf_llparser_def ex_llp_def)
  obtain rc l' s' where r: "llparse_string (\<lambda>b n s. s) (\<lambda>s. s) ex_llp [CR, LF, CHR ''O''] () = (rc, l', s')"
    by (metis prod_cases3)
  show ?thesis unfolding r using llparse_string_invariant [OF w r] by (simp add: wf_llparser_def)
qed

text \<open>A byte other than LF behind the CR of a line delivers the line again: the parser stays in
  \<open>LLPARSE_STATE_RESULT_CR\<close> and the callback runs for each such byte.
\<close>

theorem llparse_repeats_line:
  assumes "ll_state l = LLPARSE_STATE_RESULT_CR" "LF \<notin> set t"
  shows "llparse_string cb pcb l t s = (0, l, (cb (ll_buf l) (ll_cur l) ^^ length t) s)"
  using assms(2)
  by (induction t arbitrary: s) (auto simp: llparse_byte_def assms(1) funpow_swap1)

theorem llparse_repeats_line_witness:
  "llparse_string (\<lambda>b n s. s + 1) (\<lambda>s. s) (ex_llp\<lparr>ll_state := LLPARSE_STATE_RESULT_CR\<rparr>) ''OK'' (0 :: nat) =
     (0, ex_llp\<lparr>ll_state := LLPARSE_STATE_RESULT_CR\<rparr>, 2)"
  by (subst llparse_repeats_line) simp_all

end
