(* ===== verification/C_String.thy ===== *)
theory C_String
  imports Prelude
begin

text \<open>
  The functions of the C library on strings that gsmd uses. A C string is the list of its characters
  before the terminating NUL (so a value of this kind contains no NUL); \<open>c_str\<close> reads it off a zero
  terminated array. Numbers have the width of the target: \<open>int\<close> and \<open>long\<close> are 32 bits, and out of
  range input saturates as in \<open>strtol\<close>.
\<close>

text \<open>The error codes of the C library that gsmd returns.\<close>

definition EAGAIN :: int where "EAGAIN = 11"
definition ENOENT :: int where "ENOENT = 2"
definition EINVAL :: int where "EINVAL = 22"
definition ENOMEM :: int where "ENOMEM = 12"
definition ENOSYS :: int where "ENOSYS = 38"
definition EIO :: int where "EIO = 5"
definition EEXIST :: int where "EEXIST = 17"

lemmas errno_defs = EAGAIN_def ENOENT_def EINVAL_def ENOMEM_def ENOSYS_def EIO_def

abbreviation (input) NUL :: char where "NUL \<equiv> CHR 0x00"

definition c_str :: "string \<Rightarrow> string" where
  "c_str = takeWhile (\<lambda>c. c \<noteq> NUL)"

text \<open>An array read as a C string, which needs its terminating NUL.\<close>

definition c_str_at :: "string \<Rightarrow> string option" where
  "c_str_at arr = (if NUL \<in> set arr then Some (c_str arr) else None)"

definition char_code :: "char \<Rightarrow> nat" where
  "char_code c = of_char c"

definition is_digit :: "char \<Rightarrow> bool" where
  "is_digit c \<longleftrightarrow> 48 \<le> char_code c \<and> char_code c \<le> 57"

definition is_space :: "char \<Rightarrow> bool" where
  "is_space c \<longleftrightarrow> c = CHR '' '' \<or> 9 \<le> char_code c \<and> char_code c \<le> 13"

definition digit_val :: "char \<Rightarrow> int" where
  "digit_val c = int (char_code c) - 48"

definition digits_val :: "string \<Rightarrow> int" where
  "digits_val s = foldl (\<lambda>n c. n * 10 + digit_val c) 0 s"

definition clamp :: "int \<Rightarrow> int \<Rightarrow> int \<Rightarrow> int" where
  "clamp lo hi k = max lo (min hi k)"

text \<open>\<open>atoi\<close>: white space, a sign, and the longest run of digits.\<close>

fun split_sign :: "string \<Rightarrow> bool \<times> string" where
  "split_sign [] = (False, [])"
| "split_sign (c # s) =
     (if c = CHR ''-'' then (True, s) else if c = CHR ''+'' then (False, s) else (False, c # s))"

definition c_atoi :: "string \<Rightarrow> int" where
  "c_atoi s =
     (let (neg, t) = split_sign (dropWhile is_space s);
          n = digits_val (takeWhile is_digit t)
      in clamp (- 2147483648) 2147483647 (if neg then - n else n))"

text \<open>\<open>strtoul (s, NULL, 10)\<close>: a minus sign negates modulo \<open>2^32\<close>.\<close>

definition c_strtoul :: "string \<Rightarrow> int" where
  "c_strtoul s =
     (let (neg, t) = split_sign (dropWhile is_space s);
          n = digits_val (takeWhile is_digit t)
      in if n > 4294967295 then 4294967295 else if neg then (- n) mod 4294967296 else n)"

text \<open>\<open>strchr\<close>: the offset of the first occurrence; the NUL is found at the end.\<close>

fun c_strchr :: "string \<Rightarrow> char \<Rightarrow> nat option" where
  "c_strchr [] c = (if c = NUL then Some 0 else None)"
| "c_strchr (x # s) c = (if x = c then Some 0 else map_option Suc (c_strchr s c))"

text \<open>\<open>strncmp (a, b, n) == 0\<close> and \<open>strstr\<close>.\<close>

definition c_strneq :: "string \<Rightarrow> string \<Rightarrow> nat \<Rightarrow> bool" where
  "c_strneq a b n \<longleftrightarrow> take n a = take n b"

definition prefix_of :: "string \<Rightarrow> string \<Rightarrow> bool" where
  "prefix_of p s \<longleftrightarrow> take (length p) s = p"

fun c_strstr :: "string \<Rightarrow> string \<Rightarrow> nat option" where
  "c_strstr [] p = (if p = [] then Some 0 else None)"
| "c_strstr (x # s) p = (if prefix_of p (x # s) then Some 0 else map_option Suc (c_strstr s p))"

text \<open>\<open>strncpy (dst, s, n)\<close> into an array: the first \<open>n\<close> characters, filled up with zeros.\<close>

definition c_strncpy :: "string \<Rightarrow> string \<Rightarrow> nat \<Rightarrow> string option" where
  "c_strncpy dst s n = wrn dst 0 (take n s @ replicate (n - length s) NUL)"

text \<open>\<open>%d\<close> and \<open>%i\<close>.\<close>

fun dec_nat :: "nat \<Rightarrow> string" where
  "dec_nat n = (if n < 10 then [char_of (48 + n)] else dec_nat (n div 10) @ [char_of (48 + n mod 10)])"

declare dec_nat.simps [simp del]

definition dec_int :: "int \<Rightarrow> string" where
  "dec_int k = (if k < 0 then CHR ''-'' # dec_nat (nat (- k)) else dec_nat (nat k))"

text \<open>\<open>sprintf\<close> into an array of \<open>n\<close> characters.\<close>

definition sprintf_to :: "nat \<Rightarrow> string \<Rightarrow> string option" where
  "sprintf_to n s = (if length s < n then Some s else None)"

text \<open>\<open>a | b\<close> of two results.\<close>

definition or_rc :: "int \<Rightarrow> int \<Rightarrow> int" where
  "or_rc a b = sint (word_of_int a OR word_of_int b :: u32)"

section \<open>Lemmas\<close>

lemma c_str_no_nul [simp]: "NUL \<notin> set s \<Longrightarrow> c_str s = s"
  by (auto simp: c_str_def takeWhile_eq_all_conv)

lemma c_str_pad [simp]: "NUL \<notin> set s \<Longrightarrow> c_str (s @ NUL # r) = s"
  by (induction s) (auto simp: c_str_def)

lemma c_str_pad_replicate [simp]: "NUL \<notin> set s \<Longrightarrow> c_str (s @ replicate n NUL) = s"
  by (cases n) auto

lemma nul_c_str [simp]: "NUL \<notin> set (c_str s)"
  by (auto simp: c_str_def dest: set_takeWhileD)

lemma char_code_of [simp]: "(n :: nat) < 256 \<Longrightarrow> char_code (char_of n) = n"
  by (simp add: char_code_def)

lemma is_digit_char [simp]: "(n :: nat) < 10 \<Longrightarrow> is_digit (char_of (48 + n))"
  by (simp add: is_digit_def)

lemma digit_val_char [simp]: "(n :: nat) < 10 \<Longrightarrow> digit_val (char_of (48 + n)) = int n"
  by (simp add: digit_val_def)

lemma dec_nat_digits: "\<forall>c \<in> set (dec_nat n). is_digit c"
proof (induction n rule: dec_nat.induct)
  case (1 n)
  then show ?case by (subst dec_nat.simps) auto
qed

lemma dec_nat_nonempty [simp]: "dec_nat n \<noteq> []"
  by (subst dec_nat.simps) simp

lemma digits_val_snoc: "digits_val (s @ [c]) = digits_val s * 10 + digit_val c"
  by (simp add: digits_val_def)

lemma digits_val_dec_nat [simp]: "digits_val (dec_nat n) = int n"
proof (induction n rule: dec_nat.induct)
  case (1 n)
  show ?case
  proof (cases "n < 10")
    case True
    then show ?thesis by (subst dec_nat.simps) (simp add: digits_val_def)
  next
    case False
    have "int (n div 10) * 10 + int (n mod 10) = int n"
      by (metis div_mult_mod_eq of_nat_add of_nat_mult of_nat_numeral)
    then show ?thesis using 1 False by (subst dec_nat.simps) (simp add: digits_val_snoc)
  qed
qed

lemma dec_nat_length: "n < 10 ^ k \<Longrightarrow> 0 < k \<Longrightarrow> length (dec_nat n) \<le> k"
proof (induction k arbitrary: n)
  case (Suc k)
  show ?case
  proof (cases "n < 10")
    case False
    then have "0 < k" using Suc.prems(1) by (cases k) auto
    moreover have "n div 10 < 10 ^ k" using Suc.prems(1) by (simp add: less_mult_imp_div_less mult.commute)
    ultimately show ?thesis using Suc.IH [of "n div 10"] False by (simp add: dec_nat.simps [of n])
  qed (simp add: dec_nat.simps)
qed simp

lemma digit_not: "is_digit c \<Longrightarrow> \<not> is_space c \<and> c \<noteq> CHR ''-'' \<and> c \<noteq> CHR ''+'' \<and> c \<noteq> NUL \<and> c \<noteq> CHR '','' \<and> c \<noteq> CHR '':''"
  by (auto simp: is_digit_def is_space_def char_code_def)

lemma split_sign_digit: "t \<noteq> [] \<Longrightarrow> is_digit (hd t) \<Longrightarrow> split_sign (dropWhile is_space t) = (False, t)"
  using digit_not by (cases t) auto

text \<open>Reading a printed number back, whatever follows it.\<close>

lemma c_atoi_dec_nat:
  assumes "n < 2147483648" "r = [] \<or> \<not> is_digit (hd r)"
  shows "c_atoi (dec_nat n @ r) = int n"
proof -
  have "is_digit (hd (dec_nat n @ r))" using dec_nat_digits [of n] by (simp add: hd_append)
  then have "split_sign (dropWhile is_space (dec_nat n @ r)) = (False, dec_nat n @ r)"
    by (intro split_sign_digit) simp_all
  moreover have "takeWhile is_digit (dec_nat n @ r) = dec_nat n"
    using assms(2) dec_nat_digits [of n] by (cases r) (auto simp: takeWhile_append)
  ultimately show ?thesis using assms(1) by (simp add: c_atoi_def clamp_def)
qed

lemma c_strchr_Some:
  assumes "c_strchr s c = Some n" "c \<noteq> NUL"
  shows "n < length s \<and> s ! n = c \<and> c \<notin> set (take n s)"
  using assms(1)
proof (induction s arbitrary: n)
  case (Cons x s)
  then show ?case by (auto split: if_splits simp: assms(2))
qed (use assms in simp)

lemma c_strchr_None: "c \<noteq> NUL \<Longrightarrow> c_strchr s c = None \<longleftrightarrow> c \<notin> set s"
  by (induction s) auto

lemma c_strchr_app: "c \<notin> set s \<Longrightarrow> c_strchr (s @ c # r) c = Some (length s)"
  by (induction s) auto

lemma prefix_of_app [simp]: "prefix_of p (p @ s)"
  by (simp add: prefix_of_def)

text \<open>\<open>strtok\<close> with one delimiter: the next token and what follows it.\<close>

definition strtok :: "char \<Rightarrow> string \<Rightarrow> (string \<times> string) option" where
  "strtok d s =
     (let t = dropWhile (\<lambda>c. c = d) s; tok = takeWhile (\<lambda>c. c \<noteq> d) t
      in if tok = [] then None else Some (tok, drop (length tok + 1) t))"

lemma strtok_shorter: "strtok d s = Some (tok, r) \<Longrightarrow> length r < length s"
proof -
  assume a: "strtok d s = Some (tok, r)"
  let ?t = "dropWhile (\<lambda>c. c = d) s"
  have "r = drop (length tok + 1) ?t" "tok \<noteq> []" "tok = takeWhile (\<lambda>c. c \<noteq> d) ?t"
    using a by (auto simp: strtok_def Let_def split: if_splits)
  then have "r = drop (length tok + 1) ?t" "?t \<noteq> []" by (metis takeWhile.simps(1))+
  then have "length r < length ?t" by (cases ?t) simp_all
  then show ?thesis using length_dropWhile_le [of "\<lambda>c. c = d" s] by simp
qed

end
