(* ===== verification/At_Queue.thy ===== *)
theory At_Queue
  imports Llparse C_String
begin

text \<open>
  The daemon's state and its command queue: \<^verbatim>\<open>struct gsmd\<close> and \<^verbatim>\<open>struct gsmd_atcmd\<close> of
  \<^verbatim>\<open>gsm/include/gsmd/gsmd.h\<close> and the queue functions of \<^verbatim>\<open>gsm/src/gsmd/atcmd.c\<close>. Queues are lists (the
  theory Llist shows that the pointer operations implement the list operations), with the address of a
  command as its identity. A callback is a value of a type \<open>'cb\<close> (the function with its context); what
  it does is given by an environment. The state of the other components is the field \<open>world\<close>.

  Whether an allocation succeeds is read from the list \<open>g_mem\<close>, one entry for each call; when the list is
  used up, allocations succeed. The value \<open>None\<close> of an operation is undefined behaviour (a NULL
  pointer that is followed, an access outside of an array).
\<close>

section \<open>State\<close>

datatype 'cb atcmd_cb = Null_Wakeup_Cb | Cb 'cb

record 'cb gsmd_atcmd =
  at_ptr :: nat
  at_cb :: "'cb atcmd_cb option"
  at_resp :: "string option"
  at_ret :: int
  at_buflen :: nat
  at_id :: u16
  at_cur :: nat
  at_buf :: string

abbreviation (input) GSMD_FLAG_V0 :: u32 where "GSMD_FLAG_V0 \<equiv> 1"
abbreviation (input) GSMD_FLAG_SMS_FMT_TEXT :: u32 where "GSMD_FLAG_SMS_FMT_TEXT \<equiv> 2"
abbreviation (input) GSMD_MODEM_WAKEUP_TIMEOUT :: int where "GSMD_MODEM_WAKEUP_TIMEOUT \<equiv> 3"
abbreviation (input) MLPARSE_BUF_SIZE :: nat where "MLPARSE_BUF_SIZE \<equiv> 65535"

text \<open>
  \<open>uart_write\<close> is the bit \<open>GSMD_FD_WRITE\<close> of \<open>gfd_uart.when\<close>; \<open>g_timers\<close> are the running timers
  (address and seconds), \<open>g_next\<close> is the next address that the allocator hands out.
\<close>

record ('cb, 'w) gsmd =
  g_flags :: u32
  interpreter_ready :: bool
  uart_write :: bool
  pending_atcmds :: "'cb gsmd_atcmd list"
  busy_atcmds :: "'cb gsmd_atcmd list"
  ext_chars :: string
  mlbuf :: string
  mlbuf_len :: nat
  mlunsolicited :: bool
  wakeup_timer :: "nat option"
  g_timers :: "(nat \<times> int) list"
  g_mem :: "bool list"
  g_next :: nat
  world :: 'w

type_synonym ('cb, 'w) call_env =
  "'cb \<Rightarrow> 'cb gsmd_atcmd \<Rightarrow> string \<Rightarrow> ('cb, 'w) gsmd \<Rightarrow> (int \<times> ('cb, 'w) gsmd) option"

text \<open>The next result of the allocator: an address, or NULL.\<close>

definition g_alloc :: "('cb, 'w) gsmd \<Rightarrow> nat option \<times> ('cb, 'w) gsmd" where
  "g_alloc g =
     (case g_mem g of
        [] \<Rightarrow> (Some (g_next g), g\<lparr>g_next := g_next g + 1\<rparr>)
      | ok # oks \<Rightarrow>
          if ok then (Some (g_next g), g\<lparr>g_next := g_next g + 1, g_mem := oks\<rparr>)
          else (None, g\<lparr>g_mem := oks\<rparr>))"

section \<open>Commands\<close>

text \<open>
  \<open>atcmd_fill\<close>: \<open>cmd\<close> is a C string; the array takes \<open>buflen\<close> characters, the last one a NUL, so that a
  command for which no room was asked loses its last character.
\<close>

definition atcmd_fill ::
  "string \<Rightarrow> nat \<Rightarrow> 'cb atcmd_cb option \<Rightarrow> u16 \<Rightarrow> ('cb, 'w) gsmd \<Rightarrow>
     ('cb gsmd_atcmd option \<times> ('cb, 'w) gsmd) option" where
  "atcmd_fill cmd rlen cb ident g =
     (let buflen = (if rlen > length cmd then rlen else length cmd);
          (p, g) = g_alloc g
      in case p of
           None \<Rightarrow> Some (None, g)
         | Some a \<Rightarrow>
             if buflen = 0 then None
             else Some (Some \<lparr>at_ptr = a, at_cb = cb, at_resp = None, at_ret = - 255, at_buflen = buflen,
               at_id = ident, at_cur = 0,
               at_buf = take (buflen - 1) cmd @ replicate (buflen - 1 - length cmd) NUL @ [NUL]\<rparr>, g))"

definition atcmd_wake_pending_queue :: "('cb, 'w) gsmd \<Rightarrow> ('cb, 'w) gsmd" where
  "atcmd_wake_pending_queue g = g\<lparr>uart_write := True\<rparr>"

definition atcmd_wait_pending_queue :: "('cb, 'w) gsmd \<Rightarrow> ('cb, 'w) gsmd" where
  "atcmd_wait_pending_queue g = g\<lparr>uart_write := False\<rparr>"

text \<open>The timer that guards the wake-up command; \<open>wakeup_timer\<close> of the code. A failing allocation leaves NULL.\<close>

definition start_wakeup_timer :: "('cb, 'w) gsmd \<Rightarrow> ('cb, 'w) gsmd" where
  "start_wakeup_timer g =
     (let (p, g) = g_alloc g
      in g\<lparr>wakeup_timer := p,
           g_timers := g_timers g @ (case p of None \<Rightarrow> [] | Some a \<Rightarrow> [(a, GSMD_MODEM_WAKEUP_TIMEOUT)])\<rparr>)"

definition stop_timer :: "nat \<Rightarrow> ('cb, 'w) gsmd \<Rightarrow> ('cb, 'w) gsmd" where
  "stop_timer a g = g\<lparr>g_timers := filter (\<lambda>t. fst t \<noteq> a) (g_timers g)\<rparr>"

definition null_wakeup_cb :: "('cb, 'w) gsmd \<Rightarrow> int \<times> ('cb, 'w) gsmd" where
  "null_wakeup_cb g =
     (case wakeup_timer g of
        Some a \<Rightarrow> (0, (stop_timer a g)\<lparr>wakeup_timer := None\<rparr>)
      | None \<Rightarrow> (0, g))"

definition atcmd_wakeup_modem :: "('cb, 'w) gsmd \<Rightarrow> ('cb, 'w) gsmd option" where
  "atcmd_wakeup_modem g =
     (if wakeup_timer g = None then do {
        (c, g) \<leftarrow> atcmd_fill [CHR '' '', CR] 2 (Some Null_Wakeup_Cb) 0 g;
        let g = start_wakeup_timer g;
        let g = (if pending_atcmds g = [] then atcmd_wake_pending_queue g else g);
        cmd \<leftarrow> c;
        Some (g\<lparr>pending_atcmds := pending_atcmds g @ [cmd]\<rparr>)
      }
      else Some g)"

definition atcmd_submit :: "('cb, 'w) gsmd \<Rightarrow> 'cb gsmd_atcmd \<Rightarrow> (int \<times> ('cb, 'w) gsmd) option" where
  "atcmd_submit g cmd = do {
     g \<leftarrow> atcmd_wakeup_modem g;
     let empty = (pending_atcmds g = []);
     let g = g\<lparr>pending_atcmds := pending_atcmds g @ [cmd]\<rparr>;
     Some (0, if empty then atcmd_wake_pending_queue g else g)
   }"

text \<open>A NULL command is followed at once.\<close>

definition atcmd_submit_ptr ::
  "('cb, 'w) gsmd \<Rightarrow> 'cb gsmd_atcmd option \<Rightarrow> (int \<times> ('cb, 'w) gsmd) option" where
  "atcmd_submit_ptr g c = do { cmd \<leftarrow> c; atcmd_submit g cmd }"

text \<open>\<open>wakeup_timeout\<close>: the wake-up command was not answered in time.\<close>

definition wakeup_timeout :: "nat \<Rightarrow> ('cb, 'w) gsmd \<Rightarrow> ('cb, 'w) gsmd option" where
  "wakeup_timeout tmr g =
     (if wakeup_timer g \<noteq> Some tmr then Some g
      else
        let g = (stop_timer tmr g)\<lparr>wakeup_timer := None\<rparr>
        in case busy_atcmds g of
             [] \<Rightarrow> Some g
           | cmd # rest \<Rightarrow> do {
               c \<leftarrow> rd (at_buf cmd) 0;
               if c = CHR '' '' then
                 let g = g\<lparr>busy_atcmds := rest\<rparr>
                 in Some (if rest = [] \<and> pending_atcmds g \<noteq> [] then atcmd_wake_pending_queue g else g)
               else Some g
             })"

section \<open>Completion\<close>

definition run_cb ::
  "('cb, 'w) call_env \<Rightarrow> 'cb atcmd_cb \<Rightarrow> 'cb gsmd_atcmd \<Rightarrow> string \<Rightarrow> ('cb, 'w) gsmd \<Rightarrow>
     (int \<times> ('cb, 'w) gsmd) option" where
  "run_cb call cb cmd resp g =
     (case cb of Null_Wakeup_Cb \<Rightarrow> Some (null_wakeup_cb g) | Cb c \<Rightarrow> call c cmd resp g)"

text \<open>Writing back a command that is in the list of executing commands.\<close>

definition busy_update :: "'cb gsmd_atcmd \<Rightarrow> ('cb, 'w) gsmd \<Rightarrow> ('cb, 'w) gsmd" where
  "busy_update cmd g =
     g\<lparr>busy_atcmds := map (\<lambda>c. if at_ptr c = at_ptr cmd then cmd else c) (busy_atcmds g)\<rparr>"

definition busy_del :: "'cb gsmd_atcmd \<Rightarrow> ('cb, 'w) gsmd \<Rightarrow> ('cb, 'w) gsmd" where
  "busy_del cmd g = g\<lparr>busy_atcmds := filter (\<lambda>c. at_ptr c \<noteq> at_ptr cmd) (busy_atcmds g)\<rparr>"

definition final_response :: "string \<Rightarrow> ('cb, 'w) gsmd \<Rightarrow> (string \<times> ('cb, 'w) gsmd) option" where
  "final_response buf g =
     (if mlbuf_len g \<noteq> 0 then do {
        m \<leftarrow> wr (mlbuf g) (mlbuf_len g) NUL;
        Some (c_str m, g\<lparr>mlbuf := m\<rparr>)
      }
      else Some (buf, g))"

definition atcmd_done ::
  "('cb, 'w) call_env \<Rightarrow> ('cb, 'w) gsmd \<Rightarrow> 'cb gsmd_atcmd \<Rightarrow> string \<Rightarrow> (int \<times> ('cb, 'w) gsmd) option" where
  "atcmd_done call g cmd buf = do {
     (rc, g) \<leftarrow>
       (case at_cb cmd of
          None \<Rightarrow> Some (0, g)
        | Some cb \<Rightarrow> do {
            (resp, g) \<leftarrow> final_response buf g;
            (rc, g) \<leftarrow> run_cb call cb (cmd\<lparr>at_resp := Some resp\<rparr>) resp g;
            Some (rc, g\<lparr>mlbuf_len := 0\<rparr>)
          });
     let g = busy_del cmd g;
     Some (rc, if busy_atcmds g = [] \<and> pending_atcmds g \<noteq> [] then atcmd_wake_pending_queue g else g)
   }"

definition cancel_atcmd ::
  "('cb, 'w) call_env \<Rightarrow> ('cb, 'w) gsmd \<Rightarrow> 'cb gsmd_atcmd \<Rightarrow> (int \<times> ('cb, 'w) gsmd) option" where
  "cancel_atcmd call g cmd =
     (case busy_atcmds g of
        [] \<Rightarrow> atcmd_submit g cmd
      | cur # _ \<Rightarrow>
          let g = (if mlbuf_len g \<noteq> 0 then g\<lparr>mlbuf_len := 0\<rparr> else g);
              g = g\<lparr>pending_atcmds := cmd # pending_atcmds g\<rparr>
          in atcmd_done call g cur ''OK'')"

section \<open>Writing to the modem\<close>

text \<open>
  The write half of \<open>atcmd_select_cb\<close> handles the first pending command and then leaves its loop in
  every case. \<open>w\<close> is the result of the first \<open>write\<close>; the result also tells what was written:
  \<open>(rc, g, out)\<close> with the characters that reached the modem. The result of writing the carriage
  return is not tested by the code (\<open>cr_ok\<close> says whether it was written).
\<close>

definition select_write_cmd ::
  "int \<Rightarrow> bool \<Rightarrow> 'cb gsmd_atcmd \<Rightarrow> 'cb gsmd_atcmd list \<Rightarrow> ('cb, 'w) gsmd \<Rightarrow>
     (int \<times> ('cb, 'w) gsmd \<times> string) option" where
  "select_write_cmd w cr_ok pos rest g = do {
     s \<leftarrow> c_str_at (drop (at_cur pos) (at_buf pos));
     let cr = c_strchr s LF;
     let len = (case cr of Some n \<Rightarrow> n | None \<Rightarrow> at_buflen pos - 1);
     if w = 0 then Some (0, atcmd_wait_pending_queue g, [])
     else if w < 0 then Some (w, g, [])
     else do {
       data \<leftarrow> rdn (at_buf pos) (at_cur pos) (nat w);
       let rc = (if cr = None \<or> nat w = len then nat w + 1 else nat w);
       let pos = pos\<lparr>at_buflen := at_buflen pos - rc, at_cur := at_cur pos + rc\<rparr>;
       let out = data @ (if cr_ok then [CR] else []);
       if at_buflen pos = 0
       then Some (0, atcmd_wait_pending_queue
              (g\<lparr>pending_atcmds := rest, busy_atcmds := busy_atcmds g @ [pos]\<rparr>), out)
       else
         let g = g\<lparr>pending_atcmds := pos # rest\<rparr>
         in if rc < len then Some (0, g, out)
            else Some (0, atcmd_wait_pending_queue g, out)
     }
   }"

definition select_write :: "int \<Rightarrow> bool \<Rightarrow> ('cb, 'w) gsmd \<Rightarrow> (int \<times> ('cb, 'w) gsmd \<times> string) option" where
  "select_write w cr_ok g =
     (if interpreter_ready g
      then case pending_atcmds g of
             [] \<Rightarrow> Some (0, atcmd_wait_pending_queue g, [])
           | pos # rest \<Rightarrow> select_write_cmd w cr_ok pos rest g
      else Some (0, g, []))"

text \<open>\<open>atcmd_prompt\<close>: the modem asked for the next line of a command.\<close>

definition atcmd_prompt :: "('cb, 'w) gsmd \<Rightarrow> ('cb, 'w) gsmd" where
  "atcmd_prompt g = atcmd_wake_pending_queue g"

end
