(* ===== verification/At_Queue_Laws.thy ===== *)
theory At_Queue_Laws
  imports At_Queue
begin

text \<open>
  The command queue of \<^verbatim>\<open>gsm/src/gsmd/atcmd.c\<close> as a state machine: its invariant, the contract that the
  callbacks of commands have to keep, and what reaches the modem.
\<close>

section \<open>Invariant\<close>

text \<open>
  A command that still has something to send: \<open>buflen\<close> counts what is left from the cursor on, the
  terminating NUL included.
\<close>

definition wf_cmd :: "'cb gsmd_atcmd \<Rightarrow> bool" where
  "wf_cmd c \<longleftrightarrow> at_cur c + at_buflen c = length (at_buf c) \<and> 1 \<le> at_buflen c \<and> last (at_buf c) = NUL"

text \<open>
  \<open>queue_live\<close>: a command that was not begun does not wait while the modem is idle, unless the write
  event is requested. (A command whose first line was sent waits for the prompt.)
\<close>

definition queue_live :: "('cb, 'w) gsmd \<Rightarrow> bool" where
  "queue_live g \<longleftrightarrow>
     (pending_atcmds g \<noteq> [] \<and> busy_atcmds g = [] \<and> at_cur (hd (pending_atcmds g)) = 0 \<longrightarrow> uart_write g)"

definition queue_ok :: "('cb, 'w) gsmd \<Rightarrow> bool" where
  "queue_ok g \<longleftrightarrow> distinct (map at_ptr (pending_atcmds g @ busy_atcmds g)) \<and>
     (\<forall>c \<in> set (pending_atcmds g @ busy_atcmds g). at_ptr c < g_next g) \<and>
     (\<forall>c \<in> set (pending_atcmds g). wf_cmd c) \<and> queue_live g"

lemma queue_ok_simps [simp]:
  "queue_ok (g\<lparr>mlbuf_len := n\<rparr>) = queue_ok g" "queue_ok (g\<lparr>mlbuf := m\<rparr>) = queue_ok g"
  "queue_ok (g\<lparr>mlunsolicited := b\<rparr>) = queue_ok g" "queue_ok (g\<lparr>wakeup_timer := t\<rparr>) = queue_ok g"
  "queue_ok (g\<lparr>g_timers := ts\<rparr>) = queue_ok g" "queue_ok (g\<lparr>interpreter_ready := b\<rparr>) = queue_ok g"
  "queue_ok (g\<lparr>g_mem := ms\<rparr>) = queue_ok g" "queue_ok (g\<lparr>world := w\<rparr>) = queue_ok g"
  by (simp_all add: queue_ok_def queue_live_def)

lemma queue_ok_wake: "queue_ok g \<Longrightarrow> queue_ok (atcmd_wake_pending_queue g)"
  by (auto simp: queue_ok_def queue_live_def atcmd_wake_pending_queue_def)

lemma queue_ok_next: "queue_ok g \<Longrightarrow> g_next g \<le> n \<Longrightarrow> queue_ok (g\<lparr>g_next := n\<rparr>)"
  by (simp add: queue_ok_def queue_live_def) (meson less_le_trans)

lemma g_alloc_cases:
  obtains (ok) ms where "g_alloc g = (Some (g_next g), g\<lparr>g_next := g_next g + 1, g_mem := ms\<rparr>)"
    | (fail) ms where "g_alloc g = (None, g\<lparr>g_mem := ms\<rparr>)"
proof (cases "g_mem g")
  case Nil
  then have "g_alloc g = (Some (g_next g), g\<lparr>g_next := g_next g + 1, g_mem := []\<rparr>)"
    by (cases g) (simp add: g_alloc_def)
  then show thesis by (rule ok)
next
  case (Cons b bs)
  then show thesis by (cases b) (auto simp: g_alloc_def intro: ok fail)
qed

text \<open>A fresh command: not begun, with the next address.\<close>

definition fresh_cmd :: "'cb gsmd_atcmd \<Rightarrow> ('cb, 'w) gsmd \<Rightarrow> bool" where
  "fresh_cmd c g \<longleftrightarrow> wf_cmd c \<and> at_cur c = 0 \<and> at_ptr c < g_next g \<and>
     at_ptr c \<notin> at_ptr ` set (pending_atcmds g @ busy_atcmds g)"

lemma atcmd_fill_Some:
  assumes "atcmd_fill s rlen cb i g = Some (Some c, g')"
  obtains ms where "g' = g\<lparr>g_next := g_next g + 1, g_mem := ms\<rparr>" and "at_ptr c = g_next g"
    and "at_cur c = 0" "at_ret c = - 255" "at_cb c = cb" "at_id c = i"
    and "at_buflen c = max rlen (length s)" "0 < at_buflen c"
    and "at_buf c = take (at_buflen c - 1) s @ replicate (at_buflen c - 1 - length s) NUL @ [NUL]"
proof (cases g rule: g_alloc_cases)
  case (ok ms)
  let ?b = "max rlen (length s)"
  have "0 < ?b \<and> g' = g\<lparr>g_next := g_next g + 1, g_mem := ms\<rparr> \<and>
    c = \<lparr>at_ptr = g_next g, at_cb = cb, at_resp = None, at_ret = - 255, at_buflen = ?b, at_id = i, at_cur = 0,
      at_buf = take (?b - 1) s @ replicate (?b - 1 - length s) NUL @ [NUL]\<rparr>"
    using assms by (simp add: atcmd_fill_def Let_def ok max_def split: if_splits)
  then show thesis by (elim conjE) (rule that [of ms]; simp only: gsmd_atcmd.simps)
next
  case (fail ms)
  then show thesis using assms by (simp add: atcmd_fill_def Let_def split: if_splits)
qed

lemma atcmd_fill_fails: "atcmd_fill s rlen cb i g = Some (None, g') \<Longrightarrow> \<exists>ms. g' = g\<lparr>g_mem := ms\<rparr>"
  by (cases g rule: g_alloc_cases) (auto simp: atcmd_fill_def Let_def simp del: gsmd.simps split: if_splits)

lemma wake_pending [simp]:
  "atcmd_wake_pending_queue (g\<lparr>pending_atcmds := x\<rparr>) = (atcmd_wake_pending_queue g)\<lparr>pending_atcmds := x\<rparr>"
  "pending_atcmds (atcmd_wake_pending_queue g) = pending_atcmds g"
  "busy_atcmds (atcmd_wake_pending_queue g) = busy_atcmds g" "g_next (atcmd_wake_pending_queue g) = g_next g"
  "mlbuf (atcmd_wake_pending_queue g) = mlbuf g" "mlbuf_len (atcmd_wake_pending_queue g) = mlbuf_len g"
  "uart_write (atcmd_wake_pending_queue g)"
  by (simp_all add: atcmd_wake_pending_queue_def)

lemma atcmd_fill_ok:
  assumes "atcmd_fill s rlen cb i g = Some (Some c, g')" "queue_ok g"
  shows "queue_ok g'" "fresh_cmd c g'" "pending_atcmds g' = pending_atcmds g" "busy_atcmds g' = busy_atcmds g"
    "uart_write g' = uart_write g" "g_next g' = g_next g + 1" "wakeup_timer g' = wakeup_timer g"
proof -
  obtain ms where g': "g' = g\<lparr>g_next := g_next g + 1, g_mem := ms\<rparr>" and c: "at_ptr c = g_next g" "at_cur c = 0"
    "at_buflen c = max rlen (length s)" "0 < at_buflen c"
    "at_buf c = take (at_buflen c - 1) s @ replicate (at_buflen c - 1 - length s) NUL @ [NUL]"
    by (rule atcmd_fill_Some [OF assms(1)])
  show "queue_ok g'" using queue_ok_next [OF assms(2), of "g_next g + 1"] by (simp add: g')
  show "pending_atcmds g' = pending_atcmds g" "busy_atcmds g' = busy_atcmds g"
    "uart_write g' = uart_write g" "g_next g' = g_next g + 1" "wakeup_timer g' = wakeup_timer g"
    by (simp_all add: g')
  have "length (at_buf c) = at_buflen c"
    using c(4) unfolding c(5) by (cases "length s \<le> at_buflen c - 1") auto
  moreover have "last (at_buf c) = NUL" unfolding c(5) by simp
  moreover have "g_next g \<notin> at_ptr ` set (pending_atcmds g @ busy_atcmds g)"
    using assms(2) by (force simp: queue_ok_def)
  ultimately show "fresh_cmd c g'" using c by (auto simp: fresh_cmd_def wf_cmd_def g')
qed

text \<open>Appending a fresh command, with the write event requested if the queue was empty.\<close>

lemma queue_ok_append:
  assumes "queue_ok g" "fresh_cmd c g" "pending_atcmds g = [] \<longrightarrow> uart_write g"
  shows "queue_ok (g\<lparr>pending_atcmds := pending_atcmds g @ [c]\<rparr>)"
  using assms
  by (cases "pending_atcmds g") (auto simp: queue_ok_def queue_live_def fresh_cmd_def)

lemma queue_ok_append_wake:
  assumes "queue_ok g" "fresh_cmd c g"
  defines "g' \<equiv> g\<lparr>pending_atcmds := pending_atcmds g @ [c]\<rparr>"
  shows "queue_ok (if pending_atcmds g = [] then atcmd_wake_pending_queue g' else g')"
  using assms
  by (cases "pending_atcmds g") (auto simp: queue_ok_def queue_live_def fresh_cmd_def)

lemma fresh_later: "fresh_cmd c g \<Longrightarrow> pending_atcmds g' = pending_atcmds g \<Longrightarrow> busy_atcmds g' = busy_atcmds g \<Longrightarrow>
    g_next g \<le> g_next g' \<Longrightarrow> fresh_cmd c g'"
  by (auto simp: fresh_cmd_def)

text \<open>What every queue operation of a callback may do: append commands, request the write event.\<close>

definition queue_grows :: "('cb, 'w) gsmd \<Rightarrow> ('cb, 'w) gsmd \<Rightarrow> bool" where
  "queue_grows g g' \<longleftrightarrow> busy_atcmds g' = busy_atcmds g \<and> (\<exists>xs. pending_atcmds g' = pending_atcmds g @ xs) \<and>
     g_next g \<le> g_next g' \<and> mlbuf g' = mlbuf g \<and> mlbuf_len g' = mlbuf_len g \<and> (queue_ok g \<longrightarrow> queue_ok g')"

lemma queue_grows_refl [simp, intro]: "queue_grows g g"
  by (simp add: queue_grows_def)

lemma queue_grows_trans: "queue_grows a b \<Longrightarrow> queue_grows b c \<Longrightarrow> queue_grows a c"
  by (auto simp: queue_grows_def)

lemma queue_grows_simps [simp]:
  "queue_grows g (g\<lparr>g_mem := ms\<rparr>)" "queue_grows g (g\<lparr>world := w\<rparr>)"
  "queue_grows g (g\<lparr>interpreter_ready := b\<rparr>)" "queue_grows g (g\<lparr>wakeup_timer := t\<rparr>)"
  "queue_grows g (g\<lparr>wakeup_timer := t, g_timers := ts\<rparr>)" "queue_grows g (g\<lparr>g_timers := ts\<rparr>)"
  "queue_grows g (g\<lparr>g_timers := ts, wakeup_timer := t\<rparr>)"
  by (simp_all add: queue_grows_def)

lemma queue_grows_fill: "atcmd_fill s rlen cb i g = Some (c, g') \<Longrightarrow> queue_grows g g'"
proof (cases c)
  case None
  then show "atcmd_fill s rlen cb i g = Some (c, g') \<Longrightarrow> queue_grows g g'"
    using atcmd_fill_fails by fastforce
next
  case (Some d)
  assume "atcmd_fill s rlen cb i g = Some (c, g')"
  then show ?thesis unfolding Some
    by (rule atcmd_fill_Some) (auto simp: queue_grows_def queue_ok_next)
qed

lemma start_wakeup_timer_simps [simp]:
  "pending_atcmds (start_wakeup_timer g) = pending_atcmds g" "busy_atcmds (start_wakeup_timer g) = busy_atcmds g"
  "uart_write (start_wakeup_timer g) = uart_write g"
  "mlbuf (start_wakeup_timer g) = mlbuf g" "mlbuf_len (start_wakeup_timer g) = mlbuf_len g"
  by (cases g rule: g_alloc_cases; simp add: start_wakeup_timer_def)+

lemma start_wakeup_timer_next: "g_next g \<le> g_next (start_wakeup_timer g)"
  by (cases g rule: g_alloc_cases; simp add: start_wakeup_timer_def)

lemma queue_ok_timer: "queue_ok g \<Longrightarrow> queue_ok (start_wakeup_timer g)"
  using start_wakeup_timer_next [of g]
  by (simp add: queue_ok_def queue_live_def) (meson less_le_trans)

text \<open>Waking the modem up: nothing, or one more command, the write event being requested if it is the first.\<close>

lemma wakeup_cases:
  assumes "atcmd_wakeup_modem g = Some g'"
  obtains (awake) "g' = g" | (asleep) d g1 where "g' = (if pending_atcmds g = [] then atcmd_wake_pending_queue
       (g1\<lparr>pending_atcmds := pending_atcmds g1 @ [d]\<rparr>) else g1\<lparr>pending_atcmds := pending_atcmds g1 @ [d]\<rparr>)"
    and "pending_atcmds g1 = pending_atcmds g" "busy_atcmds g1 = busy_atcmds g" "g_next g < g_next g1"
    and "mlbuf g1 = mlbuf g" "mlbuf_len g1 = mlbuf_len g"
    and "at_ptr d = g_next g" "queue_ok g \<longrightarrow> queue_ok g1 \<and> fresh_cmd d g1"
proof (cases "wakeup_timer g")
  case None
  obtain d g0 where f: "atcmd_fill [CHR '' '', CR] 2 (Some Null_Wakeup_Cb) 0 g = Some (Some d, g0)"
    and g': "g' = (let g1 = start_wakeup_timer g0;
        g2 = (if pending_atcmds g1 = [] then atcmd_wake_pending_queue g1 else g1)
      in g2\<lparr>pending_atcmds := pending_atcmds g2 @ [d]\<rparr>)"
    using assms None by (auto simp: atcmd_wakeup_modem_def Let_def simp del: gsmd.simps split: bind_splits)
  obtain ms where g0: "g0 = g\<lparr>g_next := g_next g + 1, g_mem := ms\<rparr>" and d: "at_ptr d = g_next g"
    by (rule atcmd_fill_Some [OF f])
  have ok: "queue_ok (start_wakeup_timer g0) \<and> fresh_cmd d (start_wakeup_timer g0)" if "queue_ok g"
    by (intro conjI queue_ok_timer atcmd_fill_ok(1) [OF f that]
        fresh_later [OF atcmd_fill_ok(2) [OF f that]] start_wakeup_timer_next) simp_all
  show thesis
    using ok d start_wakeup_timer_next [of g0]
    by (intro asleep [of "start_wakeup_timer g0" d]) (simp_all add: g' Let_def g0)
qed (use assms awake in \<open>simp add: atcmd_wakeup_modem_def\<close>)

lemma queue_grows_wakeup:
  assumes "atcmd_wakeup_modem g = Some g'"
  shows "queue_grows g g'"
  using assms
proof (cases rule: wakeup_cases)
  case (asleep d g1)
  have "queue_ok g'" if "queue_ok g"
    using queue_ok_append_wake [of g1 d] asleep that by (simp split: if_splits)
  then show ?thesis using asleep by (auto simp: queue_grows_def)
qed simp

text \<open>Submitting a fresh command, the way most of the daemon's functions end.\<close>

lemma submit_ok:
  assumes "atcmd_submit g c = Some (rc, g')" "queue_ok g" "fresh_cmd c g"
  shows "queue_ok g' \<and> busy_atcmds g' = busy_atcmds g \<and> g_next g \<le> g_next g' \<and>
    mlbuf g' = mlbuf g \<and> mlbuf_len g' = mlbuf_len g \<and>
    (\<exists>xs. pending_atcmds g' = pending_atcmds g @ xs @ [c]) \<and> rc = 0"
proof -
  obtain g1 where w: "atcmd_wakeup_modem g = Some g1"
    and g': "g' = (if pending_atcmds g1 = [] then atcmd_wake_pending_queue (g1\<lparr>pending_atcmds := pending_atcmds g1 @ [c]\<rparr>)
      else g1\<lparr>pending_atcmds := pending_atcmds g1 @ [c]\<rparr>)" and rc: "rc = 0"
    using assms(1) by (auto simp: atcmd_submit_def Let_def simp del: gsmd.simps split: bind_splits)
  have q: "queue_grows g g1" by (rule queue_grows_wakeup [OF w])
  have "fresh_cmd c g1"
    using w
  proof (cases rule: wakeup_cases)
    case (asleep d g2)
    then show ?thesis using assms(3) q by (auto simp: fresh_cmd_def queue_grows_def split: if_splits)
  qed (use assms(3) in simp)
  moreover have "queue_ok g1" using q assms(2) by (simp add: queue_grows_def)
  ultimately have "queue_ok g'" using queue_ok_append_wake [of g1 c] by (simp add: g')
  then show ?thesis
    using q rc by (auto simp: g' queue_grows_def)
qed

lemma submit_grows:
  assumes "atcmd_submit g1 c = Some (rc, g')" "queue_grows g g1" "queue_ok g \<Longrightarrow> fresh_cmd c g1"
  shows "queue_grows g g'"
proof -
  obtain g2 where w: "atcmd_wakeup_modem g1 = Some g2"
    and g': "g' = (if pending_atcmds g2 = [] then atcmd_wake_pending_queue (g2\<lparr>pending_atcmds := pending_atcmds g2 @ [c]\<rparr>)
      else g2\<lparr>pending_atcmds := pending_atcmds g2 @ [c]\<rparr>)"
    using assms(1) by (auto simp: atcmd_submit_def Let_def simp del: gsmd.simps split: bind_splits)
  have "queue_grows g g2" by (rule queue_grows_trans [OF assms(2) queue_grows_wakeup [OF w]])
  moreover have "queue_ok g \<Longrightarrow> queue_ok g'"
    using submit_ok [OF assms(1)] assms(2,3) by (auto simp: queue_grows_def)
  ultimately show ?thesis by (auto simp: queue_grows_def g')
qed

lemma fill_submit_ok:
  assumes "atcmd_fill s rlen cb i g = Some (Some c, g1)" "atcmd_submit g1 c = Some (rc, g')"
  shows "queue_grows g g'"
  using submit_grows [OF assms(2) queue_grows_fill [OF assms(1)]] atcmd_fill_ok(2) [OF assms(1)] by blast

section \<open>Completion and cancellation\<close>

text \<open>
  The contract of the callbacks: they may submit commands, and they leave the executing commands and
  the response buffer alone.
\<close>

locale atcmd_callbacks =
  fixes call :: "('cb, 'w) call_env"
  assumes call_grows: "call c cmd resp g = Some (rc, g') \<Longrightarrow> queue_grows g g'"
begin

lemma run_cb_grows: "run_cb call cb cmd resp g = Some (rc, g') \<Longrightarrow> queue_grows g g'"
  using call_grows
  by (cases cb) (auto simp: run_cb_def null_wakeup_cb_def stop_timer_def split: option.splits)

end

lemma busy_del_head:
  assumes "queue_ok g" "busy_atcmds g = c # rest" "at_ptr cmd = at_ptr c"
  shows "busy_atcmds (busy_del cmd g) = rest" "pending_atcmds (busy_del cmd g) = pending_atcmds g"
    "g_next (busy_del cmd g) = g_next g" "uart_write (busy_del cmd g) = uart_write g"
    "mlbuf_len (busy_del cmd g) = mlbuf_len g"
proof -
  have "\<forall>x \<in> set rest. at_ptr x \<noteq> at_ptr c"
    using assms(1,2) by (auto simp: queue_ok_def rev_image_eqI)
  then show "busy_atcmds (busy_del cmd g) = rest" using assms(2,3) by (simp add: busy_del_def)
qed (simp_all add: busy_del_def)

text \<open>Taking out the first executing command keeps the invariant if the writer is then woken up.\<close>

lemma queue_ok_done:
  assumes "queue_ok g" "busy_atcmds g = c # rest" "at_ptr cmd = at_ptr c"
  defines "g' \<equiv> busy_del cmd g"
  shows "queue_ok (if busy_atcmds g' = [] \<and> pending_atcmds g' \<noteq> [] then atcmd_wake_pending_queue g' else g')"
  using assms(1,2) busy_del_head [OF assms(1-3)]
  by (auto simp: g'_def queue_ok_def queue_live_def)

context atcmd_callbacks
begin

lemma done_ok:
  assumes run: "atcmd_done call g cmd buf = Some (rc, g')"
    and ok: "queue_ok g" "busy_atcmds g = c # rest" "at_ptr cmd = at_ptr c"
  shows "queue_ok g' \<and> busy_atcmds g' = rest \<and> (\<exists>xs. pending_atcmds g' = pending_atcmds g @ xs) \<and>
    (at_cb cmd \<noteq> None \<longrightarrow> mlbuf_len g' = 0)"
proof -
  obtain g1 where g1: "queue_grows (g\<lparr>mlbuf := mlbuf g1, mlbuf_len := mlbuf_len g1\<rparr>) g1"
      "at_cb cmd \<noteq> None \<longrightarrow> mlbuf_len g1 = 0"
    and g': "g' = (let g2 = busy_del cmd g1
      in if busy_atcmds g2 = [] \<and> pending_atcmds g2 \<noteq> [] then atcmd_wake_pending_queue g2 else g2)"
  proof (cases "at_cb cmd")
    case None
    then show thesis
      using run by (intro that [of g]) (auto simp: atcmd_done_def Let_def simp del: gsmd.simps split: if_splits)
  next
    case (Some cb)
    then obtain resp g2 rc g3 where r: "final_response buf g = Some (resp, g2)"
        "run_cb call cb (cmd\<lparr>at_resp := Some resp\<rparr>) resp g2 = Some (rc, g3)"
      and g': "g' = (let g4 = busy_del cmd (g3\<lparr>mlbuf_len := 0\<rparr>)
      in if busy_atcmds g4 = [] \<and> pending_atcmds g4 \<noteq> [] then atcmd_wake_pending_queue g4 else g4)"
      using run by (auto simp: atcmd_done_def Let_def simp del: gsmd.simps split: bind_splits)
    have "g2 = g\<lparr>mlbuf := mlbuf g2\<rparr>"
      using r(1) by (auto simp: final_response_def split: if_splits bind_splits)
    then have "queue_grows (g\<lparr>mlbuf := mlbuf (g3\<lparr>mlbuf_len := 0\<rparr>), mlbuf_len := mlbuf_len (g3\<lparr>mlbuf_len := 0\<rparr>)\<rparr>) (g3\<lparr>mlbuf_len := 0\<rparr>)"
      using run_cb_grows [OF r(2)] ok(1)
      by (cases g2; cases g) (auto simp: queue_grows_def queue_ok_def queue_live_def)
    then show thesis using g' by (intro that [of "g3\<lparr>mlbuf_len := 0\<rparr>"]) simp_all
  qed
  have 1: "queue_ok g1" "busy_atcmds g1 = c # rest" "\<exists>xs. pending_atcmds g1 = pending_atcmds g @ xs"
    using g1(1) ok(1,2) by (auto simp: queue_grows_def)
  show ?thesis
    using queue_ok_done [OF 1(1,2) ok(3)] busy_del_head [OF 1(1,2) ok(3)] 1(3) g1(2) by (auto simp: g' Let_def)
qed

lemma cancel_ok:
  assumes run: "cancel_atcmd call g cmd = Some (rc, g')"
    and ok: "queue_ok g" "fresh_cmd cmd g"
  shows "queue_ok g'"
proof (cases "busy_atcmds g")
  case Nil
  then show ?thesis using run submit_ok [OF _ ok] by (auto simp: cancel_atcmd_def)
next
  case (Cons cur rest)
  let ?g = "(if mlbuf_len g \<noteq> 0 then g\<lparr>mlbuf_len := 0\<rparr> else g)\<lparr>pending_atcmds := cmd # pending_atcmds g\<rparr>"
  have "queue_ok ?g" "busy_atcmds ?g = cur # rest"
    using ok Cons by (auto simp: queue_ok_def queue_live_def fresh_cmd_def)
  moreover have "atcmd_done call ?g cur ''OK'' = Some (rc, g')"
    using run Cons by (simp add: cancel_atcmd_def Let_def split: if_splits)
  ultimately show ?thesis using done_ok by blast
qed

end

lemma stop_timer_simps [simp]:
  "busy_atcmds (stop_timer t g) = busy_atcmds g" "pending_atcmds (stop_timer t g) = pending_atcmds g"
  by (simp_all add: stop_timer_def)

lemma queue_ok_tail:
  assumes "queue_ok h" "busy_atcmds h = c # rest"
  shows "queue_ok (if rest = [] \<and> pending_atcmds h \<noteq> [] then atcmd_wake_pending_queue (h\<lparr>busy_atcmds := rest\<rparr>)
    else h\<lparr>busy_atcmds := rest\<rparr>)"
  using assms by (auto simp: queue_ok_def queue_live_def)

lemma timeout_ok:
  assumes "wakeup_timeout tmr g = Some g'" "queue_ok g"
  shows "queue_ok g'"
proof (cases "wakeup_timer g = Some tmr")
  case True
  define h where "h = (stop_timer tmr g)\<lparr>wakeup_timer := None\<rparr>"
  have h: "queue_ok h" "busy_atcmds h = busy_atcmds g" using assms(2) by (simp_all add: h_def stop_timer_def)
  show ?thesis
  proof (cases "busy_atcmds g")
    case Nil
    then have "g' = h" using assms(1) True by (simp add: wakeup_timeout_def h_def)
    then show ?thesis using h by simp
  next
    case (Cons c rest)
    have "g' = h \<or> g' = (if rest = [] \<and> pending_atcmds h \<noteq> [] then atcmd_wake_pending_queue (h\<lparr>busy_atcmds := rest\<rparr>)
        else h\<lparr>busy_atcmds := rest\<rparr>)"
      using assms(1) True Cons h(2) unfolding wakeup_timeout_def Let_def h_def [symmetric]
      by (auto split: bind_splits if_splits)
    then show ?thesis using queue_ok_tail [of h c rest] h Cons by auto
  qed
qed (use assms in \<open>simp add: wakeup_timeout_def\<close>)

section \<open>Writing\<close>

text \<open>
  \<open>select_write\<close> on a well-formed queue, for a \<open>write\<close> that took at most what it was given.
\<close>

definition write_len :: "'cb gsmd_atcmd \<Rightarrow> nat" where
  "write_len c = (case c_strchr (c_str (drop (at_cur c) (at_buf c))) LF of Some n \<Rightarrow> n | None \<Rightarrow> at_buflen c - 1)"

definition write_ok :: "int \<Rightarrow> ('cb, 'w) gsmd \<Rightarrow> bool" where
  "write_ok w g \<longleftrightarrow> w \<noteq> 0 \<and> (pending_atcmds g \<noteq> [] \<longrightarrow> w \<le> int (write_len (hd (pending_atcmds g))))"

lemma wf_cmd_nul:
  assumes "wf_cmd c"
  shows "NUL \<in> set (drop (at_cur c) (at_buf c))" "at_cur c < length (at_buf c)"
proof -
  show l: "at_cur c < length (at_buf c)" using assms by (simp add: wf_cmd_def)
  have "last (drop (at_cur c) (at_buf c)) = NUL" using l assms by (simp add: last_drop wf_cmd_def)
  then show "NUL \<in> set (drop (at_cur c) (at_buf c))"
    using l by (metis drop_eq_Nil last_in_set not_le)
qed

lemma c_str_length: "NUL \<in> set xs \<Longrightarrow> length (c_str xs) < length xs"
  unfolding c_str_def by (induction xs) auto

lemma write_len_le:
  assumes "wf_cmd c"
  shows "write_len c \<le> at_buflen c - 1"
proof (cases "c_strchr (c_str (drop (at_cur c) (at_buf c))) LF")
  case (Some n)
  then have "n < length (c_str (drop (at_cur c) (at_buf c)))" using c_strchr_Some by fastforce
  moreover have "length (c_str (drop (at_cur c) (at_buf c))) < length (drop (at_cur c) (at_buf c))"
    by (rule c_str_length [OF wf_cmd_nul(1) [OF assms]])
  ultimately have "n + 1 < length (at_buf c) - at_cur c + 1" by simp
  moreover have "length (at_buf c) - at_cur c = at_buflen c" using assms by (auto simp: wf_cmd_def)
  ultimately show ?thesis using Some by (simp add: write_len_def)
qed (simp add: write_len_def)

text \<open>The command after \<open>rc\<close> characters were taken off.\<close>

definition advance :: "nat \<Rightarrow> 'cb gsmd_atcmd \<Rightarrow> 'cb gsmd_atcmd" where
  "advance rc c = c\<lparr>at_buflen := at_buflen c - rc, at_cur := at_cur c + rc\<rparr>"

definition write_rc :: "nat \<Rightarrow> 'cb gsmd_atcmd \<Rightarrow> nat" where
  "write_rc w c = (if c_strchr (c_str (drop (at_cur c) (at_buf c))) LF = None \<or> w = write_len c then w + 1 else w)"

lemma select_write_eq:
  assumes "interpreter_ready g" "pending_atcmds g = pos # rest" "wf_cmd pos" "0 < w" "w \<le> write_len pos"
  defines "rc \<equiv> write_rc w pos"
  shows "select_write (int w) cr_ok g =
    Some (0,
      (if at_buflen pos = rc then atcmd_wait_pending_queue
             (g\<lparr>pending_atcmds := rest, busy_atcmds := busy_atcmds g @ [advance rc pos]\<rparr>)
       else if rc < write_len pos then g\<lparr>pending_atcmds := advance rc pos # rest\<rparr>
       else atcmd_wait_pending_queue (g\<lparr>pending_atcmds := advance rc pos # rest\<rparr>)),
      take w (drop (at_cur pos) (at_buf pos)) @ (if cr_ok then [CR] else []))"
    and "1 \<le> rc" "rc \<le> at_buflen pos"
proof -
  have le: "w \<le> at_buflen pos - 1" "1 \<le> at_buflen pos" using write_len_le assms(3,5) by (auto simp: wf_cmd_def intro: order_trans)
  then show rc: "1 \<le> rc" "rc \<le> at_buflen pos" using assms(4) by (auto simp: rc_def write_rc_def)
  have d: "rdn (at_buf pos) (at_cur pos) w = Some (take w (drop (at_cur pos) (at_buf pos)))"
    using le assms(3) by (auto simp: rdn_def wf_cmd_def)
  have s: "c_str_at (drop (at_cur pos) (at_buf pos)) = Some (c_str (drop (at_cur pos) (at_buf pos)))"
    using wf_cmd_nul(1) [OF assms(3)] by (simp add: c_str_at_def)
  show "select_write (int w) cr_ok g =
    Some (0,
      (if at_buflen pos = rc then atcmd_wait_pending_queue
             (g\<lparr>pending_atcmds := rest, busy_atcmds := busy_atcmds g @ [advance rc pos]\<rparr>)
       else if rc < write_len pos then g\<lparr>pending_atcmds := advance rc pos # rest\<rparr>
       else atcmd_wait_pending_queue (g\<lparr>pending_atcmds := advance rc pos # rest\<rparr>)),
      take w (drop (at_cur pos) (at_buf pos)) @ (if cr_ok then [CR] else []))"
  proof -
    let ?out = "take w (drop (at_cur pos) (at_buf pos)) @ (if cr_ok then [CR] else [])"
    have "select_write_cmd (int w) cr_ok pos rest g =
      (let p = advance (write_rc w pos) pos
       in if at_buflen p = 0 then Some (0, atcmd_wait_pending_queue
             (g\<lparr>pending_atcmds := rest, busy_atcmds := busy_atcmds g @ [p]\<rparr>), ?out)
          else if write_rc w pos < write_len pos then Some (0, g\<lparr>pending_atcmds := p # rest\<rparr>, ?out)
          else Some (0, atcmd_wait_pending_queue (g\<lparr>pending_atcmds := p # rest\<rparr>), ?out))"
      using assms(4)
      by (simp only: select_write_cmd_def s d Let_def write_len_def write_rc_def advance_def bind.bind_lunit nat_int) simp
    then show ?thesis
      using assms(1,2) rc by (simp add: select_write_def rc_def Let_def advance_def)
  qed
qed

lemma queue_ok_begun:
  assumes "queue_ok g" "pending_atcmds g = pos # rest" "at_ptr pos' = at_ptr pos" "wf_cmd pos'" "0 < at_cur pos'"
  shows "queue_ok (g\<lparr>pending_atcmds := pos' # rest\<rparr>)"
    "queue_ok (atcmd_wait_pending_queue (g\<lparr>pending_atcmds := pos' # rest\<rparr>))"
  using assms by (simp_all add: queue_ok_def queue_live_def atcmd_wait_pending_queue_def)

lemma queue_ok_sent:
  assumes "queue_ok g" "pending_atcmds g = pos # rest" "at_ptr pos' = at_ptr pos"
  shows "queue_ok (atcmd_wait_pending_queue (g\<lparr>pending_atcmds := rest, busy_atcmds := busy_atcmds g @ [pos']\<rparr>))"
  using assms by (auto simp: queue_ok_def queue_live_def atcmd_wait_pending_queue_def)

lemma select_write_ok:
  assumes run: "select_write w cr_ok g = Some (rc, g', out)" and ok: "queue_ok g" and w: "write_ok w g"
  shows "queue_ok g'"
proof (cases "interpreter_ready g \<and> pending_atcmds g \<noteq> [] \<and> 0 < w")
  case True
  obtain pos rest where p: "pending_atcmds g = pos # rest" using True by (cases "pending_atcmds g") auto
  have wf: "wf_cmd pos" using ok p by (simp add: queue_ok_def)
  have w': "0 < nat w" "nat w \<le> write_len pos" using w True p by (auto simp: write_ok_def)
  let ?n = "write_rc (nat w) pos"
  note eq = select_write_eq [OF conjunct1 [OF True] p wf w']
  have g': "g' = (if at_buflen pos = ?n then atcmd_wait_pending_queue
             (g\<lparr>pending_atcmds := rest, busy_atcmds := busy_atcmds g @ [advance ?n pos]\<rparr>)
       else if ?n < write_len pos then g\<lparr>pending_atcmds := advance ?n pos # rest\<rparr>
       else atcmd_wait_pending_queue (g\<lparr>pending_atcmds := advance ?n pos # rest\<rparr>))"
    using run eq(1) [of cr_ok] True by simp
  have a: "at_ptr (advance ?n pos) = at_ptr pos" by (simp add: advance_def)
  have "wf_cmd (advance ?n pos)" "0 < at_cur (advance ?n pos)" if "at_buflen pos \<noteq> ?n"
    using that wf eq(2,3) by (auto simp: wf_cmd_def advance_def)
  then show ?thesis
    unfolding g' using queue_ok_begun [OF ok p a] queue_ok_sent [OF ok p a] by (simp split: if_split)
next
  case False
  then consider "\<not> interpreter_ready g" | "interpreter_ready g" "pending_atcmds g = []" | "w < 0"
    using w by (force simp: write_ok_def)
  then show ?thesis
  proof cases
    case 3
    then have "g' = g \<or> g' = atcmd_wait_pending_queue g \<and> pending_atcmds g = []"
      using run by (auto simp: select_write_def select_write_cmd_def Let_def simp del: gsmd.simps
          split: if_splits list.splits bind_splits)
    then show ?thesis using ok by (auto simp: queue_ok_def queue_live_def atcmd_wait_pending_queue_def)
  qed (use run ok in \<open>auto simp: select_write_def queue_ok_def queue_live_def atcmd_wait_pending_queue_def\<close>)
qed

lemma prompt_ok: "queue_ok g \<Longrightarrow> queue_ok (atcmd_prompt g)"
  by (simp add: atcmd_prompt_def queue_ok_wake)

section \<open>What reaches the modem\<close>

text \<open>A command whose array is exactly filled, the first \<open>k\<close> characters being sent.\<close>

definition filled :: "string \<Rightarrow> nat \<Rightarrow> 'cb gsmd_atcmd \<Rightarrow> bool" where
  "filled s k c \<longleftrightarrow> at_buf c = s @ [NUL] \<and> at_cur c = k \<and> k \<le> length s \<and> at_buflen c = length s + 1 - k \<and> NUL \<notin> set s"

lemma filled_fill:
  assumes "atcmd_fill s (length s + 1) cb i g = Some (Some c, g')" "NUL \<notin> set s"
  shows "filled s 0 c"
  by (rule atcmd_fill_Some [OF assms(1)]) (use assms(2) in \<open>simp add: filled_def max_def\<close>)

lemma filled_wf: "filled s k c \<Longrightarrow> wf_cmd c"
  by (auto simp: filled_def wf_cmd_def)

lemma filled_str:
  assumes "filled s k c"
  shows "c_str (drop (at_cur c) (at_buf c)) = drop k s"
proof -
  have "NUL \<notin> set (drop k s)" using assms by (auto simp: filled_def dest: in_set_dropD)
  then show ?thesis using assms by (simp add: filled_def)
qed

lemma filled_advance: "filled s k c \<Longrightarrow> k + n \<le> length s \<Longrightarrow> filled s (k + n) (advance n c)"
  by (auto simp: filled_def advance_def)

lemma advance_ptr [simp]: "at_ptr (advance n c) = at_ptr c" "at_buf (advance n c) = at_buf c"
  "at_cb (advance n c) = at_cb c" "at_ret (advance n c) = at_ret c"
  by (simp_all add: advance_def)

lemma select_write_rest:
  assumes "interpreter_ready g" "pending_atcmds g = c # rest" "filled s k c" "LF \<notin> set (drop k s)" "k < length s"
  shows "select_write (int (length s - k)) True g =
    Some (0, atcmd_wait_pending_queue (g\<lparr>pending_atcmds := rest,
        busy_atcmds := busy_atcmds g @ [advance (length s - k + 1) c]\<rparr>), drop k s @ [CR])"
proof -
  have st: "c_strchr (c_str (drop (at_cur c) (at_buf c))) LF = None"
    using assms(4) by (simp add: filled_str [OF assms(3)] c_strchr_None)
  have wl: "write_len c = length s - k" using st assms(3) by (simp add: write_len_def filled_def)
  have "write_rc (length s - k) c = length s - k + 1" using st by (simp add: write_rc_def)
  moreover have "take (length s - k) (drop (at_cur c) (at_buf c)) = drop k s" using assms(3) by (simp add: filled_def)
  moreover have "at_buflen c = length s - k + 1" using assms(3,5) by (auto simp: filled_def)
  ultimately show ?thesis
    using select_write_eq(1) [OF assms(1,2) filled_wf [OF assms(3)], of "length s - k" True] assms(5) wl by simp
qed

text \<open>A one-line command that is written in one go reaches the modem as its text and a carriage
  return, and moves from the head of the waiting to the end of the executing commands; the next one is
  not written before the modem answers.
\<close>

theorem single_line_sent:
  assumes "atcmd_fill s (length s + 1) cb i g0 = Some (Some c, g1)" "NUL \<notin> set s" "LF \<notin> set s" "s \<noteq> []"
    and "interpreter_ready g" "pending_atcmds g = c # rest"
  shows "\<exists>g' c'. select_write (int (length s)) True g = Some (0, g', s @ [CR]) \<and>
     pending_atcmds g' = rest \<and> busy_atcmds g' = busy_atcmds g @ [c'] \<and> \<not> uart_write g' \<and>
     at_ptr c' = at_ptr c \<and> at_buf c' = s @ [NUL] \<and> at_cb c' = cb \<and> at_ret c' = - 255"
proof -
  have f: "filled s 0 c" by (rule filled_fill [OF assms(1,2)])
  have "at_cb c = cb" "at_ret c = - 255" by (rule atcmd_fill_Some [OF assms(1)]; assumption)+
  then show ?thesis
    using select_write_rest [OF assms(5,6) f] assms(3,4) f
    by (simp add: atcmd_wait_pending_queue_def filled_def)
qed

definition ex_gsmd :: "(nat, unit) gsmd" where
  "ex_gsmd = \<lparr>g_flags = 0, interpreter_ready = True, uart_write = False, pending_atcmds = [], busy_atcmds = [],
     ext_chars = ''%'', mlbuf = replicate 64 NUL, mlbuf_len = 0, mlunsolicited = False, wakeup_timer = Some 0,
     g_timers = [], g_mem = [], g_next = 1, world = ()\<rparr>"

definition ex_cmd :: "nat \<Rightarrow> string \<Rightarrow> nat gsmd_atcmd" where
  "ex_cmd a s = \<lparr>at_ptr = a, at_cb = Some (Cb 7), at_resp = None, at_ret = - 255, at_buflen = length s + 1, at_id = 0,
     at_cur = 0, at_buf = s @ [NUL]\<rparr>"

lemma ex_fill: "s \<noteq> [] \<Longrightarrow> atcmd_fill s (length s + 1) (Some (Cb 7)) 0 ex_gsmd =
    Some (Some (ex_cmd 1 s), ex_gsmd\<lparr>g_next := 2\<rparr>)"
  by (simp add: atcmd_fill_def g_alloc_def ex_gsmd_def ex_cmd_def)

theorem single_line_sent_witness:
  "\<exists>g'. select_write 6 True (ex_gsmd\<lparr>pending_atcmds := [ex_cmd 1 ''AT+CSQ'']\<rparr>) = Some (0, g', ''AT+CSQ'' @ [CR]) \<and>
     pending_atcmds g' = []"
  using single_line_sent [OF ex_fill, of "''AT+CSQ''" "ex_gsmd\<lparr>pending_atcmds := [ex_cmd 1 ''AT+CSQ'']\<rparr>" "[]"]
  by (auto simp: ex_gsmd_def)

text \<open>C16: A command of two lines (an SMS) is sent in two steps: the first line and a carriage return, then
  the command keeps its place at the head of the queue and nothing is written until the modem prompts;
  the prompt requests the write event, and the second line follows, after which the command executes.
\<close>

theorem two_lines_sent:
  assumes "atcmd_fill s (length s + 1) cb i g0 = Some (Some c, g1)" and s: "s = l1 @ LF # l2"
    and l: "NUL \<notin> set l1" "NUL \<notin> set l2" "LF \<notin> set l1" "LF \<notin> set l2" "l1 \<noteq> []" "l2 \<noteq> []"
    and g: "interpreter_ready g" "pending_atcmds g = c # rest"
  shows "\<exists>g' g'' c'. select_write (int (length l1)) True g = Some (0, g', l1 @ [CR]) \<and>
     \<not> uart_write g' \<and> busy_atcmds g' = busy_atcmds g \<and> uart_write (atcmd_prompt g') \<and>
     select_write (int (length l2)) True (atcmd_prompt g') = Some (0, g'', l2 @ [CR]) \<and>
     pending_atcmds g'' = rest \<and> busy_atcmds g'' = busy_atcmds g @ [c'] \<and> at_ptr c' = at_ptr c"
proof -
  have nul: "NUL \<notin> set s" using l s by simp
  have f: "filled s 0 c" by (rule filled_fill [OF assms(1) nul])
  have st: "c_strchr (c_str (drop (at_cur c) (at_buf c))) LF = Some (length l1)"
    using l(3) by (simp add: filled_str [OF f] s c_strchr_app)
  have wl: "write_len c = length l1" using st by (simp add: write_len_def)
  have rc: "write_rc (length l1) c = length l1 + 1" using wl by (simp add: write_rc_def)
  have tk: "take (length l1) (drop (at_cur c) (at_buf c)) = l1" using f by (simp add: filled_def s)
  have bl: "at_buflen c \<noteq> length l1 + 1" using f l(6) by (simp add: filled_def s)
  let ?g1 = "atcmd_wait_pending_queue (g\<lparr>pending_atcmds := advance (length l1 + 1) c # rest\<rparr>)"
  have 1: "select_write (int (length l1)) True g = Some (0, ?g1, l1 @ [CR])"
    using select_write_eq(1) [OF g filled_wf [OF f], of "length l1" True] l(5) wl rc tk bl by simp
  have f2: "filled s (length l1 + 1) (advance (length l1 + 1) c)"
    using filled_advance [OF f, of "length l1 + 1"] by (simp add: s)
  have p: "pending_atcmds (atcmd_prompt ?g1) = advance (length l1 + 1) c # rest" "interpreter_ready (atcmd_prompt ?g1)"
    using g by (simp_all add: atcmd_prompt_def atcmd_wait_pending_queue_def atcmd_wake_pending_queue_def)
  have "select_write (int (length l2)) True (atcmd_prompt ?g1) = Some (0, atcmd_wait_pending_queue ((atcmd_prompt ?g1)\<lparr>pending_atcmds := rest,
        busy_atcmds := busy_atcmds (atcmd_prompt ?g1) @ [advance (length l2 + 1) (advance (length l1 + 1) c)]\<rparr>), l2 @ [CR])"
    using select_write_rest [OF p(2,1) f2] l(4,6) by (simp add: s)
  then show ?thesis
    using 1 by (auto simp: atcmd_prompt_def atcmd_wait_pending_queue_def atcmd_wake_pending_queue_def)
qed

theorem two_lines_sent_witness:
  "\<exists>g' g''. select_write 9 True (ex_gsmd\<lparr>pending_atcmds := [ex_cmd 1 (''AT+CMGS=7'' @ LF # ''0011'')]\<rparr>) = Some (0, g', ''AT+CMGS=7'' @ [CR]) \<and>
     select_write 4 True (atcmd_prompt g') = Some (0, g'', ''0011'' @ [CR]) \<and> pending_atcmds g'' = []"
  using two_lines_sent [OF ex_fill, of "''AT+CMGS=7'' @ LF # ''0011''" "''AT+CMGS=7''" "''0011''"
      "ex_gsmd\<lparr>pending_atcmds := [ex_cmd 1 (''AT+CMGS=7'' @ LF # ''0011'')]\<rparr>" "[]"]
  by (auto simp: ex_gsmd_def)

text \<open>A short write corrupts a one-line command: the cursor skips one character more than was
  written, and a carriage return is inserted, so that the modem gets \<open>take w s\<close>, a return, and
  \<open>drop (w + 1) s\<close>; the character at \<open>w\<close> is never sent.
\<close>

theorem short_write_drops:
  assumes "atcmd_fill s (length s + 1) cb i g0 = Some (Some c, g1)" "NUL \<notin> set s" "LF \<notin> set s"
    and w: "0 < w" "w + 1 < length s" and g: "interpreter_ready g" "pending_atcmds g = c # rest"
  shows "\<exists>g' g''. select_write (int w) True g = Some (0, g', take w s @ [CR]) \<and>
     select_write (int (length s - w - 1)) True g' = Some (0, g'', drop (w + 1) s @ [CR]) \<and>
     pending_atcmds g'' = rest"
proof -
  have f: "filled s 0 c" by (rule filled_fill [OF assms(1,2)])
  have st: "c_strchr (c_str (drop (at_cur c) (at_buf c))) LF = None"
    using assms(3) by (simp add: filled_str [OF f] c_strchr_None)
  have wl: "write_len c = length s" using st f by (simp add: write_len_def filled_def)
  have rc: "write_rc w c = w + 1" using st by (simp add: write_rc_def)
  have tk: "take w (drop (at_cur c) (at_buf c)) = take w s" using f w by (simp add: filled_def)
  let ?g1 = "g\<lparr>pending_atcmds := advance (w + 1) c # rest\<rparr>"
  have bl: "at_buflen c \<noteq> w + 1" using f w(2) by (simp add: filled_def)
  have 1: "select_write (int w) True g = Some (0, ?g1, take w s @ [CR])"
    using select_write_eq(1) [OF g filled_wf [OF f] w(1), of True] w wl rc tk bl by simp
  have f2: "filled s (w + 1) (advance (w + 1) c)"
    using filled_advance [OF f, of "w + 1"] w(2) by simp
  have "LF \<notin> set (drop (w + 1) s)" using assms(3) by (auto dest: in_set_dropD)
  then show ?thesis
    using 1 select_write_rest [OF _ _ f2, of ?g1 rest] g w(2)
    by (simp add: atcmd_wait_pending_queue_def)
qed

theorem short_write_drops_witness:
  "\<exists>g' g''. select_write 2 True (ex_gsmd\<lparr>pending_atcmds := [ex_cmd 1 ''AT+CSQ'']\<rparr>) = Some (0, g', ''AT'' @ [CR]) \<and>
     select_write 3 True g' = Some (0, g'', ''CSQ'' @ [CR])"
  using short_write_drops [OF ex_fill, of "''AT+CSQ''" 2 "ex_gsmd\<lparr>pending_atcmds := [ex_cmd 1 ''AT+CSQ'']\<rparr>" "[]"]
  by (auto simp: ex_gsmd_def)

end
