(* ===== verification/Ml_Parse.thy ===== *)
theory Ml_Parse
  imports At_Queue_Laws
begin

text \<open>
  The mid-level parser \<open>ml_parse\<close> of \<^verbatim>\<open>gsm/src/gsmd/atcmd.c\<close>: what the daemon does with one line of the
  modem. The functions of other files that it calls are the fields of an environment: the callback of a
  command, \<open>unsolicited_parse\<close> and the two event generators (unsolicited.c), and the two start-up
  functions of gsmd.c. A line arrives as the buffer of the low-level parser and its length.
\<close>

record ('cb, 'w) at_env =
  env_call :: "('cb, 'w) call_env"
  env_unsol :: "string \<Rightarrow> nat \<Rightarrow> ('cb, 'w) gsmd \<Rightarrow> (int \<times> ('cb, 'w) gsmd) option"
  env_cme :: "int \<Rightarrow> ('cb, 'w) gsmd \<Rightarrow> (int \<times> ('cb, 'w) gsmd) option"
  env_cms :: "int \<Rightarrow> ('cb, 'w) gsmd \<Rightarrow> (int \<times> ('cb, 'w) gsmd) option"
  env_init :: "('cb, 'w) gsmd \<Rightarrow> (int \<times> ('cb, 'w) gsmd) option"
  env_alive :: "('cb, 'w) gsmd \<Rightarrow> (int \<times> ('cb, 'w) gsmd) option"

text \<open>An \<open>unsigned long\<close> stored into the \<open>int32_t\<close> field \<open>ret\<close>.\<close>

definition to_int32 :: "int \<Rightarrow> int" where
  "to_int32 n = (n + 2147483648) mod 4294967296 - 2147483648"

text \<open>\<open>parse_final_result\<close>: only the first two of the four strings are compared.\<close>

definition parse_final_result :: "string \<Rightarrow> int" where
  "parse_final_result res = (if res = ''OK'' then 0 else if res = ''ERROR'' then 1 else - 1)"

definition set_ret :: "int \<Rightarrow> 'cb gsmd_atcmd option \<Rightarrow> ('cb, 'w) gsmd \<Rightarrow> 'cb gsmd_atcmd option \<times> ('cb, 'w) gsmd" where
  "set_ret r cmd g =
     (case cmd of
        None \<Rightarrow> (None, g)
      | Some c \<Rightarrow> let c = c\<lparr>at_ret := r\<rparr> in (Some c, busy_update c g))"

text \<open>The label \<open>final_cb\<close>.\<close>

definition ml_final ::
  "('cb, 'w) at_env \<Rightarrow> bool \<Rightarrow> bool \<Rightarrow> string \<Rightarrow> 'cb gsmd_atcmd option \<Rightarrow> ('cb, 'w) gsmd \<Rightarrow>
     (int \<times> ('cb, 'w) gsmd) option" where
  "ml_final env cme_error cms_error buf cmd g =
     (case cmd of
        None \<Rightarrow> Some (0, g)
      | Some c \<Rightarrow> do {
          (_, g) \<leftarrow> (if cme_error then env_cme env (at_ret c) g else Some (0, g));
          (_, g) \<leftarrow> (if cms_error then env_cms env (at_ret c) g else Some (0, g));
          atcmd_done (env_call env) g c buf
        })"

definition set_ret_final ::
  "('cb, 'w) at_env \<Rightarrow> int \<Rightarrow> bool \<Rightarrow> bool \<Rightarrow> string \<Rightarrow> 'cb gsmd_atcmd option \<Rightarrow> ('cb, 'w) gsmd \<Rightarrow>
     (int \<times> ('cb, 'w) gsmd) option" where
  "set_ret_final env r cme_error cms_error buf cmd g =
     (let (cmd, g) = set_ret r cmd g in ml_final env cme_error cms_error buf cmd g)"

text \<open>The end of the function: the line is appended to the multi-line buffer.\<close>

definition ml_append ::
  "('cb, 'w) at_env \<Rightarrow> string \<Rightarrow> nat \<Rightarrow> int \<Rightarrow> ('cb, 'w) gsmd \<Rightarrow> (int \<times> ('cb, 'w) gsmd) option" where
  "ml_append env arr len rc g = do {
     g \<leftarrow> (if mlbuf_len g \<noteq> 0 then do {
             m \<leftarrow> wr (mlbuf g) (mlbuf_len g) LF;
             Some (g\<lparr>mlbuf := m, mlbuf_len := mlbuf_len g + 1\<rparr>)
           }
           else Some g);
     let len = (if len > MLPARSE_BUF_SIZE - mlbuf_len g then MLPARSE_BUF_SIZE - mlbuf_len g else len);
     line \<leftarrow> rdn arr 0 len;
     m \<leftarrow> wrn (mlbuf g) (mlbuf_len g) line;
     let g = g\<lparr>mlbuf := m, mlbuf_len := mlbuf_len g + len\<rparr>;
     if mlunsolicited g then do {
       s \<leftarrow> c_str_at (mlbuf g);
       (rc, g) \<leftarrow> env_unsol env s (mlbuf_len g) g;
       if rc = - EAGAIN then Some (0, g)
       else Some (rc, g\<lparr>mlunsolicited := False, mlbuf_len := 0\<rparr>)
     }
     else Some (rc, g)
   }"

text \<open>
  A valid extended response to an extended command: a previous response is handed to the callback
  (without a terminating NUL, so that the callback sees what the buffer holds up to the next NUL).
\<close>

definition ml_flush ::
  "('cb, 'w) at_env \<Rightarrow> 'cb gsmd_atcmd \<Rightarrow> int \<Rightarrow> ('cb, 'w) gsmd \<Rightarrow> (int \<times> ('cb, 'w) gsmd) option" where
  "ml_flush env c rc g =
     (if mlbuf_len g \<noteq> 0 then do {
        (rc, g) \<leftarrow>
          (case at_cb c of
             None \<Rightarrow> Some (rc, g)
           | Some cb \<Rightarrow> do {
               resp \<leftarrow> c_str_at (mlbuf g);
               run_cb (env_call env) cb (c\<lparr>at_resp := Some resp\<rparr>) resp g
             });
        Some (rc, g\<lparr>mlbuf_len := 0\<rparr>)
      }
      else Some (rc, g))"

definition is_ext_char :: "('cb, 'w) gsmd \<Rightarrow> char \<Rightarrow> bool" where
  "is_ext_char g c \<longleftrightarrow> c_strchr (ext_chars g) c \<noteq> None"

definition ml_extended ::
  "('cb, 'w) at_env \<Rightarrow> string \<Rightarrow> string \<Rightarrow> nat \<Rightarrow> nat \<Rightarrow> 'cb gsmd_atcmd option \<Rightarrow> ('cb, 'w) gsmd \<Rightarrow>
     (int \<times> ('cb, 'w) gsmd) option" where
  "ml_extended env buf arr len colon cmd g =
     (if c_strneq (tl buf) ''CME ERROR'' 9
      then set_ret_final env (to_int32 (c_strtoul (drop (colon + 1) buf))) True False buf cmd g
      else if c_strneq (tl buf) ''CMS ERROR'' 9
      then set_ret_final env (to_int32 (c_strtoul (drop (colon + 1) buf))) False True buf cmd g
      else do {
        other \<leftarrow>
          (case cmd of
             None \<Rightarrow> Some True
           | Some c \<Rightarrow> do {
               t \<leftarrow> c_str_at (drop 2 (at_buf c));
               Some (\<not> c_strneq buf t colon)
             });
        (rc, g) \<leftarrow> (if other then env_unsol env buf len g else Some (0, g));
        if other \<and> rc = - EAGAIN then do {
          line \<leftarrow> rdn arr 0 len;
          m \<leftarrow> wrn (mlbuf g) 0 line;
          Some (0, g\<lparr>mlbuf_len := len, mlbuf := m, mlunsolicited := True\<rparr>)
        }
        else if other \<and> rc \<noteq> - ENOENT then Some (rc, g)
        else case cmd of
               None \<Rightarrow> ml_append env arr len rc g
             | Some c \<Rightarrow> do {
                 x \<leftarrow> rd (at_buf c) 2;
                 if x \<noteq> CHR ''+'' \<and> \<not> is_ext_char g x then Some (- EINVAL, g)
                 else do {
                   (rc, g) \<leftarrow> ml_flush env c rc g;
                   ml_append env arr len rc g
                 }
               }
      })"

definition v0_is :: "('cb, 'w) gsmd \<Rightarrow> string \<Rightarrow> char \<Rightarrow> bool" where
  "v0_is g buf c \<longleftrightarrow> g_flags g AND GSMD_FLAG_V0 \<noteq> 0 \<and> hd buf = c"

definition ml_basic ::
  "('cb, 'w) at_env \<Rightarrow> string \<Rightarrow> string \<Rightarrow> nat \<Rightarrow> 'cb gsmd_atcmd option \<Rightarrow> ('cb, 'w) gsmd \<Rightarrow>
     (int \<times> ('cb, 'w) gsmd) option" where
  "ml_basic env buf arr len cmd g =
     (if buf = ''RING'' \<or> v0_is g buf (CHR ''2'') then env_unsol env buf len g
      else if buf = ''ERROR'' \<or> v0_is g buf (CHR ''4'') then set_ret_final env 4 False False buf cmd g
      else if c_strneq buf ''OK'' 2 \<or> v0_is g buf (CHR ''0'') then set_ret_final env 0 False False buf cmd g
      else if c_strneq buf ''NO CARRIER'' 11 \<or> v0_is g buf (CHR ''3'') then ml_final env False False buf cmd g
      else if c_strneq buf ''BUSY'' 4 \<or> v0_is g buf (CHR ''7'') then ml_final env False False buf cmd g
      else ml_append env arr len 0 g)"

definition ml_parse :: "('cb, 'w) at_env \<Rightarrow> string \<Rightarrow> nat \<Rightarrow> ('cb, 'w) gsmd \<Rightarrow> (int \<times> ('cb, 'w) gsmd) option" where
  "ml_parse env arr len g = do {
     buf \<leftarrow> c_str_at arr;
     if buf = [] \<or> buf = ''AT-Command Interpreter ready'' then do {
       (_, g) \<leftarrow> env_init env (g\<lparr>interpreter_ready := True\<rparr>);
       (_, g) \<leftarrow> env_alive env g;
       Some (0, g)
     }
     else do {
       let cmd = (case busy_atcmds g of [] \<Rightarrow> None | c # _ \<Rightarrow> Some c);
       echo \<leftarrow> (case cmd of None \<Rightarrow> Some False | Some c \<Rightarrow> map_option (\<lambda>t. buf = t) (c_str_at (at_buf c)));
       if echo then Some (0, g)
       else if hd buf = CHR ''+'' \<or> is_ext_char g (hd buf) then
         (case c_strchr buf CHR '':'' of
            None \<Rightarrow> Some (- EINVAL, g)
          | Some colon \<Rightarrow> ml_extended env buf arr len colon cmd g)
       else ml_basic env buf arr len cmd g
     }
   }"

text \<open>
  The read half of \<open>atcmd_select_cb\<close>: the chunks that \<open>read\<close> returns go through the low-level parser, whose
  callbacks are \<open>ml_parse\<close> (its result is dropped) and \<open>atcmd_prompt\<close>; the first overlong line ends the
  loop. The state of a run that went wrong is \<open>None\<close>.
\<close>

definition ml_cb :: "('cb, 'w) at_env \<Rightarrow> string \<Rightarrow> nat \<Rightarrow> ('cb, 'w) gsmd option \<Rightarrow> ('cb, 'w) gsmd option" where
  "ml_cb env arr len s = do { g \<leftarrow> s; map_option snd (ml_parse env arr len g) }"

fun select_read ::
  "('cb, 'w) at_env \<Rightarrow> string list \<Rightarrow> llparser \<Rightarrow> ('cb, 'w) gsmd option \<Rightarrow> int \<times> llparser \<times> ('cb, 'w) gsmd option" where
  "select_read env [] llp s = (0, llp, s)"
| "select_read env (rx # rxs) llp s =
     (let (rc, llp, s) = llparse_string (ml_cb env) (map_option atcmd_prompt) llp rx s
      in if rc < 0 then (rc, llp, s) else select_read env rxs llp s)"

section \<open>Response lines\<close>

text \<open>Lines that are neither extended nor a result code: information that is collected for the callback.\<close>

definition info_line :: "('cb, 'w) gsmd \<Rightarrow> string \<Rightarrow> bool" where
  "info_line g t \<longleftrightarrow> t \<noteq> [] \<and> NUL \<notin> set t \<and> t \<noteq> ''AT-Command Interpreter ready'' \<and>
     hd t \<noteq> CHR ''+'' \<and> \<not> is_ext_char g (hd t) \<and> t \<noteq> ''RING'' \<and> t \<noteq> ''ERROR'' \<and> take 2 t \<noteq> ''OK'' \<and>
     take 11 t \<noteq> ''NO CARRIER'' \<and> take 4 t \<noteq> ''BUSY'' \<and> g_flags g AND GSMD_FLAG_V0 = 0"

definition line_arr :: "string \<Rightarrow> string" where
  "line_arr t = t @ replicate (LLPARSE_BUF_SIZE - length t) NUL"

lemma line_arr_str: "NUL \<notin> set t \<Longrightarrow> length t < LLPARSE_BUF_SIZE \<Longrightarrow> c_str_at (line_arr t) = Some t"
  by (auto simp: c_str_at_def line_arr_def)

lemma line_arr_rdn: "rdn (line_arr t) 0 (length t) = Some t"
  by (simp add: rdn_def line_arr_def)

text \<open>What the multi-line buffer has collected.\<close>

definition collected :: "('cb, 'w) gsmd \<Rightarrow> string \<Rightarrow> bool" where
  "collected g s \<longleftrightarrow> length (mlbuf g) = MLPARSE_BUF_SIZE \<and> mlbuf_len g = length s \<and> length s \<le> MLPARSE_BUF_SIZE \<and>
     take (length s) (mlbuf g) = s"

fun join_lines :: "string \<Rightarrow> string list \<Rightarrow> string" where
  "join_lines acc [] = acc"
| "join_lines acc (t # ts) = join_lines (if acc = [] then t else acc @ LF # t) ts"

lemma collected_append:
  assumes c: "collected g s" and m: "\<not> mlunsolicited g"
    and l: "length s + 1 + length t \<le> MLPARSE_BUF_SIZE" "t \<noteq> []" and a: "rdn arr 0 (length t) = Some t"
  shows "\<exists>b. ml_append env arr (length t) rc g = Some (rc, g\<lparr>mlbuf := b, mlbuf_len := length (join_lines s [t])\<rparr>) \<and>
     collected (g\<lparr>mlbuf := b, mlbuf_len := length (join_lines s [t])\<rparr>) (join_lines s [t]) \<and>
     b = join_lines s [t] @ drop (length (join_lines s [t])) (mlbuf g)"
proof (cases "s = []")
  case True
  then show ?thesis using assms by (simp add: ml_append_def collected_def wrn_def Let_def)
next
  case False
  have n: "mlbuf_len g = length s" "length (mlbuf g) = MLPARSE_BUF_SIZE" "take (length s) (mlbuf g) = s"
    using c by (simp_all add: collected_def)
  let ?m = "(mlbuf g)[length s := LF]"
  have "take (length s + 1) ?m = s @ [LF]"
    using n l by (simp add: take_Suc_conv_app_nth)
  moreover have "drop (length s + 1 + length t) ?m = drop (length s + 1 + length t) (mlbuf g)" by simp
  moreover have "wr (mlbuf g) (length s) LF = Some ?m" using n l by (simp add: wr_def)
  moreover have "\<not> length t > MLPARSE_BUF_SIZE - (length s + 1)" using l by simp
  ultimately show ?thesis
    using n l a m False by (simp add: ml_append_def wrn_def collected_def Let_def)
qed

lemma join_lines_snoc: "\<forall>t \<in> set (ts @ [t]). t \<noteq> [] \<Longrightarrow> join_lines acc (ts @ [t]) = join_lines (join_lines acc ts) [t]"
  by (induction acc ts rule: join_lines.induct) auto

lemma join_lines_length: "length acc \<le> length (join_lines acc ts)"
  by (induction acc ts rule: join_lines.induct) (auto split: if_splits)

lemma join_lines_props:
  assumes "\<forall>t \<in> set ts. t \<noteq> [] \<and> NUL \<notin> set t" "NUL \<notin> set acc"
  shows "NUL \<notin> set (join_lines acc ts)" "join_lines acc ts = [] \<longleftrightarrow> acc = [] \<and> ts = []"
  using assms by (induction acc ts rule: join_lines.induct) (auto split: if_splits)

text \<open>An information line that is not the echo of the command is appended.\<close>

definition no_echo :: "('cb, 'w) gsmd \<Rightarrow> string \<Rightarrow> bool" where
  "no_echo g t \<longleftrightarrow> (case busy_atcmds g of [] \<Rightarrow> True | c # _ \<Rightarrow> NUL \<in> set (at_buf c) \<and> c_str (at_buf c) \<noteq> t)"

lemma echo_False:
  assumes "no_echo g t"
  shows "(case case busy_atcmds g of [] \<Rightarrow> None | c # x \<Rightarrow> Some c of None \<Rightarrow> Some False
     | Some c \<Rightarrow> map_option (\<lambda>u. t = u) (c_str_at (at_buf c))) = Some False"
  using assms by (auto simp: no_echo_def c_str_at_def split: list.splits)

lemma ml_parse_info:
  assumes "info_line g t" "no_echo g t" "length t < LLPARSE_BUF_SIZE"
  shows "ml_parse env (line_arr t) (length t) g = ml_append env (line_arr t) (length t) 0 g"
proof -
  have s: "c_str_at (line_arr t) = Some t" using assms(1,3) by (intro line_arr_str) (auto simp: info_line_def)
  show ?thesis
    using assms(1) echo_False [OF assms(2)]
    by (simp add: ml_parse_def s Let_def ml_basic_def info_line_def c_strneq_def v0_is_def)
qed

lemma ml_parse_ok:
  assumes "busy_atcmds g = c # rest" "no_echo g ''OK''" "\<not> is_ext_char g CHR ''O''"
  shows "ml_parse env (line_arr ''OK'') 2 g =
    atcmd_done (env_call env) (busy_update (c\<lparr>at_ret := 0\<rparr>) g) (c\<lparr>at_ret := 0\<rparr>) ''OK''"
proof -
  have s: "c_str_at (line_arr ''OK'') = Some ''OK''" by (intro line_arr_str) auto
  obtain z where "c_str_at (at_buf c) = Some z" "z \<noteq> ''OK''"
    using assms(1,2) by (auto simp: no_echo_def c_str_at_def)
  then show ?thesis
    using assms(1,3)
    by (simp add: ml_parse_def s Let_def ml_basic_def c_strneq_def v0_is_def set_ret_final_def set_ret_def ml_final_def)
qed

text \<open>The information lines of one command, one after the other.\<close>

definition feed_lines :: "('cb, 'w) at_env \<Rightarrow> string list \<Rightarrow> ('cb, 'w) gsmd option \<Rightarrow> ('cb, 'w) gsmd option" where
  "feed_lines env ts = fold (\<lambda>t. ml_cb env (line_arr t) (length t)) ts"

lemma feed_info:
  assumes "\<forall>t \<in> set ts. info_line g t \<and> no_echo g t \<and> length t < LLPARSE_BUF_SIZE"
    and "length (join_lines s ts) \<le> MLPARSE_BUF_SIZE" "collected g s" "\<not> mlunsolicited g"
  shows "\<exists>b. feed_lines env ts (Some g) = Some (g\<lparr>mlbuf := b, mlbuf_len := length (join_lines s ts)\<rparr>) \<and>
     collected (g\<lparr>mlbuf := b, mlbuf_len := length (join_lines s ts)\<rparr>) (join_lines s ts)"
  using assms
proof (induction ts arbitrary: g s)
  case Nil
  then have "g = g\<lparr>mlbuf := mlbuf g, mlbuf_len := length s\<rparr>" by (cases g) (simp add: collected_def)
  then show ?case using Nil.prems by (auto simp: feed_lines_def intro!: exI [of _ "mlbuf g"])
next
  case (Cons t ts)
  let ?s = "join_lines s [t]"
  have t: "info_line g t" "no_echo g t" "length t < LLPARSE_BUF_SIZE" "t \<noteq> []" using Cons.prems(1) by (auto simp: info_line_def)
  have j: "join_lines s (t # ts) = join_lines ?s ts" by simp
  have "length ?s \<le> length (join_lines ?s ts)" by (rule join_lines_length)
  then have l: "length s + 1 + length t \<le> MLPARSE_BUF_SIZE \<or> s = []"
    using Cons.prems(2) by (auto simp: j split: if_splits)
  obtain b where b: "ml_append env (line_arr t) (length t) 0 g = Some (0, g\<lparr>mlbuf := b, mlbuf_len := length ?s\<rparr>)"
      "collected (g\<lparr>mlbuf := b, mlbuf_len := length ?s\<rparr>) ?s"
  proof (cases "s = []")
    case True
    then show thesis
      using collected_append [of g s t "line_arr t" env 0] Cons.prems(3,4) t(3,4) line_arr_rdn that by auto
  next
    case False
    then show thesis
      using collected_append [of g s t "line_arr t" env 0] Cons.prems(3,4) t(4) l line_arr_rdn that by auto
  qed
  let ?g = "g\<lparr>mlbuf := b, mlbuf_len := length ?s\<rparr>"
  have "ml_parse env (line_arr t) (length t) g = Some (0, ?g)"
    using ml_parse_info [OF t(1-3)] b(1) by simp
  then have step: "feed_lines env (t # ts) (Some g) = feed_lines env ts (Some ?g)"
    by (simp add: feed_lines_def ml_cb_def)
  have "\<forall>u \<in> set ts. info_line ?g u \<and> no_echo ?g u \<and> length u < LLPARSE_BUF_SIZE"
    using Cons.prems(1) by (simp add: info_line_def no_echo_def is_ext_char_def)
  then obtain b' where "feed_lines env ts (Some ?g) = Some (?g\<lparr>mlbuf := b', mlbuf_len := length (join_lines ?s ts)\<rparr>)"
      "collected (?g\<lparr>mlbuf := b', mlbuf_len := length (join_lines ?s ts)\<rparr>) (join_lines ?s ts)"
    using Cons.IH [OF _ _ b(2)] Cons.prems(2,4) by auto
  then show ?case using step by auto
qed

lemma final_response_collected:
  assumes "collected g s" "length s < MLPARSE_BUF_SIZE" "NUL \<notin> set s"
  shows "\<exists>b. length b = MLPARSE_BUF_SIZE \<and> final_response buf g = Some (if s = [] then buf else s, g\<lparr>mlbuf := b\<rparr>)"
proof (cases "s = []")
  case True
  then show ?thesis using assms(1) by (intro exI [of _ "mlbuf g"]) (cases g, simp add: final_response_def collected_def)
next
  case False
  let ?m = "(mlbuf g)[length s := NUL]"
  have n: "mlbuf_len g = length s" "length (mlbuf g) = MLPARSE_BUF_SIZE" "take (length s) (mlbuf g) = s"
    using assms(1) by (simp_all add: collected_def)
  have "?m = s @ NUL # drop (length s + 1) (mlbuf g)"
    using n assms(2) by (simp add: upd_conv_take_nth_drop)
  then have "c_str ?m = s" using assms(3) by simp
  then show ?thesis using n False assms(2) by (intro exI [of _ ?m]) (simp add: final_response_def wr_def)
qed

section \<open>Chunks of the modem's output\<close>

lemma select_read_concat:
  "select_read env rxs l s = llparse_string (ml_cb env) (map_option atcmd_prompt) l (concat rxs) s"
proof (induction env rxs l s rule: select_read.induct)
  case (2 env rx rxs l s)
  then show ?case by (auto simp: llparse_string_app Let_def split: prod.splits)
qed simp

lemma deliver_lines: "fold (deliver_item (ml_cb env) pcb) (map Line ts) s = feed_lines env ts s"
  by (induction ts arbitrary: s) (simp_all add: feed_lines_def line_arr_def)

text \<open>The end of a command: it leaves the executing commands, and the writer is woken up if none is left.\<close>

definition finish_cmd :: "'cb gsmd_atcmd \<Rightarrow> ('cb, 'w) gsmd \<Rightarrow> ('cb, 'w) gsmd" where
  "finish_cmd c g = (let g = busy_del c g in
     if busy_atcmds g = [] \<and> pending_atcmds g \<noteq> [] then atcmd_wake_pending_queue g else g)"

lemma atcmd_done_cb:
  assumes "at_cb c = Some (Cb k)" "final_response buf g = Some (r, g1)"
  shows "atcmd_done call g c buf =
    do { (rc, g2) \<leftarrow> call k (c\<lparr>at_resp := Some r\<rparr>) r g1; Some (rc, finish_cmd c (g2\<lparr>mlbuf_len := 0\<rparr>)) }"
proof -
  have "atcmd_done call g c buf =
    do { (rc, g2) \<leftarrow> call k (c\<lparr>at_resp := Some r\<rparr>) r g1;
         let g = busy_del c (g2\<lparr>mlbuf_len := 0\<rparr>);
         Some (rc, if busy_atcmds g = [] \<and> pending_atcmds g \<noteq> [] then atcmd_wake_pending_queue g else g) }"
    using assms by (cases "call k (c\<lparr>at_resp := Some r\<rparr>) r g1") (auto simp: atcmd_done_def run_cb_def)
  then show ?thesis by (simp add: finish_cmd_def Let_def)
qed

section \<open>Properties\<close>

text \<open>Lines of the modem that belong to a command: information, without control characters.\<close>

definition resp_line :: "('cb, 'w) gsmd \<Rightarrow> string \<Rightarrow> bool" where
  "resp_line g t \<longleftrightarrow> info_line g t \<and> no_echo g t \<and> length t < LLPARSE_BUF_SIZE \<and>
     hd t \<noteq> CHR ''>'' \<and> CR \<notin> set t \<and> LF \<notin> set t"

lemma resp_lineD:
  "resp_line g t \<Longrightarrow> info_line g t" "resp_line g t \<Longrightarrow> no_echo g t" "resp_line g t \<Longrightarrow> length t < LLPARSE_BUF_SIZE"
  "resp_line g t \<Longrightarrow> plain_item (Line t)" "resp_line g t \<Longrightarrow> t \<noteq> [] \<and> NUL \<notin> set t"
  by (simp_all add: resp_line_def info_line_def)

lemma deliver_response:
  assumes idle: "ll_idle l" and rx: "concat rxs = concat (map (\<lambda>t. v1_frame (Line t)) (ts @ [''OK'']))"
    and busy: "busy_atcmds g = c # rest" "at_cb c = Some (Cb k)" "no_echo g ''OK''"
    and g: "collected g []" "\<not> mlunsolicited g" "\<not> is_ext_char g CHR ''O''"
    and ts: "\<forall>t \<in> set ts. resp_line g t" "length (join_lines [] ts) < MLPARSE_BUF_SIZE"
  defines "r \<equiv> (if ts = [] then ''OK'' else join_lines [] ts)"
  shows "\<exists>l' b. ll_idle l' \<and> length b = MLPARSE_BUF_SIZE \<and> select_read env rxs l (Some g) = (0, l',
     do { (rc, g2) \<leftarrow> env_call env k (c\<lparr>at_ret := 0, at_resp := Some r\<rparr>) r
            (busy_update (c\<lparr>at_ret := 0\<rparr>) (g\<lparr>mlbuf := b, mlbuf_len := length (join_lines [] ts)\<rparr>));
          Some (finish_cmd (c\<lparr>at_ret := 0\<rparr>) (g2\<lparr>mlbuf_len := 0\<rparr>)) })"
proof -
  let ?c = "c\<lparr>at_ret := 0\<rparr>" and ?s = "join_lines [] ts"
  have plain: "\<forall>x \<in> set (map Line (ts @ [''OK''])). plain_item x"
    using ts(1) resp_lineD(4) by fastforce
  have "select_read env rxs l (Some g) =
      llparse_string (ml_cb env) (map_option atcmd_prompt) l (concat (map v1_frame (map Line (ts @ [''OK''])))) (Some g)"
    unfolding select_read_concat rx map_map comp_def ..
  with llparse_item_stream [OF idle plain, of "ml_cb env" "map_option atcmd_prompt" "Some g"]
  obtain l' where l': "ll_idle l'" "select_read env rxs l (Some g) = (0, l', feed_lines env (ts @ [''OK'']) (Some g))"
    unfolding deliver_lines by metis
  obtain b where b: "feed_lines env ts (Some g) = Some (g\<lparr>mlbuf := b, mlbuf_len := length ?s\<rparr>)"
      "collected (g\<lparr>mlbuf := b, mlbuf_len := length ?s\<rparr>) ?s"
    using feed_info [of ts g "[]" env] ts resp_lineD(1,2,3) g(1,2) by fastforce
  let ?g = "g\<lparr>mlbuf := b, mlbuf_len := length ?s\<rparr>"
  have ok: "ml_parse env (line_arr ''OK'') 2 ?g = atcmd_done (env_call env) (busy_update ?c ?g) ?c ''OK''"
    using busy(1,3) g(3) by (intro ml_parse_ok) (simp_all add: no_echo_def is_ext_char_def)
  have col: "collected (busy_update ?c ?g) ?s" using b(2) by (simp add: collected_def busy_update_def)
  have nn: "NUL \<notin> set ?s" using join_lines_props(1) [of ts "[]"] ts(1) resp_lineD(5) by fastforce
  have "?s = [] \<longleftrightarrow> ts = []" using join_lines_props(2) [of ts "[]"] ts(1) resp_lineD(5) by fastforce
  then have r: "(if ?s = [] then ''OK'' else ?s) = r" by (simp add: r_def)
  obtain b' where b': "length b' = MLPARSE_BUF_SIZE" "final_response ''OK'' (busy_update ?c ?g) = Some (r, (busy_update ?c ?g)\<lparr>mlbuf := b'\<rparr>)"
    using final_response_collected [OF col ts(2) nn, of "''OK''"] unfolding r by blast
  have "final_response ''OK'' (busy_update ?c ?g) = Some (r, busy_update ?c (g\<lparr>mlbuf := b', mlbuf_len := length ?s\<rparr>))"
    using b'(2) by (simp add: busy_update_def)
  from atcmd_done_cb [OF _ this, where k = k and call = "env_call env"] busy(2)
  have "map_option snd (ml_parse env (line_arr ''OK'') 2 ?g) =
     do { (rc, g2) \<leftarrow> env_call env k (c\<lparr>at_ret := 0, at_resp := Some r\<rparr>) r
            (busy_update ?c (g\<lparr>mlbuf := b', mlbuf_len := length ?s\<rparr>));
          Some (finish_cmd ?c (g2\<lparr>mlbuf_len := 0\<rparr>)) }"
    unfolding ok by (auto split: Option.bind_split)
  then have "feed_lines env (ts @ [''OK'']) (Some g) =
     do { (rc, g2) \<leftarrow> env_call env k (c\<lparr>at_ret := 0, at_resp := Some r\<rparr>) r
            (busy_update ?c (g\<lparr>mlbuf := b', mlbuf_len := length ?s\<rparr>));
          Some (finish_cmd ?c (g2\<lparr>mlbuf_len := 0\<rparr>)) }"
    using b(1) by (simp add: feed_lines_def ml_cb_def numeral_2_eq_2)
  then show ?thesis using l' b'(1) by auto
qed

text \<open>C3: The response of a command is delivered complete and once: when the modem sends information lines
  and OK, framed by CR LF and cut into reads in any way, then the callback of the first executing
  command is called with the lines joined by newlines (with OK if there were none) and the result 0,
  and the command is taken out of the queue afterwards.
\<close>

theorem response_delivered:
  assumes idle: "ll_idle l" and rx: "concat rxs = concat (map (\<lambda>t. v1_frame (Line t)) (ts @ [''OK'']))"
    and busy: "busy_atcmds g = c # rest" "at_cb c = Some (Cb k)" "no_echo g ''OK''"
    and g: "collected g []" "\<not> mlunsolicited g" "\<not> is_ext_char g CHR ''O''"
    and ts: "\<forall>t \<in> set ts. resp_line g t" "length (join_lines [] ts) < MLPARSE_BUF_SIZE"
  defines "r \<equiv> (if ts = [] then ''OK'' else join_lines [] ts)"
  shows "\<exists>l' b. ll_idle l' \<and> select_read env rxs l (Some g) = (0, l',
     do { (rc, g2) \<leftarrow> env_call env k (c\<lparr>at_ret := 0, at_resp := Some r\<rparr>) r
            (busy_update (c\<lparr>at_ret := 0\<rparr>) (g\<lparr>mlbuf := b, mlbuf_len := length (join_lines [] ts)\<rparr>));
          Some (finish_cmd (c\<lparr>at_ret := 0\<rparr>) (g2\<lparr>mlbuf_len := 0\<rparr>)) })"
  unfolding r_def using deliver_response [OF idle rx busy g ts, of env] by blast

definition log_env :: "(nat, string list) at_env" where
  "log_env = \<lparr>env_call = (\<lambda>k c resp g. Some (0, g\<lparr>world := world g @ [resp]\<rparr>)),
     env_unsol = (\<lambda>buf len g. Some (- ENOENT, g)), env_cme = (\<lambda>n g. Some (0, g)), env_cms = (\<lambda>n g. Some (0, g)),
     env_init = (\<lambda>g. Some (0, g)), env_alive = (\<lambda>g. Some (0, g))\<rparr>"

definition ex_ml :: "nat gsmd_atcmd list \<Rightarrow> (nat, string list) gsmd" where
  "ex_ml cs = \<lparr>g_flags = 0, interpreter_ready = True, uart_write = False, pending_atcmds = [], busy_atcmds = cs,
     ext_chars = ''%'', mlbuf = replicate MLPARSE_BUF_SIZE NUL, mlbuf_len = 0, mlunsolicited = False,
     wakeup_timer = Some 0, g_timers = [], g_mem = [], g_next = 10, world = []\<rparr>"

theorem response_delivered_witness:
  "\<exists>l' g'. select_read log_env [[CR, LF] @ ''Siem'', ''ens'' @ [CR, LF, CR, LF] @ ''MC35'' @ [CR], [LF, CR, LF] @ ''OK'' @ [CR, LF]]
     ex_llp (Some (ex_ml [ex_cmd 1 ''AT+CGMM''])) = (0, l', Some g') \<and>
     world g' = [''Siemens'' @ LF # ''MC35''] \<and> busy_atcmds g' = []"
proof -
  let ?g = "ex_ml [ex_cmd 1 ''AT+CGMM'']" and ?ts = "[''Siemens'', ''MC35'']"
  let ?rx = "[[CR, LF] @ ''Siem'', ''ens'' @ [CR, LF, CR, LF] @ ''MC35'' @ [CR], [LF, CR, LF] @ ''OK'' @ [CR, LF]]"
  have rx: "concat ?rx = concat (map (\<lambda>t. v1_frame (Line t)) (?ts @ [''OK'']))" by simp
  have e: "no_echo ?g t \<longleftrightarrow> t \<noteq> ''AT+CGMM''" for t
    by (auto simp: no_echo_def ex_ml_def ex_cmd_def c_str_def)
  have x: "is_ext_char ?g c \<longleftrightarrow> c = CHR ''%'' \<or> c = NUL" for c
    by (auto simp: is_ext_char_def ex_ml_def)
  have c: "collected ?g []" by (simp add: collected_def ex_ml_def)
  have f: "g_flags ?g = 0" "busy_atcmds ?g = [ex_cmd 1 ''AT+CGMM'']" "\<not> mlunsolicited ?g" by (simp_all add: ex_ml_def)
  have k: "at_cb (ex_cmd 1 ''AT+CGMM'') = Some (Cb 7)" by (simp add: ex_cmd_def)
  have ts: "\<forall>t \<in> set ?ts. resp_line ?g t"
    by (simp add: resp_line_def info_line_def e x f del: One_nat_def)
  obtain l' b where "select_read log_env ?rx ex_llp (Some ?g) = (0, l',
     do { (rc, g2) \<leftarrow> env_call log_env 7 (ex_cmd 1 ''AT+CGMM''\<lparr>at_ret := 0, at_resp := Some (join_lines [] ?ts)\<rparr>) (join_lines [] ?ts)
            (busy_update (ex_cmd 1 ''AT+CGMM''\<lparr>at_ret := 0\<rparr>) (?g\<lparr>mlbuf := b, mlbuf_len := length (join_lines [] ?ts)\<rparr>));
          Some (finish_cmd (ex_cmd 1 ''AT+CGMM''\<lparr>at_ret := 0\<rparr>) (g2\<lparr>mlbuf_len := 0\<rparr>)) })"
    using response_delivered [OF ll_idle_ex rx f(2) k _ c f(3) _ ts, of log_env]
    by (auto simp: e x simp del: One_nat_def)
  then show ?thesis
    by (simp add: log_env_def finish_cmd_def busy_del_def busy_update_def ex_ml_def ex_cmd_def Let_def)
qed

lemma ml_parse_ext:
  assumes "busy_atcmds g = c # rest" "no_echo g t" "t = (CHR ''+'' # p) @ CHR '':'' # v" "CHR '':'' \<notin> set p"
    "NUL \<notin> set t" "length t < LLPARSE_BUF_SIZE"
  shows "ml_parse env (line_arr t) (length t) g =
    ml_extended env t (line_arr t) (length t) (length (CHR ''+'' # p)) (Some c) g"
proof -
  have s: "c_str_at (line_arr t) = Some t" using assms(5,6) by (rule line_arr_str)
  have t: "t \<noteq> []" "hd t = CHR ''+''" "t \<noteq> ''AT-Command Interpreter ready''" using assms(3) by auto
  have colon: "c_strchr t CHR '':'' = Some (length (CHR ''+'' # p))"
    unfolding assms(3) using assms(4) by (intro c_strchr_app) simp
  show ?thesis
    using assms(1) echo_False [OF assms(2)] by (auto simp: ml_parse_def s t colon Let_def simp del: list.size)
qed

text \<open>Further lines of an extended response: when a line with the prefix of the executing command arrives
  while another one is in the buffer, the callback of the command gets the buffered one first, but as
  what the buffer holds up to the next NUL: \<open>u\<close>, the rest of an older and longer line, is appended to it.
\<close>

theorem extended_response_flush:
  assumes busy: "busy_atcmds g = c # rest" "at_cb c = Some (Cb k)" "no_echo g t"
    and p: "p = CHR ''+'' # r" "NUL \<notin> set p" "CHR '':'' \<notin> set p"
    and cmd: "at_buf c = [x, y] @ p @ q @ NUL # z" "NUL \<notin> set q"
    and line: "t = p @ CHR '':'' # v" "NUL \<notin> set v" "length t < LLPARSE_BUF_SIZE"
      "\<not> c_strneq (tl t) ''CME ERROR'' 9" "\<not> c_strneq (tl t) ''CMS ERROR'' 9"
    and buf: "mlbuf g = s @ u @ NUL # w" "mlbuf_len g = length s" "s \<noteq> []" "NUL \<notin> set s" "NUL \<notin> set u"
  shows "ml_parse env (line_arr t) (length t) g =
    do { (rc, g') \<leftarrow> env_call env k (c\<lparr>at_resp := Some (s @ u)\<rparr>) (s @ u) g;
         ml_append env (line_arr t) (length t) rc (g'\<lparr>mlbuf_len := 0\<rparr>) }"
proof -
  have t: "NUL \<notin> set t" "t = (CHR ''+'' # r) @ CHR '':'' # v" "CHR '':'' \<notin> set r" using line p by auto
  have "drop 2 (at_buf c) = (p @ q) @ NUL # z" using cmd(1) by simp
  then have d: "c_str_at (drop 2 (at_buf c)) = Some (p @ q)" using p(2) cmd(2) by (simp add: c_str_at_def del: append_assoc)
  have eq: "c_strneq t (p @ q) (length p)" using line(1) by (simp add: c_strneq_def)
  have x: "rd (at_buf c) 2 = Some CHR ''+''" using cmd(1) p(1) by (simp add: rd_def)
  have "mlbuf g = (s @ u) @ NUL # w" using buf(1) by simp
  then have b: "c_str_at (mlbuf g) = Some (s @ u)" using buf(4,5) by (simp add: c_str_at_def del: append_assoc)
  have "ml_parse env (line_arr t) (length t) g = ml_extended env t (line_arr t) (length t) (length p) (Some c) g"
    using ml_parse_ext [OF busy(1,3) t(2,3,1) line(3)] p(1) by simp
  also have "\<dots> = do { (rc, g) \<leftarrow> ml_flush env c 0 g; ml_append env (line_arr t) (length t) rc g }"
    using line(4,5) by (simp add: ml_extended_def d eq x)
  finally show ?thesis using buf(2,3) busy(2) by (simp add: ml_flush_def b run_cb_def case_prod_unfold bind_assoc)
qed

definition ex_stale :: "(nat, string list) gsmd" where
  "ex_stale = (ex_ml [ex_cmd 1 ''AT+CPBR=1,9''])\<lparr>
     mlbuf := ''+CPBR: 2'' @ '' (older)'' @ NUL # replicate (MLPARSE_BUF_SIZE - 17) NUL, mlbuf_len := 8\<rparr>"

theorem extended_response_flush_witness:
  "\<exists>g'. map_option snd (ml_parse log_env (line_arr ''+CPBR: 3'') (length ''+CPBR: 3'') ex_stale) = Some g' \<and>
     world g' = [''+CPBR: 2 (older)'']"
proof -
  define t where "t = ''+CPBR: 3''"
  have l: "length t = 8" by (simp add: t_def)
  have rd: "rdn (line_arr t) 0 8 = Some t" using line_arr_rdn [of t] by (simp add: l)
  let ?g = ex_stale and ?t = t and ?c = "ex_cmd 1 ''AT+CPBR=1,9''"
  have e: "no_echo ?g ?t" by (simp add: no_echo_def ex_stale_def ex_ml_def ex_cmd_def c_str_def t_def)
  have f: "busy_atcmds ?g = [?c]" "at_cb ?c = Some (Cb 7)" "mlbuf_len ?g = 8" "\<not> mlunsolicited ?g" "world ?g = []"
    by (simp_all add: ex_stale_def ex_ml_def ex_cmd_def)
  have m: "mlbuf ?g = ''+CPBR: 2'' @ '' (older)'' @ NUL # replicate (MLPARSE_BUF_SIZE - 17) NUL"
    by (simp add: ex_stale_def)
  have "ml_parse log_env (line_arr ?t) (length ?t) ?g =
    do { (rc, g') \<leftarrow> env_call log_env 7 (?c\<lparr>at_resp := Some (''+CPBR: 2'' @ '' (older)'')\<rparr>) (''+CPBR: 2'' @ '' (older)'') ?g;
         ml_append log_env (line_arr ?t) (length ?t) rc (g'\<lparr>mlbuf_len := 0\<rparr>) }"
    by (rule extended_response_flush [where p = "''+CPBR''" and q = "''=1,9''" and v = "'' 3''", OF f(1,2) e _ _ _ _ _ _ _ _ _ _ m])
      (simp_all add: f ex_cmd_def c_strneq_def t_def)
  then show ?thesis unfolding t_def [symmetric]
    by (simp add: log_env_def ml_append_def rd f m wrn_def Let_def l del: append_assoc)
qed

text \<open>While the wake-up command executes, an extended line (an event of the modem, say) makes the parser
  compare it with the third character of a command of two: an access outside of the buffer.
\<close>

theorem wakeup_overread:
  assumes "busy_atcmds g = c # rest" "at_buf c = [x, NUL]" "no_echo g t"
    and "t = CHR ''+'' # p @ CHR '':'' # v" "CHR '':'' \<notin> set p" "NUL \<notin> set t" "length t < LLPARSE_BUF_SIZE"
      "\<not> c_strneq (tl t) ''CME ERROR'' 9" "\<not> c_strneq (tl t) ''CMS ERROR'' 9"
  shows "ml_parse env (line_arr t) (length t) g = None"
proof -
  have d: "c_str_at (drop 2 (at_buf c)) = None" using assms(2) by (simp add: c_str_at_def)
  have "ml_parse env (line_arr t) (length t) g =
      ml_extended env t (line_arr t) (length t) (length (CHR ''+'' # p)) (Some c) g"
    using ml_parse_ext [OF assms(1,3) _ assms(5,6,7)] assms(4) by simp
  also have "\<dots> = None" using assms(8,9) by (simp add: ml_extended_def d)
  finally show ?thesis .
qed

theorem wakeup_overread_witness:
  "\<exists>g g'. atcmd_submit (ex_ml []\<lparr>wakeup_timer := None\<rparr>) (ex_cmd 1 ''AT+CSQ'') = Some (0, g) \<and>
     select_write 1 True g = Some (0, g', '' '' @ [CR]) \<and>
     ml_parse log_env (line_arr ''+CREG: 1'') (length ''+CREG: 1'') g' = None"
proof -
  let ?g0 = "ex_ml []\<lparr>wakeup_timer := None\<rparr>" and ?t = "''+CREG: 1''"
  define c :: "nat gsmd_atcmd" where "c = \<lparr>at_ptr = 10, at_cb = Some Null_Wakeup_Cb, at_resp = None, at_ret = - 255, at_buflen = 2,
     at_id = 0, at_cur = 0, at_buf = [CHR '' '', NUL]\<rparr>"
  obtain g where g: "atcmd_submit ?g0 (ex_cmd 1 ''AT+CSQ'') = Some (0, g)"
    "pending_atcmds g = [c, ex_cmd 1 ''AT+CSQ'']" "busy_atcmds g = []" "interpreter_ready g"
    by (simp add: atcmd_submit_def atcmd_wakeup_modem_def atcmd_fill_def g_alloc_def ex_ml_def start_wakeup_timer_def
      atcmd_wake_pending_queue_def Let_def c_def)
  obtain g' c' where g': "select_write 1 True g = Some (0, g', '' '' @ [CR])" "busy_atcmds g' = [c']" "at_buf c' = [CHR '' '', NUL]"
    using g(2,3,4) by (simp add: select_write_def select_write_cmd_def c_def c_str_at_def c_str_def rdn_def Let_def
      atcmd_wait_pending_queue_def)
  have "no_echo g' ?t" by (simp add: no_echo_def g' c_str_def)
  then have "ml_parse log_env (line_arr ?t) (length ?t) g' = None"
    by (rule wakeup_overread [where p = "''CREG''" and v = "'' 1''", OF g'(2,3)]) (simp_all add: c_strneq_def)
  then show ?thesis using g(1) g'(1) by blast
qed

end
