(* ===== verification/At_Step.thy ===== *)
theory At_Step
  imports Ml_Parse
begin

text \<open>
  The command queue as a state machine. A step is one event of the daemon's main loop that touches the
  queue: a request of a client, a line or a prompt of the modem, the UART becoming writable, the wake-up
  timer. The interface \<open>modem_env\<close> states what the queue relies on in the functions of the other files:
  they only append commands and request the write event. Under it the invariant \<open>queue_ok\<close> holds in every
  reachable state; the theory Daemon interprets it on the daemon's own callbacks and handlers.
\<close>

inductive at_step :: "('cb, 'w) at_env \<Rightarrow> ('cb, 'w) gsmd \<Rightarrow> ('cb, 'w) gsmd \<Rightarrow> bool" for env where
  Submit: "atcmd_fill s rlen cb i g = Some (Some c, g1) \<Longrightarrow> atcmd_submit g1 c = Some (rc, g') \<Longrightarrow> at_step env g g'"
| Cancel: "atcmd_fill s rlen cb i g = Some (Some c, g1) \<Longrightarrow> cancel_atcmd (env_call env) g1 c = Some (rc, g') \<Longrightarrow>
     at_step env g g'"
| Line: "ml_parse env arr len g = Some (rc, g') \<Longrightarrow> at_step env g g'"
| Prompt: "at_step env g (atcmd_prompt g)"
| Write: "write_ok w g \<Longrightarrow> select_write w cr_ok g = Some (rc, g', out) \<Longrightarrow> at_step env g g'"
| Timeout: "wakeup_timeout tmr g = Some g' \<Longrightarrow> at_step env g g'"

inductive at_reach :: "('cb, 'w) at_env \<Rightarrow> ('cb, 'w) gsmd \<Rightarrow> ('cb, 'w) gsmd \<Rightarrow> bool" for env g0 where
  Start: "at_reach env g0 g0"
| Step: "at_reach env g0 g \<Longrightarrow> at_step env g g' \<Longrightarrow> at_reach env g0 g'"

text \<open>Write results that would be undefined behaviour of the model of \<open>write\<close> are excluded by \<open>write_ok\<close>.\<close>

locale modem_env = atcmd_callbacks "env_call env" for env :: "('cb, 'w) at_env" +
  assumes unsol_grows: "env_unsol env buf len g = Some (rc, g') \<Longrightarrow> queue_grows g g'"
    and cme_grows: "env_cme env n g = Some (rc, g') \<Longrightarrow> queue_grows g g'"
    and cms_grows: "env_cms env n g = Some (rc, g') \<Longrightarrow> queue_grows g g'"
    and init_grows: "env_init env g = Some (rc, g') \<Longrightarrow> queue_grows g g'"
    and alive_grows: "env_alive env g = Some (rc, g') \<Longrightarrow> queue_grows g g'"

lemma queue_growsD: "queue_grows g g' \<Longrightarrow> queue_ok g \<Longrightarrow> queue_ok g'" "queue_grows g g' \<Longrightarrow> busy_atcmds g' = busy_atcmds g"
  by (simp_all add: queue_grows_def)

lemma busy_update_ptrs: "map at_ptr (busy_atcmds (busy_update c g)) = map at_ptr (busy_atcmds g)"
  by (simp add: busy_update_def)

lemma busy_update_ok: "queue_ok (busy_update c g) \<longleftrightarrow> queue_ok g"
proof -
  have p: "pending_atcmds (busy_update c g) = pending_atcmds g" "g_next (busy_update c g) = g_next g"
      "uart_write (busy_update c g) = uart_write g" by (simp_all add: busy_update_def)
  have "at_ptr ` set (busy_atcmds (busy_update c g)) = at_ptr ` set (busy_atcmds g)"
    using busy_update_ptrs [of c g] by (metis set_map)
  then have all: "(\<forall>x \<in> set (busy_atcmds (busy_update c g)). at_ptr x < n) \<longleftrightarrow> (\<forall>x \<in> set (busy_atcmds g). at_ptr x < n)" for n
    by (metis (mono_tags, lifting) image_iff)
  have "(busy_atcmds (busy_update c g) = []) = (busy_atcmds g = [])" by (simp add: busy_update_def)
  then show ?thesis unfolding queue_ok_def queue_live_def
    by (simp only: p map_append busy_update_ptrs set_append ball_Un all)
qed

lemma busy_update_head:
  "busy_atcmds g = c # rest \<Longrightarrow> \<exists>c' rest'. busy_atcmds (busy_update d g) = c' # rest' \<and> at_ptr c' = at_ptr c"
  by (simp add: busy_update_def)

text \<open>The command that the parser works on is the first of the executing ones.\<close>

definition head_cmd :: "'cb gsmd_atcmd option \<Rightarrow> ('cb, 'w) gsmd \<Rightarrow> bool" where
  "head_cmd cmd g \<longleftrightarrow> (\<forall>c. cmd = Some c \<longrightarrow> (\<exists>d rest. busy_atcmds g = d # rest \<and> at_ptr d = at_ptr c))"

context modem_env
begin

lemma final_keeps:
  assumes "ml_final env e1 e2 buf cmd g = Some (rc, g')" "queue_ok g" "head_cmd cmd g"
  shows "queue_ok g'"
proof (cases cmd)
  case (Some c)
  then obtain d rest where d: "busy_atcmds g = d # rest" "at_ptr c = at_ptr d" using assms(3) by (auto simp: head_cmd_def)
  obtain r1 g1 r2 g2 where 1: "(if e1 then env_cme env (at_ret c) g else Some (0, g)) = Some (r1, g1)"
      and 2: "(if e2 then env_cms env (at_ret c) g1 else Some (0, g1)) = Some (r2, g2)"
      and r: "atcmd_done (env_call env) g2 c buf = Some (rc, g')"
    using assms(1) Some by (auto simp: ml_final_def split: bind_splits)
  have "queue_grows g g1" using 1 cme_grows by (auto split: if_splits)
  moreover have "queue_grows g1 g2" using 2 cms_grows by (auto split: if_splits)
  ultimately have "queue_grows g g2" by (rule queue_grows_trans)
  then have "queue_ok g2" "busy_atcmds g2 = d # rest" using assms(2) d(1) queue_growsD [of g g2] by auto
  then show ?thesis using done_ok [OF r _ _ d(2)] by blast
qed (use assms in \<open>simp add: ml_final_def\<close>)

lemma set_ret_final_keeps:
  assumes "set_ret_final env r e1 e2 buf cmd g = Some (rc, g')" "queue_ok g" "head_cmd cmd g"
  shows "queue_ok g'"
proof (cases cmd)
  case None
  then show ?thesis using assms by (auto simp: set_ret_final_def set_ret_def ml_final_def)
next
  case (Some c)
  let ?c = "c\<lparr>at_ret := r\<rparr>"
  have "ml_final env e1 e2 buf (Some ?c) (busy_update ?c g) = Some (rc, g')"
    using assms(1) Some by (simp add: set_ret_final_def set_ret_def Let_def)
  moreover have "head_cmd (Some ?c) (busy_update ?c g)"
    using assms(3) Some busy_update_head by (fastforce simp: head_cmd_def)
  ultimately show ?thesis using final_keeps assms(2) busy_update_ok by blast
qed

lemma append_keeps:
  assumes "ml_append env arr len r g = Some (rc, g')" "queue_ok g"
  shows "queue_ok g'"
proof -
  have "\<exists>g1. queue_ok g1 \<and> (g' = g1 \<or> (\<exists>s n rc. env_unsol env s n g1 = Some (rc, g')) \<or>
      (\<exists>s n rc g2. env_unsol env s n g1 = Some (rc, g2) \<and> g' = g2\<lparr>mlunsolicited := False, mlbuf_len := 0\<rparr>))"
    using assms(1) assms(2)
    by (auto simp: ml_append_def Let_def simp del: gsmd.simps split: bind_splits if_splits) (metis queue_ok_simps(1,2))+
  then show ?thesis using unsol_grows queue_growsD(1) queue_ok_simps(1,3) by metis
qed

lemma flush_keeps:
  assumes "ml_flush env c r g = Some (rc, g')" "queue_ok g"
  shows "queue_ok g'"
  using assms
  by (auto simp: ml_flush_def simp del: gsmd.simps split: bind_splits if_splits option.splits)
    (meson run_cb_grows queue_growsD(1))

lemma extended_keeps:
  assumes run: "ml_extended env buf arr len colon cmd g = Some (rc, g')" and ok: "queue_ok g" "head_cmd cmd g"
  shows "queue_ok g'"
proof -
  consider (fin) r e1 e2 where "set_ret_final env r e1 e2 buf cmd g = Some (rc, g')"
    | (other) "\<not> c_strneq (tl buf) ''CME ERROR'' 9" "\<not> c_strneq (tl buf) ''CMS ERROR'' 9"
    using run by (auto simp: ml_extended_def split: if_splits)
  then show ?thesis
  proof cases
    case other
    obtain ot r g1 where 1: "(if ot then env_unsol env buf len g else Some (0, g)) = Some (r, g1)"
      and t: "(if ot \<and> r = - EAGAIN then do {
          line \<leftarrow> rdn arr 0 len;
          m \<leftarrow> wrn (mlbuf g1) 0 line;
          Some (0, g1\<lparr>mlbuf_len := len, mlbuf := m, mlunsolicited := True\<rparr>)
        }
        else if ot \<and> r \<noteq> - ENOENT then Some (r, g1)
        else case cmd of
               None \<Rightarrow> ml_append env arr len r g1
             | Some c \<Rightarrow> do {
                 x \<leftarrow> rd (at_buf c) 2;
                 if x \<noteq> CHR ''+'' \<and> \<not> is_ext_char g1 x then Some (- EINVAL, g1)
                 else do {
                   (rc, g) \<leftarrow> ml_flush env c r g1;
                   ml_append env arr len rc g
                 }
               }) = Some (rc, g')"
      using run unfolding ml_extended_def if_not_P [OF other(1)] if_not_P [OF other(2)]
      by (auto simp del: gsmd.simps split: bind_splits simp del: if_split)
    have "queue_grows g g1" using 1 unsol_grows by (auto split: if_splits)
    then have "queue_ok g1" using ok(1) by (rule queue_growsD(1))
    then show ?thesis using t append_keeps flush_keeps
      by (auto simp del: gsmd.simps split: bind_splits if_splits option.splits)
  qed (use set_ret_final_keeps ok in blast)
qed

lemma basic_keeps:
  assumes run: "ml_basic env buf arr len cmd g = Some (rc, g')" and ok: "queue_ok g" "head_cmd cmd g"
  shows "queue_ok g'"
proof -
  consider "env_unsol env buf len g = Some (rc, g')"
    | r where "set_ret_final env r False False buf cmd g = Some (rc, g')"
    | "ml_final env False False buf cmd g = Some (rc, g')"
    | "ml_append env arr len 0 g = Some (rc, g')"
    using run unfolding ml_basic_def by (auto split: if_splits)
  then show ?thesis
    by cases (use ok in \<open>blast intro: queue_growsD(1) [OF unsol_grows] set_ret_final_keeps final_keeps append_keeps\<close>)+
qed

lemma parse_keeps:
  assumes run: "ml_parse env arr len g = Some (rc, g')" and ok: "queue_ok g"
  shows "queue_ok g'"
proof -
  let ?cmd = "case busy_atcmds g of [] \<Rightarrow> None | c # _ \<Rightarrow> Some c"
  have h: "head_cmd ?cmd g" by (auto simp: head_cmd_def split: list.splits)
  consider (same) "g' = g"
    | (ready) r1 g1 r2 where "env_init env (g\<lparr>interpreter_ready := True\<rparr>) = Some (r1, g1)" "env_alive env g1 = Some (r2, g')"
    | (ext) buf colon where "ml_extended env buf arr len colon ?cmd g = Some (rc, g')"
    | (basic) buf where "ml_basic env buf arr len ?cmd g = Some (rc, g')"
    using run unfolding ml_parse_def Let_def
    by (auto simp del: gsmd.simps split: bind_splits if_splits option.splits)
  then show ?thesis
  proof cases
    case ready
    have "queue_ok (g\<lparr>interpreter_ready := True\<rparr>)" using ok by simp
    then show ?thesis using ready init_grows alive_grows queue_growsD(1) by blast
  next
    case ext
    then show ?thesis using extended_keeps ok h by blast
  next
    case basic
    then show ?thesis using basic_keeps ok h by blast
  qed (use ok in simp)
qed

lemma step_keeps:
  assumes "at_step env g g'" "queue_ok g"
  shows "queue_ok g'"
  using assms
proof (cases rule: at_step.cases)
  case Submit
  then show ?thesis using fill_submit_ok queue_growsD(1) assms(2) by blast
next
  case Cancel
  then show ?thesis using cancel_ok atcmd_fill_ok(1,2) assms(2) by blast
next
  case Line
  then show ?thesis using parse_keeps assms(2) by blast
next
  case Prompt
  then show ?thesis using prompt_ok assms(2) by blast
next
  case Write
  then show ?thesis using select_write_ok assms(2) by blast
next
  case Timeout
  then show ?thesis using timeout_ok assms(2) by blast
qed

lemma reach_ok: "at_reach env g0 g \<Longrightarrow> queue_ok g0 \<Longrightarrow> queue_ok g"
  by (induction rule: at_reach.induct) (auto intro: step_keeps)

end

inductive_cases at_stepE: "at_step env g g'"

end
