(* ===== verification/At_World.thy ===== *)
theory At_World
  imports At_Step
begin

text \<open>
  What the command queue and the parser do to the state of the other components: nothing themselves. A
  relation between the states of the other components that every called function keeps is kept by
  \<open>atcmd_done\<close>, \<open>cancel_atcmd\<close> and \<open>ml_parse\<close>, and addresses are never handed out again.
\<close>

lemma atcmd_fill_world: "atcmd_fill s rlen cb i g = Some (c, g') \<Longrightarrow> world g' = world g \<and> g_next g \<le> g_next g'"
  by (cases g rule: g_alloc_cases) (auto simp: atcmd_fill_def Let_def split: if_splits)

lemma start_wakeup_world [simp]: "world (start_wakeup_timer g) = world g"
  by (cases g rule: g_alloc_cases) (simp_all add: start_wakeup_timer_def)

lemma atcmd_wakeup_world:
  assumes "atcmd_wakeup_modem g = Some g'"
  shows "world g' = world g"
proof (cases "wakeup_timer g")
  case None
  then obtain d g0 where "atcmd_fill [CHR '' '', CR] 2 (Some Null_Wakeup_Cb) 0 g = Some (Some d, g0)"
    and "g' = (let g1 = start_wakeup_timer g0;
        g2 = (if pending_atcmds g1 = [] then atcmd_wake_pending_queue g1 else g1)
      in g2\<lparr>pending_atcmds := pending_atcmds g2 @ [d]\<rparr>)"
    using assms by (auto simp: atcmd_wakeup_modem_def Let_def simp del: gsmd.simps split: bind_splits)
  then show ?thesis by (simp add: Let_def atcmd_wake_pending_queue_def atcmd_fill_world)
qed (use assms in \<open>simp add: atcmd_wakeup_modem_def\<close>)

lemma atcmd_submit_world:
  assumes "atcmd_submit g c = Some (rc, g')"
  shows "world g' = world g \<and> g_next g \<le> g_next g'"
proof -
  obtain g1 where w: "atcmd_wakeup_modem g = Some g1"
    and g': "g' = (if pending_atcmds g1 = [] then atcmd_wake_pending_queue (g1\<lparr>pending_atcmds := pending_atcmds g1 @ [c]\<rparr>)
      else g1\<lparr>pending_atcmds := pending_atcmds g1 @ [c]\<rparr>)"
    using assms by (auto simp: atcmd_submit_def Let_def simp del: gsmd.simps split: bind_splits)
  have "g_next g \<le> g_next g1" using queue_grows_wakeup [OF w] by (simp add: queue_grows_def)
  then show ?thesis using atcmd_wakeup_world [OF w] by (simp add: g' atcmd_wake_pending_queue_def)
qed

locale world_calls =
  fixes call :: "('cb, 'w) call_env" and R :: "'w \<Rightarrow> 'w \<Rightarrow> bool"
  assumes R_refl: "R w w" and R_trans: "R x y \<Longrightarrow> R y z \<Longrightarrow> R x z"
    and call_world: "call c cmd resp g = Some (rc, g') \<Longrightarrow> g_next g \<le> g_next g' \<and> R (world g) (world g')"
begin

definition S :: "('cb, 'w) gsmd \<Rightarrow> ('cb, 'w) gsmd \<Rightarrow> bool" where
  "S g g' \<longleftrightarrow> g_next g \<le> g_next g' \<and> R (world g) (world g')"

lemma S_same: "g_next g' = g_next g \<Longrightarrow> world g' = world g \<Longrightarrow> S g g'"
  by (simp add: S_def R_refl)

lemma S_refl: "S g g"
  by (rule S_same; rule refl)

lemma S_trans: "S a b \<Longrightarrow> S b c \<Longrightarrow> S a c"
  using R_trans by (auto simp: S_def)

sublocale st: step_rel S
  by unfold_locales (rule S_refl, rule S_trans)

lemma run_cb_S: "st.keeps g (run_cb call cb cmd resp g)"
proof (cases cb)
  case Null_Wakeup_Cb
  then show ?thesis
    by (auto simp: run_cb_def null_wakeup_cb_def stop_timer_def intro!: st.keeps_return S_same split: option.split)
next
  case (Cb c)
  then show ?thesis using call_world [of c] by (simp add: run_cb_def st.keeps_def S_def)
qed

lemma S_mlbuf: "S g (g\<lparr>mlbuf_len := n\<rparr>)" "S g (g\<lparr>mlbuf := m\<rparr>)"
  by (simp_all add: S_same)

lemma final_response_S: "st.keeps g (final_response buf g)"
  unfolding final_response_def
  by (rule st.keeps_if, rule st.keeps_read, rule st.keeps_return, rule S_mlbuf, rule st.keeps_same)

lemma wake_S: "S g (if c then atcmd_wake_pending_queue g else g)"
  by (simp add: S_same atcmd_wake_pending_queue_def)

lemma busy_del_S: "S g (busy_del cmd g)"
  by (simp add: S_same busy_del_def)

lemma done_S: "st.keeps g (atcmd_done call g cmd buf)"
  unfolding atcmd_done_def Let_def
  by (rule st.keeps_bind, rule st.keeps_option, rule st.keeps_same, rule st.keeps_bind, rule final_response_S,
    rule st.keeps_bind, rule run_cb_S, rule st.keeps_return, rule S_mlbuf, rule st.keeps_trans, rule busy_del_S,
    rule st.keeps_return, rule wake_S)

lemma submit_S: "st.keeps g (atcmd_submit g c)"
  using atcmd_submit_world [of g c] R_refl by (simp add: st.keeps_def S_def)

lemma fill_S: "st.keeps g (atcmd_fill s n cb i g)"
  using atcmd_fill_world [of s n cb i g] R_refl by (simp add: st.keeps_def S_def)

lemma cancel_S: "st.keeps g (cancel_atcmd call g c)"
proof -
  have "S g ((if b then g\<lparr>mlbuf_len := 0\<rparr> else g)\<lparr>pending_atcmds := p\<rparr>)" for b p
    by (simp add: S_same)
  note this [THEN st.keeps_trans, OF done_S]
  then show ?thesis
    unfolding cancel_atcmd_def Let_def by (cases "busy_atcmds g") (simp_all add: submit_S)
qed

end

text \<open>The same for the parser and the functions of its environment.\<close>

locale world_env = world_calls "env_call env" R for env :: "('cb, 'w) at_env" and R +
  assumes unsol_world: "env_unsol env buf len g = Some (rc, g') \<Longrightarrow> g_next g \<le> g_next g' \<and> R (world g) (world g')"
    and cme_world: "env_cme env n g = Some (rc, g') \<Longrightarrow> g_next g \<le> g_next g' \<and> R (world g) (world g')"
    and cms_world: "env_cms env n g = Some (rc, g') \<Longrightarrow> g_next g \<le> g_next g' \<and> R (world g) (world g')"
    and init_world: "env_init env g = Some (rc, g') \<Longrightarrow> g_next g \<le> g_next g' \<and> R (world g) (world g')"
    and alive_world: "env_alive env g = Some (rc, g') \<Longrightarrow> g_next g \<le> g_next g' \<and> R (world g) (world g')"
begin

lemma env_S: "st.keeps g (env_unsol env buf len g)" "st.keeps g (env_cme env n g)" "st.keeps g (env_cms env n g)"
  "st.keeps g (env_init env g)" "st.keeps g (env_alive env g)"
  using unsol_world cme_world cms_world init_world alive_world by (auto simp: st.keeps_def S_def)

lemma ml_final_S: "st.keeps g (ml_final env a b buf cmd g)"
  unfolding ml_final_def
  by (intro st.keeps_option st.keeps_bind st.keeps_if st.keeps_same env_S done_S)

lemma set_ret_final_S: "st.keeps g (set_ret_final env r a b buf cmd g)"
proof (cases cmd)
  case (Some c)
  then show ?thesis
    by (simp add: set_ret_final_def set_ret_def Let_def busy_update_def st.keeps_trans [OF S_same ml_final_S])
qed (simp add: set_ret_final_def set_ret_def ml_final_def st.keeps_same)

lemma ml_append_S: "st.keeps g (ml_append env arr len rc g)"
proof -
  have pre: "st.keeps g (do { h \<leftarrow> (if c then do { m \<leftarrow> w; Some (g\<lparr>mlbuf := m, mlbuf_len := n\<rparr>) } else Some g); f h })"
    if f: "\<And>h. st.keeps h (f h)" for c w n and f :: "('cb, 'w) gsmd \<Rightarrow> ('x \<times> ('cb, 'w) gsmd) option"
  proof (cases c)
    case True
    have "st.keeps g (f (g\<lparr>mlbuf := m, mlbuf_len := n\<rparr>))" for m
      by (rule st.keeps_trans [OF S_same f]) simp_all
    then show ?thesis using True by (cases w) (simp_all add: st.keeps_None)
  qed (simp add: f)
  have rest: "st.keeps h (if mlunsolicited h then do {
       s \<leftarrow> c_str_at (mlbuf h);
       (rc, g) \<leftarrow> env_unsol env s (mlbuf_len h) h;
       if rc = - EAGAIN then Some (0, g) else Some (rc, g\<lparr>mlunsolicited := False, mlbuf_len := 0\<rparr>)
     }
     else Some (r, h))" for h r
    by (rule st.keeps_if, rule st.keeps_read, rule st.keeps_bind, rule env_S, rule st.keeps_if, rule st.keeps_same,
        rule st.keeps_return, rule S_same, simp, simp, rule st.keeps_same)
  show ?thesis
    unfolding ml_append_def Let_def
    by (rule pre, rule st.keeps_read, rule st.keeps_read, rule st.keeps_trans [OF _ rest]) (simp add: S_same)
qed

lemma ml_flush_S: "st.keeps g (ml_flush env c rc g)"
  unfolding ml_flush_def
  by (rule st.keeps_if, rule st.keeps_bind, rule st.keeps_option, rule st.keeps_same, rule st.keeps_read, rule run_cb_S,
    rule st.keeps_return, rule S_mlbuf, rule st.keeps_same)

lemma ml_extended_S: "st.keeps g (ml_extended env buf arr len colon cmd g)"
  unfolding ml_extended_def
  by (rule st.keeps_if, rule set_ret_final_S, rule st.keeps_if, rule set_ret_final_S, rule st.keeps_read, rule st.keeps_bind,
    rule st.keeps_if, rule env_S, rule st.keeps_same, rule st.keeps_if, rule st.keeps_read, rule st.keeps_read,
    rule st.keeps_return, rule S_same, simp, simp, rule st.keeps_if, rule st.keeps_same, rule st.keeps_option,
    rule ml_append_S, rule st.keeps_read, rule st.keeps_if, rule st.keeps_same, rule st.keeps_bind, rule ml_flush_S,
    rule ml_append_S)

lemma ml_basic_S: "st.keeps g (ml_basic env buf arr len cmd g)"
  unfolding ml_basic_def by (intro st.keeps_if env_S set_ret_final_S ml_final_S ml_append_S)

lemma parse_S: "st.keeps g (ml_parse env arr len g)"
proof -
  have "st.keeps g (do { (x, g) \<leftarrow> env_init env (g\<lparr>interpreter_ready := True\<rparr>); (y, g) \<leftarrow> env_alive env g; Some (0, g) })"
    by (rule st.keeps_trans [OF S_same [of "g\<lparr>interpreter_ready := True\<rparr>"]]) (auto intro!: st.keeps_bind env_S st.keeps_same)
  note start = this
  show ?thesis
    unfolding ml_parse_def Let_def
    by (rule st.keeps_read, rule st.keeps_if, rule start, rule st.keeps_read, rule st.keeps_if, rule st.keeps_same,
      rule st.keeps_if, rule st.keeps_option, rule st.keeps_same, rule ml_extended_S, rule ml_basic_S)
qed

lemma parse_world:
  "ml_parse env arr len g = Some (rc, g') \<Longrightarrow> g_next g \<le> g_next g' \<and> R (world g) (world g')"
  using st.keepsD [OF parse_S] by (simp add: S_def)

end

end
