(* ===== verification/Operator_Cache.thy ===== *)
theory Operator_Cache
  imports Llist C_String
begin

text \<open>
  The cache of operator names, \<^verbatim>\<open>gsm/src/gsmd/operator_cache.c\<close>: a list of \<open>struct opname\<close> in the heap, with
  at most one entry for a pair of country and network code. \<open>oc_obj\<close> holds the objects (\<open>None\<close> for freed
  memory). What \<open>talloc\<close> returns is an argument: NULL, or an address with the octets that the memory
  happens to hold.
\<close>

record opname =
  op_mcc :: u16
  op_mnc :: u8
  op_alnum_long :: string

record opcache =
  oc_head :: ptr
  oc_links :: links
  oc_obj :: "ptr \<Rightarrow> opname option"

definition same_network :: "opname \<Rightarrow> opname \<Rightarrow> bool" where
  "same_network op cur \<longleftrightarrow> op_mcc op = op_mcc cur \<and> op_mnc op = op_mnc cur"

text \<open>
  \<open>_opname_add\<close>: the body of the loop deletes and frees an entry for the same network. (Every entry of
  a well-formed cache has an object; the skipped case \<open>None\<close> is freed memory.)
\<close>

definition opname_body :: "opname \<Rightarrow> ptr \<Rightarrow> opcache \<Rightarrow> opcache" where
  "opname_body op cur g =
     (case oc_obj g cur of
        None \<Rightarrow> g
      | Some c \<Rightarrow>
          if same_network op c
          then g\<lparr>oc_links := llist_del (oc_links g) cur, oc_obj := (oc_obj g)(cur := None)\<rparr>
          else g)"

definition opname_add :: "ptr \<Rightarrow> opname \<Rightarrow> opcache \<Rightarrow> (int \<times> opcache) option" where
  "opname_add p op g = do {
     g \<leftarrow> llist_for_each_entry_safe oc_links (opname_body op) (oc_head g) g;
     Some (0, g\<lparr>oc_links := llist_add_tail (oc_links g) p (oc_head g)\<rparr>)
   }"

text \<open>\<open>sizeof(op->alnum_long-1)\<close> is the size of a pointer.\<close>

abbreviation (input) sizeof_pointer :: nat where "sizeof_pointer \<equiv> 4"

definition gsmd_opname_add ::
  "(ptr \<times> string) option \<Rightarrow> opcache \<Rightarrow> string \<Rightarrow> string \<Rightarrow> (int \<times> opcache) option" where
  "gsmd_opname_add alloc g numeric_bcd_string alnum_long =
     (if length numeric_bcd_string \<noteq> 5 then Some (- EINVAL, g)
      else case alloc of
        None \<Rightarrow> Some (- ENOMEM, g)
      | Some (p, old) \<Rightarrow> do {
          let mcc = take 3 numeric_bcd_string;
          let mnc = take 2 (drop 3 numeric_bcd_string);
          name \<leftarrow> c_strncpy old alnum_long sizeof_pointer;
          let op = \<lparr>op_mcc = word_of_int (c_atoi mcc), op_mnc = word_of_int (c_atoi mnc), op_alnum_long = name\<rparr>;
          opname_add p op (g\<lparr>oc_obj := (oc_obj g)(p := Some op)\<rparr>)
        })"

definition gsmd_opname_init :: "opcache \<Rightarrow> opcache" where
  "gsmd_opname_init g = g\<lparr>oc_links := INIT_LLIST_HEAD (oc_links g) (oc_head g)\<rparr>"

section \<open>The cache as a list of entries\<close>

text \<open>\<open>wf_opcache g xs\<close>: the entries at the addresses \<open>xs\<close>, all live, one for each network.\<close>

definition oc_entry :: "opcache \<Rightarrow> ptr \<Rightarrow> opname" where
  "oc_entry g x = the (oc_obj g x)"

definition oc_key :: "opname \<Rightarrow> u16 \<times> u8" where
  "oc_key op = (op_mcc op, op_mnc op)"

definition wf_opcache :: "opcache \<Rightarrow> ptr list \<Rightarrow> bool" where
  "wf_opcache g xs \<longleftrightarrow> dl_list (oc_links g) (oc_head g) xs \<and> (\<forall>x \<in> set xs. oc_obj g x \<noteq> None) \<and>
     distinct (map (\<lambda>x. oc_key (oc_entry g x)) xs)"

lemma same_network_key: "same_network a b \<longleftrightarrow> oc_key a = oc_key b"
  by (auto simp: same_network_def oc_key_def)

lemma opname_body_loop:
  assumes l: "dl_list (oc_links g) (oc_head g) xs" and live: "\<forall>x \<in> set xs. oc_obj g x \<noteq> None"
  defines "hit \<equiv> \<lambda>op x. same_network op (oc_entry g x)"
  shows "\<exists>g'. llist_for_each_entry_safe oc_links (opname_body op) (oc_head g) g = Some g' \<and>
     dl_list (oc_links g') (oc_head g) (filter (\<lambda>x. \<not> hit op x) xs) \<and> oc_head g' = oc_head g \<and>
     (\<forall>x. oc_obj g' x = (if x \<in> set xs \<and> hit op x then None else oc_obj g x))"
proof -
  define I where "I = (\<lambda>rest (g' :: opcache). oc_head g' = oc_head g \<and> set rest \<subseteq> set xs \<and>
      (\<forall>x. oc_obj g' x = (if x \<in> set xs \<and> x \<notin> set rest \<and> hit op x then None else oc_obj g x)))"
  let ?b = "opname_body op"
  have step: "dl_list (oc_links (?b e s)) (oc_head g) (kept @ (if hit op e then [] else [e]) @ rest) \<and> I rest (?b e s)"
    if d: "dl_list (oc_links s) (oc_head g) (kept @ e # rest)" and i: "I (e # rest) s" for e kept rest s
  proof -
    have "e \<notin> set rest" using dl_list_distinct [OF d] by auto
    moreover obtain c where c: "oc_obj g e = Some c" "oc_obj s e = Some c"
      using i live by (auto simp: I_def)
    ultimately show ?thesis
      using d i dl_list_del [OF d] by (auto simp: opname_body_def I_def hit_def oc_entry_def)
  qed
  have "I xs g" by (auto simp: I_def)
  have "llist_for_each_entry_safe oc_links ?b (oc_head g) g = Some (fold ?b xs g) \<and>
      dl_list (oc_links (fold ?b xs g)) (oc_head g) (filter (\<lambda>x. \<not> hit op x) xs) \<and> I [] (fold ?b xs g)"
    by (rule llist_for_each_safe_filter [where I = I and P = "hit op"]) (use step l \<open>I xs g\<close> in auto)
  then show ?thesis by (auto simp: I_def)
qed

section \<open>Properties\<close>

text \<open>C32: Adding the name of a network to a well-formed cache keeps the cache well-formed, with one entry
  for each network: the old entries for this network are gone (and freed), the others keep their order
  and their contents, and the new entry is the last.
\<close>

theorem gsmd_opname_add_replaces:
  assumes wf: "wf_opcache g xs" and p: "p \<notin> set (oc_head g # xs)" "length old = 17"
    and num: "length num = 5"
  defines "k \<equiv> (word_of_int (c_atoi (take 3 num)), word_of_int (c_atoi (drop 3 num)))"
  defines "keep \<equiv> filter (\<lambda>x. oc_key (oc_entry g x) \<noteq> k) xs"
  shows "\<exists>g'. gsmd_opname_add (Some (p, old)) g num name = Some (0, g') \<and>
     wf_opcache g' (keep @ [p]) \<and> oc_key (oc_entry g' p) = k \<and>
     (\<forall>x \<in> set keep. oc_obj g' x = oc_obj g x)"
proof -
  have "c_strncpy old name 4 \<noteq> None"
    using p(2) by (simp add: c_strncpy_def wrn_eq_None min_def)
  then obtain nm where nm: "c_strncpy old name 4 = Some nm" by auto
  let ?op = "\<lparr>op_mcc = fst k, op_mnc = snd k, op_alnum_long = nm\<rparr>"
  let ?g = "g\<lparr>oc_obj := (oc_obj g)(p := Some ?op)\<rparr>"
  have same: "oc_entry ?g x = oc_entry g x" "oc_obj ?g x = oc_obj g x" if "x \<in> set xs" for x
    using that p(1) by (auto simp: oc_entry_def)
  have l: "dl_list (oc_links ?g) (oc_head ?g) xs" "\<forall>x \<in> set xs. oc_obj ?g x \<noteq> None"
    using wf same by (auto simp: wf_opcache_def)
  have hit: "filter (\<lambda>x. \<not> same_network ?op (oc_entry ?g x)) xs = keep"
    unfolding keep_def using same(1) by (intro filter_cong) (auto simp: same_network_key oc_key_def)
  obtain g1 where g1: "llist_for_each_entry_safe oc_links (opname_body ?op) (oc_head ?g) ?g = Some g1"
      "dl_list (oc_links g1) (oc_head g) keep" "oc_head g1 = oc_head g"
      "\<forall>x. oc_obj g1 x = (if x \<in> set xs \<and> same_network ?op (oc_entry ?g x) then None else oc_obj ?g x)"
    using opname_body_loop [OF l, of ?op] unfolding hit by auto
  let ?g' = "g1\<lparr>oc_links := llist_add_tail (oc_links g1) p (oc_head g1)\<rparr>"
  have "take 2 (drop 3 num) = drop 3 num" using num by simp
  then have run: "gsmd_opname_add (Some (p, old)) g num name = Some (0, ?g')"
    using num nm g1(1) by (simp add: gsmd_opname_add_def Let_def opname_add_def k_def)
  have ko: "\<forall>x \<in> set keep. oc_obj g1 x = oc_obj g x" and po: "oc_obj g1 p = Some ?op"
    using g1(4) same p(1) by (auto simp: keep_def same_network_key oc_key_def)
  have "map (\<lambda>x. oc_key (oc_entry ?g' x)) (keep @ [p]) = map (\<lambda>x. oc_key (oc_entry g x)) keep @ [k]"
    using ko po by (simp add: oc_entry_def oc_key_def)
  moreover have "distinct (map (\<lambda>x. oc_key (oc_entry g x)) keep @ [k])"
    using wf unfolding keep_def wf_opcache_def by (auto intro: distinct_map_filter)
  moreover have "dl_list (oc_links ?g') (oc_head ?g') (keep @ [p])"
    using lq.rep_put [OF g1(2), of p] p(1) g1(3) by (auto simp: keep_def)
  moreover have "\<forall>x \<in> set (keep @ [p]). oc_obj ?g' x \<noteq> None"
    using ko po wf by (auto simp: wf_opcache_def keep_def)
  ultimately have "wf_opcache ?g' (keep @ [p])"
    unfolding wf_opcache_def by (simp only:)
  then show ?thesis using run ko po by (auto simp: oc_entry_def oc_key_def)
qed

definition ex_opcache :: opcache where
  "ex_opcache = gsmd_opname_init \<lparr>oc_head = 1, oc_links = \<lparr>nxt = id, prv = id\<rparr>, oc_obj = (\<lambda>_. None)\<rparr>"

lemma wf_ex_opcache: "wf_opcache ex_opcache []"
  by (simp add: ex_opcache_def gsmd_opname_init_def wf_opcache_def dl_list_init)

theorem gsmd_opname_add_replaces_witness:
  "\<exists>g'. gsmd_opname_add (Some (2, replicate 17 NUL)) ex_opcache ''26201'' ''T-Mobile'' = Some (0, g') \<and>
     wf_opcache g' [2] \<and> oc_key (oc_entry g' 2) = (262, 1)"
proof -
  have k: "(word_of_int (c_atoi (take 3 ''26201'')), word_of_int (c_atoi (drop 3 ''26201''))) = (262 :: u16, 1 :: u8)"
    by code_simp
  have "2 \<notin> set (oc_head ex_opcache # [])" by (simp add: ex_opcache_def gsmd_opname_init_def)
  from gsmd_opname_add_replaces [OF wf_ex_opcache this, of "replicate 17 NUL" "''26201''" "''T-Mobile''"]
  show ?thesis unfolding k by auto
qed

text \<open>
  Of the operator's name only the first four characters are stored, without a terminating NUL:
  what follows them is what the allocated memory held before.
\<close>

theorem opname_truncated:
  assumes "wf_opcache g xs" "p \<notin> set (oc_head g # xs)" "length old = 17" "length num = 5" "4 \<le> length name"
    and run: "gsmd_opname_add (Some (p, old)) g num name = Some (rc, g')"
  shows "op_alnum_long (oc_entry g' p) = take 4 name @ drop 4 old"
proof -
  let ?op = "\<lparr>op_mcc = word_of_int (c_atoi (take 3 num)), op_mnc = word_of_int (c_atoi (take 2 (drop 3 num))),
     op_alnum_long = take 4 name @ drop 4 old\<rparr>"
  let ?g = "g\<lparr>oc_obj := (oc_obj g)(p := Some ?op)\<rparr>"
  have l: "dl_list (oc_links ?g) (oc_head ?g) xs" "\<forall>x \<in> set xs. oc_obj ?g x \<noteq> None"
    using assms(1) by (auto simp: wf_opcache_def)
  have nm: "c_strncpy old name 4 = Some (take 4 name @ drop 4 old)"
    using assms(3,5) by (simp add: c_strncpy_def wrn_def)
  have "gsmd_opname_add (Some (p, old)) g num name = opname_add p ?op ?g"
    using assms(4) nm by (simp add: gsmd_opname_add_def Let_def)
  moreover obtain g1 where "llist_for_each_entry_safe oc_links (opname_body ?op) (oc_head ?g) ?g = Some g1"
      "\<forall>x. oc_obj g1 x = (if x \<in> set xs \<and> same_network ?op (oc_entry ?g x) then None else oc_obj ?g x)"
    using opname_body_loop [OF l, of ?op] by auto
  ultimately show ?thesis
    using run assms(2) by (auto simp: opname_add_def oc_entry_def)
qed

theorem opname_truncated_witness:
  "\<forall>rc g'. gsmd_opname_add (Some (2, replicate 17 CHR ''x'')) ex_opcache ''26201'' ''T-Mobile'' = Some (rc, g') \<longrightarrow>
     op_alnum_long (oc_entry g' 2) = ''T-Moxxxxxxxxxxxxx''"
proof (intro allI impI)
  fix rc g' assume r: "gsmd_opname_add (Some (2, replicate 17 CHR ''x'')) ex_opcache ''26201'' ''T-Mobile'' = Some (rc, g')"
  have "2 \<notin> set (oc_head ex_opcache # [])" by (simp add: ex_opcache_def gsmd_opname_init_def)
  from opname_truncated [OF wf_ex_opcache this _ _ _ r]
  show "op_alnum_long (oc_entry g' 2) = ''T-Moxxxxxxxxxxxxx''" by (simp add: numeral_eq_Suc)
qed

end
