(* ===== verification/Ext_Response.thy ===== *)
theory Ext_Response
  imports C_String
begin

text \<open>
  \<^verbatim>\<open>gsm/src/gsmd/ext_response.c\<close> and \<^verbatim>\<open>extrsp.h\<close>: the parser of comma separated responses (numbers, quoted
  strings, ranges). The value \<open>None\<close> is an access outside of one of its fixed arrays. A token is a
  structure with a tag and a union; the parser uses the member that the tag names.
\<close>

datatype gsm_extrsp_tok_type =
  GSMD_ECMD_RTT_NONE | GSMD_ECMD_RTT_EMPTY | GSMD_ECMD_RTT_NUMERIC | GSMD_ECMD_RTT_STRING | GSMD_ECMD_RTT_RANGE

abbreviation (input) GSM_EXTRSP_MAX_TOKENS :: nat where "GSM_EXTRSP_MAX_TOKENS \<equiv> 16"
abbreviation (input) GSM_EXTRSP_MAX_RANGES :: nat where "GSM_EXTRSP_MAX_RANGES \<equiv> 16"
abbreviation (input) EXTRSP_BUF :: nat where "EXTRSP_BUF \<equiv> 512"
abbreviation (input) EXTRSP_STRING :: nat where "EXTRSP_STRING \<equiv> 64"

record gsm_extrsp_tok =
  tok_type :: gsm_extrsp_tok_type
  range_item :: "(int \<times> int) list"
  num_items :: nat
  tok_string :: string
  tok_numeric :: int

record gsm_extrsp =
  num_tokens :: nat
  tokens :: "gsm_extrsp_tok list"

definition tok0 :: gsm_extrsp_tok where
  "tok0 = \<lparr>tok_type = GSMD_ECMD_RTT_NONE, range_item = replicate GSM_EXTRSP_MAX_RANGES (0, 0), num_items = 0,
     tok_string = replicate EXTRSP_STRING NUL, tok_numeric = 0\<rparr>"

definition extrsp_supports :: "gsm_extrsp \<Rightarrow> nat \<Rightarrow> int \<Rightarrow> int option" where
  "extrsp_supports er index val =
     (if index \<ge> num_tokens er then Some (- EINVAL)
      else do {
        t \<leftarrow> rd (tokens er) index;
        if tok_type t \<noteq> GSMD_ECMD_RTT_RANGE then Some (- EINVAL)
        else do {
          items \<leftarrow> rdn (range_item t) 0 (num_items t);
          Some (if \<exists>r \<in> set items. val \<ge> fst r \<and> val \<le> snd r then 1 else 0)
        }
      })"

section \<open>The parser\<close>

datatype parser_state = IDLE | TOKEN_STRING | TOKEN_STRING_LASTQUOTE | TOKEN_NUMERIC | TOKEN_RANGE

record ext_st =
  es_state :: parser_state
  es_buf :: string
  es_cur :: nat
  es_er :: gsm_extrsp

definition is_blank :: "char \<Rightarrow> bool" where
  "is_blank c \<longleftrightarrow> c = CHR '' '' \<or> char_code c = 9"

definition put_char :: "char \<Rightarrow> ext_st \<Rightarrow> ext_st option" where
  "put_char c s = do {
     b \<leftarrow> wr (es_buf s) (es_cur s) c;
     Some (s\<lparr>es_buf := b, es_cur := es_cur s + 1\<rparr>)
   }"

definition clear_buf :: "ext_st \<Rightarrow> ext_st" where
  "clear_buf s = s\<lparr>es_buf := replicate EXTRSP_BUF NUL, es_cur := 0\<rparr>"

text \<open>A change of the current token.\<close>

definition upd_tok :: "(gsm_extrsp_tok \<Rightarrow> gsm_extrsp_tok option) \<Rightarrow> ext_st \<Rightarrow> ext_st option" where
  "upd_tok f s = do {
     t \<leftarrow> rd (tokens (es_er s)) (num_tokens (es_er s));
     t' \<leftarrow> f t;
     Some (s\<lparr>es_er := (es_er s)\<lparr>tokens := (tokens (es_er s))[num_tokens (es_er s) := t']\<rparr>\<rparr>)
   }"

definition next_tok :: "parser_state \<Rightarrow> ext_st \<Rightarrow> ext_st" where
  "next_tok st s = s\<lparr>es_er := (es_er s)\<lparr>num_tokens := num_tokens (es_er s) + 1\<rparr>, es_state := st\<rparr>"

definition ext_idle :: "char \<Rightarrow> ext_st \<Rightarrow> ext_st option" where
  "ext_idle c s =
     (let s = clear_buf s
      in if is_blank c then Some s
         else if c = CHR 0x22 then
           map_option (es_state_update (\<lambda>_. TOKEN_STRING)) (upd_tok (\<lambda>t. Some (t\<lparr>tok_type := GSMD_ECMD_RTT_STRING\<rparr>)) s)
         else if c = CHR ''('' then
           map_option (es_state_update (\<lambda>_. TOKEN_RANGE)) (upd_tok (\<lambda>t. Some (t\<lparr>tok_type := GSMD_ECMD_RTT_RANGE\<rparr>)) s)
         else if is_digit c then do {
           s \<leftarrow> upd_tok (\<lambda>t. Some (t\<lparr>tok_type := GSMD_ECMD_RTT_NUMERIC\<rparr>)) s;
           s \<leftarrow> put_char c s;
           Some (s\<lparr>es_state := TOKEN_NUMERIC\<rparr>)
         }
         else if c = CHR '','' then
           map_option (next_tok IDLE) (upd_tok (\<lambda>t. Some (t\<lparr>tok_type := GSMD_ECMD_RTT_EMPTY\<rparr>)) s)
         else Some s)"

definition ext_numeric :: "char \<Rightarrow> ext_st \<Rightarrow> ext_st option" where
  "ext_numeric c s =
     (if c = CHR '','' then do {
        n \<leftarrow> c_str_at (es_buf s);
        s \<leftarrow> upd_tok (\<lambda>t. Some (t\<lparr>tok_numeric := c_atoi n\<rparr>)) s;
        Some (next_tok IDLE s)
      }
      else if is_digit c then put_char c s
      else Some s)"

definition ext_string :: "char \<Rightarrow> ext_st \<Rightarrow> ext_st option" where
  "ext_string c s =
     (if c = CHR 0x22 then do {
        b \<leftarrow> c_str_at (es_buf s);
        let len = min (length b) (EXTRSP_STRING - 1);
        s \<leftarrow> upd_tok (\<lambda>t. map_option (\<lambda>x. t\<lparr>tok_string := x\<rparr>) (wrn (tok_string t) 0 (take len b))) s;
        Some (next_tok TOKEN_STRING_LASTQUOTE s)
      }
      else put_char c s)"

text \<open>
  Ranges. A minus sign ends the lower bound and clears the buffer; a comma ends the upper bound and
  does not clear it.
\<close>

definition set_min :: "int \<Rightarrow> gsm_extrsp_tok \<Rightarrow> gsm_extrsp_tok option" where
  "set_min n t = do {
     r \<leftarrow> rd (range_item t) (num_items t);
     Some (t\<lparr>range_item := (range_item t)[num_items t := (n, snd r)]\<rparr>)
   }"

definition set_max :: "int \<Rightarrow> gsm_extrsp_tok \<Rightarrow> gsm_extrsp_tok option" where
  "set_max n t = do {
     r \<leftarrow> rd (range_item t) (num_items t);
     Some (t\<lparr>range_item := (range_item t)[num_items t := (fst r, n)], num_items := num_items t + 1\<rparr>)
   }"

definition ext_range :: "char \<Rightarrow> ext_st \<Rightarrow> ext_st option" where
  "ext_range c s =
     (if is_digit c then put_char c s
      else if c = CHR ''-'' then do {
        n \<leftarrow> c_str_at (es_buf s);
        s \<leftarrow> upd_tok (set_min (c_atoi n)) s;
        Some (clear_buf s)
      }
      else if c = CHR '','' then do {
        n \<leftarrow> c_str_at (es_buf s);
        upd_tok (set_max (c_atoi n)) s
      }
      else if c = CHR '')'' then do {
        n \<leftarrow> c_str_at (es_buf s);
        s \<leftarrow> upd_tok (set_max (c_atoi n)) s;
        Some (next_tok TOKEN_STRING_LASTQUOTE s)
      }
      else Some s)"

definition ext_char :: "char \<Rightarrow> ext_st \<Rightarrow> ext_st option" where
  "ext_char c s =
     (case es_state s of
        IDLE \<Rightarrow> ext_idle c s
      | TOKEN_NUMERIC \<Rightarrow> ext_numeric c s
      | TOKEN_STRING \<Rightarrow> ext_string c s
      | TOKEN_STRING_LASTQUOTE \<Rightarrow> Some (if c = CHR '','' then s\<lparr>es_state := IDLE\<rparr> else s)
      | TOKEN_RANGE \<Rightarrow> ext_range c s)"

fun ext_chars_loop :: "string \<Rightarrow> ext_st \<Rightarrow> ext_st option" where
  "ext_chars_loop [] s = Some s"
| "ext_chars_loop (c # cs) s = do { s \<leftarrow> ext_char c s; ext_chars_loop cs s }"

text \<open>
  \<open>extrsp_parse\<close>: \<open>input\<close> is NULL or a C string, \<open>ok\<close> the result of the allocation; the value \<open>Some None\<close>
  is the result NULL. The buffer is not initialised before the first character is looked at, which
  happens in the state IDLE and clears it.
\<close>

definition extrsp_parse :: "bool \<Rightarrow> string option \<Rightarrow> gsm_extrsp option option" where
  "extrsp_parse ok input =
     (case input of
        None \<Rightarrow> Some None
      | Some inp \<Rightarrow>
          if inp = [] \<or> \<not> ok then Some None
          else do {
            s \<leftarrow> ext_chars_loop inp \<lparr>es_state = IDLE, es_buf = replicate EXTRSP_BUF NUL, es_cur = 0,
                   es_er = \<lparr>num_tokens = 0, tokens = replicate GSM_EXTRSP_MAX_TOKENS tok0\<rparr>\<rparr>;
            Some (Some (es_er s))
          })"

section \<open>Lemmas\<close>

lemma ext_loop_append: "ext_chars_loop (a @ b) s = Option.bind (ext_chars_loop a s) (ext_chars_loop b)"
  by (induction a arbitrary: s) (auto split: bind_splits)

text \<open>The characters of a quoted string.\<close>

lemma ext_string_chars:
  assumes "CHR 0x22 \<notin> set u" "es_state s = TOKEN_STRING" "length (es_buf s) = EXTRSP_BUF"
    "es_buf s = v @ replicate (EXTRSP_BUF - length v) NUL" "es_cur s = length v" "length v + length u < EXTRSP_BUF"
  shows "ext_chars_loop u s =
    Some (s\<lparr>es_buf := v @ u @ replicate (EXTRSP_BUF - length v - length u) NUL, es_cur := length v + length u\<rparr>)"
  using assms
proof (induction u arbitrary: s v)
  case Nil
  then show ?case by (cases s) simp
next
  case (Cons c u)
  let ?s = "s\<lparr>es_buf := (v @ [c]) @ replicate (EXTRSP_BUF - length (v @ [c])) NUL, es_cur := length (v @ [c])\<rparr>"
  obtain k where k: "EXTRSP_BUF - length v = Suc k" using Cons.prems(6) by (metis Suc_diff_Suc add_lessD1)
  have "(es_buf s)[length v := c] = (v @ [c]) @ replicate (EXTRSP_BUF - length (v @ [c])) NUL"
    using Cons.prems(4) k by (simp add: list_update_append)
  moreover have "c \<noteq> CHR 0x22" using Cons.prems(1) by auto
  ultimately have step: "ext_char c s = Some ?s"
    using Cons.prems by (simp add: ext_char_def ext_string_def put_char_def wr_def del: append_assoc)
  have "ext_chars_loop u ?s = Some (?s\<lparr>es_buf := (v @ [c]) @ u @ replicate (EXTRSP_BUF - length (v @ [c]) - length u) NUL,
      es_cur := length (v @ [c]) + length u\<rparr>)"
    by (rule Cons.IH) (use Cons.prems in \<open>simp_all\<close>)
  then show ?case using step by simp
qed

definition quoted :: "string \<Rightarrow> string" where
  "quoted u = CHR 0x22 # u @ [CHR 0x22]"

fun csv :: "string list \<Rightarrow> string" where
  "csv [] = []"
| "csv [x] = x"
| "csv (x # y # xs) = x @ CHR '','' # csv (y # xs)"

definition string_tok :: "string \<Rightarrow> gsm_extrsp_tok" where
  "string_tok u = tok0\<lparr>tok_type := GSMD_ECMD_RTT_STRING, tok_string := u @ replicate (EXTRSP_STRING - length u) NUL\<rparr>"

definition short_text :: "string \<Rightarrow> bool" where
  "short_text u \<longleftrightarrow> CHR 0x22 \<notin> set u \<and> NUL \<notin> set u \<and> length u < EXTRSP_STRING"

definition toks_of :: "string list \<Rightarrow> gsm_extrsp" where
  "toks_of us = \<lparr>num_tokens = length us, tokens = map string_tok us @ replicate (GSM_EXTRSP_MAX_TOKENS - length us) tok0\<rparr>"

lemma ext_string_item:
  assumes "es_state s = IDLE" "es_er s = toks_of us" "length us < GSM_EXTRSP_MAX_TOKENS" "short_text u"
  obtains s' where "ext_chars_loop (quoted u) s = Some s'" "es_state s' = TOKEN_STRING_LASTQUOTE" "es_er s' = toks_of (us @ [u])"
proof -
  obtain k where k: "GSM_EXTRSP_MAX_TOKENS - length us = Suc k" using assms(3) by (metis Suc_diff_Suc)
  let ?t = "tok0\<lparr>tok_type := GSMD_ECMD_RTT_STRING\<rparr>"
  define s1 where "s1 = (clear_buf s)\<lparr>es_er := \<lparr>num_tokens = length us, tokens = map string_tok us @ ?t # replicate k tok0\<rparr>,
     es_state := TOKEN_STRING\<rparr>"
  have 1: "ext_char CHR 0x22 s = Some s1"
    using assms(1-3) k by (simp add: ext_char_def ext_idle_def is_blank_def char_code_def upd_tok_def rd_def toks_of_def
      nth_append list_update_append clear_buf_def s1_def)
  define s2 where "s2 = s1\<lparr>es_buf := [] @ u @ replicate (EXTRSP_BUF - length ([] :: string) - length u) NUL,
     es_cur := length ([] :: string) + length u\<rparr>"
  have 2: "ext_chars_loop u s1 = Some s2" unfolding s2_def
    by (rule ext_string_chars) (use assms(4) in \<open>simp_all add: s1_def clear_buf_def short_text_def\<close>)
  have b: "c_str_at (es_buf s2) = Some u"
    using assms(4) by (auto simp: s2_def c_str_at_def short_text_def)
  have u: "take (min (length u) 63) u = u" using assms(4) by (simp add: short_text_def)
  have w: "wrn (tok_string tok0) 0 u = Some (u @ replicate (EXTRSP_STRING - length u) NUL)"
    using assms(4) by (simp add: wrn_def tok0_def short_text_def)
  have t: "rd (tokens (es_er s2)) (num_tokens (es_er s2)) = Some ?t" "num_tokens (es_er s2) = length us"
    "(tokens (es_er s2))[length us := x] = map string_tok us @ x # replicate k tok0" "es_state s2 = TOKEN_STRING" for x
    by (simp_all add: s2_def s1_def rd_def nth_append list_update_append)
  have "?t\<lparr>tok_string := u @ replicate (EXTRSP_STRING - length u) NUL\<rparr> = string_tok u"
    by (simp add: string_tok_def)
  moreover have "GSM_EXTRSP_MAX_TOKENS - length (us @ [u]) = k" using k by simp
  ultimately have 3: "\<exists>s'. ext_char CHR 0x22 s2 = Some s' \<and> es_state s' = TOKEN_STRING_LASTQUOTE \<and> es_er s' = toks_of (us @ [u])"
    using t(1) by (simp add: ext_char_def t(2-) ext_string_def b u w upd_tok_def next_tok_def toks_of_def Let_def)
  then show thesis using that 1 2 by (auto simp: quoted_def ext_loop_append)
qed

lemma ext_strings:
  assumes "es_state s = IDLE" "es_er s = toks_of us" "length us + length vs \<le> GSM_EXTRSP_MAX_TOKENS" "vs \<noteq> []"
    "\<forall>u \<in> set vs. short_text u"
  shows "\<exists>s'. ext_chars_loop (csv (map quoted vs)) s = Some s' \<and> es_er s' = toks_of (us @ vs)"
  using assms
proof (induction vs arbitrary: s us)
  case (Cons u vs)
  obtain s' where 1: "ext_chars_loop (quoted u) s = Some s'" "es_state s' = TOKEN_STRING_LASTQUOTE" "es_er s' = toks_of (us @ [u])"
    by (rule ext_string_item [OF Cons.prems(1,2), of u]) (use Cons.prems in auto)
  show ?case
  proof (cases vs)
    case Nil
    then show ?thesis using 1 by simp
  next
    case (Cons v ws)
    let ?s = "s'\<lparr>es_state := IDLE\<rparr>"
    have 2: "\<exists>s''. ext_chars_loop (csv (map quoted vs)) ?s = Some s'' \<and> es_er s'' = toks_of ((us @ [u]) @ vs)"
      by (rule Cons.IH) (use 1 Cons.prems \<open>vs = v # ws\<close> in auto)
    have "ext_char CHR '','' s' = Some ?s" using 1(2) by (simp add: ext_char_def)
    then have "ext_chars_loop (csv (map quoted (u # vs))) s = ext_chars_loop (csv (map quoted vs)) ?s"
      using 1(1) by (simp add: \<open>vs = v # ws\<close> ext_loop_append)
    then show ?thesis using 2 by simp
  qed
qed simp

section \<open>Properties\<close>

text \<open>C33: A response of quoted strings, separated by commas, is parsed to exactly these strings: at most 16 of
  them, each shorter than 64 characters.
\<close>

theorem extrsp_strings_roundtrip:
  assumes "vs \<noteq> []" "length vs \<le> GSM_EXTRSP_MAX_TOKENS" "\<forall>u \<in> set vs. short_text u"
  shows "\<exists>er. extrsp_parse True (Some (csv (map quoted vs))) = Some (Some er) \<and> num_tokens er = length vs \<and>
     (\<forall>i < length vs. tok_type (tokens er ! i) = GSMD_ECMD_RTT_STRING \<and> c_str (tok_string (tokens er ! i)) = vs ! i)"
proof -
  let ?s = "\<lparr>es_state = IDLE, es_buf = replicate EXTRSP_BUF NUL, es_cur = 0,
     es_er = \<lparr>num_tokens = 0, tokens = replicate GSM_EXTRSP_MAX_TOKENS tok0\<rparr>\<rparr>"
  have e: "csv (map quoted vs) \<noteq> []" using assms(1) by (cases vs; cases "tl vs") (auto simp: quoted_def)
  obtain s' where s': "ext_chars_loop (csv (map quoted vs)) ?s = Some s'" "es_er s' = toks_of ([] @ vs)"
    using ext_strings [of ?s "[]" vs] assms by (auto simp: toks_of_def)
  have "c_str (tok_string (string_tok (vs ! i))) = vs ! i" if "i < length vs" for i
    using assms(3) that by (simp add: string_tok_def short_text_def)
  then show ?thesis using e s' by (simp add: extrsp_parse_def toks_of_def nth_append string_tok_def)
qed

theorem extrsp_strings_roundtrip_witness:
  "\<exists>er. extrsp_parse True (Some (csv (map quoted [''26201'', ''T-Mobile D'']))) = Some (Some er) \<and>
     num_tokens er = 2 \<and> c_str (tok_string (tokens er ! 1)) = ''T-Mobile D''"
  using extrsp_strings_roundtrip [of "[''26201'', ''T-Mobile D'']"]
  by (auto simp: short_text_def)

text \<open>A range that is not a single interval is misread: the comma does not clear the buffer, so that after
  "1," the digit 5 gives 15; the list (1,5) is taken for 0-1 and 0-15 and admits 9.
\<close>

theorem extrsp_list_misread:
  "\<exists>er. extrsp_parse True (Some ''(1,5)'') = Some (Some er) \<and> num_tokens er = 1 \<and>
     take 2 (range_item (tokens er ! 0)) = [(0, 1), (0, 15)] \<and> extrsp_supports er 0 9 = Some 1"
proof -
  have "(case extrsp_parse True (Some ''(1,5)'') of Some (Some er) \<Rightarrow> num_tokens er = 1 \<and>
     take 2 (range_item (tokens er ! 0)) = [(0, 1), (0, 15)] \<and> extrsp_supports er 0 9 = Some 1 | _ \<Rightarrow> False)"
    by code_simp
  then show ?thesis by (auto split: option.splits)
qed

text \<open>A number at the end of a response is not counted: a lone number gives no token at all.\<close>

theorem extrsp_last_number_lost:
  "\<exists>er. extrsp_parse True (Some ''42'') = Some (Some er) \<and> num_tokens er = 0"
proof -
  have "(case extrsp_parse True (Some ''42'') of Some (Some er) \<Rightarrow> num_tokens er = 0 | _ \<Rightarrow> False)"
    by code_simp
  then show ?thesis by (auto split: option.splits)
qed

end
