(* ===== verification/Scanf.thy ===== *)
theory Scanf
  imports C_String
begin

text \<open>
  \<open>sscanf\<close> of the C library, as far as the formats of gsmd need it: literal characters, white space,
  \<open>%i\<close> and \<open>%*i\<close> (with the prefixes \<open>0\<close> and \<open>0x\<close>), sets of characters with a width, \<open>%c\<close> and \<open>%n\<close>, and
  the conversion \<open>%2hhX\<close> on its own. The result is the number of assignments, or \<open>-1\<close> when the input ended
  before the first of them (the rule of the GNU library), with the assigned values in their order.
\<close>

datatype conv =
    C_Lit char
  | C_Space
  | C_Int bool
  | C_Set nat "char \<Rightarrow> bool" bool
  | C_Char
  | C_Pos

datatype sval = V_Int int | V_Str string | V_Char char | V_Pos nat

definition lits :: "string \<Rightarrow> conv list" where
  "lits = map (\<lambda>c. if is_space c then C_Space else C_Lit c)"

text \<open>No width in the format.\<close>

abbreviation (input) unbounded :: nat where "unbounded \<equiv> 2147483647"

definition not_quote :: "char \<Rightarrow> bool" where "not_quote c \<longleftrightarrow> c \<noteq> CHR 0x22"
definition upper_AZ :: "char \<Rightarrow> bool" where "upper_AZ c \<longleftrightarrow> 65 \<le> char_code c \<and> char_code c \<le> 90"

section \<open>Integers\<close>

definition xdigit_val :: "char \<Rightarrow> int" where
  "xdigit_val c =
     (let n = int (char_code c) in if n < 58 then n - 48 else if n < 97 then n - 55 else n - 87)"

definition is_xdigit :: "char \<Rightarrow> bool" where
  "is_xdigit c \<longleftrightarrow> is_digit c \<or> 65 \<le> char_code c \<and> char_code c \<le> 70 \<or> 97 \<le> char_code c \<and> char_code c \<le> 102"

definition is_odigit :: "char \<Rightarrow> bool" where
  "is_odigit c \<longleftrightarrow> 48 \<le> char_code c \<and> char_code c \<le> 55"

definition num_val :: "int \<Rightarrow> string \<Rightarrow> int" where
  "num_val base s = foldl (\<lambda>n c. n * base + xdigit_val c) 0 s"

definition signed_val :: "bool \<Rightarrow> int \<Rightarrow> int" where
  "signed_val neg n = clamp (- 2147483648) 2147483647 (if neg then - n else n)"

text \<open>The digits of an integer with its base: \<open>(base, digits, rest)\<close>.\<close>

fun int_digits :: "string \<Rightarrow> int \<times> string \<times> string" where
  "int_digits (a # b # r) =
     (if a = CHR ''0'' \<and> (b = CHR ''x'' \<or> b = CHR ''X'') then (16, CHR ''0'' # takeWhile is_xdigit r, dropWhile is_xdigit r)
      else if a = CHR ''0'' then (8, takeWhile is_odigit (a # b # r), dropWhile is_odigit (a # b # r))
      else (10, takeWhile is_digit (a # b # r), dropWhile is_digit (a # b # r)))"
| "int_digits s = (10, takeWhile is_digit s, dropWhile is_digit s)"

definition scan_int :: "string \<Rightarrow> (int \<times> string) option" where
  "scan_int s =
     (let (neg, t) = split_sign s; (base, ds, r) = int_digits t
      in if ds = [] then None else Some (signed_val neg (num_val base ds), r))"

section \<open>The scanner\<close>

definition scan_eof :: "int \<Rightarrow> int" where
  "scan_eof n = (if n = 0 then - 1 else n)"

fun scan :: "conv list \<Rightarrow> string \<Rightarrow> nat \<Rightarrow> int \<Rightarrow> int \<times> sval list" where
  "scan [] s pos n = (n, [])"
| "scan (C_Lit c # fs) s pos n =
     (case s of
        [] \<Rightarrow> (scan_eof n, [])
      | x # r \<Rightarrow> if x = c then scan fs r (Suc pos) n else (n, []))"
| "scan (C_Space # fs) s pos n = (let r = dropWhile is_space s in scan fs r (pos + (length s - length r)) n)"
| "scan (C_Int asg # fs) s pos n =
     (let t = dropWhile is_space s
      in if t = [] then (scan_eof n, [])
         else case scan_int t of
                None \<Rightarrow> (n, [])
              | Some (v, r) \<Rightarrow>
                  let pos = pos + (length s - length r)
                  in if asg then let (k, vs) = scan fs r pos (n + 1) in (k, V_Int v # vs)
                     else scan fs r pos n)"
| "scan (C_Set w p asg # fs) s pos n =
     (if s = [] then (scan_eof n, [])
      else let u = takeWhile p (take w s); r = drop (length u) s
           in if u = [] then (n, [])
              else if asg then let (k, vs) = scan fs r (pos + length u) (n + 1) in (k, V_Str u # vs)
              else scan fs r (pos + length u) n)"
| "scan (C_Char # fs) s pos n =
     (case s of
        [] \<Rightarrow> (scan_eof n, [])
      | x # r \<Rightarrow> let (k, vs) = scan fs r (Suc pos) (n + 1) in (k, V_Char x # vs))"
| "scan (C_Pos # fs) s pos n = (let (k, vs) = scan fs s pos n in (k, V_Pos pos # vs))"

definition sscanf :: "string \<Rightarrow> conv list \<Rightarrow> int \<times> sval list" where
  "sscanf s fmt = scan fmt s 0 0"

text \<open>\<open>sscanf (cr, "%2hhX", \<dots>)\<close> on two characters: the octet, or nothing if it converts none.\<close>

definition scan_hhX :: "char \<Rightarrow> char \<Rightarrow> u8 option" where
  "scan_hhX a b =
     (if is_xdigit a then
        if is_xdigit b then Some (word_of_int (xdigit_val a * 16 + xdigit_val b))
        else Some (word_of_int (xdigit_val a))
      else None)"

section \<open>Lemmas\<close>

lemma lits_simps [simp]:
  "lits [] = []" "lits (c # s) = (if is_space c then C_Space else C_Lit c) # lits s"
  by (simp_all add: lits_def)

lemma is_space_char [simp]:
  "is_space CHR '' ''" "is_space CHR 0x0A" "\<not> is_space CHR ''+''" "\<not> is_space CHR '':''" "\<not> is_space CHR '',''"
  "\<not> is_space CHR 0x22" "\<not> is_space CHR ''(''" "\<not> is_space CHR '')''"
  by (simp_all add: is_space_def char_code_def)

lemma xdigit_val_digit: "is_digit c \<Longrightarrow> xdigit_val c = digit_val c"
  by (simp add: xdigit_val_def digit_val_def is_digit_def)

lemma num_val_digits: "\<forall>c \<in> set s. is_digit c \<Longrightarrow> num_val 10 s = digits_val s"
proof (induction s rule: rev_induct)
  case (snoc c s)
  then show ?case by (simp add: num_val_def digits_val_def xdigit_val_digit)
qed (simp add: num_val_def digits_val_def)

lemma dec_nat_hd: "0 < n \<Longrightarrow> hd (dec_nat n) \<noteq> CHR ''0''"
proof (induction n rule: dec_nat.induct)
  case (1 n)
  show ?case
  proof (cases "n < 10")
    case True
    then have "dec_nat n = [char_of (48 + n)]" by (subst dec_nat.simps) simp
    moreover have "char_of (48 + n) \<noteq> (CHR ''0'' :: char)"
    proof
      assume "char_of (48 + n) = (CHR ''0'' :: char)"
      then have "of_char (char_of (48 + n) :: char) = (of_char CHR ''0'' :: nat)" by simp
      then show False using 1 True by simp
    qed
    ultimately show ?thesis by simp
  next
    case False
    then have "dec_nat n = dec_nat (n div 10) @ [char_of (48 + n mod 10)]" by (subst dec_nat.simps) simp
    then show ?thesis using 1 False by (simp add: hd_append)
  qed
qed

text \<open>\<open>%i\<close> reads a printed number back: decimal numbers have no leading zero.\<close>

lemma int_digits_dec_nat:
  assumes "r = [] \<or> \<not> is_digit (hd r) \<and> hd r \<noteq> CHR ''x'' \<and> hd r \<noteq> CHR ''X''"
  shows "\<exists>base. int_digits (dec_nat n @ r) = (base, dec_nat n, r) \<and> num_val base (dec_nat n) = int n"
proof -
  have ds: "\<forall>c \<in> set (dec_nat n). is_digit c" by (rule dec_nat_digits)
  have tw: "takeWhile is_digit (dec_nat n @ r) = dec_nat n" "dropWhile is_digit (dec_nat n @ r) = r"
    using assms ds by (cases r; auto simp: takeWhile_append dropWhile_append)+
  have v: "num_val 10 (dec_nat n) = int n" using num_val_digits [OF ds] by simp
  show ?thesis
  proof (cases "n = 0")
    case True
    have z: "dec_nat 0 = ''0''" by code_simp
    show ?thesis
    proof (cases r)
      case Nil
      then show ?thesis using True by (simp add: z is_digit_def char_code_def num_val_def xdigit_val_def)
    next
      case (Cons b r')
      have "\<not> is_odigit b" using assms Cons by (auto simp: is_odigit_def is_digit_def)
      then show ?thesis using assms Cons True
        by (simp add: z num_val_def xdigit_val_def char_code_def is_odigit_def)
    qed
  next
    case False
    obtain a s where a: "dec_nat n @ r = a # s" by (cases "dec_nat n @ r") auto
    have "a \<noteq> CHR ''0''" using dec_nat_hd [of n] False a by (cases "dec_nat n") auto
    then have "int_digits (a # s) = (10, takeWhile is_digit (a # s), dropWhile is_digit (a # s))"
      by (cases s) auto
    then show ?thesis using tw v a by auto
  qed
qed

lemma scan_int_dec_nat:
  assumes "r = [] \<or> \<not> is_digit (hd r) \<and> hd r \<noteq> CHR ''x'' \<and> hd r \<noteq> CHR ''X''" "n < 2147483648"
  shows "scan_int (dec_nat n @ r) = Some (int n, r)"
proof -
  obtain c s where c: "dec_nat n = c # s" by (cases "dec_nat n") auto
  have "is_digit c" using dec_nat_digits [of n] c by simp
  then have "split_sign (dec_nat n @ r) = (False, dec_nat n @ r)" using digit_not by (auto simp: c)
  then show ?thesis using int_digits_dec_nat [OF assms(1), of n] assms(2)
    by (auto simp: scan_int_def signed_val_def clamp_def)
qed

lemma dropWhile_space_dec [simp]: "dropWhile is_space (dec_nat n @ r) = dec_nat n @ r"
proof -
  obtain c s where c: "dec_nat n = c # s" by (cases "dec_nat n") auto
  have "is_digit c" using dec_nat_digits [of n] c by simp
  then show ?thesis using digit_not by (auto simp: c)
qed

text \<open>The octets of a hexadecimal dump.\<close>

lemma scan_hhX_small:
  assumes "is_xdigit a" "is_xdigit b"
  shows "scan_hhX a b = Some (word_of_int (xdigit_val a * 16 + xdigit_val b))"
  using assms by (simp add: scan_hhX_def)

end
