(* ===== verification/Wire.thy ===== *)
theory Wire
  imports C_String Sms_Types
begin

text \<open>
  The structures that travel over the socket between the daemon and its clients, octet by octet
  (\<^verbatim>\<open>gsm/include/gsmd/usock.h\<close>): a memory is a list of octets, \<open>None\<close> being an octet that was never
  written. Reading such an octet is undefined behaviour, as is leaving the memory. The layout is that of
  GCC for the EABI of ARM Linux: little endian, \<open>int\<close> and enumerations of 4 octets, natural alignment
  in structures that are not packed.
\<close>

type_synonym mem = "char option list"

section \<open>Octets and integers\<close>

definition mem_char :: "mem \<Rightarrow> nat \<Rightarrow> char option" where
  "mem_char m i = Option.bind (rd m i) (\<lambda>x. x)"

fun all_set :: "mem \<Rightarrow> string option" where
  "all_set [] = Some []"
| "all_set (x # m) = do { c \<leftarrow> x; s \<leftarrow> all_set m; Some (c # s) }"

definition mem_chars :: "mem \<Rightarrow> nat \<Rightarrow> nat \<Rightarrow> string option" where
  "mem_chars m i n = Option.bind (rdn m i n) all_set"

fun le_val :: "string \<Rightarrow> nat" where
  "le_val [] = 0"
| "le_val (c # s) = char_code c + 256 * le_val s"

fun le_bytes :: "nat \<Rightarrow> nat \<Rightarrow> string" where
  "le_bytes 0 n = []"
| "le_bytes (Suc k) n = char_of (n mod 256) # le_bytes k (n div 256)"

definition mem_u8 :: "mem \<Rightarrow> nat \<Rightarrow> u8 option" where
  "mem_u8 m i = map_option (\<lambda>c. of_nat (char_code c)) (mem_char m i)"

definition mem_u16 :: "mem \<Rightarrow> nat \<Rightarrow> u16 option" where
  "mem_u16 m i = map_option (\<lambda>s. of_nat (le_val s)) (mem_chars m i 2)"

definition mem_u32 :: "mem \<Rightarrow> nat \<Rightarrow> u32 option" where
  "mem_u32 m i = map_option (\<lambda>s. of_nat (le_val s)) (mem_chars m i 4)"

definition mem_i32 :: "mem \<Rightarrow> nat \<Rightarrow> int option" where
  "mem_i32 m i = map_option sint (mem_u32 m i)"

definition mem_u8s :: "mem \<Rightarrow> nat \<Rightarrow> nat \<Rightarrow> u8 list option" where
  "mem_u8s m i n = map_option (map (\<lambda>c. of_nat (char_code c))) (mem_chars m i n)"

text \<open>A C string at an offset: the characters up to a NUL.\<close>

fun mem_strz :: "mem \<Rightarrow> string option" where
  "mem_strz [] = None"
| "mem_strz (x # m) = do { c \<leftarrow> x; if c = NUL then Some [] else map_option ((#) c) (mem_strz m) }"

definition mem_str :: "mem \<Rightarrow> nat \<Rightarrow> string option" where
  "mem_str m i = mem_strz (drop i m)"

text \<open>At most \<open>n\<close> characters of an array, which need not end with a NUL.\<close>

fun mem_strn :: "nat \<Rightarrow> mem \<Rightarrow> string option" where
  "mem_strn 0 m = Some []"
| "mem_strn (Suc n) [] = None"
| "mem_strn (Suc n) (x # m) = do { c \<leftarrow> x; if c = NUL then Some [] else map_option ((#) c) (mem_strn n m) }"

definition mem_put :: "mem \<Rightarrow> nat \<Rightarrow> string \<Rightarrow> mem option" where
  "mem_put m i s = wrn m i (map Some s)"

definition b8 :: "u8 \<Rightarrow> string" where "b8 w = [char_of (unat w)]"
definition b16 :: "u16 \<Rightarrow> string" where "b16 w = le_bytes 2 (unat w)"
definition b32 :: "u32 \<Rightarrow> string" where "b32 w = le_bytes 4 (unat w)"
definition bint :: "int \<Rightarrow> string" where "bint k = b32 (word_of_int k)"
definition u8s :: "u8 list \<Rightarrow> string" where "u8s ws = map (\<lambda>w. char_of (unat w)) ws"

definition fresh_mem :: "nat \<Rightarrow> mem" where
  "fresh_mem n = replicate n None"

subsection \<open>Lemmas\<close>

lemma le_bytes_length [simp]: "length (le_bytes k n) = k"
  by (induction k arbitrary: n) auto

lemma char_code_char [simp]: "char_code (char_of (n :: nat)) = n mod 256"
  by (simp add: char_code_def)

lemma le_val_bytes: "le_val (le_bytes k n) = n mod 256 ^ k"
proof (induction k arbitrary: n)
  case (Suc k)
  have "n mod 256 + 256 * (n div 256 mod 256 ^ k) = n mod (256 * 256 ^ k)"
    by (simp add: mod_mult2_eq)
  then show ?case using Suc by simp
qed simp

lemma all_set_map [simp]: "all_set (map Some s) = Some s"
  by (induction s) auto

lemma mem_chars_app: "mem_chars (p @ map Some s @ q) (length p) (length s) = Some s"
  by (simp add: mem_chars_def rdn_def)

lemma mem_put_in:
  "i + length s \<le> length m \<Longrightarrow> mem_put m i s = Some (take i m @ map Some s @ drop (i + length s) m)"
  by (simp add: mem_put_def wrn_def)

lemma mem_put_None: "mem_put m i s = None \<longleftrightarrow> length m < i + length s"
  by (simp add: mem_put_def wrn_eq_None)

lemma mem_put_length: "mem_put m i s = Some m' \<Longrightarrow> length m' = length m"
  by (auto simp: mem_put_def dest: wrn_length)

lemma blen [simp]: "length (b8 x) = 1" "length (b16 y) = 2" "length (b32 z) = 4" "length (bint k) = 4"
    "length (u8s ws) = length ws"
  by (simp_all add: b8_def b16_def b32_def bint_def u8s_def)

text \<open>Reading what was written at an offset; the memory around it does not matter.\<close>

lemma mem_put_read:
  assumes "mem_put m i s = Some m'"
  shows "mem_chars m' i (length s) = Some s"
proof -
  have "i + length s \<le> length m" using assms mem_put_None [of m i s] by (auto simp: not_less)
  then show ?thesis
    using assms mem_chars_app [of "take i m" s] by (auto simp: mem_put_in)
qed

lemma mem_put_other:
  assumes "mem_put m i s = Some m'" "j + n \<le> i \<or> i + length s \<le> j"
  shows "mem_chars m' j n = mem_chars m j n"
proof (cases "j + n \<le> length m")
  case True
  have l: "i + length s \<le> length m" using assms(1) mem_put_None [of m i s] by (auto simp: not_less)
  then have m': "m' = take i m @ map Some s @ drop (i + length s) m" using assms(1) by (simp add: mem_put_in)
  have "take n (drop j m') = take n (drop j m)"
  proof (rule nth_equalityI)
    show "length (take n (drop j m')) = length (take n (drop j m))"
      using mem_put_length [OF assms(1)] by simp
  next
    fix k
    assume "k < length (take n (drop j m'))"
    then have "k < n" "j + k < length m" using mem_put_length [OF assms(1)] True by simp_all
    then show "take n (drop j m') ! k = take n (drop j m) ! k"
      using assms(2) l unfolding m' by (auto simp: nth_append)
  qed
  then show ?thesis using True mem_put_length [OF assms(1)] by (simp add: mem_chars_def rdn_def)
next
  case False
  then show ?thesis using mem_put_length [OF assms(1)] by (simp add: mem_chars_def rdn_def)
qed

lemma le_val_b: "le_val (b16 w) = unat w" "le_val (b32 v) = unat v"
proof -
  have "unat w < 256 ^ 2" "unat v < 256 ^ 4"
    using unsigned_less [of w, where ?'a = nat] unsigned_less [of v, where ?'a = nat] by simp_all
  then show "le_val (b16 w) = unat w" "le_val (b32 v) = unat v" unfolding b16_def b32_def le_val_bytes by simp_all
qed

lemma char_u8: "of_nat (char_code (char_of (unat (w :: u8)))) = w"
  using unsigned_less [of w, where ?'a = nat] by simp

lemma mem_char_chars: "mem_char m i = map_option hd (mem_chars m i 1)"
proof (cases "i < length m")
  case True
  then have "take 1 (drop i m) = [m ! i]" by (metis Cons_nth_drop_Suc One_nat_def take_Suc_Cons take_0)
  then show ?thesis using True by (cases "m ! i") (simp_all add: mem_char_def mem_chars_def rd_def rdn_def)
qed (simp add: mem_char_def mem_chars_def rd_def rdn_def)

lemma mem_readers:
  "mem_chars m i 1 = Some (b8 x) \<Longrightarrow> mem_u8 m i = Some x"
  "mem_chars m i 2 = Some (b16 y) \<Longrightarrow> mem_u16 m i = Some y"
  "mem_chars m i 4 = Some (b32 z) \<Longrightarrow> mem_u32 m i = Some z"
  "mem_chars m i 4 = Some (bint k) \<Longrightarrow> - 2147483648 \<le> k \<Longrightarrow> k < 2147483648 \<Longrightarrow> mem_i32 m i = Some k"
  "mem_chars m i n = Some (u8s ws) \<Longrightarrow> mem_u8s m i n = Some ws"
proof -
  show "mem_chars m i 1 = Some (b8 x) \<Longrightarrow> mem_u8 m i = Some x"
    using char_u8 [of x] by (simp add: mem_u8_def mem_char_chars b8_def)
  show "mem_chars m i 2 = Some (b16 y) \<Longrightarrow> mem_u16 m i = Some y"
    by (simp add: mem_u16_def le_val_b)
  show u: "mem_chars m i 4 = Some (b32 z) \<Longrightarrow> mem_u32 m i = Some z" for z
    by (simp add: mem_u32_def le_val_b)
  show "mem_chars m i 4 = Some (bint k) \<Longrightarrow> - 2147483648 \<le> k \<Longrightarrow> k < 2147483648 \<Longrightarrow> mem_i32 m i = Some k"
    using u [of "word_of_int k"] by (simp add: mem_i32_def bint_def signed_of_int signed_take_bit_int_eq_self)
  show "mem_chars m i n = Some (u8s ws) \<Longrightarrow> mem_u8s m i n = Some ws"
    using char_u8 by (simp add: mem_u8s_def u8s_def comp_def del: char_code_char)
qed

text \<open>\<open>mem_at m i M\<close>: the memory holds the block \<open>M\<close> at \<open>i\<close>.\<close>

definition mem_at :: "mem \<Rightarrow> nat \<Rightarrow> mem \<Rightarrow> bool" where
  "mem_at m i M \<longleftrightarrow> i + length M \<le> length m \<and> take (length M) (drop i m) = M"

lemma mem_at_append: "mem_at m i (M @ N) \<longleftrightarrow> mem_at m i M \<and> mem_at m (i + length M) N"
proof -
  have "take (length M + length N) (drop i m) = take (length M) (drop i m) @ take (length N) (drop (i + length M) m)"
    by (simp add: take_add add.commute)
  then show ?thesis by (auto simp: mem_at_def dest: arg_cong [of _ _ length])
qed

lemma mem_at_chars: "mem_at m i (map Some s) \<Longrightarrow> mem_chars m i (length s) = Some s"
  by (simp add: mem_at_def mem_chars_def rdn_def)

lemma mem_at_self: "mem_at (p @ M @ q) (length p) M"
  by (simp add: mem_at_def)

lemma mem_at_readers:
  "mem_at m i (map Some (b8 x)) \<Longrightarrow> mem_u8 m i = Some x"
  "mem_at m i (map Some (b16 y)) \<Longrightarrow> mem_u16 m i = Some y"
  "mem_at m i (map Some (b32 z)) \<Longrightarrow> mem_u32 m i = Some z"
  "mem_at m i (map Some (bint k)) \<Longrightarrow> - 2147483648 \<le> k \<Longrightarrow> k < 2147483648 \<Longrightarrow> mem_i32 m i = Some k"
  "mem_at m i (map Some (u8s ws)) \<Longrightarrow> mem_u8s m i (length ws) = Some ws"
  by (drule mem_at_chars, (erule mem_readers; simp)?, simp add: mem_readers)+

lemma fresh_mem_length [simp]: "length (fresh_mem n) = n"
  by (simp add: fresh_mem_def)

section \<open>The message header\<close>

text \<open>\<open>struct gsmd_msg_hdr\<close>: version, type, subtype, padding, identifier, length of the data.\<close>

record gsmd_msg_hdr =
  version :: u8
  msg_type :: u8
  msg_subtype :: u8
  hdr_id :: u16
  hdr_len :: u16

abbreviation (input) sizeof_hdr :: nat where "sizeof_hdr \<equiv> 8"
abbreviation (input) GSMD_PROTO_VERSION :: u8 where "GSMD_PROTO_VERSION \<equiv> 1"

definition rd_hdr :: "mem \<Rightarrow> gsmd_msg_hdr option" where
  "rd_hdr m = do {
     v \<leftarrow> mem_u8 m 0;
     t \<leftarrow> mem_u8 m 1;
     s \<leftarrow> mem_u8 m 2;
     i \<leftarrow> mem_u16 m 4;
     l \<leftarrow> mem_u16 m 6;
     Some \<lparr>version = v, msg_type = t, msg_subtype = s, hdr_id = i, hdr_len = l\<rparr>
   }"

text \<open>The padding octet is never written by the daemon.\<close>

definition hdr_mem :: "gsmd_msg_hdr \<Rightarrow> mem" where
  "hdr_mem h = map Some (b8 (version h) @ b8 (msg_type h) @ b8 (msg_subtype h)) @ fresh_mem 1 @
     map Some (b16 (hdr_id h) @ b16 (hdr_len h))"

lemma hdr_mem_length [simp]: "length (hdr_mem h) = sizeof_hdr"
  by (simp add: hdr_mem_def)

lemma rd_hdr_mem: "mem_at m 0 (hdr_mem h) \<Longrightarrow> rd_hdr m = Some h"
proof -
  assume "mem_at m 0 (hdr_mem h)"
  then have "mem_at m 0 (map Some (b8 (version h)))" "mem_at m 1 (map Some (b8 (msg_type h)))"
    "mem_at m 2 (map Some (b8 (msg_subtype h)))" "mem_at m 4 (map Some (b16 (hdr_id h)))"
    "mem_at m 6 (map Some (b16 (hdr_len h)))"
    by (simp_all add: hdr_mem_def mem_at_append del: One_nat_def)
  then show "rd_hdr m = Some h"
    by (auto simp: rd_hdr_def simp del: One_nat_def dest!: mem_at_readers(1,2))
qed

section \<open>Addresses and messages\<close>

abbreviation (input) sizeof_addr :: nat where "sizeof_addr \<equiv> 34"
abbreviation (input) sizeof_sms :: nat where "sizeof_sms \<equiv> 200"
abbreviation (input) sizeof_sms_submit :: nat where "sizeof_sms_submit \<equiv> 240"
abbreviation (input) sizeof_sms_list :: nat where "sizeof_sms_list \<equiv> 256"

definition rd_addr :: "mem \<Rightarrow> nat \<Rightarrow> gsmd_addr option" where
  "rd_addr m i = do {
     t \<leftarrow> mem_u8 m i;
     n \<leftarrow> mem_u8s m (i + 1) (GSMD_ADDR_MAXLEN + 1);
     Some \<lparr>addr_type = t, addr_number = n\<rparr>
   }"

definition addr_mem :: "gsmd_addr \<Rightarrow> mem" where
  "addr_mem a = map Some (b8 (addr_type a) @ u8s (addr_number a))"

text \<open>
  \<open>struct gsmd_sms_datacodingscheme\<close>: six enumerations and an octet. The enumerations are octets in the
  model, so that a value read from memory is cut to its low octet; the daemon never looks at those that
  a client sends.
\<close>

definition benum :: "u8 \<Rightarrow> string" where "benum w = b32 (ucast w)"

definition rd_enum :: "mem \<Rightarrow> nat \<Rightarrow> u8 option" where
  "rd_enum m i = map_option ucast (mem_u32 m i)"

definition rd_dcs :: "mem \<Rightarrow> nat \<Rightarrow> gsmd_sms_datacodingscheme option" where
  "rd_dcs m i = do {
     a \<leftarrow> rd_enum m i;
     b \<leftarrow> rd_enum m (i + 4);
     c \<leftarrow> rd_enum m (i + 8);
     d \<leftarrow> rd_enum m (i + 12);
     e \<leftarrow> rd_enum m (i + 16);
     f \<leftarrow> rd_enum m (i + 20);
     r \<leftarrow> mem_u8 m (i + 24);
     Some \<lparr>msg_class = a, alphabet = b, is_compressed = c, mwi_group = d, mwi_active = e, mwi_kind = f,
       raw_dcs_data = r\<rparr>
   }"

definition dcs_mem :: "gsmd_sms_datacodingscheme \<Rightarrow> mem" where
  "dcs_mem d = map Some (benum (msg_class d) @ benum (alphabet d) @ benum (is_compressed d) @ benum (mwi_group d) @
     benum (mwi_active d) @ benum (mwi_kind d) @ b8 (raw_dcs_data d))"

definition rd_sms :: "mem \<Rightarrow> nat \<Rightarrow> gsmd_sms option" where
  "rd_sms m i = do {
     l \<leftarrow> mem_u8 m i;
     c \<leftarrow> mem_u8 m (i + 1);
     h \<leftarrow> mem_i32 m (i + 2);
     v \<leftarrow> mem_i32 m (i + 6);
     d \<leftarrow> rd_dcs m (i + 10);
     x \<leftarrow> mem_u8s m (i + 35) (GSMD_SMS_DATA_MAXLEN + 1);
     Some \<lparr>sms_length = l, coding_scheme = c, has_header = h, is_voicemail = v, dcs = d, sms_data = x\<rparr>
   }"

definition sms_mem :: "gsmd_sms \<Rightarrow> mem" where
  "sms_mem s = map Some (b8 (sms_length s) @ b8 (coding_scheme s) @ bint (has_header s) @ bint (is_voicemail s)) @
     dcs_mem (dcs s) @ map Some (u8s (sms_data s))"

definition rd_sms_submit :: "mem \<Rightarrow> nat \<Rightarrow> gsmd_sms_submit option" where
  "rd_sms_submit m i = do {
     a \<leftarrow> rd_addr m i;
     p \<leftarrow> rd_sms m (i + 34);
     d \<leftarrow> mem_i32 m (i + 236);
     Some \<lparr>sub_addr = a, sub_payload = p, ask_ds = d\<rparr>
   }"

definition sms_submit_mem :: "gsmd_sms_submit \<Rightarrow> mem" where
  "sms_submit_mem s = addr_mem (sub_addr s) @ sms_mem (sub_payload s) @ fresh_mem 2 @ map Some (bint (ask_ds s))"

definition rd_sms_list :: "mem \<Rightarrow> nat \<Rightarrow> gsmd_sms_list option" where
  "rd_sms_list m i = do {
     x \<leftarrow> mem_u8 m i;
     s \<leftarrow> mem_i32 m (i + 4);
     t \<leftarrow> mem_u8s m (i + 8) 7;
     a \<leftarrow> rd_addr m (i + 15);
     p \<leftarrow> rd_sms m (i + 49);
     l \<leftarrow> mem_i32 m (i + 252);
     Some \<lparr>sl_index = x, sl_stat = s, time_stamp = t, sl_addr = a, sl_payload = p, is_last = l\<rparr>
   }"

definition sms_list_mem :: "gsmd_sms_list \<Rightarrow> mem" where
  "sms_list_mem s = map Some (b8 (sl_index s)) @ fresh_mem 3 @ map Some (bint (sl_stat s) @ u8s (time_stamp s)) @
     addr_mem (sl_addr s) @ sms_mem (sl_payload s) @ fresh_mem 3 @ map Some (bint (is_last s))"

text \<open>\<open>struct gsmd_cbm\<close>; the numbers that the decoder computes fit into the octets of the model.\<close>

abbreviation (input) sizeof_cbm :: nat where "sizeof_cbm \<equiv> 116"

definition cbm_mem :: "gsmd_cbm \<Rightarrow> mem" where
  "cbm_mem s = map Some (benum (scope s) @ bint (uint (msg_code s)) @ benum (update_num s) @ b16 (msg_id s)) @ fresh_mem 2 @
     map Some (benum (language s) @ b8 (cbm_coding_scheme s)) @ fresh_mem 3 @
     map Some (benum (pages s) @ benum (page s) @ u8s (cbm_data s)) @ fresh_mem 2"

subsection \<open>Round trips\<close>

definition int32 :: "int \<Rightarrow> bool" where "int32 k \<longleftrightarrow> - 2147483648 \<le> k \<and> k < 2147483648"

lemma benum_length [simp]: "length (benum w) = 4"
  by (simp add: benum_def)

lemma ucast_up: "ucast (ucast (w :: u8) :: u32) = w"
  by (rule bit_word_eqI) (simp add: bit_simps)

lemma rd_enum_at: "mem_at m i (map Some (benum w)) \<Longrightarrow> rd_enum m i = Some w"
  by (simp add: rd_enum_def benum_def mem_at_readers ucast_up)

lemma rd_int_at: "mem_at m i (map Some (bint k)) \<Longrightarrow> int32 k \<Longrightarrow> mem_i32 m i = Some k"
  by (simp add: int32_def mem_at_readers(4))

lemmas reads = mem_at_readers(1,2,3,5) rd_enum_at

lemma mem_lengths [simp]:
  "length (dcs_mem d) = 25" "wf_addr a \<Longrightarrow> length (addr_mem a) = sizeof_addr"
  "wf_sms s \<Longrightarrow> length (sms_mem s) = sizeof_sms" "wf_sms_list l \<Longrightarrow> length (sms_list_mem l) = sizeof_sms_list"
  by (simp_all add: dcs_mem_def addr_mem_def wf_addr_def sms_mem_def wf_sms_def sms_list_mem_def wf_sms_list_def)

lemma rd_addr_mem: "mem_at m i (addr_mem a) \<Longrightarrow> wf_addr a \<Longrightarrow> rd_addr m i = Some a"
  by (auto simp: rd_addr_def addr_mem_def mem_at_append wf_addr_def simp del: One_nat_def dest!: reads)

lemma rd_dcs_mem: "mem_at m i (dcs_mem d) \<Longrightarrow> rd_dcs m i = Some d"
  by (auto simp: rd_dcs_def dcs_mem_def mem_at_append add.commute [of i] dest!: reads)

lemma rd_sms_mem:
  assumes "mem_at m i (sms_mem s)" "wf_sms s" "int32 (has_header s)" "int32 (is_voicemail s)"
  shows "rd_sms m i = Some s"
proof -
  have "mem_at m i (map Some (b8 (sms_length s)))" "mem_at m (i + 1) (map Some (b8 (coding_scheme s)))"
    "mem_at m (i + 2) (map Some (bint (has_header s)))" "mem_at m (i + 6) (map Some (bint (is_voicemail s)))"
    "mem_at m (i + 10) (dcs_mem (dcs s))" "mem_at m (i + 35) (map Some (u8s (sms_data s)))"
    using assms(1) by (simp_all add: sms_mem_def mem_at_append add.commute [of i])
  then show ?thesis
    using assms(2-4) by (auto simp: rd_sms_def rd_dcs_mem wf_sms_def dest!: reads rd_int_at simp del: One_nat_def)
qed

definition wf_submit :: "gsmd_sms_submit \<Rightarrow> bool" where
  "wf_submit s \<longleftrightarrow> wf_addr (sub_addr s) \<and> wf_sms (sub_payload s) \<and> int32 (has_header (sub_payload s)) \<and>
     int32 (is_voicemail (sub_payload s)) \<and> int32 (ask_ds s)"

lemma rd_sms_submit_mem:
  assumes "mem_at m i (sms_submit_mem s)" "wf_submit s"
  shows "rd_sms_submit m i = Some s"
  using assms
  by (auto simp: rd_sms_submit_def sms_submit_mem_def mem_at_append rd_addr_mem rd_sms_mem wf_submit_def add.commute [of i]
    dest!: rd_int_at)

lemma rd_sms_list_mem:
  assumes "mem_at m i (sms_list_mem s)" "wf_sms_list s" "int32 (sl_stat s)" "int32 (is_last s)"
    "int32 (has_header (sl_payload s))" "int32 (is_voicemail (sl_payload s))"
  shows "rd_sms_list m i = Some s"
proof -
  have "mem_at m i (map Some (b8 (sl_index s)))" "mem_at m (i + 4) (map Some (bint (sl_stat s)))"
    "mem_at m (i + 8) (map Some (u8s (time_stamp s)))" "mem_at m (i + 15) (addr_mem (sl_addr s))"
    "mem_at m (i + 49) (sms_mem (sl_payload s))" "mem_at m (i + 252) (map Some (bint (is_last s)))"
    using assms(1,2) by (simp_all add: sms_list_mem_def mem_at_append wf_sms_list_def add.commute [of i])
  then show ?thesis
    using assms(2-6) by (auto simp: rd_sms_list_def rd_addr_mem rd_sms_mem wf_sms_list_def dest!: reads rd_int_at)
qed

end
