(* ===== verification/Messages.thy ===== *)
theory Messages
  imports Wire
begin

text \<open>
  The numbers of the messages between the daemon and its clients: \<^verbatim>\<open>gsm/include/gsmd/usock.h\<close> and, for the
  events and the kinds of PIN, \<^verbatim>\<open>event.h\<close>.
\<close>

section \<open>Message types\<close>

abbreviation (input) GSMD_MSG_EVENT :: u8 where "GSMD_MSG_EVENT \<equiv> 1"
abbreviation (input) GSMD_MSG_PASSTHROUGH :: u8 where "GSMD_MSG_PASSTHROUGH \<equiv> 2"
abbreviation (input) GSMD_MSG_VOICECALL :: u8 where "GSMD_MSG_VOICECALL \<equiv> 3"
abbreviation (input) GSMD_MSG_PHONEBOOK :: u8 where "GSMD_MSG_PHONEBOOK \<equiv> 5"
abbreviation (input) GSMD_MSG_NETWORK :: u8 where "GSMD_MSG_NETWORK \<equiv> 6"
abbreviation (input) GSMD_MSG_PHONE :: u8 where "GSMD_MSG_PHONE \<equiv> 7"
abbreviation (input) GSMD_MSG_PIN :: u8 where "GSMD_MSG_PIN \<equiv> 8"
abbreviation (input) GSMD_MSG_SMS :: u8 where "GSMD_MSG_SMS \<equiv> 9"
abbreviation (input) GSMD_MSG_CB :: u8 where "GSMD_MSG_CB \<equiv> 10"
abbreviation (input) NUM_GSMD_MSGS :: u8 where "NUM_GSMD_MSGS \<equiv> 11"

section \<open>Passthrough, calls, phone, PIN, cell broadcast\<close>

abbreviation (input) GSMD_PASSTHROUGH_REQ :: u8 where "GSMD_PASSTHROUGH_REQ \<equiv> 1"
abbreviation (input) GSMD_PASSTHROUGH_RESP :: u8 where "GSMD_PASSTHROUGH_RESP \<equiv> 2"
abbreviation (input) GSMD_VOICECALL_DIAL :: u8 where "GSMD_VOICECALL_DIAL \<equiv> 1"
abbreviation (input) GSMD_VOICECALL_HANGUP :: u8 where "GSMD_VOICECALL_HANGUP \<equiv> 2"
abbreviation (input) GSMD_VOICECALL_ANSWER :: u8 where "GSMD_VOICECALL_ANSWER \<equiv> 3"
abbreviation (input) GSMD_VOICECALL_DTMF :: u8 where "GSMD_VOICECALL_DTMF \<equiv> 4"
abbreviation (input) GSMD_VOICECALL_VOL_SET :: u8 where "GSMD_VOICECALL_VOL_SET \<equiv> 5"
abbreviation (input) GSMD_PHONE_POWERUP :: u8 where "GSMD_PHONE_POWERUP \<equiv> 1"
abbreviation (input) GSMD_PHONE_POWERDOWN :: u8 where "GSMD_PHONE_POWERDOWN \<equiv> 2"
abbreviation (input) GSMD_PIN_INPUT :: u8 where "GSMD_PIN_INPUT \<equiv> 1"
abbreviation (input) GSMD_PIN_SIM_PUK :: int where "GSMD_PIN_SIM_PUK \<equiv> 2"
abbreviation (input) GSMD_PIN_SIM_PUK2 :: int where "GSMD_PIN_SIM_PUK2 \<equiv> 7"
abbreviation (input) NUM_GSMD_PIN :: nat where "NUM_GSMD_PIN \<equiv> 16"
abbreviation (input) GSMD_PIN_MAXLEN :: nat where "GSMD_PIN_MAXLEN \<equiv> 8"
abbreviation (input) GSMD_CB_SUBSCRIBE :: u8 where "GSMD_CB_SUBSCRIBE \<equiv> 1"
abbreviation (input) GSMD_CB_UNSUBSCRIBE :: u8 where "GSMD_CB_UNSUBSCRIBE \<equiv> 2"

section \<open>Network\<close>

abbreviation (input) GSMD_NETWORK_REGISTER :: u8 where "GSMD_NETWORK_REGISTER \<equiv> 1"
abbreviation (input) GSMD_NETWORK_SIGQ_GET :: u8 where "GSMD_NETWORK_SIGQ_GET \<equiv> 2"
abbreviation (input) GSMD_NETWORK_VMAIL_GET :: u8 where "GSMD_NETWORK_VMAIL_GET \<equiv> 3"
abbreviation (input) GSMD_NETWORK_VMAIL_SET :: u8 where "GSMD_NETWORK_VMAIL_SET \<equiv> 4"
abbreviation (input) GSMD_NETWORK_OPER_GET :: u8 where "GSMD_NETWORK_OPER_GET \<equiv> 5"
abbreviation (input) GSMD_NETWORK_OPER_LIST :: u8 where "GSMD_NETWORK_OPER_LIST \<equiv> 6"
abbreviation (input) GSMD_NETWORK_DEREGISTER :: u8 where "GSMD_NETWORK_DEREGISTER \<equiv> 8"
abbreviation (input) GSMD_NETWORK_GET_NUMBER :: u8 where "GSMD_NETWORK_GET_NUMBER \<equiv> 9"
abbreviation (input) GSMD_NETWORK_PREF_LIST :: u8 where "GSMD_NETWORK_PREF_LIST \<equiv> 10"
abbreviation (input) GSMD_NETWORK_PREF_DEL :: u8 where "GSMD_NETWORK_PREF_DEL \<equiv> 11"
abbreviation (input) GSMD_NETWORK_PREF_ADD :: u8 where "GSMD_NETWORK_PREF_ADD \<equiv> 12"
abbreviation (input) GSMD_NETWORK_PREF_SPACE :: u8 where "GSMD_NETWORK_PREF_SPACE \<equiv> 13"

section \<open>Phone book\<close>

abbreviation (input) GSMD_PHONEBOOK_FIND :: u8 where "GSMD_PHONEBOOK_FIND \<equiv> 1"
abbreviation (input) GSMD_PHONEBOOK_READ :: u8 where "GSMD_PHONEBOOK_READ \<equiv> 2"
abbreviation (input) GSMD_PHONEBOOK_READRG :: u8 where "GSMD_PHONEBOOK_READRG \<equiv> 3"
abbreviation (input) GSMD_PHONEBOOK_WRITE :: u8 where "GSMD_PHONEBOOK_WRITE \<equiv> 4"
abbreviation (input) GSMD_PHONEBOOK_DELETE :: u8 where "GSMD_PHONEBOOK_DELETE \<equiv> 5"
abbreviation (input) GSMD_PHONEBOOK_GET_SUPPORT :: u8 where "GSMD_PHONEBOOK_GET_SUPPORT \<equiv> 6"
abbreviation (input) GSMD_PHONEBOOK_LIST_STORAGE :: u8 where "GSMD_PHONEBOOK_LIST_STORAGE \<equiv> 7"
abbreviation (input) GSMD_PHONEBOOK_SET_STORAGE :: u8 where "GSMD_PHONEBOOK_SET_STORAGE \<equiv> 8"
abbreviation (input) GSMD_PHONEBOOK_RETRIEVE_READRG :: u8 where "GSMD_PHONEBOOK_RETRIEVE_READRG \<equiv> 9"
abbreviation (input) GSMD_PHONEBOOK_RETRIEVE_FIND :: u8 where "GSMD_PHONEBOOK_RETRIEVE_FIND \<equiv> 10"
abbreviation (input) GSMD_PHONEBOOK_GET_IMSI :: u8 where "GSMD_PHONEBOOK_GET_IMSI \<equiv> 11"

section \<open>Short messages\<close>

abbreviation (input) GSMD_SMS_LIST :: u8 where "GSMD_SMS_LIST \<equiv> 1"
abbreviation (input) GSMD_SMS_READ :: u8 where "GSMD_SMS_READ \<equiv> 2"
abbreviation (input) GSMD_SMS_SEND :: u8 where "GSMD_SMS_SEND \<equiv> 3"
abbreviation (input) GSMD_SMS_WRITE :: u8 where "GSMD_SMS_WRITE \<equiv> 4"
abbreviation (input) GSMD_SMS_DELETE :: u8 where "GSMD_SMS_DELETE \<equiv> 5"
abbreviation (input) GSMD_SMS_GET_MSG_STORAGE :: u8 where "GSMD_SMS_GET_MSG_STORAGE \<equiv> 6"
abbreviation (input) GSMD_SMS_SET_MSG_STORAGE :: u8 where "GSMD_SMS_SET_MSG_STORAGE \<equiv> 7"
abbreviation (input) GSMD_SMS_GET_SERVICE_CENTRE :: u8 where "GSMD_SMS_GET_SERVICE_CENTRE \<equiv> 8"
abbreviation (input) GSMD_SMS_SET_SERVICE_CENTRE :: u8 where "GSMD_SMS_SET_SERVICE_CENTRE \<equiv> 9"

section \<open>Events\<close>

abbreviation (input) GSMD_EVT_IN_CALL :: nat where "GSMD_EVT_IN_CALL \<equiv> 1"
abbreviation (input) GSMD_EVT_IN_SMS :: nat where "GSMD_EVT_IN_SMS \<equiv> 2"
abbreviation (input) GSMD_EVT_IN_CLIP :: nat where "GSMD_EVT_IN_CLIP \<equiv> 4"
abbreviation (input) GSMD_EVT_NETREG :: nat where "GSMD_EVT_NETREG \<equiv> 5"
abbreviation (input) GSMD_EVT_SIGNAL :: nat where "GSMD_EVT_SIGNAL \<equiv> 6"
abbreviation (input) GSMD_EVT_PIN :: nat where "GSMD_EVT_PIN \<equiv> 7"
abbreviation (input) GSMD_EVT_OUT_STATUS :: nat where "GSMD_EVT_OUT_STATUS \<equiv> 8"
abbreviation (input) GSMD_EVT_CIPHER :: nat where "GSMD_EVT_CIPHER \<equiv> 13"
abbreviation (input) GSMD_EVT_OUT_COLP :: nat where "GSMD_EVT_OUT_COLP \<equiv> 9"
abbreviation (input) GSMD_EVT_CALL_WAIT :: nat where "GSMD_EVT_CALL_WAIT \<equiv> 10"
abbreviation (input) GSMD_EVT_TIMEZONE :: nat where "GSMD_EVT_TIMEZONE \<equiv> 11"
abbreviation (input) GSMD_EVT_SUBSCRIPTIONS :: u8 where "GSMD_EVT_SUBSCRIPTIONS \<equiv> 12"
abbreviation (input) GSMD_EVT_IN_CBM :: nat where "GSMD_EVT_IN_CBM \<equiv> 14"
abbreviation (input) GSMD_EVT_IN_DS :: nat where "GSMD_EVT_IN_DS \<equiv> 15"
abbreviation (input) GSMD_EVT_IN_ERROR :: nat where "GSMD_EVT_IN_ERROR \<equiv> 16"
abbreviation (input) NUM_GSMD_EVT :: nat where "NUM_GSMD_EVT \<equiv> 17"

end
