(* ===== verification/Daemon_State.thy ===== *)
theory Daemon_State
  imports At_World Operator_Cache Ext_Response Scanf Messages
begin

text \<open>
  The state that the parts of the daemon share: the connected clients (\<^verbatim>\<open>struct gsmd_user\<close> of \<^verbatim>\<open>gsmd.h\<close>) with
  their queues of answers (\<^verbatim>\<open>struct gsmd_ucmd\<close> of \<^verbatim>\<open>usock.h\<close>), and the functions that build and queue an
  answer (\<^verbatim>\<open>gsm/src/gsmd/usock.c\<close>, \<^verbatim>\<open>unsolicited.c\<close>). A command's callback is a function of the source with its
  context, the address of a client (0 where the context is the daemon itself). A client that is gone has
  no entry; using its address then is undefined behaviour.
\<close>

section \<open>Clients and answers\<close>

text \<open>\<open>u_hdr\<close> and \<open>u_buf\<close>: the octets of the header and of the data.\<close>

record gsmd_ucmd =
  u_hdr :: mem
  u_buf :: mem

abbreviation (input) sizeof_ucmd :: nat where "sizeof_ucmd \<equiv> 16"

abbreviation (input) GSMD_PB_NUMB_MAXLEN :: nat where "GSMD_PB_NUMB_MAXLEN \<equiv> 44"
abbreviation (input) GSMD_PB_TEXT_MAXLEN :: nat where "GSMD_PB_TEXT_MAXLEN \<equiv> 14"

record gsmd_phonebook =
  pb_index :: u8
  pb_numb :: mem
  pb_type :: u8
  pb_text :: mem

text \<open>\<open>gu_write\<close> is the bit \<open>GSMD_FD_WRITE\<close> of \<open>gfd.when\<close>.\<close>

record gsmd_user =
  gu_ptr :: nat
  finished_ucmds :: "gsmd_ucmd list"
  gu_write :: bool
  subscriptions :: u32
  pb_readrg_list :: "gsmd_phonebook list"
  pb_find_list :: "gsmd_phonebook list"

text \<open>The callbacks of AT commands, and the parsers of unsolicited responses.\<close>

datatype cb_fn =
    Usock_cmd_cb | Null_cmd_cb | Pin_cmd_cb | Phone_powerup_cb | Network_vmail_cb | Network_sigq_cb | Network_oper_cb
  | Network_opers_cb | Network_pref_opers_cb | Network_pref_num_cb | Network_ownnumbers_cb | Phonebook_find_cb
  | Phonebook_read_cb | Phonebook_readrg_cb | Phonebook_write_cb | Phonebook_delete_cb | Phonebook_get_support_cb
  | Phonebook_list_storage_cb | Get_imsi_cb | Sms_list_cb | Sms_read_cb | Sms_send_cb | Sms_write_cb | Sms_delete_cb
  | Usock_cpms_cb | Usock_get_smsc_cb | Gsmd_test_atcb | Gsmd_alive_cb | Firstcmd_atcb
  | Ti_cpmb_detect_cb | Ti_cpi_detect_cb | Htc_cpi_detect_cb

datatype unsol_fn =
    Ring_parse | Cring_parse | Creg_parse | Ccwa_parse | Cusd_parse | Cccm_parse | Cgev_parse | Cgreg_parse | Clip_parse
  | Colp_parse | Ctzv_parse | Copn_parse | Cmti_parse | Cmt_parse | Cbmi_parse | Cbm_parse | Cdsi_parse | Cds_parse
  | Ti_csq_parse | Ti_cpri_parse | Ti_cpi_parse | Ti_ctzv_parse | Htc_htccsq_parse | Htc_cpri_parse | Htc_cpi_parse
  | Qc_htccsq_parse | Qc_wcdma_parse

text \<open>The vendor plugins.\<close>

datatype vendor_pl = V_ticalypso | V_tihtc | V_qc

type_synonym gcb = "cb_fn \<times> nat"

text \<open>
  What the parts share beside the queue: the clients, \<open>dev_state.on\<close> and \<open>dev_state.ciph_ind.flags\<close>, the
  selected vendor plugin, the operator cache with the addresses and octets that its allocations return, the
  table of unsolicited responses, the alive checks (\<open>alive_responded\<close>, by address), and what the stack
  happens to hold where an integer, a structure or an array is used before it is written completely.
\<close>

record gworld =
  users :: "gsmd_user list"
  dev_on :: bool
  ciph_flags :: u32
  vendorpl :: "vendor_pl option"
  operators :: opcache
  op_allocs :: "(ptr \<times> string) list"
  unsolicit :: "(string \<times> unsol_fn) list"
  alive_privs :: "(nat \<times> bool) list"
  firstcmd_response :: bool
  stack_sms :: gsmd_sms_list
  stack_cbm :: gsmd_cbm
  stack_pdu :: "u8 list"
  stack_int :: int

type_synonym daemon = "(gcb, gworld) gsmd"

definition upd_world :: "(gworld \<Rightarrow> gworld) \<Rightarrow> daemon \<Rightarrow> daemon" where
  "upd_world f g = g\<lparr>world := f (world g)\<rparr>"

definition find_user :: "nat \<Rightarrow> daemon \<Rightarrow> gsmd_user option" where
  "find_user gu g = List.find (\<lambda>u. gu_ptr u = gu) (users (world g))"

definition upd_user :: "nat \<Rightarrow> (gsmd_user \<Rightarrow> gsmd_user) \<Rightarrow> daemon \<Rightarrow> daemon" where
  "upd_user gu f g = upd_world (\<lambda>w. w\<lparr>users := map (\<lambda>u. if gu_ptr u = gu then f u else u) (users w)\<rparr>) g"

text \<open>
  \<open>ucmd_alloc\<close>; \<open>talloc\<close> refuses sizes from 256 MB on. A negative size that the structure itself makes up
  for gives a block that is smaller than the header.
\<close>

definition ucmd_alloc :: "int \<Rightarrow> daemon \<Rightarrow> (gsmd_ucmd option \<times> daemon) option" where
  "ucmd_alloc extra_size g =
     (if extra_size < - int sizeof_ucmd \<or> extra_size + int sizeof_ucmd \<ge> 0x10000000 then Some (None, g)
      else if extra_size < 0 then None
      else
        let (p, g) = g_alloc g
        in case p of
             None \<Rightarrow> Some (None, g)
           | Some _ \<Rightarrow> Some (Some \<lparr>u_hdr = fresh_mem sizeof_hdr, u_buf = fresh_mem (nat extra_size)\<rparr>, g))"

definition usock_cmd_enqueue :: "gsmd_ucmd \<Rightarrow> nat \<Rightarrow> daemon \<Rightarrow> (unit \<times> daemon) option" where
  "usock_cmd_enqueue ucmd gu g = do {
     _ \<leftarrow> find_user gu g;
     Some ((), upd_user gu (\<lambda>u. u\<lparr>finished_ucmds := finished_ucmds u @ [ucmd], gu_write := True\<rparr>) g)
   }"

definition gsmd_ucmd_fill :: "int \<Rightarrow> u8 \<Rightarrow> u8 \<Rightarrow> u16 \<Rightarrow> daemon \<Rightarrow> (gsmd_ucmd option \<times> daemon) option" where
  "gsmd_ucmd_fill len mtype msubtype ident g = do {
     (ucmd, g) \<leftarrow> ucmd_alloc len g;
     Some (map_option (u_hdr_update (\<lambda>_. hdr_mem \<lparr>version = GSMD_PROTO_VERSION, msg_type = mtype,
       msg_subtype = msubtype, hdr_id = ident, hdr_len = word_of_int len\<rparr>)) ucmd, g)
   }"

text \<open>A command of the daemon itself or of a client: fill, test for NULL, submit.\<close>

definition fill_submit :: "string \<Rightarrow> nat \<Rightarrow> gcb option \<Rightarrow> u16 \<Rightarrow> daemon \<Rightarrow> (int \<times> daemon) option" where
  "fill_submit s rlen cb ident g = do {
     (cmd, g) \<leftarrow> atcmd_fill s rlen (map_option Cb cb) ident g;
     case cmd of None \<Rightarrow> Some (- ENOMEM, g) | Some c \<Rightarrow> atcmd_submit g c
   }"

definition gsmd_simplecmd :: "string \<Rightarrow> daemon \<Rightarrow> (int \<times> daemon) option" where
  "gsmd_simplecmd cmdtxt g = fill_submit cmdtxt (length cmdtxt + 1) (Some (Gsmd_test_atcb, 0)) 0 g"

section \<open>What every operation keeps\<close>

text \<open>
  An answer is a packet: eight octets of a header with the version, one of the message types, and the number
  of the octets behind it.
\<close>

definition packet_ok :: "gsmd_ucmd \<Rightarrow> bool" where
  "packet_ok u \<longleftrightarrow> length (u_hdr u) = sizeof_hdr \<and> mem_u8 (u_hdr u) 0 = Some GSMD_PROTO_VERSION \<and>
     (\<exists>t. mem_u8 (u_hdr u) 1 = Some t \<and> t < NUM_GSMD_MSGS) \<and> mem_u16 (u_hdr u) 6 = Some (of_nat (length (u_buf u)))"

text \<open>
  \<open>user_grows\<close>: a client keeps its address and its queued answers, further ones come behind them, and if the
  write event was requested for what is queued, and that are packets, it still is so. Nearly every operation
  of the daemon relates its states by \<open>daemon_grows\<close>.
\<close>

definition user_live :: "gsmd_user \<Rightarrow> bool" where
  "user_live u \<longleftrightarrow> (finished_ucmds u \<noteq> [] \<longrightarrow> gu_write u) \<and> list_all packet_ok (finished_ucmds u)"

definition user_grows :: "gsmd_user \<Rightarrow> gsmd_user \<Rightarrow> bool" where
  "user_grows u v \<longleftrightarrow> gu_ptr v = gu_ptr u \<and> (\<exists>xs. finished_ucmds v = finished_ucmds u @ xs) \<and> (user_live u \<longrightarrow> user_live v)"

definition world_grows :: "gworld \<Rightarrow> gworld \<Rightarrow> bool" where
  "world_grows w v \<longleftrightarrow> list_all2 user_grows (users w) (users v)"

definition daemon_grows :: "daemon \<Rightarrow> daemon \<Rightarrow> bool" where
  "daemon_grows g g' \<longleftrightarrow> queue_grows g g' \<and> world_grows (world g) (world g')"

lemma user_grows_refl [simp]: "user_grows u u"
  by (simp add: user_grows_def)

lemma user_grows_trans: "user_grows a b \<Longrightarrow> user_grows b c \<Longrightarrow> user_grows a c"
  by (auto simp: user_grows_def)

lemma world_grows_same: "users v = users w \<Longrightarrow> world_grows w v"
  by (simp add: world_grows_def list_all2_same)

lemma world_grows_trans: "world_grows a b \<Longrightarrow> world_grows b c \<Longrightarrow> world_grows a c"
  unfolding world_grows_def by (rule list_all2_trans [OF user_grows_trans])

lemma grows_trans: "daemon_grows a b \<Longrightarrow> daemon_grows b c \<Longrightarrow> daemon_grows a c"
  using queue_grows_trans world_grows_trans by (auto simp: daemon_grows_def)

lemma grows_same_world: "queue_grows g g' \<Longrightarrow> world g' = world g \<Longrightarrow> daemon_grows g g'"
  by (simp add: daemon_grows_def world_grows_same)

lemma daemon_grows_refl [simp]: "daemon_grows g g"
  by (simp add: grows_same_world)

interpretation gr: step_rel daemon_grows
  by unfold_locales (rule daemon_grows_refl, rule grows_trans)

lemma grows_world: "(\<And>w. users (f w) = users w) \<Longrightarrow> daemon_grows g (upd_world f g)"
  by (simp add: daemon_grows_def upd_world_def world_grows_same)

lemma grows_user: "(\<And>u. user_grows u (h u)) \<Longrightarrow> daemon_grows g (upd_user gu h g)"
  by (simp add: daemon_grows_def upd_user_def upd_world_def world_grows_def list_all2_map2 list_all2_same)

lemma grows_timers: "daemon_grows g (g\<lparr>g_timers := ts\<rparr>)"
  by (simp add: grows_same_world)

named_theorems grows \<open>operations after which the queues are as before, or longer\<close>

lemma g_alloc_grows: "g_alloc g = (p, g') \<Longrightarrow> daemon_grows g g'"
  using queue_ok_next [of g "Suc (g_next g)"]
  by (cases g rule: g_alloc_cases) (auto intro!: grows_same_world simp: queue_grows_def)

lemma fill_grows: "atcmd_fill s rlen cb i g = Some (c, g') \<Longrightarrow> daemon_grows g g'"
  using atcmd_fill_world [of s rlen cb i g] queue_grows_fill [of s rlen cb i g] by (simp add: grows_same_world)

lemma fresh_submit_grows:
  assumes "atcmd_submit g1 c = Some (rc, g')" "daemon_grows g g1" "queue_ok g \<Longrightarrow> fresh_cmd c g1"
  shows "daemon_grows g g'"
  using submit_grows [OF assms(1) _ assms(3)] assms(2) atcmd_submit_world [OF assms(1)] by (simp add: daemon_grows_def)

lemma fill_then_submit:
  "atcmd_fill s rlen cb i g = Some (Some c, g1) \<Longrightarrow> atcmd_submit g1 c = Some (rc, g') \<Longrightarrow> daemon_grows g g'"
  using fresh_submit_grows [OF _ fill_grows] atcmd_fill_ok(2) by blast

lemma ucmd_alloc_grows [grows]: "gr.keeps g (ucmd_alloc n g)"
  using g_alloc_grows by (auto simp: ucmd_alloc_def gr.keeps_def split: prod.splits option.splits)

lemma enqueue_grows [grows]: "packet_ok u \<Longrightarrow> gr.keeps g (usock_cmd_enqueue u gu g)"
  unfolding usock_cmd_enqueue_def
  by (rule gr.keeps_read, rule gr.keeps_return, rule grows_user) (simp add: user_grows_def user_live_def)

lemma ucmd_fill_grows [grows]: "gr.keeps g (gsmd_ucmd_fill n t s i g)"
  unfolding gsmd_ucmd_fill_def by (intro gr.keeps_bind gr.keeps_same ucmd_alloc_grows)

text \<open>What \<open>gsmd_ucmd_fill\<close> returns is a packet, and stays one when the data are filled in.\<close>

named_theorems lens \<open>what is written into the data does not change their length\<close>

lemma hdr_mem_reads:
  "mem_u8 (hdr_mem h) 0 = Some (version h)" "mem_u8 (hdr_mem h) 1 = Some (msg_type h)" "mem_u16 (hdr_mem h) 6 = Some (hdr_len h)"
proof -
  have "rd_hdr (hdr_mem h) = Some h" by (rule rd_hdr_mem) (simp add: mem_at_def)
  then show "mem_u8 (hdr_mem h) 0 = Some (version h)" "mem_u8 (hdr_mem h) 1 = Some (msg_type h)" "mem_u16 (hdr_mem h) 6 = Some (hdr_len h)"
    by (auto simp: rd_hdr_def split: bind_splits)
qed

lemma ucmd_fill_packet:
  assumes "gsmd_ucmd_fill n t s i g = Some (x, g1)" "x = Some u" "t < NUM_GSMD_MSGS" "length b = length (u_buf u)"
  shows "packet_ok (u\<lparr>u_buf := b\<rparr>)"
  using assms
  by (auto simp: gsmd_ucmd_fill_def ucmd_alloc_def packet_ok_def hdr_mem_reads simp del: One_nat_def
    split: bind_splits if_splits option.splits prod.splits)

lemma fill_submit_grows [grows]: "gr.keeps g (fill_submit s n cb i g)"
  unfolding gr.keeps_def fill_submit_def
  by (auto split: bind_splits option.splits dest: fill_grows fill_then_submit)

lemma simplecmd_grows [grows]: "gr.keeps g (gsmd_simplecmd s g)"
  unfolding gsmd_simplecmd_def by (rule fill_submit_grows)

section \<open>What an answer looks like\<close>

text \<open>\<open>ucmd_holds\<close>: a complete answer with the given header and data.\<close>

definition ucmd_of :: "u8 \<Rightarrow> u8 \<Rightarrow> u16 \<Rightarrow> mem \<Rightarrow> gsmd_ucmd" where
  "ucmd_of t s i b = \<lparr>u_hdr = hdr_mem \<lparr>version = GSMD_PROTO_VERSION, msg_type = t, msg_subtype = s, hdr_id = i,
     hdr_len = of_nat (length b)\<rparr>, u_buf = b\<rparr>"

text \<open>The state after an answer was queued, the allocation having succeeded.\<close>

definition queued :: "nat \<Rightarrow> gsmd_ucmd \<Rightarrow> daemon \<Rightarrow> daemon" where
  "queued gu u g = upd_user gu (\<lambda>x. x\<lparr>finished_ucmds := finished_ucmds x @ [u], gu_write := True\<rparr>) (snd (g_alloc g))"

lemma g_alloc_world [simp]: "world (snd (g_alloc g)) = world g"
  by (cases g rule: g_alloc_cases) auto

lemma find_user_alloc [simp]: "find_user gu (snd (g_alloc g)) = find_user gu g"
  by (simp add: find_user_def)

lemma ucmd_fill_Some:
  assumes "fst (g_alloc g) \<noteq> None" "n < 0x10000000 - 16"
  shows "gsmd_ucmd_fill (int n) t s i g = Some (Some \<lparr>u_hdr = hdr_mem \<lparr>version = GSMD_PROTO_VERSION, msg_type = t,
     msg_subtype = s, hdr_id = i, hdr_len = of_nat n\<rparr>, u_buf = fresh_mem n\<rparr>, snd (g_alloc g))"
  using assms by (cases "g_alloc g") (auto simp: gsmd_ucmd_fill_def ucmd_alloc_def)

lemma enqueue_queued:
  assumes "find_user gu g \<noteq> None"
  shows "usock_cmd_enqueue (ucmd_of t s i b) gu (snd (g_alloc g)) = Some ((), queued gu (ucmd_of t s i b) g)"
  using assms by (auto simp: usock_cmd_enqueue_def queued_def)

lemma find_user_upd:
  assumes "\<And>u. gu_ptr (f u) = gu_ptr u"
  shows "find_user a (upd_user gu f g) = (if a = gu then map_option f (find_user a g) else find_user a g)"
proof -
  have "List.find (\<lambda>u. gu_ptr u = a) (map (\<lambda>u. if gu_ptr u = gu then f u else u) us) =
      (if a = gu then map_option f (List.find (\<lambda>u. gu_ptr u = a) us) else List.find (\<lambda>u. gu_ptr u = a) us)" for us
    by (induction us) (auto simp: assms)
  then show ?thesis by (simp add: find_user_def upd_user_def upd_world_def)
qed

end
