(* ===== verification/Events.thy ===== *)
theory Events
  imports Daemon_State
begin

text \<open>
  Events: \<open>usock_build_event\<close>, \<open>ucmd_copy\<close>, \<open>usock_evt_send\<close> and the events made from error codes, of
  \<^verbatim>\<open>gsm/src/gsmd/unsolicited.c\<close>; the numbers of \<^verbatim>\<open>event.h\<close> and \<^verbatim>\<open>ts0707.h\<close>. An event is sent to every client that
  subscribed to it: the first one gets the message itself, the others a copy.
\<close>

abbreviation (input) sizeof_auxdata :: nat where "sizeof_auxdata \<equiv> 40"

text \<open>The identifier and the padding of an event's header are never written.\<close>

definition evt_hdr :: "u8 \<Rightarrow> u8 \<Rightarrow> nat \<Rightarrow> mem" where
  "evt_hdr t s len = map Some (b8 GSMD_PROTO_VERSION @ b8 t @ b8 s) @ fresh_mem 3 @ map Some (b16 (of_nat len))"

definition usock_build_event :: "u8 \<Rightarrow> nat \<Rightarrow> nat \<Rightarrow> daemon \<Rightarrow> (gsmd_ucmd option \<times> daemon) option" where
  "usock_build_event t s len g = do {
     (ucmd, g) \<leftarrow> ucmd_alloc (int len) g;
     Some (map_option (u_hdr_update (\<lambda>_. evt_hdr t (of_nat s) len)) ucmd, g)
   }"

text \<open>
  \<open>ucmd_copy\<close> copies \<open>hdr.len\<close> octets from the start of the structure, which begins with the list
  pointers (8 octets, overwritten when the copy is queued) and the header.
\<close>

definition copy_of :: "nat \<Rightarrow> gsmd_ucmd \<Rightarrow> gsmd_ucmd" where
  "copy_of len u =
     (let block = take len (fresh_mem 8 @ u_hdr u @ u_buf u); all = block @ fresh_mem (sizeof_ucmd + len - length block)
      in \<lparr>u_hdr = take sizeof_hdr (drop 8 all), u_buf = drop sizeof_ucmd all\<rparr>)"

definition ucmd_copy :: "gsmd_ucmd \<Rightarrow> daemon \<Rightarrow> (gsmd_ucmd option \<times> daemon) option" where
  "ucmd_copy orig g = do {
     len \<leftarrow> mem_u16 (u_hdr orig) 6;
     (copy, g) \<leftarrow> ucmd_alloc (int (unat len)) g;
     Some (map_option (\<lambda>_. copy_of (unat len) orig) copy, g)
   }"

fun evt_send_loop :: "gsmd_ucmd \<Rightarrow> nat \<Rightarrow> nat list \<Rightarrow> int \<Rightarrow> daemon \<Rightarrow> (int \<times> daemon) option" where
  "evt_send_loop ucmd evt [] num_sent g = Some (num_sent, g)"
| "evt_send_loop ucmd evt (a # as) num_sent g = do {
     gu \<leftarrow> find_user a g;
     if bit (subscriptions gu) evt then
       if num_sent = 0 then do {
         (_, g) \<leftarrow> usock_cmd_enqueue ucmd a g;
         evt_send_loop ucmd evt as (num_sent + 1) g
       }
       else do {
         (cpy, g) \<leftarrow> ucmd_copy ucmd g;
         case cpy of
           None \<Rightarrow> Some (num_sent, g)
         | Some cpy \<Rightarrow> do {
             (_, g) \<leftarrow> usock_cmd_enqueue cpy a g;
             evt_send_loop ucmd evt as (num_sent + 1) g
           }
       }
     else evt_send_loop ucmd evt as num_sent g
   }"

definition usock_evt_send :: "daemon \<Rightarrow> gsmd_ucmd \<Rightarrow> nat \<Rightarrow> (int \<times> daemon) option" where
  "usock_evt_send g ucmd evt = evt_send_loop ucmd evt (map gu_ptr (users (world g))) 0 g"

text \<open>Most events: build the message, fill it in, send it.\<close>

definition send_event :: "nat \<Rightarrow> nat \<Rightarrow> (mem \<Rightarrow> mem option) \<Rightarrow> daemon \<Rightarrow> (int \<times> daemon) option" where
  "send_event evt len fill g = do {
     (ucmd, g) \<leftarrow> usock_build_event GSMD_MSG_EVENT evt len g;
     case ucmd of
       None \<Rightarrow> Some (- ENOMEM, g)
     | Some u \<Rightarrow> do {
         b \<leftarrow> fill (u_buf u);
         usock_evt_send g (u\<lparr>u_buf := b\<rparr>) evt
       }
   }"

section \<open>Events from error codes\<close>

text \<open>The numbers of \<open>enum gsm0707_cme_error\<close> and \<open>enum gsmd_pin_type\<close>.\<close>

definition errors_creating_events :: "int list" where
  "errors_creating_events = [0, 1, 2, 5, 6, 7, 10, 11, 12, 17, 18, 40, 41, 42, 43, 44, 45, 46, 47]"

fun is_in_array :: "int \<Rightarrow> int list \<Rightarrow> bool" where
  "is_in_array v [] = False"
| "is_in_array v (x # xs) = (if x = v then True else is_in_array v xs)"

text \<open>The switch: the PIN that the modem waits for.\<close>

definition cme_pin :: "int \<Rightarrow> int option" where
  "cme_pin n =
     (if n = 5 then Some 3 else if n = 6 then Some 4 else if n = 7 then Some 5
      else if n = 11 then Some 1 else if n = 12 then Some 2 else if n = 17 then Some 6 else if n = 18 then Some 7
      else if n = 40 then Some 8 else if n = 41 then Some 9 else if n = 42 then Some 10 else if n = 43 then Some 11
      else if n = 44 then Some 12 else if n = 45 then Some 13 else if n = 46 then Some 14 else if n = 47 then Some 15
      else None)"

definition generate_event_from_cme :: "daemon \<Rightarrow> int \<Rightarrow> (int \<times> daemon) option" where
  "generate_event_from_cme g cme_error =
     (if \<not> is_in_array cme_error errors_creating_events then do {
        (gu, g) \<leftarrow> usock_build_event GSMD_MSG_EVENT GSMD_EVT_IN_ERROR sizeof_auxdata g;
        case gu of
          None \<Rightarrow> Some (- 1, g)
        | Some u \<Rightarrow> do {
            b \<leftarrow> mem_put (u_buf u) 0 (bint cme_error);
            usock_evt_send g (u\<lparr>u_buf := b\<rparr>) GSMD_EVT_IN_ERROR
          }
      }
      else do {
        (gu, g) \<leftarrow> usock_build_event GSMD_MSG_EVENT GSMD_EVT_PIN sizeof_auxdata g;
        case gu of
          None \<Rightarrow> Some (- 1, g)
        | Some u \<Rightarrow>
            (case cme_pin cme_error of
               None \<Rightarrow> Some (0, g)
             | Some p \<Rightarrow> do {
                 b \<leftarrow> mem_put (u_buf u) 0 (bint p);
                 usock_evt_send g (u\<lparr>u_buf := b\<rparr>) GSMD_EVT_PIN
               })
      })"

definition generate_event_from_cms :: "daemon \<Rightarrow> int \<Rightarrow> (int \<times> daemon) option" where
  "generate_event_from_cms g cms_error = do {
     (gu, g) \<leftarrow> usock_build_event GSMD_MSG_EVENT GSMD_EVT_IN_ERROR sizeof_auxdata g;
     case gu of
       None \<Rightarrow> Some (- 1, g)
     | Some u \<Rightarrow> do {
         b \<leftarrow> mem_put (u_buf u) 0 (bint cms_error);
         usock_evt_send g (u\<lparr>u_buf := b\<rparr>) GSMD_EVT_IN_ERROR
       }
   }"

section \<open>Lemmas\<close>

lemma build_event_grows [grows]: "gr.keeps g (usock_build_event t s n g)"
  unfolding usock_build_event_def by (intro gr.keeps_rules grows)

lemma ucmd_copy_grows [grows]: "gr.keeps g (ucmd_copy u g)"
  unfolding ucmd_copy_def by (intro gr.keeps_read gr.keeps_bind gr.keeps_same grows)

text \<open>The copy of an event of 16 octets or more is a packet, since its header is complete.\<close>

definition event_ok :: "gsmd_ucmd \<Rightarrow> bool" where
  "event_ok u \<longleftrightarrow> packet_ok u \<and> 16 \<le> length (u_buf u) \<and> length (u_buf u) < 65536"

lemma evt_hdr_reads:
  "mem_u8 (evt_hdr t s n) 0 = Some GSMD_PROTO_VERSION" "mem_u8 (evt_hdr t s n) 1 = Some t" "mem_u16 (evt_hdr t s n) 6 = Some (of_nat n)"
  "length (evt_hdr t s n) = sizeof_hdr"
proof -
  have "mem_at (evt_hdr t s n) 0 (evt_hdr t s n)" by (simp add: mem_at_def)
  then have "mem_at (evt_hdr t s n) 0 (map Some (b8 GSMD_PROTO_VERSION))" "mem_at (evt_hdr t s n) 1 (map Some (b8 t))"
      "mem_at (evt_hdr t s n) 6 (map Some (b16 (of_nat n)))"
    unfolding evt_hdr_def map_append by (simp_all only: mem_at_append) (simp_all add: evt_hdr_def)
  then show "mem_u8 (evt_hdr t s n) 0 = Some GSMD_PROTO_VERSION" "mem_u8 (evt_hdr t s n) 1 = Some t"
      "mem_u16 (evt_hdr t s n) 6 = Some (of_nat n)" "length (evt_hdr t s n) = sizeof_hdr"
    by (simp_all add: mem_at_readers) (simp add: evt_hdr_def)
qed

lemma event_built [lens]:
  assumes "usock_build_event GSMD_MSG_EVENT s n g = Some (x, g1)" "x = Some u" "length b = length (u_buf u)" "16 \<le> n" "n < 65536"
  shows "event_ok (u\<lparr>u_buf := b\<rparr>)"
  using assms
  by (auto simp: usock_build_event_def ucmd_alloc_def event_ok_def packet_ok_def evt_hdr_reads
    simp del: One_nat_def split: bind_splits if_splits option.splits prod.splits)

lemma event_filled: "event_ok u \<Longrightarrow> length b = length (u_buf u) \<Longrightarrow> event_ok (u\<lparr>u_buf := b\<rparr>)"
  by (simp add: event_ok_def packet_ok_def)

lemma event_new: "usock_build_event GSMD_MSG_EVENT s n g = Some (Some u, g1) \<Longrightarrow> 16 \<le> n \<Longrightarrow> n < 65536 \<Longrightarrow> event_ok u"
  using event_built [OF _ refl refl, of s n g u g1] by simp

lemma copy_packet:
  assumes "event_ok u" "ucmd_copy u g = Some (x, g1)" "x = Some c"
  shows "packet_ok c"
proof -
  have l: "length (u_hdr u) = 8" "mem_u16 (u_hdr u) 6 = Some (of_nat (length (u_buf u)))" "16 \<le> length (u_buf u)" "length (u_buf u) < 65536"
    and p: "packet_ok u" using assms(1) by (auto simp: event_ok_def packet_ok_def)
  have n: "unat (of_nat (length (u_buf u)) :: u16) = length (u_buf u)" using l(4) by (simp add: unat_of_nat)
  have c: "c = copy_of (length (u_buf u)) u" using assms(2,3) l(2) by (auto simp: ucmd_copy_def n split: bind_splits)
  have "u_hdr c = u_hdr u" "length (u_buf c) = length (u_buf u)"
    using l(1,3) by (simp_all add: c copy_of_def Let_def)
  then show ?thesis using p by (simp add: packet_ok_def)
qed

lemma evt_send_loop_grows [grows]: "event_ok u \<Longrightarrow> gr.keeps g (evt_send_loop u evt as n g)"
proof (induction as arbitrary: n g)
  case (Cons a as)
  then show ?case
    unfolding evt_send_loop.simps
    by (intro gr.keeps_read [where m = "find_user a g"] gr.keeps_if gr.keeps_bind gr.keeps_option gr.keeps_same grows)
      (auto simp: event_ok_def intro: copy_packet)
qed (simp add: gr.keeps_same)

lemma evt_send_grows [grows]: "event_ok u \<Longrightarrow> gr.keeps g (usock_evt_send g u evt)"
  unfolding usock_evt_send_def by (rule grows)

lemma send_event_grows [grows]:
  assumes "\<And>b b'. f b = Some b' \<Longrightarrow> length b' = length b" "16 \<le> n" "n < 65536"
  shows "gr.keeps g (send_event evt n f g)"
  unfolding send_event_def
  by (rule gr.keeps_bind, rule grows, rule gr.keeps_option, rule gr.keeps_same, rule gr.keeps_read, rule grows, rule lens)
    (use assms in auto)

lemma cme_grows [grows]: "gr.keeps g (generate_event_from_cme g n)"
  unfolding generate_event_from_cme_def
  by (rule gr.keeps_if; rule gr.keeps_bind, rule grows, rule gr.keeps_option, rule gr.keeps_same,
    (rule gr.keeps_option, rule gr.keeps_same)?, rule gr.keeps_read, rule grows, rule lens) (auto dest: mem_put_length)

lemma cms_grows [grows]: "gr.keeps g (generate_event_from_cms g n)"
  unfolding generate_event_from_cms_def
  by (rule gr.keeps_bind, rule grows, rule gr.keeps_option, rule gr.keeps_same, rule gr.keeps_read, rule grows, rule lens)
    (auto dest: mem_put_length)

section \<open>Delivery\<close>

definition push_ucmd :: "gsmd_ucmd \<Rightarrow> gsmd_user \<Rightarrow> gsmd_user" where
  "push_ucmd u x = x\<lparr>finished_ucmds := finished_ucmds x @ [u], gu_write := True\<rparr>"

definition subscribed :: "nat \<Rightarrow> gsmd_user \<Rightarrow> bool" where
  "subscribed evt x \<longleftrightarrow> bit (subscriptions x) evt"

fun evt_deliver :: "nat \<Rightarrow> gsmd_ucmd \<Rightarrow> gsmd_ucmd \<Rightarrow> gsmd_user list \<Rightarrow> gsmd_user list" where
  "evt_deliver evt u cpy [] = []"
| "evt_deliver evt u cpy (x # xs) =
     (if subscribed evt x then push_ucmd u x # evt_deliver evt cpy cpy xs else x # evt_deliver evt u cpy xs)"

lemma find_user_middle:
  assumes "users (world g) = pre @ x # rest" "distinct (map gu_ptr (pre @ x # rest))"
  shows "find_user (gu_ptr x) g = Some x"
proof -
  have "gu_ptr x \<notin> gu_ptr ` set pre" using assms(2) by auto
  then have "List.find (\<lambda>u. gu_ptr u = gu_ptr x) (pre @ x # rest) = Some x"
    by (induction pre) auto
  then show ?thesis by (simp add: find_user_def assms(1))
qed

lemma enqueue_middle:
  assumes "users (world g) = pre @ x # rest" "distinct (map gu_ptr (pre @ x # rest))"
  shows "\<exists>g1. usock_cmd_enqueue u (gu_ptr x) g = Some ((), g1) \<and> users (world g1) = pre @ push_ucmd u x # rest \<and>
    g_mem g1 = g_mem g"
proof -
  have "\<forall>y \<in> set pre \<union> set rest. gu_ptr y \<noteq> gu_ptr x" using assms(2) by (auto simp: rev_image_eqI)
  then have "map (\<lambda>y. if gu_ptr y = gu_ptr x then push_ucmd u y else y) (pre @ x # rest) = pre @ push_ucmd u x # rest"
    by (auto intro: map_idI)
  note this [unfolded push_ucmd_def]
  then show ?thesis
    by (simp add: usock_cmd_enqueue_def find_user_middle [OF assms] upd_user_def upd_world_def assms(1) push_ucmd_def)
qed

definition wf_ucmd :: "gsmd_ucmd \<Rightarrow> nat \<Rightarrow> bool" where
  "wf_ucmd u len \<longleftrightarrow> length (u_hdr u) = sizeof_hdr \<and> length (u_buf u) = len \<and> mem_u16 (u_hdr u) 6 = Some (of_nat len) \<and>
     len < 65536"

lemma ucmd_copy_eq:
  assumes "wf_ucmd u len" "g_mem g = []"
  shows "\<exists>g1. ucmd_copy u g = Some (Some (copy_of len u), g1) \<and> world g1 = world g \<and> g_mem g1 = []"
proof -
  have l: "mem_u16 (u_hdr u) 6 = Some (of_nat len)" "len < 65536" using assms(1) by (simp_all add: wf_ucmd_def)
  have n: "unat (of_nat len :: u16) = len" using l(2) by (simp add: unat_of_nat take_bit_nat_eq_self)
  show ?thesis
    unfolding ucmd_copy_def ucmd_alloc_def l(1) bind.bind_lunit n using l(2) assms(2) by (simp add: g_alloc_def)
qed

lemma push_ptr [simp]: "gu_ptr (push_ucmd u x) = gu_ptr x"
  by (simp add: push_ucmd_def)

lemma evt_send_loop_deliver:
  assumes "users (world g) = pre @ rest" "distinct (map gu_ptr (pre @ rest))" "g_mem g = []" "wf_ucmd u len" "0 \<le> n"
  shows "\<exists>g'. evt_send_loop u evt (map gu_ptr rest) n g = Some (n + int (length (filter (subscribed evt) rest)), g') \<and>
     users (world g') = pre @ evt_deliver evt (if n = 0 then u else copy_of len u) (copy_of len u) rest \<and> g_mem g' = []"
  using assms
proof (induction rest arbitrary: g pre n)
  case (Cons x rest)
  have f: "find_user (gu_ptr x) g = Some x" by (rule find_user_middle [OF Cons.prems(1,2)])
  show ?case
  proof (cases "subscribed evt x")
    case False
    then have "evt_send_loop u evt (map gu_ptr (x # rest)) n g = evt_send_loop u evt (map gu_ptr rest) n g"
      by (simp add: f subscribed_def)
    then show ?thesis using Cons.IH [of g "pre @ [x]" n] Cons.prems False by auto
  next
    case True
    define v where "v = (if n = 0 then u else copy_of len u)"
    obtain g0 where g0: "world g0 = world g" "g_mem g0 = []"
        "evt_send_loop u evt (map gu_ptr (x # rest)) n g =
          do { (_, g) \<leftarrow> usock_cmd_enqueue v (gu_ptr x) g0; evt_send_loop u evt (map gu_ptr rest) (n + 1) g }"
    proof (cases "n = 0")
      case True
      then show thesis using \<open>subscribed evt x\<close> Cons.prems(3) f by (intro that [of g]) (simp_all add: subscribed_def v_def)
    next
      case False
      obtain g1 where "ucmd_copy u g = Some (Some (copy_of len u), g1)" "world g1 = world g" "g_mem g1 = []"
        using ucmd_copy_eq [OF Cons.prems(4,3)] by auto
      then show thesis using \<open>subscribed evt x\<close> False f by (intro that [of g1]) (simp_all add: subscribed_def v_def)
    qed
    obtain g1 where g1: "usock_cmd_enqueue v (gu_ptr x) g0 = Some ((), g1)" "users (world g1) = pre @ push_ucmd v x # rest"
        "g_mem g1 = []"
      using enqueue_middle [of g0 pre x rest v] Cons.prems(1,2) g0(1,2) by auto
    have "\<exists>g'. evt_send_loop u evt (map gu_ptr rest) (n + 1) g1 = Some (n + 1 + int (length (filter (subscribed evt) rest)), g') \<and>
       users (world g') = (pre @ [push_ucmd v x]) @ evt_deliver evt (copy_of len u) (copy_of len u) rest \<and> g_mem g' = []"
      using Cons.IH [of g1 "pre @ [push_ucmd v x]" "n + 1"] g1 Cons.prems(2,4,5) by simp
    then show ?thesis using True g0(3) g1(1) by (auto simp: v_def)
  qed
qed simp

section \<open>Properties\<close>


definition ex_oc :: opcache where
  "ex_oc = \<lparr>oc_head = 1, oc_links = \<lparr>nxt = (\<lambda>_. 1), prv = (\<lambda>_. 1)\<rparr>, oc_obj = (\<lambda>_. None)\<rparr>"

definition ex_sms_list :: gsmd_sms_list where
  "ex_sms_list = \<lparr>sl_index = 0, sl_stat = 0, time_stamp = replicate 7 0, sl_addr = \<lparr>addr_type = 0, addr_number = replicate 33 0\<rparr>,
     sl_payload = \<lparr>sms_length = 0, coding_scheme = 0, has_header = 0, is_voicemail = 0,
       dcs = \<lparr>msg_class = 0, alphabet = 0, is_compressed = 0, mwi_group = 0, mwi_active = 0, mwi_kind = 0, raw_dcs_data = 0\<rparr>,
       sms_data = replicate 165 0\<rparr>, is_last = 0\<rparr>"

definition ex_cbm :: gsmd_cbm where
  "ex_cbm = \<lparr>scope = 0, msg_code = 0, update_num = 0, msg_id = 0, language = 0, cbm_coding_scheme = 0, pages = 0, page = 0,
     cbm_data = replicate 82 0\<rparr>"

definition ex_user :: "nat \<Rightarrow> u32 \<Rightarrow> gsmd_user" where
  "ex_user a m = \<lparr>gu_ptr = a, finished_ucmds = [], gu_write = False, subscriptions = m, pb_readrg_list = [], pb_find_list = []\<rparr>"

definition ex_daemon :: "gsmd_user list \<Rightarrow> daemon" where
  "ex_daemon us = \<lparr>g_flags = 0, interpreter_ready = True, uart_write = False, pending_atcmds = [], busy_atcmds = [],
     ext_chars = ''%'', mlbuf = replicate MLPARSE_BUF_SIZE NUL, mlbuf_len = 0, mlunsolicited = False,
     wakeup_timer = Some 1, g_timers = [], g_mem = [], g_next = 10,
     world = \<lparr>users = us, dev_on = False, ciph_flags = 0, vendorpl = None, operators = ex_oc, op_allocs = [], unsolicit = [], alive_privs = [],
       firstcmd_response = False, stack_sms = ex_sms_list, stack_cbm = ex_cbm, stack_pdu = replicate 180 0, stack_int = 0\<rparr>\<rparr>"

definition ex_event :: gsmd_ucmd where
  "ex_event = \<lparr>u_hdr = evt_hdr GSMD_MSG_EVENT 1 40, u_buf = map Some (bint 2) @ fresh_mem 36\<rparr>"

lemma wf_ex_event: "wf_ucmd ex_event 40"
proof -
  have "mem_at (u_hdr ex_event) 6 (map Some (b16 40))"
    by (simp add: ex_event_def evt_hdr_def mem_at_def)
  then show ?thesis using mem_at_readers(2) by (auto simp: wf_ucmd_def ex_event_def evt_hdr_def)
qed


text \<open>The copy of an event lacks its last 16 octets: the length of the data is taken for the length of the
  whole structure, which has 16 octets before the data.
\<close>

theorem event_copy_truncated:
  assumes "wf_ucmd u len" "16 \<le> len"
  shows "u_hdr (copy_of len u) = u_hdr u \<and> u_buf (copy_of len u) = take (len - 16) (u_buf u) @ fresh_mem 16"
  using assms by (simp_all add: copy_of_def wf_ucmd_def Let_def fresh_mem_def)

theorem event_copy_truncated_witness:
  "u_buf (copy_of 40 ex_event) = take 24 (u_buf ex_event) @ fresh_mem 16"
  using event_copy_truncated [OF wf_ex_event] by simp

end
