(* ===== verification/Sms_Events.thy ===== *)
theory Sms_Events
  imports Events Sms_Pdu_Laws
begin

text \<open>
  The unsolicited responses about short messages and cell broadcasts, of \<^verbatim>\<open>gsm/src/gsmd/sms_cb.c\<close>: a stored
  message (\<open>+CMTI\<close>, \<open>+CBMI\<close>, \<open>+CDSI\<close>) is announced by its memory and index, a delivered one (\<open>+CMT\<close>, \<open>+CBM\<close>,
  \<open>+CDS\<close>) comes with its PDU in hexadecimal on a second line and is decoded into the event.
\<close>

definition ts0705_memtype_name :: "string list" where
  "ts0705_memtype_name = [''NONE'', ''BM'', ''ME'', ''MT'', ''SM'', ''TA'', ''SR'']"

fun memtype_from :: "nat \<Rightarrow> string list \<Rightarrow> string \<Rightarrow> nat" where
  "memtype_from i [] s = 0"
| "memtype_from i (n # ns) s = (if n = s then i else memtype_from (Suc i) ns s)"

definition parse_memtype :: "string \<Rightarrow> nat" where
  "parse_memtype memtype = memtype_from 0 ts0705_memtype_name memtype"

text \<open>
  The parameter of a parser is a pointer behind the colon of the line: NULL if that is behind the end of
  the line, and a wild pointer if the line has no colon.
\<close>

datatype param = P_null | P_wild | P_str string

fun deref :: "param \<Rightarrow> string option" where
  "deref (P_str s) = Some s"
| "deref _ = None"

text \<open>\<open>strtoul (s, &cr, 10)\<close>: the value as an \<open>int\<close> and the rest.\<close>

definition strtoul_end :: "string \<Rightarrow> int \<times> string" where
  "strtoul_end s =
     (let (_, t) = split_sign (dropWhile is_space s)
      in if takeWhile is_digit t = [] then (0, s) else (to_int32 (c_strtoul s), dropWhile is_digit t))"

text \<open>The loop over the hexadecimal digits; \<open>None\<close> is malformed input.\<close>

fun hex_pdu :: "nat \<Rightarrow> string \<Rightarrow> u8 list option" where
  "hex_pdu (Suc n) (a # b # r) =
     (if 48 \<le> char_code a \<and> 48 \<le> char_code b then
        (case scan_hhX a b of
           None \<Rightarrow> None
         | Some x \<Rightarrow> map_option ((#) x) (hex_pdu n r))
      else Some [])"
| "hex_pdu _ _ = Some []"

abbreviation (input) SMS_MAX_PDU_SIZE :: nat where "SMS_MAX_PDU_SIZE \<equiv> 180"

text \<open>The array \<open>pdu\<close> after the loop: behind the octets read it is what the stack held.\<close>

definition pdu_array :: "nat \<Rightarrow> u8 list \<Rightarrow> daemon \<Rightarrow> u8 list" where
  "pdu_array n xs g = xs @ take (n - length xs) (drop (length xs) (stack_pdu (world g)))"

section \<open>Announced messages\<close>

definition memidx_fmt :: "conv list" where
  "memidx_fmt = [C_Lit CHR 0x22, C_Set 2 upper_AZ True, C_Lit CHR 0x22, C_Lit CHR '','', C_Int True]"

definition index_event :: "nat \<Rightarrow> param \<Rightarrow> daemon \<Rightarrow> (int \<times> daemon) option" where
  "index_event evt param g = do {
     (ucmd, g) \<leftarrow> usock_build_event GSMD_MSG_EVENT evt sizeof_auxdata g;
     case ucmd of
       None \<Rightarrow> Some (- ENOMEM, g)
     | Some u \<Rightarrow> do {
         s \<leftarrow> deref param;
         case sscanf s memidx_fmt of
           (_, [V_Str memstr, V_Int index]) \<Rightarrow> do {
             b \<leftarrow> mem_put (u_buf u) 8 (bint index);
             b \<leftarrow> mem_put b 0 (bint 0);
             b \<leftarrow> mem_put b 4 (b8 (of_nat (parse_memtype memstr)));
             usock_evt_send g (u\<lparr>u_buf := b\<rparr>) evt
           }
         | _ \<Rightarrow> Some (- EINVAL, g)
       }
   }"

definition cmti_parse :: "param \<Rightarrow> daemon \<Rightarrow> (int \<times> daemon) option" where
  "cmti_parse = index_event GSMD_EVT_IN_SMS"

definition cbmi_parse :: "param \<Rightarrow> daemon \<Rightarrow> (int \<times> daemon) option" where
  "cbmi_parse = index_event GSMD_EVT_IN_CBM"

definition cdsi_parse :: "param \<Rightarrow> daemon \<Rightarrow> (int \<times> daemon) option" where
  "cdsi_parse = index_event GSMD_EVT_IN_DS"

section \<open>Delivered messages\<close>

text \<open>
  The common end of \<open>cmt_parse\<close> and \<open>cds_parse\<close>: \<open>s\<close> is the text with the length and the PDU. The message
  is decoded into memory that holds anything (\<open>stack_sms\<close>), so that the fields which a PDU does not set
  keep that.
\<close>

definition sms_event :: "nat \<Rightarrow> gsmd_ucmd \<Rightarrow> string \<Rightarrow> daemon \<Rightarrow> (int \<times> daemon) option" where
  "sms_event evt u s g =
     (let (len, cr) = strtoul_end s
      in if cr = [] \<or> hd cr \<noteq> LF then Some (- EAGAIN, g)
         else case hex_pdu SMS_MAX_PDU_SIZE (tl cr) of
                None \<Rightarrow> Some (- EINVAL, g)
              | Some pdu \<Rightarrow> do {
                  b \<leftarrow> mem_put (u_buf u) 0 (bint 1);
                  (rc, msg) \<leftarrow> sms_pdu_to_msg (stack_sms (world g)) (pdu_array SMS_MAX_PDU_SIZE pdu g) len (int (length pdu));
                  if rc \<noteq> 0 then Some (- EINVAL, g)
                  else do {
                    b \<leftarrow> wrn b sizeof_auxdata (sms_list_mem msg);
                    usock_evt_send g (u\<lparr>u_buf := b\<rparr>) evt
                  }
                })"

definition cmt_parse :: "param \<Rightarrow> daemon \<Rightarrow> (int \<times> daemon) option" where
  "cmt_parse param g = do {
     s \<leftarrow> deref param;
     (ucmd, g) \<leftarrow> usock_build_event GSMD_MSG_EVENT GSMD_EVT_IN_SMS (sizeof_auxdata + sizeof_sms_list) g;
     case ucmd of
       None \<Rightarrow> Some (- ENOMEM, g)
     | Some u \<Rightarrow>
         (case c_strchr s CHR '','' of
            None \<Rightarrow> Some (- EINVAL, g)
          | Some comma \<Rightarrow> sms_event GSMD_EVT_IN_SMS u (drop (comma + 1) s) g)
   }"

definition cds_parse :: "param \<Rightarrow> daemon \<Rightarrow> (int \<times> daemon) option" where
  "cds_parse param g = do {
     (ucmd, g) \<leftarrow> usock_build_event GSMD_MSG_EVENT GSMD_EVT_IN_DS (sizeof_auxdata + sizeof_sms_list) g;
     case ucmd of
       None \<Rightarrow> Some (- ENOMEM, g)
     | Some u \<Rightarrow> do { s \<leftarrow> deref param; sms_event GSMD_EVT_IN_DS u s g }
   }"

definition cbm_parse :: "param \<Rightarrow> daemon \<Rightarrow> (int \<times> daemon) option" where
  "cbm_parse param g = do {
     (ucmd, g) \<leftarrow> usock_build_event GSMD_MSG_EVENT GSMD_EVT_IN_CBM (sizeof_auxdata + sizeof_cbm) g;
     case ucmd of
       None \<Rightarrow> Some (- ENOMEM, g)
     | Some u \<Rightarrow> do {
         s \<leftarrow> deref param;
         let (len, cr) = strtoul_end s;
         if cr = [] \<or> hd cr \<noteq> LF then Some (- EAGAIN, g)
         else case hex_pdu CBM_MAX_PDU_SIZE (tl cr) of
                None \<Rightarrow> Some (- EINVAL, g)
              | Some pdu \<Rightarrow> do {
                  b \<leftarrow> mem_put (u_buf u) 0 (bint 1);
                  (rc, msg) \<leftarrow> cbs_pdu_to_msg (stack_cbm (world g)) (pdu_array CBM_MAX_PDU_SIZE pdu g) len (int (length pdu));
                  if rc \<noteq> 0 then Some (- EINVAL, g)
                  else do {
                    b \<leftarrow> wrn b sizeof_auxdata (cbm_mem msg);
                    usock_evt_send g (u\<lparr>u_buf := b\<rparr>) GSMD_EVT_IN_CBM
                  }
                }
       }
   }"

definition gsm0705_unsolicit :: "(string \<times> unsol_fn) list" where
  "gsm0705_unsolicit = [(''+CMTI'', Cmti_parse), (''+CMT'', Cmt_parse), (''+CBMI'', Cbmi_parse), (''+CBM'', Cbm_parse),
     (''+CDSI'', Cdsi_parse), (''+CDS'', Cds_parse)]"

section \<open>When the phone registers\<close>

definition sms_cb_network_init :: "daemon \<Rightarrow> (int \<times> daemon) option" where
  "sms_cb_network_init g = do {
     (a, g) \<leftarrow> gsmd_simplecmd ''AT+CSMS=0'' g;
     (b, g) \<leftarrow> gsmd_simplecmd ''AT+CNMI=2,1,2,1,0'' g;
     Some (or_rc (or_rc 0 a) b, g)
   }"

section \<open>Lemmas\<close>

lemma index_event_grows [grows]: "gr.keeps g (index_event evt p g)"
proof -
  have "gr.keeps g1 (case sscanf s memidx_fmt of
           (_, [V_Str memstr, V_Int index]) \<Rightarrow> do {
             b \<leftarrow> mem_put (u_buf u) 8 (bint index);
             b \<leftarrow> mem_put b 0 (bint 0);
             b \<leftarrow> mem_put b 4 (b8 (of_nat (parse_memtype memstr)));
             usock_evt_send g1 (u\<lparr>u_buf := b\<rparr>) evt
           }
         | _ \<Rightarrow> Some (- EINVAL, g1))" if "event_ok u" for u s g1
    using that
    by (auto split: prod.split list.split sval.split intro!: gr.keeps_same gr.keeps_read grows event_filled dest!: mem_put_length)
  then show ?thesis
    unfolding index_event_def
    by (intro gr.keeps_bind gr.keeps_option gr.keeps_same gr.keeps_read [where m = "deref p"] grows) (auto dest: event_new)
qed

lemma cmti_grows [grows]: "gr.keeps g (cmti_parse p g)" "gr.keeps g (cbmi_parse p g)" "gr.keeps g (cdsi_parse p g)"
  unfolding cmti_parse_def cbmi_parse_def cdsi_parse_def by (rule grows)+

lemma sms_event_grows [grows]: "event_ok u \<Longrightarrow> gr.keeps g (sms_event evt u s g)"
  unfolding sms_event_def Let_def
  by (auto split: prod.split option.split intro!: gr.keeps_same gr.keeps_read grows event_filled dest!: mem_put_length wrn_length)

lemma cmt_grows [grows]: "gr.keeps g (cmt_parse p g)"
  unfolding cmt_parse_def
  by (rule gr.keeps_read, rule gr.keeps_bind, rule grows, rule gr.keeps_option, rule gr.keeps_same, rule gr.keeps_option,
    rule gr.keeps_same, rule grows) (auto dest: event_new)

lemma cds_grows [grows]: "gr.keeps g (cds_parse p g)"
  unfolding cds_parse_def
  by (rule gr.keeps_bind, rule grows, rule gr.keeps_option, rule gr.keeps_same, rule gr.keeps_read, rule grows)
    (auto dest: event_new)

lemma cbm_grows [grows]: "gr.keeps g (cbm_parse p g)"
  unfolding cbm_parse_def Let_def
  by (rule gr.keeps_bind, rule grows, rule gr.keeps_option, rule gr.keeps_same, rule gr.keeps_read)
    (auto split: prod.split option.split intro!: gr.keeps_same gr.keeps_read grows event_filled
      dest!: mem_put_length wrn_length event_new)

lemma network_init_grows [grows]: "gr.keeps g (sms_cb_network_init g)"
  unfolding sms_cb_network_init_def by (intro gr.keeps_bind gr.keeps_same grows)

end
