(* ===== verification/Ts0707.thy ===== *)
theory Ts0707
  imports Sms_Events
begin

text \<open>
  The parsers of GSM 07.07 responses that the modem sends on its own, of \<^verbatim>\<open>gsm/src/gsmd/unsolicited.c\<close>.
\<close>

section \<open>Library functions\<close>

text \<open>\<open>strtoul (s, NULL, 16)\<close>; a prefix \<open>0x\<close> is skipped.\<close>

definition c_strtoul16 :: "string \<Rightarrow> int" where
  "c_strtoul16 s =
     (let (neg, t) = split_sign (dropWhile is_space s);
          t = (if take 2 t = ''0x'' \<or> take 2 t = ''0X'' then drop 2 t else t);
          n = num_val 16 (takeWhile is_xdigit t)
      in if n > 4294967295 then 4294967295 else if neg then (- n) mod 4294967296 else n)"

text \<open>The string at an offset; an offset behind its NUL is outside of it.\<close>

definition str_at :: "string \<Rightarrow> nat \<Rightarrow> string option" where
  "str_at s i = (if i \<le> length s then Some (drop i s) else None)"

section \<open>Calls\<close>

text \<open>The numbers of \<open>enum gsmd_call_type\<close>.\<close>

definition ring_parse :: "daemon \<Rightarrow> (int \<times> daemon) option" where
  "ring_parse g = send_event GSMD_EVT_IN_CALL sizeof_auxdata (\<lambda>m. mem_put m 0 (bint 1)) g"

text \<open>For a service that is not in the list the type stays unset.\<close>

definition cring_parse :: "param \<Rightarrow> daemon \<Rightarrow> (int \<times> daemon) option" where
  "cring_parse param g = do {
     (ucmd, g) \<leftarrow> usock_build_event GSMD_MSG_EVENT GSMD_EVT_IN_CALL sizeof_auxdata g;
     case ucmd of
       None \<Rightarrow> Some (- ENOMEM, g)
     | Some u \<Rightarrow> do {
         s \<leftarrow> deref param;
         if s = ''VOICE'' then do {
           b \<leftarrow> mem_put (u_buf u) 0 (bint 2);
           usock_evt_send g (u\<lparr>u_buf := b\<rparr>) GSMD_EVT_IN_CALL
         }
         else if s = ''SYNC'' then do {
           b \<leftarrow> mem_put (u_buf u) 0 (bint 5);
           usock_evt_send g (u\<lparr>u_buf := b\<rparr>) GSMD_EVT_IN_CALL
         }
         else if s = ''REL ASYNC'' then do {
           b \<leftarrow> mem_put (u_buf u) 0 (bint 6);
           usock_evt_send g (u\<lparr>u_buf := b\<rparr>) GSMD_EVT_IN_CALL
         }
         else if s = ''REL SYNC'' then do {
           b \<leftarrow> mem_put (u_buf u) 0 (bint 7);
           usock_evt_send g (u\<lparr>u_buf := b\<rparr>) GSMD_EVT_IN_CALL
         }
         else if s = ''FAX'' then do {
           b \<leftarrow> mem_put (u_buf u) 0 (bint 4);
           usock_evt_send g (u\<lparr>u_buf := b\<rparr>) GSMD_EVT_IN_CALL
         }
         else if c_strneq s ''GPRS '' 5 then Some (0, g)
         else usock_evt_send g u GSMD_EVT_IN_CALL
       }
   }"

section \<open>Registration\<close>

definition creg_parse :: "param \<Rightarrow> daemon \<Rightarrow> (int \<times> daemon) option" where
  "creg_parse param g = do {
     s \<leftarrow> deref param;
     let comma = c_strchr s CHR '','';
     (ucmd, g) \<leftarrow> usock_build_event GSMD_MSG_EVENT GSMD_EVT_NETREG sizeof_auxdata g;
     case ucmd of
       None \<Rightarrow> Some (- ENOMEM, g)
     | Some u \<Rightarrow> do {
         let state = c_atoi s;
         b \<leftarrow> mem_put (u_buf u) 0 (bint state);
         codes \<leftarrow>
           (case comma of
              None \<Rightarrow> Some (Some (0, 0))
            | Some i \<Rightarrow> do {
                t \<leftarrow> str_at s (i + 2);
                let lac = c_strtoul16 t;
                case c_strchr (drop (i + 1) s) CHR '','' of
                  None \<Rightarrow> Some None
                | Some j \<Rightarrow> do {
                    t \<leftarrow> str_at s (i + 1 + j + 2);
                    Some (Some (lac, c_strtoul16 t))
                  }
              });
         case codes of
           None \<Rightarrow> Some (- EINVAL, g)
         | Some (lac, ci) \<Rightarrow> do {
             b \<leftarrow> mem_put b 4 (b16 (word_of_int lac));
             b \<leftarrow> mem_put b 6 (b16 (word_of_int ci));
             (_, g) \<leftarrow> (if state = 1 \<or> state = 5 then sms_cb_network_init g else Some (0, g));
             usock_evt_send g (u\<lparr>u_buf := b\<rparr>) GSMD_EVT_NETREG
           }
       }
   }"

section \<open>Call waiting, calling line, time zone, operator names\<close>

text \<open>The tokens are those of the whole line, so that the first one has the prefix of the response.\<close>

definition ccwa_parse :: "string \<Rightarrow> daemon \<Rightarrow> (int \<times> daemon) option" where
  "ccwa_parse buf g = do {
     (ucmd, g) \<leftarrow> usock_build_event GSMD_MSG_EVENT GSMD_EVT_CALL_WAIT sizeof_addr g;
     case ucmd of
       None \<Rightarrow> Some (- ENOMEM, g)
     | Some u \<Rightarrow> do {
         b \<leftarrow> mem_put (u_buf u) 0 (replicate sizeof_addr NUL);
         case strtok CHR '','' buf of
           None \<Rightarrow> Some (- EINVAL, g)
         | Some (token, rest) \<Rightarrow> do {
             b \<leftarrow> mem_put b 1 (take GSMD_ADDR_MAXLEN token @ replicate (GSMD_ADDR_MAXLEN - length token) NUL);
             case strtok CHR '','' rest of
               None \<Rightarrow> Some (- EINVAL, g)
             | Some (token, _) \<Rightarrow> do {
                 b \<leftarrow> mem_put b 0 (b8 (word_of_int (c_atoi token)));
                 usock_evt_send g (u\<lparr>u_buf := b\<rparr>) GSMD_EVT_CALL_WAIT
               }
           }
       }
   }"

definition cusd_parse :: "daemon \<Rightarrow> (int \<times> daemon) option" where "cusd_parse g = Some (0, g)"
definition cccm_parse :: "daemon \<Rightarrow> (int \<times> daemon) option" where "cccm_parse g = Some (0, g)"
definition cgev_parse :: "daemon \<Rightarrow> (int \<times> daemon) option" where "cgev_parse g = Some (0, g)"
definition cgreg_parse :: "daemon \<Rightarrow> (int \<times> daemon) option" where "cgreg_parse g = Some (0, g)"

text \<open>\<open>clip_parse\<close> and \<open>colp_parse\<close> differ in the event only.\<close>

definition line_parse :: "nat \<Rightarrow> param \<Rightarrow> daemon \<Rightarrow> (int \<times> daemon) option" where
  "line_parse evt param g = do {
     (ucmd, g) \<leftarrow> usock_build_event GSMD_MSG_EVENT evt sizeof_auxdata g;
     s \<leftarrow> deref param;
     case ucmd of
       None \<Rightarrow> Some (- ENOMEM, g)
     | Some u \<Rightarrow>
         (case c_strchr s CHR '','' of
            None \<Rightarrow> Some (- EINVAL, g)
          | Some comma \<Rightarrow>
              if comma > GSMD_ADDR_MAXLEN then Some (- EINVAL, g)
              else do {
                b \<leftarrow> mem_put (u_buf u) 1 (take comma s @ [NUL]);
                usock_evt_send g (u\<lparr>u_buf := b\<rparr>) evt
              })
   }"

definition clip_parse :: "param \<Rightarrow> daemon \<Rightarrow> (int \<times> daemon) option" where
  "clip_parse = line_parse GSMD_EVT_IN_CLIP"

definition colp_parse :: "param \<Rightarrow> daemon \<Rightarrow> (int \<times> daemon) option" where
  "colp_parse = line_parse GSMD_EVT_OUT_COLP"

definition ctzv_parse :: "param \<Rightarrow> daemon \<Rightarrow> (int \<times> daemon) option" where
  "ctzv_parse param g = do {
     (ucmd, g) \<leftarrow> usock_build_event GSMD_MSG_EVENT GSMD_EVT_TIMEZONE sizeof_auxdata g;
     case ucmd of
       None \<Rightarrow> Some (- ENOMEM, g)
     | Some u \<Rightarrow> do {
         s \<leftarrow> deref param;
         let tz = c_atoi s;
         if tz < - 48 \<or> tz > 48 then Some (- EINVAL, g)
         else do {
           b \<leftarrow> mem_put (u_buf u) 0 (b8 (word_of_int tz));
           usock_evt_send g (u\<lparr>u_buf := b\<rparr>) GSMD_EVT_TIMEZONE
         }
       }
   }"

text \<open>The allocation of the operator cache: the next address with its octets, or NULL.\<close>

definition op_alloc :: "daemon \<Rightarrow> (ptr \<times> string) option \<times> daemon" where
  "op_alloc g =
     (case op_allocs (world g) of
        [] \<Rightarrow> (None, g)
      | a # as \<Rightarrow> (Some a, upd_world (op_allocs_update (\<lambda>_. as)) g))"

definition copn_parse :: "param \<Rightarrow> daemon \<Rightarrow> (int \<times> daemon) option" where
  "copn_parse param g =
     (case param of
        P_null \<Rightarrow> Some (- ENOMEM, g)
      | P_wild \<Rightarrow> None
      | P_str s \<Rightarrow>
          if s = [] then Some (- ENOMEM, g)
          else do {
            let (p, g) = g_alloc g;
            er \<leftarrow> extrsp_parse (p \<noteq> None) (Some s);
            case er of
              None \<Rightarrow> Some (- ENOMEM, g)
            | Some er \<Rightarrow> do {
                let t0 = tokens er ! 0;
                let t1 = tokens er ! 1;
                if num_tokens er = 2 \<and> tok_type t0 = GSMD_ECMD_RTT_STRING \<and> tok_type t1 = GSMD_ECMD_RTT_STRING then do {
                  a \<leftarrow> c_str_at (tok_string t0);
                  b \<leftarrow> c_str_at (tok_string t1);
                  let (alloc, g) = op_alloc g;
                  (rc, oc) \<leftarrow> gsmd_opname_add alloc (operators (world g)) a b;
                  Some (rc, upd_world (operators_update (\<lambda>_. oc)) g)
                }
                else Some (0, g)
              }
          })"

section \<open>Lemmas\<close>

lemma ring_grows [grows]: "gr.keeps g (ring_parse g)"
  unfolding ring_parse_def by (rule grows) (auto dest: mem_put_length)

lemma cring_grows [grows]: "gr.keeps g (cring_parse p g)"
  unfolding cring_parse_def
  by (rule gr.keeps_bind, rule grows, rule gr.keeps_option, rule gr.keeps_same, rule gr.keeps_read)
    (intro gr.keeps_if gr.keeps_read [where m = "mem_put _ _ _"] gr.keeps_same grows;
      (rule event_built, assumption, assumption)?; auto dest: mem_put_length event_built [OF _ _ refl])

lemma creg_grows [grows]: "gr.keeps g (creg_parse p g)"
  unfolding creg_parse_def Let_def
  by (rule gr.keeps_read, rule gr.keeps_bind, rule grows, rule gr.keeps_option, rule gr.keeps_same, rule gr.keeps_read,
    rule gr.keeps_read, rule gr.keeps_option, rule gr.keeps_same, rule gr.keeps_split, rule gr.keeps_read, rule gr.keeps_read,
    rule gr.keeps_bind, rule gr.keeps_if, rule grows, rule gr.keeps_same, rule grows, rule event_built, assumption, assumption)
    (auto dest!: mem_put_length)

lemma ccwa_grows [grows]: "gr.keeps g (ccwa_parse buf g)"
  unfolding ccwa_parse_def
  by (rule gr.keeps_bind, rule grows, rule gr.keeps_option, rule gr.keeps_same, rule gr.keeps_read)
    (auto split: option.split intro!: gr.keeps_same gr.keeps_read grows event_filled dest!: mem_put_length event_new)

lemma line_grows [grows]: "gr.keeps g (line_parse evt p g)"
  unfolding line_parse_def
  by (rule gr.keeps_bind, rule grows, rule gr.keeps_read, rule gr.keeps_option, rule gr.keeps_same, rule gr.keeps_option,
    rule gr.keeps_same, rule gr.keeps_if, rule gr.keeps_same, rule gr.keeps_read, rule grows, rule event_built, assumption,
    assumption) (auto dest!: mem_put_length)

lemma ctzv_grows [grows]: "gr.keeps g (ctzv_parse p g)"
  unfolding ctzv_parse_def Let_def
  by (rule gr.keeps_bind, rule grows, rule gr.keeps_option, rule gr.keeps_same, rule gr.keeps_read, rule gr.keeps_if,
    rule gr.keeps_same, rule gr.keeps_read, rule grows, rule event_built, assumption, assumption) (auto dest!: mem_put_length)

lemma op_alloc_grows: "op_alloc g = (a, g') \<Longrightarrow> daemon_grows g g'"
  by (auto simp: op_alloc_def gr.R_refl intro: grows_world split: list.splits)

lemma keeps_alloc: "(\<And>p g1. gr.keeps g1 (f p g1)) \<Longrightarrow> gr.keeps g (case g_alloc g of (p, g1) \<Rightarrow> f p g1)"
  by (cases "g_alloc g") (simp add: gr.keeps_trans [OF g_alloc_grows])

lemma keeps_op_alloc: "(\<And>p g1. gr.keeps g1 (f p g1)) \<Longrightarrow> gr.keeps g (case op_alloc g of (p, g1) \<Rightarrow> f p g1)"
  by (cases "op_alloc g") (simp add: gr.keeps_trans [OF op_alloc_grows])

lemma copn_grows [grows]: "gr.keeps g (copn_parse p g)"
proof (cases p)
  case (P_str s)
  show ?thesis
    unfolding copn_parse_def P_str param.case Let_def
    by (rule gr.keeps_if, rule gr.keeps_same, rule keeps_alloc, rule gr.keeps_read, rule gr.keeps_option, rule gr.keeps_same,
      rule gr.keeps_if, rule gr.keeps_read, rule gr.keeps_read, rule keeps_op_alloc, rule gr.keeps_pure,
      rule gr.keeps_return, rule grows_world, simp, rule gr.keeps_same)
qed (simp_all add: copn_parse_def gr.keeps_same gr.keeps_None)

end
