(* ===== verification/Usock_Cb.thy ===== *)
theory Usock_Cb
  imports Ts0707
begin

text \<open>
  The callbacks that \<^verbatim>\<open>gsm/src/gsmd/usock.c\<close> gives to the AT commands of a client: each one turns the response
  of the modem into an answer for the client. Arguments are the command, the address of the client, and
  the response as a C string. Where the code follows a pointer that \<open>strchr\<close> may have left NULL, or leaves
  an array, the value is \<open>None\<close>.
\<close>

section \<open>Library functions\<close>

definition c_strrchr :: "string \<Rightarrow> char \<Rightarrow> nat option" where
  "c_strrchr s c = map_option (\<lambda>i. length s - 1 - i) (c_strchr (rev s) c)"

definition strpbrk :: "string \<Rightarrow> string \<Rightarrow> string option" where
  "strpbrk s delim = (let t = dropWhile (\<lambda>c. c \<notin> set delim) s in if t = [] then None else Some t)"

section \<open>Answers\<close>

text \<open>
  Most callbacks have one shape: the answer is allocated, filled in, and queued; if the response makes no
  sense, it is freed and the callback returns an error (\<open>Inl\<close>).
\<close>

definition answer ::
  "nat \<Rightarrow> int \<Rightarrow> u8 \<Rightarrow> u8 \<Rightarrow> u16 \<Rightarrow> (mem \<Rightarrow> (int + mem) option) \<Rightarrow> daemon \<Rightarrow> (int \<times> daemon) option" where
  "answer gu len t s ident fill g = do {
     (ucmd, g) \<leftarrow> gsmd_ucmd_fill len t s ident g;
     case ucmd of
       None \<Rightarrow> Some (- ENOMEM, g)
     | Some u \<Rightarrow> do {
         r \<leftarrow> fill (u_buf u);
         case r of
           Inl e \<Rightarrow> Some (e, g)
         | Inr b \<Rightarrow> do {
             (_, g) \<leftarrow> usock_cmd_enqueue (u\<lparr>u_buf := b\<rparr>) gu g;
             Some (0, g)
           }
       }
   }"

definition filled :: "mem option \<Rightarrow> (int + mem) option" where
  "filled m = map_option Inr m"

definition usock_cmd_cb :: "gcb gsmd_atcmd \<Rightarrow> nat \<Rightarrow> string \<Rightarrow> daemon \<Rightarrow> (int \<times> daemon) option" where
  "usock_cmd_cb cmd gu resp g =
     (let rlen = length resp + 1
      in answer gu (int rlen) GSMD_MSG_PASSTHROUGH GSMD_PASSTHROUGH_RESP (at_id cmd)
           (\<lambda>b. filled (mem_put b 0 (take (rlen mod 65536) (resp @ [NUL])))) g)"

definition null_cmd_cb :: "daemon \<Rightarrow> (int \<times> daemon) option" where
  "null_cmd_cb g = Some (0, g)"

definition pin_cmd_cb :: "daemon \<Rightarrow> (int \<times> daemon) option" where
  "pin_cmd_cb g = Some (0, g)"

definition phone_powerup_cb :: "gcb gsmd_atcmd \<Rightarrow> nat \<Rightarrow> daemon \<Rightarrow> (int \<times> daemon) option" where
  "phone_powerup_cb cmd gu g =
     (if at_ret cmd = 0 then do {
        _ \<leftarrow> find_user gu g;
        Some (0, upd_world (dev_on_update (\<lambda>_. True)) g)
      }
      else Some (0, g))"

section \<open>Network\<close>

text \<open>
  \<open>vmail\<close> is never set: the first token of a response is stored through a wild pointer. The answer to the
  set command is neither sent nor freed.
\<close>

abbreviation (input) sizeof_voicemail :: int where "sizeof_voicemail \<equiv> 35"

definition network_vmail_cb :: "gcb gsmd_atcmd \<Rightarrow> string \<Rightarrow> daemon \<Rightarrow> (int \<times> daemon) option" where
  "network_vmail_cb cmd resp g = do {
     (ucmd, g) \<leftarrow> ucmd_alloc sizeof_voicemail g;
     if ucmd = None then Some (- ENOMEM, g)
     else do {
       x \<leftarrow> rd (at_buf cmd) 7;
       if x = CHR ''='' then Some (0, g)
       else if strtok CHR '','' resp = None then Some (- EINVAL, g)
       else None
     }
   }"

definition network_sigq_cb :: "nat \<Rightarrow> string \<Rightarrow> daemon \<Rightarrow> (int \<times> daemon) option" where
  "network_sigq_cb gu resp g =
     answer gu 2 GSMD_MSG_NETWORK GSMD_NETWORK_SIGQ_GET 0
       (\<lambda>b. do {
          t \<leftarrow> str_at resp 6;
          b \<leftarrow> mem_put b 0 (b8 (word_of_int (c_atoi t)));
          case c_strchr resp CHR '','' of
            None \<Rightarrow> Some (Inl (- EIO))
          | Some comma \<Rightarrow> filled (mem_put b 1 (b8 (word_of_int (c_atoi (drop (comma + 1) resp)))))
        }) g"

text \<open>
  \<open>s\<close> is only set when the whole format matched; a format without a name leaves it uninitialised.
\<close>

definition cops_fmt :: "conv list" where
  "cops_fmt = lits ''+COPS: '' @ [C_Int False, C_Lit CHR '','', C_Int True, C_Lit CHR '','', C_Lit CHR 0x22, C_Pos]"

definition network_oper_cb :: "nat \<Rightarrow> string \<Rightarrow> daemon \<Rightarrow> (int \<times> daemon) option" where
  "network_oper_cb gu resp g = do {
     name \<leftarrow>
       (let (k, vs) = sscanf resp cops_fmt
        in if k \<le> 0 then Some (Inr [])
           else case vs of
                  [_, V_Pos s] \<Rightarrow>
                    (case c_strchr (drop s resp) CHR 0x22 of
                       None \<Rightarrow> Some (Inl (- EINVAL))
                     | Some n \<Rightarrow> Some (Inr (take n (drop s resp))))
                | _ \<Rightarrow> None);
     case name of
       Inl e \<Rightarrow> Some (e, g)
     | Inr opname \<Rightarrow>
         answer gu (int (length opname) + 1) GSMD_MSG_NETWORK GSMD_NETWORK_OPER_GET 0
           (\<lambda>b. filled (mem_put b 0 (opname @ [NUL]))) g
   }"

text \<open>
  The list of operators is parsed twice, first to count the entries and then to store them. \<open>ol_n\<close> is the
  local variable \<open>n\<close>, which keeps its value from the previous entry (or stays uninitialised) when an entry
  does not match the format up to its end; the other fields are the local arrays.
\<close>

record opers_locals =
  ol_n :: "nat option"
  ol_long :: mem
  ol_short :: mem
  ol_num :: mem

abbreviation (input) sizeof_msg_oper :: nat where "sizeof_msg_oper \<equiv> 40"

definition opers_count_fmt :: "conv list" where
  "opers_count_fmt = [C_Lit CHR ''('', C_Int False, C_Lit CHR '','', C_Lit CHR 0x22, C_Set unbounded not_quote False,
     C_Lit CHR 0x22, C_Lit CHR '','', C_Lit CHR 0x22, C_Set unbounded not_quote False, C_Lit CHR 0x22, C_Lit CHR '','',
     C_Lit CHR 0x22, C_Set unbounded is_digit False, C_Lit CHR 0x22, C_Lit CHR '')'', C_Pos]"

definition opers_fmt :: "conv list" where
  "opers_fmt = [C_Lit CHR ''('', C_Int True, C_Lit CHR '','', C_Lit CHR 0x22, C_Set 16 not_quote True,
     C_Lit CHR 0x22, C_Lit CHR '','', C_Lit CHR 0x22, C_Set 8 not_quote True, C_Lit CHR 0x22, C_Lit CHR '','',
     C_Lit CHR 0x22, C_Set 6 is_digit True, C_Lit CHR 0x22, C_Lit CHR '')'', C_Pos]"

text \<open>
  \<open>opers_scan\<close> reads an entry, \<open>opers_next\<close> says whether and where the loop goes on.
\<close>

definition oper_entry :: "opers_locals \<Rightarrow> int \<Rightarrow> mem" where
  "oper_entry l stat = map Some (bint stat @ bint 0) @ take 16 (ol_long l) @ take 8 (ol_short l) @ take 6 (ol_num l) @ fresh_mem 2"

definition opers_scan :: "bool \<Rightarrow> opers_locals \<Rightarrow> string \<Rightarrow> (bool \<times> int \<times> opers_locals) option" where
  "opers_scan out l str =
     (if out then
        (case sscanf str opers_fmt of
           (_, V_Int stat # V_Str a # V_Str b # V_Str c # pos) \<Rightarrow> do {
             la \<leftarrow> mem_put (ol_long l) 0 (a @ [NUL]);
             lb \<leftarrow> mem_put (ol_short l) 0 (b @ [NUL]);
             lc \<leftarrow> mem_put (ol_num l) 0 (c @ [NUL]);
             Some (True, stat, \<lparr>ol_n = (case pos of [V_Pos n] \<Rightarrow> Some n | _ \<Rightarrow> ol_n l), ol_long = la, ol_short = lb, ol_num = lc\<rparr>)
           }
         | _ \<Rightarrow> Some (False, 0, l))
      else
        (case sscanf str opers_count_fmt of
           (k, [V_Pos n]) \<Rightarrow> Some (True, 0, l\<lparr>ol_n := Some n\<rparr>)
         | (k, _) \<Rightarrow> Some (\<not> k < 0, 0, l)))"

definition opers_next :: "nat option \<Rightarrow> string \<Rightarrow> nat option option" where
  "opers_next n str = do {
     n \<leftarrow> n;
     if n < 10 then Some None
     else if n - 1 > length str then None
     else if n - 1 = length str \<or> str ! (n - 1) \<noteq> CHR '')'' then Some None
     else Some (Some (if n < length str \<and> str ! n = CHR '','' then n + 1 else n))
   }"

lemma opers_next_pos: "opers_next n str = Some (Some k) \<Longrightarrow> 10 \<le> k"
  by (auto simp: opers_next_def split: bind_splits if_splits)

function opers_loop :: "bool \<Rightarrow> opers_locals \<Rightarrow> string \<Rightarrow> (mem list \<times> mem) option" where
  "opers_loop out l str =
     (if str = [] \<or> hd str \<noteq> CHR ''('' then Some ([], fresh_mem sizeof_msg_oper)
      else case opers_scan out l str of
             None \<Rightarrow> None
           | Some (go, stat, l) \<Rightarrow>
               if \<not> go then Some ([], fresh_mem sizeof_msg_oper)
               else case opers_next (ol_n l) str of
                      None \<Rightarrow> None
                    | Some None \<Rightarrow> Some ([], oper_entry l stat)
                    | Some (Some n) \<Rightarrow> map_option (map_prod ((#) (oper_entry l stat)) id) (opers_loop out l (drop n str)))"
  by pat_completeness auto
termination
  by (relation "measure (\<lambda>(_, _, str). length str)") (auto dest!: opers_next_pos)

declare opers_loop.simps [simp del]

definition network_opers_parse :: "bool \<Rightarrow> string \<Rightarrow> (mem list \<times> mem) option" where
  "network_opers_parse out str =
     (if \<not> c_strneq str ''+COPS: '' 7 then Some ([], fresh_mem sizeof_msg_oper)
      else opers_loop out \<lparr>ol_n = None, ol_long = fresh_mem 17, ol_short = fresh_mem 9, ol_num = fresh_mem 7\<rparr> (drop 7 str))"

text \<open>
  The result: the complete entries, and what is left in the one behind them, which is marked as the last one.
\<close>

definition network_opers_cb :: "nat \<Rightarrow> string \<Rightarrow> daemon \<Rightarrow> (int \<times> daemon) option" where
  "network_opers_cb gu resp g = do {
     (es, _) \<leftarrow> network_opers_parse False resp;
     answer gu (int (sizeof_msg_oper * (length es + 1))) GSMD_MSG_NETWORK GSMD_NETWORK_OPER_LIST 0
       (\<lambda>b. do {
          (es, e) \<leftarrow> network_opers_parse True resp;
          b \<leftarrow> wrn b 0 (concat es @ e);
          filled (mem_put b (sizeof_msg_oper * length es + 4) (bint 1))
        }) g
   }"

text \<open>Intermediate responses have the result \<open>-255\<close>, the last one 0.\<close>

definition is_response :: "gcb gsmd_atcmd \<Rightarrow> bool" where
  "is_response cmd \<longleftrightarrow> at_ret cmd = 0 \<or> at_ret cmd = - 255"

definition cpol_fmt :: "conv list" where
  "cpol_fmt = lits ''+CPOL: '' @ [C_Int True] @ lits '',0,'' @ [C_Lit CHR 0x22, C_Set 16 not_quote True, C_Lit CHR 0x22]"

definition network_pref_opers_cb :: "gcb gsmd_atcmd \<Rightarrow> nat \<Rightarrow> string \<Rightarrow> daemon \<Rightarrow> (int \<times> daemon) option" where
  "network_pref_opers_cb cmd gu resp g =
     (if \<not> is_response cmd then Some (0, g)
      else case sscanf resp cpol_fmt of
             (_, [V_Int index, V_Str opname]) \<Rightarrow>
               answer gu 24 GSMD_MSG_NETWORK GSMD_NETWORK_PREF_LIST (at_id cmd)
                 (\<lambda>b. do {
                    b \<leftarrow> mem_put b 0 (bint index @ bint (if at_ret cmd = 0 then 1 else 0));
                    filled (mem_put b 8 (take 16 (opname @ [NUL])))
                  }) g
           | _ \<Rightarrow> Some (- EINVAL, g))"

definition cpol_range_fmt :: "conv list" where
  "cpol_range_fmt = lits ''+CPOL: ('' @ [C_Int True, C_Lit CHR ''-'', C_Int True, C_Lit CHR '')'']"

definition network_pref_num_cb :: "gcb gsmd_atcmd \<Rightarrow> nat \<Rightarrow> string \<Rightarrow> daemon \<Rightarrow> (int \<times> daemon) option" where
  "network_pref_num_cb cmd gu resp g =
     (if at_ret cmd \<noteq> 0 then Some (0, g)
      else case sscanf resp cpol_range_fmt of
             (_, [V_Int min_index, V_Int max_index]) \<Rightarrow>
               answer gu 4 GSMD_MSG_NETWORK GSMD_NETWORK_PREF_SPACE (at_id cmd)
                 (\<lambda>b. do {
                    size \<leftarrow> ck_int (max_index - min_index);
                    size \<leftarrow> ck_int (size + 1);
                    filled (mem_put b 0 (bint size))
                  }) g
           | _ \<Rightarrow> Some (- EINVAL, g))"

text \<open>
  Own numbers: the length of the name is computed from the position behind the character that follows
  it; the structure has the name behind its 42 octets.
\<close>

definition cnum_len_fmt :: "conv list" where
  "cnum_len_fmt = lits ''+CNUM: '' @ [C_Lit CHR 0x22, C_Set unbounded not_quote False, C_Lit CHR 0x22, C_Char, C_Pos]"

definition cnum_rest_fmt :: "conv list" where
  "cnum_rest_fmt = [C_Lit CHR '','', C_Lit CHR 0x22, C_Set 32 not_quote True, C_Lit CHR 0x22, C_Lit CHR '','', C_Int True,
     C_Lit CHR '','', C_Int False, C_Lit CHR '','', C_Int True, C_Lit CHR '','']"

definition cnum_fmt :: "conv list" where
  "cnum_fmt = lits ''+CNUM: '' @ [C_Lit CHR 0x22, C_Set unbounded not_quote True, C_Lit CHR 0x22] @ cnum_rest_fmt"

definition cnum_name_len :: "string \<Rightarrow> int" where
  "cnum_name_len resp =
     (case sscanf resp cnum_len_fmt of
        (_, [V_Char _, V_Pos n]) \<Rightarrow> int n - 10
      | _ \<Rightarrow> 0)"

definition network_ownnumbers_cb :: "gcb gsmd_atcmd \<Rightarrow> nat \<Rightarrow> string \<Rightarrow> daemon \<Rightarrow> (int \<times> daemon) option" where
  "network_ownnumbers_cb cmd gu resp g =
     (if \<not> is_response cmd then Some (0, g)
      else
        let len = cnum_name_len resp
        in answer gu (44 + len + 1) GSMD_MSG_NETWORK GSMD_NETWORK_GET_NUMBER (at_id cmd)
             (\<lambda>b. do {
                (b, vs) \<leftarrow>
                  (if len \<noteq> 0 then
                     (case sscanf resp cnum_fmt of
                        (_, V_Str name # vs) \<Rightarrow> do { b \<leftarrow> mem_put b 42 (name @ [NUL]); Some (b, vs) }
                      | _ \<Rightarrow> Some (b, []))
                   else Some (b, snd (sscanf resp (lits ''+CNUM: '' @ cnum_rest_fmt))));
                case vs of
                  V_Str number # V_Int typ # svc \<Rightarrow> do {
                    b \<leftarrow> mem_put b 9 (number @ [NUL]);
                    b \<leftarrow> mem_put b 4 (bint (case svc of [V_Int service] \<Rightarrow> service | _ \<Rightarrow> - 1));
                    if len < - 42 then None
                    else do {
                      b \<leftarrow> mem_put b (nat (42 + len)) [NUL];
                      b \<leftarrow> mem_put b 8 (b8 (word_of_int typ));
                      filled (mem_put b 0 (bint (if at_ret cmd = 0 then 1 else 0)))
                    }
                  }
                | _ \<Rightarrow> Some (Inl (- EINVAL))
              }) g)"

section \<open>Phone book\<close>

text \<open>
  One entry \<open>+CPBR: 3,"+49123",145,"Name"\<close>: the index behind the first space, the number between the first
  two quotes, the type two characters behind the second one, the text between the quotes behind the last
  comma.
\<close>

abbreviation (input) sizeof_phonebook :: nat where "sizeof_phonebook \<equiv> 62"

definition pb_entry :: "string \<Rightarrow> gsmd_phonebook option" where
  "pb_entry line = do {
     sp \<leftarrow> c_strchr line CHR '' '';
     let index = c_atoi (drop (sp + 1) line);
     f \<leftarrow> c_strchr line CHR 0x22;
     l \<leftarrow> c_strchr (drop (f + 1) line) CHR 0x22;
     numb \<leftarrow> mem_put (fresh_mem (GSMD_PB_NUMB_MAXLEN + 1)) 0 (take l (drop (f + 1) line) @ [NUL]);
     t \<leftarrow> str_at line (f + 1 + l + 2);
     c \<leftarrow> c_strrchr line CHR '','';
     rest \<leftarrow> str_at line (c + 2);
     e \<leftarrow> c_strchr rest CHR 0x22;
     text \<leftarrow> mem_put (fresh_mem (GSMD_PB_TEXT_MAXLEN + 1)) 0 (take e rest @ [NUL]);
     Some \<lparr>pb_index = word_of_int index, pb_numb = numb, pb_type = word_of_int (c_atoi t), pb_text = text\<rparr>
   }"

definition phonebook_mem :: "gsmd_phonebook \<Rightarrow> mem" where
  "phonebook_mem p = map Some (b8 (pb_index p)) @ pb_numb p @ map Some (b8 (pb_type p)) @ pb_text p"

text \<open>The loop over the lines of a response; a failing allocation is not noticed.\<close>

function pb_lines :: "(gsmd_phonebook \<Rightarrow> daemon \<Rightarrow> daemon) \<Rightarrow> string \<Rightarrow> nat \<Rightarrow> daemon \<Rightarrow> (nat \<times> daemon) option" where
  "pb_lines add rest num g =
     (case strtok LF rest of
        None \<Rightarrow> Some (num, g)
      | Some (line, rest') \<Rightarrow>
          let (p, g) = g_alloc g
          in if p = None then None
             else case pb_entry line of
                    None \<Rightarrow> None
                  | Some e \<Rightarrow> pb_lines add rest' (num + 1) (add e g))"
  by pat_completeness auto

termination pb_lines
  by (relation "measure (\<lambda>(_, rest, _, _). length rest)") (auto dest: strtok_shorter)

declare pb_lines.simps [simp del]

definition phonebook_lines_cb ::
  "u8 \<Rightarrow> (gsmd_phonebook \<Rightarrow> gsmd_user \<Rightarrow> gsmd_user) \<Rightarrow> nat \<Rightarrow> string \<Rightarrow> daemon \<Rightarrow> (int \<times> daemon) option" where
  "phonebook_lines_cb sub add gu resp g = do {
     (ucmd, g) \<leftarrow> gsmd_ucmd_fill 4 GSMD_MSG_PHONEBOOK sub 0 g;
     case ucmd of
       None \<Rightarrow> Some (- ENOMEM, g)
     | Some u \<Rightarrow> do {
         _ \<leftarrow> find_user gu g;
         (num, g) \<leftarrow> pb_lines (\<lambda>e. upd_user gu (add e)) resp 0 g;
         b \<leftarrow> mem_put (u_buf u) 0 (bint (int num));
         (_, g) \<leftarrow> usock_cmd_enqueue (u\<lparr>u_buf := b\<rparr>) gu g;
         Some (0, g)
       }
   }"

definition phonebook_find_cb :: "nat \<Rightarrow> string \<Rightarrow> daemon \<Rightarrow> (int \<times> daemon) option" where
  "phonebook_find_cb = phonebook_lines_cb GSMD_PHONEBOOK_FIND (\<lambda>e u. u\<lparr>pb_find_list := pb_find_list u @ [e]\<rparr>)"

definition phonebook_readrg_cb :: "nat \<Rightarrow> string \<Rightarrow> daemon \<Rightarrow> (int \<times> daemon) option" where
  "phonebook_readrg_cb = phonebook_lines_cb GSMD_PHONEBOOK_READRG (\<lambda>e u. u\<lparr>pb_readrg_list := pb_readrg_list u @ [e]\<rparr>)"

definition phonebook_read_cb :: "nat \<Rightarrow> string \<Rightarrow> daemon \<Rightarrow> (int \<times> daemon) option" where
  "phonebook_read_cb gu resp g =
     answer gu (int sizeof_phonebook) GSMD_MSG_PHONEBOOK GSMD_PHONEBOOK_READ 0
       (\<lambda>b. if c_strneq resp ''+CPBR'' 5 then do { e \<leftarrow> pb_entry resp; filled (wrn b 0 (phonebook_mem e)) }
            else filled (mem_put b 0 (b8 0))) g"

text \<open>The three callbacks that pass the response on as it is.\<close>

definition text_answer :: "u8 \<Rightarrow> nat \<Rightarrow> string \<Rightarrow> daemon \<Rightarrow> (int \<times> daemon) option" where
  "text_answer sub gu resp g =
     answer gu (int (length resp) + 1) GSMD_MSG_PHONEBOOK sub 0 (\<lambda>b. filled (mem_put b 0 (resp @ [NUL]))) g"

definition phonebook_write_cb :: "nat \<Rightarrow> string \<Rightarrow> daemon \<Rightarrow> (int \<times> daemon) option" where
  "phonebook_write_cb = text_answer GSMD_PHONEBOOK_WRITE"

definition phonebook_delete_cb :: "nat \<Rightarrow> string \<Rightarrow> daemon \<Rightarrow> (int \<times> daemon) option" where
  "phonebook_delete_cb = text_answer GSMD_PHONEBOOK_DELETE"

definition get_imsi_cb :: "nat \<Rightarrow> string \<Rightarrow> daemon \<Rightarrow> (int \<times> daemon) option" where
  "get_imsi_cb = text_answer GSMD_PHONEBOOK_GET_IMSI"

definition phonebook_get_support_cb :: "nat \<Rightarrow> string \<Rightarrow> daemon \<Rightarrow> (int \<times> daemon) option" where
  "phonebook_get_support_cb gu resp g =
     answer gu 3 GSMD_MSG_PHONEBOOK GSMD_PHONEBOOK_GET_SUPPORT 0
       (\<lambda>b. case c_strchr resp CHR ''-'' of
              None \<Rightarrow> Some (Inl (- EIO))
            | Some dash \<Rightarrow>
                (case (c_strchr resp CHR '','', c_strrchr resp CHR '','') of
                   (Some f, Some l) \<Rightarrow>
                     filled (mem_put b 0 (b8 (word_of_int (c_atoi (drop (dash + 1) resp))) @
                       b8 (word_of_int (c_atoi (drop (f + 1) resp))) @ b8 (word_of_int (c_atoi (drop (l + 1) resp)))))
                 | _ \<Rightarrow> Some (Inl (- EIO)))) g"

text \<open>
  The storages: two characters behind each opening parenthesis or comma and its quote. The structure has
  room for 20 of them; the code does not look.
\<close>

abbreviation (input) sizeof_pb_storage :: int where "sizeof_pb_storage \<equiv> 161"

function storages :: "string option \<Rightarrow> nat \<Rightarrow> mem \<Rightarrow> (nat \<times> mem) option" where
  "storages None num b = Some (num, b)"
| "storages (Some ptr) num b =
     (if length ptr < 2 then None
      else case mem_put b (1 + 8 * num) (take 2 (drop 2 ptr) @ replicate (2 - length (drop 2 ptr)) NUL @ [NUL]) of
             None \<Rightarrow> None
           | Some b \<Rightarrow> storages (strpbrk (drop 2 ptr) ''(,'') (num + 1) b)"
  by pat_completeness auto

lemma strpbrk_shorter: "strpbrk s d = Some t \<Longrightarrow> length t \<le> length s"
  by (auto simp: strpbrk_def Let_def length_dropWhile_le split: if_splits)

termination storages
  by (relation "measure (\<lambda>(p, _, _). case p of None \<Rightarrow> 0 | Some s \<Rightarrow> Suc (length s))")
    (auto split: option.splits dest: strpbrk_shorter)

declare storages.simps [simp del]

definition phonebook_list_storage_cb :: "nat \<Rightarrow> string \<Rightarrow> daemon \<Rightarrow> (int \<times> daemon) option" where
  "phonebook_list_storage_cb gu resp g =
     answer gu sizeof_pb_storage GSMD_MSG_PHONEBOOK GSMD_PHONEBOOK_LIST_STORAGE 0
       (\<lambda>b. if c_strneq resp ''+CPBS'' 5 then do {
               (num, b) \<leftarrow> storages (strpbrk resp ''(,'') 0 b;
               filled (mem_put b 0 (b8 (of_nat num)))
             }
             else filled (mem_put b 0 (b8 0))) g"

section \<open>Lemmas\<close>

definition same_len :: "(mem \<Rightarrow> (int + mem) option) \<Rightarrow> bool" where
  "same_len f \<longleftrightarrow> (\<forall>b b'. f b = Some (Inr b') \<longrightarrow> length b' = length b)"

lemma same_lenI [lens]: "(\<And>b b'. f b = Some (Inr b') \<Longrightarrow> length b' = length b) \<Longrightarrow> same_len f"
  by (simp add: same_len_def)

lemma answer_grows [grows]:
  assumes f: "same_len f" and t: "t < NUM_GSMD_MSGS"
  shows "gr.keeps g (answer gu n t s i f g)"
  unfolding answer_def
proof (intro gr.keeps_bind gr.keeps_option gr.keeps_same grows)
  fix x u g1
  assume u: "gsmd_ucmd_fill n t s i g = Some (x, g1)" "x = Some u"
  show "gr.keeps g1 (do {
         r \<leftarrow> f (u_buf u);
         case r of Inl e \<Rightarrow> Some (e, g1)
         | Inr b \<Rightarrow> do { (_, g) \<leftarrow> usock_cmd_enqueue (u\<lparr>u_buf := b\<rparr>) gu g1; Some (0, g) }
       })"
  proof (rule gr.keeps_read)
    fix r
    assume "f (u_buf u) = Some r"
    then show "gr.keeps g1 (case r of Inl e \<Rightarrow> Some (e, g1)
        | Inr b \<Rightarrow> do { (_, g) \<leftarrow> usock_cmd_enqueue (u\<lparr>u_buf := b\<rparr>) gu g1; Some (0, g) })"
      using f t ucmd_fill_packet [OF u t]
      by (cases r) (auto simp: same_len_def intro!: gr.keeps_same gr.keeps_bind grows)
  qed
qed

lemma filled_length [simp]: "filled m = Some (Inr b) \<longleftrightarrow> m = Some b"
  by (auto simp: filled_def)

lemma filled_Inl [simp]: "filled m \<noteq> Some (Inl e)"
  by (auto simp: filled_def)

lemma storages_length: "storages p n b = Some (k, b') \<Longrightarrow> length b' = length b"
proof (induction p n b rule: storages.induct)
  case (2 ptr num b)
  then show ?case
    by (subst (asm) storages.simps) (auto split: if_splits option.splits dest: mem_put_length)
qed (simp add: storages.simps)

lemma simple_cbs_grows [grows]:
  "gr.keeps g (usock_cmd_cb c gu r g)" "gr.keeps g (null_cmd_cb g)" "gr.keeps g (pin_cmd_cb g)"
  "gr.keeps g (network_sigq_cb gu r g)" "gr.keeps g (phonebook_read_cb gu r g)" "gr.keeps g (phonebook_write_cb gu r g)"
  "gr.keeps g (phonebook_delete_cb gu r g)" "gr.keeps g (get_imsi_cb gu r g)" "gr.keeps g (phonebook_get_support_cb gu r g)"
  "gr.keeps g (phonebook_list_storage_cb gu r g)"
  unfolding usock_cmd_cb_def null_cmd_cb_def pin_cmd_cb_def network_sigq_cb_def phonebook_read_cb_def phonebook_write_cb_def
    phonebook_delete_cb_def get_imsi_cb_def phonebook_get_support_cb_def phonebook_list_storage_cb_def text_answer_def Let_def
  by (rule grows gr.keeps_same | (rule lens,
    auto dest!: mem_put_length wrn_length storages_length split: bind_splits option.splits if_splits; fail) | (simp; fail))+

lemma powerup_grows [grows]: "gr.keeps g (phone_powerup_cb c gu g)"
  unfolding phone_powerup_cb_def 
  by (rule gr.keeps_if, rule gr.keeps_read, rule gr.keeps_return, rule grows_world, simp, rule gr.keeps_same)

lemma vmail_grows [grows]: "gr.keeps g (network_vmail_cb c r g)"
  unfolding network_vmail_cb_def
  by (rule gr.keeps_bind, rule grows, rule gr.keeps_if, rule gr.keeps_same, rule gr.keeps_read, rule gr.keeps_if,
    rule gr.keeps_same, rule gr.keeps_if, rule gr.keeps_same, rule gr.keeps_None)

lemma oper_grows [grows]: "gr.keeps g (network_oper_cb gu r g)"
  unfolding network_oper_cb_def
  by (rule gr.keeps_read) (auto split: sum.split intro!: gr.keeps_same grows lens dest!: mem_put_length)

lemma opers_grows [grows]: "gr.keeps g (network_opers_cb gu r g)"
  unfolding network_opers_cb_def
  by (rule gr.keeps_pure, rule grows, rule lens) (auto dest!: mem_put_length wrn_length split: bind_splits)

lemma pref_grows [grows]: "gr.keeps g (network_pref_opers_cb c gu r g)" "gr.keeps g (network_pref_num_cb c gu r g)"
  "gr.keeps g (network_ownnumbers_cb c gu r g)"
  unfolding network_pref_opers_cb_def network_pref_num_cb_def network_ownnumbers_cb_def Let_def
  by (auto split: prod.split list.split sval.split intro!: gr.keeps_same grows lens dest!: mem_put_length
    split: bind_splits if_splits prod.splits list.splits sval.splits)

lemma pb_lines_grows:
  assumes "\<And>e g. daemon_grows g (add e g)"
  shows "gr.keeps g (pb_lines add s n g)"
proof (induction s arbitrary: n g rule: measure_induct_rule [where f = length])
  case (less rest)
  show ?case
  proof (cases "strtok LF rest")
    case None
    then show ?thesis by (subst pb_lines.simps) (simp add: gr.keeps_same)
  next
    case (Some t)
    obtain line rest' where t: "t = (line, rest')" by (cases t)
    obtain p g1 where a: "g_alloc g = (p, g1)" by (cases "g_alloc g")
    have "gr.keeps g1 (if p = None then None else case pb_entry line of
        None \<Rightarrow> None | Some e \<Rightarrow> pb_lines add rest' (n + 1) (add e g1))"
    proof (rule gr.keeps_if [OF gr.keeps_None], rule gr.keeps_option [OF gr.keeps_None])
      fix e
      have "gr.keeps (add e g1) (pb_lines add rest' (n + 1) (add e g1))"
        by (rule less.IH) (use Some t in \<open>simp add: strtok_shorter\<close>)
      then show "gr.keeps g1 (pb_lines add rest' (n + 1) (add e g1))" by (rule gr.keeps_trans [OF assms])
    qed
    then show ?thesis
      by (subst pb_lines.simps) (simp add: Some t a gr.keeps_trans [OF g_alloc_grows [OF a]])
  qed
qed

lemma phonebook_lines_grows:
  assumes "\<And>e u. user_grows u (add e u)"
  shows "gr.keeps g (phonebook_lines_cb sub add gu r g)"
  unfolding phonebook_lines_cb_def
  by (rule gr.keeps_bind, rule grows, rule gr.keeps_option, rule gr.keeps_same, rule gr.keeps_read, rule gr.keeps_bind,
    rule pb_lines_grows, rule grows_user, rule assms, rule gr.keeps_read, rule gr.keeps_bind, rule grows,
    rule ucmd_fill_packet, assumption, assumption, simp, erule mem_put_length, rule gr.keeps_same)

lemma phonebook_find_grows [grows]: "gr.keeps g (phonebook_find_cb gu r g)" "gr.keeps g (phonebook_readrg_cb gu r g)"
  unfolding phonebook_find_cb_def phonebook_readrg_cb_def
  by (rule phonebook_lines_grows, simp add: user_grows_def user_live_def)+

end
