(* ===== verification/Vendor.thy ===== *)
theory Vendor
  imports Ts0707
begin

text \<open>
  The vendor plugins \<^verbatim>\<open>gsm/src/gsmd/vendor_ti.c\<close>, \<^verbatim>\<open>vendor_tihtc.c\<close> and \<^verbatim>\<open>vendor_qc.c\<close>: their parsers of
  unsolicited responses, their initial settings with the callbacks, and the selection of a plugin
  (\<^verbatim>\<open>vendor.c\<close>). The build links the plugin for the TI Calypso. Several parsers take the whole line
  (\<open>buf\<close>) where the parameter is meant.
\<close>

section \<open>TI Calypso\<close>

text \<open>On a malformed response the code calls \<open>free\<close> on memory of the other allocator: undefined behaviour.\<close>

definition ti_csq_parse :: "param \<Rightarrow> daemon \<Rightarrow> (int \<times> daemon) option" where
  "ti_csq_parse param g = do {
     (ucmd, g) \<leftarrow> usock_build_event GSMD_MSG_EVENT GSMD_EVT_SIGNAL sizeof_auxdata g;
     case ucmd of
       None \<Rightarrow> Some (- EINVAL, g)
     | Some u \<Rightarrow> do {
         s \<leftarrow> deref param;
         (tok, rest) \<leftarrow> strtok CHR '','' s;
         b \<leftarrow> mem_put (u_buf u) 0 (b8 (word_of_int (c_atoi tok)));
         (tok, rest) \<leftarrow> strtok CHR '','' rest;
         b \<leftarrow> mem_put b 1 (b8 (word_of_int (c_atoi tok)));
         (_, g) \<leftarrow> usock_evt_send g (u\<lparr>u_buf := b\<rparr>) GSMD_EVT_SIGNAL;
         Some (0, g)
       }
   }"

abbreviation (input) GSMD_CIPHIND_DISABLED_SIM :: u32 where "GSMD_CIPHIND_DISABLED_SIM \<equiv> 2"
abbreviation (input) GSMD_CIPHIND_ACTIVE :: u32 where "GSMD_CIPHIND_ACTIVE \<equiv> 4"

definition ti_cpri_parse :: "string \<Rightarrow> daemon \<Rightarrow> (int \<times> daemon) option" where
  "ti_cpri_parse buf g =
     (case strtok CHR '','' buf of
        None \<Rightarrow> Some (- EIO, g)
      | Some (tok1, rest) \<Rightarrow>
          (case strtok CHR '','' rest of
             None \<Rightarrow>
               let n = c_atoi tok1;
                   f = (\<lambda>x. if n = 0 then x AND NOT GSMD_CIPHIND_ACTIVE
                            else if n = 1 then x OR GSMD_CIPHIND_ACTIVE
                            else if n = 2 then x OR GSMD_CIPHIND_DISABLED_SIM else x)
               in Some (0, upd_world (ciph_flags_update f) g)
           | Some (tok2, _) \<Rightarrow> do {
               (ucmd, g) \<leftarrow> usock_build_event GSMD_MSG_EVENT GSMD_EVT_CIPHER sizeof_auxdata g;
               case ucmd of
                 None \<Rightarrow> Some (- ENOMEM, g)
               | Some u \<Rightarrow> do {
                   b \<leftarrow> mem_put (u_buf u) 2 (b16 (word_of_int (c_atoi tok1)));
                   b \<leftarrow> mem_put b 2 (b16 (word_of_int (c_atoi tok2)));
                   (_, g) \<leftarrow> usock_evt_send g (u\<lparr>u_buf := b\<rparr>) GSMD_EVT_CIPHER;
                   Some (0, g)
                 }
             }))"

definition ti_ctzv_parse :: "daemon \<Rightarrow> (int \<times> daemon) option" where
  "ti_ctzv_parse g = Some (0, g)"

text \<open>
  Call progress. The three bit fields share the octet at 38 (\<open>ibt\<close>, \<open>tch\<close>, two bits of \<open>dir\<close>); the bits
  that are not set keep what the fresh memory held.
\<close>

definition bits_ibt_tch :: "u8 \<Rightarrow> char \<Rightarrow> char \<Rightarrow> u8" where
  "bits_ibt_tch x ibt tch =
     (x AND NOT 3) OR (if ibt = CHR ''1'' then 1 else 0) OR (if tch = CHR ''1'' then 2 else 0)"

definition bits_dir :: "u8 \<Rightarrow> char \<Rightarrow> u8" where
  "bits_dir x c =
     (if 48 \<le> char_code c \<and> char_code c \<le> 51 then (x AND NOT 12) OR push_bit 2 (of_nat (char_code c - 48)) else x)"

definition ti_cpi_parse :: "string \<Rightarrow> daemon \<Rightarrow> (int \<times> daemon) option" where
  "ti_cpi_parse buf g = do {
     (ucmd, g) \<leftarrow> usock_build_event GSMD_MSG_EVENT GSMD_EVT_OUT_STATUS sizeof_auxdata g;
     case ucmd of
       None \<Rightarrow> Some (- EINVAL, g)
     | Some u \<Rightarrow>
         (case strtok CHR '','' buf of
            None \<Rightarrow> Some (- EIO, g)
          | Some (_, rest) \<Rightarrow>
              (case strtok CHR '','' rest of
                 None \<Rightarrow> Some (- EIO, g)
               | Some (prog, rest) \<Rightarrow>
                   (case strtok CHR '','' rest of
                      None \<Rightarrow> Some (- EIO, g)
                    | Some (ibt, rest) \<Rightarrow>
                        (case strtok CHR '','' rest of
                           None \<Rightarrow> Some (- EIO, g)
                         | Some (tch, rest) \<Rightarrow> do {
                             let x = bits_ibt_tch (word_of_int (stack_int (world g))) (hd ibt) (hd tch);
                             let x = (case strtok CHR '','' rest of None \<Rightarrow> x | Some (dir, _) \<Rightarrow> bits_dir x (hd dir));
                             b \<leftarrow> mem_put (u_buf u) 0 (bint (c_atoi prog));
                             b \<leftarrow> mem_put b 38 (b8 x);
                             (_, g) \<leftarrow> usock_evt_send g (u\<lparr>u_buf := b\<rparr>) GSMD_EVT_OUT_STATUS;
                             Some (0, g)
                           }))))
   }"

definition ticalypso_unsolicit :: "(string \<times> unsol_fn) list" where
  "ticalypso_unsolicit = [(''%CSQ'', Ti_csq_parse), (''%CPRI'', Ti_cpri_parse), (''%CPI'', Ti_cpi_parse), (''%CTZV'', Ti_ctzv_parse)]"

subsection \<open>Initial settings\<close>

text \<open>The voice mail number goes into an array of 20 characters; \<open>rc\<close> is only set when the response fits.\<close>

definition cpmb_detect_cb :: "string \<Rightarrow> daemon \<Rightarrow> (int \<times> daemon) option" where
  "cpmb_detect_cb resp g =
     (if \<not> c_strneq resp ''%CPMB: '' 7 then Some (- EINVAL, g)
      else do {
        let (p, g) = (if drop 7 resp = [] then (None, g) else g_alloc g);
        er \<leftarrow> extrsp_parse (p \<noteq> None) (Some (drop 7 resp));
        case er of
          None \<Rightarrow> Some (- ENOMEM, g)
        | Some er \<Rightarrow>
            if num_tokens er = 5 \<and> tok_type (tokens er ! 2) = GSMD_ECMD_RTT_STRING \<and>
               tok_type (tokens er ! 3) = GSMD_ECMD_RTT_NUMERIC \<and> tok_type (tokens er ! 4) = GSMD_ECMD_RTT_STRING
            then do {
              number \<leftarrow> c_str_at (tok_string (tokens er ! 2));
              s \<leftarrow> sprintf_to 20 (''AT+CSVM=1,'' @ [CHR 0x22] @ number @ [CHR 0x22, CHR '',''] @ dec_int (tok_numeric (tokens er ! 3)));
              gsmd_simplecmd s g
            }
            else if stack_int (world g) \<noteq> 0 then None
            else Some (0, g)
      })"

text \<open>A negative result of \<open>extrsp_supports\<close> counts as support.\<close>

definition cpi_mode :: "gsm_extrsp \<Rightarrow> daemon \<Rightarrow> (int \<times> daemon) option" where
  "cpi_mode er g = do {
     three \<leftarrow> extrsp_supports er 0 3;
     if three \<noteq> 0 then gsmd_simplecmd ''AT%CPI=3'' g
     else do {
       two \<leftarrow> extrsp_supports er 0 2;
       if two \<noteq> 0 then gsmd_simplecmd ''AT%CPI=2'' g else Some (0, g)
     }
   }"

definition cpi_detect :: "(gsm_extrsp \<Rightarrow> daemon \<Rightarrow> (int \<times> daemon) option) \<Rightarrow> string \<Rightarrow> daemon \<Rightarrow> (int \<times> daemon) option" where
  "cpi_detect cont resp g =
     (if \<not> c_strneq resp ''%CPI: '' 6 then Some (- EINVAL, g)
      else do {
        let (p, g) = (if drop 6 resp = [] then (None, g) else g_alloc g);
        er \<leftarrow> extrsp_parse (p \<noteq> None) (Some (drop 6 resp));
        case er of None \<Rightarrow> Some (- EINVAL, g) | Some er \<Rightarrow> cont er g
      })"

text \<open>\<open>if (cmd) atcmd_submit (g, cmd)\<close>.\<close>

definition submit_if :: "string \<Rightarrow> nat \<Rightarrow> gcb option \<Rightarrow> daemon \<Rightarrow> (unit \<times> daemon) option" where
  "submit_if s rlen cb g = do { (_, g) \<leftarrow> fill_submit s rlen cb 0 g; Some ((), g) }"

definition ti_cpi_detect_cb :: "string \<Rightarrow> daemon \<Rightarrow> (int \<times> daemon) option" where
  "ti_cpi_detect_cb = cpi_detect (\<lambda>er g. do {
     (_, g) \<leftarrow> submit_if ''AT%CPMB=1'' 10 (Some (Ti_cpmb_detect_cb, 0)) g;
     cpi_mode er g
   })"

fun simplecmds :: "int \<Rightarrow> string list \<Rightarrow> daemon \<Rightarrow> (int \<times> daemon) option" where
  "simplecmds rc [] g = Some (rc, g)"
| "simplecmds rc (s # ss) g = do { (r, g) \<leftarrow> gsmd_simplecmd s g; simplecmds (or_rc rc r) ss g }"

definition ticalypso_initsettings :: "daemon \<Rightarrow> (int \<times> daemon) option" where
  "ticalypso_initsettings g = do {
     (rc, g) \<leftarrow> simplecmds 0 [''AT+CTZR=1'', ''AT%CTZV=1'', ''AT%CPRI=1'', ''AT%CSQ=1'', ''AT%CUNS=0'', ''AT%CPHS=1''] g;
     (_, g) \<leftarrow> submit_if ''AT%CPI=?'' 9 (Some (Ti_cpi_detect_cb, 0)) g;
     Some (rc, g)
   }"

section \<open>TI Calypso with the HTC firmware\<close>

text \<open>The index of \<open>rssi_table\<close> is not the one that was limited.\<close>

definition rssi_table :: "int list" where
  "rssi_table = [0, 5, 10, 15, 20, 25, 99]"

definition htc_htccsq_parse :: "string \<Rightarrow> daemon \<Rightarrow> (int \<times> daemon) option" where
  "htc_htccsq_parse buf g = do {
     (ucmd, g) \<leftarrow> usock_build_event GSMD_MSG_EVENT GSMD_EVT_SIGNAL sizeof_auxdata g;
     case ucmd of
       None \<Rightarrow> Some (- EINVAL, g)
     | Some u \<Rightarrow> do {
         rssi \<leftarrow> (if c_atoi buf < 0 then None else rd rssi_table (nat (c_atoi buf)));
         b \<leftarrow> mem_put (u_buf u) 0 (b8 (word_of_int rssi) @ b8 99);
         (_, g) \<leftarrow> usock_evt_send g (u\<lparr>u_buf := b\<rparr>) GSMD_EVT_SIGNAL;
         Some (0, g)
       }
   }"

text \<open>These two parsers have the text of those of the other plugin.\<close>

definition htc_cpri_parse :: "string \<Rightarrow> daemon \<Rightarrow> (int \<times> daemon) option" where
  "htc_cpri_parse = ti_cpri_parse"

definition htc_cpi_parse :: "string \<Rightarrow> daemon \<Rightarrow> (int \<times> daemon) option" where
  "htc_cpi_parse = ti_cpi_parse"

definition tihtc_unsolicit :: "(string \<times> unsol_fn) list" where
  "tihtc_unsolicit = [(''%HTCCSQ'', Htc_htccsq_parse), (''%CPRI'', Htc_cpri_parse), (''%CPI'', Htc_cpi_parse)]"

definition htc_cpi_detect_cb :: "string \<Rightarrow> daemon \<Rightarrow> (int \<times> daemon) option" where
  "htc_cpi_detect_cb = cpi_detect cpi_mode"

text \<open>\<open>rc\<close> starts uninitialised.\<close>

definition tihtc_initsettings :: "daemon \<Rightarrow> (int \<times> daemon) option" where
  "tihtc_initsettings g = do {
     (rc, g) \<leftarrow> simplecmds (stack_int (world g)) [''AT%CPRI=1'', ''AT%HTCCSQ=1'', ''AT%CUNS=0''] g;
     (_, g) \<leftarrow> submit_if ''AT%CPI=?'' 9 (Some (Htc_cpi_detect_cb, 0)) g;
     Some (rc, g)
   }"

section \<open>Qualcomm\<close>

definition qc_htccsq_parse :: "string \<Rightarrow> daemon \<Rightarrow> (int \<times> daemon) option" where
  "qc_htccsq_parse = htc_htccsq_parse"

definition qc_wcdma_parse :: "daemon \<Rightarrow> (int \<times> daemon) option" where
  "qc_wcdma_parse g = Some (0, g)"

definition qc_unsolicit :: "(string \<times> unsol_fn) list" where
  "qc_unsolicit = [(''@HTCCSQ'', Qc_htccsq_parse), (''[WCDMA]'', Qc_wcdma_parse)]"

definition qc_initsettings :: "daemon \<Rightarrow> (int \<times> daemon) option" where
  "qc_initsettings g = simplecmds (stack_int (world g)) [''AT@HTCCSQ=1''] g"

section \<open>The plugins\<close>

text \<open>\<open>struct gsmd_vendor_plugin\<close>, field by field. Detecting the Qualcomm chip sets a flag.\<close>

definition pl_ext_chars :: "vendor_pl \<Rightarrow> string" where
  "pl_ext_chars v = (case v of V_ticalypso \<Rightarrow> ''%@'' | V_tihtc \<Rightarrow> ''%'' | V_qc \<Rightarrow> ''@['')"

definition pl_unsolicit :: "vendor_pl \<Rightarrow> (string \<times> unsol_fn) list" where
  "pl_unsolicit v = (case v of V_ticalypso \<Rightarrow> ticalypso_unsolicit | V_tihtc \<Rightarrow> tihtc_unsolicit | V_qc \<Rightarrow> qc_unsolicit)"

definition pl_detect :: "vendor_pl \<Rightarrow> daemon \<Rightarrow> int \<times> daemon" where
  "pl_detect v g = (case v of V_qc \<Rightarrow> (1, g\<lparr>g_flags := g_flags g OR GSMD_FLAG_V0\<rparr>) | _ \<Rightarrow> (1, g))"

definition pl_initsettings :: "vendor_pl \<Rightarrow> daemon \<Rightarrow> (int \<times> daemon) option" where
  "pl_initsettings v =
     (case v of V_ticalypso \<Rightarrow> ticalypso_initsettings | V_tihtc \<Rightarrow> tihtc_initsettings | V_qc \<Rightarrow> qc_initsettings)"

text \<open>The selected plugin also brings its \<open>ext_chars\<close>.\<close>

fun vendor_find_loop :: "vendor_pl list \<Rightarrow> daemon \<Rightarrow> int \<times> daemon" where
  "vendor_find_loop [] g = (0, g)"
| "vendor_find_loop (pl # pls) g =
     (let (rc, g) = pl_detect pl g
      in if rc = 1 then (1, upd_world (vendorpl_update (\<lambda>_. Some pl)) (g\<lparr>ext_chars := pl_ext_chars pl\<rparr>))
         else vendor_find_loop pls g)"

definition gsmd_vendor_plugin_find :: "vendor_pl list \<Rightarrow> daemon \<Rightarrow> int \<times> daemon" where
  "gsmd_vendor_plugin_find pls g = (if vendorpl (world g) \<noteq> None then (- EEXIST, g) else vendor_find_loop pls g)"

section \<open>Lemmas\<close>

lemma csq_grows [grows]: "gr.keeps g (ti_csq_parse p g)"
  unfolding ti_csq_parse_def
  by (rule gr.keeps_bind, rule grows, rule gr.keeps_option, rule gr.keeps_same, rule gr.keeps_read, rule gr.keeps_pure,
    rule gr.keeps_read, rule gr.keeps_pure, rule gr.keeps_read, rule gr.keeps_bind, rule grows, rule event_filled)
    (auto dest!: mem_put_length event_new intro: gr.keeps_same)

lemma cpri_grows [grows]: "gr.keeps g (ti_cpri_parse b g)"
proof -
  have "gr.keeps g (do {
               (ucmd, g) \<leftarrow> usock_build_event GSMD_MSG_EVENT GSMD_EVT_CIPHER sizeof_auxdata g;
               case ucmd of
                 None \<Rightarrow> Some (- ENOMEM, g)
               | Some u \<Rightarrow> do {
                   b \<leftarrow> mem_put (u_buf u) 2 x;
                   b \<leftarrow> mem_put b 2 y;
                   (_, g) \<leftarrow> usock_evt_send g (u\<lparr>u_buf := b\<rparr>) GSMD_EVT_CIPHER;
                   Some (0, g)
                 }
             })" for x y
    by (rule gr.keeps_bind, rule grows, rule gr.keeps_option, rule gr.keeps_same, rule gr.keeps_read, rule gr.keeps_read,
      rule gr.keeps_bind, rule grows, rule event_filled) (auto dest!: mem_put_length event_new intro: gr.keeps_same)
  then show ?thesis unfolding ti_cpri_parse_def Let_def
    by (auto split: option.split intro!: gr.keeps_same gr.keeps_return grows_world)
qed

lemma cpi_grows [grows]: "gr.keeps g (ti_cpi_parse b g)"
proof -
  have "gr.keeps g1 (do {
          b \<leftarrow> mem_put (u_buf u) 0 x;
          b \<leftarrow> mem_put b 38 y;
          (_, g) \<leftarrow> usock_evt_send g1 (u\<lparr>u_buf := b\<rparr>) GSMD_EVT_OUT_STATUS;
          Some (0, g)
        })" if "event_ok u" for x y u g1
    by (rule gr.keeps_read, rule gr.keeps_read, rule gr.keeps_bind, rule grows, rule event_filled [OF that])
      (auto dest!: mem_put_length intro: gr.keeps_same)
  then show ?thesis unfolding ti_cpi_parse_def Let_def
    by (intro gr.keeps_bind [OF build_event_grows] gr.keeps_option gr.keeps_same gr.keeps_prod) (auto dest!: event_new)
qed

lemma submit_if_grows [grows]: "gr.keeps g (submit_if s n cb g)"
  unfolding submit_if_def by (intro gr.keeps_bind gr.keeps_same grows)

lemma simplecmds_grows [grows]: "gr.keeps g (simplecmds rc ss g)"
  by (induction ss arbitrary: rc g) (auto intro!: gr.keeps_same gr.keeps_bind grows)

lemma cpi_mode_grows [grows]: "gr.keeps g (cpi_mode er g)"
  unfolding cpi_mode_def by (intro gr.keeps_read gr.keeps_if gr.keeps_same grows)

lemma keeps_maybe_alloc:
  "(\<And>p g1. gr.keeps g1 (f p g1)) \<Longrightarrow> gr.keeps g (case (if c then (None, g) else g_alloc g) of (p, g1) \<Rightarrow> f p g1)"
  using keeps_alloc [of f g] by simp

lemma cpi_detect_grows:
  assumes "\<And>er g. gr.keeps g (cont er g)"
  shows "gr.keeps g (cpi_detect cont r g)"
  unfolding cpi_detect_def Let_def
  by (rule gr.keeps_if, rule gr.keeps_same, rule keeps_maybe_alloc, rule gr.keeps_read, rule gr.keeps_option,
    rule gr.keeps_same, rule assms)

lemma detect_cbs_grows [grows]: "gr.keeps g (ti_cpi_detect_cb r g)" "gr.keeps g (htc_cpi_detect_cb r g)"
  unfolding ti_cpi_detect_cb_def htc_cpi_detect_cb_def
  by (rule cpi_detect_grows, (rule gr.keeps_bind)?, rule grows, rule grows)
    (rule cpi_detect_grows, rule grows)

lemma cpmb_grows [grows]: "gr.keeps g (cpmb_detect_cb r g)"
  unfolding cpmb_detect_cb_def Let_def
  by (rule gr.keeps_if, rule gr.keeps_same, rule keeps_maybe_alloc, rule gr.keeps_read, rule gr.keeps_option,
    rule gr.keeps_same, rule gr.keeps_if, rule gr.keeps_read, rule gr.keeps_read, rule grows, rule gr.keeps_if,
    rule gr.keeps_None, rule gr.keeps_same)

lemma htccsq_grows [grows]: "gr.keeps g (htc_htccsq_parse b g)"
  unfolding htc_htccsq_parse_def
  by (rule gr.keeps_bind, rule grows, rule gr.keeps_option, rule gr.keeps_same, rule gr.keeps_read, rule gr.keeps_read,
    rule gr.keeps_bind, rule grows, rule event_filled) (auto dest!: mem_put_length event_new intro: gr.keeps_same)

lemma vendor_parsers_grows [grows]:
  "gr.keeps g (ti_ctzv_parse g)" "gr.keeps g (htc_cpri_parse b g)" "gr.keeps g (htc_cpi_parse b g)"
  "gr.keeps g (qc_htccsq_parse b g)" "gr.keeps g (qc_wcdma_parse g)"
  unfolding ti_ctzv_parse_def htc_cpri_parse_def htc_cpi_parse_def qc_htccsq_parse_def qc_wcdma_parse_def
  by (rule grows gr.keeps_same)+

lemma initsettings_grows [grows]: "gr.keeps g (pl_initsettings v g)"
  unfolding pl_initsettings_def ticalypso_initsettings_def tihtc_initsettings_def qc_initsettings_def
  by (cases v; simp only: vendor_pl.case) (intro gr.keeps_bind gr.keeps_same grows)+

end
