(* ===== verification/Unsolicited.thy ===== *)
theory Unsolicited
  imports Ts0707 Vendor
begin

text \<open>
  \<^verbatim>\<open>gsm/src/gsmd/unsolicited.c\<close>: the table of parsers for the responses that the modem sends on its own, its
  registration, and the dispatcher that \<open>ml_parse\<close> calls.
\<close>

section \<open>The table and the dispatcher\<close>

definition gsm0707_unsolicit :: "(string \<times> unsol_fn) list" where
  "gsm0707_unsolicit = [(''RING'', Ring_parse), (''+CRING'', Cring_parse), (''+CREG'', Creg_parse), (''+CCWA'', Ccwa_parse),
     (''+CUSD'', Cusd_parse), (''+CCCM'', Cccm_parse), (''+CGEV'', Cgev_parse), (''+CGREG'', Cgreg_parse),
     (''+CLIP'', Clip_parse), (''+COLP'', Colp_parse), (''+CTZV'', Ctzv_parse), (''+COPN'', Copn_parse)]"

definition call_parser :: "unsol_fn \<Rightarrow> string \<Rightarrow> param \<Rightarrow> daemon \<Rightarrow> (int \<times> daemon) option" where
  "call_parser f buf p g =
     (case f of
        Ring_parse \<Rightarrow> ring_parse g | Cring_parse \<Rightarrow> cring_parse p g | Creg_parse \<Rightarrow> creg_parse p g
      | Ccwa_parse \<Rightarrow> ccwa_parse buf g | Cusd_parse \<Rightarrow> cusd_parse g | Cccm_parse \<Rightarrow> cccm_parse g
      | Cgev_parse \<Rightarrow> cgev_parse g | Cgreg_parse \<Rightarrow> cgreg_parse g | Clip_parse \<Rightarrow> clip_parse p g
      | Colp_parse \<Rightarrow> colp_parse p g | Ctzv_parse \<Rightarrow> ctzv_parse p g | Copn_parse \<Rightarrow> copn_parse p g
      | Cmti_parse \<Rightarrow> cmti_parse p g | Cmt_parse \<Rightarrow> cmt_parse p g | Cbmi_parse \<Rightarrow> cbmi_parse p g
      | Cbm_parse \<Rightarrow> cbm_parse p g | Cdsi_parse \<Rightarrow> cdsi_parse p g | Cds_parse \<Rightarrow> cds_parse p g
      | Ti_csq_parse \<Rightarrow> ti_csq_parse p g | Ti_cpri_parse \<Rightarrow> ti_cpri_parse buf g | Ti_cpi_parse \<Rightarrow> ti_cpi_parse buf g
      | Ti_ctzv_parse \<Rightarrow> ti_ctzv_parse g | Htc_htccsq_parse \<Rightarrow> htc_htccsq_parse buf g
      | Htc_cpri_parse \<Rightarrow> htc_cpri_parse buf g | Htc_cpi_parse \<Rightarrow> htc_cpi_parse buf g
      | Qc_htccsq_parse \<Rightarrow> qc_htccsq_parse buf g | Qc_wcdma_parse \<Rightarrow> qc_wcdma_parse g)"

text \<open>\<open>strchr (buf, ':') + 2\<close>, and NULL if that is behind \<open>buf + len\<close>.\<close>

definition unsol_param :: "string \<Rightarrow> nat \<Rightarrow> param option" where
  "unsol_param buf len =
     (case c_strchr buf CHR '':'' of
        None \<Rightarrow> Some P_wild
      | Some i \<Rightarrow> if i + 2 > len then Some P_null else map_option P_str (str_at buf (i + 2)))"

fun unsolicited_from :: "(string \<times> unsol_fn) list \<Rightarrow> string \<Rightarrow> nat \<Rightarrow> daemon \<Rightarrow> (int \<times> daemon) option" where
  "unsolicited_from [] buf len g = Some (- ENOENT, g)"
| "unsolicited_from ((prefix, f) # i) buf len g =
     (if \<not> c_strneq buf prefix (length prefix) then unsolicited_from i buf len g
      else do {
        colon \<leftarrow> unsol_param buf len;
        call_parser f buf colon g
      })"

definition unsolicited_parse :: "string \<Rightarrow> nat \<Rightarrow> daemon \<Rightarrow> (int \<times> daemon) option" where
  "unsolicited_parse buf len g = unsolicited_from (unsolicit (world g)) buf len g"

text \<open>The array has 256 entries, the last one of which stays empty.\<close>

definition unsolicited_register_array :: "(string \<times> unsol_fn) list \<Rightarrow> daemon \<Rightarrow> int \<times> daemon" where
  "unsolicited_register_array arr g =
     (let curlen = length (unsolicit (world g)) + 1
      in if length arr + curlen > 256 then (- ENOMEM, g)
         else (0, upd_world (unsolicit_update (\<lambda>t. arr @ t)) g))"

definition unsolicited_init :: "daemon \<Rightarrow> daemon" where
  "unsolicited_init g =
     (let vpl = vendorpl (world g);
          g = snd (unsolicited_register_array gsm0707_unsolicit g)
      in case vpl of
           None \<Rightarrow> g
         | Some v \<Rightarrow> if pl_unsolicit v = [] then g else snd (unsolicited_register_array (pl_unsolicit v) g))"

section \<open>Lemmas\<close>

lemma call_parser_grows [grows]: "gr.keeps g (call_parser f buf p g)"
  unfolding call_parser_def cusd_parse_def cccm_parse_def cgev_parse_def cgreg_parse_def clip_parse_def colp_parse_def
  by (cases f) (simp_all add: grows gr.keeps_same)

lemma unsolicited_from_grows [grows]: "gr.keeps g (unsolicited_from t buf len g)"
proof (induction t)
  case (Cons e t)
  obtain x f where "e = (x, f)" by (cases e)
  then show ?case using Cons
    by (simp only: unsolicited_from.simps) (intro gr.keeps_if gr.keeps_read grows, simp_all)
qed (simp add: gr.keeps_same)

lemma unsolicited_grows [grows]: "gr.keeps g (unsolicited_parse buf len g)"
  unfolding unsolicited_parse_def by (rule grows)

end
