(* ===== verification/Sms_Cb.thy ===== *)
theory Sms_Cb
  imports Usock_Cb Unsolicited
begin

text \<open>
  The part of \<^verbatim>\<open>gsm/src/gsmd/sms_cb.c\<close> that serves the clients: the callbacks that decode the responses to
  the short message commands, and the two handlers that turn a client's message into a command. A handler
  gets the client's address, the array of 1024 octets that the message was read into (what was not read
  is \<open>None\<close>), and the number of octets read.
\<close>

section \<open>Responses\<close>

text \<open>
  The common end of \<open>sms_list_cb\<close> and \<open>sms_read_cb\<close>: \<open>s\<close> is the text behind the position \<open>cr\<close>, \<open>f\<close> sets the
  fields that do not come from the PDU.
\<close>

definition sms_answer ::
  "u8 \<Rightarrow> (gsmd_sms_list \<Rightarrow> gsmd_sms_list) \<Rightarrow> gcb gsmd_atcmd \<Rightarrow> nat \<Rightarrow> string \<Rightarrow> int \<Rightarrow> daemon \<Rightarrow>
     (int \<times> daemon) option" where
  "sms_answer sub f cmd gu s len g =
     (case hex_pdu SMS_MAX_PDU_SIZE s of
        None \<Rightarrow> Some (- EINVAL, g)
      | Some pdu \<Rightarrow> do {
          (rc, msg) \<leftarrow> sms_pdu_to_msg (f (stack_sms (world g))) (pdu_array SMS_MAX_PDU_SIZE pdu g) len (int (length pdu));
          if rc \<noteq> 0 then Some (- EINVAL, g)
          else answer gu (int sizeof_sms_list) GSMD_MSG_SMS sub (at_id cmd) (\<lambda>b. filled (wrn b 0 (sms_list_mem msg))) g
        })"

definition cmgl_fmt :: "bool \<Rightarrow> conv list" where
  "cmgl_fmt name =
     lits ''+CMGL: '' @ [C_Int True, C_Lit CHR '','', C_Int True, C_Lit CHR '',''] @
     (if name then [C_Lit CHR 0x22, C_Set unbounded not_quote False, C_Lit CHR 0x22] else []) @
     [C_Lit CHR '','', C_Int True, C_Space, C_Pos]"

definition sms_list_cb :: "gcb gsmd_atcmd \<Rightarrow> nat \<Rightarrow> string \<Rightarrow> daemon \<Rightarrow> (int \<times> daemon) option" where
  "sms_list_cb cmd gu resp g =
     (if \<not> is_response cmd then Some (0, g)
      else
        let vs = (case sscanf resp (cmgl_fmt False) of
                    (k, vs) \<Rightarrow> if k < 3 then snd (sscanf resp (cmgl_fmt True)) else vs)
        in case vs of
             [V_Int idx, V_Int stat, V_Int len, V_Pos cr] \<Rightarrow>
               if len > 164 then Some (- EINVAL, g)
               else sms_answer GSMD_SMS_LIST (\<lambda>m. m\<lparr>sl_index := word_of_int idx, sl_stat := stat,
                      is_last := (if at_ret cmd = 0 then 1 else 0)\<rparr>) cmd gu (drop cr resp) len g
           | _ \<Rightarrow> Some (- EINVAL, g))"

definition cmgr_fmt :: "bool \<Rightarrow> conv list" where
  "cmgr_fmt num =
     lits ''+CMGR: '' @ [C_Int True, C_Lit CHR '',''] @ (if num then [C_Int False] else []) @
     [C_Lit CHR '','', C_Int True, C_Space, C_Pos]"

definition sms_read_cb :: "gcb gsmd_atcmd \<Rightarrow> nat \<Rightarrow> string \<Rightarrow> daemon \<Rightarrow> (int \<times> daemon) option" where
  "sms_read_cb cmd gu resp g =
     (if at_ret cmd \<noteq> 0 then Some (0, g)
      else
        let vs = (case sscanf resp (cmgr_fmt False) of
                    (k, vs) \<Rightarrow> if k < 2 then snd (sscanf resp (cmgr_fmt True)) else vs)
        in case vs of
             [V_Int stat, V_Int len, V_Pos cr] \<Rightarrow>
               if len > 164 then Some (- EINVAL, g)
               else do {
                 buf \<leftarrow> c_str_at (at_buf cmd);
                 let index = (case c_strchr buf CHR ''='' of
                                Some colon \<Rightarrow> if c_strneq buf ''AT+CMGR'' 7 then c_atoi (drop (colon + 1) buf) else 0
                              | None \<Rightarrow> 0);
                 sms_answer GSMD_SMS_READ (\<lambda>m. m\<lparr>sl_index := word_of_int index, sl_stat := stat, is_last := 1\<rparr>)
                   cmd gu (drop cr resp) len g
               }
           | _ \<Rightarrow> Some (- EINVAL, g))"

text \<open>A reference number, or the negated result of a failed command.\<close>

definition result_answer :: "u8 \<Rightarrow> bool \<Rightarrow> string \<Rightarrow> gcb gsmd_atcmd \<Rightarrow> nat \<Rightarrow> string \<Rightarrow> daemon \<Rightarrow> (int \<times> daemon) option" where
  "result_answer sub ok prefix cmd gu resp g =
     (case (if ok then sscanf resp (lits prefix @ [C_Int True]) else (1, [V_Int (- at_ret cmd)])) of
        (_, [V_Int n]) \<Rightarrow> answer gu 4 GSMD_MSG_SMS sub (at_id cmd) (\<lambda>b. filled (mem_put b 0 (bint n))) g
      | _ \<Rightarrow> Some (- EINVAL, g))"

definition sms_send_cb :: "gcb gsmd_atcmd \<Rightarrow> nat \<Rightarrow> string \<Rightarrow> daemon \<Rightarrow> (int \<times> daemon) option" where
  "sms_send_cb cmd = result_answer GSMD_SMS_SEND (is_response cmd) ''+CMGS: '' cmd"

definition sms_write_cb :: "gcb gsmd_atcmd \<Rightarrow> nat \<Rightarrow> string \<Rightarrow> daemon \<Rightarrow> (int \<times> daemon) option" where
  "sms_write_cb cmd = result_answer GSMD_SMS_WRITE (at_ret cmd = 0) ''+CMGW: '' cmd"

definition sms_delete_cb :: "gcb gsmd_atcmd \<Rightarrow> nat \<Rightarrow> daemon \<Rightarrow> (int \<times> daemon) option" where
  "sms_delete_cb cmd gu g =
     answer gu 4 GSMD_MSG_SMS GSMD_SMS_DELETE (at_id cmd) (\<lambda>b. filled (mem_put b 0 (bint (at_ret cmd)))) g"

definition cpms_one :: "conv list" where
  "cpms_one = [C_Lit CHR 0x22, C_Set 2 upper_AZ True, C_Lit CHR 0x22, C_Lit CHR '','', C_Int True, C_Lit CHR '','', C_Int True]"

definition cpms_fmt :: "conv list" where
  "cpms_fmt = lits ''+CPMS: '' @ cpms_one @ [C_Lit CHR '',''] @ cpms_one @ [C_Lit CHR '',''] @ cpms_one"

text \<open>\<open>struct gsmd_sms_storage\<close>: the memory, three octets of padding, two numbers of 16 bits.\<close>

abbreviation (input) sizeof_sms_storage :: int where "sizeof_sms_storage \<equiv> 24"

definition put_storage :: "mem \<Rightarrow> nat \<Rightarrow> string \<Rightarrow> int \<Rightarrow> int \<Rightarrow> mem option" where
  "put_storage b i name used tot = do {
     b \<leftarrow> mem_put b i (b8 (of_nat (parse_memtype name)));
     mem_put b (i + 4) (b16 (word_of_int used) @ b16 (word_of_int tot))
   }"

definition usock_cpms_cb :: "gcb gsmd_atcmd \<Rightarrow> nat \<Rightarrow> string \<Rightarrow> daemon \<Rightarrow> (int \<times> daemon) option" where
  "usock_cpms_cb cmd gu resp g =
     answer gu sizeof_sms_storage GSMD_MSG_SMS GSMD_SMS_GET_MSG_STORAGE (at_id cmd)
       (\<lambda>b. case sscanf resp cpms_fmt of
              (_, [V_Str m0, V_Int u0, V_Int t0, V_Str m1, V_Int u1, V_Int t1, V_Str m2, V_Int u2, V_Int t2]) \<Rightarrow> do {
                b \<leftarrow> put_storage b 0 m0 u0 t0;
                b \<leftarrow> put_storage b 8 m1 u1 t1;
                filled (put_storage b 16 m2 u2 t2)
              }
            | _ \<Rightarrow> Some (Inl (- EINVAL))) g"

definition csca_fmt :: "conv list" where
  "csca_fmt = lits ''+CSCA: '' @ [C_Lit CHR 0x22, C_Set 31 not_quote True, C_Lit CHR 0x22, C_Lit CHR '','', C_Int True]"

definition usock_get_smsc_cb :: "gcb gsmd_atcmd \<Rightarrow> nat \<Rightarrow> string \<Rightarrow> daemon \<Rightarrow> (int \<times> daemon) option" where
  "usock_get_smsc_cb cmd gu resp g =
     answer gu (int sizeof_addr) GSMD_MSG_SMS GSMD_SMS_GET_SERVICE_CENTRE (at_id cmd)
       (\<lambda>b. case sscanf resp csca_fmt of
              (_, [V_Str number, V_Int typ]) \<Rightarrow> do {
                b \<leftarrow> mem_put b 1 (number @ [NUL]);
                filled (mem_put b 0 (b8 (word_of_int typ)))
              }
            | _ \<Rightarrow> Some (Inl (- EINVAL))) g"

section \<open>Requests\<close>

definition gsmd_cmgl_stat :: "string list" where
  "gsmd_cmgl_stat = [''REC UNREAD'', ''REC READ'', ''STO UNSENT'', ''STO SENT'', ''ALL'']"

text \<open>\<open>%s\<close> of an array of octets and \<open>%.*s\<close> with a precision.\<close>

definition octets_str :: "u8 list \<Rightarrow> string option" where
  "octets_str ws = c_str_at (u8s ws)"

definition octets_strn :: "nat \<Rightarrow> u8 list \<Rightarrow> string option" where
  "octets_strn n ws =
     (if 0 \<in> set (take n ws) \<or> n \<le> length ws then Some (c_str (u8s (take n ws))) else None)"

text \<open>\<open>submit\<close>: a command with the identifier of the message, or 0.\<close>

definition submit_text :: "string \<Rightarrow> gcb option \<Rightarrow> u16 \<Rightarrow> daemon \<Rightarrow> (int \<times> daemon) option" where
  "submit_text s cb ident g = fill_submit s (length s + 1) cb ident g"

definition buf_text :: "string \<Rightarrow> gcb option \<Rightarrow> mem \<Rightarrow> daemon \<Rightarrow> (int \<times> daemon) option" where
  "buf_text s cb gph g = do {
     s \<leftarrow> sprintf_to 1024 s;
     ident \<leftarrow> mem_u16 gph 4;
     submit_text s cb ident g
   }"

text \<open>The command that sends or stores a message, up to the control-Z, in text and in PDU mode.\<close>

definition sms_text :: "daemon \<Rightarrow> string \<Rightarrow> string \<Rightarrow> gsmd_sms_submit \<Rightarrow> string option" where
  "sms_text g name stat gss =
     (if g_flags g AND GSMD_FLAG_SMS_FMT_TEXT \<noteq> 0 then do {
        number \<leftarrow> octets_str (addr_number (sub_addr gss));
        data \<leftarrow> octets_strn (unat (sms_length (sub_payload gss))) (sms_data (sub_payload gss));
        Some (name @ [CHR 0x22] @ number @ [CHR 0x22, LF] @ data @ [CHR 0x1A])
      }
      else do {
        (_, n) \<leftarrow> sms_pdu_make_smssubmit False gss;
        (pdu, _) \<leftarrow> sms_pdu_make_smssubmit True gss;
        Some (name @ dec_int (int n - 1) @ stat @ [LF] @ pdu @ [CHR 0x1A])
      })"

abbreviation (input) sizeof_sms_write :: nat where "sizeof_sms_write \<equiv> 241"

definition usock_rcv_sms :: "nat \<Rightarrow> mem \<Rightarrow> nat \<Rightarrow> daemon \<Rightarrow> (int \<times> daemon) option" where
  "usock_rcv_sms gu gph len g = do {
     _ \<leftarrow> find_user gu g;
     sub \<leftarrow> mem_u8 gph 2;
     if sub = GSMD_SMS_LIST then
       (if len < sizeof_hdr + 4 then Some (- EINVAL, g)
        else do {
          stat \<leftarrow> mem_i32 gph sizeof_hdr;
          if stat < 0 \<or> stat > 4 then Some (- EINVAL, g)
          else buf_text
            (if g_flags g AND GSMD_FLAG_SMS_FMT_TEXT \<noteq> 0
             then ''AT+CMGL='' @ [CHR 0x22] @ gsmd_cmgl_stat ! nat stat @ [CHR 0x22]
             else ''AT+CMGL='' @ dec_int stat) (Some (Sms_list_cb, gu)) gph g
        })
     else if sub = GSMD_SMS_READ then
       (if len < sizeof_hdr + 4 then Some (- EINVAL, g)
        else do {
          index \<leftarrow> mem_i32 gph sizeof_hdr;
          buf_text (''AT+CMGR='' @ dec_int index) (Some (Sms_read_cb, gu)) gph g
        })
     else if sub = GSMD_SMS_SEND then
       (if len < sizeof_hdr + sizeof_sms_submit then Some (- EINVAL, g)
        else do {
          gss \<leftarrow> rd_sms_submit gph sizeof_hdr;
          s \<leftarrow> sms_text g ''AT+CMGS='' [] gss;
          buf_text s (Some (Sms_send_cb, gu)) gph g
        })
     else if sub = GSMD_SMS_WRITE then
       (if len < sizeof_hdr + sizeof_sms_write then Some (- EINVAL, g)
        else do {
          stat \<leftarrow> mem_u8 gph sizeof_hdr;
          if stat > 4 then Some (- EINVAL, g)
          else do {
            gss \<leftarrow> rd_sms_submit gph (sizeof_hdr + 1);
            s \<leftarrow> sms_text g ''AT+CMGW='' (CHR '','' # dec_int (uint stat)) gss;
            buf_text s (Some (Sms_write_cb, gu)) gph g
          }
        })
     else if sub = GSMD_SMS_DELETE then
       (if len < sizeof_hdr + 2 then Some (- EINVAL, g)
        else do {
          index \<leftarrow> mem_u8 gph sizeof_hdr;
          delflg \<leftarrow> mem_u8 gph (sizeof_hdr + 1);
          buf_text (''AT+CMGD='' @ dec_int (uint index) @ '','' @ dec_int (uint delflg)) (Some (Sms_delete_cb, gu)) gph g
        })
     else if sub = GSMD_SMS_GET_MSG_STORAGE then submit_text ''AT+CPMS?'' (Some (Usock_cpms_cb, gu)) 0 g
     else if sub = GSMD_SMS_SET_MSG_STORAGE then
       (if len < sizeof_hdr + 12 then Some (- EINVAL, g)
        else do {
          a \<leftarrow> mem_u32 gph sizeof_hdr;
          b \<leftarrow> mem_u32 gph (sizeof_hdr + 4);
          c \<leftarrow> mem_u32 gph (sizeof_hdr + 8);
          a \<leftarrow> rd ts0705_memtype_name (unat a);
          b \<leftarrow> rd ts0705_memtype_name (unat b);
          c \<leftarrow> rd ts0705_memtype_name (unat c);
          let q = [CHR 0x22];
          buf_text (''AT+CPMS='' @ q @ a @ q @ '','' @ q @ b @ q @ '','' @ q @ c @ q) None gph g
        })
     else if sub = GSMD_SMS_GET_SERVICE_CENTRE then submit_text ''AT+CSCA?'' (Some (Usock_get_smsc_cb, gu)) 0 g
     else if sub = GSMD_SMS_SET_SERVICE_CENTRE then
       (if len < sizeof_hdr + sizeof_addr then Some (- EINVAL, g)
        else do {
          ga \<leftarrow> rd_addr gph sizeof_hdr;
          number \<leftarrow> octets_str (addr_number ga);
          buf_text (''AT+CSCA='' @ [CHR 0x22] @ number @ [CHR 0x22, CHR '',''] @ dec_int (uint (addr_type ga))) None gph g
        })
     else Some (- ENOSYS, g)
   }"

definition usock_rcv_cb :: "nat \<Rightarrow> mem \<Rightarrow> nat \<Rightarrow> daemon \<Rightarrow> (int \<times> daemon) option" where
  "usock_rcv_cb gu gph len g = do {
     _ \<leftarrow> find_user gu g;
     sub \<leftarrow> mem_u8 gph 2;
     if sub = GSMD_CB_SUBSCRIBE then submit_text ''AT+CSCB=1'' None 0 g
     else if sub = GSMD_CB_UNSUBSCRIBE then submit_text ''AT+CSCB=0'' None 0 g
     else Some (- ENOSYS, g)
   }"

definition sms_cb_init :: "daemon \<Rightarrow> (int \<times> daemon) option" where
  "sms_cb_init g =
     (let g = snd (unsolicited_register_array gsm0705_unsolicit g);
          text = (g_flags g AND GSMD_FLAG_SMS_FMT_TEXT \<noteq> 0)
      in do {
        (failed, g) \<leftarrow>
          (if text then do {
             (cmd, g) \<leftarrow> atcmd_fill (''AT+CSCS='' @ [CHR 0x22] @ ''IRA'' @ [CHR 0x22]) 14 None 0 g;
             case cmd of
               None \<Rightarrow> Some (True, g)
             | Some c \<Rightarrow> do { (_, g) \<leftarrow> atcmd_submit g c; Some (False, g) }
           }
           else Some (False, g));
        if failed then Some (- ENOMEM, g)
        else do {
          s \<leftarrow> sprintf_to 10 (''AT+CMGF='' @ dec_int (if text then 1 else 0));
          submit_text s None 0 g
        }
      })"

section \<open>Lemmas\<close>

lemma submit_text_grows [grows]: "gr.keeps g (submit_text s cb i g)" "gr.keeps g (buf_text s cb m g)"
  unfolding submit_text_def buf_text_def by (intro gr.keeps_read grows)+

lemma sms_answer_grows [grows]: "gr.keeps g (sms_answer sub f cmd gu s len g)"
  unfolding sms_answer_def by (rule gr.keeps_option, rule gr.keeps_same, rule gr.keeps_pure, rule gr.keeps_if, rule gr.keeps_same, rule grows)
    (auto intro!: lens dest: wrn_length)

lemma sms_list_grows [grows]: "gr.keeps g (sms_list_cb c gu r g)"
proof -
  have "gr.keeps g (case vs of
             [V_Int idx, V_Int stat, V_Int len, V_Pos cr] \<Rightarrow>
               if len > 164 then Some (- EINVAL, g)
               else sms_answer GSMD_SMS_LIST (f idx stat) c gu (drop cr r) len g
           | _ \<Rightarrow> Some (- EINVAL, g))" for vs f
    by (simp add: gr.keeps_same grows split: list.split sval.split)
  then show ?thesis unfolding sms_list_cb_def Let_def by (rule gr.keeps_if [OF gr.keeps_same])
qed

lemma sms_read_grows [grows]: "gr.keeps g (sms_read_cb c gu r g)"
proof -
  have "gr.keeps g (case vs of
             [V_Int stat, V_Int len, V_Pos cr] \<Rightarrow>
               if len > 164 then Some (- EINVAL, g) else h stat len cr
           | _ \<Rightarrow> Some (- EINVAL, g))" if "\<And>stat len cr. gr.keeps g (h stat len cr)" for vs h
    using that by (simp add: gr.keeps_same split: list.split sval.split)
  then show ?thesis unfolding sms_read_cb_def Let_def
    by (rule gr.keeps_if [OF gr.keeps_same]) (rule gr.keeps_read, rule grows)
qed

lemma result_answer_grows [grows]: "gr.keeps g (result_answer sub ok p c gu r g)"
  unfolding result_answer_def
  by (auto split: prod.split list.split sval.split intro!: gr.keeps_same grows lens dest!: mem_put_length)

lemma put_storage_length: "put_storage b i name used tot = Some b' \<Longrightarrow> length b' = length b"
  by (auto simp: put_storage_def dest!: mem_put_length split: bind_splits)

lemma sms_cbs_grows [grows]:
  "gr.keeps g (sms_send_cb c gu r g)" "gr.keeps g (sms_write_cb c gu r g)" "gr.keeps g (sms_delete_cb c gu g)"
  "gr.keeps g (usock_cpms_cb c gu r g)" "gr.keeps g (usock_get_smsc_cb c gu r g)"
  unfolding sms_send_cb_def sms_write_cb_def sms_delete_cb_def usock_cpms_cb_def usock_get_smsc_cb_def
  by (rule grows | (rule lens, auto dest!: mem_put_length wrn_length put_storage_length
    split: bind_splits if_splits option.splits prod.splits list.splits sval.splits; fail) | (simp; fail))+

lemma rcv_cb_grows [grows]: "gr.keeps g (usock_rcv_cb gu m n g)"
  unfolding usock_rcv_cb_def by (intro gr.keeps_read gr.keeps_if gr.keeps_same grows)

lemma rcv_sms_grows [grows]: "gr.keeps g (usock_rcv_sms gu m n g)"
  unfolding usock_rcv_sms_def Let_def by (intro gr.keeps_read gr.keeps_if gr.keeps_same grows)

end
