(* ===== verification/Gsmd.thy ===== *)
theory Gsmd
  imports Sms_Cb
begin

text \<open>
  \<^verbatim>\<open>gsm/src/gsmd/gsmd.c\<close>: the commands that the daemon issues itself at start-up, and the alive checks. At
  the end \<open>call_cb\<close> maps the name of a callback to its function: it is what a call through the pointer
  \<open>cmd->cb\<close> does.
\<close>

section \<open>Start-up\<close>

definition gsmd_test_atcb :: "daemon \<Rightarrow> (int \<times> daemon) option" where
  "gsmd_test_atcb g = Some (0, g)"

text \<open>\<open>rc\<close> starts uninitialised.\<close>

definition gsmd_initsettings2 :: "daemon \<Rightarrow> (int \<times> daemon) option" where
  "gsmd_initsettings2 g = do {
     (rc, g) \<leftarrow> simplecmds (stack_int (world g)) [''ATE0V1'', ''AT+CRC=1'', ''AT+CREG=2'', ''AT+CMEE=1'', ''AT+CLIP=1'',
       ''AT+COLP=1'', ''AT+CMGF=0'', ''AT+CFUN=1''] g;
     case vendorpl (world g) of
       Some v \<Rightarrow> pl_initsettings v g
     | None \<Rightarrow> Some (rc, g)
   }"

text \<open>An invalid response is only logged. (Becoming a daemon, if asked for, does not change the state.)\<close>

definition firstcmd_atcb :: "daemon \<Rightarrow> (int \<times> daemon) option" where
  "firstcmd_atcb g = gsmd_initsettings2 (upd_world (firstcmd_response_update (\<lambda>_. True)) g)"

definition gsmd_initsettings :: "daemon \<Rightarrow> (int \<times> daemon) option" where
  "gsmd_initsettings g = fill_submit ''ATZ'' 4 (Some (Firstcmd_atcb, 0)) 0 g"

section \<open>Alive checks\<close>

abbreviation (input) GSMD_ALIVECMD :: string where "GSMD_ALIVECMD \<equiv> ''AT''"
abbreviation (input) GSMD_ALIVE_INTERVAL :: int where "GSMD_ALIVE_INTERVAL \<equiv> 300"
abbreviation (input) GSMD_ALIVE_TIMEOUT :: int where "GSMD_ALIVE_TIMEOUT \<equiv> 30"

text \<open>The structure \<open>gsmd_alive_priv\<close> at an address; one that was freed has no entry.\<close>

definition find_alive :: "nat \<Rightarrow> daemon \<Rightarrow> bool option" where
  "find_alive a g = map_of (alive_privs (world g)) a"

definition gsmd_alive_cb :: "nat \<Rightarrow> string \<Rightarrow> daemon \<Rightarrow> (int \<times> daemon) option" where
  "gsmd_alive_cb alp resp g = do {
     _ \<leftarrow> find_alive alp g;
     if resp = ''OK'' \<or> resp = ''ERROR'' \<or> g_flags g AND GSMD_FLAG_V0 \<noteq> 0 \<and> resp \<noteq> [] \<and> hd resp = CHR ''0'' then
       Some (0, upd_world (alive_privs_update (map (\<lambda>(a, r). (a, if a = alp then True else r)))) g)
     else Some (0, g)
   }"

text \<open>The check: the process ends (\<open>Inl\<close> the exit status) if there was no response.\<close>

definition free_alive :: "nat \<Rightarrow> daemon \<Rightarrow> daemon" where
  "free_alive a g = upd_world (alive_privs_update (filter (\<lambda>x. fst x \<noteq> a))) g"

definition alive_tmr_cb :: "nat \<Rightarrow> nat \<Rightarrow> daemon \<Rightarrow> (int + daemon) option" where
  "alive_tmr_cb tmr alp g = do {
     responded \<leftarrow> find_alive alp g;
     if \<not> responded then Some (Inl 3) else Some (Inr (free_alive alp (stop_timer tmr g)))
   }"

definition create_timer :: "int \<Rightarrow> daemon \<Rightarrow> nat option \<times> daemon" where
  "create_timer sec g =
     (let (t, g) = g_alloc g
      in (t, g\<lparr>g_timers := g_timers g @ (case t of None \<Rightarrow> [] | Some a \<Rightarrow> [(a, sec)])\<rparr>))"

definition gsmd_modem_alive :: "daemon \<Rightarrow> (int \<times> daemon) option" where
  "gsmd_modem_alive g =
     (let (p, g) = g_alloc g
      in case p of
           None \<Rightarrow> Some (- ENOMEM, g)
         | Some alp \<Rightarrow> do {
             let g = upd_world (alive_privs_update (\<lambda>l. (alp, False) # l)) g;
             (cmd, g) \<leftarrow> atcmd_fill GSMD_ALIVECMD 3 (Some (Cb (Gsmd_alive_cb, alp))) 0 g;
             case cmd of
               None \<Rightarrow> Some (- ENOMEM, free_alive alp g)
             | Some c \<Rightarrow> atcmd_submit (snd (create_timer GSMD_ALIVE_TIMEOUT g)) c
           })"

definition alive_interval_tmr_cb :: "nat \<Rightarrow> daemon \<Rightarrow> daemon option" where
  "alive_interval_tmr_cb tmr g = do {
     (_, g) \<leftarrow> gsmd_modem_alive g;
     Some (g\<lparr>g_timers := g_timers g @ [(tmr, GSMD_ALIVE_INTERVAL)]\<rparr>)
   }"

definition gmsd_alive_start :: "daemon \<Rightarrow> (int \<times> daemon) option" where
  "gmsd_alive_start g = (let (t, g) = create_timer GSMD_ALIVE_INTERVAL g in Some (if t = None then - 1 else 0, g))"

section \<open>Calling a callback\<close>

definition call_cb :: "(gcb, gworld) call_env" where
  "call_cb cb cmd resp g =
     (let (f, gu) = cb in
      case f of
        Usock_cmd_cb \<Rightarrow> usock_cmd_cb cmd gu resp g
      | Null_cmd_cb \<Rightarrow> null_cmd_cb g
      | Pin_cmd_cb \<Rightarrow> pin_cmd_cb g
      | Phone_powerup_cb \<Rightarrow> phone_powerup_cb cmd gu g
      | Network_vmail_cb \<Rightarrow> network_vmail_cb cmd resp g
      | Network_sigq_cb \<Rightarrow> network_sigq_cb gu resp g
      | Network_oper_cb \<Rightarrow> network_oper_cb gu resp g
      | Network_opers_cb \<Rightarrow> network_opers_cb gu resp g
      | Network_pref_opers_cb \<Rightarrow> network_pref_opers_cb cmd gu resp g
      | Network_pref_num_cb \<Rightarrow> network_pref_num_cb cmd gu resp g
      | Network_ownnumbers_cb \<Rightarrow> network_ownnumbers_cb cmd gu resp g
      | Phonebook_find_cb \<Rightarrow> phonebook_find_cb gu resp g
      | Phonebook_read_cb \<Rightarrow> phonebook_read_cb gu resp g
      | Phonebook_readrg_cb \<Rightarrow> phonebook_readrg_cb gu resp g
      | Phonebook_write_cb \<Rightarrow> phonebook_write_cb gu resp g
      | Phonebook_delete_cb \<Rightarrow> phonebook_delete_cb gu resp g
      | Phonebook_get_support_cb \<Rightarrow> phonebook_get_support_cb gu resp g
      | Phonebook_list_storage_cb \<Rightarrow> phonebook_list_storage_cb gu resp g
      | Get_imsi_cb \<Rightarrow> get_imsi_cb gu resp g
      | Sms_list_cb \<Rightarrow> sms_list_cb cmd gu resp g
      | Sms_read_cb \<Rightarrow> sms_read_cb cmd gu resp g
      | Sms_send_cb \<Rightarrow> sms_send_cb cmd gu resp g
      | Sms_write_cb \<Rightarrow> sms_write_cb cmd gu resp g
      | Sms_delete_cb \<Rightarrow> sms_delete_cb cmd gu g
      | Usock_cpms_cb \<Rightarrow> usock_cpms_cb cmd gu resp g
      | Usock_get_smsc_cb \<Rightarrow> usock_get_smsc_cb cmd gu resp g
      | Gsmd_test_atcb \<Rightarrow> gsmd_test_atcb g
      | Gsmd_alive_cb \<Rightarrow> gsmd_alive_cb gu resp g
      | Firstcmd_atcb \<Rightarrow> firstcmd_atcb g
      | Ti_cpmb_detect_cb \<Rightarrow> cpmb_detect_cb resp g
      | Ti_cpi_detect_cb \<Rightarrow> ti_cpi_detect_cb resp g
      | Htc_cpi_detect_cb \<Rightarrow> htc_cpi_detect_cb resp g)"

section \<open>Lemmas\<close>

lemma initsettings2_grows [grows]: "gr.keeps g (gsmd_initsettings2 g)"
  unfolding gsmd_initsettings2_def by (intro gr.keeps_bind gr.keeps_option gr.keeps_same grows)

lemma firstcmd_grows [grows]: "gr.keeps g (firstcmd_atcb g)" "gr.keeps g (gsmd_initsettings g)"
  unfolding firstcmd_atcb_def gsmd_initsettings_def
  by (rule gr.keeps_trans [OF grows_world, rotated], rule grows, simp, rule grows)

lemma alive_cb_grows [grows]: "gr.keeps g (gsmd_alive_cb a r g)"
  unfolding gsmd_alive_cb_def
  by (rule gr.keeps_read, rule gr.keeps_if, rule gr.keeps_return, rule grows_world, simp, rule gr.keeps_same)

lemma free_alive_grows: "daemon_grows g (free_alive a g)"
  unfolding free_alive_def by (rule grows_world) simp

lemma create_timer_grows: "daemon_grows g (snd (create_timer sec g))"
proof -
  obtain t g1 where t: "g_alloc g = (t, g1)" by (cases "g_alloc g")
  show ?thesis using grows_trans [OF g_alloc_grows [OF t] grows_timers] by (simp add: create_timer_def t)
qed

lemma create_timer_same:
  "pending_atcmds (snd (create_timer sec g)) = pending_atcmds g" "busy_atcmds (snd (create_timer sec g)) = busy_atcmds g"
  "g_next g \<le> g_next (snd (create_timer sec g))"
  by (cases g rule: g_alloc_cases; simp add: create_timer_def)+

lemma modem_alive_grows [grows]: "gr.keeps g (gsmd_modem_alive g)"
proof -
  have *: "gr.keeps g1 (do {
         (cmd, g) \<leftarrow> atcmd_fill GSMD_ALIVECMD 3 cb 0 g1;
         case cmd of
           None \<Rightarrow> Some (- ENOMEM, free_alive alp g)
         | Some c \<Rightarrow> atcmd_submit (snd (create_timer GSMD_ALIVE_TIMEOUT g)) c
       })" for g1 cb alp
  proof (unfold gr.keeps_def, intro allI impI)
    fix x g'
    assume "(do {
         (cmd, g) \<leftarrow> atcmd_fill GSMD_ALIVECMD 3 cb 0 g1;
         case cmd of
           None \<Rightarrow> Some (- ENOMEM, free_alive alp g)
         | Some c \<Rightarrow> atcmd_submit (snd (create_timer GSMD_ALIVE_TIMEOUT g)) c
       }) = Some (x, g')"
    then consider (fail) g2 where "atcmd_fill GSMD_ALIVECMD 3 cb 0 g1 = Some (None, g2)" "g' = free_alive alp g2"
      | (ok) c g2 where "atcmd_fill GSMD_ALIVECMD 3 cb 0 g1 = Some (Some c, g2)"
          "atcmd_submit (snd (create_timer GSMD_ALIVE_TIMEOUT g2)) c = Some (x, g')"
      by (auto simp del: gsmd.simps split: bind_splits option.splits)
    then show "daemon_grows g1 g'"
    proof cases
      case fail
      then show ?thesis using grows_trans [OF fill_grows free_alive_grows] by auto
    next
      case ok
      show ?thesis
        by (rule fresh_submit_grows [OF ok(2) grows_trans [OF fill_grows [OF ok(1)] create_timer_grows]],
          rule fresh_later [OF atcmd_fill_ok(2) [OF ok(1)]]) (simp_all add: create_timer_same)
    qed
  qed
  show ?thesis
    unfolding gsmd_modem_alive_def Let_def
    by (rule keeps_alloc, rule gr.keeps_option, rule gr.keeps_same, rule gr.keeps_trans [OF grows_world, rotated], rule *, simp)
qed

lemma alive_start_grows [grows]: "gr.keeps g (gmsd_alive_start g)"
  using create_timer_grows [of g GSMD_ALIVE_INTERVAL]
  by (auto simp: gmsd_alive_start_def gr.keeps_def split: prod.splits)

lemma interval_grows:
  assumes "alive_interval_tmr_cb t g = Some g'"
  shows "daemon_grows g g'"
proof -
  obtain rc g1 where 1: "gsmd_modem_alive g = Some (rc, g1)" and g': "g' = g1\<lparr>g_timers := g_timers g1 @ [(t, GSMD_ALIVE_INTERVAL)]\<rparr>"
    using assms by (auto simp: alive_interval_tmr_cb_def simp del: gsmd.simps split: bind_splits)
  show ?thesis unfolding g' by (rule grows_trans [OF gr.keepsD [OF modem_alive_grows 1] grows_timers])
qed

lemma alive_tmr_grows:
  assumes "alive_tmr_cb t a g = Some (Inr g')"
  shows "daemon_grows g g'"
proof -
  have "g' = free_alive a (stop_timer t g)"
    using assms by (auto simp: alive_tmr_cb_def simp del: gsmd.simps split: bind_splits if_splits)
  then show ?thesis
    unfolding stop_timer_def using grows_trans [OF grows_timers free_alive_grows] by simp
qed

lemma call_cb_grows: "gr.keeps g (call_cb cb c r g)"
  unfolding call_cb_def Let_def gsmd_test_atcb_def
  by (cases cb; cases "fst cb"; simp only: prod.case fst_conv cb_fn.case; rule grows gr.keeps_same)

end
