(* ===== verification/Usock_Rcv.thy ===== *)
theory Usock_Rcv
  imports Gsmd
begin

text \<open>
  The handlers of client messages, \<^verbatim>\<open>gsm/src/gsmd/usock.c\<close> (those for short messages are in the theory Sms_Cb),
  and their dispatcher. \<open>gph\<close> is the array of 1024 octets that the message was read into, \<open>len\<close> the number of
  octets that were read.
\<close>

abbreviation (input) sizeof_pin :: nat where "sizeof_pin \<equiv> 22"

section \<open>Helpers\<close>

text \<open>
  Strings of a message: a character array, which has to contain a NUL.
\<close>

definition mem_arr_str :: "mem \<Rightarrow> nat \<Rightarrow> nat \<Rightarrow> string option" where
  "mem_arr_str m i n = Option.bind (mem_chars m i n) c_str_at"

text \<open>
  A command that is allocated for a prefix and a length, and then written with \<open>sprintf\<close> (or built up
  with \<open>strcat\<close>) in its own buffer.
\<close>

definition fill_printf :: "string \<Rightarrow> nat \<Rightarrow> string \<Rightarrow> gcb option \<Rightarrow> u16 \<Rightarrow> daemon \<Rightarrow> (int \<times> daemon) option" where
  "fill_printf prefix rlen s cb ident g = do {
     (cmd, g) \<leftarrow> atcmd_fill prefix rlen (map_option Cb cb) ident g;
     case cmd of
       None \<Rightarrow> Some (- ENOMEM, g)
     | Some c \<Rightarrow> do {
         b \<leftarrow> wrn (at_buf c) 0 (s @ [NUL]);
         atcmd_submit g (c\<lparr>at_buf := b\<rparr>)
       }
   }"

text \<open>The code \<open>if (cmd) return atcmd_submit (\<dots>); else return 0\<close>.\<close>

definition submit_or_0 :: "string \<Rightarrow> gcb \<Rightarrow> u16 \<Rightarrow> daemon \<Rightarrow> (int \<times> daemon) option" where
  "submit_or_0 s cb ident g = do {
     (cmd, g) \<leftarrow> atcmd_fill s (length s + 1) (Some (Cb cb)) ident g;
     case cmd of None \<Rightarrow> Some (0, g) | Some c \<Rightarrow> atcmd_submit g c
   }"

section \<open>Handlers\<close>

text \<open>The length of the command is the one in the header, whatever was read.\<close>

definition usock_rcv_passthrough :: "nat \<Rightarrow> mem \<Rightarrow> nat \<Rightarrow> daemon \<Rightarrow> (int \<times> daemon) option" where
  "usock_rcv_passthrough gu gph len g = do {
     s \<leftarrow> mem_str gph sizeof_hdr;
     n \<leftarrow> mem_u16 gph 6;
     ident \<leftarrow> mem_u16 gph 4;
     fill_submit s (unat n) (Some (Usock_cmd_cb, gu)) ident g
   }"

text \<open>The function ends without a \<open>return\<close>: the result is arbitrary.\<close>

definition usock_rcv_event :: "nat \<Rightarrow> mem \<Rightarrow> nat \<Rightarrow> daemon \<Rightarrow> (int \<times> daemon) option" where
  "usock_rcv_event gu gph len g =
     (if len < sizeof_hdr + 4 then Some (- EINVAL, g)
      else do {
        sub \<leftarrow> mem_u8 gph 2;
        if sub \<noteq> GSMD_EVT_SUBSCRIPTIONS then Some (- EINVAL, g)
        else do {
          evtmask \<leftarrow> mem_u32 gph sizeof_hdr;
          Some (stack_int (world g), upd_user gu (subscriptions_update (\<lambda>_. evtmask)) g)
        }
      })"

definition usock_rcv_voicecall :: "nat \<Rightarrow> mem \<Rightarrow> nat \<Rightarrow> daemon \<Rightarrow> (int \<times> daemon) option" where
  "usock_rcv_voicecall gu gph len g = do {
     sub \<leftarrow> mem_u8 gph 2;
     if sub = GSMD_VOICECALL_DIAL then
       (if len < sizeof_hdr + sizeof_addr then Some (- EINVAL, g)
        else do {
          chars \<leftarrow> mem_chars gph (sizeof_hdr + 1) GSMD_ADDR_MAXLEN;
          let number = c_str chars;
          ident \<leftarrow> mem_u16 gph 4;
          fill_printf ''ATD'' (5 + length number) (''ATD'' @ number @ '';'') (Some (Usock_cmd_cb, gu)) ident g
        })
     else if sub = GSMD_VOICECALL_HANGUP then do {
       ident \<leftarrow> mem_u16 gph 4;
       (cmd, g) \<leftarrow> atcmd_fill ''ATH'' 4 (Some (Cb (Usock_cmd_cb, gu))) ident g;
       case cmd of None \<Rightarrow> Some (- ENOMEM, g) | Some c \<Rightarrow> cancel_atcmd call_cb g c
     }
     else if sub = GSMD_VOICECALL_ANSWER then do {
       ident \<leftarrow> mem_u16 gph 4;
       fill_submit ''ATA'' 4 (Some (Usock_cmd_cb, gu)) ident g
     }
     else if sub = GSMD_VOICECALL_DTMF then
       (if len < sizeof_hdr + 1 then Some (- EINVAL, g)
        else do {
          n \<leftarrow> mem_u8 gph sizeof_hdr;
          if len < sizeof_hdr + 1 + unat n then Some (- EINVAL, g)
          else if n \<noteq> 1 then Some (- EINVAL, g)
          else do {
            c \<leftarrow> mem_char gph (sizeof_hdr + 1);
            ident \<leftarrow> mem_u16 gph 4;
            fill_printf ''AT+VTS='' (1 + 7 + unat n * 2) (''AT+VTS='' @ [c] @ '';'') (Some (Usock_cmd_cb, gu)) ident g
          }
        })
     else Some (- EINVAL, g)
   }"

definition usock_rcv_pin :: "nat \<Rightarrow> mem \<Rightarrow> nat \<Rightarrow> daemon \<Rightarrow> (int \<times> daemon) option" where
  "usock_rcv_pin gu gph len g = do {
     n \<leftarrow> mem_u16 gph 6;
     if unat n < sizeof_pin \<or> len < sizeof_pin + sizeof_hdr then Some (- EINVAL, g)
     else do {
       sub \<leftarrow> mem_u8 gph 2;
       if sub \<noteq> GSMD_PIN_INPUT then Some (- EINVAL, g)
       else do {
         typ \<leftarrow> mem_i32 gph sizeof_hdr;
         pin \<leftarrow> mem_arr_str gph (sizeof_hdr + 4) (GSMD_PIN_MAXLEN + 1);
         newpin \<leftarrow>
           (if typ = GSMD_PIN_SIM_PUK \<or> typ = GSMD_PIN_SIM_PUK2
            then map_option (\<lambda>s. [CHR 0x22, CHR '','', CHR 0x22] @ s)
                   (mem_arr_str gph (sizeof_hdr + 4 + GSMD_PIN_MAXLEN + 1) (GSMD_PIN_MAXLEN + 1))
            else Some []);
         fill_printf (''AT+CPIN='' @ [CHR 0x22]) (9 + GSMD_PIN_MAXLEN + 3 + GSMD_PIN_MAXLEN + 2)
           (''AT+CPIN='' @ [CHR 0x22] @ pin @ newpin @ [CHR 0x22]) (Some (Pin_cmd_cb, gu)) 0 g
       }
     }
   }"

definition usock_rcv_phone :: "nat \<Rightarrow> mem \<Rightarrow> nat \<Rightarrow> daemon \<Rightarrow> (int \<times> daemon) option" where
  "usock_rcv_phone gu gph len g = do {
     sub \<leftarrow> mem_u8 gph 2;
     if sub = GSMD_PHONE_POWERUP then fill_submit ''AT+CFUN=1'' 10 (Some (Phone_powerup_cb, gu)) 0 g
     else if sub = GSMD_PHONE_POWERDOWN then do {
       (cmd, g) \<leftarrow> atcmd_fill ''AT+CFUN=0'' 10 (Some (Cb (Null_cmd_cb, gu))) 0 g;
       let g = upd_world (dev_on_update (\<lambda>_. False)) g;
       case cmd of None \<Rightarrow> Some (- ENOMEM, g) | Some c \<Rightarrow> atcmd_submit g c
     }
     else Some (- EINVAL, g)
   }"

text \<open>
  The numeric operator is an array of 6 characters that need not be terminated; the message may be
  shorter, which is not tested. A helper command that could not be allocated is submitted as NULL.
\<close>

definition helper_cmd :: "string \<Rightarrow> nat \<Rightarrow> daemon \<Rightarrow> (unit \<times> daemon) option" where
  "helper_cmd s gu g = do {
     (cmd, g) \<leftarrow> atcmd_fill s (length s + 1) (Some (Cb (Null_cmd_cb, gu))) 0 g;
     (_, g) \<leftarrow> atcmd_submit_ptr g cmd;
     Some ((), g)
   }"

definition buffer_text :: "string \<Rightarrow> gcb \<Rightarrow> daemon \<Rightarrow> (int \<times> daemon) option" where
  "buffer_text s cb g = do { s \<leftarrow> sprintf_to 21 s; submit_text s (Some cb) 0 g }"

definition usock_rcv_network :: "nat \<Rightarrow> mem \<Rightarrow> nat \<Rightarrow> daemon \<Rightarrow> (int \<times> daemon) option" where
  "usock_rcv_network gu gph len g = do {
     sub \<leftarrow> mem_u8 gph 2;
     let q = [CHR 0x22];
     if sub = GSMD_NETWORK_REGISTER then do {
       c \<leftarrow> mem_char gph sizeof_hdr;
       if c \<noteq> NUL then do {
         oper \<leftarrow> mem_strn 6 (drop sizeof_hdr gph);
         buffer_text (''AT+COPS=1,2,'' @ q @ oper @ q) (Null_cmd_cb, gu) g
       }
       else buffer_text ''AT+COPS=0'' (Null_cmd_cb, gu) g
     }
     else if sub = GSMD_NETWORK_DEREGISTER then submit_text ''AT+COPS=2'' (Some (Null_cmd_cb, gu)) 0 g
     else if sub = GSMD_NETWORK_VMAIL_GET then submit_text ''AT+CSVM?'' (Some (Network_vmail_cb, gu)) 0 g
     else if sub = GSMD_NETWORK_VMAIL_SET then submit_text ''AT+CSVM='' (Some (Network_vmail_cb, gu)) 0 g
     else if sub = GSMD_NETWORK_SIGQ_GET then submit_text ''AT+CSQ'' (Some (Network_sigq_cb, gu)) 0 g
     else if sub = GSMD_NETWORK_OPER_GET then do {
       (_, g) \<leftarrow> helper_cmd ''AT+COPS=3,0'' gu g;
       submit_text ''AT+COPS?'' (Some (Network_oper_cb, gu)) 0 g
     }
     else if sub = GSMD_NETWORK_OPER_LIST then submit_text ''AT+COPS=?'' (Some (Network_opers_cb, gu)) 0 g
     else if sub = GSMD_NETWORK_PREF_LIST then do {
       (_, g) \<leftarrow> helper_cmd ''AT+CPOL=,0'' gu g;
       submit_text ''AT+CPOL?'' (Some (Network_pref_opers_cb, gu)) 0 g
     }
     else if sub = GSMD_NETWORK_PREF_DEL then do {
       n \<leftarrow> mem_i32 gph sizeof_hdr;
       buffer_text (''AT+CPOL='' @ dec_int n) (Null_cmd_cb, gu) g
     }
     else if sub = GSMD_NETWORK_PREF_ADD then do {
       oper \<leftarrow> mem_strn 6 (drop sizeof_hdr gph);
       buffer_text (''AT+CPOL=,2,'' @ q @ oper @ q) (Null_cmd_cb, gu) g
     }
     else if sub = GSMD_NETWORK_PREF_SPACE then submit_text ''AT+CPOL=?'' (Some (Network_pref_num_cb, gu)) 0 g
     else if sub = GSMD_NETWORK_GET_NUMBER then submit_text ''AT+CNUM'' (Some (Network_ownnumbers_cb, gu)) 0 g
     else Some (- EINVAL, g)
   }"

section \<open>Phone book\<close>

text \<open>
  The two requests for stored entries. The size of the answer is a number of the client times the size of
  an entry, computed modulo \<open>2^32\<close>. Each entry is copied and its memory, which belongs to \<open>talloc\<close>, is given
  to \<open>free\<close>: undefined behaviour as soon as there is an entry.
\<close>

definition retrieve :: "u8 \<Rightarrow> (gsmd_user \<Rightarrow> gsmd_phonebook list) \<Rightarrow> nat \<Rightarrow> mem \<Rightarrow> nat \<Rightarrow> daemon \<Rightarrow> (int \<times> daemon) option" where
  "retrieve sub entries gu gph len g =
     (if len < sizeof_hdr + 4 then Some (- EINVAL, g)
      else do {
        num \<leftarrow> mem_i32 gph sizeof_hdr;
        (ucmd, g) \<leftarrow> gsmd_ucmd_fill (to_int32 (int sizeof_phonebook * num)) GSMD_MSG_PHONEBOOK sub 0 g;
        case ucmd of
          None \<Rightarrow> Some (- ENOMEM, g)
        | Some u \<Rightarrow> do {
            x \<leftarrow> find_user gu g;
            if entries x \<noteq> [] then None
            else do {
              (_, g) \<leftarrow> usock_cmd_enqueue u gu g;
              Some (0, g)
            }
          }
      })"

definition usock_rcv_phonebook :: "nat \<Rightarrow> mem \<Rightarrow> nat \<Rightarrow> daemon \<Rightarrow> (int \<times> daemon) option" where
  "usock_rcv_phonebook gu gph len g = do {
     sub \<leftarrow> mem_u8 gph 2;
     let q = [CHR 0x22];
     let cpb = (\<lambda>c s cb. do {
       s \<leftarrow> sprintf_to 1024 s;
       ident \<leftarrow> mem_u16 gph 4;
       fill_printf (''AT+CPB'' @ [c] @ ''='') (1 + 8 + length s) (''AT+CPB'' @ [c] @ ''='' @ s) (Some (cb, gu)) ident g
     });
     if sub = GSMD_PHONEBOOK_LIST_STORAGE then do {
       ident \<leftarrow> mem_u16 gph 4;
       submit_or_0 ''AT+CPBS=?'' (Phonebook_list_storage_cb, gu) ident g
     }
     else if sub = GSMD_PHONEBOOK_SET_STORAGE then
       (if len < sizeof_hdr + 3 then Some (- EINVAL, g)
        else do {
          storage \<leftarrow> mem_str gph sizeof_hdr;
          ident \<leftarrow> mem_u16 gph 4;
          fill_printf (''AT+CPBS='' @ q) (1 + 9 + 2 + 1) (''AT+CPBS='' @ q @ storage @ q) (Some (Usock_cmd_cb, gu)) ident g
        })
     else if sub = GSMD_PHONEBOOK_FIND then
       (if len < sizeof_hdr + GSMD_PB_TEXT_MAXLEN + 1 then Some (- EINVAL, g)
        else do {
          findtext \<leftarrow> mem_arr_str gph sizeof_hdr (GSMD_PB_TEXT_MAXLEN + 1);
          ident \<leftarrow> mem_u16 gph 4;
          fill_printf (''AT+CPBF='' @ q) (1 + 9 + length findtext + 1) (''AT+CPBF='' @ q @ findtext @ q)
            (Some (Phonebook_find_cb, gu)) ident g
        })
     else if sub = GSMD_PHONEBOOK_READ then
       (if len < sizeof_hdr + 4 then Some (- EINVAL, g)
        else do { index \<leftarrow> mem_i32 gph sizeof_hdr; cpb CHR ''R'' (dec_int index) Phonebook_read_cb })
     else if sub = GSMD_PHONEBOOK_READRG then
       (if len < sizeof_hdr + 2 then Some (- EINVAL, g)
        else do {
          index1 \<leftarrow> mem_u8 gph sizeof_hdr;
          index2 \<leftarrow> mem_u8 gph (sizeof_hdr + 1);
          cpb CHR ''R'' (dec_int (uint index1) @ '','' @ dec_int (uint index2)) Phonebook_readrg_cb
        })
     else if sub = GSMD_PHONEBOOK_WRITE then
       (if len < sizeof_hdr + sizeof_phonebook then Some (- EINVAL, g)
        else do {
          index \<leftarrow> mem_u8 gph sizeof_hdr;
          numb \<leftarrow> mem_arr_str gph (sizeof_hdr + 1) (GSMD_PB_NUMB_MAXLEN + 1);
          typ \<leftarrow> mem_u8 gph (sizeof_hdr + 46);
          text \<leftarrow> mem_arr_str gph (sizeof_hdr + 47) (GSMD_PB_TEXT_MAXLEN + 1);
          cpb CHR ''W'' (dec_int (uint index) @ '','' @ q @ numb @ q @ '','' @ dec_int (uint typ) @ '','' @ q @ text @ q)
            Phonebook_write_cb
        })
     else if sub = GSMD_PHONEBOOK_DELETE then
       (if len < sizeof_hdr + 4 then Some (- EINVAL, g)
        else do { index \<leftarrow> mem_i32 gph sizeof_hdr; cpb CHR ''W'' (dec_int index) Phonebook_delete_cb })
     else if sub = GSMD_PHONEBOOK_GET_SUPPORT then do {
       ident \<leftarrow> mem_u16 gph 4;
       submit_or_0 ''AT+CPBR=?'' (Phonebook_get_support_cb, gu) ident g
     }
     else if sub = GSMD_PHONEBOOK_RETRIEVE_READRG then
       retrieve GSMD_PHONEBOOK_RETRIEVE_READRG pb_readrg_list gu gph len g
     else if sub = GSMD_PHONEBOOK_RETRIEVE_FIND then retrieve GSMD_PHONEBOOK_RETRIEVE_FIND pb_find_list gu gph len g
     else if sub = GSMD_PHONEBOOK_GET_IMSI then submit_or_0 ''AT+CIMI'' (Get_imsi_cb, gu) 0 g
     else Some (- EINVAL, g)
   }"

section \<open>The dispatcher\<close>

text \<open>The table of handlers, by message type; two types have none.\<close>

definition pcmd_type_handlers :: "u8 \<Rightarrow> (nat \<Rightarrow> mem \<Rightarrow> nat \<Rightarrow> daemon \<Rightarrow> (int \<times> daemon) option) option" where
  "pcmd_type_handlers t =
     (if t = GSMD_MSG_PASSTHROUGH then Some usock_rcv_passthrough
      else if t = GSMD_MSG_EVENT then Some usock_rcv_event
      else if t = GSMD_MSG_VOICECALL then Some usock_rcv_voicecall
      else if t = GSMD_MSG_PIN then Some usock_rcv_pin
      else if t = GSMD_MSG_PHONE then Some usock_rcv_phone
      else if t = GSMD_MSG_NETWORK then Some usock_rcv_network
      else if t = GSMD_MSG_SMS then Some usock_rcv_sms
      else if t = GSMD_MSG_CB then Some usock_rcv_cb
      else if t = GSMD_MSG_PHONEBOOK then Some usock_rcv_phonebook
      else None)"

definition usock_rcv_pcmd :: "nat \<Rightarrow> mem \<Rightarrow> nat \<Rightarrow> daemon \<Rightarrow> (int \<times> daemon) option" where
  "usock_rcv_pcmd gu buf len g = do {
     v \<leftarrow> mem_u8 buf 0;
     if v \<noteq> GSMD_PROTO_VERSION then Some (- EINVAL, g)
     else do {
       t \<leftarrow> mem_u8 buf 1;
       if t \<ge> NUM_GSMD_MSGS then Some (- EINVAL, g)
       else case pcmd_type_handlers t of
              None \<Rightarrow> Some (- EINVAL, g)
            | Some umh \<Rightarrow> umh gu buf len g
     }
   }"

section \<open>The queue\<close>

text \<open>Writing a string with its NUL over the front of a buffer that ends with a NUL.\<close>

lemma wrn_last:
  assumes "wrn xs 0 (s @ [z]) = Some ys" "last xs = z"
  shows "length ys = length xs" "last ys = z"
proof -
  have l: "length s + 1 \<le> length xs" and y: "ys = s @ z # drop (length s + 1) xs"
    using assms(1) by (auto simp: wrn_def split: if_splits)
  then show "length ys = length xs" by simp
  show "last ys = z"
  proof (cases "length s + 1 = length xs")
    case False
    then have "last (drop (length s + 1) xs) = z" using l assms(2) by (simp add: last_drop)
    then show ?thesis using l False by (simp add: y last_append)
  qed (simp add: y)
qed

lemma fresh_rewrite:
  assumes "fresh_cmd c g" "wrn (at_buf c) 0 (s @ [NUL]) = Some b"
  shows "fresh_cmd (c\<lparr>at_buf := b\<rparr>) g"
  using assms(1) wrn_last [OF assms(2)] by (simp add: fresh_cmd_def wf_cmd_def)

lemma fill_printf_grows [grows]: "gr.keeps g (fill_printf p n s cb i g)"
proof (unfold gr.keeps_def, intro allI impI)
  fix x g'
  assume "fill_printf p n s cb i g = Some (x, g')"
  then consider "atcmd_fill p n (map_option Cb cb) i g = Some (None, g')"
    | (ok) c g1 b where "atcmd_fill p n (map_option Cb cb) i g = Some (Some c, g1)"
        "wrn (at_buf c) 0 (s @ [NUL]) = Some b" "atcmd_submit g1 (c\<lparr>at_buf := b\<rparr>) = Some (x, g')"
    by (auto simp: fill_printf_def simp del: gsmd.simps split: bind_splits option.splits)
  then show "daemon_grows g g'"
  proof cases
    case ok
    show ?thesis
      by (rule fresh_submit_grows [OF ok(3) fill_grows [OF ok(1)] fresh_rewrite [OF atcmd_fill_ok(2) [OF ok(1)] ok(2)]])
  qed (rule fill_grows)
qed

lemma fill_then_grows:
  assumes "\<And>g1. atcmd_fill p n cb i g = Some (None, g1) \<Longrightarrow> gr.keeps g1 (f g1)"
    "\<And>c g1 rc g2. atcmd_fill p n cb i g = Some (Some c, g1) \<Longrightarrow> h c g1 = Some (rc, g2) \<Longrightarrow> daemon_grows g g2"
  shows "gr.keeps g (do { (cmd, g) \<leftarrow> atcmd_fill p n cb i g; case cmd of None \<Rightarrow> f g | Some c \<Rightarrow> h c g })"
proof (unfold gr.keeps_def, intro allI impI)
  fix x g'
  assume "(do { (cmd, g) \<leftarrow> atcmd_fill p n cb i g; case cmd of None \<Rightarrow> f g | Some c \<Rightarrow> h c g }) = Some (x, g')"
  then obtain cmd g1 where a: "atcmd_fill p n cb i g = Some (cmd, g1)"
    and b: "(case cmd of None \<Rightarrow> f g1 | Some c \<Rightarrow> h c g1) = Some (x, g')"
    by (auto simp del: gsmd.simps split: bind_splits)
  show "daemon_grows g g'"
  proof (cases cmd)
    case None
    then show ?thesis
      using grows_trans [OF fill_grows [OF a]] gr.keepsD [OF assms(1)] a b by auto
  next
    case (Some c)
    then show ?thesis using assms(2) a b by simp
  qed
qed

lemma submit_or_0_grows [grows]: "gr.keeps g (submit_or_0 s cb i g)"
  unfolding submit_or_0_def by (rule fill_then_grows) (rule gr.keeps_same, rule fill_then_submit)

lemma phone_grows [grows]: "gr.keeps g (usock_rcv_phone gu m n g)"
proof -
  have "gr.keeps g (do {
       (cmd, g) \<leftarrow> atcmd_fill ''AT+CFUN=0'' 10 cb 0 g;
       case cmd of None \<Rightarrow> Some (- ENOMEM, upd_world f g) | Some c \<Rightarrow> atcmd_submit (upd_world f g) c
     })" if f: "\<And>w. users (f w) = users w" for cb f
  proof (rule fill_then_grows)
    fix c g1 rc g2
    assume a: "atcmd_fill ''AT+CFUN=0'' 10 cb 0 g = Some (Some c, g1)" and s: "atcmd_submit (upd_world f g1) c = Some (rc, g2)"
    show "daemon_grows g g2"
      by (rule fresh_submit_grows [OF s grows_trans [OF fill_grows [OF a] grows_world [OF f]]],
        rule fresh_later [OF atcmd_fill_ok(2) [OF a]]) (simp_all add: upd_world_def)
  qed (rule gr.keeps_return, rule grows_world, rule f)
  note off = this
  show ?thesis
    unfolding usock_rcv_phone_def Let_def
    by (rule gr.keeps_read, rule gr.keeps_if, rule grows, rule gr.keeps_if, rule off, simp, rule gr.keeps_same)
qed

lemma helper_grows [grows]: "gr.keeps g (helper_cmd s gu g)"
proof (unfold gr.keeps_def, intro allI impI)
  fix x g'
  assume "helper_cmd s gu g = Some (x, g')"
  then obtain c g1 rc where "atcmd_fill s (length s + 1) (Some (Cb (Null_cmd_cb, gu))) 0 g = Some (Some c, g1)"
      "atcmd_submit g1 c = Some (rc, g')"
    by (auto simp: helper_cmd_def atcmd_submit_ptr_def simp del: gsmd.simps split: bind_splits)
  then show "daemon_grows g g'" by (rule fill_then_submit)
qed

lemma buffer_text_grows [grows]: "gr.keeps g (buffer_text s cb g)"
  unfolding buffer_text_def by (intro gr.keeps_read grows)

lemma network_grows [grows]: "gr.keeps g (usock_rcv_network gu m n g)"
  unfolding usock_rcv_network_def Let_def by (intro gr.keeps_read gr.keeps_if gr.keeps_bind gr.keeps_same grows)

lemma retrieve_grows [grows]: "gr.keeps g (retrieve s e gu m n g)"
  unfolding retrieve_def
  by (rule gr.keeps_if, rule gr.keeps_same, rule gr.keeps_read, rule gr.keeps_bind, rule grows, rule gr.keeps_option,
    rule gr.keeps_same, rule gr.keeps_read, rule gr.keeps_if, rule gr.keeps_None, rule gr.keeps_bind, rule grows,
    drule ucmd_fill_packet [OF _ _ _ refl], assumption, simp, simp, rule gr.keeps_same)

lemma phonebook_grows [grows]: "gr.keeps g (usock_rcv_phonebook gu m n g)"
  unfolding usock_rcv_phonebook_def Let_def by (intro gr.keeps_read gr.keeps_if gr.keeps_same grows)

lemma rcv_grows [grows]: "gr.keeps g (usock_rcv_passthrough gu m n g)" "gr.keeps g (usock_rcv_pin gu m n g)"
  unfolding usock_rcv_passthrough_def usock_rcv_pin_def by (intro gr.keeps_read gr.keeps_if gr.keeps_same grows)+

lemma event_grows [grows]: "gr.keeps g (usock_rcv_event gu m n g)"
  unfolding usock_rcv_event_def
  by (intro gr.keeps_if gr.keeps_read gr.keeps_same gr.keeps_return grows_user) (simp add: user_grows_def user_live_def)

text \<open>
  Hanging up cancels the executing command, so that the queue does not only grow; what every handler
  keeps is the invariant.
\<close>

definition daemon_keeps :: "daemon \<Rightarrow> daemon \<Rightarrow> bool" where
  "daemon_keeps g g' \<longleftrightarrow> (queue_ok g \<longrightarrow> queue_ok g') \<and> g_next g \<le> g_next g' \<and> world_grows (world g) (world g')"

lemma daemon_keeps_trans: "daemon_keeps a b \<Longrightarrow> daemon_keeps b c \<Longrightarrow> daemon_keeps a c"
  using world_grows_trans by (auto simp: daemon_keeps_def)

lemma grows_keeps: "daemon_grows g g' \<Longrightarrow> daemon_keeps g g'"
  by (auto simp: daemon_grows_def daemon_keeps_def queue_grows_def)

interpretation qk: step_rel daemon_keeps
  by unfold_locales (simp add: daemon_keeps_def world_grows_same, rule daemon_keeps_trans)

lemma grows_ok: "gr.keeps g m \<Longrightarrow> qk.keeps g m"
  using grows_keeps by (auto simp: gr.keeps_def qk.keeps_def)

lemma call_cb_relates:
  "call_cb c cmd resp g = Some (rc, g') \<Longrightarrow> queue_grows g g' \<and> g_next g \<le> g_next g' \<and> world_grows (world g) (world g')"
  using gr.keepsD [OF call_cb_grows] by (auto simp: daemon_grows_def queue_grows_def)

interpretation cb: atcmd_callbacks call_cb
  by unfold_locales (simp add: call_cb_relates)

interpretation cw: world_calls call_cb world_grows
  by unfold_locales (simp add: world_grows_same, rule world_grows_trans, assumption, assumption, drule call_cb_relates, blast)

lemma hangup_ok:
  "qk.keeps g (do {
     (cmd, g) \<leftarrow> atcmd_fill s n b i g;
     case cmd of None \<Rightarrow> Some (- ENOMEM, g) | Some c \<Rightarrow> cancel_atcmd call_cb g c
   })"
proof (unfold qk.keeps_def, intro allI impI)
  fix x g'
  assume "(do {
     (cmd, g) \<leftarrow> atcmd_fill s n b i g;
     case cmd of None \<Rightarrow> Some (- ENOMEM, g) | Some c \<Rightarrow> cancel_atcmd call_cb g c
   }) = Some (x, g')"
  then consider "atcmd_fill s n b i g = Some (None, g')"
    | c g1 where "atcmd_fill s n b i g = Some (Some c, g1)" "cancel_atcmd call_cb g1 c = Some (x, g')"
    by (auto simp del: gsmd.simps split: bind_splits option.splits)
  then show "daemon_keeps g g'"
  proof cases
    case 1
    then show ?thesis by (intro grows_keeps fill_grows)
  next
    case 2
    have "queue_ok g \<Longrightarrow> queue_ok g'" using cb.cancel_ok [OF 2(2)] atcmd_fill_ok(1,2) [OF 2(1)] by blast
    moreover have "cw.S g g'" using cw.S_trans cw.st.keepsD [OF cw.fill_S 2(1)] cw.st.keepsD [OF cw.cancel_S 2(2)] by blast
    ultimately show ?thesis by (simp add: daemon_keeps_def cw.S_def)
  qed
qed

lemma voicecall_ok: "qk.keeps g (usock_rcv_voicecall gu m n g)"
  unfolding usock_rcv_voicecall_def Let_def
  by (intro qk.keeps_read qk.keeps_if hangup_ok grows_ok [OF fill_printf_grows] grows_ok [OF fill_submit_grows] qk.keeps_same)

lemma handlers_ok: "pcmd_type_handlers t = Some h \<Longrightarrow> qk.keeps g (h gu m n g)"
  unfolding pcmd_type_handlers_def
  by (auto split: if_splits intro: grows_ok [OF rcv_grows(1)] grows_ok [OF rcv_grows(2)] grows_ok [OF event_grows]
    voicecall_ok grows_ok [OF phone_grows] grows_ok [OF network_grows] grows_ok [OF rcv_sms_grows]
    grows_ok [OF rcv_cb_grows] grows_ok [OF phonebook_grows])

lemma pcmd_ok: "qk.keeps g (usock_rcv_pcmd gu m n g)"
  unfolding usock_rcv_pcmd_def
  by (intro qk.keeps_read qk.keeps_if qk.keeps_same) (auto split: option.split intro: qk.keeps_same handlers_ok)

end
