(* ===== verification/Usock.thy ===== *)
theory Usock
  imports Usock_Rcv
begin

text \<open>
  The sockets of the clients, \<^verbatim>\<open>gsm/src/gsmd/usock.c\<close>: a new connection, a message of a client, the end of a
  connection, and the writing of the queued answers. What the system calls return is an argument: \<open>Inl\<close> an
  error of \<open>read\<close>, \<open>Inr\<close> the octets read (none at the end of the connection), and the results of the
  calls of \<open>write\<close> one after the other.
\<close>

section \<open>Reading\<close>

text \<open>The array \<open>buf[1024]\<close> after \<open>read\<close>.\<close>

abbreviation (input) USOCK_BUF :: nat where "USOCK_BUF \<equiv> 1024"

definition read_buf :: "string \<Rightarrow> mem" where
  "read_buf data = map Some data @ fresh_mem (USOCK_BUF - length data)"

definition del_user :: "nat \<Rightarrow> daemon \<Rightarrow> daemon" where
  "del_user gu g = upd_world (users_update (filter (\<lambda>u. gu_ptr u \<noteq> gu))) g"

definition user_read :: "nat \<Rightarrow> int + string \<Rightarrow> daemon \<Rightarrow> (int \<times> daemon) option" where
  "user_read gu rcv g =
     (case rcv of
        Inl rc \<Rightarrow> Some (rc, g)
      | Inr [] \<Rightarrow> Some (0, del_user gu g)
      | Inr data \<Rightarrow> usock_rcv_pcmd gu (read_buf data) (length data) g)"

section \<open>Writing\<close>

text \<open>
  The octets of an answer that the header announces; the whole answer is written with one call, and an
  answer that was not written completely stays in the queue.
\<close>

definition ucmd_octets :: "gsmd_ucmd \<Rightarrow> mem option" where
  "ucmd_octets u = do {
     n \<leftarrow> mem_u16 (u_hdr u) 6;
     rdn (u_hdr u @ u_buf u) 0 (sizeof_hdr + unat n)
   }"

text \<open>The loop: the result, the answers that are left, and what reached the socket. A missing result is a full pipe.\<close>

fun write_loop :: "int list \<Rightarrow> gsmd_ucmd list \<Rightarrow> (int option \<times> gsmd_ucmd list \<times> mem) option" where
  "write_loop rcs [] = Some (None, [], [])"
| "write_loop rcs (u # us) = do {
     m \<leftarrow> ucmd_octets u;
     let rc = (case rcs of [] \<Rightarrow> 0 | r # _ \<Rightarrow> r);
     if rc < 0 then Some (Some rc, u # us, [])
     else if rc \<noteq> int (length m) then Some (None, u # us, take (nat rc) m)
     else do {
       (r, left, out) \<leftarrow> write_loop (tl rcs) us;
       Some (r, left, m @ out)
     }
   }"

definition user_write :: "nat \<Rightarrow> int list \<Rightarrow> daemon \<Rightarrow> (int \<times> daemon \<times> mem) option" where
  "user_write gu rcs g = do {
     u \<leftarrow> find_user gu g;
     (r, left, out) \<leftarrow> write_loop rcs (finished_ucmds u);
     case r of
       Some rc \<Rightarrow> Some (rc, upd_user gu (finished_ucmds_update (\<lambda>_. left)) g, out)
     | None \<Rightarrow> Some (0, upd_user gu (\<lambda>u. u\<lparr>finished_ucmds := left, gu_write := (gu_write u \<and> left \<noteq> [])\<rparr>) g, out)
   }"

text \<open>\<open>gsmd_usock_user_cb\<close>: \<open>rd_ok\<close> and \<open>wr_ok\<close> are the bits of \<open>what\<close>. If there is something to read, nothing is written.\<close>

definition gsmd_usock_user_cb ::
  "bool \<Rightarrow> bool \<Rightarrow> nat \<Rightarrow> int + string \<Rightarrow> int list \<Rightarrow> daemon \<Rightarrow> (int \<times> daemon \<times> mem) option" where
  "gsmd_usock_user_cb rd_ok wr_ok gu rcv rcs g =
     (if rd_ok then do { (rc, g) \<leftarrow> user_read gu rcv g; Some (rc, g, []) }
      else if wr_ok then user_write gu rcs g
      else Some (0, g, []))"

section \<open>Connections\<close>

text \<open>
  \<open>gsmd_usock_cb\<close>: \<open>fd\<close> is the result of \<open>accept\<close>. If that failed, the structure is freed and then used.
\<close>

definition gsmd_usock_cb :: "int \<Rightarrow> daemon \<Rightarrow> (int \<times> daemon) option" where
  "gsmd_usock_cb fd g =
     (let (p, g) = g_alloc g
      in case p of
           None \<Rightarrow> Some (- ENOMEM, g)
         | Some a \<Rightarrow>
             if fd < 0 then None
             else Some (0, upd_world (users_update (\<lambda>us. \<lparr>gu_ptr = a, finished_ucmds = [], gu_write = False,
                    subscriptions = 0xffffffff, pb_readrg_list = [], pb_find_list = []\<rparr> # us)) g))"

section \<open>What the handlers keep\<close>

lemma user_read_keeps:
  assumes "user_read gu (Inr (c # s)) g = Some (rc, g')"
  shows "daemon_keeps g g'"
  using assms qk.keepsD [OF pcmd_ok] by (simp add: user_read_def)

lemma write_loop_left: "write_loop rcs us = Some (r, left, out) \<Longrightarrow> \<exists>sent. us = sent @ left"
proof (induction rcs us arbitrary: r left out rule: write_loop.induct)
  case (2 rcs u us)
  then show ?case by (auto simp: Let_def split: bind_splits if_splits) (metis append_Cons)
qed simp

lemma usock_cb_grows:
  "gsmd_usock_cb fd g = Some (rc, g') \<Longrightarrow> queue_grows g g'"
  using g_alloc_grows [of g] queue_grows_trans [OF _ queue_grows_simps(2)]
  by (auto simp: gsmd_usock_cb_def Let_def daemon_grows_def upd_world_def simp del: gsmd.simps split: prod.splits option.splits if_splits)

end
