(* ===== verification/Lgsm.thy ===== *)
theory Lgsm
  imports Messages
begin

text \<open>
  The client library, \<^verbatim>\<open>gsm/src/libgsmd/libgsmd.c\<close>, \<^verbatim>\<open>libgsmd_event.c\<close> and \<^verbatim>\<open>libgsmd_passthrough.c\<close>: sending
  of a message, the dispatch of what the daemon sends to the handlers of the client, and the synchronous
  passthrough. The system calls are arguments: \<open>net\<close> gives the result of \<open>send\<close> for the octets, a list gives
  the results of \<open>select\<close> and \<open>read\<close>. What arrives is a memory in which an octet that the daemon never wrote
  is \<open>None\<close>.
\<close>

section \<open>State\<close>

text \<open>
  A handler of the client is a value of a type \<open>'h\<close>; what it does is given by an environment. The static
  variables of the library (the handlers of events, the next identifier) are fields as well.
\<close>

datatype 'h msg_handler = Evt_Demux | Msg_Handler 'h

record 'h lgsm_handle =
  lh_handler :: "'h msg_handler option list"
  netreg_state :: int
  evt_handlers :: "'h option list"
  next_msg_id :: u16

record ('h, 'w) lgsm_env =
  msg_fn :: "'h \<Rightarrow> mem \<Rightarrow> 'h lgsm_handle \<times> 'w \<Rightarrow> (int \<times> 'h lgsm_handle \<times> 'w) option"
  evt_fn :: "'h \<Rightarrow> u8 \<Rightarrow> mem \<Rightarrow> 'h lgsm_handle \<times> 'w \<Rightarrow> (int \<times> 'h lgsm_handle \<times> 'w) option"

text \<open>A negative type is stored in front of the array.\<close>

definition lgsm_register_handler :: "int \<Rightarrow> 'h msg_handler option \<Rightarrow> 'h lgsm_handle \<Rightarrow> (int \<times> 'h lgsm_handle) option" where
  "lgsm_register_handler type handler lh =
     (if type \<ge> 11 then Some (- EINVAL, lh)
      else if type < 0 then None
      else do { hs \<leftarrow> wr (lh_handler lh) (nat type) handler; Some (0, lh\<lparr>lh_handler := hs\<rparr>) })"

definition lgsm_unregister_handler :: "int \<Rightarrow> 'h lgsm_handle \<Rightarrow> 'h lgsm_handle option" where
  "lgsm_unregister_handler type lh =
     (if type < 11 then (if type < 0 then None
        else do { hs \<leftarrow> wr (lh_handler lh) (nat type) None; Some (lh\<lparr>lh_handler := hs\<rparr>) })
      else Some lh)"

definition lgsm_evt_handler_register :: "int \<Rightarrow> 'h option \<Rightarrow> 'h lgsm_handle \<Rightarrow> (int \<times> 'h lgsm_handle) option" where
  "lgsm_evt_handler_register evt_type handler lh =
     (if evt_type \<ge> int NUM_GSMD_EVT then Some (- EINVAL, lh)
      else if evt_type < 0 then None
      else do { hs \<leftarrow> wr (evt_handlers lh) (nat evt_type) handler; Some (0, lh\<lparr>evt_handlers := hs\<rparr>) })"

definition lgsm_evt_handler_unregister :: "int \<Rightarrow> 'h lgsm_handle \<Rightarrow> 'h lgsm_handle option" where
  "lgsm_evt_handler_unregister evt_type lh =
     (if evt_type < int NUM_GSMD_EVT then (if evt_type < 0 then None
        else do { hs \<leftarrow> wr (evt_handlers lh) (nat evt_type) None; Some (lh\<lparr>evt_handlers := hs\<rparr>) })
      else Some lh)"

definition lgsm_evt_init :: "'h lgsm_handle \<Rightarrow> (int \<times> 'h lgsm_handle) option" where
  "lgsm_evt_init lh = lgsm_register_handler 1 (Some Evt_Demux) (lh\<lparr>netreg_state := 0\<rparr>)"

definition lgsm_evt_exit :: "'h lgsm_handle \<Rightarrow> 'h lgsm_handle option" where
  "lgsm_evt_exit = lgsm_unregister_handler 1"

text \<open>
  \<open>lgsm_init\<close>: \<open>dev_ok\<close> says whether the device is that of the daemon and the connection succeeded. The
  handle is cleared before the test of the allocation would come.
\<close>

definition lgsm_init :: "bool \<Rightarrow> bool \<Rightarrow> 'h option list \<Rightarrow> u16 \<Rightarrow> 'h lgsm_handle option option" where
  "lgsm_init mem_ok dev_ok evts ident =
     (if \<not> mem_ok then None
      else if \<not> dev_ok then Some None
      else map_option (\<lambda>(_, lh). Some lh)
        (lgsm_evt_init \<lparr>lh_handler = replicate 11 None, netreg_state = 0, evt_handlers = evts, next_msg_id = ident\<rparr>))"

section \<open>Sending\<close>

text \<open>
  A message is the list of its octets; \<open>lgsm_gmh_fill\<close> clears them, so that the callers below are given as
  the octets of the data. The result of a sending function: the return code, the handle, and what was
  sent.
\<close>

definition lgsm_gmh :: "u8 \<Rightarrow> u8 \<Rightarrow> u16 \<Rightarrow> string \<Rightarrow> string" where
  "lgsm_gmh t s ident payload =
     b8 GSMD_PROTO_VERSION @ b8 t @ b8 s @ [NUL] @ b16 ident @ b16 (of_nat (length payload)) @ payload"

definition zeroed :: "mem \<Rightarrow> string" where
  "zeroed m = map (\<lambda>x. case x of None \<Rightarrow> NUL | Some c \<Rightarrow> c) m"

definition lgsm_send :: "(string \<Rightarrow> int) \<Rightarrow> u8 \<Rightarrow> u8 \<Rightarrow> string \<Rightarrow> 'h lgsm_handle \<Rightarrow> int \<times> 'h lgsm_handle \<times> string" where
  "lgsm_send net t s payload lh =
     (let p = lgsm_gmh t s (next_msg_id lh) payload; rc = net p
      in (rc, lh\<lparr>next_msg_id := next_msg_id lh + 1\<rparr>, take (nat rc) p))"

definition lgsm_send_simple ::
  "bool \<Rightarrow> (string \<Rightarrow> int) \<Rightarrow> u8 \<Rightarrow> u8 \<Rightarrow> 'h lgsm_handle \<Rightarrow> int \<times> 'h lgsm_handle \<times> string" where
  "lgsm_send_simple mem_ok net t s lh = (if \<not> mem_ok then (- ENOMEM, lh, []) else lgsm_send net t s [] lh)"

text \<open>\<open>rc < n\<close> where \<open>n\<close> has the type \<open>size_t\<close>: the comparison is one of unsigned numbers.\<close>

definition u_less :: "int \<Rightarrow> nat \<Rightarrow> bool" where
  "u_less rc n \<longleftrightarrow> rc mod 4294967296 < int n"

text \<open>What most requests do with the result of \<open>lgsm_send\<close>.\<close>

definition lgsm_request ::
  "bool \<Rightarrow> (string \<Rightarrow> int) \<Rightarrow> u8 \<Rightarrow> u8 \<Rightarrow> string \<Rightarrow> 'h lgsm_handle \<Rightarrow> int \<times> 'h lgsm_handle \<times> string" where
  "lgsm_request mem_ok net t s payload lh =
     (if \<not> mem_ok then (- ENOMEM, lh, [])
      else
        let (rc, lh, out) = lgsm_send net t s payload lh
        in (if u_less rc (length payload + sizeof_hdr) then - EIO else 0, lh, out))"

section \<open>Receiving\<close>

definition evt_demux_msghandler ::
  "('h, 'w) lgsm_env \<Rightarrow> mem \<Rightarrow> 'h lgsm_handle \<times> 'w \<Rightarrow> (int \<times> 'h lgsm_handle \<times> 'w) option" where
  "evt_demux_msghandler env gmh lw = do {
     n \<leftarrow> mem_u16 gmh 6;
     if unat n < 40 then Some (- EIO, lw)
     else do {
       t \<leftarrow> mem_u8 gmh 1;
       s \<leftarrow> mem_u8 gmh 2;
       if t \<noteq> GSMD_MSG_EVENT \<or> unat s \<ge> NUM_GSMD_EVT then Some (- EINVAL, lw)
       else do {
         let (lh, w) = lw;
         lh \<leftarrow> (if s = 5 then do { st \<leftarrow> mem_i32 gmh sizeof_hdr; Some (lh\<lparr>netreg_state := st\<rparr>) } else Some lh);
         h \<leftarrow> rd (evt_handlers lh) (unat s);
         case h of
           None \<Rightarrow> Some (0, lh, w)
         | Some h \<Rightarrow> evt_fn env h s (drop sizeof_hdr gmh) (lh, w)
       }
     }
   }"

definition call_handler ::
  "('h, 'w) lgsm_env \<Rightarrow> 'h msg_handler \<Rightarrow> mem \<Rightarrow> 'h lgsm_handle \<times> 'w \<Rightarrow> (int \<times> 'h lgsm_handle \<times> 'w) option" where
  "call_handler env h gmh lw = (case h of Evt_Demux \<Rightarrow> evt_demux_msghandler env gmh lw | Msg_Handler f \<Rightarrow> msg_fn env f gmh lw)"

text \<open>
  The length is an \<open>int\<close> that is compared and reduced as an unsigned number. A message for which there is no
  handler is reported and skipped.
\<close>

lemma unat_rest:
  fixes len :: u32 and n :: u16
  assumes "8 \<le> unat len" "unat n \<le> unat len - 8"
  shows "unat (len - (8 + ucast n)) = unat len - (8 + unat n)"
proof -
  have "unat n < 65536" using unsigned_less [of n, where ?'a = nat] by simp
  moreover from this have n: "unat (ucast n :: u32) = unat n" by (simp add: unsigned_ucast_eq take_bit_nat_eq_self)
  ultimately have "unat (8 + ucast n :: u32) = 8 + unat n" by (simp add: unat_word_ariths n)
  then show ?thesis using assms by (subst unat_sub) (simp_all add: word_le_nat_alt)
qed

function handle_loop ::
  "('h, 'w) lgsm_env \<Rightarrow> int \<Rightarrow> mem \<Rightarrow> u32 \<Rightarrow> 'h lgsm_handle \<times> 'w \<Rightarrow> (int \<times> 'h lgsm_handle \<times> 'w) option" where
  "handle_loop env rc buf len lw =
     (if len = 0 then Some (rc, lw)
      else if unat len < sizeof_hdr then Some (- EINVAL, lw)
      else case mem_u16 buf 6 of
             None \<Rightarrow> None
           | Some n \<Rightarrow>
               if unat len - sizeof_hdr < unat n then Some (- EINVAL, lw)
               else case mem_u8 buf 1 of
                      None \<Rightarrow> None
                    | Some t \<Rightarrow>
                        if t \<ge> NUM_GSMD_MSGS then Some (- EINVAL, lw)
                        else
                          (case rd (lh_handler (fst lw)) (unat t) of
                             None \<Rightarrow> None
                           | Some None \<Rightarrow> handle_loop env rc (drop (sizeof_hdr + unat n) buf) (len - (8 + ucast n)) lw
                           | Some (Some h) \<Rightarrow>
                               (case call_handler env h (take (sizeof_hdr + unat n) buf) lw of
                                  None \<Rightarrow> None
                                | Some (r, lw) \<Rightarrow>
                                    handle_loop env (or_rc rc r) (drop (sizeof_hdr + unat n) buf) (len - (8 + ucast n)) lw)))"
  by pat_completeness auto
termination
proof (relation "measure (\<lambda>(_, _, _, len, _). unat len)", goal_cases)
  case 1
  then show ?case by simp
next
  case (2 env rc buf len lw n t)
  then show ?case by (simp add: unat_rest not_less)
next
  case (3 env rc buf len lw n t h h' r lw')
  then show ?case by (simp add: unat_rest not_less)
qed

declare handle_loop.simps [simp del]

definition lgsm_handle_packet ::
  "('h, 'w) lgsm_env \<Rightarrow> mem \<Rightarrow> int \<Rightarrow> 'h lgsm_handle \<times> 'w \<Rightarrow> (int \<times> 'h lgsm_handle \<times> 'w) option" where
  "lgsm_handle_packet env buf len lw = handle_loop env 0 buf (word_of_int len) lw"

text \<open>
  One element of the list is one turn of the loop: the result of \<open>select\<close>, and that of \<open>read\<close> (\<open>Inl\<close> an error
  or the end of the connection). A result \<open>None\<close> means that the function is still waiting. The identifier is
  read from the buffer even if less than a header arrived.
\<close>

fun lgsm_blocking_wait_packet ::
  "('h, 'w) lgsm_env \<Rightarrow> u16 \<Rightarrow> mem \<Rightarrow> (int \<times> (int + mem)) list \<Rightarrow> 'h lgsm_handle \<times> 'w \<Rightarrow>
     (int option \<times> mem \<times> 'h lgsm_handle \<times> 'w) option" where
  "lgsm_blocking_wait_packet env ident buf [] lw = Some (None, buf, lw)"
| "lgsm_blocking_wait_packet env ident buf ((sel, rx) # es) lw =
     (if sel \<le> 0 then Some (Some sel, buf, lw)
      else case rx of
             Inl rc \<Rightarrow> Some (Some rc, buf, lw)
           | Inr octets \<Rightarrow> do {
               buf \<leftarrow> wrn buf 0 octets;
               i \<leftarrow> mem_u16 buf 4;
               if i = ident then Some (Some (int (length octets)), buf, lw)
               else do {
                 (_, lw) \<leftarrow> lgsm_handle_packet env buf (int (length octets)) lw;
                 lgsm_blocking_wait_packet env ident buf es lw
               }
             })"

section \<open>Passthrough\<close>

abbreviation (input) PT_BUF_SIZE :: nat where "PT_BUF_SIZE \<equiv> 1024"

text \<open>A text of exactly 1024 characters passes the test, and its NUL is written behind the buffer.\<close>

definition lgsm_passthrough_send ::
  "(string \<Rightarrow> int) \<Rightarrow> string \<Rightarrow> 'h lgsm_handle \<Rightarrow> (int \<times> 'h lgsm_handle \<times> string) option" where
  "lgsm_passthrough_send net tx lh =
     (if length tx > PT_BUF_SIZE then Some (- EINVAL, lh, [])
      else if length tx + 1 > PT_BUF_SIZE then None
      else
        let (rc, lh', out) = lgsm_send net GSMD_MSG_PASSTHROUGH GSMD_PASSTHROUGH_REQ (tx @ [NUL]) lh
        in Some (if u_less rc (length tx + sizeof_hdr) then - EIO else uint (next_msg_id lh), lh', out))"

text \<open>
  \<open>cap\<close> is the size of the caller's array \<open>rx\<close>, \<open>ptr\<close> the value of the pointer \<open>rx_len\<close>, which the function
  returns where the length is meant. The last two parts of the result: the text and its length.
\<close>

definition lgsm_passthrough ::
  "('h, 'w) lgsm_env \<Rightarrow> (string \<Rightarrow> int) \<Rightarrow> string \<Rightarrow> nat \<Rightarrow> int \<Rightarrow> (int \<times> (int + mem)) list \<Rightarrow> mem \<Rightarrow>
     'h lgsm_handle \<times> 'w \<Rightarrow> (int option \<times> ('h lgsm_handle \<times> 'w) \<times> (string \<times> u16) option) option" where
  "lgsm_passthrough env net tx cap ptr es rbuf lw = do {
     (rc, lh, out) \<leftarrow> lgsm_passthrough_send net tx (fst lw);
     if rc < 0 then Some (Some rc, (lh, snd lw), None)
     else do {
       (rc, rbuf, lw) \<leftarrow> lgsm_blocking_wait_packet env (word_of_int rc) rbuf es (lh, snd lw);
       case rc of
         None \<Rightarrow> Some (None, lw, None)
       | Some rc \<Rightarrow>
           if rc \<le> 0 then Some (Some rc, lw, None)
           else if rc < int sizeof_hdr then Some (Some (- EINVAL), lw, None)
           else do {
             n \<leftarrow> mem_u16 rbuf 6;
             if rc < int (sizeof_hdr + unat n) then Some (Some (- EINVAL), lw, None)
             else do {
               s \<leftarrow> mem_str rbuf sizeof_hdr;
               if cap \<le> length s then None else Some (Some ptr, lw, Some (s, n))
             }
           }
     }
   }"

section \<open>Framing\<close>

text \<open>A complete message, and the reference for the dispatch: the handlers of a list of messages one after the other.\<close>

definition whole_packet :: "mem \<Rightarrow> bool" where
  "whole_packet p \<longleftrightarrow> (\<exists>n t. mem_u16 p 6 = Some n \<and> mem_u8 p 1 = Some t \<and> t < NUM_GSMD_MSGS \<and> length p = sizeof_hdr + unat n)"

fun dispatch ::
  "('h, 'w) lgsm_env \<Rightarrow> int \<Rightarrow> mem list \<Rightarrow> 'h lgsm_handle \<times> 'w \<Rightarrow> (int \<times> 'h lgsm_handle \<times> 'w) option" where
  "dispatch env rc [] lw = Some (rc, lw)"
| "dispatch env rc (p # ps) lw = do {
     t \<leftarrow> mem_u8 p 1;
     h \<leftarrow> rd (lh_handler (fst lw)) (unat t);
     case h of
       None \<Rightarrow> dispatch env rc ps lw
     | Some h \<Rightarrow> do { (r, lw) \<leftarrow> call_handler env h p lw; dispatch env (or_rc rc r) ps lw }
   }"

lemma mem_u16_front: "length p \<ge> i + 2 \<Longrightarrow> mem_u16 (p @ q) i = mem_u16 p i"
  by (simp add: mem_u16_def mem_chars_def rdn_def)

lemma mem_u8_front: "i < length p \<Longrightarrow> mem_u8 (p @ q) i = mem_u8 p i"
  by (simp add: mem_u8_def mem_char_def rd_def nth_append)

lemma handle_loop_step:
  assumes p: "whole_packet p" and len: "unat len = length p + k"
  shows "handle_loop env rc (p @ q) len lw =
    do {
     t \<leftarrow> mem_u8 p 1;
     h \<leftarrow> rd (lh_handler (fst lw)) (unat t);
     case h of
       None \<Rightarrow> handle_loop env rc q (of_nat k) lw
     | Some h \<Rightarrow> do { (r, lw) \<leftarrow> call_handler env h p lw; handle_loop env (or_rc rc r) q (of_nat k) lw }
   }"
proof -
  obtain n t where n: "mem_u16 p 6 = Some n" "mem_u8 p 1 = Some t" "t < 11" "length p = 8 + unat n"
    using p by (auto simp: whole_packet_def)
  have r: "mem_u16 (p @ q) 6 = Some n" "mem_u8 (p @ q) 1 = Some t"
    using n by (simp_all add: mem_u16_front mem_u8_front)
  have l: "\<not> unat len < 8" "\<not> unat len - 8 < unat n" "len \<noteq> 0" using len n(4) by auto
  have "unat (len - (8 + ucast n)) = k" using unat_rest [of len n] l len n(4) by simp
  then have k: "len - (8 + ucast n) = of_nat k" by (metis of_nat_unat ucast_id)
  have tk: "take (8 + unat n) (p @ q) = p" "drop (8 + unat n) (p @ q) = q" using n(4) by simp_all
  show ?thesis
    using n(3) by (subst handle_loop.simps) (simp only: r l k tk n(2) if_False option.case bind.bind_lunit not_less [symmetric] not_True_eq_False simp_thms,
      auto split: option.split bind_splits)
qed

lemma unat_u32: "m < 4294967296 \<Longrightarrow> unat (of_nat m :: u32) = m"
  by (simp add: unat_of_nat)

lemma handle_loop_dispatch:
  assumes "\<forall>p \<in> set ps. whole_packet p" "unat len = length (concat ps)"
  shows "handle_loop env rc (concat ps) len lw = dispatch env rc ps lw"
  using assms
proof (induction ps arbitrary: rc len lw)
  case Nil
  then have "len = 0" by (simp add: unat_eq_zero)
  then show ?case by (subst handle_loop.simps) simp
next
  case (Cons p ps)
  have b: "length (concat ps) < 4294967296" using Cons.prems(2) unsigned_less [of len, where ?'a = nat] by simp
  have "handle_loop env rc (concat ps) (of_nat (length (concat ps))) = dispatch env rc ps" for rc
    by (rule ext, rule Cons.IH) (use Cons.prems(1) unat_u32 [OF b] in auto)
  then show ?case
    using handle_loop_step [of p len "length (concat ps)" env rc "concat ps" lw] Cons.prems by (simp del: One_nat_def)
qed

text \<open>C20: However many messages one \<open>read\<close> returned, every one of them reaches its handler, once and in order; those
  without a handler are skipped.
\<close>

theorem handle_packet_dispatches:
  assumes "\<forall>p \<in> set ps. whole_packet p" "length (concat ps) < 2147483648"
  shows "lgsm_handle_packet env (concat ps) (int (length (concat ps))) lw = dispatch env 0 ps lw"
  using handle_loop_dispatch [OF assms(1), of "of_nat (length (concat ps))" env 0 lw] assms(2)
  by (simp add: lgsm_handle_packet_def unat_of_nat)

lemma whole_packet_gmh:
  assumes "t < NUM_GSMD_MSGS" "length d < 65536"
  shows "whole_packet (map Some (lgsm_gmh t s i d))"
proof -
  let ?p = "map Some (lgsm_gmh t s i d)"
  have "mem_at ?p 1 (map Some (b8 t))" using mem_at_self [of "map Some (b8 1)" "map Some (b8 t)"] by (simp add: lgsm_gmh_def)
  moreover have "mem_at ?p 6 (map Some (b16 (of_nat (length d))))"
    using mem_at_self [of "map Some (b8 1 @ b8 t @ b8 s @ [NUL] @ b16 i)" "map Some (b16 (of_nat (length d)))"]
    by (simp add: lgsm_gmh_def)
  ultimately show ?thesis
    using assms by (auto simp: whole_packet_def lgsm_gmh_def unat_of_nat dest!: mem_at_readers(1,2))
qed

theorem handle_packet_dispatches_witness:
  "let env = \<lparr>msg_fn = \<lambda>h m (lh, w). Some (0, lh, w @ [(h, drop 8 m)]), evt_fn = \<lambda>h s m (lh, w). Some (0, lh, w)\<rparr>;
       lh = \<lparr>lh_handler = (replicate 11 None)[2 := Some (Msg_Handler ''pt''), 9 := Some (Msg_Handler ''sms'')],
         netreg_state = 0, evt_handlers = replicate 17 None, next_msg_id = 0\<rparr>;
       p = map Some (lgsm_gmh 2 2 1 ''OK''); q = map Some (lgsm_gmh 3 1 2 ''A''); r = map Some (lgsm_gmh 9 1 3 [])
   in lgsm_handle_packet env (p @ q @ r) 27 (lh, []) =
      Some (0, lh, [(''pt'', [Some CHR ''O'', Some CHR ''K'']), (''sms'', [])])"
proof -
  let ?ps = "[map Some (lgsm_gmh 2 2 1 ''OK''), map Some (lgsm_gmh 3 1 2 ''A''), map Some (lgsm_gmh 9 1 3 [])]"
  have t: "mem_u8 (map Some (lgsm_gmh t s i d)) 1 = Some t" for t s i d
    using mem_at_self [of "map Some (b8 1)" "map Some (b8 t)" "map Some (b8 s @ [NUL] @ b16 i @ b16 (of_nat (length d)) @ d)"]
    by (auto simp: lgsm_gmh_def dest!: mem_at_readers(1))
  have d: "drop 8 (map Some (lgsm_gmh t s i d)) = map Some d" for t s i d
    by (simp add: lgsm_gmh_def)
  have l: "length (concat ?ps) = 27" by (simp add: lgsm_gmh_def)
  have w: "\<forall>p \<in> set ?ps. whole_packet p" by (simp add: whole_packet_gmh)
  have e: "lgsm_handle_packet env (concat ?ps) 27 lw = dispatch env 0 ?ps lw" for env :: "('a, 'b) lgsm_env" and lw
    using handle_packet_dispatches [OF w] unfolding l by simp
  show ?thesis
    unfolding Let_def by (simp add: e [simplified] t [unfolded One_nat_def] d call_handler_def rd_def or_rc_def unat_numeral)
qed

text \<open>
  An incomplete message at the end of what one \<open>read\<close> returned is dropped with an error, after the complete
  ones have been handled; its rest then arrives without a header.
\<close>

theorem incomplete_packet_dropped:
  assumes "whole_packet p" "whole_packet q" "sizeof_hdr \<le> k" "k < length q" "dispatch env 0 [p] lw = Some (r, lw')"
  shows "lgsm_handle_packet env (p @ take k q) (int (length p + k)) lw = Some (- EINVAL, lw')"
proof -
  obtain n m where n: "mem_u16 q 6 = Some n" "length q = 8 + unat n" "length p = 8 + unat (m :: u16)"
    using assms(1,2) by (auto simp: whole_packet_def)
  have "unat n < 65536" "unat m < 65536"
    using unsigned_less [of n, where ?'a = nat] unsigned_less [of m, where ?'a = nat] by simp_all
  then have "length p + k < 4294967296" using assms(4) n(2,3) by simp
  then have k: "unat (of_nat k :: u32) = k" and l: "unat (of_nat (length p + k) :: u32) = length p + k"
    using unat_u32 [of k] unat_u32 [of "length p + k"] by simp_all
  have e: "(word_of_int (int (length p + k)) :: u32) = of_nat (length p + k)" by simp
  have h: "mem_u16 (take k q) 6 = Some n"
    using n(1) assms(3,4) mem_u16_front [of 6 "take k q" "drop k q"] by simp
  have "handle_loop env rc (take k q) (of_nat k) lw = Some (- EINVAL, lw)" for rc lw
    using k assms(3,4) n(2) by (subst handle_loop.simps) (auto simp: h unat_eq_zero)
  then show ?thesis
    unfolding lgsm_handle_packet_def e handle_loop_step [OF assms(1) l] using assms(5)
    by (auto split: bind_splits option.splits)
qed

text \<open>
  A failing \<open>send\<close> is not noticed: the result \<open>-1\<close> is compared with the length as an unsigned number, so that
  the request returns success.
\<close>

theorem send_error_unnoticed:
  assumes "net (lgsm_gmh t s (next_msg_id lh) payload) = - 1" "length payload < 65536"
  shows "\<exists>lh'. lgsm_request True net t s payload lh = (0, lh', [])"
  using assms by (simp add: lgsm_request_def lgsm_send_def u_less_def Let_def)

end
