(* ===== verification/Septets.thy ===== *)
theory Septets
  imports Sms_Types
begin

text \<open>
  The 7-bit packing of \<^verbatim>\<open>gsm/src/libgsmd/libgsmd_sms.c\<close>: \<open>packing_7bit_character\<close>,
  \<open>unpacking_7bit_character\<close> and \<open>cbm_unpacking_7bit_character\<close>. Text is a list of octets; a C string is
  the list before its NUL.
\<close>

section \<open>The code\<close>

text \<open>The fields \<open>data\<close> and \<open>length\<close> of \<open>struct lgsm_sms\<close> are what packing fills in; the array has 141 octets.\<close>

abbreviation (input) LGSM_SMS_DATA_MAXLEN :: nat where "LGSM_SMS_DATA_MAXLEN \<equiv> 140"

definition str_octet :: "u8 list \<Rightarrow> nat \<Rightarrow> u8" where
  "str_octet s i = (if i < length s then s ! i else 0)"

definition pack_octet :: "u8 list \<Rightarrow> nat \<Rightarrow> nat \<Rightarrow> u8" where
  "pack_octet src i shift =
     drop_bit shift (str_octet src i AND 0x7F) OR push_bit (7 - shift) (str_octet src (i + 1) AND 0x7F)"

text \<open>The loop; the result is \<open>(j, i, data)\<close>. One octet too many passes the test against the size of the array.\<close>

function pack_loop :: "u8 list \<Rightarrow> nat \<Rightarrow> nat \<Rightarrow> nat \<Rightarrow> u8 list \<Rightarrow> (nat \<times> nat \<times> u8 list) option" where
  "pack_loop src i shift j data =
     (if length src \<le> i then Some (j, i, data)
      else if j > LGSM_SMS_DATA_MAXLEN + 1 then Some (j, i, data)
      else do {
        data \<leftarrow> wr data j (pack_octet src i shift);
        let shift = shift + 1;
        if shift = 7 then pack_loop src (i + 2) 0 (j + 1) data else pack_loop src (i + 1) shift (j + 1) data
      })"
  by pat_completeness auto
termination
  by (relation "measure (\<lambda>(src, i, _). length src - i)") auto

declare pack_loop.simps [simp del]

text \<open>The number of octets, the length in characters, and the data.\<close>

definition packing_7bit_character :: "u8 list \<Rightarrow> u8 list \<Rightarrow> (nat \<times> nat \<times> u8 list) option" where
  "packing_7bit_character src data = pack_loop src 0 0 0 data"

definition unpack_octet :: "u8 list \<Rightarrow> nat \<Rightarrow> u8 option" where
  "unpack_octet data i = do {
     a \<leftarrow> rd data ((i * 7 + 7) div 8);
     b \<leftarrow> rd data ((i * 7) div 8);
     Some ((push_bit (7 - (i * 7 + 7) mod 8) a OR drop_bit ((i * 7) mod 8) b) AND 0x7F)
   }"

fun unpack_from :: "u8 list \<Rightarrow> nat list \<Rightarrow> u8 list option" where
  "unpack_from data [] = Some []"
| "unpack_from data (i # is) = do { c \<leftarrow> unpack_octet data i; s \<leftarrow> unpack_from data is; Some (c # s) }"

text \<open>What is stored at \<open>dest\<close> before the NUL.\<close>

definition unpacking_7bit_character :: "gsmd_sms \<Rightarrow> u8 list option" where
  "unpacking_7bit_character src = do {
     start \<leftarrow> (if has_header src \<noteq> 0 then map_option (\<lambda>h. (unat h * 8 + 14) div 7) (rd (sms_data src) 0) else Some 0);
     unpack_from (sms_data src) [start ..< unat (sms_length src)]
   }"

text \<open>A cell broadcast page: 93 characters, or up to the first NUL, which is stored as well. The page is an array of
  \<open>char\<close>, which is unsigned on the phone's ARM processor.\<close>

fun cbm_unpack_from :: "u8 list \<Rightarrow> nat list \<Rightarrow> u8 list option" where
  "cbm_unpack_from data [] = Some []"
| "cbm_unpack_from data (i # is) = do {
     c \<leftarrow> unpack_octet data i;
     if c = 0 then Some [c] else map_option ((#) c) (cbm_unpack_from data is)
   }"

definition cbm_unpacking_7bit_character :: "u8 list \<Rightarrow> u8 list option" where
  "cbm_unpacking_7bit_character src = cbm_unpack_from src [0 ..< 93]"

section \<open>The packed form\<close>

text \<open>
  The reference: the septets one behind the other as a sequence of bits, the lowest bit first, and the
  octet at position \<open>j\<close> is the \<open>j\<close>-th group of eight of them.
\<close>

definition septet_bit :: "u8 list \<Rightarrow> nat \<Rightarrow> bool" where
  "septet_bit s k \<longleftrightarrow> bit (str_octet s (k div 7)) (k mod 7)"

definition packs :: "u8 list \<Rightarrow> u8 list \<Rightarrow> nat \<Rightarrow> bool" where
  "packs s data n \<longleftrightarrow> (\<forall>j < n. j < length data \<and> (\<forall>b < 8. bit (data ! j) b \<longleftrightarrow> septet_bit s (8 * j + b)))"

lemma mask7: "bit ((x :: u8) AND 0x7F) n \<longleftrightarrow> n < 7 \<and> bit x n"
  by (auto simp: mask_7F bit_simps)

lemma septet_bit_at: "c < 7 \<Longrightarrow> septet_bit s (7 * i + c) \<longleftrightarrow> bit (str_octet s i) c"
  by (simp add: septet_bit_def)

lemma pack_octet_bits:
  assumes "shift < 7" "b < 8"
  shows "bit (pack_octet s (8 * q + shift) shift) b \<longleftrightarrow> septet_bit s (8 * (7 * q + shift) + b)"
proof (cases "b < 7 - shift")
  case True
  have e: "8 * (7 * q + shift) + b = 7 * (8 * q + shift) + (shift + b)" by simp
  show ?thesis unfolding e using True assms
    by (subst septet_bit_at) (auto simp: pack_octet_def mask_7F bit_simps)
next
  case False
  have e: "8 * (7 * q + shift) + b = 7 * (8 * q + shift + 1) + (b - (7 - shift))" using False assms by simp
  show ?thesis unfolding e using False assms
    by (subst septet_bit_at) (auto simp: pack_octet_def mask_7F bit_simps)
qed

lemma packs_step:
  assumes "packs s data (7 * q + shift)" "shift < 7" "7 * q + shift < length data"
  shows "packs s (data[7 * q + shift := pack_octet s (8 * q + shift) shift]) (7 * q + shift + 1)"
  using assms pack_octet_bits [OF assms(2)] by (auto simp: packs_def less_Suc_eq)

lemma octets_of:
  fixes q shift :: nat
  assumes "shift < 7"
  shows "(7 * (8 * q + shift) + 7) div 8 = 7 * q + shift" "(8 * q + shift) mod 8 = shift"
proof -
  have "7 * (8 * q + shift) + 7 = (7 * shift + 7) + 7 * q * 8" by simp
  then have "(7 * (8 * q + shift) + 7) div 8 = 7 * q + (7 * shift + 7) div 8" by (metis div_mult_self1 zero_neq_numeral)
  also have "(7 * shift + 7) div 8 = shift" using assms by (elim less_8_cases [OF less_trans]) simp_all
  finally show "(7 * (8 * q + shift) + 7) div 8 = 7 * q + shift" .
  show "(8 * q + shift) mod 8 = shift" using assms by simp
qed

lemma octets_of_last:
  fixes q n :: nat
  assumes "8 * q = n + 1"
  shows "(7 * n + 7) div 8 = 7 * q" "n mod 8 = 7"
proof -
  have "7 * n + 7 = 8 * (7 * q)" using assms by simp
  then show "(7 * n + 7) div 8 = 7 * q" by simp
  obtain k where "q = Suc k" using assms by (cases q) auto
  then have "n = 8 * k + 7" using assms by simp
  then show "n mod 8 = 7" by simp
qed

text \<open>The position in the text and in the octets, from the number of octets that are written.\<close>

lemma pack_loop_packs:
  assumes "shift < 7" "packs s data (7 * q + shift)" "length data = 141" "length s \<le> 160"
    and "8 * q + shift \<le> length s \<or> shift = 0 \<and> 8 * q = length s + 1"
  shows "\<exists>data'. pack_loop s (8 * q + shift) shift (7 * q + shift) data =
      Some ((7 * length s + 7) div 8, if length s mod 8 = 7 then length s + 1 else length s, data') \<and>
     length data' = 141 \<and> packs s data' ((7 * length s + 7) div 8)"
  using assms
proof (induction "length s + 1 - (8 * q + shift)" arbitrary: q shift data rule: less_induct)
  case less
  show ?case
  proof (cases "length s \<le> 8 * q + shift")
    case True
    then consider (even) "8 * q + shift = length s" | (odd) "shift = 0" "8 * q = length s + 1" using less.prems by auto
    then have "7 * q + shift = (7 * length s + 7) div 8 \<and>
        8 * q + shift = (if length s mod 8 = 7 then length s + 1 else length s)"
    proof cases
      case even
      then show ?thesis using octets_of [OF less.prems(1), of q, unfolded even] less.prems(1) by simp
    qed (simp add: octets_of_last)
    then show ?thesis using True less.prems by (subst pack_loop.simps) simp
  next
    case False
    have j: "7 * q + shift < 141" using False less.prems(1,4) by presburger
    let ?data = "data[7 * q + shift := pack_octet s (8 * q + shift) shift]"
    have p: "packs s ?data (7 * q + shift + 1)" using packs_step less.prems(1,2,3) j by simp
    have step: "pack_loop s (8 * q + shift) shift (7 * q + shift) data =
      (if shift = 6 then pack_loop s (8 * q + shift + 2) 0 (7 * q + shift + 1) ?data
       else pack_loop s (8 * q + shift + 1) (shift + 1) (7 * q + shift + 1) ?data)"
      using False j less.prems(3) by (subst pack_loop.simps) (simp add: wr_def Let_def)
    show ?thesis
    proof (cases "shift = 6")
      case True
      have e: "8 * q + shift + 2 = 8 * (q + 1) + 0" "7 * q + shift + 1 = 7 * (q + 1) + 0" using True by simp_all
      have "8 * (q + 1) + 0 \<le> length s \<or> (0 :: nat) = 0 \<and> 8 * (q + 1) = length s + 1" using False True by arith
      then show ?thesis
        unfolding step if_P [OF True] e
        by (intro less.hyps) (use False True p [unfolded e] less.prems in simp_all)
    next
      case False': False
      have e: "8 * q + shift + 1 = 8 * q + (shift + 1)" "7 * q + shift + 1 = 7 * q + (shift + 1)" by simp_all
      show ?thesis
        unfolding step if_not_P [OF False'] e
        by (intro less.hyps) (use False False' p [unfolded e] less.prems in simp_all)
    qed
  qed
qed

text \<open>
  Packing writes the septets of the text one behind the other. The length is one too much for texts of
  7, 15, 23, \<dots> characters.
\<close>

theorem packing_7bit_packs:
  assumes "length src \<le> 160" "length data = 141"
  shows "\<exists>data'. packing_7bit_character src data =
      Some ((7 * length src + 7) div 8, if length src mod 8 = 7 then length src + 1 else length src, data') \<and>
     length data' = 141 \<and> packs src data' ((7 * length src + 7) div 8)"
  using pack_loop_packs [of 0 src data 0] assms by (simp add: packing_7bit_character_def packs_def)

section \<open>Unpacking\<close>

lemma packs_bit:
  assumes "packs s data n" "p < 8 * n"
  shows "bit (data ! (p div 8)) (p mod 8) \<longleftrightarrow> septet_bit s p"
proof -
  have "p div 8 < n" using assms(2) by (simp add: less_mult_imp_div_less mult.commute)
  then have "bit (data ! (p div 8)) (p mod 8) \<longleftrightarrow> septet_bit s (8 * (p div 8) + p mod 8)"
    using assms(1) by (simp add: packs_def)
  then show ?thesis by simp
qed

lemma unpack_octet_packs:
  assumes "packs s data n" "7 * i + 6 < 8 * n" "(i * 7 + 7) div 8 < length data"
  shows "unpack_octet data i = Some (str_octet s i AND 0x7F)"
proof -
  let ?o = "(i * 7) div 8" and ?r = "(i * 7) mod 8"
  have ir: "7 * i = 8 * ?o + ?r" by (metis mult.commute mult_div_mod_eq)
  have "(i * 7) div 8 \<le> (i * 7 + 7) div 8" by (rule div_le_mono) simp
  then have o: "?o < length data" using assms(3) by linarith
  have data: "bit (data ! j) c \<longleftrightarrow> septet_bit s (8 * j + c)" if "c < 8" "8 * j + c < 8 * n" for j c
    using packs_bit [OF assms(1) that(2)] that(1) by simp
  have bits: "bit (push_bit (7 - (i * 7 + 7) mod 8) (data ! ((i * 7 + 7) div 8)) OR drop_bit ?r (data ! ?o)) b \<longleftrightarrow>
      bit (str_octet s i) b" if b: "b < 7" for b
  proof -
    have sb: "septet_bit s (7 * i + b) \<longleftrightarrow> bit (str_octet s i) b" by (rule septet_bit_at [OF b])
    show ?thesis
    proof (cases "?r = 0")
      case True
      then obtain k where k: "i * 7 = 8 * k" using ir by (metis add_0_right mult.commute)
      have e: "(i * 7 + 7) div 8 = ?o" "(i * 7 + 7) mod 8 = 7" by (simp_all add: k)
      have "bit (data ! ?o) b \<longleftrightarrow> septet_bit s (7 * i + b)" using data [of b ?o] b assms(2) ir True by simp
      then show ?thesis unfolding e True using b sb by (simp add: bit_simps)
    next
      case False
      have r8: "?r < 8" by simp
      have "i * 7 + 7 = (?r - 1) + 8 * (?o + 1)" using ir False by simp
      then obtain k where k: "i * 7 + 7 = (?r - 1) + 8 * k" "k = ?o + 1" by blast
      have "?r - 1 < 8" using r8 by simp
      then have e: "(i * 7 + 7) div 8 = ?o + 1" "(i * 7 + 7) mod 8 = ?r - 1"
        unfolding k(1) by (simp_all only: k(2) div_mult_self2 mod_mult_self2 mod_less div_less zero_neq_numeral not_False_eq_True add_0_right)
      have sh: "7 - (?r - 1) = 8 - ?r" using False r8 by simp
      show ?thesis
      proof (cases "b < 8 - ?r")
        case True
        have "8 * ?o + (?r + b) = 7 * i + b" using ir by simp
        then have "bit (data ! ?o) (?r + b) \<longleftrightarrow> bit (str_octet s i) b"
          using data [of "?r + b" ?o] True assms(2) b sb by (simp add: mult.commute [of 7])
        then show ?thesis unfolding e sh using True b by (simp add: bit_simps)
      next
        case F: False
        have "8 * (?o + 1) + (b - (8 - ?r)) = 7 * i + b" using F ir r8 by simp
        then have "bit (data ! (?o + 1)) (b - (8 - ?r)) \<longleftrightarrow> bit (str_octet s i) b"
          using data [of "b - (8 - ?r)" "?o + 1"] assms(2) b r8 sb by simp
        moreover have "\<not> bit (data ! ?o) (?r + b)" using F r8 by simp
        ultimately show ?thesis unfolding e sh using F b r8 by (simp add: bit_simps)
      qed
    qed
  qed
  let ?x = "push_bit (7 - (i * 7 + 7) mod 8) (data ! ((i * 7 + 7) div 8)) OR drop_bit ?r (data ! ?o)"
  have "?x AND 0x7F = str_octet s i AND 0x7F"
    by (rule word8_eqI) (use bits in \<open>auto simp only: mask7\<close>)
  then show ?thesis using assms(3) o by (simp add: unpack_octet_def rd_def)
qed

lemma septet_id: "c < 128 \<Longrightarrow> c AND 0x7F = c" for c :: u8
  by (simp add: mask_7F word_unat_eq_iff take_bit_eq_mask [symmetric] take_bit_eq_mod unat_mod word_less_nat_alt)

lemma unpack_from_map:
  "\<forall>i \<in> set is. unpack_octet data i = Some (f i) \<Longrightarrow> unpack_from data is = Some (map f is)"
  by (induction "is") auto

text \<open>The number of characters that \<open>packing_7bit_character\<close> counts.\<close>

definition packed_length :: "u8 list \<Rightarrow> nat" where
  "packed_length s = (if length s mod 8 = 7 then length s + 1 else length s)"

lemma unpack_packed:
  assumes s: "length s \<le> 160" "\<forall>c \<in> set s. c < 128" and pk: "packs s (sms_data m) ((7 * length s + 7) div 8)"
    and m: "141 < length (sms_data m)" "has_header m = 0" "sms_length m = of_nat (packed_length s)"
  shows "unpacking_7bit_character m = Some (s @ (if length s mod 8 = 7 then [0] else []))"
proof -
  let ?j = "(7 * length s + 7) div 8" and ?n = "if length s mod 8 = 7 then length s + 1 else length s"
  have "unpack_octet (sms_data m) i = Some (str_octet s i)" if i: "i < ?n" for i
  proof -
    have "7 * i + 6 < 8 * ?j"
    proof (cases "length s mod 8 = 7")
      case True
      then have "8 * (length s div 8 + 1) = length s + 1" using mult_div_mod_eq [of 8 "length s"] by simp
      then obtain q where "8 * q = length s + 1" by blast
      then show ?thesis using i octets_of_last [of q "length s"] by (simp split: if_splits)
    next
      case False
      then show ?thesis using i by simp
    qed
    moreover have "(i * 7 + 7) div 8 < length (sms_data m)" using i s(1) m(1) by (simp split: if_splits)
    ultimately have "unpack_octet (sms_data m) i = Some (str_octet s i AND 0x7F)"
      using unpack_octet_packs [OF pk] by simp
    moreover have "str_octet s i < 128" using s(2) by (simp add: str_octet_def)
    ultimately show ?thesis using septet_id by simp
  qed
  then have "unpack_from (sms_data m) [0 ..< ?n] = Some (map (str_octet s) [0 ..< ?n])"
    by (intro unpack_from_map) simp
  moreover have "map (str_octet s) [0 ..< ?n] = s @ (if length s mod 8 = 7 then [0] else [])"
    by (rule nth_equalityI) (auto simp: str_octet_def nth_append split: if_splits)
  moreover have "unat (of_nat ?n :: u8) = ?n" using s(1) by (simp add: unat_of_nat)
  ultimately show ?thesis
    using m(2,3) by (simp add: unpacking_7bit_character_def packed_length_def del: upt_Suc split del: if_split)
qed

text \<open>C21: What is packed is unpacked again; the texts whose length is counted wrongly get a zero at their end.\<close>

theorem text_roundtrip:
  assumes "length s \<le> 160" "\<forall>c \<in> set s. c < 128" "length data = 141"
  shows "\<exists>j n data'. packing_7bit_character s data = Some (j, n, data') \<and> j \<le> LGSM_SMS_DATA_MAXLEN \<and>
     unpacking_7bit_character \<lparr>sms_length = of_nat n, coding_scheme = cs, has_header = 0, is_voicemail = v, dcs = d,
       sms_data = take LGSM_SMS_DATA_MAXLEN data' @ replicate 25 0\<rparr> =
     Some (s @ (if length s mod 8 = 7 then [0] else []))"
proof -
  let ?j = "(7 * length s + 7) div 8"
  obtain data' where p: "packing_7bit_character s data = Some (?j, packed_length s, data')" "length data' = 141" "packs s data' ?j"
    using packing_7bit_packs [OF assms(1,3)] unfolding packed_length_def by blast
  have j: "?j \<le> 140" using assms(1) by simp
  then have "packs s (take 140 data' @ replicate 25 0) ?j" using p(2,3) by (simp add: packs_def nth_append)
  then show ?thesis
    using p(1,2) j unpack_packed [OF assms(1,2), of "\<lparr>sms_length = of_nat (packed_length s), coding_scheme = cs, has_header = 0,
      is_voicemail = v, dcs = d, sms_data = take 140 data' @ replicate 25 0\<rparr>"] by simp
qed

theorem text_roundtrip_witness:
  "\<exists>j n data'. packing_7bit_character [72, 101, 108, 108, 111] (replicate 141 0) = Some (j, n, data') \<and> j \<le> 140 \<and>
     unpacking_7bit_character \<lparr>sms_length = of_nat n, coding_scheme = 0, has_header = 0, is_voicemail = 0,
       dcs = \<lparr>msg_class = 0, alphabet = 0, is_compressed = 0, mwi_group = 0, mwi_active = 0, mwi_kind = 0, raw_dcs_data = 0\<rparr>,
       sms_data = take 140 data' @ replicate 25 0\<rparr> = Some [72, 101, 108, 108, 111]"
  using text_roundtrip [of "[72, 101, 108, 108, 111]" "replicate 141 0"] by simp

text \<open>A text of 162 characters or more makes the loop write behind the array.\<close>

lemma pack_loop_overflow:
  "shift < 7 \<Longrightarrow> length data = 141 \<Longrightarrow> 162 \<le> length s \<Longrightarrow> 7 * q + shift \<le> 141 \<Longrightarrow>
    pack_loop s (8 * q + shift) shift (7 * q + shift) data = None"
proof (induction "141 - (7 * q + shift)" arbitrary: q shift data rule: less_induct)
  case less
  have i: "\<not> length s \<le> 8 * q + shift" using less.prems by presburger
  show ?case
  proof (cases "7 * q + shift = 141")
    case True
    then show ?thesis using i less.prems(2) by (subst pack_loop.simps) (simp add: wr_def)
  next
    case False
    let ?data = "data[7 * q + shift := pack_octet s (8 * q + shift) shift]"
    have step: "pack_loop s (8 * q + shift) shift (7 * q + shift) data =
      (if shift = 6 then pack_loop s (8 * q + shift + 2) 0 (7 * q + shift + 1) ?data
       else pack_loop s (8 * q + shift + 1) (shift + 1) (7 * q + shift + 1) ?data)"
      using False i less.prems(2,4) by (subst pack_loop.simps) (simp add: wr_def Let_def)
    show ?thesis
    proof (cases "shift = 6")
      case True
      have e: "8 * q + shift + 2 = 8 * (q + 1) + 0" "7 * q + shift + 1 = 7 * (q + 1) + 0" using True by simp_all
      show ?thesis unfolding step if_P [OF True] e
        by (rule less.hyps) (use False True less.prems in simp_all)
    next
      case False': False
      have e: "8 * q + shift + 1 = 8 * q + (shift + 1)" "7 * q + shift + 1 = 7 * q + (shift + 1)" by simp_all
      show ?thesis unfolding step if_not_P [OF False'] e
        by (rule less.hyps) (use False False' less.prems in simp_all)
    qed
  qed
qed

theorem packing_overflow:
  "length data = 141 \<Longrightarrow> 162 \<le> length src \<Longrightarrow> packing_7bit_character src data = None"
  using pack_loop_overflow [of 0 data src 0] by (simp add: packing_7bit_character_def)

theorem packing_overflow_witness: "packing_7bit_character (replicate 162 65) (replicate 141 0) = None"
  using packing_overflow [of "replicate 141 0" "replicate 162 65"] by simp

end
