(* ===== verification/Lgsm_Api.thy ===== *)
theory Lgsm_Api
  imports Lgsm Septets
begin

text \<open>
  The requests of the client library: \<^verbatim>\<open>gsm/src/libgsmd/libgsmd_sms.c\<close>, \<^verbatim>\<open>libgsmd_voicecall.c\<close>,
  \<^verbatim>\<open>libgsmd_pin.c\<close>, \<^verbatim>\<open>libgsmd_phone.c\<close>, \<^verbatim>\<open>libgsmd_network.c\<close> and \<^verbatim>\<open>libgsmd_phonebook.c\<close>. Every one builds a
  message and sends it; \<open>mem_ok\<close> says whether the allocation succeeded, \<open>net\<close> is the system call \<open>send\<close>.
  Strings of the caller are C strings; arrays are lists of their octets.
\<close>

type_synonym 'h sender = "bool \<Rightarrow> (string \<Rightarrow> int) \<Rightarrow> 'h lgsm_handle \<Rightarrow> int \<times> 'h lgsm_handle \<times> string"

section \<open>Voice calls\<close>

record lgsm_addr =
  la_type :: int
  la_addr :: "u8 list"

text \<open>
  The array \<open>addr\<close> has 32 octets, and 33 are copied: \<open>behind\<close> is the octet that lies behind the structure. It
  is overwritten.
\<close>

definition lgsm_voice_out_init :: "lgsm_addr \<Rightarrow> u8 \<Rightarrow> 'h sender" where
  "lgsm_voice_out_init number behind mem_ok net lh =
     lgsm_request mem_ok net GSMD_MSG_VOICECALL GSMD_VOICECALL_DIAL
       (b8 (word_of_int (la_type number)) @ u8s ((la_addr number @ [behind])[GSMD_ADDR_MAXLEN := 0])) lh"

text \<open>Here the result of \<open>send\<close> is compared with a smaller number.\<close>

definition lgsm_voice_dtmf :: "char \<Rightarrow> 'h sender" where
  "lgsm_voice_dtmf dtmf_char mem_ok net lh =
     (if \<not> mem_ok then (- ENOMEM, lh, [])
      else
        let (rc, lh, out) = lgsm_send net GSMD_MSG_VOICECALL GSMD_VOICECALL_DTMF (b8 1 @ [dtmf_char]) lh
        in (if u_less rc (2 + 1 + 1) then - EIO else 0, lh, out))"

definition lgsm_voice_in_accept :: "'h sender" where
  "lgsm_voice_in_accept mem_ok net = lgsm_send_simple mem_ok net GSMD_MSG_VOICECALL GSMD_VOICECALL_ANSWER"

definition lgsm_voice_hangup :: "'h sender" where
  "lgsm_voice_hangup mem_ok net = lgsm_send_simple mem_ok net GSMD_MSG_VOICECALL GSMD_VOICECALL_HANGUP"

definition lgsm_voice_volume_set :: "int \<Rightarrow> 'h sender" where
  "lgsm_voice_volume_set volume mem_ok net = lgsm_send_simple mem_ok net GSMD_MSG_VOICECALL GSMD_VOICECALL_VOL_SET"

section \<open>Phone and PIN\<close>

definition lgsm_phone_power :: "int \<Rightarrow> 'h sender" where
  "lgsm_phone_power pow mem_ok net =
     lgsm_send_simple mem_ok net GSMD_MSG_PHONE (if pow \<noteq> 0 then GSMD_PHONE_POWERUP else GSMD_PHONE_POWERDOWN)"

definition pin_type_names :: "string list" where
  "pin_type_names = [''NONE'', ''SIM PIN'', ''SIM PUK'', ''Phone-to-SIM PIN'', ''Phone-to-very-first SIM PIN'',
     ''Phone-to-very-first SIM PUK'', ''SIM PIN2'', ''SIM PUK2'', ''Network personalization PIN'',
     ''Network personalizaiton PUK'', ''Network subset personalisation PIN'', ''Network subset personalisation PUK'',
     ''Service provider personalisation PIN'', ''Service provider personalisation PUK'',
     ''Corporate personalisation PIN'', ''Corporate personalisation PUK'']"

definition lgsm_pin_name :: "nat \<Rightarrow> string" where
  "lgsm_pin_name ptype = (if ptype \<ge> NUM_GSMD_PIN then ''unknown'' else pin_type_names ! ptype)"

text \<open>An array of 9 characters that was cleared, with a string written into it.\<close>

definition pin_array :: "string \<Rightarrow> string" where
  "pin_array s = s @ replicate (GSMD_PIN_MAXLEN + 1 - length s) NUL"

definition lgsm_pin :: "nat \<Rightarrow> string \<Rightarrow> string option \<Rightarrow> 'h sender" where
  "lgsm_pin type pin newpin mem_ok net lh =
     (if length pin > GSMD_PIN_MAXLEN \<or> (case newpin of None \<Rightarrow> False | Some s \<Rightarrow> length s > GSMD_PIN_MAXLEN) \<or>
         type \<ge> NUM_GSMD_PIN
      then (- EINVAL, lh, [])
      else if \<not> mem_ok then (- ENOMEM, lh, [])
      else
        let puk = (int type = GSMD_PIN_SIM_PUK \<or> int type = GSMD_PIN_SIM_PUK2)
        in case newpin of
             None \<Rightarrow>
               if puk then (- EINVAL, lh, [])
               else lgsm_send net GSMD_MSG_PIN GSMD_PIN_INPUT (bint (int type) @ pin_array pin @ pin_array []) lh
           | Some s \<Rightarrow>
               lgsm_send net GSMD_MSG_PIN GSMD_PIN_INPUT (bint (int type) @ pin_array pin @ pin_array (if puk then s else [])) lh)"

section \<open>Network\<close>

text \<open>The function has a result type and no \<open>return\<close>; what it is for is the assignment.\<close>

definition lgsm_get_netreg_state :: "'h lgsm_handle \<Rightarrow> int" where
  "lgsm_get_netreg_state lh = netreg_state lh"

definition lgsm_oper_get :: "'h sender" where
  "lgsm_oper_get mem_ok net = lgsm_send_simple mem_ok net GSMD_MSG_NETWORK GSMD_NETWORK_OPER_GET"

definition lgsm_opers_get :: "'h sender" where
  "lgsm_opers_get mem_ok net = lgsm_send_simple mem_ok net GSMD_MSG_NETWORK GSMD_NETWORK_OPER_LIST"

text \<open>\<open>oper\<close> is an array of 6 characters.\<close>

definition lgsm_netreg_register :: "string \<Rightarrow> 'h sender" where
  "lgsm_netreg_register oper mem_ok net = lgsm_request mem_ok net GSMD_MSG_NETWORK GSMD_NETWORK_REGISTER oper"

definition lgsm_netreg_deregister :: "'h sender" where
  "lgsm_netreg_deregister mem_ok net = lgsm_send_simple mem_ok net GSMD_MSG_NETWORK GSMD_NETWORK_DEREGISTER"

definition lgsm_signal_quality :: "'h sender" where
  "lgsm_signal_quality mem_ok net = lgsm_send_simple mem_ok net GSMD_MSG_NETWORK GSMD_NETWORK_SIGQ_GET"

definition lgsm_prefoper_list :: "'h sender" where
  "lgsm_prefoper_list mem_ok net = lgsm_send_simple mem_ok net GSMD_MSG_NETWORK GSMD_NETWORK_PREF_LIST"

definition lgsm_prefoper_delete :: "int \<Rightarrow> 'h sender" where
  "lgsm_prefoper_delete index mem_ok net = lgsm_request mem_ok net GSMD_MSG_NETWORK GSMD_NETWORK_PREF_DEL (bint index)"

definition lgsm_prefoper_add :: "string \<Rightarrow> 'h sender" where
  "lgsm_prefoper_add oper mem_ok net = lgsm_request mem_ok net GSMD_MSG_NETWORK GSMD_NETWORK_PREF_ADD oper"

definition lgsm_prefoper_get_space :: "'h sender" where
  "lgsm_prefoper_get_space mem_ok net = lgsm_send_simple mem_ok net GSMD_MSG_NETWORK GSMD_NETWORK_PREF_SPACE"

definition lgsm_get_subscriber_num :: "'h sender" where
  "lgsm_get_subscriber_num mem_ok net = lgsm_send_simple mem_ok net GSMD_MSG_NETWORK GSMD_NETWORK_GET_NUMBER"

section \<open>Short messages\<close>

definition lgsm_sms_list :: "int \<Rightarrow> 'h sender" where
  "lgsm_sms_list stat mem_ok net = lgsm_request mem_ok net GSMD_MSG_SMS GSMD_SMS_LIST (bint stat)"

definition lgsm_sms_read :: "int \<Rightarrow> 'h sender" where
  "lgsm_sms_read index mem_ok net = lgsm_request mem_ok net GSMD_MSG_SMS GSMD_SMS_READ (bint index)"

definition lgsm_sms_delete :: "int \<Rightarrow> int \<Rightarrow> 'h sender" where
  "lgsm_sms_delete index delflg mem_ok net =
     lgsm_request mem_ok net GSMD_MSG_SMS GSMD_SMS_DELETE (b8 (word_of_int index) @ b8 (word_of_int delflg))"

text \<open>
  The result 1 is an error. The number is checked after it was stored, with the plus sign if that is not
  skipped.
\<close>

definition octets :: "string \<Rightarrow> u8 list" where
  "octets s = map (\<lambda>c. of_nat (char_code c)) s"

definition lgsm_number2addr :: "gsmd_addr \<Rightarrow> string \<Rightarrow> nat \<Rightarrow> int \<times> gsmd_addr" where
  "lgsm_number2addr dst src skipplus =
     (if length src + 1 > GSMD_ADDR_MAXLEN + 1 then (1, dst)
      else
        let plus = (src \<noteq> [] \<and> hd src = CHR ''+'');
            s = (if plus then drop skipplus src else src);
            t = (if plus then GSMD_TOA_NPI_ISDN OR GSMD_TOA_TON_INTERNATIONAL OR GSMD_TOA_RESERVED
                 else GSMD_TOA_NPI_ISDN OR GSMD_TOA_TON_UNKNOWN OR GSMD_TOA_RESERVED);
            dst = \<lparr>addr_type = t, addr_number = octets s @ [0] @ drop (length s + 1) (addr_number dst)\<rparr>
        in (if list_all is_digit s then 0 else 1, dst))"

record lgsm_sms =
  ls_addr :: string
  alpha :: int
  ls_data :: "u8 list"
  ls_length :: int
  ls_ask_ds :: int

abbreviation (input) no_dcs :: gsmd_sms_datacodingscheme where
  "no_dcs \<equiv> \<lparr>msg_class = 0, alphabet = 0, is_compressed = 0, mwi_group = 0, mwi_active = 0, mwi_kind = 0, raw_dcs_data = 0\<rparr>"

definition zero_addr :: gsmd_addr where
  "zero_addr = \<lparr>addr_type = 0, addr_number = replicate (GSMD_ADDR_MAXLEN + 1) 0\<rparr>"

definition submit_of :: "gsmd_addr \<Rightarrow> lgsm_sms \<Rightarrow> gsmd_sms_submit" where
  "submit_of ga sms =
     \<lparr>sub_addr = ga,
      sub_payload = \<lparr>sms_length = word_of_int (ls_length sms), coding_scheme = word_of_int (alpha sms), has_header = 0,
        is_voicemail = 0, dcs = no_dcs, sms_data = take LGSM_SMS_DATA_MAXLEN (ls_data sms) @ replicate 25 0\<rparr>,
      ask_ds = ls_ask_ds sms\<rparr>"

definition lgsm_sms_send :: "lgsm_sms \<Rightarrow> 'h sender" where
  "lgsm_sms_send sms mem_ok net lh =
     (if \<not> mem_ok then (- ENOMEM, lh, [])
      else
        let (bad, ga) = lgsm_number2addr zero_addr (ls_addr sms) 1
        in if bad \<noteq> 0 then (- EINVAL, lh, [])
           else lgsm_request mem_ok net GSMD_MSG_SMS GSMD_SMS_SEND (zeroed (sms_submit_mem (submit_of ga sms))) lh)"

definition lgsm_sms_write :: "int \<Rightarrow> lgsm_sms \<Rightarrow> 'h sender" where
  "lgsm_sms_write stat sms mem_ok net lh =
     (if \<not> mem_ok then (- ENOMEM, lh, [])
      else
        let (bad, ga) = lgsm_number2addr zero_addr (ls_addr sms) 1
        in if bad \<noteq> 0 then (- EINVAL, lh, [])
           else lgsm_request mem_ok net GSMD_MSG_SMS GSMD_SMS_WRITE
                  (b8 (word_of_int stat) @ zeroed (sms_submit_mem (submit_of ga sms))) lh)"

definition lgsm_sms_get_storage :: "'h sender" where
  "lgsm_sms_get_storage mem_ok net = lgsm_send_simple mem_ok net GSMD_MSG_SMS GSMD_SMS_GET_MSG_STORAGE"

definition lgsm_sms_set_storage :: "int \<Rightarrow> int \<Rightarrow> int \<Rightarrow> 'h sender" where
  "lgsm_sms_set_storage mem1 mem2 mem3 mem_ok net =
     lgsm_request mem_ok net GSMD_MSG_SMS GSMD_SMS_SET_MSG_STORAGE (bint mem1 @ bint mem2 @ bint mem3)"

definition lgsm_sms_get_smsc :: "'h sender" where
  "lgsm_sms_get_smsc mem_ok net = lgsm_send_simple mem_ok net GSMD_MSG_SMS GSMD_SMS_GET_SERVICE_CENTRE"

definition lgsm_sms_set_smsc :: "string \<Rightarrow> 'h sender" where
  "lgsm_sms_set_smsc number mem_ok net lh =
     (if \<not> mem_ok then (- ENOMEM, lh, [])
      else
        let (bad, ga) = lgsm_number2addr zero_addr number 0
        in if bad \<noteq> 0 then (- EINVAL, lh, [])
           else lgsm_request mem_ok net GSMD_MSG_SMS GSMD_SMS_SET_SERVICE_CENTRE (zeroed (addr_mem ga)) lh)"

definition lgsm_cb_subscribe :: "'h sender" where
  "lgsm_cb_subscribe mem_ok net = lgsm_send_simple mem_ok net GSMD_MSG_CB GSMD_CB_SUBSCRIBE"

definition lgsm_cb_unsubscribe :: "'h sender" where
  "lgsm_cb_unsubscribe mem_ok net = lgsm_send_simple mem_ok net GSMD_MSG_CB GSMD_CB_UNSUBSCRIBE"

section \<open>Phone book\<close>

definition lgsm_pb_list_storage :: "'h sender" where
  "lgsm_pb_list_storage mem_ok net = lgsm_send_simple mem_ok net GSMD_MSG_PHONEBOOK GSMD_PHONEBOOK_LIST_STORAGE"

definition lgsm_pb_set_storage :: "string \<Rightarrow> 'h sender" where
  "lgsm_pb_set_storage storage mem_ok net =
     lgsm_request mem_ok net GSMD_MSG_PHONEBOOK GSMD_PHONEBOOK_SET_STORAGE
       (take 2 storage @ replicate (2 - length storage) NUL @ [NUL])"

text \<open>The arrays of the caller have the sizes of those in the message.\<close>

definition lgsm_pb_find_entry :: "string \<Rightarrow> 'h sender" where
  "lgsm_pb_find_entry findtext mem_ok net =
     lgsm_request mem_ok net GSMD_MSG_PHONEBOOK GSMD_PHONEBOOK_FIND (findtext[14 := NUL])"

definition lgsm_pb_read_entry :: "int \<Rightarrow> 'h sender" where
  "lgsm_pb_read_entry index mem_ok net = lgsm_request mem_ok net GSMD_MSG_PHONEBOOK GSMD_PHONEBOOK_READ (bint index)"

definition lgsm_pb_read_entries :: "int \<Rightarrow> int \<Rightarrow> 'h sender" where
  "lgsm_pb_read_entries index1 index2 mem_ok net =
     lgsm_request mem_ok net GSMD_MSG_PHONEBOOK GSMD_PHONEBOOK_READRG (b8 (word_of_int index1) @ b8 (word_of_int index2))"

definition lgsm_pb_del_entry :: "int \<Rightarrow> 'h sender" where
  "lgsm_pb_del_entry index mem_ok net = lgsm_request mem_ok net GSMD_MSG_PHONEBOOK GSMD_PHONEBOOK_DELETE (bint index)"

definition lgsm_pb_write_entry :: "int \<Rightarrow> string \<Rightarrow> int \<Rightarrow> string \<Rightarrow> 'h sender" where
  "lgsm_pb_write_entry index numb type text mem_ok net =
     lgsm_request mem_ok net GSMD_MSG_PHONEBOOK GSMD_PHONEBOOK_WRITE
       (b8 (word_of_int index) @ numb[44 := NUL] @ b8 (word_of_int type) @ text[14 := NUL])"

definition lgsm_pb_get_support :: "'h sender" where
  "lgsm_pb_get_support mem_ok net = lgsm_send_simple mem_ok net GSMD_MSG_PHONEBOOK GSMD_PHONEBOOK_GET_SUPPORT"

definition lgsm_pb_retrieve_readrg :: "int \<Rightarrow> 'h sender" where
  "lgsm_pb_retrieve_readrg num mem_ok net =
     lgsm_request mem_ok net GSMD_MSG_PHONEBOOK GSMD_PHONEBOOK_RETRIEVE_READRG (bint num)"

definition lgsm_pb_retrieve_find :: "int \<Rightarrow> 'h sender" where
  "lgsm_pb_retrieve_find num mem_ok net =
     lgsm_request mem_ok net GSMD_MSG_PHONEBOOK GSMD_PHONEBOOK_RETRIEVE_FIND (bint num)"

definition lgsm_get_imsi :: "'h sender" where
  "lgsm_get_imsi mem_ok net = lgsm_send_simple mem_ok net GSMD_MSG_PHONEBOOK GSMD_PHONEBOOK_GET_IMSI"

section \<open>Lemmas\<close>

text \<open>
  The centre's number in its international form is always refused: the plus sign is kept, and then
  taken for a wrong digit.
\<close>

theorem set_smsc_refuses_plus:
  assumes "length digits < GSMD_ADDR_MAXLEN"
  shows "lgsm_sms_set_smsc (CHR ''+'' # digits) True net lh = (- EINVAL, lh, [])"
  using assms by (simp add: lgsm_sms_set_smsc_def lgsm_number2addr_def Let_def is_digit_def char_code_def)

lemma number2addr_digits:
  assumes "list_all is_digit s" "length s \<le> GSMD_ADDR_MAXLEN" "wf_addr dst"
  shows "lgsm_number2addr dst s 1 = (0, \<lparr>addr_type = 129, addr_number = octets s @ 0 # drop (length s + 1) (addr_number dst)\<rparr>)"
    and "length s < GSMD_ADDR_MAXLEN \<Longrightarrow> lgsm_number2addr dst (CHR ''+'' # s) 1 =
      (0, \<lparr>addr_type = 145, addr_number = octets s @ 0 # drop (length s + 1) (addr_number dst)\<rparr>)"
proof -
  have "s = [] \<or> hd s \<noteq> CHR ''+''" using assms(1) by (cases s) (auto simp: is_digit_def char_code_def)
  then show "lgsm_number2addr dst s 1 = (0, \<lparr>addr_type = 129, addr_number = octets s @ 0 # drop (length s + 1) (addr_number dst)\<rparr>)"
    using assms(1,2) by (auto simp: lgsm_number2addr_def Let_def)
  show "length s < GSMD_ADDR_MAXLEN \<Longrightarrow> lgsm_number2addr dst (CHR ''+'' # s) 1 =
      (0, \<lparr>addr_type = 145, addr_number = octets s @ 0 # drop (length s + 1) (addr_number dst)\<rparr>)"
    using assms(1) by (simp add: lgsm_number2addr_def Let_def)
qed

end
