(* ===== verification/Requests.thy ===== *)
theory Requests
  imports Usock Lgsm_Api
begin

text \<open>
  Library and daemon together: what a request of the client library makes the daemon queue for the modem.
\<close>

section \<open>What a handler adds to the command queue\<close>

text \<open>Text, callback and identifier of a command; wake-up commands in between do not count.\<close>

definition cmd_view :: "gcb gsmd_atcmd \<Rightarrow> string \<times> gcb atcmd_cb option \<times> u16" where
  "cmd_view c = (c_str (at_buf c), at_cb c, at_id c)"

definition is_wakeup :: "'cb gsmd_atcmd \<Rightarrow> bool" where
  "is_wakeup c \<longleftrightarrow> (case at_cb c of Some Null_Wakeup_Cb \<Rightarrow> True | _ \<Rightarrow> False)"

definition adds :: "daemon \<Rightarrow> daemon \<Rightarrow> (string \<times> gcb atcmd_cb option \<times> u16) list \<Rightarrow> bool" where
  "adds g g' cs \<longleftrightarrow> g_mem g' = [] \<and> busy_atcmds g' = busy_atcmds g \<and> users (world g') = users (world g) \<and>
     (\<exists>new. pending_atcmds g' = pending_atcmds g @ new \<and> map cmd_view (filter (Not \<circ> is_wakeup) new) = cs)"

definition asks :: "daemon \<Rightarrow> (int \<times> daemon) option \<Rightarrow> (string \<times> gcb atcmd_cb option \<times> u16) list \<Rightarrow> bool" where
  "asks g r cs \<longleftrightarrow> (\<exists>g'. r = Some (0, g') \<and> adds g g' cs)"

lemma adds_trans: "adds g g1 a \<Longrightarrow> adds g1 g2 b \<Longrightarrow> adds g g2 (a @ b)"
  by (auto simp: adds_def)

lemma g_alloc_ok: "g_mem g = [] \<Longrightarrow> g_alloc g = (Some (g_next g), g\<lparr>g_next := g_next g + 1\<rparr>)"
  by (simp add: g_alloc_def)

lemma submit_adds:
  assumes "g_mem g = []" "\<not> is_wakeup c"
  shows "\<exists>g'. atcmd_submit g c = Some (0, g') \<and> adds g g' [cmd_view c]"
proof (cases "wakeup_timer g")
  case None
  then show ?thesis using assms
    by (simp add: atcmd_submit_def atcmd_wakeup_modem_def atcmd_fill_def g_alloc_ok start_wakeup_timer_def Let_def adds_def
      atcmd_wake_pending_queue_def is_wakeup_def)
next
  case Some
  then show ?thesis using assms
    by (simp add: atcmd_submit_def atcmd_wakeup_modem_def Let_def adds_def atcmd_wake_pending_queue_def)
qed

lemma fill_adds:
  assumes "g_mem g = []" "length s < n" "NUL \<notin> set s"
  shows "\<exists>g' c. atcmd_fill s n (map_option Cb cb) i g = Some (Some c, g') \<and> adds g g' [] \<and> world g' = world g \<and>
     g_flags g' = g_flags g \<and> \<not> is_wakeup c \<and>
     cmd_view c = (s, map_option Cb cb, i) \<and> at_buf c = s @ replicate (n - length s) NUL"
proof -
  obtain k where n: "n = length s + Suc k" using assms(2) less_iff_Suc_add by auto
  show ?thesis using assms(1,3)
    by (auto simp: atcmd_fill_def g_alloc_ok Let_def adds_def is_wakeup_def cmd_view_def n replicate_append_same
      split: option.split)
qed

lemma fill_submit_asks:
  assumes "g_mem g = []" "length s < n" "NUL \<notin> set s"
  shows "asks g (fill_submit s n cb i g) [(s, map_option Cb cb, i)]"
proof -
  obtain g1 c where f: "atcmd_fill s n (map_option Cb cb) i g = Some (Some c, g1)" "adds g g1 []" "\<not> is_wakeup c"
      "cmd_view c = (s, map_option Cb cb, i)"
    using fill_adds [OF assms] by blast
  moreover have "g_mem g1 = []" using f(2) by (simp add: adds_def)
  ultimately obtain g' where "atcmd_submit g1 c = Some (0, g')" "adds g1 g' [cmd_view c]" using submit_adds by blast
  then show ?thesis using f adds_trans [of g g1 "[]" g'] by (auto simp: asks_def fill_submit_def)
qed

lemma fill_printf_asks:
  assumes "g_mem g = []" "length p < n" "length s < n" "NUL \<notin> set p" "NUL \<notin> set s"
  shows "asks g (fill_printf p n s cb i g) [(s, map_option Cb cb, i)]"
proof -
  obtain g1 c where f: "atcmd_fill p n (map_option Cb cb) i g = Some (Some c, g1)" "adds g g1 []" "\<not> is_wakeup c"
      "cmd_view c = (p, map_option Cb cb, i)" "at_buf c = p @ replicate (n - length p) NUL"
    using fill_adds [OF assms(1,2,4)] by blast
  obtain b where b: "wrn (at_buf c) 0 (s @ [NUL]) = Some (s @ NUL # b)" using f(5) assms(2,3) by (auto simp: wrn_def)
  let ?c = "c\<lparr>at_buf := s @ NUL # b\<rparr>"
  have v: "\<not> is_wakeup ?c" "cmd_view ?c = (s, map_option Cb cb, i)" using f(3,4) assms(5) by (simp_all add: is_wakeup_def cmd_view_def)
  have "g_mem g1 = []" using f(2) by (simp add: adds_def)
  then obtain g' where "atcmd_submit g1 ?c = Some (0, g')" "adds g1 g' [cmd_view ?c]" using submit_adds v(1) by blast
  then show ?thesis using f(1,2) b v(2) adds_trans [of g g1 "[]" g'] by (auto simp: asks_def fill_printf_def)
qed

section \<open>Reading a request\<close>

lemma gmh_length [simp]: "length (lgsm_gmh t s i payload) = sizeof_hdr + length payload"
  by (simp add: lgsm_gmh_def)

lemma gmh_read:
  assumes "length payload \<le> 1016"
  shows "mem_u8 (read_buf (lgsm_gmh t s i payload)) 0 = Some 1" "mem_u8 (read_buf (lgsm_gmh t s i payload)) 1 = Some t"
    "mem_u8 (read_buf (lgsm_gmh t s i payload)) 2 = Some s" "mem_u16 (read_buf (lgsm_gmh t s i payload)) 4 = Some i"
    "mem_u16 (read_buf (lgsm_gmh t s i payload)) 6 = Some (of_nat (length payload))"
    "mem_at (read_buf (lgsm_gmh t s i payload)) 8 (map Some payload)"
proof -
  let ?m = "read_buf (lgsm_gmh t s i payload)"
  let ?h = "map Some (b8 1) @ map Some (b8 t) @ map Some (b8 s) @ fresh_mem 1 @ map Some (b16 i) @
    map Some (b16 (of_nat (length payload))) @ map Some payload"
  have "mem_at ?m 0 (map Some (b8 1) @ map Some (b8 t) @ map Some (b8 s) @ map Some [NUL] @ map Some (b16 i) @
      map Some (b16 (of_nat (length payload))) @ map Some payload)"
    using assms by (simp add: mem_at_def read_buf_def lgsm_gmh_def)
  then have m: "mem_at ?m 0 (map Some (b8 1))" "mem_at ?m 1 (map Some (b8 t))" "mem_at ?m 2 (map Some (b8 s))"
      "mem_at ?m 4 (map Some (b16 i))" "mem_at ?m 6 (map Some (b16 (of_nat (length payload))))" "mem_at ?m 8 (map Some payload)"
    unfolding mem_at_append by (simp_all del: One_nat_def)
  show "mem_u8 ?m 0 = Some 1" "mem_u8 ?m 1 = Some t" "mem_u8 ?m 2 = Some s" "mem_u16 ?m 4 = Some i"
    "mem_u16 ?m 6 = Some (of_nat (length payload))" "mem_at ?m 8 (map Some payload)"
    using m mem_at_readers(1) [OF m(1)] mem_at_readers(1) [OF m(2)] mem_at_readers(1) [OF m(3)]
      mem_at_readers(2) [OF m(4)] mem_at_readers(2) [OF m(5)] by blast+
qed

lemma fresh_mem_split: "k \<le> n \<Longrightarrow> fresh_mem n = fresh_mem k @ fresh_mem (n - k)"
  by (simp add: fresh_mem_def flip: replicate_add)

text \<open>C strings and character arrays inside the data.\<close>

lemma mem_strz_str: "NUL \<notin> set s \<Longrightarrow> mem_strz (map Some s @ Some NUL # m) = Some s"
  by (induction s) auto

lemma mem_at_drop:
  assumes "mem_at m i M"
  shows "drop i m = M @ drop (i + length M) m"
proof -
  have "drop i m = take (length M) (drop i m) @ drop (length M) (drop i m)" by (rule append_take_drop_id [symmetric])
  then show ?thesis using assms by (simp add: mem_at_def add.commute)
qed

lemma mem_at_str:
  assumes "mem_at m i (map Some (s @ NUL # r))" "NUL \<notin> set s"
  shows "mem_str m i = Some s"
proof -
  show ?thesis using assms(2) mem_strz_str [of s] mem_at_drop [OF assms(1)] by (simp add: mem_str_def)
qed

lemma mem_at_arr_str:
  assumes "mem_at m i (map Some (s @ replicate k NUL))" "NUL \<notin> set s" "0 < k" "n = length s + k"
  shows "mem_arr_str m i n = Some s"
  using mem_at_chars [OF assms(1)] assms(2-4) by (simp add: mem_arr_str_def c_str_at_def)

lemma mem_strn_str:
  "NUL \<notin> set s \<Longrightarrow> length s + k = n \<Longrightarrow> mem_strn n (map Some (s @ replicate k NUL) @ m) = Some s"
proof (induction s arbitrary: n)
  case Nil
  then show ?case by (cases k) auto
next
  case (Cons c s)
  then show ?case by (cases n) auto
qed

lemma dec_int_str: "NUL \<notin> set (dec_int k)" "int32 k \<Longrightarrow> length (dec_int k) \<le> 11"
proof -
  have d: "NUL \<notin> set (dec_nat n)" for n
    using dec_nat_digits [of n] by (auto simp: is_digit_def char_code_def)
  show "NUL \<notin> set (dec_int k)" by (simp add: dec_int_def d)
  show "int32 k \<Longrightarrow> length (dec_int k) \<le> 11"
    using dec_nat_length [of "nat k" 10] dec_nat_length [of "nat (- k)" 10] by (auto simp: dec_int_def int32_def nat_less_iff)
qed

section \<open>The requests\<close>

text \<open>The functions of the library as data, those for sending and storing short messages apart.\<close>

datatype request =
    Voice_Out_Init string
  | Voice_Dtmf char
  | Voice_In_Accept
  | Voice_Hangup
  | Phone_Power bool
  | Pin nat string "string option"
  | Oper_Get
  | Opers_Get
  | Netreg_Register string
  | Netreg_Deregister
  | Signal_Quality
  | Prefoper_List
  | Prefoper_Delete int
  | Prefoper_Add string
  | Prefoper_Get_Space
  | Get_Subscriber_Num
  | Sms_List int
  | Sms_Read int
  | Sms_Delete nat nat
  | Sms_Get_Storage
  | Sms_Set_Storage nat nat nat
  | Sms_Get_Smsc
  | Sms_Set_Smsc string
  | Cb_Subscribe
  | Cb_Unsubscribe
  | Pb_List_Storage
  | Pb_Set_Storage string
  | Pb_Find_Entry string
  | Pb_Read_Entry int
  | Pb_Read_Entries nat nat
  | Pb_Del_Entry int
  | Pb_Write_Entry nat string string nat string string
  | Pb_Get_Support
  | Get_Imsi

text \<open>An array of \<open>n\<close> characters that holds a string.\<close>

definition char_array :: "nat \<Rightarrow> string \<Rightarrow> string" where
  "char_array n s = s @ replicate (n - length s) NUL"

definition request_fn :: "request \<Rightarrow> 'h sender" where
  "request_fn r =
     (case r of
        Voice_Out_Init s \<Rightarrow> lgsm_voice_out_init \<lparr>la_type = 129, la_addr = octets (char_array 32 s)\<rparr> 0
      | Voice_Dtmf c \<Rightarrow> lgsm_voice_dtmf c
      | Voice_In_Accept \<Rightarrow> lgsm_voice_in_accept
      | Voice_Hangup \<Rightarrow> lgsm_voice_hangup
      | Phone_Power on \<Rightarrow> lgsm_phone_power (if on then 1 else 0)
      | Pin typ s t \<Rightarrow> lgsm_pin typ s t
      | Oper_Get \<Rightarrow> lgsm_oper_get
      | Opers_Get \<Rightarrow> lgsm_opers_get
      | Netreg_Register s \<Rightarrow> lgsm_netreg_register (char_array 6 s)
      | Netreg_Deregister \<Rightarrow> lgsm_netreg_deregister
      | Signal_Quality \<Rightarrow> lgsm_signal_quality
      | Prefoper_List \<Rightarrow> lgsm_prefoper_list
      | Prefoper_Delete i \<Rightarrow> lgsm_prefoper_delete i
      | Prefoper_Add s \<Rightarrow> lgsm_prefoper_add (char_array 6 s)
      | Prefoper_Get_Space \<Rightarrow> lgsm_prefoper_get_space
      | Get_Subscriber_Num \<Rightarrow> lgsm_get_subscriber_num
      | Sms_List i \<Rightarrow> lgsm_sms_list i
      | Sms_Read i \<Rightarrow> lgsm_sms_read i
      | Sms_Delete i d \<Rightarrow> lgsm_sms_delete (int i) (int d)
      | Sms_Get_Storage \<Rightarrow> lgsm_sms_get_storage
      | Sms_Set_Storage a b c \<Rightarrow> lgsm_sms_set_storage (int a) (int b) (int c)
      | Sms_Get_Smsc \<Rightarrow> lgsm_sms_get_smsc
      | Sms_Set_Smsc s \<Rightarrow> lgsm_sms_set_smsc s
      | Cb_Subscribe \<Rightarrow> lgsm_cb_subscribe
      | Cb_Unsubscribe \<Rightarrow> lgsm_cb_unsubscribe
      | Pb_List_Storage \<Rightarrow> lgsm_pb_list_storage
      | Pb_Set_Storage s \<Rightarrow> lgsm_pb_set_storage s
      | Pb_Find_Entry s \<Rightarrow> lgsm_pb_find_entry (char_array 15 s)
      | Pb_Read_Entry i \<Rightarrow> lgsm_pb_read_entry i
      | Pb_Read_Entries i j \<Rightarrow> lgsm_pb_read_entries (int i) (int j)
      | Pb_Del_Entry i \<Rightarrow> lgsm_pb_del_entry i
      | Pb_Write_Entry i s s' typ t t' \<Rightarrow> lgsm_pb_write_entry (int i) (s @ NUL # s') (int typ) (t @ NUL # t')
      | Pb_Get_Support \<Rightarrow> lgsm_pb_get_support
      | Get_Imsi \<Rightarrow> lgsm_get_imsi)"

text \<open>Strings fit into their arrays with their NUL (network numbers need none), numbers into their octets.\<close>

definition fits :: "nat \<Rightarrow> string \<Rightarrow> bool" where
  "fits n s \<longleftrightarrow> length s < n \<and> NUL \<notin> set s"

definition request_ok :: "request \<Rightarrow> bool" where
  "request_ok r =
     (case r of
        Voice_Out_Init s \<Rightarrow> fits 32 s
      | Voice_Dtmf c \<Rightarrow> c \<noteq> NUL
      | Pin typ s t \<Rightarrow> typ < NUM_GSMD_PIN \<and> fits 9 s \<and>
          (case t of None \<Rightarrow> typ \<noteq> 2 \<and> typ \<noteq> 7 | Some t \<Rightarrow> fits 9 t)
      | Netreg_Register s \<Rightarrow> fits 7 s
      | Prefoper_Delete i \<Rightarrow> int32 i
      | Prefoper_Add s \<Rightarrow> fits 7 s
      | Sms_List i \<Rightarrow> 0 \<le> i \<and> i \<le> 4
      | Sms_Read i \<Rightarrow> int32 i
      | Sms_Delete i d \<Rightarrow> i < 256 \<and> d < 256
      | Sms_Set_Storage a b c \<Rightarrow> a < length ts0705_memtype_name \<and> b < length ts0705_memtype_name \<and> c < length ts0705_memtype_name
      | Sms_Set_Smsc s \<Rightarrow> list_all is_digit s \<and> length s \<le> GSMD_ADDR_MAXLEN
      | Pb_Set_Storage s \<Rightarrow> fits 3 s
      | Pb_Find_Entry s \<Rightarrow> fits 15 s
      | Pb_Read_Entry i \<Rightarrow> int32 i
      | Pb_Read_Entries i j \<Rightarrow> i < 256 \<and> j < 256
      | Pb_Del_Entry i \<Rightarrow> int32 i
      | Pb_Write_Entry i s s' typ t t' \<Rightarrow> i < 256 \<and> NUL \<notin> set s \<and> length s + length s' = 44 \<and> typ < 256 \<and>
          NUL \<notin> set t \<and> length t + length t' = 14
      | _ \<Rightarrow> True)"

text \<open>The commands: text, callback, identifier.\<close>

definition quoted :: "string \<Rightarrow> string" where
  "quoted s = [CHR 0x22] @ s @ [CHR 0x22]"

definition request_cmds :: "daemon \<Rightarrow> nat \<Rightarrow> u16 \<Rightarrow> request \<Rightarrow> (string \<times> gcb atcmd_cb option \<times> u16) list" where
  "request_cmds g gu i r =
     (let cmd = (\<lambda>s f i. (s, Some (Cb (f, gu)), i))
      in case r of
        Voice_Out_Init s \<Rightarrow> [cmd (''ATD'' @ s @ '';'') Usock_cmd_cb i]
      | Voice_Dtmf c \<Rightarrow> [cmd (''AT+VTS='' @ [c] @ '';'') Usock_cmd_cb i]
      | Voice_In_Accept \<Rightarrow> [cmd ''ATA'' Usock_cmd_cb i]
      | Voice_Hangup \<Rightarrow> [cmd ''ATH'' Usock_cmd_cb i]
      | Phone_Power on \<Rightarrow> [if on then cmd ''AT+CFUN=1'' Phone_powerup_cb 0 else cmd ''AT+CFUN=0'' Null_cmd_cb 0]
      | Pin typ s t \<Rightarrow>
          [cmd (''AT+CPIN='' @ quoted s @ (if typ = 2 \<or> typ = 7 then '','' @ quoted (the t) else [])) Pin_cmd_cb 0]
      | Oper_Get \<Rightarrow> [cmd ''AT+COPS=3,0'' Null_cmd_cb 0, cmd ''AT+COPS?'' Network_oper_cb 0]
      | Opers_Get \<Rightarrow> [cmd ''AT+COPS=?'' Network_opers_cb 0]
      | Netreg_Register s \<Rightarrow> [cmd (if s = [] then ''AT+COPS=0'' else ''AT+COPS=1,2,'' @ quoted s) Null_cmd_cb 0]
      | Netreg_Deregister \<Rightarrow> [cmd ''AT+COPS=2'' Null_cmd_cb 0]
      | Signal_Quality \<Rightarrow> [cmd ''AT+CSQ'' Network_sigq_cb 0]
      | Prefoper_List \<Rightarrow> [cmd ''AT+CPOL=,0'' Null_cmd_cb 0, cmd ''AT+CPOL?'' Network_pref_opers_cb 0]
      | Prefoper_Delete k \<Rightarrow> [cmd (''AT+CPOL='' @ dec_int k) Null_cmd_cb 0]
      | Prefoper_Add s \<Rightarrow> [cmd (''AT+CPOL=,2,'' @ quoted s) Null_cmd_cb 0]
      | Prefoper_Get_Space \<Rightarrow> [cmd ''AT+CPOL=?'' Network_pref_num_cb 0]
      | Get_Subscriber_Num \<Rightarrow> [cmd ''AT+CNUM'' Network_ownnumbers_cb 0]
      | Sms_List k \<Rightarrow>
          [cmd (''AT+CMGL='' @ (if g_flags g AND GSMD_FLAG_SMS_FMT_TEXT \<noteq> 0 then quoted (gsmd_cmgl_stat ! nat k) else dec_int k))
             Sms_list_cb i]
      | Sms_Read k \<Rightarrow> [cmd (''AT+CMGR='' @ dec_int k) Sms_read_cb i]
      | Sms_Delete k d \<Rightarrow> [cmd (''AT+CMGD='' @ dec_int (int k) @ '','' @ dec_int (int d)) Sms_delete_cb i]
      | Sms_Get_Storage \<Rightarrow> [cmd ''AT+CPMS?'' Usock_cpms_cb 0]
      | Sms_Set_Storage a b c \<Rightarrow>
          [(''AT+CPMS='' @ quoted (ts0705_memtype_name ! a) @ '','' @ quoted (ts0705_memtype_name ! b) @ '','' @
              quoted (ts0705_memtype_name ! c), None, i)]
      | Sms_Get_Smsc \<Rightarrow> [cmd ''AT+CSCA?'' Usock_get_smsc_cb 0]
      | Sms_Set_Smsc s \<Rightarrow> [(''AT+CSCA='' @ quoted s @ '',129'', None, i)]
      | Cb_Subscribe \<Rightarrow> [(''AT+CSCB=1'', None, 0)]
      | Cb_Unsubscribe \<Rightarrow> [(''AT+CSCB=0'', None, 0)]
      | Pb_List_Storage \<Rightarrow> [cmd ''AT+CPBS=?'' Phonebook_list_storage_cb i]
      | Pb_Set_Storage s \<Rightarrow> [cmd (''AT+CPBS='' @ quoted s) Usock_cmd_cb i]
      | Pb_Find_Entry s \<Rightarrow> [cmd (''AT+CPBF='' @ quoted s) Phonebook_find_cb i]
      | Pb_Read_Entry k \<Rightarrow> [cmd (''AT+CPBR='' @ dec_int k) Phonebook_read_cb i]
      | Pb_Read_Entries k l \<Rightarrow> [cmd (''AT+CPBR='' @ dec_int (int k) @ '','' @ dec_int (int l)) Phonebook_readrg_cb i]
      | Pb_Del_Entry k \<Rightarrow> [cmd (''AT+CPBW='' @ dec_int k) Phonebook_delete_cb i]
      | Pb_Write_Entry k s s' typ t t' \<Rightarrow>
          [cmd (''AT+CPBW='' @ dec_int (int k) @ '','' @ quoted s @ '','' @ dec_int (int typ) @ '','' @ quoted t)
             Phonebook_write_cb i]
      | Pb_Get_Support \<Rightarrow> [cmd ''AT+CPBR=?'' Phonebook_get_support_cb i]
      | Get_Imsi \<Rightarrow> [cmd ''AT+CIMI'' Get_imsi_cb 0])"

section \<open>From the library to the modem\<close>

text \<open>A \<open>send\<close> that takes everything.\<close>

abbreviation (input) all_sent :: "string \<Rightarrow> int" where "all_sent \<equiv> \<lambda>p. int (length p)"

lemma send_all:
  "lgsm_send all_sent t s d lh =
     (int (sizeof_hdr + length d), lh\<lparr>next_msg_id := next_msg_id lh + 1\<rparr>, lgsm_gmh t s (next_msg_id lh) d)"
  by (simp add: lgsm_send_def Let_def)

lemma request_all:
  "length d \<le> 1016 \<Longrightarrow> lgsm_request True all_sent t s d lh =
     (0, lh\<lparr>next_msg_id := next_msg_id lh + 1\<rparr>, lgsm_gmh t s (next_msg_id lh) d)"
  by (simp add: lgsm_request_def send_all u_less_def)

lemma simple_all: "lgsm_send_simple True all_sent t s lh = lgsm_send all_sent t s [] lh"
  by (simp add: lgsm_send_simple_def)

definition reaches :: "request \<Rightarrow> 'h lgsm_handle \<Rightarrow> nat \<Rightarrow> daemon \<Rightarrow> bool" where
  "reaches r lh gu g \<longleftrightarrow>
     (\<exists>rc lh' p. request_fn r True all_sent lh = (rc, lh', p) \<and> 0 \<le> rc \<and>
        asks g (usock_rcv_pcmd gu (read_buf p) (length p) g) (request_cmds g gu (next_msg_id lh) r))"

lemma reachesI:
  assumes h: "pcmd_type_handlers t = Some h" "t < NUM_GSMD_MSGS"
    and f: "snd (snd (request_fn r True all_sent lh)) = lgsm_gmh t s (next_msg_id lh) d" "0 \<le> fst (request_fn r True all_sent lh)"
    and d: "length d \<le> 1016"
    and asks: "\<And>m. mem_u8 m 2 = Some s \<Longrightarrow> mem_u16 m 4 = Some (next_msg_id lh) \<Longrightarrow> mem_u16 m 6 = Some (of_nat (length d)) \<Longrightarrow>
        mem_at m 8 (map Some d) \<Longrightarrow> asks g (h gu m (sizeof_hdr + length d) g) (request_cmds g gu (next_msg_id lh) r)"
  shows "reaches r lh gu g"
proof -
  let ?p = "lgsm_gmh t s (next_msg_id lh) d"
  have "\<not> t \<ge> NUM_GSMD_MSGS" using h(2) by (simp add: not_le)
  then have "usock_rcv_pcmd gu (read_buf ?p) (length ?p) g = h gu (read_buf ?p) (sizeof_hdr + length d) g"
    by (simp only: usock_rcv_pcmd_def gmh_read [OF d] h(1) bind.bind_lunit if_False option.case gmh_length simp_thms)
  then show ?thesis
    unfolding reaches_def using f asks [OF gmh_read(3-6) [OF d]] by (metis prod.collapse)
qed

lemma asks_fill:
  assumes "g_mem g = []" "NUL \<notin> set s"
  shows "length s < n \<Longrightarrow> asks g (fill_submit s n (Some cb) i g) [(s, Some (Cb cb), i)]"
    and "asks g (submit_text s (Some cb) i g) [(s, Some (Cb cb), i)]"
    and "asks g (submit_text s None i g) [(s, None, i)]"
    and "asks g (submit_or_0 s cb i g) [(s, Some (Cb cb), i)]"
proof -
  show "length s < n \<Longrightarrow> asks g (fill_submit s n (Some cb) i g) [(s, Some (Cb cb), i)]" for n
    using fill_submit_asks [OF assms(1) _ assms(2), of n "Some cb" i] by simp
  show a: "asks g (submit_text s (Some cb) i g) [(s, Some (Cb cb), i)]" "asks g (submit_text s None i g) [(s, None, i)]"
    using fill_submit_asks [OF assms(1) _ assms(2), of "length s + 1" "Some cb" i]
      fill_submit_asks [OF assms(1) _ assms(2), of "length s + 1" None i] by (simp_all add: submit_text_def)
  obtain c g1 where "atcmd_fill s (length s + 1) (Some (Cb cb)) i g = Some (Some c, g1)"
    using fill_adds [OF assms(1) _ assms(2), of "length s + 1" "Some cb" i] by auto
  then show "asks g (submit_or_0 s cb i g) [(s, Some (Cb cb), i)]"
    using a(1) by (simp add: submit_or_0_def submit_text_def fill_submit_def)
qed

lemma asks_printf:
  assumes "g_mem g = []" "length p < n" "length s < n" "NUL \<notin> set p" "NUL \<notin> set s"
  shows "asks g (fill_printf p n s (Some cb) i g) [(s, Some (Cb cb), i)]"
  using fill_printf_asks [OF assms, of "Some cb" i] by simp

lemma asks_buffer:
  assumes "g_mem g = []" "NUL \<notin> set s"
  shows "length s < 21 \<Longrightarrow> asks g (buffer_text s cb g) [(s, Some (Cb cb), 0)]"
    and "length s < 1024 \<Longrightarrow> mem_u16 m 4 = Some i \<Longrightarrow> asks g (buf_text s (Some cb) m g) [(s, Some (Cb cb), i)]"
    and "length s < 1024 \<Longrightarrow> mem_u16 m 4 = Some i \<Longrightarrow> asks g (buf_text s None m g) [(s, None, i)]"
  using asks_fill [OF assms] by (simp_all add: buffer_text_def buf_text_def sprintf_to_def)

lemma asks_helper:
  assumes "g_mem g = []" "NUL \<notin> set h" "NUL \<notin> set s"
  shows "asks g (do { (_, g) \<leftarrow> helper_cmd h gu g; submit_text s (Some cb) 0 g })
    [(h, Some (Cb (Null_cmd_cb, gu)), 0), (s, Some (Cb cb), 0)]"
proof -
  obtain c g1 where f: "atcmd_fill h (length h + 1) (Some (Cb (Null_cmd_cb, gu))) 0 g = Some (Some c, g1)" "adds g g1 []"
      "\<not> is_wakeup c" "cmd_view c = (h, Some (Cb (Null_cmd_cb, gu)), 0)"
    using fill_adds [OF assms(1) _ assms(2), of "length h + 1" "Some (Null_cmd_cb, gu)" 0] by auto
  have "g_mem g1 = []" using f(2) by (simp add: adds_def)
  then obtain g2 where g2: "atcmd_submit g1 c = Some (0, g2)" "adds g1 g2 [cmd_view c]" using submit_adds f(3) by blast
  have "g_mem g2 = []" using g2(2) by (simp add: adds_def)
  then obtain g3 where g3: "submit_text s (Some cb) 0 g2 = Some (0, g3)" "adds g2 g3 [(s, Some (Cb cb), 0)]"
    using asks_fill(2) [of g2 s cb 0] assms(3) by (auto simp: asks_def)
  have "adds g g3 ([] @ [cmd_view c] @ [(s, Some (Cb cb), 0)])" by (intro adds_trans [OF f(2)] adds_trans [OF g2(2)] g3(2))
  then show ?thesis using f(1,4) g2(1) g3(1) by (simp add: helper_cmd_def atcmd_submit_ptr_def asks_def)
qed

lemmas library_functions = request_fn_def lgsm_voice_out_init_def lgsm_voice_dtmf_def lgsm_voice_in_accept_def
  lgsm_voice_hangup_def lgsm_phone_power_def lgsm_pin_def lgsm_oper_get_def lgsm_opers_get_def lgsm_netreg_register_def
  lgsm_netreg_deregister_def lgsm_signal_quality_def lgsm_prefoper_list_def lgsm_prefoper_delete_def
  lgsm_prefoper_add_def lgsm_prefoper_get_space_def lgsm_get_subscriber_num_def lgsm_sms_list_def lgsm_sms_read_def
  lgsm_sms_delete_def lgsm_sms_get_storage_def lgsm_sms_set_storage_def lgsm_sms_get_smsc_def lgsm_cb_subscribe_def
  lgsm_cb_unsubscribe_def lgsm_pb_list_storage_def lgsm_pb_set_storage_def lgsm_pb_find_entry_def lgsm_pb_read_entry_def
  lgsm_pb_read_entries_def lgsm_pb_del_entry_def lgsm_pb_write_entry_def lgsm_pb_get_support_def lgsm_get_imsi_def
  simple_all send_all request_all

lemma char_array_length [simp]: "length s \<le> n \<Longrightarrow> length (char_array n s) = n"
  by (simp add: char_array_def)

lemma char_array_last: "fits (Suc n) s \<Longrightarrow> (char_array (Suc n) s)[n := NUL] = char_array (Suc n) s"
  by (auto simp: char_array_def fits_def list_eq_iff_nth_eq nth_append nth_list_update)

lemma nul_last:
  assumes "length s + length r = n"
  obtains r' where "(s @ NUL # r)[n := NUL] = s @ NUL # r'" "length r' = length r"
proof (cases r rule: rev_cases)
  case Nil
  then show thesis using assms by (intro that [of "[]"]) (simp_all add: list_update_append)
next
  case (snoc q c)
  then have "n - length s = Suc (length q)" using assms by simp
  then show thesis using assms snoc by (intro that [of "q @ [NUL]"]) (simp_all add: list_update_append)
qed

lemma mem_at_arr_nul:
  assumes "mem_at m i (map Some (s @ NUL # r))" "NUL \<notin> set s" "n = length s + 1 + length r"
  shows "mem_arr_str m i n = Some s"
  using mem_at_chars [OF assms(1)] assms(2,3) by (simp add: mem_arr_str_def c_str_at_def)

lemma handler_table:
  "pcmd_type_handlers 3 = Some usock_rcv_voicecall" "pcmd_type_handlers 5 = Some usock_rcv_phonebook"
  "pcmd_type_handlers 6 = Some usock_rcv_network" "pcmd_type_handlers 7 = Some usock_rcv_phone"
  "pcmd_type_handlers 8 = Some usock_rcv_pin" "pcmd_type_handlers 9 = Some usock_rcv_sms"
  "pcmd_type_handlers 10 = Some usock_rcv_cb"
  by (simp_all add: pcmd_type_handlers_def)

lemmas reaches_voicecall = reachesI [OF handler_table(1)]
  and reaches_phonebook = reachesI [OF handler_table(2)]
  and reaches_network = reachesI [OF handler_table(3)]
  and reaches_phone = reachesI [OF handler_table(4)]
  and reaches_pin = reachesI [OF handler_table(5)]
  and reaches_sms = reachesI [OF handler_table(6)]
  and reaches_cb = reachesI [OF handler_table(7)]

text \<open>What a handler reads.\<close>

lemma mem_at_reads:
  "mem_at m i (map Some (bint k)) \<Longrightarrow> int32 k \<Longrightarrow> mem_i32 m i = Some k"
  "mem_at m i (map Some t) \<Longrightarrow> t \<noteq> [] \<Longrightarrow> mem_char m i = Some (hd t)"
  "fits (Suc n) s \<Longrightarrow> mem_at m i (map Some (char_array n s)) \<Longrightarrow> mem_strn n (drop i m) = Some s"
proof -
  show "mem_at m i (map Some (bint k)) \<Longrightarrow> int32 k \<Longrightarrow> mem_i32 m i = Some k" by (simp add: rd_int_at)
  show "mem_at m i (map Some t) \<Longrightarrow> t \<noteq> [] \<Longrightarrow> mem_char m i = Some (hd t)"
    using mem_at_append [of m i "map Some [hd t]" "map Some (tl t)"] mem_at_chars [of m i "[hd t]"]
    by (cases t) (simp_all add: mem_char_chars)
  show "fits (Suc n) s \<Longrightarrow> mem_at m i (map Some (char_array n s)) \<Longrightarrow> mem_strn n (drop i m) = Some s"
    using mem_strn_str [of s "n - length s" n] by (simp add: mem_at_drop char_array_def fits_def)
qed

lemma network_requests:
  assumes "g_mem g = []"
  shows "reaches Oper_Get lh gu g" "reaches Opers_Get lh gu g" "reaches Netreg_Deregister lh gu g" "reaches Signal_Quality lh gu g"
    "reaches Prefoper_List lh gu g" "reaches Prefoper_Get_Space lh gu g" "reaches Get_Subscriber_Num lh gu g"
    "fits 7 s \<Longrightarrow> reaches (Netreg_Register s) lh gu g" "fits 7 s \<Longrightarrow> reaches (Prefoper_Add s) lh gu g"
    "int32 k \<Longrightarrow> reaches (Prefoper_Delete k) lh gu g"
proof -
  note asks = asks_helper [OF assms] asks_fill [OF assms] asks_buffer [OF assms]
  note defs = library_functions usock_rcv_network_def request_cmds_def Let_def
  show "reaches Oper_Get lh gu g" by (rule reaches_network [of _ _ 5 "[]"]) (simp_all add: defs asks)
  show "reaches Opers_Get lh gu g" by (rule reaches_network [of _ _ 6 "[]"]) (simp_all add: defs asks)
  show "reaches Netreg_Deregister lh gu g" by (rule reaches_network [of _ _ 8 "[]"]) (simp_all add: defs asks)
  show "reaches Signal_Quality lh gu g" by (rule reaches_network [of _ _ 2 "[]"]) (simp_all add: defs asks)
  show "reaches Prefoper_List lh gu g" by (rule reaches_network [of _ _ 10 "[]"]) (simp_all add: defs asks)
  show "reaches Prefoper_Get_Space lh gu g" by (rule reaches_network [of _ _ 13 "[]"]) (simp_all add: defs asks)
  show "reaches Get_Subscriber_Num lh gu g" by (rule reaches_network [of _ _ 9 "[]"]) (simp_all add: defs asks)
  show "reaches (Prefoper_Delete k) lh gu g" if "int32 k"
    by (rule reaches_network [of _ _ 11 "bint k"])
      (use dec_int_str [of k] that in \<open>simp_all add: defs asks mem_at_reads\<close>)
  have r: "mem_strn 6 (drop 8 m) = Some s" if "fits 7 s" "mem_at m 8 (map Some (char_array 6 s))" for m
    using mem_at_reads(3) [of 6 s m 8] that by simp
  show "reaches (Prefoper_Add s) lh gu g" if "fits 7 s"
    by (rule reaches_network [of _ _ 12 "char_array 6 s"]) (use that in \<open>simp_all add: defs asks r quoted_def fits_def\<close>)
  show "reaches (Netreg_Register s) lh gu g" if f: "fits 7 s"
  proof (rule reaches_network [of _ _ 1 "char_array 6 s"])
    fix m
    assume m: "mem_at m 8 (map Some (char_array 6 s))"
    have "mem_char m 8 = Some (if s = [] then NUL else hd s)"
      using mem_at_reads(2) [OF m] by (cases s) (simp_all add: char_array_def)
    then show "asks g (usock_rcv_network gu m (sizeof_hdr + length (char_array 6 s)) g)
        (request_cmds g gu (next_msg_id lh) (Netreg_Register s))" if "mem_u8 m 2 = Some 1"
      using that f r [OF f m] by (cases s) (auto simp: defs asks quoted_def fits_def)
  qed (use f in \<open>simp_all add: defs fits_def\<close>)
qed

lemma simple_requests:
  assumes "g_mem g = []" "find_user gu g \<noteq> None"
  shows "busy_atcmds g = [] \<Longrightarrow> reaches Voice_Hangup lh gu g" "reaches Voice_In_Accept lh gu g"
    "reaches (Phone_Power on) lh gu g" "reaches Sms_Get_Storage lh gu g" "reaches Sms_Get_Smsc lh gu g"
    "reaches Cb_Subscribe lh gu g" "reaches Cb_Unsubscribe lh gu g" "reaches Pb_List_Storage lh gu g"
    "reaches Pb_Get_Support lh gu g" "reaches Get_Imsi lh gu g"
proof -
  obtain u where u: "find_user gu g = Some u" using assms(2) by blast
  note defs = library_functions request_cmds_def Let_def asks_fill [OF assms(1)] asks_buffer [OF assms(1)] u
  show "reaches Voice_In_Accept lh gu g" by (rule reaches_voicecall [of _ _ 3 "[]"]) (simp_all add: defs usock_rcv_voicecall_def)
  show "reaches Sms_Get_Storage lh gu g" by (rule reaches_sms [of _ _ 6 "[]"]) (simp_all add: defs usock_rcv_sms_def)
  show "reaches Sms_Get_Smsc lh gu g" by (rule reaches_sms [of _ _ 8 "[]"]) (simp_all add: defs usock_rcv_sms_def)
  show "reaches Cb_Subscribe lh gu g" by (rule reaches_cb [of _ _ 1 "[]"]) (simp_all add: defs usock_rcv_cb_def)
  show "reaches Cb_Unsubscribe lh gu g" by (rule reaches_cb [of _ _ 2 "[]"]) (simp_all add: defs usock_rcv_cb_def)
  show "reaches Pb_List_Storage lh gu g" by (rule reaches_phonebook [of _ _ 7 "[]"]) (simp_all add: defs usock_rcv_phonebook_def)
  show "reaches Pb_Get_Support lh gu g" by (rule reaches_phonebook [of _ _ 6 "[]"]) (simp_all add: defs usock_rcv_phonebook_def)
  show "reaches Get_Imsi lh gu g" by (rule reaches_phonebook [of _ _ 11 "[]"]) (simp_all add: defs usock_rcv_phonebook_def)
  obtain c g1 where h: "atcmd_fill ''ATH'' 4 (Some (Cb (Usock_cmd_cb, gu))) (next_msg_id lh) g = Some (Some c, g1)" "adds g g1 []"
      "\<not> is_wakeup c" "cmd_view c = (''ATH'', Some (Cb (Usock_cmd_cb, gu)), next_msg_id lh)"
    using fill_adds [OF assms(1), of "''ATH''" 4 "Some (Usock_cmd_cb, gu)" "next_msg_id lh"] by auto
  show "reaches Voice_Hangup lh gu g" if b: "busy_atcmds g = []"
  proof -
    have g1: "g_mem g1 = []" "busy_atcmds g1 = []" using h(2) b by (simp_all add: adds_def)
    obtain g2 where g2: "atcmd_submit g1 c = Some (0, g2)" "adds g1 g2 [cmd_view c]" using submit_adds [OF g1(1) h(3)] by blast
    then have "adds g g2 [cmd_view c]" using adds_trans [OF h(2) g2(2)] by simp
    then show ?thesis
      by (intro reaches_voicecall [of _ _ 2 "[]"])
        (simp_all add: defs usock_rcv_voicecall_def h(1,4) cancel_atcmd_def g1(2) g2(1) asks_def)
  qed
  obtain c g1 where o: "atcmd_fill ''AT+CFUN=0'' 10 (Some (Cb (Null_cmd_cb, gu))) 0 g = Some (Some c, g1)" "adds g g1 []"
      "\<not> is_wakeup c" "cmd_view c = (''AT+CFUN=0'', Some (Cb (Null_cmd_cb, gu)), 0)"
    using fill_adds [OF assms(1), of "''AT+CFUN=0''" 10 "Some (Null_cmd_cb, gu)" 0] by auto
  have w: "adds g (upd_world (dev_on_update (\<lambda>_. False)) g1) []" using o(2) by (simp add: adds_def upd_world_def)
  then obtain g2 where g2: "atcmd_submit (upd_world (dev_on_update (\<lambda>_. False)) g1) c = Some (0, g2)"
      "adds (upd_world (dev_on_update (\<lambda>_. False)) g1) g2 [cmd_view c]"
    using submit_adds [of "upd_world (dev_on_update (\<lambda>_. False)) g1" c] o(3) by (auto simp: adds_def)
  show "reaches (Phone_Power on) lh gu g"
  proof (cases on)
    case True
    then show ?thesis by (intro reaches_phone [of _ _ 1 "[]"]) (simp_all add: defs usock_rcv_phone_def)
  next
    case False
    have "adds g g2 [cmd_view c]" using adds_trans [OF w g2(2)] by simp
    then show ?thesis using False
      by (intro reaches_phone [of _ _ 2 "[]"]) (simp_all add: defs usock_rcv_phone_def o(1,4) g2(1) asks_def)
  qed
qed

lemma u8s_octets [simp]: "u8s (octets s) = s"
proof -
  have "char_of (unat (of_nat (char_code c) :: u8)) = c" for c by (simp add: char_code_def unat_of_nat)
  then show ?thesis by (simp add: u8s_def octets_def map_idI)
qed

lemma digits_no_nul: "list_all is_digit s \<Longrightarrow> NUL \<notin> set s"
  by (auto simp: list_all_iff is_digit_def char_code_def)

lemma u8s_simps [simp]: "u8s (ws @ vs) = u8s ws @ u8s vs" "u8s (0 # ws) = NUL # u8s ws" "u8s (replicate n 0) = replicate n NUL"
    "u8s [] = []"
proof -
  have z: "char_of (0 :: nat) = NUL" by (simp add: char_of_def)
  show "u8s (ws @ vs) = u8s ws @ u8s vs" "u8s (0 # ws) = NUL # u8s ws" "u8s (replicate n 0) = replicate n NUL" "u8s [] = []"
    by (simp_all add: u8s_def z)
qed

lemma zeroed_simps [simp]: "zeroed (map Some s) = s" "zeroed (a @ b) = zeroed a @ zeroed b" "zeroed (fresh_mem n) = replicate n NUL"
  by (simp_all add: zeroed_def fresh_mem_def comp_def)

lemma octets_length [simp]: "length (octets s) = length s"
  by (simp add: octets_def)

lemma octets_str_octets: "NUL \<notin> set s \<Longrightarrow> octets_str (octets s @ 0 # ws) = Some s"
  by (simp add: octets_str_def c_str_at_def)

lemma u8_at:
  assumes "k < 256"
  shows "mem_at m i (map Some (b8 (of_nat k))) \<Longrightarrow> mem_u8 m i = Some (of_nat k)" "uint (of_nat k :: u8) = int k"
  using assms by (simp_all add: mem_at_readers(1) uint_nat unat_of_nat)

lemma u32_at:
  assumes "k < 256"
  shows "mem_at m i (map Some (bint (int k))) \<Longrightarrow> mem_u32 m i = Some (of_nat k)" "unat (of_nat k :: u32) = k"
proof -
  show "mem_at m i (map Some (bint (int k))) \<Longrightarrow> mem_u32 m i = Some (of_nat k)" using mem_at_readers(3) [of m i "of_nat k"] by (simp add: bint_def)
  show "unat (of_nat k :: u32) = k" using assms by (simp add: unat_of_nat)
qed

lemma memtype_names: "k < length ts0705_memtype_name \<Longrightarrow> length (ts0705_memtype_name ! k) \<le> 4 \<and> NUL \<notin> set (ts0705_memtype_name ! k)"
  unfolding ts0705_memtype_name_def by (auto simp: less_Suc_eq nth_Cons')

lemma cmgl_stats: "k \<le> 4 \<Longrightarrow> length (gsmd_cmgl_stat ! k) \<le> 10 \<and> NUL \<notin> set (gsmd_cmgl_stat ! k)"
  unfolding gsmd_cmgl_stat_def by (auto simp: le_Suc_eq numeral_eq_Suc nth_Cons')

lemma sms_requests:
  assumes "g_mem g = []" "find_user gu g \<noteq> None"
  shows "0 \<le> k \<Longrightarrow> k \<le> 4 \<Longrightarrow> reaches (Sms_List k) lh gu g" "int32 k \<Longrightarrow> reaches (Sms_Read k) lh gu g"
    "i < 256 \<Longrightarrow> d < 256 \<Longrightarrow> reaches (Sms_Delete i d) lh gu g"
    "request_ok (Sms_Set_Storage a b c) \<Longrightarrow> reaches (Sms_Set_Storage a b c) lh gu g"
    "request_ok (Sms_Set_Smsc s) \<Longrightarrow> reaches (Sms_Set_Smsc s) lh gu g"
proof -
  obtain u where u: "find_user gu g = Some u" using assms(2) by blast
  note defs = library_functions request_cmds_def Let_def asks_buffer [OF assms(1)] u usock_rcv_sms_def dec_int_str(1)
    quoted_def rd_def
  have d: "length (dec_int k) \<le> 11" if "int32 k" for k by (rule dec_int_str(2) [OF that])
  show "reaches (Sms_Read k) lh gu g" if "int32 k"
    by (rule reaches_sms [of _ _ 2 "bint k"]) (use d [OF that] that in \<open>simp_all add: defs mem_at_reads\<close>)
  show "reaches (Sms_List k) lh gu g" if "0 \<le> k" "k \<le> 4"
    by (rule reaches_sms [of _ _ 1 "bint k"])
      (use d [of k] that cmgl_stats [of "nat k"] in \<open>auto simp: defs mem_at_reads int32_def nat_le_iff\<close>)
  show "reaches (Sms_Delete i d) lh gu g" if "i < 256" "d < 256"
  proof (rule reaches_sms [of _ _ 5 "b8 (of_nat i) @ b8 (of_nat d)"])
    fix m
    assume "mem_at m 8 (map Some (b8 (of_nat i) @ b8 (of_nat d)))"
    then have "mem_u8 m 8 = Some (of_nat i)" "mem_u8 m 9 = Some (of_nat d)"
      using u8_at(1) that by (simp_all add: mem_at_append)
    then show "asks g (usock_rcv_sms gu m (sizeof_hdr + length (b8 (of_nat i) @ b8 (of_nat d))) g)
        (request_cmds g gu (next_msg_id lh) (Sms_Delete i d))" if "mem_u8 m 2 = Some 5" "mem_u16 m 4 = Some (next_msg_id lh)"
      using that d [of "int i"] d [of "int d"] \<open>i < 256\<close> \<open>d < 256\<close> by (simp add: defs u8_at(2) int32_def)
  qed (use that in \<open>simp_all add: defs\<close>)
  show "reaches (Sms_Set_Storage a b c) lh gu g" if ok: "request_ok (Sms_Set_Storage a b c)"
  proof (rule reaches_sms [of _ _ 7 "bint (int a) @ bint (int b) @ bint (int c)"])
    fix m
    have l: "a < 7" "b < 7" "c < 7" using ok by (simp_all add: request_ok_def ts0705_memtype_name_def)
    assume "mem_at m 8 (map Some (bint (int a) @ bint (int b) @ bint (int c)))"
    then have "mem_u32 m 8 = Some (of_nat a)" "mem_u32 m 12 = Some (of_nat b)" "mem_u32 m 16 = Some (of_nat c)"
      using u32_at(1) l by (simp_all add: mem_at_append)
    then show "asks g (usock_rcv_sms gu m (sizeof_hdr + length (bint (int a) @ bint (int b) @ bint (int c))) g)
        (request_cmds g gu (next_msg_id lh) (Sms_Set_Storage a b c))" if "mem_u8 m 2 = Some 7" "mem_u16 m 4 = Some (next_msg_id lh)"
      using that ok l memtype_names [of a] memtype_names [of b] memtype_names [of c] by (simp add: defs u32_at(2) request_ok_def)
  qed (simp_all add: defs)
  show "reaches (Sms_Set_Smsc s) lh gu g" if ok: "request_ok (Sms_Set_Smsc s)"
  proof -
    let ?a = "\<lparr>addr_type = 129, addr_number = octets s @ 0 # replicate (32 - length s) 0\<rparr>"
    have s: "list_all is_digit s" "length s \<le> 32" using ok by (simp_all add: request_ok_def)
    have a: "lgsm_number2addr zero_addr s 0 = (0, ?a)"
    proof -
      have "s = [] \<or> hd s \<noteq> CHR ''+''" using s(1) by (cases s) (auto simp: is_digit_def char_code_def)
      then show ?thesis using s by (auto simp: lgsm_number2addr_def Let_def zero_addr_def)
    qed
    have n129: "dec_int 129 = ''129''" by code_simp
    have z: "zeroed (addr_mem ?a) = b8 129 @ u8s (addr_number ?a)" by (simp add: addr_mem_def del: map_append u8s_simps)
    show ?thesis
    proof (rule reaches_sms [of _ _ 9 "b8 129 @ u8s (addr_number ?a)"])
      show "snd (snd (request_fn (Sms_Set_Smsc s) True all_sent lh)) = lgsm_gmh 9 9 (next_msg_id lh) (b8 129 @ u8s (addr_number ?a))"
        using s by (simp add: request_fn_def lgsm_sms_set_smsc_def a z request_all)
    next
      fix m
      assume "mem_at m 8 (map Some (b8 129 @ u8s (addr_number ?a)))"
      then have "rd_addr m 8 = Some ?a" using s by (intro rd_addr_mem) (simp_all add: addr_mem_def wf_addr_def)
      moreover have "octets_str (addr_number ?a) = Some s"
        using octets_str_octets [of s] digits_no_nul [OF s(1)] by simp
      ultimately show "asks g (usock_rcv_sms gu m (sizeof_hdr + length (b8 129 @ u8s (addr_number ?a))) g)
          (request_cmds g gu (next_msg_id lh) (Sms_Set_Smsc s))" if "mem_u8 m 2 = Some 9" "mem_u16 m 4 = Some (next_msg_id lh)"
        using that s digits_no_nul [OF s(1)] by (simp add: defs n129)
    qed (use s in \<open>simp_all add: request_fn_def lgsm_sms_set_smsc_def a z request_all\<close>)
  qed
qed

lemma voice_requests:
  assumes "g_mem g = []"
  shows "c \<noteq> NUL \<Longrightarrow> reaches (Voice_Dtmf c) lh gu g" "fits 32 s \<Longrightarrow> reaches (Voice_Out_Init s) lh gu g"
proof -
  note defs = library_functions request_cmds_def Let_def usock_rcv_voicecall_def asks_printf [OF assms]
  show "reaches (Voice_Dtmf c) lh gu g" if c: "c \<noteq> NUL"
  proof (rule reaches_voicecall [of _ _ 4 "b8 1 @ [c]"])
    fix m
    assume "mem_at m 8 (map Some (b8 1 @ [c]))"
    then have "mem_u8 m 8 = Some 1" "mem_char m 9 = Some c"
      using mem_at_reads(2) [of m 9 "[c]"] mem_at_readers(1) [of m 8 1] by (simp_all add: mem_at_append)
    then show "asks g (usock_rcv_voicecall gu m (sizeof_hdr + length (b8 1 @ [c])) g)
        (request_cmds g gu (next_msg_id lh) (Voice_Dtmf c))" if "mem_u8 m 2 = Some 4" "mem_u16 m 4 = Some (next_msg_id lh)"
      using that c by (simp add: defs)
  qed (use c in \<open>simp_all add: defs u_less_def\<close>)
  show "reaches (Voice_Out_Init s) lh gu g" if f: "fits 32 s"
  proof -
    have s: "length s < 32" "NUL \<notin> set s" using f by (simp_all add: fits_def)
    have n: "u8s ((octets (char_array 32 s) @ [0])[32 := 0]) = char_array 32 s @ [NUL]"
      using s(1) by (simp add: list_update_append)
    let ?d = "b8 129 @ char_array 32 s @ [NUL]"
    show ?thesis
    proof (rule reaches_voicecall [of _ _ 1 ?d])
      fix m
      assume "mem_at m 8 (map Some ?d)"
      then have "mem_chars m 9 32 = Some (char_array 32 s)"
        using mem_at_chars [of m 9 "char_array 32 s"] s(1) unfolding map_append mem_at_append by simp
      then show "asks g (usock_rcv_voicecall gu m (sizeof_hdr + length ?d) g)
          (request_cmds g gu (next_msg_id lh) (Voice_Out_Init s))" if "mem_u8 m 2 = Some 1" "mem_u16 m 4 = Some (next_msg_id lh)"
        using that s by (simp add: defs) (simp add: char_array_def asks_printf [OF assms])
    qed (use s n in \<open>simp_all add: defs\<close>)
  qed
qed

lemma pin_requests:
  assumes "g_mem g = []"
  shows "request_ok (Pin typ s t) \<Longrightarrow> reaches (Pin typ s t) lh gu g"
proof -
  assume ok: "request_ok (Pin typ s t)"
  let ?puk = "typ = 2 \<or> typ = 7"
  let ?t = "case t of None \<Rightarrow> [] | Some x \<Rightarrow> if ?puk then x else []"
  have pin_array: "pin_array x = char_array 9 x" for x by (simp add: pin_array_def char_array_def)
  have f: "fits 9 s" "fits 9 ?t" "typ < 16" "t = None \<Longrightarrow> \<not> ?puk" "\<And>x. t = Some x \<Longrightarrow> length x \<le> 8"
    using ok by (auto simp: request_ok_def fits_def split: option.splits)
  let ?d = "bint (int typ) @ char_array 9 s @ char_array 9 ?t"
  have sent: "lgsm_pin typ s t True all_sent lh = lgsm_send all_sent 8 1 ?d lh"
    using f by (cases t) (auto simp: lgsm_pin_def Let_def pin_array fits_def)
  show ?thesis
  proof (rule reaches_pin [of _ _ 1 ?d])
    fix m
    assume "mem_at m 8 (map Some ?d)"
    then have m: "mem_at m 8 (map Some (bint (int typ)))" "mem_at m 12 (map Some (char_array 9 s))"
        "mem_at m 21 (map Some (char_array 9 ?t))"
      using f(1,2) unfolding map_append mem_at_append by (simp_all add: fits_def)
    have r: "mem_i32 m 8 = Some (int typ)" using mem_at_reads(1) [OF m(1)] f(3) by (simp add: int32_def)
    have a: "mem_arr_str m 12 9 = Some s" "mem_arr_str m 21 9 = Some ?t"
      using mem_at_arr_str [OF m(2) [unfolded char_array_def]] mem_at_arr_str [OF m(3) [unfolded char_array_def]] f(1,2)
      by (simp_all add: fits_def)
    show "asks g (usock_rcv_pin gu m (sizeof_hdr + length ?d) g) (request_cmds g gu (next_msg_id lh) (Pin typ s t))"
      if "mem_u8 m 2 = Some 1" "mem_u16 m 4 = Some (next_msg_id lh)" "mem_u16 m 6 = Some (of_nat (length ?d))"
      using that r a f by (cases t) (auto simp: usock_rcv_pin_def request_cmds_def quoted_def fits_def intro!: asks_printf [OF assms])
  qed (use f sent in \<open>simp_all add: request_fn_def send_all fits_def\<close>)
qed

lemma phonebook_requests:
  assumes "g_mem g = []"
  shows "int32 k \<Longrightarrow> reaches (Pb_Read_Entry k) lh gu g" "int32 k \<Longrightarrow> reaches (Pb_Del_Entry k) lh gu g"
    "i < 256 \<Longrightarrow> j < 256 \<Longrightarrow> reaches (Pb_Read_Entries i j) lh gu g" "fits 3 s \<Longrightarrow> reaches (Pb_Set_Storage s) lh gu g"
    "fits 15 t \<Longrightarrow> reaches (Pb_Find_Entry t) lh gu g"
    "request_ok (Pb_Write_Entry i n n' typ t t') \<Longrightarrow> reaches (Pb_Write_Entry i n n' typ t t') lh gu g"
proof -
  note defs = library_functions request_cmds_def Let_def usock_rcv_phonebook_def dec_int_str(1) sprintf_to_def asks_printf [OF assms]
  have d: "length (dec_int k) \<le> 11" if "int32 k" for k by (rule dec_int_str(2) [OF that])
  show "reaches (Pb_Read_Entry k) lh gu g" if "int32 k"
    by (rule reaches_phonebook [of _ _ 2 "bint k"]) (use d [OF that] that in \<open>simp_all add: defs mem_at_reads\<close>)
  show "reaches (Pb_Del_Entry k) lh gu g" if "int32 k"
    by (rule reaches_phonebook [of _ _ 5 "bint k"]) (use d [OF that] that in \<open>simp_all add: defs mem_at_reads\<close>)
  show "reaches (Pb_Read_Entries i j) lh gu g" if "i < 256" "j < 256"
  proof (rule reaches_phonebook [of _ _ 3 "b8 (of_nat i) @ b8 (of_nat j)"])
    fix m
    assume "mem_at m 8 (map Some (b8 (of_nat i) @ b8 (of_nat j)))"
    then have "mem_u8 m 8 = Some (of_nat i)" "mem_u8 m 9 = Some (of_nat j)"
      using u8_at(1) that by (simp_all add: mem_at_append)
    then show "asks g (usock_rcv_phonebook gu m (sizeof_hdr + length (b8 (of_nat i) @ b8 (of_nat j))) g)
        (request_cmds g gu (next_msg_id lh) (Pb_Read_Entries i j))" if "mem_u8 m 2 = Some 3" "mem_u16 m 4 = Some (next_msg_id lh)"
      using that d [of "int i"] d [of "int j"] \<open>i < 256\<close> \<open>j < 256\<close> by (simp add: defs u8_at(2) int32_def)
  qed (use that in \<open>simp_all add: defs\<close>)
  show "reaches (Pb_Set_Storage s) lh gu g" if f: "fits 3 s"
  proof -
    have t: "take 2 s @ replicate (2 - length s) NUL @ [NUL] = s @ NUL # replicate (2 - length s) NUL"
      using f by (simp add: fits_def replicate_append_same)
    show ?thesis
    proof (rule reaches_phonebook [of _ _ 8 "s @ NUL # replicate (2 - length s) NUL"])
      fix m
      assume "mem_at m 8 (map Some (s @ NUL # replicate (2 - length s) NUL))"
      from mem_at_str [OF this] have "mem_str m 8 = Some s" using f by (simp add: fits_def)
      then show "asks g (usock_rcv_phonebook gu m (sizeof_hdr + length (s @ NUL # replicate (2 - length s) NUL)) g)
          (request_cmds g gu (next_msg_id lh) (Pb_Set_Storage s))" if "mem_u8 m 2 = Some 8" "mem_u16 m 4 = Some (next_msg_id lh)"
        using that f by (simp add: defs fits_def quoted_def asks_printf [OF assms])
    qed (use f t in \<open>simp_all add: defs fits_def\<close>)
  qed
  show "reaches (Pb_Find_Entry t) lh gu g" if f: "fits 15 t"
  proof (rule reaches_phonebook [of _ _ 1 "char_array 15 t"])
    fix m
    assume m: "mem_at m 8 (map Some (char_array 15 t))"
    have "mem_arr_str m 8 15 = Some t" using mem_at_arr_str [OF m [unfolded char_array_def]] f by (simp add: fits_def)
    then show "asks g (usock_rcv_phonebook gu m (sizeof_hdr + length (char_array 15 t)) g)
        (request_cmds g gu (next_msg_id lh) (Pb_Find_Entry t))" if "mem_u8 m 2 = Some 1" "mem_u16 m 4 = Some (next_msg_id lh)"
      using that f by (simp add: defs fits_def quoted_def asks_printf [OF assms])
  qed (use f char_array_last [of 14 t] in \<open>simp_all add: defs fits_def\<close>)
  show "reaches (Pb_Write_Entry i n n' typ t t') lh gu g" if ok: "request_ok (Pb_Write_Entry i n n' typ t t')"
  proof -
    have f: "i < 256" "typ < 256" "NUL \<notin> set n" "length n + length n' = 44" "NUL \<notin> set t" "length t + length t' = 14"
      using ok by (simp_all add: request_ok_def)
    obtain n2 where n2: "(n @ NUL # n')[44 := NUL] = n @ NUL # n2" "length n2 = length n'" by (rule nul_last [OF f(4)])
    obtain t2 where t2: "(t @ NUL # t')[14 := NUL] = t @ NUL # t2" "length t2 = length t'" by (rule nul_last [OF f(6)])
    let ?d = "b8 (of_nat i) @ (n @ NUL # n2) @ b8 (of_nat typ) @ (t @ NUL # t2)"
    show ?thesis
    proof (rule reaches_phonebook [of _ _ 4 ?d])
      fix m
      assume "mem_at m 8 (map Some ?d)"
      then have m: "mem_at m 8 (map Some (b8 (of_nat i)))" "mem_at m 9 (map Some (n @ NUL # n2))"
          "mem_at m 54 (map Some (b8 (of_nat typ)))" "mem_at m 55 (map Some (t @ NUL # t2))"
        using f(4) n2(2) unfolding map_append mem_at_append by simp_all
      have a: "mem_arr_str m 9 45 = Some n" "mem_arr_str m 55 15 = Some t"
        using mem_at_arr_nul [OF m(2) f(3)] mem_at_arr_nul [OF m(4) f(5)] f(4,6) n2(2) t2(2) by simp_all
      show "asks g (usock_rcv_phonebook gu m (sizeof_hdr + length ?d) g)
          (request_cmds g gu (next_msg_id lh) (Pb_Write_Entry i n n' typ t t'))" if "mem_u8 m 2 = Some 4" "mem_u16 m 4 = Some (next_msg_id lh)"
        using that a u8_at(1) [OF f(1) m(1)] u8_at(1) [OF f(2) m(3)] f n2(2) t2(2) d [of "int i"] d [of "int typ"]
        by (simp add: defs quoted_def u8_at(2) int32_def)
    qed (use f n2 t2 in \<open>simp_all add: defs\<close>)
  qed
qed

lemma request_reaches:
  assumes "request_ok r" "g_mem g = []" "find_user gu g \<noteq> None" "r = Voice_Hangup \<longrightarrow> busy_atcmds g = []"
  shows "reaches r lh gu g"
  using assms(1,4)
  by (cases r) (simp_all add: request_ok_def network_requests [OF assms(2)] simple_requests [OF assms(2,3)]
    sms_requests [OF assms(2,3)] voice_requests [OF assms(2)] pin_requests [OF assms(2)] phonebook_requests [OF assms(2)])

text \<open>C2: Every request of the library that was sent completely makes the daemon queue the commands that the
  table above gives for it, behind those that are queued, with the text made of its arguments, the callback for
  its answer bound to the client, and the identifier of the message where the code takes it over.
\<close>

theorem requests_reach_modem:
  assumes "request_ok r" "g_mem g = []" "find_user gu g \<noteq> None" "r = Voice_Hangup \<longrightarrow> busy_atcmds g = []"
  shows "\<exists>rc lh' p. request_fn r True all_sent lh = (rc, lh', p) \<and> 0 \<le> rc \<and>
     asks g (usock_rcv_pcmd gu (read_buf p) (length p) g) (request_cmds g gu (next_msg_id lh) r)"
  using request_reaches [OF assms] by (simp add: reaches_def)

text \<open>An entry of the phone book is looked up; the answer goes to the client 1.\<close>

theorem requests_reach_modem_witness:
  "let lh = \<lparr>lh_handler = replicate 11 None, netreg_state = 0, evt_handlers = replicate 17 None, next_msg_id = 5\<rparr>;
       g = ex_daemon [\<lparr>gu_ptr = 1, finished_ucmds = [], gu_write = False, subscriptions = 0, pb_readrg_list = [], pb_find_list = []\<rparr>]
   in \<exists>rc lh' p. lgsm_pb_find_entry (''Ann'' @ replicate 12 NUL) True all_sent (lh :: nat lgsm_handle) = (rc, lh', p) \<and> 0 \<le> rc \<and>
        asks g (usock_rcv_pcmd 1 (read_buf p) (length p) g)
          [(''AT+CPBF='' @ [CHR 0x22] @ ''Ann'' @ [CHR 0x22], Some (Cb (Phonebook_find_cb, 1)), 5)]"
proof -
  let ?lh = "\<lparr>lh_handler = replicate 11 None, netreg_state = 0, evt_handlers = replicate 17 None, next_msg_id = 5\<rparr>"
  let ?g = "ex_daemon [\<lparr>gu_ptr = 1, finished_ucmds = [], gu_write = False, subscriptions = 0, pb_readrg_list = [], pb_find_list = []\<rparr>]"
  have ok: "request_ok (Pb_Find_Entry ''Ann'')" "g_mem ?g = []" "find_user 1 ?g \<noteq> None"
    by (simp_all add: request_ok_def fits_def ex_daemon_def find_user_def)
  show ?thesis
    using requests_reach_modem [OF ok, of ?lh] unfolding Let_def
    by (simp add: request_fn_def request_cmds_def quoted_def char_array_def)
qed

end
