(* ===== verification/Short_Messages.thy ===== *)
theory Short_Messages
  imports Requests Sms_Pdu_Laws
begin

text \<open>
  A short message from the application to the modem: the packing of the text, the request of the library,
  the handler of the daemon, the SUBMIT PDU in the command, and, as a check of the whole, the decoder of
  PDUs and the unpacking of the text at the other end.
\<close>

section \<open>What the library sends\<close>

lemma zeroed_sms_submit:
  assumes "wf_submit s"
  shows "length (zeroed (sms_submit_mem s)) = sizeof_sms_submit"
    and "mem_at m i (map Some (zeroed (sms_submit_mem s))) \<Longrightarrow> rd_sms_submit m i = Some s"
proof -
  let ?a = "b8 (addr_type (sub_addr s)) @ u8s (addr_number (sub_addr s))" and ?p = "sub_payload s"
  have wf: "wf_addr (sub_addr s)" "wf_sms ?p" using assms by (simp_all add: wf_submit_def)
  show "length (zeroed (sms_submit_mem s)) = sizeof_sms_submit"
    using wf by (simp add: zeroed_def sms_submit_mem_def fresh_mem_def)
  have z: "zeroed (addr_mem a) = b8 (addr_type a) @ u8s (addr_number a)" for a by (simp add: addr_mem_def del: map_append)
  have addr: "map Some (zeroed (addr_mem a)) = addr_mem a" for a by (simp add: z addr_mem_def)
  have sms: "map Some (zeroed (sms_mem p)) = sms_mem p" for p
    unfolding sms_mem_def dcs_mem_def zeroed_simps map_append [symmetric] by (simp add: sms_mem_def dcs_mem_def)
  assume "mem_at m i (map Some (zeroed (sms_submit_mem s)))"
  then have "mem_at m i (addr_mem (sub_addr s))" "mem_at m (i + 34) (sms_mem ?p)"
      "mem_at m (i + 236) (map Some (bint (ask_ds s)))"
    using wf unfolding sms_submit_mem_def zeroed_simps map_append addr sms mem_at_append
    by (simp_all add: fresh_mem_def add.commute [of i])
  then show "rd_sms_submit m i = Some s"
    using assms by (simp add: rd_sms_submit_def wf_submit_def rd_addr_mem rd_sms_mem rd_int_at)
qed

lemma octets_digits: "list_all is_digit s \<Longrightarrow> \<forall>c \<in> set (octets s). is_semi c"
proof -
  have "is_semi (of_nat (char_code c))" if "is_digit c" for c
    using that by (auto simp: is_digit_def is_semi_def word_le_nat_alt word_less_nat_alt unat_of_nat)
  then show "list_all is_digit s \<Longrightarrow> \<forall>c \<in> set (octets s). is_semi c" by (auto simp: octets_def list_all_iff)
qed

definition dial_string :: "bool \<Rightarrow> string \<Rightarrow> string" where
  "dial_string intl num = (if intl then CHR ''+'' # num else num)"

definition dial_addr :: "bool \<Rightarrow> string \<Rightarrow> gsmd_addr" where
  "dial_addr intl num = \<lparr>addr_type = (if intl then 145 else 129),
     addr_number = octets num @ 0 # replicate (GSMD_ADDR_MAXLEN - length num) 0\<rparr>"

lemma number2addr_dial:
  assumes "list_all is_digit num" "length num < GSMD_ADDR_MAXLEN"
  shows "lgsm_number2addr zero_addr (dial_string intl num) 1 = (0, dial_addr intl num)"
proof -
  have "wf_addr zero_addr" by (simp add: wf_addr_def zero_addr_def)
  then show ?thesis
    using number2addr_digits [of num zero_addr] assms by (auto simp: dial_string_def dial_addr_def zero_addr_def)
qed

text \<open>A message with a packed text: \<open>data\<close> and \<open>n\<close> are what \<open>packing_7bit_character\<close> left in the structure.\<close>

definition text_message :: "string \<Rightarrow> u8 list \<Rightarrow> nat \<Rightarrow> bool \<Rightarrow> lgsm_sms" where
  "text_message dest data n report =
     \<lparr>ls_addr = dest, alpha = 0, ls_data = data, ls_length = int n, ls_ask_ds = (if report then 1 else 0)\<rparr>"

lemma wf_text_submit:
  assumes "length num < GSMD_ADDR_MAXLEN" "length data = 141"
  shows "wf_submit (submit_of (dial_addr intl num) (text_message dest data n report))"
  using assms by (simp add: wf_submit_def submit_of_def text_message_def wf_addr_def wf_sms_def dial_addr_def int32_def)

lemma sms_send_sent:
  assumes "list_all is_digit num" "length num < GSMD_ADDR_MAXLEN" "length data = 141"
  shows "lgsm_sms_send (text_message (dial_string intl num) data n report) True all_sent lh =
     (0, lh\<lparr>next_msg_id := next_msg_id lh + 1\<rparr>, lgsm_gmh GSMD_MSG_SMS GSMD_SMS_SEND (next_msg_id lh)
       (zeroed (sms_submit_mem (submit_of (dial_addr intl num) (text_message (dial_string intl num) data n report)))))"
proof -
  have "ls_addr (text_message d data n report) = d" for d by (simp add: text_message_def)
  then show ?thesis
    using zeroed_sms_submit(1) [OF wf_text_submit [OF assms(2,3)]] number2addr_dial [OF assms(1,2)]
    by (simp add: lgsm_sms_send_def request_all)
qed

section \<open>What the daemon asks of the modem\<close>

lemma hex_no_nul: "NUL \<notin> set (concat (map hex02 pdu))"
proof -
  have h: "NUL \<noteq> hex_digit n" if "n < 16" for n
    using that by (auto simp: hex_digit_def nth_Cons' less_Suc_eq numeral_eq_Suc)
  have "NUL \<notin> set (hex02 b)" for b :: u8
    using h [of "unat b div 16"] h [of "unat b mod 16"] unsigned_less [of b, where ?'a = nat]
    by (simp add: hex02_def less_mult_imp_div_less)
  then show ?thesis by simp
qed

lemma rcv_sms_send:
  assumes g: "g_mem g = []" "find_user gu g \<noteq> None" "g_flags g AND GSMD_FLAG_SMS_FMT_TEXT = 0"
    and s: "wf_submit s" "sms_pdu_make_smssubmit True s = Some (txt, k)" "sms_pdu_make_smssubmit False s = Some ([], k)"
      "NUL \<notin> set txt" "length txt \<le> 900" "k < 1000"
    and p: "p = lgsm_gmh GSMD_MSG_SMS GSMD_SMS_SEND i (zeroed (sms_submit_mem s))"
  shows "asks g (usock_rcv_pcmd gu (read_buf p) (length p) g)
     [(''AT+CMGS='' @ dec_int (int k - 1) @ [LF] @ txt @ [CHR 0x1A], Some (Cb (Sms_send_cb, gu)), i)]"
proof -
  let ?d = "zeroed (sms_submit_mem s)"
  let ?m = "read_buf (lgsm_gmh GSMD_MSG_SMS GSMD_SMS_SEND i ?d)"
  have d: "length ?d = 240" "length ?d \<le> 1016" using zeroed_sms_submit(1) [OF s(1)] by simp_all
  note r = gmh_read [OF d(2), of GSMD_MSG_SMS GSMD_SMS_SEND i]
  have sub: "rd_sms_submit ?m 8 = Some s" by (rule zeroed_sms_submit(2) [OF s(1) r(6)])
  obtain u where u: "find_user gu g = Some u" using g(2) by blast
  have "length (dec_int (int k - 1)) \<le> 11" using s(6) by (intro dec_int_str(2)) (simp add: int32_def)
  then have "asks g (buf_text (''AT+CMGS='' @ dec_int (int k - 1) @ [] @ [LF] @ txt @ [CHR 0x1A]) (Some (Sms_send_cb, gu)) ?m g)
      [(''AT+CMGS='' @ dec_int (int k - 1) @ [] @ [LF] @ txt @ [CHR 0x1A], Some (Cb (Sms_send_cb, gu)), i)]"
    using s(4,5) dec_int_str(1) by (intro asks_buffer(2) g(1) r(4)) simp_all
  moreover have "usock_rcv_pcmd gu (read_buf p) (length p) g =
      buf_text (''AT+CMGS='' @ dec_int (int k - 1) @ [] @ [LF] @ txt @ [CHR 0x1A]) (Some (Sms_send_cb, gu)) ?m g"
    unfolding p using r d sub u g(3) s(2,3) by (simp add: usock_rcv_pcmd_def handler_table usock_rcv_sms_def sms_text_def)
  ultimately show ?thesis by simp
qed

section \<open>End to end\<close>

lemma bytelen_packed: "length txt \<le> 160 \<Longrightarrow> sms_data_bytelen 0 (of_nat (packed_length txt)) = (7 * length txt + 7) div 8"
proof -
  assume l: "length txt \<le> 160"
  then have u: "unat (of_nat (packed_length txt) :: u8) = packed_length txt" by (simp add: packed_length_def unat_of_nat)
  have "(packed_length txt * 7 + 7) div 8 = (7 * length txt + 7) div 8"
  proof (cases "length txt mod 8 = 7")
    case True
    then have "length txt = 8 * (length txt div 8) + 7" by (metis mult_div_mod_eq)
    then obtain q where "length txt = 8 * q + 7" by blast
    then show ?thesis by (simp add: packed_length_def)
  qed (simp add: packed_length_def mult.commute)
  then show ?thesis using u by (simp add: sms_data_bytelen_def)
qed

text \<open>A command of the queue carries the text \<open>txt\<close> to the number \<open>num\<close>, as its PDU decodes.\<close>

definition carries :: "daemon \<Rightarrow> (int \<times> daemon) option \<Rightarrow> nat \<Rightarrow> u16 \<Rightarrow> gsmd_sms_list \<Rightarrow> bool \<Rightarrow> string \<Rightarrow> u8 list \<Rightarrow> bool" where
  "carries g r gu i m intl num txt \<longleftrightarrow> (\<exists>pdu m'.
     asks g r
       [(''AT+CMGS='' @ dec_int (int (length pdu) - 1) @ [LF] @ concat (map hex02 pdu) @ [CHR 0x1A],
         Some (Cb (Sms_send_cb, gu)), i)] \<and>
     sms_pdu_to_msg m pdu (int (length pdu) - 1) (int (length pdu)) = Some (0, m') \<and>
     addr_type (sl_addr m') = (if intl then 145 else 129) \<and> octets_str (addr_number (sl_addr m')) = Some num \<and>
     unpacking_7bit_character (sl_payload m') = Some (txt @ (if length txt mod 8 = 7 then [0] else [])))"

lemma message_carried:
  assumes t: "txt \<noteq> []" "length txt \<le> 160" "\<forall>c \<in> set txt. c < 128"
    and num: "list_all is_digit num" "length num < GSMD_ADDR_MAXLEN"
    and g: "g_mem g = []" "find_user gu g \<noteq> None" "g_flags g AND GSMD_FLAG_SMS_FMT_TEXT = 0" and m: "wf_sms_list m"
    and pack: "length arr = 141" "packing_7bit_character txt arr = Some (j, n, data)"
    and send: "lgsm_sms_send (text_message (dial_string intl num) data n report) True all_sent lh = (rc, lh', p)"
  shows "rc = 0 \<and> carries g (usock_rcv_pcmd gu (read_buf p) (length p) g) gu (next_msg_id lh) m intl num txt"
proof -
  let ?s = "submit_of (dial_addr intl num) (text_message (dial_string intl num) data n report)"
  let ?j = "(7 * length txt + 7) div 8"
  have p: "j = ?j" "n = packed_length txt" "length data = 141" "packs txt data ?j"
    using packing_7bit_packs [OF t(2) pack(1)] pack(2) by (auto simp: packed_length_def)
  have "1 \<le> length txt" using t(1) by (cases "txt") auto
  then have j: "1 \<le> ?j" "?j \<le> 140" using t(2) by simp_all
  have wf: "wf_submit ?s" by (rule wf_text_submit [OF num(2) p(3)])
  have s: "sms_length (sub_payload ?s) = of_nat n" "coding_scheme (sub_payload ?s) = 0" "has_header (sub_payload ?s) = 0"
    "addr_number (sub_addr ?s) = octets num @ 0 # replicate (32 - length num) 0"
    "addr_type (sub_addr ?s) = (if intl then 145 else 129)" "sms_data (sub_payload ?s) = take 140 data @ replicate 25 0"
    by (simp_all add: submit_of_def text_message_def dial_addr_def)
  have n: "?j = sms_data_bytelen (coding_scheme (sub_payload ?s)) (sms_length (sub_payload ?s))"
    using bytelen_packed [OF t(2)] s(1,2) p(2) by simp
  note ds = octets_digits [OF num(1)]
  have nz: "0 \<notin> set (octets num)" using ds is_semi_sub(2) by blast
  let ?pdu = "smssubmit_octets ?s (octets num)"
  let ?m = "submit_read_back m ?s (octets num) ?j"
  have enc: "sms_pdu_make_smssubmit True ?s = Some (concat (map hex02 ?pdu), length ?pdu)"
    "sms_pdu_make_smssubmit False ?s = Some ([], length ?pdu)"
    using make_smssubmit_eq [OF s(4) nz] num(2) n j(2) s(6) p(3) by simp_all
  have len: "length ?pdu \<le> 200" using num(2) j(2) by (simp add: smssubmit_octets_def n [symmetric])
  have dec: "sms_pdu_to_msg m ?pdu (int (length ?pdu) - 1) (int (length ?pdu)) = Some (0, ?m)"
    using s(2,5) num(2) wf j(2) by (intro decode_submit_octets [OF ds _ _ _ n j(1) _ _ m]) (auto simp: dcs_coding_scheme_def wf_submit_def)
  have u: "unpacking_7bit_character (sl_payload ?m) = Some (txt @ (if length txt mod 8 = 7 then [0] else []))"
  proof (rule unpack_packed [OF t(2,3)])
    have l: "length (sms_data (sl_payload m)) = 165" using wf_sms_listD [OF m] by simp
    have d: "sms_data (sl_payload ?m) = take ?j data @ 0 # drop (?j + 1) (sms_data (sl_payload m))"
      using j(2) s(6) p(3) by (simp add: submit_read_back_def min_def)
    show "packs txt (sms_data (sl_payload ?m)) ?j" using p(3,4) j(2) unfolding d by (simp add: packs_def nth_append)
    show "141 < length (sms_data (sl_payload ?m))" using l p(3) j(2) unfolding d by simp
  qed (simp_all add: submit_read_back_def first_octet_bits s(1,3) flip: p(2))
  have a: "addr_type (sl_addr ?m) = (if intl then 145 else 129)" "octets_str (addr_number (sl_addr ?m)) = Some num"
    using octets_str_octets [OF digits_no_nul [OF num(1)]] s(5) by (simp_all add: submit_read_back_def)
  have r: "rc = 0" "p = lgsm_gmh GSMD_MSG_SMS GSMD_SMS_SEND (next_msg_id lh) (zeroed (sms_submit_mem ?s))"
    using send unfolding sms_send_sent [OF num p(3)] by simp_all
  show ?thesis unfolding carries_def
    using len by (intro conjI exI [of _ ?pdu] exI [of _ ?m] r(1) dec u a rcv_sms_send [OF g wf enc hex_no_nul _ _ r(2)]) simp_all
qed

text \<open>C5: The command that reaches the modem for a text that was packed and sent by the library carries a SUBMIT PDU of
  the announced length, which decodes to the number that was dialled and to a text that unpacks to the original one
  (with a NUL behind it if its length leaves the rest 7 modulo 8).
\<close>

theorem short_message_delivered:
  assumes t: "txt \<noteq> []" "length txt \<le> 160" "\<forall>c \<in> set txt. c < 128"
    and num: "list_all is_digit num" "length num < GSMD_ADDR_MAXLEN"
    and g: "g_mem g = []" "find_user gu g \<noteq> None" "g_flags g AND GSMD_FLAG_SMS_FMT_TEXT = 0" and m: "wf_sms_list m"
    and pack: "length arr = 141" "packing_7bit_character txt arr = Some (j, n, data)"
    and send: "lgsm_sms_send (text_message (dial_string intl num) data n report) True all_sent lh = (rc, lh', p)"
  shows "rc = 0 \<and> (\<exists>pdu m'.
     asks g (usock_rcv_pcmd gu (read_buf p) (length p) g)
       [(''AT+CMGS='' @ dec_int (int (length pdu) - 1) @ [LF] @ concat (map hex02 pdu) @ [CHR 0x1A],
         Some (Cb (Sms_send_cb, gu)), next_msg_id lh)] \<and>
     sms_pdu_to_msg m pdu (int (length pdu) - 1) (int (length pdu)) = Some (0, m') \<and>
     addr_type (sl_addr m') = (if intl then 145 else 129) \<and> octets_str (addr_number (sl_addr m')) = Some num \<and>
     unpacking_7bit_character (sl_payload m') = Some (txt @ (if length txt mod 8 = 7 then [0] else [])))"
  using message_carried [OF assms] by (simp only: carries_def)

text \<open>The text \<open>Hello\<close> to the number \<open>+49170\<close>.\<close>

theorem short_message_delivered_witness:
  "let lh = \<lparr>lh_handler = replicate 11 None, netreg_state = 0, evt_handlers = replicate 17 None, next_msg_id = 5\<rparr> :: nat lgsm_handle;
       g = ex_daemon [\<lparr>gu_ptr = 1, finished_ucmds = [], gu_write = False, subscriptions = 0, pb_readrg_list = [], pb_find_list = []\<rparr>]
   in \<exists>j n data lh' p pdu m'. packing_7bit_character [72, 101, 108, 108, 111] (replicate 141 0) = Some (j, n, data) \<and>
        lgsm_sms_send (text_message ''+49170'' data n False) True all_sent lh = (0, lh', p) \<and>
        asks g (usock_rcv_pcmd 1 (read_buf p) (length p) g)
          [(''AT+CMGS='' @ dec_int (int (length pdu) - 1) @ [LF] @ concat (map hex02 pdu) @ [CHR 0x1A], Some (Cb (Sms_send_cb, 1)), 5)] \<and>
        sms_pdu_to_msg ex_msg pdu (int (length pdu) - 1) (int (length pdu)) = Some (0, m') \<and>
        octets_str (addr_number (sl_addr m')) = Some ''49170'' \<and>
        unpacking_7bit_character (sl_payload m') = Some [72, 101, 108, 108, 111]"
proof -
  let ?lh = "\<lparr>lh_handler = replicate 11 None, netreg_state = 0, evt_handlers = replicate 17 None, next_msg_id = 5\<rparr> :: nat lgsm_handle"
  let ?g = "ex_daemon [\<lparr>gu_ptr = 1, finished_ucmds = [], gu_write = False, subscriptions = 0, pb_readrg_list = [], pb_find_list = []\<rparr>]"
  let ?t = "[72, 101, 108, 108, 111] :: u8 list"
  have t: "?t \<noteq> []" "length ?t \<le> 160" "\<forall>c \<in> set ?t. c < 128" by simp_all
  have num: "list_all is_digit ''49170''" "length ''49170'' < 32" by (simp_all add: is_digit_def char_code_def)
  have g: "g_mem ?g = []" "find_user 1 ?g \<noteq> None" "g_flags ?g AND 2 = 0" by (simp_all add: ex_daemon_def find_user_def)
  have d: "dial_string True ''49170'' = ''+49170''" by (simp add: dial_string_def)
  obtain j n data where p: "packing_7bit_character ?t (replicate 141 0) = Some (j, n, data)"
    using packing_7bit_packs [OF t(2), of "replicate 141 0"] by auto
  obtain rc lh' p where s: "lgsm_sms_send (text_message (dial_string True ''49170'') data n False) True all_sent ?lh = (rc, lh', p)"
    by (metis prod.exhaust)
  note f = short_message_delivered [OF t num g wf_ex_msg length_replicate p s]
  from f obtain pdu m' where
      "asks ?g (usock_rcv_pcmd 1 (read_buf p) (length p) ?g)
        [(''AT+CMGS='' @ dec_int (int (length pdu) - 1) @ [LF] @ concat (map hex02 pdu) @ [CHR 0x1A],
          Some (Cb (Sms_send_cb, 1)), next_msg_id ?lh)]"
      "sms_pdu_to_msg ex_msg pdu (int (length pdu) - 1) (int (length pdu)) = Some (0, m')"
      "octets_str (addr_number (sl_addr m')) = Some ''49170''"
      "unpacking_7bit_character (sl_payload m') = Some (?t @ (if length ?t mod 8 = 7 then [0] else []))" by blast
  moreover have "rc = 0" using f by blast
  ultimately show ?thesis unfolding Let_def using p s [unfolded d]
    by (intro exI [of _ j] exI [of _ n] exI [of _ data] exI [of _ lh'] exI [of _ p] exI [of _ pdu] exI [of _ m'] conjI) simp_all
qed

end
