(* ===== verification/Daemon.thy ===== *)
theory Daemon
  imports Usock
begin

text \<open>
  The daemon as a whole: the parser of modem lines with the callbacks and parsers of the other components,
  the start-up of \<^verbatim>\<open>gsm/src/gsmd/gsmd.c\<close>, and the events of the main loop (\<^verbatim>\<open>select.c\<close>, the timers) as a step
  relation. The state is the daemon's with the low-level parser.
\<close>

section \<open>Composition\<close>

definition daemon_env :: "(gcb, gworld) at_env" where
  "daemon_env = \<lparr>env_call = call_cb, env_unsol = unsolicited_parse, env_cme = (\<lambda>n g. generate_event_from_cme g n),
     env_cms = (\<lambda>n g. generate_event_from_cms g n), env_init = gsmd_initsettings, env_alive = gmsd_alive_start\<rparr>"

definition atcmd_init :: llparser where
  "atcmd_init = llparse_init \<lparr>ll_state = LLPARSE_STATE_IDLE, ll_len = LLPARSE_BUF_SIZE, ll_flags = LGSM_ATCMD_F_EXTENDED,
     ll_cur = 0, ll_buf = replicate LLPARSE_BUF_SIZE NUL\<rparr>"

text \<open>
  The end of \<open>main\<close>, before the loop: \<open>ready\<close> is what the machine plugin or the option \<open>-w\<close> left in
  \<open>interpreter_ready\<close>. The build registers one vendor plugin.
\<close>

definition daemon_start :: "bool \<Rightarrow> daemon \<Rightarrow> daemon option" where
  "daemon_start ready g = do {
     let g = g\<lparr>interpreter_ready := ready\<rparr>;
     let g = snd (gsmd_vendor_plugin_find [V_ticalypso] g);
     let g = unsolicited_init g;
     g \<leftarrow> (if ready then do {
         (_, g) \<leftarrow> gsmd_initsettings g;
         (_, g) \<leftarrow> gmsd_alive_start g;
         Some g
       }
       else Some g);
     Some (upd_world (operators_update gsmd_opname_init) g)
   }"

text \<open>The memory of the daemon before that.\<close>

definition daemon_zero :: "daemon \<Rightarrow> bool" where
  "daemon_zero g \<longleftrightarrow> pending_atcmds g = [] \<and> busy_atcmds g = [] \<and> users (world g) = []"

inductive daemon_step :: "daemon \<times> llparser \<Rightarrow> daemon \<times> llparser \<Rightarrow> bool" where
  Uart_Read: "select_read daemon_env rxs llp (Some g) = (rc, llp', Some g') \<Longrightarrow> daemon_step (g, llp) (g', llp')"
| Uart_Write: "write_ok w g \<Longrightarrow> select_write w cr_ok g = Some (rc, g', out) \<Longrightarrow> daemon_step (g, llp) (g', llp)"
| Connect: "gsmd_usock_cb fd g = Some (rc, g') \<Longrightarrow> daemon_step (g, llp) (g', llp)"
| Client: "gsmd_usock_user_cb rd_ok wr_ok gu rcv rcs g = Some (rc, g', out) \<Longrightarrow> daemon_step (g, llp) (g', llp)"
| Wakeup_Timer: "wakeup_timeout tmr g = Some g' \<Longrightarrow> daemon_step (g, llp) (g', llp)"
| Alive_Timer: "alive_tmr_cb tmr alp g = Some (Inr g') \<Longrightarrow> daemon_step (g, llp) (g', llp)"
| Interval_Timer: "alive_interval_tmr_cb tmr g = Some g' \<Longrightarrow> daemon_step (g, llp) (g', llp)"

inductive daemon_reach :: "daemon \<Rightarrow> daemon \<times> llparser \<Rightarrow> bool" for g0 where
  Start: "daemon_start ready g0 = Some g \<Longrightarrow> daemon_reach g0 (g, atcmd_init)"
| Step: "daemon_reach g0 s \<Longrightarrow> daemon_step s s' \<Longrightarrow> daemon_reach g0 s'"

inductive_cases daemon_stepE: "daemon_step s s'"

section \<open>The interfaces, on the daemon's functions\<close>

lemma env_relates:
  "unsolicited_parse buf n g = Some (rc, g') \<Longrightarrow> daemon_grows g g'"
  "generate_event_from_cme g k = Some (rc, g') \<Longrightarrow> daemon_grows g g'"
  "generate_event_from_cms g k = Some (rc, g') \<Longrightarrow> daemon_grows g g'"
  "gsmd_initsettings g = Some (rc, g') \<Longrightarrow> daemon_grows g g'"
  "gmsd_alive_start g = Some (rc, g') \<Longrightarrow> daemon_grows g g'"
  by (rule gr.keepsD [OF unsolicited_grows] gr.keepsD [OF cme_grows] gr.keepsD [OF cms_grows] gr.keepsD [OF firstcmd_grows(2)]
    gr.keepsD [OF alive_start_grows], assumption)+

lemma growsD: "daemon_grows g g' \<Longrightarrow> queue_grows g g' \<and> g_next g \<le> g_next g' \<and> world_grows (world g) (world g')"
  by (simp add: daemon_grows_def queue_grows_def)

interpretation dm: modem_env daemon_env
  by unfold_locales (auto simp: daemon_env_def dest!: call_cb_relates env_relates growsD)

interpretation dw: world_env daemon_env world_grows
  by unfold_locales (auto simp: daemon_env_def world_grows_same dest!: call_cb_relates env_relates growsD
    intro: world_grows_trans)

lemma ml_parse_keeps: "ml_parse daemon_env arr len g = Some (rc, g') \<Longrightarrow> daemon_keeps g g'"
  using dm.parse_keeps dw.parse_world by (simp add: daemon_keeps_def)

section \<open>The invariant\<close>

text \<open>
  The command queue keeps its invariant (no command is queued twice, and an idle modem gets the next
  command), the clients are different, with addresses that were handed out, a client with queued
  answers has its write event requested, and every queued answer is a packet.
\<close>

definition daemon_ok :: "daemon \<Rightarrow> bool" where
  "daemon_ok g \<longleftrightarrow> queue_ok g \<and> distinct (map gu_ptr (users (world g))) \<and>
     (\<forall>u \<in> set (users (world g)). gu_ptr u < g_next g \<and> user_live u)"

lemma world_growsD:
  assumes "world_grows w v"
  shows "map gu_ptr (users v) = map gu_ptr (users w)" "\<forall>u \<in> set (users w). user_live u \<Longrightarrow> \<forall>u \<in> set (users v). user_live u"
proof -
  have "list_all2 (\<lambda>u v. gu_ptr v = gu_ptr u \<and> (user_live u \<longrightarrow> user_live v)) (users w) (users v)"
    using assms unfolding world_grows_def by (rule list_all2_mono) (simp add: user_grows_def)
  then show "map gu_ptr (users v) = map gu_ptr (users w)"
    and "\<forall>u \<in> set (users w). user_live u \<Longrightarrow> \<forall>u \<in> set (users v). user_live u"
    by (induction rule: list_all2_induct) auto
qed

lemma keeps_daemon_ok:
  assumes "daemon_keeps g g'" "daemon_ok g"
  shows "daemon_ok g'"
proof -
  note k = assms(1) [unfolded daemon_keeps_def]
  note w = world_growsD [of "world g" "world g'"]
  have "gu_ptr ` set (users (world g')) = gu_ptr ` set (users (world g))" using w(1) k by (metis list.set_map)
  moreover have "\<forall>a \<in> gu_ptr ` set (users (world g)). a < g_next g'" using assms(2) k by (auto simp: daemon_ok_def)
  ultimately have "\<forall>u \<in> set (users (world g')). gu_ptr u < g_next g'" by (metis imageI)
  then show ?thesis using assms(2) k w by (simp add: daemon_ok_def)
qed

lemma llparse_string_keeps:
  assumes "\<And>a n s. P s \<Longrightarrow> P (cb a n s)" "\<And>s. P s \<Longrightarrow> P (pcb s)"
  shows "P s \<Longrightarrow> P (snd (snd (llparse_string cb pcb llp buf s)))"
proof (induction buf arbitrary: llp s)
  case (Cons byte buf)
  then show ?case by (simp add: Let_def assms split: prod.split)
qed simp

definition state_keeps :: "daemon \<Rightarrow> daemon option \<Rightarrow> bool" where
  "state_keeps g s \<longleftrightarrow> (\<forall>g'. s = Some g' \<longrightarrow> daemon_keeps g g')"

lemma prompt_keeps: "daemon_keeps g (atcmd_prompt g)"
  using prompt_ok [of g] by (simp add: daemon_keeps_def world_grows_same atcmd_prompt_def atcmd_wake_pending_queue_def)

lemma select_read_keeps: "state_keeps g s \<Longrightarrow> state_keeps g (snd (snd (select_read daemon_env rxs llp s)))"
proof (induction rxs arbitrary: llp s)
  case (Cons rx rxs)
  have "state_keeps g (snd (snd (llparse_string (ml_cb daemon_env) (map_option atcmd_prompt) llp rx s)))"
    by (rule llparse_string_keeps [where P = "state_keeps g", OF _ _ Cons.prems])
      (auto simp: state_keeps_def ml_cb_def dest!: ml_parse_keeps intro: daemon_keeps_trans prompt_keeps split: bind_splits)
  then show ?case using Cons.IH by (auto simp: Let_def split: prod.split)
qed simp

lemma select_write_same:
  "select_write w cr g = Some (rc, g', out) \<Longrightarrow> g_next g' = g_next g \<and> world g' = world g"
  by (auto simp: select_write_def select_write_cmd_def Let_def atcmd_wait_pending_queue_def
    split: if_splits list.splits bind_splits)

lemma timeout_same: "wakeup_timeout t g = Some g' \<Longrightarrow> g_next g' = g_next g \<and> world g' = world g"
  by (auto simp: wakeup_timeout_def Let_def stop_timer_def atcmd_wake_pending_queue_def split: if_splits list.splits bind_splits)

lemma same_world_ok: "queue_ok g' \<Longrightarrow> g_next g' = g_next g \<and> world g' = world g \<Longrightarrow> daemon_ok g \<Longrightarrow> daemon_ok g'"
  by (simp add: daemon_ok_def)

lemma connect_ok:
  assumes "gsmd_usock_cb fd g = Some (rc, g')" "daemon_ok g"
  shows "daemon_ok g'"
proof (cases g rule: g_alloc_cases)
  case (ok ms)
  have q: "queue_ok g'"
    using queue_growsD(1) [OF usock_cb_grows [OF assms(1)]] assms(2) by (simp add: daemon_ok_def)
  have "g_next g' = g_next g + 1" and "users (world g') = \<lparr>gu_ptr = g_next g, finished_ucmds = [], gu_write = False,
      subscriptions = 0xffffffff, pb_readrg_list = [], pb_find_list = []\<rparr> # users (world g)"
    using assms(1) ok by (auto simp: gsmd_usock_cb_def Let_def upd_world_def split: if_splits)
  then show ?thesis using assms(2) q by (force simp: daemon_ok_def user_live_def)
next
  case (fail ms)
  then have "g' = g\<lparr>g_mem := ms\<rparr>" using assms(1) by (simp add: gsmd_usock_cb_def Let_def)
  then show ?thesis using assms(2) by (simp add: daemon_ok_def)
qed

lemma upd_world_ok:
  assumes "daemon_ok g" "distinct (map gu_ptr (users (f (world g))))"
    "\<And>u. u \<in> set (users (f (world g))) \<Longrightarrow> gu_ptr u < g_next g \<and> user_live u"
  shows "daemon_ok (upd_world f g)"
  using assms queue_growsD(1) [of g "upd_world f g"] by (simp add: daemon_ok_def upd_world_def)

lemma upd_user_ok:
  assumes "daemon_ok g" "\<And>u. gu_ptr (h u) = gu_ptr u" "\<And>u. find_user gu g = Some u \<Longrightarrow> user_live (h u)"
  shows "daemon_ok (upd_user gu h g)"
proof -
  have "gu_ptr \<circ> (\<lambda>u. if gu_ptr u = gu then h u else u) = gu_ptr" by (auto simp: assms(2))
  moreover have "find_user gu g = Some u" if "u \<in> set (users (world g))" "gu_ptr u = gu" for u
  proof -
    have "\<exists>pre rest. users (world g) = pre @ u # rest" using that(1) by (rule split_list)
    then show ?thesis using find_user_middle [of g _ u] assms(1) that(2) by (auto simp: daemon_ok_def)
  qed
  ultimately show ?thesis
    unfolding upd_user_def using assms by (intro upd_world_ok) (auto simp: daemon_ok_def)
qed

lemma user_write_ok:
  assumes "user_write gu rcs g = Some (rc, g', out)" "daemon_ok g"
  shows "daemon_ok g'"
proof -
  obtain u r left where u: "find_user gu g = Some u" "write_loop rcs (finished_ucmds u) = Some (r, left, out)"
    and g': "g' = upd_user gu (case r of Some _ \<Rightarrow> finished_ucmds_update (\<lambda>_. left)
        | None \<Rightarrow> (\<lambda>u. u\<lparr>finished_ucmds := left, gu_write := (gu_write u \<and> left \<noteq> [])\<rparr>)) g"
    using assms(1) by (auto simp: user_write_def split: bind_splits option.splits)
  obtain sent where s: "finished_ucmds u = sent @ left" using write_loop_left [OF u(2)] by blast
  have "u \<in> set (users (world g))" using u(1) by (auto simp: find_user_def find_Some_iff)
  then have "user_live u" using assms(2) by (simp add: daemon_ok_def)
  then show ?thesis
    unfolding g' using s u(1)
    by (intro upd_user_ok [OF assms(2)]) (auto simp: user_live_def split: option.split)
qed

lemma client_ok:
  assumes "gsmd_usock_user_cb r w gu rcv rcs g = Some (rc, g', out)" "daemon_ok g"
  shows "daemon_ok g'"
proof -
  consider (rd) "user_read gu rcv g = Some (rc, g')" | (wr) "user_write gu rcs g = Some (rc, g', out)" | "g' = g"
    using assms(1) by (auto simp: gsmd_usock_user_cb_def split: if_splits bind_splits)
  then show ?thesis
  proof cases
    case rd
    then consider "g' = g" | (eof) "g' = del_user gu g" | (msg) c s where "rcv = Inr (c # s)"
      by (auto simp: user_read_def split: sum.splits list.splits)
    then show ?thesis
    proof cases
      case eof
      have "distinct (map gu_ptr (filter P us))" if "distinct (map gu_ptr us)" for P us
        using that by (simp add: distinct_map_filter)
      then show ?thesis unfolding eof del_user_def using assms(2) by (intro upd_world_ok) (auto simp: daemon_ok_def)
    next
      case msg
      then show ?thesis using keeps_daemon_ok [OF user_read_keeps] rd assms(2) by blast
    qed (use assms(2) in simp)
  qed (use assms(2) user_write_ok in auto)
qed

lemma step_daemon_ok:
  assumes "daemon_step (g, llp) (g', llp')" "daemon_ok g"
  shows "daemon_ok g'"
  using assms(1)
proof (cases rule: daemon_step.cases)
  case (Uart_Read rxs rc)
  then have "state_keeps g (Some g')" using select_read_keeps [of g "Some g" rxs llp]
    by (simp add: state_keeps_def qk.R_refl)
  then show ?thesis using keeps_daemon_ok assms(2) by (auto simp: state_keeps_def)
next
  case (Uart_Write w cr rc out)
  then show ?thesis
    using same_world_ok [OF select_write_ok select_write_same] assms(2) by (auto simp: daemon_ok_def)
next
  case Wakeup_Timer
  then show ?thesis using same_world_ok [OF timeout_ok timeout_same] assms(2) by (auto simp: daemon_ok_def)
next
  case Alive_Timer
  then show ?thesis using keeps_daemon_ok [OF grows_keeps [OF alive_tmr_grows]] assms(2) by blast
next
  case Interval_Timer
  then show ?thesis using keeps_daemon_ok [OF grows_keeps [OF interval_grows]] assms(2) by blast
qed (use connect_ok client_ok assms(2) in blast)+

lemma select_read_llparser: "wf_llparser llp \<Longrightarrow> wf_llparser (fst (snd (select_read env rxs llp s)))"
proof (induction rxs arbitrary: llp s)
  case (Cons rx rxs)
  obtain rc l' s' where r: "llparse_string (ml_cb env) (map_option atcmd_prompt) llp rx s = (rc, l', s')"
    by (metis prod_cases3)
  have "wf_llparser l'" by (rule wf_llparser_string [OF Cons.prems r])
  then show ?case using Cons.IH by (simp add: Let_def r)
qed simp

lemma step_llparser:
  assumes "daemon_step (g, llp) (g', llp')" "wf_llparser llp"
  shows "wf_llparser llp'"
  using assms(1)
proof (cases rule: daemon_step.cases)
  case (Uart_Read rxs rc)
  then show ?thesis using select_read_llparser [OF assms(2), of daemon_env rxs "Some g"] by simp
qed (use assms(2) in simp_all)

lemma vendor_find_keeps: "daemon_grows g (snd (gsmd_vendor_plugin_find [V_ticalypso] g))"
  by (simp add: gsmd_vendor_plugin_find_def pl_detect_def Let_def daemon_grows_def upd_world_def world_grows_same
    queue_grows_def queue_ok_def queue_live_def)

lemma unsolicited_init_keeps: "daemon_grows g (unsolicited_init g)"
proof -
  have r: "daemon_grows g (snd (unsolicited_register_array a g))" for a g
    by (simp add: unsolicited_register_array_def Let_def grows_world)
  from grows_trans [OF r r] r show ?thesis by (simp add: unsolicited_init_def Let_def split: option.split)
qed

lemma start_ok:
  assumes "daemon_zero g0" "daemon_start ready g0 = Some g"
  shows "daemon_ok g"
proof -
  have 0: "daemon_ok (g0\<lparr>interpreter_ready := ready\<rparr>)"
    using assms(1) by (simp add: daemon_zero_def daemon_ok_def queue_ok_def queue_live_def)
  let ?g = "unsolicited_init (snd (gsmd_vendor_plugin_find [V_ticalypso] (g0\<lparr>interpreter_ready := ready\<rparr>)))"
  let ?m = "if ready then do {
       (_, g) \<leftarrow> gsmd_initsettings ?g;
       (_, g) \<leftarrow> gmsd_alive_start g;
       Some ((), g)
     }
     else Some ((), ?g)"
  have ok: "daemon_ok ?g"
    using keeps_daemon_ok [OF grows_keeps] vendor_find_keeps unsolicited_init_keeps 0 by blast
  obtain g1 where g1: "?m = Some ((), g1)" "g = upd_world (operators_update gsmd_opname_init) g1"
    using assms(2) by (auto simp: daemon_start_def Let_def split: if_splits bind_splits)
  have "gr.keeps ?g ?m" by (intro gr.keeps_if gr.keeps_bind gr.keeps_same grows)
  then have "daemon_grows ?g g1" using g1(1) by (rule gr.keepsD)
  then have "daemon_ok g1" by (rule keeps_daemon_ok [OF grows_keeps ok])
  moreover have "daemon_grows g1 g" unfolding g1(2) by (rule grows_world) simp
  ultimately show ?thesis using keeps_daemon_ok [OF grows_keeps] by blast
qed

lemma daemon_reach_ok:
  assumes "daemon_zero g0" "daemon_reach g0 (g, llp)"
  shows "daemon_ok g" "wf_llparser llp"
proof -
  have "daemon_ok (fst s) \<and> wf_llparser (snd s)" if "daemon_reach g0 s" for s
    using that
  proof (induction rule: daemon_reach.induct)
    case (Start ready g)
    then show ?case using start_ok [OF assms(1)] by (simp add: wf_llparser_def atcmd_init_def llparse_init_def)
  next
    case (Step s s')
    then show ?case
      using step_daemon_ok [of "fst s" "snd s" "fst s'" "snd s'"] step_llparser [of "fst s" "snd s" "fst s'" "snd s'"] by simp
  qed
  from this [OF assms(2)] show "daemon_ok g" "wf_llparser llp" by simp_all
qed


lemma ex_reach:
  "\<exists>g. daemon_reach (ex_daemon []) (g, atcmd_init) \<and> length (users (world g)) = 1 \<and> length (unsolicit (world g)) = 16 \<and>
     g_mem g = [] \<and> (\<forall>u \<in> set (users (world g)). finished_ucmds u = [] \<and> pb_readrg_list u = [])"
proof -
  obtain g0 where g0: "daemon_start False (ex_daemon []) = Some g0" "g_mem g0 = []" "users (world g0) = []"
      "length (unsolicit (world g0)) = 16"
    by (simp add: daemon_start_def Let_def gsmd_vendor_plugin_find_def unsolicited_init_def unsolicited_register_array_def
      pl_detect_def pl_unsolicit_def ticalypso_unsolicit_def gsm0707_unsolicit_def upd_world_def ex_daemon_def)
  obtain g where g: "gsmd_usock_cb 7 g0 = Some (0, g)" "length (users (world g)) = 1" "length (unsolicit (world g)) = 16"
      "g_mem g = []" "\<forall>u \<in> set (users (world g)). finished_ucmds u = [] \<and> pb_readrg_list u = []"
    using g0(2,3,4) by (simp add: gsmd_usock_cb_def g_alloc_def upd_world_def)
  have "daemon_reach (ex_daemon []) (g, atcmd_init)"
    using daemon_reach.Step [OF daemon_reach.Start [OF g0(1)] Connect [OF g(1)]] .
  then show ?thesis using g by blast
qed


section \<open>Answers are packets\<close>

lemma packet_octets:
  assumes "packet_ok u"
  shows "ucmd_octets u = Some (take (sizeof_hdr + length (u_buf u) mod 65536) (u_hdr u @ u_buf u))"
    "length (u_buf u) < 65536 \<Longrightarrow> ucmd_octets u = Some (u_hdr u @ u_buf u)"
proof -
  have l: "length (u_hdr u) = 8" "mem_u16 (u_hdr u) 6 = Some (of_nat (length (u_buf u)))" using assms by (auto simp: packet_ok_def)
  have n: "unat (of_nat (length (u_buf u)) :: u16) = length (u_buf u) mod 65536" by (simp add: unat_of_nat)
  show "ucmd_octets u = Some (take (sizeof_hdr + length (u_buf u) mod 65536) (u_hdr u @ u_buf u))"
    by (simp add: ucmd_octets_def l n rdn_def)
  then show "length (u_buf u) < 65536 \<Longrightarrow> ucmd_octets u = Some (u_hdr u @ u_buf u)" by (simp add: l(1))
qed

lemma write_loop_total: "list_all packet_ok us \<Longrightarrow> \<exists>r left out. write_loop rcs us = Some (r, left, out)"
proof (induction us arbitrary: rcs)
  case (Cons u us)
  then obtain r left out where "write_loop (tl rcs) us = Some (r, left, out)" by fastforce
  then show ?case using Cons.prems packet_octets(1) by (simp add: Let_def)
qed simp


text \<open>A client that asks for stored entries of the phone book is answered at once.\<close>

lemma ex_reach_answered:
  "\<exists>g u. daemon_reach (ex_daemon []) (g, atcmd_init) \<and> find_user (gu_ptr u) g = Some u \<and> length (finished_ucmds u) = 1"
proof -
  obtain g where r: "daemon_reach (ex_daemon []) (g, atcmd_init)" and g: "g_mem g = []" "length (users (world g)) = 1"
      "\<forall>u \<in> set (users (world g)). finished_ucmds u = [] \<and> pb_readrg_list u = []"
    using ex_reach by blast
  obtain u where u: "users (world g) = [u]" using g(2) by (auto simp: length_Suc_conv)
  obtain m where m: "m \<noteq> []" "length m = 12" and hdr: "mem_u8 (read_buf m) 0 = Some 1" "mem_u8 (read_buf m) 1 = Some 5"
      "mem_u8 (read_buf m) 2 = Some 9" "mem_i32 (read_buf m) 8 = Some 1"
  proof
    let ?m = "map (char_of :: nat \<Rightarrow> char) [1, 5, 9, 0, 0, 0, 4, 0, 1, 0, 0, 0]"
    have b: "read_buf ?m = map Some ?m @ fresh_mem 1012" by (simp add: read_buf_def)
    show "mem_u8 (read_buf ?m) 0 = Some 1" "mem_u8 (read_buf ?m) 1 = Some 5" "mem_u8 (read_buf ?m) 2 = Some 9"
        "mem_i32 (read_buf ?m) 8 = Some 1"
      unfolding b by (simp_all add: mem_u8_def mem_char_def rd_def mem_i32_def mem_u32_def mem_chars_def rdn_def nth_append)
  qed simp_all
  have f: "find_user (gu_ptr u) g' = Some x" if "users (world g') = [x]" "gu_ptr x = gu_ptr u" for g' x
    using that by (simp add: find_user_def)
  obtain p g1 where p: "g_alloc g = (Some p, g1)" "world g1 = world g" using g(1) by (simp add: g_alloc_def)
  have rd: "user_read (gu_ptr u) (Inr m) g = usock_rcv_pcmd (gu_ptr u) (read_buf m) (length m) g"
    using m(1) by (cases m) (simp_all add: user_read_def)
  have "\<exists>rc g' x. user_read (gu_ptr u) (Inr m) g = Some (rc, g') \<and> users (world g') = [x] \<and> gu_ptr x = gu_ptr u \<and>
      length (finished_ucmds x) = length (finished_ucmds u) + 1"
    using hdr u g p f m(2)
    by (simp add: rd usock_rcv_pcmd_def pcmd_type_handlers_def usock_rcv_phonebook_def retrieve_def Let_def
      gsmd_ucmd_fill_def ucmd_alloc_def usock_cmd_enqueue_def upd_user_def upd_world_def to_int32_def)
  then obtain rc g' x where s: "user_read (gu_ptr u) (Inr m) g = Some (rc, g')" "users (world g') = [x]" "gu_ptr x = gu_ptr u"
      "length (finished_ucmds x) = 1"
    using g(3) u by auto
  have "gsmd_usock_user_cb True False (gu_ptr u) (Inr m) [] g = Some (rc, g', [])" by (simp only: gsmd_usock_user_cb_def s(1)) simp
  then have "daemon_reach (ex_daemon []) (g', atcmd_init)" using daemon_reach.Step [OF r Client] by blast
  then show ?thesis using f [OF s(2,3)] s(3,4) by (intro exI [of _ g'] exI [of _ x]) simp
qed


end
