(* ===== verification/Session.thy ===== *)
theory Session
  imports Daemon Requests
begin

text \<open>
  A whole session of the daemon with a client: the text that the library sends, the wake-up of the modem, the
  command, the response of the modem, the answer to the client and what the library returns.
\<close>

section \<open>The idle daemon\<close>

definition idle_daemon :: "nat \<Rightarrow> daemon \<Rightarrow> bool" where
  "idle_daemon gu g \<longleftrightarrow> interpreter_ready g \<and> pending_atcmds g = [] \<and> busy_atcmds g = [] \<and> g_mem g = [] \<and>
     wakeup_timer g = None \<and> length (mlbuf g) = MLPARSE_BUF_SIZE \<and> mlbuf_len g = 0 \<and> \<not> mlunsolicited g \<and>
     (\<exists>u. find_user gu g = Some u \<and> finished_ucmds u = [])"

lemma idle_daemonD:
  assumes "idle_daemon gu g"
  shows "interpreter_ready g" "pending_atcmds g = []" "busy_atcmds g = []" "g_mem g = []" "wakeup_timer g = None"
    "collected g []" "\<not> mlunsolicited g"
  using assms by (simp_all add: idle_daemon_def collected_def)

text \<open>The commands that the daemon makes of a text, and its state with them in the queue.\<close>

definition wakeup_cmd :: "nat \<Rightarrow> gcb gsmd_atcmd" where
  "wakeup_cmd a = \<lparr>at_ptr = a, at_cb = Some Null_Wakeup_Cb, at_resp = None, at_ret = - 255, at_buflen = 2, at_id = 0,
     at_cur = 0, at_buf = '' '' @ [NUL]\<rparr>"

definition text_cmd :: "nat \<Rightarrow> string \<Rightarrow> gcb \<Rightarrow> u16 \<Rightarrow> gcb gsmd_atcmd" where
  "text_cmd a s cb i = \<lparr>at_ptr = a, at_cb = Some (Cb cb), at_resp = None, at_ret = - 255, at_buflen = length s + 1,
     at_id = i, at_cur = 0, at_buf = s @ [NUL]\<rparr>"

lemma cmds_filled: "At_Queue_Laws.filled '' '' 0 (wakeup_cmd a)" "NUL \<notin> set s \<Longrightarrow> At_Queue_Laws.filled s 0 (text_cmd b s cb i)"
  by (simp_all add: At_Queue_Laws.filled_def wakeup_cmd_def text_cmd_def)

definition asked :: "string \<Rightarrow> gcb \<Rightarrow> u16 \<Rightarrow> daemon \<Rightarrow> daemon" where
  "asked s cb i g = (let a = g_next g in
     g\<lparr>g_next := a + 3, wakeup_timer := Some (a + 2), g_timers := g_timers g @ [(a + 2, GSMD_MODEM_WAKEUP_TIMEOUT)],
       uart_write := True, pending_atcmds := [wakeup_cmd (a + 1), text_cmd a s cb i]\<rparr>)"

lemma fill_submit_asked:
  assumes "g_mem g = []" "wakeup_timer g = None" "pending_atcmds g = []"
  shows "fill_submit s (length s + 1) (Some cb) i g = Some (0, asked s cb i g)"
  using assms
  by (simp add: fill_submit_def atcmd_fill_def g_alloc_def atcmd_submit_def atcmd_wakeup_modem_def start_wakeup_timer_def
    atcmd_wake_pending_queue_def asked_def wakeup_cmd_def text_cmd_def Let_def)

lemma unat_u16: "n < 65536 \<Longrightarrow> unat (of_nat n :: u16) = n"
  by (simp add: unat_of_nat)

text \<open>The first step: the daemon reads the message.\<close>

lemma passthrough_read:
  assumes g: "idle_daemon gu g" and s: "length s \<le> 1015" "NUL \<notin> set s"
  shows "gsmd_usock_user_cb True False gu (Inr (lgsm_gmh GSMD_MSG_PASSTHROUGH GSMD_PASSTHROUGH_REQ i (s @ [NUL]))) [] g =
    Some (0, asked s (Usock_cmd_cb, gu) i g, [])"
proof -
  let ?p = "lgsm_gmh GSMD_MSG_PASSTHROUGH GSMD_PASSTHROUGH_REQ i (s @ [NUL])"
  let ?m = "read_buf ?p"
  have l: "length (s @ [NUL]) \<le> 1016" using s(1) by simp
  note r = gmh_read [OF l, of GSMD_MSG_PASSTHROUGH GSMD_PASSTHROUGH_REQ i]
  have str: "mem_str ?m 8 = Some s" by (rule mem_at_str [OF r(6) s(2)])
  have n: "unat (of_nat (length (s @ [NUL])) :: u16) = length s + 1" using s(1) unat_u16 [of "length s + 1"] by simp
  have "?p \<noteq> []" using gmh_length [of GSMD_MSG_PASSTHROUGH GSMD_PASSTHROUGH_REQ i "s @ [NUL]"] by fastforce
  then obtain c q where "?p = c # q" by (cases ?p) auto
  then have "user_read gu (Inr ?p) g = usock_rcv_pcmd gu ?m (length ?p) g" by (simp add: user_read_def)
  also have "\<dots> = usock_rcv_passthrough gu ?m (length ?p) g"
    using r by (simp add: usock_rcv_pcmd_def pcmd_type_handlers_def)
  also have "\<dots> = fill_submit s (length s + 1) (Some (Usock_cmd_cb, gu)) i g"
    by (simp only: usock_rcv_passthrough_def str r n bind.bind_lunit)
  also have "\<dots> = Some (0, asked s (Usock_cmd_cb, gu) i g)"
    by (rule fill_submit_asked) (use idle_daemonD [OF g] in simp_all)
  finally show ?thesis by (simp add: gsmd_usock_user_cb_def)
qed

text \<open>
  The wake-up command is written, the modem does not answer it, its timer gives it up, and the command itself is
  written and executes.
\<close>

definition executing :: "string \<Rightarrow> gcb \<Rightarrow> u16 \<Rightarrow> daemon \<Rightarrow> daemon" where
  "executing s cb i g = (let a = g_next g in
     g\<lparr>g_next := a + 3, g_timers := filter (\<lambda>t. fst t \<noteq> a + 2) (g_timers g), uart_write := False,
       busy_atcmds := [advance (length s + 1) (text_cmd a s cb i)]\<rparr>)"

lemma write_len_filled:
  assumes "At_Queue_Laws.filled s k c" "LF \<notin> set (drop k s)"
  shows "write_len c = length s - k"
proof -
  have "c_strchr (c_str (drop (at_cur c) (at_buf c))) LF = None" using assms(2) by (simp add: filled_str [OF assms(1)] c_strchr_None)
  then show ?thesis using assms(1) by (simp add: write_len_def At_Queue_Laws.filled_def)
qed

lemma command_sent:
  assumes g: "idle_daemon gu g" and s: "s \<noteq> []" "NUL \<notin> set s" "LF \<notin> set s"
  shows "\<exists>g2 g3. select_write 1 True (asked s cb i g) = Some (0, g2, [CHR '' '', CR]) \<and>
     wakeup_timeout (g_next g + 2) g2 = Some g3 \<and>
     select_write (int (length s)) True g3 = Some (0, executing s cb i g, s @ [CR]) \<and>
     write_ok 1 (asked s cb i g) \<and> write_ok (int (length s)) g3"
proof -
  let ?a = "g_next g" and ?g = "asked s cb i g"
  let ?c = "text_cmd ?a s cb i"
  note d = idle_daemonD [OF g]
  have p: "pending_atcmds ?g = [wakeup_cmd (?a + 1), ?c]" "interpreter_ready ?g" "busy_atcmds ?g = []"
    using d by (simp_all add: asked_def Let_def)
  let ?g2 = "atcmd_wait_pending_queue (?g\<lparr>pending_atcmds := [?c], busy_atcmds := busy_atcmds ?g @ [advance 2 (wakeup_cmd (?a + 1))]\<rparr>)"
  have 1: "select_write 1 True ?g = Some (0, ?g2, [CHR '' '', CR])"
    using select_write_rest [OF p(2,1) cmds_filled(1)] by (simp add: numeral_2_eq_2)
  let ?g3 = "atcmd_wake_pending_queue ((stop_timer (?a + 2) ?g2)\<lparr>wakeup_timer := None, busy_atcmds := []\<rparr>)"
  have 2: "wakeup_timeout (?a + 2) ?g2 = Some ?g3"
    by (simp add: wakeup_timeout_def asked_def Let_def d atcmd_wait_pending_queue_def stop_timer_def advance_def wakeup_cmd_def
      rd_def)
  have q: "pending_atcmds ?g3 = [?c]" "interpreter_ready ?g3" "busy_atcmds ?g3 = []"
    using d by (simp_all add: asked_def Let_def atcmd_wake_pending_queue_def atcmd_wait_pending_queue_def stop_timer_def)
  have "atcmd_wait_pending_queue (?g3\<lparr>pending_atcmds := [], busy_atcmds := busy_atcmds ?g3 @ [advance (length s + 1) ?c]\<rparr>) =
      executing s cb i g"
    unfolding q(3) using d
    by (simp add: executing_def asked_def Let_def atcmd_wake_pending_queue_def atcmd_wait_pending_queue_def stop_timer_def)
  then have 3: "select_write (int (length s)) True ?g3 = Some (0, executing s cb i g, s @ [CR])"
    using select_write_rest [OF q(2,1) cmds_filled(2) [OF s(2)]] s by simp
  have "write_ok 1 ?g" using write_len_filled [OF cmds_filled(1)] by (simp add: write_ok_def p(1))
  moreover have "write_ok (int (length s)) ?g3"
    unfolding write_ok_def q(1) using write_len_filled [OF cmds_filled(2) [OF s(2)]] s by simp
  ultimately show ?thesis using 1 2 3 by blast
qed

text \<open>The response arrives, and the callback of the command queues the answer for the client.\<close>

definition response_text :: "string list \<Rightarrow> string" where
  "response_text ts = (if ts = [] then ''OK'' else join_lines [] ts)"

definition response_ok :: "daemon \<Rightarrow> string \<Rightarrow> string list \<Rightarrow> bool" where
  "response_ok g s ts \<longleftrightarrow> \<not> is_ext_char g CHR ''O'' \<and> s \<notin> set (ts @ [''OK'']) \<and> length (join_lines [] ts) < 1023 \<and>
     (\<forall>t \<in> set ts. info_line g t \<and> length t < LLPARSE_BUF_SIZE \<and> hd t \<noteq> CHR ''>'' \<and> CR \<notin> set t \<and> LF \<notin> set t)"

definition pt_answer :: "u16 \<Rightarrow> string \<Rightarrow> gsmd_ucmd" where
  "pt_answer i r = ucmd_of GSMD_MSG_PASSTHROUGH GSMD_PASSTHROUGH_RESP i (map Some (r @ [NUL]))"

lemma mem_put_all: "mem_put (fresh_mem (length s)) 0 s = Some (map Some s)"
  by (simp add: mem_put_def wrn_def fresh_mem_def)

lemma usock_cmd_cb_queues:
  assumes "g_mem g = []" "find_user gu g \<noteq> None" "length r < 1024"
  shows "usock_cmd_cb c gu r g = Some (0, queued gu (pt_answer (at_id c) r) g)"
proof -
  have a: "fst (g_alloc g) \<noteq> None" using assms(1) by (simp add: g_alloc_def)
  have "mem_put (fresh_mem (length r + 1)) 0 (take ((length r + 1) mod 65536) (r @ [NUL])) = Some (map Some (r @ [NUL]))"
    using mem_put_all [of "r @ [NUL]"] assms(3) by simp
  then show ?thesis
    using ucmd_fill_Some [OF a, of "length r + 1" GSMD_MSG_PASSTHROUGH GSMD_PASSTHROUGH_RESP "at_id c"] assms(3)
      enqueue_queued [OF assms(2), of GSMD_MSG_PASSTHROUGH GSMD_PASSTHROUGH_RESP "at_id c" "map Some (r @ [NUL])"]
    by (simp add: usock_cmd_cb_def answer_def filled_def pt_answer_def ucmd_of_def Let_def)
qed

lemma response_answered:
  assumes g: "idle_daemon gu g" "find_user gu g = Some u" and l: "ll_idle l"
    and rx: "concat rxs = concat (map (\<lambda>t. v1_frame (Line t)) (ts @ [''OK'']))" and ts: "response_ok g s ts"
    and s: "NUL \<notin> set s"
  shows "\<exists>l' g5. ll_idle l' \<and> select_read daemon_env rxs l (Some (executing s (Usock_cmd_cb, gu) i g)) = (0, l', Some g5) \<and>
     find_user gu g5 = Some (u\<lparr>finished_ucmds := [pt_answer i (response_text ts)], gu_write := True\<rparr>) \<and>
     interpreter_ready g5 \<and> pending_atcmds g5 = [] \<and> busy_atcmds g5 = [] \<and> g_mem g5 = [] \<and>
     wakeup_timer g5 = None \<and> length (mlbuf g5) = MLPARSE_BUF_SIZE \<and> mlbuf_len g5 = 0 \<and> \<not> mlunsolicited g5"
proof -
  let ?g = "executing s (Usock_cmd_cb, gu) i g" and ?c = "advance (length s + 1) (text_cmd (g_next g) s (Usock_cmd_cb, gu) i)"
  let ?r = "response_text ts" and ?s = "join_lines [] ts"
  note d = idle_daemonD [OF g(1)]
  have u: "finished_ucmds u = []" using g by (simp add: idle_daemon_def)
  have gs: "busy_atcmds ?g = [?c]" "pending_atcmds ?g = []" "g_mem ?g = []" "wakeup_timer ?g = None" "interpreter_ready ?g"
      "ext_chars ?g = ext_chars g" "g_flags ?g = g_flags g" "\<not> mlunsolicited ?g" "mlbuf ?g = mlbuf g" "mlbuf_len ?g = mlbuf_len g"
      "world ?g = world g"
    using d by (simp_all add: executing_def Let_def)
  have cs: "at_cb ?c = Some (Cb (Usock_cmd_cb, gu))" "c_str (at_buf ?c) = s" "at_id ?c = i" "NUL \<in> set (at_buf ?c)"
    using s by (simp_all add: advance_def text_cmd_def)
  have e: "no_echo ?g t" if "t \<in> set (ts @ [''OK''])" for t
    using that ts cs(2,4) by (auto simp: no_echo_def gs(1) response_ok_def)
  have t: "\<forall>t \<in> set ts. resp_line ?g t"
    using ts e by (auto simp: resp_line_def response_ok_def info_line_def is_ext_char_def gs(6,7))
  have len: "length ?s < 1023" "length ?r < 1024" using ts by (simp_all add: response_ok_def response_text_def)
  have col: "collected ?g []" using d(6) by (simp add: collected_def gs(9,10))
  have ext: "\<not> is_ext_char ?g CHR ''O''" using ts by (simp add: response_ok_def is_ext_char_def gs(6))
  have sl: "length ?s < MLPARSE_BUF_SIZE" using len(1) by simp
  obtain l' b where l': "ll_idle l'" and run: "select_read daemon_env rxs l (Some ?g) = (0, l',
     do { (rc, g2) \<leftarrow> env_call daemon_env (Usock_cmd_cb, gu) (?c\<lparr>at_ret := 0, at_resp := Some ?r\<rparr>) ?r
            (busy_update (?c\<lparr>at_ret := 0\<rparr>) (?g\<lparr>mlbuf := b, mlbuf_len := length ?s\<rparr>));
          Some (finish_cmd (?c\<lparr>at_ret := 0\<rparr>) (g2\<lparr>mlbuf_len := 0\<rparr>)) })" and b: "length b = MLPARSE_BUF_SIZE"
    using deliver_response [OF l rx gs(1) cs(1) e col gs(8) ext t sl, of daemon_env] unfolding response_text_def by fastforce
  let ?g1 = "busy_update (?c\<lparr>at_ret := 0\<rparr>) (?g\<lparr>mlbuf := b, mlbuf_len := length ?s\<rparr>)"
  let ?q = "queued gu (pt_answer i ?r) ?g1"
  have g1: "g_mem ?g1 = []" "world ?g1 = world g" using gs by (simp_all add: busy_update_def)
  then have f1: "find_user gu ?g1 = Some u" using g(2) by (simp add: find_user_def)
  have cb: "env_call daemon_env (Usock_cmd_cb, gu) (?c\<lparr>at_ret := 0, at_resp := Some ?r\<rparr>) ?r ?g1 = Some (0, ?q)"
    using usock_cmd_cb_queues [OF g1(1) _ len(2), of gu "?c\<lparr>at_ret := 0, at_resp := Some ?r\<rparr>"] f1 cs(3)
    by (simp add: daemon_env_def call_cb_def)
  let ?g5 = "finish_cmd (?c\<lparr>at_ret := 0\<rparr>) (?q\<lparr>mlbuf_len := 0\<rparr>)"
  have q: "interpreter_ready ?q" "pending_atcmds ?q = []" "busy_atcmds ?q = [?c\<lparr>at_ret := 0\<rparr>]" "g_mem ?q = []"
      "wakeup_timer ?q = None" "mlbuf ?q = b" "\<not> mlunsolicited ?q"
    using gs by (simp_all add: queued_def upd_user_def upd_world_def g_alloc_ok busy_update_def)
  have "find_user gu ?q = map_option (\<lambda>x. x\<lparr>finished_ucmds := finished_ucmds x @ [pt_answer i ?r], gu_write := True\<rparr>) (find_user gu ?g1)"
    unfolding queued_def by (subst find_user_upd) simp_all
  then have f: "find_user gu ?q = Some (u\<lparr>finished_ucmds := [pt_answer i ?r], gu_write := True\<rparr>)" using f1 u by simp
  have "?g5 = ?q\<lparr>mlbuf_len := 0, busy_atcmds := []\<rparr>"
    using q(2,3) by (simp add: finish_cmd_def busy_del_def Let_def)
  then have "find_user gu ?g5 = Some (u\<lparr>finished_ucmds := [pt_answer i ?r], gu_write := True\<rparr>)" "interpreter_ready ?g5"
      "pending_atcmds ?g5 = []" "busy_atcmds ?g5 = []" "g_mem ?g5 = []" "wakeup_timer ?g5 = None" "mlbuf ?g5 = b"
      "mlbuf_len ?g5 = 0" "\<not> mlunsolicited ?g5"
    using q f by (simp_all add: find_user_def)
  then show ?thesis using l' run cb b by (intro exI [of _ l'] exI [of _ ?g5]) simp
qed

section \<open>The answer\<close>

definition answer_octets :: "u16 \<Rightarrow> string \<Rightarrow> mem" where
  "answer_octets i r = hdr_mem \<lparr>version = GSMD_PROTO_VERSION, msg_type = GSMD_MSG_PASSTHROUGH,
     msg_subtype = GSMD_PASSTHROUGH_RESP, hdr_id = i, hdr_len = of_nat (length r + 1)\<rparr> @ map Some (r @ [NUL])"

lemma answer_octets_length [simp]: "length (answer_octets i r) = sizeof_hdr + length r + 1"
  by (simp add: answer_octets_def)

lemma pt_answer_octets:
  assumes "length r < 65535"
  shows "ucmd_octets (pt_answer i r) = Some (answer_octets i r)"
proof -
  let ?h = "\<lparr>version = GSMD_PROTO_VERSION, msg_type = GSMD_MSG_PASSTHROUGH, msg_subtype = GSMD_PASSTHROUGH_RESP, hdr_id = i,
     hdr_len = of_nat (length r + 1)\<rparr>"
  have "mem_at (hdr_mem ?h) 0 (hdr_mem ?h)" by (simp add: mem_at_def)
  then have "rd_hdr (hdr_mem ?h) = Some ?h" by (rule rd_hdr_mem)
  then have "mem_u16 (hdr_mem ?h) 6 = Some (of_nat (length r + 1))" by (auto simp: rd_hdr_def split: bind_splits)
  then show ?thesis
    using unat_u16 [of "length r + 1"] assms
    by (simp add: ucmd_octets_def pt_answer_def ucmd_of_def answer_octets_def rdn_def)
qed

lemma answer_written:
  assumes "find_user gu g = Some (u\<lparr>finished_ucmds := [pt_answer i r], gu_write := True\<rparr>)" "length r < 65535"
  shows "gsmd_usock_user_cb False True gu rcv [int (length (answer_octets i r))] g =
    Some (0, upd_user gu (\<lambda>u. u\<lparr>finished_ucmds := [], gu_write := False\<rparr>) g, answer_octets i r)"
  using assms(1) pt_answer_octets [OF assms(2), of i]
  by (simp add: gsmd_usock_user_cb_def user_write_def Let_def)

lemma answer_layout:
  assumes "mem_at b 0 (answer_octets i r)"
  shows "mem_at b 4 (map Some (b16 i))" "mem_at b 6 (map Some (b16 (of_nat (length r + 1))))" "mem_at b 8 (map Some (r @ [NUL]))"
  using assms unfolding answer_octets_def hdr_mem_def map_append mem_at_append by (simp_all add: fresh_mem_def del: One_nat_def)

lemma answer_understood:
  assumes s: "length s \<le> 1023" and r: "length r < cap" "length r \<le> 1023" "NUL \<notin> set r" and b: "length rbuf = 1032"
  shows "lgsm_passthrough env all_sent s cap ptr [(1, Inr (answer_octets (next_msg_id lh) r))] rbuf (lh, w) =
    Some (Some ptr, (lh\<lparr>next_msg_id := next_msg_id lh + 1\<rparr>, w), Some (r, of_nat (length r + 1)))"
proof -
  let ?lh = "lh\<lparr>next_msg_id := next_msg_id lh + 1\<rparr>" and ?m = "answer_octets (next_msg_id lh) r"
  have sent: "lgsm_passthrough_send all_sent s lh = Some (uint (next_msg_id lh), ?lh,
      lgsm_gmh GSMD_MSG_PASSTHROUGH GSMD_PASSTHROUGH_REQ (next_msg_id lh) (s @ [NUL]))"
    using s by (simp add: lgsm_passthrough_send_def send_all u_less_def)
  let ?b = "?m @ drop (length ?m) rbuf"
  have w: "wrn rbuf 0 ?m = Some ?b" using r(2) b by (simp add: wrn_def)
  have "mem_at ?b 0 ?m" by (simp add: mem_at_def)
  note h = answer_layout [OF this]
  have "mem_u16 ?b 4 = Some (next_msg_id lh)" "mem_u16 ?b 6 = Some (of_nat (length r + 1))" "mem_str ?b 8 = Some r"
    using mem_at_readers(2) [OF h(1)] mem_at_readers(2) [OF h(2)] mem_at_str [OF h(3) r(3)] by blast+
  moreover have "uint (of_nat (length r + 1) :: u16) = int (length r + 1)"
    using unat_u16 [of "length r + 1"] r(2) by (simp only: uint_nat)
  ultimately show ?thesis
    using sent w r(1,2) unat_u16 [of "length r + 1"]
    by (simp add: lgsm_passthrough_def uint_nonnegative)
qed

section \<open>The session\<close>

text \<open>C1: A text that an application passes through to the idle modem is answered: there is a run of the daemon that reads
  it, wakes up the modem, gives the wake-up up when its timer expires, writes the command, takes in the response
  however the reads cut it, and writes the answer; the application gets the text of the response, and the daemon is
  idle again.
\<close>

theorem passthrough_answered:
  assumes g: "idle_daemon gu g" and l: "ll_idle l" and s: "s \<noteq> []" "length s \<le> 1015" "NUL \<notin> set s" "LF \<notin> set s"
    and send: "lgsm_passthrough_send all_sent s lh = Some (ident, lh', p)"
    and rx: "concat rxs = concat (map (\<lambda>t. v1_frame (Line t)) (ts @ [''OK'']))" and ts: "response_ok g s ts"
    and app: "length (response_text ts) < cap" "length rbuf = 1032"
  shows "\<exists>g1 g2 g3 g4 g5 g6 l' tmr m.
     gsmd_usock_user_cb True False gu (Inr p) [] g = Some (0, g1, []) \<and>
     select_write 1 True g1 = Some (0, g2, [CHR '' '', CR]) \<and>
     wakeup_timeout tmr g2 = Some g3 \<and>
     select_write (int (length s)) True g3 = Some (0, g4, s @ [CR]) \<and>
     select_read daemon_env rxs l (Some g4) = (0, l', Some g5) \<and>
     gsmd_usock_user_cb False True gu rcv [int (length m)] g5 = Some (0, g6, m) \<and>
     lgsm_passthrough env all_sent s cap ptr [(1, Inr m)] rbuf (lh, w) =
       Some (Some ptr, (lh', w), Some (response_text ts, of_nat (length (response_text ts) + 1))) \<and>
     ll_idle l' \<and> idle_daemon gu g6 \<and> daemon_step\<^sup>*\<^sup>* (g, l) (g6, l')"
proof -
  let ?i = "next_msg_id lh" and ?r = "response_text ts"
  have p: "p = lgsm_gmh GSMD_MSG_PASSTHROUGH GSMD_PASSTHROUGH_REQ ?i (s @ [NUL])" "lh' = lh\<lparr>next_msg_id := ?i + 1\<rparr>"
    using send s(2) by (simp_all add: lgsm_passthrough_send_def send_all u_less_def)
  have r: "length ?r \<le> 1023" "NUL \<notin> set ?r"
    using ts join_lines_props(1) [of ts "[]"] by (auto simp: response_ok_def response_text_def info_line_def)
  obtain u where u: "find_user gu g = Some u" using g by (auto simp: idle_daemon_def)
  let ?m = "answer_octets ?i ?r"
  have 1: "gsmd_usock_user_cb True False gu (Inr p) [] g = Some (0, asked s (Usock_cmd_cb, gu) ?i g, [])"
    unfolding p by (rule passthrough_read [OF g s(2,3)])
  obtain g2 g3 where 2: "select_write 1 True (asked s (Usock_cmd_cb, gu) ?i g) = Some (0, g2, [CHR '' '', CR])"
      "wakeup_timeout (g_next g + 2) g2 = Some g3"
      "select_write (int (length s)) True g3 = Some (0, executing s (Usock_cmd_cb, gu) ?i g, s @ [CR])"
      "write_ok 1 (asked s (Usock_cmd_cb, gu) ?i g)" "write_ok (int (length s)) g3"
    using command_sent [OF g s(1,3,4)] by blast
  obtain l' g5 where 3: "ll_idle l'" "select_read daemon_env rxs l (Some (executing s (Usock_cmd_cb, gu) ?i g)) = (0, l', Some g5)"
      "find_user gu g5 = Some (u\<lparr>finished_ucmds := [pt_answer ?i ?r], gu_write := True\<rparr>)"
      "interpreter_ready g5" "pending_atcmds g5 = []" "busy_atcmds g5 = []" "g_mem g5 = []" "wakeup_timer g5 = None"
      "length (mlbuf g5) = MLPARSE_BUF_SIZE" "mlbuf_len g5 = 0" "\<not> mlunsolicited g5"
    using response_answered [OF g u l rx ts s(3)] by blast
  let ?f = "\<lambda>u. u\<lparr>finished_ucmds := [], gu_write := False\<rparr>"
  let ?g6 = "upd_user gu ?f g5"
  have 4: "gsmd_usock_user_cb False True gu rcv [int (length ?m)] g5 = Some (0, ?g6, ?m)"
    by (rule answer_written [OF 3(3)]) (use r(1) in simp)
  have "find_user gu ?g6 = Some (?f (u\<lparr>finished_ucmds := [pt_answer ?i ?r], gu_write := True\<rparr>))"
    by (subst find_user_upd) (simp_all add: 3(3))
  then have idle: "idle_daemon gu ?g6" using 3(4-11) by (simp add: idle_daemon_def upd_user_def upd_world_def)
  have 5: "lgsm_passthrough env all_sent s cap ptr [(1, Inr ?m)] rbuf (lh, w) = Some (Some ptr, (lh', w), Some (?r, of_nat (length ?r + 1)))"
    unfolding p(2) by (rule answer_understood) (use s(2) app r in simp_all)
  note steps = Client [OF 1] Uart_Write [OF 2(4,1)] Wakeup_Timer [OF 2(2)] Uart_Write [OF 2(5,3)] Uart_Read [OF 3(2)] Client [OF 4]
  have "daemon_step\<^sup>*\<^sup>* (g, l) (?g6, l')"
    by (rule rtranclp.rtrancl_into_rtrancl [OF rtranclp.rtrancl_into_rtrancl [OF rtranclp.rtrancl_into_rtrancl
      [OF rtranclp.rtrancl_into_rtrancl [OF rtranclp.rtrancl_into_rtrancl [OF r_into_rtranclp [of daemon_step]]]]]])
     (rule steps)+
  then show ?thesis using 1 2 3(1,2) 4 5 idle by blast
qed

lemma ll_idle_init: "ll_idle atcmd_init"
  by (simp add: ll_idle_def atcmd_init_def llparse_init_def)

definition ex_user_daemon :: daemon where
  "ex_user_daemon = (ex_daemon [\<lparr>gu_ptr = 1, finished_ucmds = [], gu_write = False, subscriptions = 0, pb_readrg_list = [],
     pb_find_list = []\<rparr>])\<lparr>wakeup_timer := None\<rparr>"

definition ex_handle :: "nat lgsm_handle" where
  "ex_handle = \<lparr>lh_handler = replicate 11 None, netreg_state = 0, evt_handlers = replicate 17 None, next_msg_id = 5\<rparr>"

definition ex_lib :: "(nat, unit) lgsm_env" where
  "ex_lib = \<lparr>msg_fn = \<lambda>h m lw. Some (0, lw), evt_fn = \<lambda>h s m lw. Some (0, lw)\<rparr>"

lemma ex_user_idle: "idle_daemon 1 ex_user_daemon"
  by (simp add: idle_daemon_def ex_user_daemon_def ex_daemon_def find_user_def)

text \<open>The name of the manufacturer is asked for; the answer comes in two reads.\<close>

theorem passthrough_answered_witness:
  "\<exists>g6 l' m lh'. daemon_step\<^sup>*\<^sup>* (ex_user_daemon, atcmd_init) (g6, l') \<and> idle_daemon 1 g6 \<and>
     lgsm_passthrough ex_lib all_sent ''AT+CGMI'' 100 4711 [(1, Inr m)] (fresh_mem 1032) (ex_handle, ()) =
       Some (Some 4711, (lh', ()), Some (''Siemens'', 8))"
proof -
  let ?s = "''AT+CGMI''" and ?ts = "[''Siemens'']"
  let ?rx = "[[CR, LF] @ ''Siem'', ''ens'' @ [CR, LF, CR, LF] @ ''OK'' @ [CR, LF]]"
  have rx: "concat ?rx = concat (map (\<lambda>t. v1_frame (Line t)) (?ts @ [''OK'']))" by simp
  have x: "is_ext_char ex_user_daemon c \<longleftrightarrow> c = CHR ''%'' \<or> c = NUL" for c
    by (auto simp: is_ext_char_def ex_user_daemon_def ex_daemon_def)
  have f: "g_flags ex_user_daemon = 0" by (simp add: ex_user_daemon_def ex_daemon_def)
  have ts: "response_ok ex_user_daemon ?s ?ts" by (simp add: response_ok_def info_line_def x f)
  have r: "response_text ?ts = ''Siemens''" by (simp add: response_text_def)
  obtain ident lh' p where send: "lgsm_passthrough_send all_sent ?s ex_handle = Some (ident, lh', p)"
    by (simp add: lgsm_passthrough_send_def send_all)
  have s: "?s \<noteq> []" "length ?s \<le> 1015" "NUL \<notin> set ?s" "LF \<notin> set ?s" by simp_all
  have app: "length (response_text ?ts) < 100" "length (fresh_mem 1032) = 1032" by (simp_all add: r)
  have n: "(of_nat (length ''Siemens'' + 1) :: u16) = 8" by simp
  from passthrough_answered [OF ex_user_idle ll_idle_init s send rx ts app, of _ ex_lib 4711 "()", unfolded r n]
  show ?thesis by blast
qed

end
