(* ===== verification/Nmea.thy ===== *)
theory Nmea
  imports Scanf
begin

text \<open>
  The reader of NMEA sentences of the GPS tests (gta02-dm2/src/nmea.c). A sentence is a line
  \<open>$GPGSV,3,1,11,\<dots>*74\<close>; the reader cuts it in place, by writing a NUL over every comma and star, and
  copies the fields with \<open>strncpy\<close> into the arrays of a structure, which need not be terminated. The
  arrays of the satellites in \<open>struct nmea_gsv\<close> are written and read across their bounds; they are
  modelled as the octets of the structure from \<open>sate\<close> on, so that what leaves the structure is \<open>None\<close>.
\<close>

section \<open>The structures\<close>

record nmea_gga =
  gga_sentence :: string
  gga_time :: string
  gga_latitude :: string
  gga_la :: string
  gga_longitude :: string
  gga_lo :: string
  gga_fix_quality :: string
  gga_nos :: string
  gga_hdop :: string
  gga_alme :: string
  gga_al :: string
  gga_hog :: string
  gga_ho :: string
  gga_tis :: string
  gga_DGPS :: string
  gga_checksum :: string

text \<open>\<open>gsv_tail\<close> holds \<open>sate[4][4][4]\<close>, \<open>checksum[4]\<close> and the four octets of \<open>n\<close>.\<close>

record nmea_gsv =
  gsv_sentence :: string
  gsv_nose :: string
  gsv_sn :: string
  gsv_nosa :: string
  gsv_tail :: string

record nmea_gsa =
  gsa_sentence :: string
  gsa_AM :: string
  gsa_mode :: string
  gsa_id :: "string list"
  gsa_PDOP :: string
  gsa_HDOP :: string
  gsa_VDOP :: string
  gsa_checksum :: string
  gsa_n :: int

record nmea_lor =
  lor_nIgr :: int
  lor_rid :: string
  lor_igr :: string

section \<open>Cutting a sentence into fields\<close>

definition nmea_delim :: "char \<Rightarrow> bool" where
  "nmea_delim c \<longleftrightarrow> c = CHR '','' \<or> c = CHR ''*''"

text \<open>The inner loop: the end of the field that starts at \<open>p\<close>, and whether it is the last one.\<close>

function field_end :: "string \<Rightarrow> nat \<Rightarrow> (nat \<times> bool) option" where
  "field_end s p =
     (case rd s p of
        None \<Rightarrow> None
      | Some c \<Rightarrow>
          if nmea_delim c then Some (p, False)
          else if c = NUL then Some (p, True)
          else field_end s (Suc p))"
  by pat_completeness auto

termination
  by (relation "measure (\<lambda>(s, p). length s - p)") (auto simp: rd_eq_Some)

declare field_end.simps [simp del]

lemma field_end_bounds: "field_end s p = Some (q, d) \<Longrightarrow> p \<le> q \<and> q < length s"
proof (induction s p rule: field_end.induct)
  case (1 s p)
  show ?case
  proof (cases "rd s p")
    case None
    then show ?thesis using "1.prems" by (subst (asm) field_end.simps) simp
  next
    case (Some c)
    have "p < length s" using Some by (simp add: rd_eq_Some)
    then show ?thesis using "1.IH" [OF Some] "1.prems" Some
      by (subst (asm) field_end.simps) (auto split: if_splits)
  qed
qed

text \<open>
  The outer loop. The body of the \<open>switch\<close> gets the field and the character at its end, which the
  loop has overwritten already.
\<close>

function nmea_loop :: "(string \<Rightarrow> char \<Rightarrow> 's \<Rightarrow> 's option) \<Rightarrow> string \<Rightarrow> nat \<Rightarrow> 's \<Rightarrow> (string \<times> 's) option" where
  "nmea_loop body s p st =
     (case field_end s p of
        None \<Rightarrow> None
      | Some (q, fin) \<Rightarrow>
          let s' = s[q := NUL]
          in case body (c_str (drop p s')) (s' ! q) st of
               None \<Rightarrow> None
             | Some st' \<Rightarrow> if fin then Some (s', st') else nmea_loop body s' (Suc q) st')"
  by pat_completeness auto

termination
proof (relation "measure (\<lambda>(body, s, p, st). length s - p)", goal_cases)
  case (2 body s p st q' q fin)
  then show ?case using field_end_bounds [of s p q fin] by auto
qed simp

declare nmea_loop.simps [simp del]

text \<open>\<open>strncpy (dst, s, sizeof (dst))\<close>.\<close>

definition strncpy_all :: "nat \<Rightarrow> string \<Rightarrow> string" where
  "strncpy_all n s = take n s @ replicate (n - length s) NUL"

lemma length_strncpy_all [simp]: "length (strncpy_all n s) = n"
  by (simp add: strncpy_all_def)

section \<open>The sentences\<close>

text \<open>\<open>GPGGA\<close>: field number \<open>i\<close> goes to the array number \<open>i\<close>; further fields are ignored.\<close>

definition gga_field :: "string \<Rightarrow> char \<Rightarrow> nat \<times> nmea_gga \<Rightarrow> (nat \<times> nmea_gga) option" where
  "gga_field f c = (\<lambda>(i, g). Some (
     if i = 0 then (Suc i, g\<lparr>gga_sentence := strncpy_all 8 f\<rparr>)
     else if i = 1 then (Suc i, g\<lparr>gga_time := strncpy_all 16 f\<rparr>)
     else if i = 2 then (Suc i, g\<lparr>gga_latitude := strncpy_all 16 f\<rparr>)
     else if i = 3 then (Suc i, g\<lparr>gga_la := strncpy_all 4 f\<rparr>)
     else if i = 4 then (Suc i, g\<lparr>gga_longitude := strncpy_all 16 f\<rparr>)
     else if i = 5 then (Suc i, g\<lparr>gga_lo := strncpy_all 4 f\<rparr>)
     else if i = 6 then (Suc i, g\<lparr>gga_fix_quality := strncpy_all 4 f\<rparr>)
     else if i = 7 then (Suc i, g\<lparr>gga_nos := strncpy_all 4 f\<rparr>)
     else if i = 8 then (Suc i, g\<lparr>gga_hdop := strncpy_all 8 f\<rparr>)
     else if i = 9 then (Suc i, g\<lparr>gga_alme := strncpy_all 8 f\<rparr>)
     else if i = 10 then (Suc i, g\<lparr>gga_al := strncpy_all 4 f\<rparr>)
     else if i = 11 then (Suc i, g\<lparr>gga_hog := strncpy_all 8 f\<rparr>)
     else if i = 12 then (Suc i, g\<lparr>gga_ho := strncpy_all 4 f\<rparr>)
     else if i = 13 then (Suc i, g\<lparr>gga_tis := strncpy_all 16 f\<rparr>)
     else if i = 14 then (Suc i, g\<lparr>gga_DGPS := strncpy_all 16 f\<rparr>)
     else if i = 15 then (Suc i, g\<lparr>gga_checksum := strncpy_all 4 f\<rparr>)
     else (i, g)))"

definition GPGGA :: "string \<Rightarrow> nmea_gga \<Rightarrow> (int \<times> string \<times> nmea_gga) option" where
  "GPGGA str g = do { (s, i, g) \<leftarrow> nmea_loop gga_field str 0 (0, g); Some (0, s, g) }"

text \<open>
  \<open>GPGSV\<close>. The locals of the function, its structure and the table \<open>table_prn_sn\<close> of 32 numbers that
  all calls share. \<open>sate[j][k]\<close> starts at the octet \<open>16 j + 4 k\<close> of the tail.
\<close>

record gsv_state =
  gv_i :: nat
  gv_j :: nat
  gv_k :: nat
  gv_chk :: bool
  gv_gsv :: nmea_gsv
  gv_table :: "int list"

definition sate_atoi :: "string \<Rightarrow> nat \<Rightarrow> nat \<Rightarrow> int option" where
  "sate_atoi t j k = map_option c_atoi (c_str_at (drop (16 * j + 4 * k) t))"

text \<open>The assignment \<open>gsv->n = j\<close>, in little endian octets.\<close>

definition set_gsv_n :: "string \<Rightarrow> nat \<Rightarrow> string option" where
  "set_gsv_n t j = wrn t 68 [char_of (j mod 256), char_of (j div 256 mod 256), NUL, NUL]"

definition gsv_finish :: "gsv_state \<Rightarrow> gsv_state option" where
  "gsv_finish v =
     (if gv_chk v
      then do {
        t \<leftarrow> set_gsv_n (gsv_tail (gv_gsv v)) (gv_j v);
        Some (v\<lparr>gv_gsv := (gv_gsv v)\<lparr>gsv_tail := t\<rparr>, gv_i := 5\<rparr>) }
      else Some v)"

definition gsv_sate :: "string \<Rightarrow> char \<Rightarrow> gsv_state \<Rightarrow> gsv_state option" where
  "gsv_sate f c v = do {
     t \<leftarrow> wrn (gsv_tail (gv_gsv v)) (16 * gv_j v + 4 * gv_k v) (strncpy_all 4 f);
     let v = v\<lparr>gv_gsv := (gv_gsv v)\<lparr>gsv_tail := t\<rparr>, gv_k := Suc (gv_k v)\<rparr>;
     if 4 \<le> gv_k v then do {
       prn \<leftarrow> sate_atoi t (gv_j v) 0;
       el \<leftarrow> sate_atoi t (gv_j v) 1;
       az \<leftarrow> sate_atoi t (gv_j v) 2;
       SN0 \<leftarrow> sate_atoi t (gv_j v) 3;
       if prn < 1 then Some v
       else if prn > 32 then Some v
       else if SN0 \<ge> 3120 then Some v
       else do {
         tab \<leftarrow> wr (gv_table v) (nat prn) SN0;
         gsv_finish (v\<lparr>gv_table := tab, gv_k := 0, gv_j := Suc (gv_j v)\<rparr>) } }
     else gsv_finish v }"

definition gsv_field :: "string \<Rightarrow> char \<Rightarrow> gsv_state \<Rightarrow> gsv_state option" where
  "gsv_field f c v =
     (let v = (if c = CHR ''*'' then v\<lparr>gv_chk := True\<rparr> else v); i = gv_i v; g = gv_gsv v in
      if i = 0 then Some (v\<lparr>gv_i := Suc i, gv_gsv := g\<lparr>gsv_sentence := strncpy_all 8 f\<rparr>\<rparr>)
      else if i = 1 then Some (v\<lparr>gv_i := Suc i, gv_gsv := g\<lparr>gsv_nose := strncpy_all 4 f\<rparr>\<rparr>)
      else if i = 2 then Some (v\<lparr>gv_i := Suc i, gv_gsv := g\<lparr>gsv_sn := strncpy_all 4 f\<rparr>\<rparr>)
      else if i = 3 then Some (v\<lparr>gv_i := Suc i, gv_gsv := g\<lparr>gsv_nosa := strncpy_all 4 f\<rparr>\<rparr>)
      else if i = 5 then do {
        t \<leftarrow> wrn (gsv_tail g) 64 (strncpy_all 4 f);
        Some (v\<lparr>gv_i := Suc i, gv_gsv := g\<lparr>gsv_tail := t\<rparr>\<rparr>) }
      else if i = 4 then gsv_sate f c v
      else Some v)"

definition GPGSV :: "string \<Rightarrow> nmea_gsv \<Rightarrow> int list \<Rightarrow> (int \<times> string \<times> nmea_gsv \<times> int list) option" where
  "GPGSV str g tab = do {
     (s, v) \<leftarrow> nmea_loop gsv_field str 0
       \<lparr>gv_i = 0, gv_j = 0, gv_k = 0, gv_chk = False, gv_gsv = g, gv_table = tab\<rparr>;
     Some (0, s, gv_gsv v, gv_table v) }"

text \<open>\<open>GPGSA\<close>: twelve identifiers, then the dilutions of precision; and the count of the identifiers.\<close>

definition gsa_field :: "string \<Rightarrow> char \<Rightarrow> nat \<times> nat \<times> nmea_gsa \<Rightarrow> (nat \<times> nat \<times> nmea_gsa) option" where
  "gsa_field f c = (\<lambda>(i, j, g).
     if i = 0 then Some (Suc i, j, g\<lparr>gsa_sentence := strncpy_all 8 f\<rparr>)
     else if i = 1 then Some (Suc i, j, g\<lparr>gsa_AM := strncpy_all 4 f\<rparr>)
     else if i = 2 then Some (Suc i, j, g\<lparr>gsa_mode := strncpy_all 4 f\<rparr>)
     else if i = 4 then Some (Suc i, j, g\<lparr>gsa_PDOP := strncpy_all 8 f\<rparr>)
     else if i = 5 then Some (Suc i, j, g\<lparr>gsa_HDOP := strncpy_all 8 f\<rparr>)
     else if i = 6 then Some (Suc i, j, g\<lparr>gsa_VDOP := strncpy_all 8 f\<rparr>)
     else if i = 7 then Some (Suc i, j, g\<lparr>gsa_checksum := strncpy_all 4 f\<rparr>)
     else if i = 3 then
       (if j < 12 then do { ids \<leftarrow> wr (gsa_id g) j (strncpy_all 4 f); Some (i, Suc j, g\<lparr>gsa_id := ids\<rparr>) }
        else Some (Suc i, j, g))
     else Some (i, j, g))"

text \<open>\<open>strlen\<close> of an identifier is not zero exactly when its first octet is not.\<close>

definition GPGSA :: "string \<Rightarrow> nmea_gsa \<Rightarrow> (int \<times> string \<times> nmea_gsa) option" where
  "GPGSA str g = do {
     (s, i, j, g) \<leftarrow> nmea_loop gsa_field str 0 (0, 0, g);
     Some (0, s, g\<lparr>gsa_n := int (length (filter (\<lambda>d. d \<noteq> [] \<and> hd d \<noteq> NUL) (take 12 (gsa_id g))))\<rparr>) }"

text \<open>\<open>PGLOR_FIX\<close> prints its third field if it is a number; the model keeps the text given to \<open>sscanf\<close>.\<close>

definition fix_field :: "string \<Rightarrow> char \<Rightarrow> nat \<times> string option \<Rightarrow> (nat \<times> string option) option" where
  "fix_field f c = (\<lambda>(i, r). Some (Suc i, if i = 2 then Some f else r))"

definition PGLOR_FIX :: "string \<Rightarrow> nmea_lor \<Rightarrow> (int \<times> string \<times> string option) option" where
  "PGLOR_FIX str lor = do { (s, i, r) \<leftarrow> nmea_loop fix_field str 0 (0, None); Some (0, s, r) }"

text \<open>\<open>PGLOR_IGR\<close>: commas become blanks and equals signs in turn, dots become \<open>x\<close>.\<close>

fun igr_text :: "char \<Rightarrow> string \<Rightarrow> string" where
  "igr_text ch [] = []"
| "igr_text ch (c # s) =
     (if c = CHR '','' then ch # igr_text (if ch = CHR '' '' then CHR ''='' else CHR '' '') s
      else if c = CHR ''.'' then CHR ''x'' # igr_text ch s
      else c # igr_text ch s)"

definition cut_star :: "string \<Rightarrow> string" where
  "cut_star s = (case c_strstr s ''*'' of None \<Rightarrow> s | Some n \<Rightarrow> take n s)"

text \<open>
  The text starts 11 octets into the line, whatever its length; a shorter line is left (\<open>None\<close>). The
  array \<open>igr\<close> has 400 octets, of which the text of the structure occupies \<open>lor_igr\<close>.
\<close>

definition PGLOR_IGR :: "string \<Rightarrow> nmea_lor \<Rightarrow> (int \<times> nmea_lor) option" where
  "PGLOR_IGR str lor = do {
     let lor = (if c_strstr str '',IGR'' \<noteq> None then lor\<lparr>lor_nIgr := lor_nIgr lor + 1, lor_igr := []\<rparr> else lor);
     let line = cut_star str;
     (if length line < 11 then None else Some ());
     igr \<leftarrow> sprintf_to 400 (lor_igr lor @ igr_text (CHR '' '') (drop 11 line) @ [CHR 0x0A, CHR 0x0D]);
     Some (0, lor\<lparr>lor_igr := igr\<rparr>) }"

definition PGLOR_RID :: "string \<Rightarrow> nmea_lor \<Rightarrow> (int \<times> nmea_lor) option" where
  "PGLOR_RID str lor = do {
     let line = cut_star str;
     (if length line < 15 then None else Some ());
     rid \<leftarrow> sprintf_to 32 (map (\<lambda>c. if c = CHR '','' then CHR ''.'' else c) (drop 15 line));
     Some (0, lor\<lparr>lor_rid := rid\<rparr>) }"

definition GPRMC :: "string \<Rightarrow> int" where
  "GPRMC str = 0"

section \<open>The loop runs over the fields\<close>

text \<open>The fields of a sentence, and a loop over a list that may fail.\<close>

fun nmea_fields :: "string \<Rightarrow> string list" where
  "nmea_fields [] = [[]]"
| "nmea_fields (c # s) =
     (if nmea_delim c then [] # nmea_fields s
      else case nmea_fields s of [] \<Rightarrow> [[c]] | f # fs \<Rightarrow> (c # f) # fs)"

fun fold_opt :: "('a \<Rightarrow> 's \<Rightarrow> 's option) \<Rightarrow> 'a list \<Rightarrow> 's \<Rightarrow> 's option" where
  "fold_opt f [] s = Some s"
| "fold_opt f (x # xs) s = do { s \<leftarrow> f x s; fold_opt f xs s }"

lemma fold_opt_append: "fold_opt f (xs @ ys) s = do { s \<leftarrow> fold_opt f xs s; fold_opt f ys s }"
  by (induction xs arbitrary: s) (auto split: bind_splits)

lemma fold_opt_Some: "(\<And>x s. f x s = Some (g x s)) \<Longrightarrow> fold_opt f xs s = Some (fold g xs s)"
  by (induction xs arbitrary: s) simp_all

lemma nmea_fields_nonempty [simp]: "nmea_fields s \<noteq> []"
  by (cases s) (auto split: list.splits)

lemma nmea_fields_plain: "\<forall>c \<in> set f. \<not> nmea_delim c \<Longrightarrow> nmea_fields f = [f]"
  by (induction f) auto

lemma nmea_fields_delim:
  "\<forall>c \<in> set f. \<not> nmea_delim c \<Longrightarrow> nmea_delim d \<Longrightarrow> nmea_fields (f @ d # s) = f # nmea_fields s"
  by (induction f) auto

text \<open>The line that the fields and the checksum make up.\<close>

definition nmea_text :: "string list \<Rightarrow> string \<Rightarrow> string" where
  "nmea_text fs chk = concat (map (\<lambda>f. f @ '','') (butlast fs)) @ last fs @ CHR ''*'' # chk"

definition plain_field :: "string \<Rightarrow> bool" where
  "plain_field f \<longleftrightarrow> (\<forall>c \<in> set f. \<not> nmea_delim c \<and> c \<noteq> NUL)"

lemma nmea_fields_text:
  assumes "fs \<noteq> []" "\<forall>f \<in> set fs. plain_field f" "plain_field chk"
  shows "nmea_fields (nmea_text fs chk) = fs @ [chk]"
  using assms
proof (induction fs)
  case (Cons f fs)
  have f: "\<forall>c \<in> set f. \<not> nmea_delim c" using Cons.prems by (simp add: plain_field_def)
  show ?case
  proof (cases "fs = []")
    case True
    then show ?thesis using f nmea_fields_delim [OF f, of "CHR ''*''" chk] nmea_fields_plain [of chk] Cons.prems
      by (simp add: nmea_text_def nmea_delim_def plain_field_def)
  next
    case False
    then have "nmea_text (f # fs) chk = f @ CHR '','' # nmea_text fs chk" by (simp add: nmea_text_def)
    moreover have "nmea_fields (nmea_text fs chk) = fs @ [chk]" using Cons False by simp
    ultimately show ?thesis using nmea_fields_delim [OF f, of "CHR '',''" "nmea_text fs chk"]
      by (simp add: nmea_delim_def)
  qed
qed simp

lemma no_nul_text:
  assumes "fs \<noteq> []" "\<forall>f \<in> set fs. plain_field f" "plain_field chk"
  shows "NUL \<notin> set (nmea_text fs chk)"
  using assms in_set_butlastD [of _ fs] by (auto simp: nmea_text_def plain_field_def dest: last_in_set)

lemma field_end_plain:
  assumes "\<forall>c \<in> set f. \<not> nmea_delim c \<and> c \<noteq> NUL" "nmea_delim d \<or> d = NUL"
  shows "field_end (pre @ f @ d # r) (length pre) = Some (length pre + length f, \<not> nmea_delim d)"
  using assms(1)
proof (induction f arbitrary: pre)
  case Nil
  then show ?case using assms(2) by (subst field_end.simps) (auto simp: rd_def)
next
  case (Cons c f)
  have "rd (pre @ (c # f) @ d # r) (length pre) = Some c" by (simp add: rd_def)
  moreover have "field_end ((pre @ [c]) @ f @ d # r) (length (pre @ [c])) = Some (length (pre @ [c]) + length f, \<not> nmea_delim d)"
    by (rule Cons.IH) (use Cons.prems in simp)
  ultimately show ?case using Cons.prems by (subst field_end.simps) simp
qed

lemma split_field:
  obtains f r where "s = f" "\<forall>c \<in> set f. \<not> nmea_delim c" "nmea_fields s = [f]"
  | f d r where "s = f @ d # r" "\<forall>c \<in> set f. \<not> nmea_delim c" "nmea_delim d" "nmea_fields s = f # nmea_fields r"
proof (cases "\<exists>c \<in> set s. nmea_delim c")
  case True
  then obtain f d r where s: "s = f @ d # r" "\<forall>c \<in> set f. \<not> nmea_delim c" "nmea_delim d"
    by (auto dest!: split_list_first_prop)
  then show thesis using nmea_fields_delim [of f d r] that(2) by blast
next
  case False
  then show thesis using nmea_fields_plain [of s] that(1) by blast
qed

text \<open>
  On a terminated string the loop calls its body once for every field, in order, and the character at
  the end of the field that the body sees is always NUL.
\<close>

lemma nmea_loop_fields:
  assumes "NUL \<notin> set s"
  shows "map_option snd (nmea_loop body (pre @ s @ NUL # r) (length pre) st) =
         fold_opt (\<lambda>f. body f NUL) (nmea_fields s) st"
  using assms
proof (induction "length s" arbitrary: s pre st rule: less_induct)
  case less
  show ?case
  proof (rule split_field [of s])
    fix f assume f: "s = f" "\<forall>c \<in> set f. \<not> nmea_delim c" "nmea_fields s = [f]"
    have "field_end (pre @ f @ NUL # r) (length pre) = Some (length pre + length f, True)"
      using field_end_plain [of f NUL pre r] f less.prems by (auto simp: nmea_delim_def)
    moreover have "c_str (f @ NUL # r) = f" using less.prems f by simp
    ultimately show ?thesis using f
      by (subst nmea_loop.simps)
        (cases "body f NUL st"; simp add: list_update_append nth_append Let_def)
  next
    fix f d r' assume f: "s = f @ d # r'" "\<forall>c \<in> set f. \<not> nmea_delim c" "nmea_delim d" "nmea_fields s = f # nmea_fields r'"
    have e: "field_end (pre @ f @ d # r' @ NUL # r) (length pre) = Some (length pre + length f, False)"
      using field_end_plain [of f d pre "r' @ NUL # r"] f less.prems by auto
    have u: "(pre @ f @ d # r' @ NUL # r)[length pre + length f := NUL] = pre @ f @ NUL # r' @ NUL # r"
      by (simp add: list_update_append)
    have n: "(pre @ f @ NUL # r' @ NUL # r) ! (length pre + length f) = NUL" by (simp add: nth_append)
    have c: "c_str (drop (length pre) (pre @ f @ NUL # r' @ NUL # r)) = f" using less.prems f by simp
    have IH: "map_option snd (nmea_loop body ((pre @ f @ [NUL]) @ r' @ NUL # r) (length (pre @ f @ [NUL])) st') =
        fold_opt (\<lambda>f. body f NUL) (nmea_fields r') st'" for st'
      by (rule less.hyps) (use f less.prems in auto)
    show ?thesis using f e u n c IH
      by (subst nmea_loop.simps) (simp add: Let_def split: option.splits)
  qed
qed

section \<open>What a GGA sentence leaves in the structure\<close>

definition gga_list :: "nmea_gga \<Rightarrow> string list" where
  "gga_list g =
     [gga_sentence g, gga_time g, gga_latitude g, gga_la g, gga_longitude g, gga_lo g, gga_fix_quality g, gga_nos g,
      gga_hdop g, gga_alme g, gga_al g, gga_hog g, gga_ho g, gga_tis g, gga_DGPS g, gga_checksum g]"

text \<open>The lengths of the arrays of the structure.\<close>

definition gga_sizes :: "nat list" where
  "gga_sizes = [8, 16, 16, 4, 16, 4, 4, 4, 8, 8, 4, 8, 4, 16, 16, 4]"

lemma length_gga_list [simp]: "length (gga_list g) = 16"
  by (simp add: gga_list_def)

lemma gga_field_list:
  "gga_field f c (i, g) = Some (i', g') \<Longrightarrow>
     i' = (if i < 16 then Suc i else i) \<and> gga_list g' = (gga_list g)[i := strncpy_all (gga_sizes ! i) f]"
proof (cases "i < 16")
  case True
  assume e: "gga_field f c (i, g) = Some (i', g')"
  from True show ?thesis
  proof (elim less_16_cases)
  qed (use e in \<open>auto simp: gga_field_def gga_list_def gga_sizes_def\<close>)
next
  case False
  assume "gga_field f c (i, g) = Some (i', g')"
  then show ?thesis using False by (auto simp: gga_field_def list_update_beyond)
qed

lemma gga_field_total: "\<exists>r. gga_field f c st = Some r"
  by (cases st) (auto simp: gga_field_def)

lemma gga_fold:
  "fold_opt (\<lambda>f. gga_field f c) fs (i, g) = Some (i', g') \<Longrightarrow> j < 16 \<Longrightarrow>
     gga_list g' ! j =
       (if i \<le> j \<and> j < i + length fs then strncpy_all (gga_sizes ! j) (fs ! (j - i)) else gga_list g ! j)"
proof (induction fs arbitrary: i g)
  case (Cons f fs)
  obtain i1 g1 where 1: "gga_field f c (i, g) = Some (i1, g1)" using gga_field_total by fastforce
  note s = gga_field_list [OF 1]
  have "fold_opt (\<lambda>f. gga_field f c) fs (i1, g1) = Some (i', g')" using Cons.prems(1) 1 by simp
  from Cons.IH [OF this Cons.prems(2)] show ?case using s Cons.prems(2)
    by (cases "i < 16"; cases "j = i") (auto simp: nth_Cons' Suc_le_eq)
qed auto

lemma gga_fold_total: "\<exists>r. fold_opt (\<lambda>f. gga_field f c) fs st = Some r"
proof (induction fs arbitrary: st)
  case (Cons f fs)
  then show ?case using gga_field_total [of f c st] by auto
qed simp

lemma GPGGA_read:
  assumes "NUL \<notin> set s"
  obtains s' g' where "GPGGA (s @ NUL # r) g = Some (0, s', g')"
    "\<forall>j < 16. gga_list g' ! j =
       (if j < length (nmea_fields s) then strncpy_all (gga_sizes ! j) (nmea_fields s ! j) else gga_list g ! j)"
proof -
  obtain i' g' where f: "fold_opt (\<lambda>f. gga_field f NUL) (nmea_fields s) (0, g) = Some (i', g')"
    using gga_fold_total by fastforce
  have "map_option snd (nmea_loop gga_field (s @ NUL # r) 0 (0, g)) = Some (i', g')"
    using nmea_loop_fields [OF assms, of gga_field "[]" r "(0, g)"] f by simp
  then obtain s' where "nmea_loop gga_field (s @ NUL # r) 0 (0, g) = Some (s', i', g')" by auto
  then show thesis using gga_fold [OF f] by (intro that [of s' g']) (auto simp: GPGGA_def)
qed

section \<open>What a GSV sentence leaves in the table\<close>

text \<open>The satellites of a sentence: number, elevation, azimuth and S/N, as they are written.\<close>

type_synonym sat = "string \<times> string \<times> string \<times> string"

fun sat_fields :: "sat \<Rightarrow> string list" where
  "sat_fields (p, e, a, s) = [p, e, a, s]"

fun sat_prn :: "sat \<Rightarrow> int" where "sat_prn (p, e, a, s) = c_atoi p"
fun sat_sn :: "sat \<Rightarrow> int" where "sat_sn (p, e, a, s) = c_atoi s"

definition sat_taken :: "sat \<Rightarrow> bool" where
  "sat_taken x \<longleftrightarrow> 1 \<le> sat_prn x \<and> sat_prn x \<le> 32 \<and> sat_sn x < 3120"

definition sat_wf :: "sat \<Rightarrow> bool" where
  "sat_wf x \<longleftrightarrow> (\<forall>f \<in> set (sat_fields x). plain_field f \<and> length f \<le> 3)"

definition record_sats :: "sat list \<Rightarrow> int list \<Rightarrow> int list" where
  "record_sats xs tab = fold (\<lambda>x t. t[nat (sat_prn x) := sat_sn x]) xs tab"

lemma wrn_append: "wrn (A @ B) (length A + n) x = map_option ((@) A) (wrn B n x)"
  by (auto simp: wrn_def)

lemma wrn_here: "length x \<le> length B \<Longrightarrow> wrn (A @ B) (length A) x = Some (A @ x @ drop (length x) B)"
  by (simp add: wrn_def)

lemma c_str_at_strncpy:
  assumes "NUL \<notin> set f" "length f < n"
  shows "c_str_at (strncpy_all n f @ r) = Some f"
proof -
  obtain m where m: "n - length f = Suc m" using assms(2) by (cases "n - length f") auto
  have "strncpy_all n f = f @ NUL # replicate m NUL" using assms(2) m by (simp add: strncpy_all_def)
  then show ?thesis using assms(1) by (simp add: c_str_at_def)
qed

text \<open>The four fields of a satellite in the tail of the structure, and what \<open>atoi\<close> reads from them.\<close>

definition sat_octets :: "sat \<Rightarrow> string" where
  "sat_octets x = concat (map (strncpy_all 4) (sat_fields x))"

lemma sate_atoi_read:
  assumes "length A = 16 * j" "sat_wf x"
  shows "sate_atoi (A @ sat_octets x @ B) j 0 = Some (sat_prn x)"
    "\<exists>n. sate_atoi (A @ sat_octets x @ B) j (Suc 0) = Some n"
    "\<exists>n. sate_atoi (A @ sat_octets x @ B) j 2 = Some n"
    "sate_atoi (A @ sat_octets x @ B) j 3 = Some (sat_sn x)"
proof -
  obtain p e a s where x: "x = (p, e, a, s)" by (cases x) auto
  have wf: "\<forall>f \<in> {p, e, a, s}. NUL \<notin> set f \<and> length f < 4"
    using assms(2) by (auto simp: sat_wf_def x plain_field_def)
  show "sate_atoi (A @ sat_octets x @ B) j 0 = Some (sat_prn x)"
    "\<exists>n. sate_atoi (A @ sat_octets x @ B) j (Suc 0) = Some n"
    "\<exists>n. sate_atoi (A @ sat_octets x @ B) j 2 = Some n"
    "sate_atoi (A @ sat_octets x @ B) j 3 = Some (sat_sn x)"
    using assms(1) wf by (simp_all add: sate_atoi_def sat_octets_def x c_str_at_strncpy)
qed

text \<open>One field of a satellite: it is copied, and with the fourth one the satellite is looked at.\<close>

definition gsv_look :: "gsv_state \<Rightarrow> gsv_state option" where
  "gsv_look v = do {
     let t = gsv_tail (gv_gsv v);
     prn \<leftarrow> sate_atoi t (gv_j v) 0;
     el \<leftarrow> sate_atoi t (gv_j v) 1;
     az \<leftarrow> sate_atoi t (gv_j v) 2;
     SN0 \<leftarrow> sate_atoi t (gv_j v) 3;
     if prn < 1 \<or> prn > 32 \<or> SN0 \<ge> 3120 then Some v
     else do {
       tab \<leftarrow> wr (gv_table v) (nat prn) SN0;
       Some (v\<lparr>gv_table := tab, gv_k := 0, gv_j := Suc (gv_j v)\<rparr>) } }"

definition gsv_copied :: "string \<Rightarrow> gsv_state \<Rightarrow> gsv_state" where
  "gsv_copied t v = v\<lparr>gv_gsv := (gv_gsv v)\<lparr>gsv_tail := t\<rparr>, gv_k := Suc (gv_k v)\<rparr>"

lemma gsv_copied_simps [simp]:
  "gsv_tail (gv_gsv (gsv_copied t v)) = t" "gv_k (gsv_copied t v) = Suc (gv_k v)" "gv_j (gsv_copied t v) = gv_j v"
  "gv_i (gsv_copied t v) = gv_i v" "gv_chk (gsv_copied t v) = gv_chk v" "gv_table (gsv_copied t v) = gv_table v"
  by (simp_all add: gsv_copied_def)

lemma gsv_field_sate:
  assumes "gv_i v = 4" "\<not> gv_chk v" "gsv_tail (gv_gsv v) = A @ B" "length A = 16 * gv_j v + 4 * gv_k v" "4 \<le> length B"
  shows "gsv_field f NUL v =
    (let v = gsv_copied (A @ strncpy_all 4 f @ drop 4 B) v in if 4 \<le> gv_k v then gsv_look v else Some v)"
proof -
  have w: "wrn (gsv_tail (gv_gsv v)) (16 * gv_j v + 4 * gv_k v) (strncpy_all 4 f) = Some (A @ strncpy_all 4 f @ drop 4 B)"
    using wrn_here [of "strncpy_all 4 f" B A] assms(3-5) by simp
  show ?thesis using assms(1,2)
    by (auto simp: gsv_field_def gsv_sate_def w Let_def gsv_look_def gsv_copied_def gsv_finish_def intro!: Option.bind_cong)
qed

lemma gsv_look_sat:
  assumes "gsv_tail (gv_gsv v) = A @ sat_octets x @ B" "length A = 16 * gv_j v" "sat_wf x"
  shows "gsv_look v =
    (if sat_taken x then do {
       tab \<leftarrow> wr (gv_table v) (nat (sat_prn x)) (sat_sn x);
       Some (v\<lparr>gv_table := tab, gv_k := 0, gv_j := Suc (gv_j v)\<rparr>) }
     else Some v)"
proof -
  note r = sate_atoi_read [OF assms(2,3), of B]
  obtain e a where e: "sate_atoi (A @ sat_octets x @ B) (gv_j v) (Suc 0) = Some e"
    "sate_atoi (A @ sat_octets x @ B) (gv_j v) 2 = Some a"
    using r(2,3) by blast
  show ?thesis using assms(1) r(1,4) e by (auto simp: gsv_look_def Let_def sat_taken_def)
qed

lemma gsv_sat_step:
  assumes v: "gv_i v = 4" "gv_k v = 0" "\<not> gv_chk v" "gsv_tail (gv_gsv v) = A @ B" "length A = 16 * gv_j v"
    and B: "16 \<le> length B" and x: "sat_wf x"
  obtains v' where "gv_i v' = 4" "\<not> gv_chk v'" "gsv_tail (gv_gsv v') = A @ sat_octets x @ drop 16 B" "gv_j v' = gv_j v"
    "gv_k v' = 4" "gv_table v' = gv_table v" "fold_opt (\<lambda>f. gsv_field f NUL) (sat_fields x) v = gsv_look v'"
proof -
  obtain p e a s where xx: "x = (p, e, a, s)" by (cases x) auto
  note st = gsv_field_sate
  define v1 where "v1 = gsv_copied (A @ strncpy_all 4 p @ drop 4 B) v"
  define v2 where "v2 = gsv_copied ((A @ strncpy_all 4 p) @ strncpy_all 4 e @ drop 4 (drop 4 B)) v1"
  define v3 where "v3 = gsv_copied ((A @ strncpy_all 4 p @ strncpy_all 4 e) @ strncpy_all 4 a @ drop 4 (drop 8 B)) v2"
  define v4 where "v4 = gsv_copied ((A @ strncpy_all 4 p @ strncpy_all 4 e @ strncpy_all 4 a) @ strncpy_all 4 s @ drop 4 (drop 12 B)) v3"
  have 1: "gsv_field p NUL v = Some v1" using st [of v A B p] v B by (simp add: v1_def)
  have 2: "gsv_field e NUL v1 = Some v2"
    using st [of v1 "A @ strncpy_all 4 p" "drop 4 B" e] v B by (simp add: v2_def v1_def)
  have 3: "gsv_field a NUL v2 = Some v3"
    using st [of v2 "A @ strncpy_all 4 p @ strncpy_all 4 e" "drop 8 B" a] v B by (simp add: v3_def v2_def v1_def)
  have 4: "gsv_field s NUL v3 = gsv_look v4"
    using st [of v3 "A @ strncpy_all 4 p @ strncpy_all 4 e @ strncpy_all 4 a" "drop 12 B" s] v B
    by (simp add: v4_def v3_def v2_def v1_def)
  show thesis
    by (rule that [of v4]) (use v 1 2 3 4 in \<open>auto simp: v4_def v3_def v2_def v1_def sat_octets_def xx split: bind_splits\<close>)
qed

text \<open>After a satellite that is not taken, no field of the sentence reaches the table any more.\<close>

lemma gsv_stuck:
  assumes "gv_i v = 4" "\<not> gv_chk v" "gsv_tail (gv_gsv v) = A @ sat_octets x @ B" "length A = 16 * gv_j v"
    "4 \<le> gv_k v" "16 * gv_j v + 4 * gv_k v + 4 * length fs \<le> length (gsv_tail (gv_gsv v))" "sat_wf x" "\<not> sat_taken x"
  shows "map_option gv_table (fold_opt (\<lambda>f. gsv_field f NUL) fs v) = Some (gv_table v)"
  using assms(1-6)
proof (induction fs arbitrary: v B)
  case (Cons f fs)
  have lx: "length (sat_octets x) = 16" by (cases x) (simp add: sat_octets_def)
  let ?n = "4 * gv_k v - 16"
  have B: "?n + 4 \<le> length B" using Cons.prems lx by simp
  have "gsv_tail (gv_gsv v) = (A @ sat_octets x @ take ?n B) @ drop ?n B" using Cons.prems by simp
  moreover have "length (A @ sat_octets x @ take ?n B) = 16 * gv_j v + 4 * gv_k v" using Cons.prems lx B by simp
  ultimately have f: "gsv_field f NUL v =
      gsv_look (gsv_copied (A @ sat_octets x @ take ?n B @ strncpy_all 4 f @ drop 4 (drop ?n B)) v)"
    using gsv_field_sate [of v "A @ sat_octets x @ take ?n B" "drop ?n B" f] Cons.prems B by simp
  let ?v = "gsv_copied (A @ sat_octets x @ take ?n B @ strncpy_all 4 f @ drop 4 (drop ?n B)) v"
  have "gsv_look ?v = Some ?v"
    using gsv_look_sat [of ?v A x "take ?n B @ strncpy_all 4 f @ drop 4 (drop ?n B)"] Cons.prems assms(7,8) by simp
  moreover have "map_option gv_table (fold_opt (\<lambda>f. gsv_field f NUL) fs ?v) = Some (gv_table ?v)"
    by (rule Cons.IH [where B = "take ?n B @ strncpy_all 4 f @ drop 4 (drop ?n B)"]) (use Cons.prems B lx in auto)
  ultimately show ?case using f by simp
qed simp

lemma gsv_fold:
  assumes "gv_i v = 4" "gv_k v = 0" "\<not> gv_chk v" "length (gsv_tail (gv_gsv v)) = 72" "gv_j v + length xs \<le> 4"
    "length (gv_table v) = 32" "\<forall>x \<in> set xs. sat_wf x"
  shows "map_option gv_table (fold_opt (\<lambda>f. gsv_field f NUL) (concat (map sat_fields xs) @ [chk]) v) =
    (let good = takeWhile sat_taken xs
     in if \<exists>x \<in> set good. sat_prn x = 32 then None else Some (record_sats good (gv_table v)))"
  using assms
proof (induction xs arbitrary: v)
  case Nil
  have "gsv_tail (gv_gsv v) = take (16 * gv_j v) (gsv_tail (gv_gsv v)) @ drop (16 * gv_j v) (gsv_tail (gv_gsv v))" by simp
  then have "gsv_field chk NUL v = Some (gsv_copied (take (16 * gv_j v) (gsv_tail (gv_gsv v)) @ strncpy_all 4 chk @
      drop 4 (drop (16 * gv_j v) (gsv_tail (gv_gsv v)))) v)"
    using gsv_field_sate [of v "take (16 * gv_j v) (gsv_tail (gv_gsv v))" "drop (16 * gv_j v) (gsv_tail (gv_gsv v))" chk] Nil
    by simp
  then show ?case by (simp add: record_sats_def)
next
  case (Cons x xs)
  let ?A = "take (16 * gv_j v) (gsv_tail (gv_gsv v))" and ?B = "drop (16 * gv_j v) (gsv_tail (gv_gsv v))"
  have x: "sat_wf x" using Cons.prems by simp
  have l: "length ?A = 16 * gv_j v" "16 \<le> length ?B" using Cons.prems by auto
  have lx: "length (sat_octets x) = 16" by (cases x) (simp add: sat_octets_def)
  obtain v' where v': "gv_i v' = 4" "\<not> gv_chk v'" "gsv_tail (gv_gsv v') = ?A @ sat_octets x @ drop 16 ?B" "gv_j v' = gv_j v"
    "gv_k v' = 4" "gv_table v' = gv_table v" "fold_opt (\<lambda>f. gsv_field f NUL) (sat_fields x) v = gsv_look v'"
    using gsv_sat_step [OF Cons.prems(1,2,3) _ l(1) l(2) x] by (metis append_take_drop_id)
  have tl: "length (gsv_tail (gv_gsv v')) = 72" using v'(3) l lx Cons.prems(4) by simp
  have look: "gsv_look v' = (if sat_taken x then do {
       tab \<leftarrow> wr (gv_table v) (nat (sat_prn x)) (sat_sn x);
       Some (v'\<lparr>gv_table := tab, gv_k := 0, gv_j := Suc (gv_j v')\<rparr>) } else Some v')"
    using gsv_look_sat [OF v'(3) _ x] l v' by simp
  show ?case
  proof (cases "sat_taken x")
    case False
    have "length (concat (map sat_fields xs) @ [chk]) = 4 * length xs + 1"
      by (induction xs) auto
    then have "map_option gv_table (fold_opt (\<lambda>f. gsv_field f NUL) (concat (map sat_fields xs) @ [chk]) v') = Some (gv_table v')"
      by (intro gsv_stuck [OF v'(1,2,3)]) (use v' tl l x False Cons.prems in auto)
    then show ?thesis using False v' look by (simp add: fold_opt_append record_sats_def)
  next
    case True
    then have p: "1 \<le> sat_prn x" "sat_prn x \<le> 32" by (simp_all add: sat_taken_def)
    show ?thesis
    proof (cases "sat_prn x = 32")
      case 32: True
      then show ?thesis using True look v' Cons.prems by (simp add: fold_opt_append wr_def)
    next
      case False
      let ?v = "v'\<lparr>gv_table := (gv_table v)[nat (sat_prn x) := sat_sn x], gv_k := 0, gv_j := Suc (gv_j v')\<rparr>"
      have "gsv_look v' = Some ?v" using True look p False Cons.prems by (simp add: wr_def)
      moreover have "map_option gv_table (fold_opt (\<lambda>f. gsv_field f NUL) (concat (map sat_fields xs) @ [chk]) ?v) =
        (let good = takeWhile sat_taken xs
         in if \<exists>x \<in> set good. sat_prn x = 32 then None else Some (record_sats good (gv_table ?v)))"
        by (rule Cons.IH) (use Cons.prems v' tl in auto)
      ultimately show ?thesis using True False v' by (simp add: fold_opt_append record_sats_def)
    qed
  qed
qed

definition gsv_line :: "string \<Rightarrow> string \<Rightarrow> string \<Rightarrow> sat list \<Rightarrow> string \<Rightarrow> string" where
  "gsv_line nose sn nosa sats chk =
     nmea_text ([''$GPGSV'', nose, sn, nosa] @ concat (map sat_fields sats)) chk"

definition gsv_wf :: "nmea_gsv \<Rightarrow> bool" where
  "gsv_wf g \<longleftrightarrow> length (gsv_tail g) = 72"

lemma gsv_line_fields:
  assumes "plain_field nose" "plain_field sn" "plain_field nosa" "plain_field chk" "\<forall>x \<in> set sats. sat_wf x"
  shows "nmea_fields (gsv_line nose sn nosa sats chk) = [''$GPGSV'', nose, sn, nosa] @ concat (map sat_fields sats) @ [chk]"
    "NUL \<notin> set (gsv_line nose sn nosa sats chk)"
proof -
  have "plain_field ''$GPGSV''" by (simp add: plain_field_def nmea_delim_def)
  then have f: "\<forall>f \<in> set ([''$GPGSV'', nose, sn, nosa] @ concat (map sat_fields sats)). plain_field f"
    using assms by (auto simp: sat_wf_def)
  show "nmea_fields (gsv_line nose sn nosa sats chk) = [''$GPGSV'', nose, sn, nosa] @ concat (map sat_fields sats) @ [chk]"
    unfolding gsv_line_def by (subst nmea_fields_text [OF _ f assms(4)]) auto
  show "NUL \<notin> set (gsv_line nose sn nosa sats chk)"
    unfolding gsv_line_def by (rule no_nul_text [OF _ f assms(4)]) simp
qed

text \<open>
  The table of the S/N values gets the value of every satellite of the sentence, up to the first one that
  is out of range. Satellite 32, which the range check lets through, is behind the end of the table.
\<close>

lemma gsv_table:
  assumes "plain_field nose" "plain_field sn" "plain_field nosa" "plain_field chk"
    and "\<forall>x \<in> set sats. sat_wf x" "length sats \<le> 4" "gsv_wf g" "length tab = 32"
  shows "map_option (\<lambda>(rc, s, g, tab). tab) (GPGSV (gsv_line nose sn nosa sats chk @ NUL # r) g tab) =
    (let good = takeWhile sat_taken sats
     in if \<exists>x \<in> set good. sat_prn x = 32 then None else Some (record_sats good tab))"
proof -
  define v0 where "v0 = \<lparr>gv_i = 0, gv_j = 0, gv_k = 0, gv_chk = False, gv_gsv = g, gv_table = tab\<rparr>"
  have "map_option snd (nmea_loop gsv_field (gsv_line nose sn nosa sats chk @ NUL # r) 0 v0) =
      fold_opt (\<lambda>f. gsv_field f NUL) ([''$GPGSV'', nose, sn, nosa] @ concat (map sat_fields sats) @ [chk]) v0"
    using nmea_loop_fields [OF gsv_line_fields(2) [OF assms(1-5)], of gsv_field "[]" r v0] gsv_line_fields(1) [OF assms(1-5)]
    by simp
  then have "map_option gv_table (map_option snd (nmea_loop gsv_field (gsv_line nose sn nosa sats chk @ NUL # r) 0 v0)) =
    (let good = takeWhile sat_taken sats
     in if \<exists>x \<in> set good. sat_prn x = 32 then None else Some (record_sats good tab))"
    using assms(5-8) by (simp add: v0_def gsv_field_def gsv_fold gsv_wf_def Let_def)
  moreover have "map_option (\<lambda>(rc, s, g, tab). tab) (GPGSV (gsv_line nose sn nosa sats chk @ NUL # r) g tab) =
      map_option gv_table (map_option snd (nmea_loop gsv_field (gsv_line nose sn nosa sats chk @ NUL # r) 0 v0))"
    by (auto simp: GPGSV_def v0_def option.map_comp comp_def split: bind_splits)
  ultimately show ?thesis by simp
qed

text \<open>The structure keeps its size, and the table its length, so that the next sentence can be read.\<close>

lemma nmea_loop_keeps:
  "nmea_loop body s p st = Some (s', st') \<Longrightarrow> P st \<Longrightarrow> \<forall>f c x y. P x \<longrightarrow> body f c x = Some y \<longrightarrow> P y \<Longrightarrow>
     P st' \<and> length s' = length s"
proof (induction body s p st rule: nmea_loop.induct)
  case (1 body s p st)
  obtain q fin where e: "field_end s p = Some (q, fin)"
    using "1.prems" by (subst (asm) nmea_loop.simps) (auto split: option.splits)
  obtain st1 where b: "body (c_str (drop p (s[q := NUL]))) (s[q := NUL] ! q) st = Some st1"
    using "1.prems" e by (subst (asm) nmea_loop.simps) (auto simp: Let_def split: option.splits)
  have P: "P st1" using "1.prems"(2,3) b by blast
  show ?case
  proof (cases fin)
    case True
    then show ?thesis using "1.prems" e b P by (subst (asm) nmea_loop.simps) (auto simp: Let_def)
  next
    case False
    then have "nmea_loop body (s[q := NUL]) (Suc q) st1 = Some (s', st')"
      using "1.prems" e b by (subst (asm) nmea_loop.simps) (simp add: Let_def)
    from "1.IH" [OF e refl refl b False this P "1.prems"(3)] show ?thesis by simp
  qed
qed

definition gsv_sized :: "nat \<Rightarrow> gsv_state \<Rightarrow> bool" where
  "gsv_sized n v \<longleftrightarrow> gsv_wf (gv_gsv v) \<and> length (gv_table v) = n"

lemma gsv_sized_tail:
  "wrn (gsv_tail (gv_gsv v)) i x = Some t \<Longrightarrow> gsv_sized n v \<Longrightarrow> gsv_sized n (v\<lparr>gv_gsv := (gv_gsv v)\<lparr>gsv_tail := t\<rparr>\<rparr>)"
  by (auto simp: gsv_sized_def gsv_wf_def dest: wrn_length)

lemma gsv_sized_simps [simp]:
  "gsv_sized n (v\<lparr>gv_i := i\<rparr>) = gsv_sized n v" "gsv_sized n (v\<lparr>gv_j := i\<rparr>) = gsv_sized n v"
  "gsv_sized n (v\<lparr>gv_k := i\<rparr>) = gsv_sized n v" "gsv_sized n (v\<lparr>gv_chk := b\<rparr>) = gsv_sized n v"
  by (simp_all add: gsv_sized_def)

lemma gsv_finish_sized: "gsv_finish v = Some v' \<Longrightarrow> gsv_sized n v \<Longrightarrow> gsv_sized n v'"
  by (auto simp: gsv_finish_def set_gsv_n_def gsv_sized_tail split: if_splits bind_splits)

lemma gsv_sate_sized:
  assumes "gsv_sate f c v = Some v'" "gsv_sized n v"
  shows "gsv_sized n v'"
proof -
  obtain t where t: "wrn (gsv_tail (gv_gsv v)) (16 * gv_j v + 4 * gv_k v) (strncpy_all 4 f) = Some t"
    using assms(1) by (auto simp: gsv_sate_def split: bind_splits)
  define w where "w = v\<lparr>gv_gsv := (gv_gsv v)\<lparr>gsv_tail := t\<rparr>, gv_k := Suc (gv_k v)\<rparr>"
  have w: "gsv_sized n w" using gsv_sized_tail [OF t assms(2)] by (simp add: w_def)
  have tab: "gsv_sized n (w\<lparr>gv_table := tab, gv_k := 0, gv_j := j\<rparr>)" if "wr (gv_table w) m x = Some tab" for tab m x j
    using w that by (auto simp: gsv_sized_def dest: wr_length)
  show ?thesis using assms(1) w tab
    by (auto simp: gsv_sate_def t w_def [symmetric] Let_def split: if_splits bind_splits intro: gsv_finish_sized)
qed

lemma gsv_field_sized:
  assumes "gsv_sized n v" "gsv_field f c v = Some v'"
  shows "gsv_sized n v'"
proof -
  define w where "w = (if c = CHR ''*'' then v\<lparr>gv_chk := True\<rparr> else v)"
  have w: "gsv_sized n w" using assms(1) by (simp add: w_def)
  show ?thesis using assms(2) w
    by (auto simp: gsv_field_def w_def [symmetric] Let_def gsv_sized_tail split: if_splits bind_splits
        intro: gsv_sate_sized)
       (auto simp: gsv_sized_def gsv_wf_def dest: wrn_length)
qed

lemma GPGSV_sizes:
  assumes "GPGSV s g tab = Some (rc, s', g', tab')" "gsv_wf g"
  shows "gsv_wf g' \<and> length tab' = length tab"
proof -
  obtain v where v: "nmea_loop gsv_field s 0
      \<lparr>gv_i = 0, gv_j = 0, gv_k = 0, gv_chk = False, gv_gsv = g, gv_table = tab\<rparr> = Some (s', v)"
    "g' = gv_gsv v" "tab' = gv_table v"
    using assms(1) by (auto simp: GPGSV_def split: bind_splits)
  have "gsv_sized (length tab) v \<and> length s' = length s"
    by (rule nmea_loop_keeps [OF v(1)]) (use assms(2) gsv_field_sized in \<open>auto simp: gsv_sized_def\<close>)
  then show ?thesis using v by (simp add: gsv_sized_def)
qed

text \<open>The loop leaves what lies before its start.\<close>

lemma nmea_loop_prefix:
  "nmea_loop body s p st = Some (s', st') \<Longrightarrow> q \<le> p \<Longrightarrow> take q s' = take q s"
proof (induction body s p st rule: nmea_loop.induct)
  case (1 body s p st)
  obtain e fin where e: "field_end s p = Some (e, fin)"
    using "1.prems" by (subst (asm) nmea_loop.simps) (auto split: option.splits)
  obtain st1 where b: "body (c_str (drop p (s[e := NUL]))) (s[e := NUL] ! e) st = Some st1"
    using "1.prems" e by (subst (asm) nmea_loop.simps) (auto simp: Let_def split: option.splits)
  have pe: "p \<le> e" using field_end_bounds [OF e] by simp
  have u: "take q (s[e := NUL]) = take q s" using pe "1.prems"(2) by simp
  show ?case
  proof (cases fin)
    case True
    then show ?thesis using "1.prems" e b u by (subst (asm) nmea_loop.simps) (auto simp: Let_def)
  next
    case False
    then have "nmea_loop body (s[e := NUL]) (Suc e) st1 = Some (s', st')"
      using "1.prems" e b by (subst (asm) nmea_loop.simps) (simp add: Let_def)
    from "1.IH" [OF e refl refl b False this] show ?thesis using pe "1.prems"(2) u by simp
  qed
qed

end
