(* ===== verification/Gps.thy ===== *)
theory Gps
  imports Nmea "HOL-Library.Multiset"
begin

text \<open>
  The GPS tests of the second test suite: the reset command to the receiver (gllin_ubx and gps_reset of
  gta02-dm2/src/dm2.c), the test for a position fix (tests-gps.c) and the test for the carrier to noise
  ratio (nmea_process2 of gps.c, tests-sn.c). The lines that the receiver sends are an argument; the
  display of the position (nmea_epoch_end, nmea_to_ZDA) and the child process that kills the test after
  a time are not modelled.
\<close>

section \<open>The frame that resets the receiver\<close>

text \<open>\<open>bwrite\<close>: \<open>ws n\<close> is the result of the \<open>n\<close>-th call of \<open>write\<close>; the octets written so far are kept.\<close>

type_synonym port = "nat \<times> u8 list"

definition port_write :: "(nat \<Rightarrow> int) \<Rightarrow> port \<Rightarrow> u8 list \<Rightarrow> int \<times> port" where
  "port_write ws = (\<lambda>(n, out) bs. (ws n, Suc n, out @ take (nat (ws n)) bs))"

fun bwrite_slow :: "(nat \<Rightarrow> int) \<Rightarrow> port \<Rightarrow> u8 list \<Rightarrow> int \<Rightarrow> int \<times> port" where
  "bwrite_slow ws p [] i = (i, p)"
| "bwrite_slow ws p (b # bs) i =
     (let (rc, p) = port_write ws p [b] in if rc \<noteq> 1 then (-1, p) else bwrite_slow ws p bs (i + 1))"

definition bwrite :: "(nat \<Rightarrow> int) \<Rightarrow> port \<Rightarrow> u8 list \<Rightarrow> nat \<Rightarrow> int \<times> port" where
  "bwrite ws p buf delay = (if delay = 0 then port_write ws p buf else bwrite_slow ws p buf 0)"

definition ubx_sum :: "u8 list \<Rightarrow> u8 \<times> u8" where
  "ubx_sum bs = fold (\<lambda>b (a, c). (a + b, c + (a + b))) bs (0, 0)"

definition ubx_header :: "u8 \<Rightarrow> u8 \<Rightarrow> nat \<Rightarrow> u8 list" where
  "ubx_header cls ident n = [0xb5, 0x62, cls, ident, of_nat (n mod 256), of_nat (n div 256 mod 256)]"

text \<open>The result says whether the three writes were complete; the source prints a message otherwise.\<close>

definition gllin_ubx :: "(nat \<Rightarrow> int) \<Rightarrow> port \<Rightarrow> int \<Rightarrow> u8 \<Rightarrow> u8 \<Rightarrow> u8 list \<Rightarrow> nat \<Rightarrow> bool \<times> port" where
  "gllin_ubx ws p fd cls ident ubx delay =
     (if fd = 0 then (True, p)
      else let header = ubx_header cls ident (length ubx);
               (a, c) = ubx_sum (drop 2 header @ ubx);
               (rc, p) = bwrite ws p header delay
           in if rc \<noteq> 6 then (False, p)
              else let (rc, p) = (if ubx = [] then (0, p) else bwrite ws p ubx delay)
                   in if rc \<noteq> int (length ubx) then (False, p)
                      else let (rc, p) = bwrite ws p [a, c] delay in (rc = 2, p))"

text \<open>For another letter the source uses an uninitialised variable.\<close>

definition reset_bits :: "char \<Rightarrow> nat option" where
  "reset_bits c =
     (if c = CHR ''c'' then Some 0x7ff else if c = CHR ''w'' then Some 1 else if c = CHR ''h'' then Some 0 else None)"

definition gps_reset :: "(nat \<Rightarrow> int) \<Rightarrow> port \<Rightarrow> int \<Rightarrow> char \<Rightarrow> port option" where
  "gps_reset ws p fd c = do {
     bbr \<leftarrow> reset_bits c;
     let ubx = [of_nat (bbr mod 256), of_nat (bbr div 256 mod 256)];
     let (ok, p) = gllin_ubx ws p fd 6 4 (ubx @ [8, 0]) 4;
     let (ok, p) = gllin_ubx ws p fd 6 4 (ubx @ [9, 0]) 4;
     Some p }"

section \<open>The test for a fix\<close>

record gps_test =
  gt_gga :: nmea_gga
  gt_gsv :: nmea_gsv
  gt_table :: "int list"
  gt_fixed :: int

text \<open>\<open>atoi (gga.fix_quality)\<close>: the array need not be terminated, so the next members may be read too.\<close>

definition gga_quality :: "nmea_gga \<Rightarrow> int option" where
  "gga_quality g = map_option c_atoi (c_str_at (concat (drop 6 (gga_list g))))"

definition has_id :: "string \<Rightarrow> string \<Rightarrow> bool" where
  "has_id buf ident \<longleftrightarrow> c_strneq (c_str buf) ident 6"

text \<open>One round of the loop of \<open>do_gps_test\<close> with the line that \<open>fgets\<close> put into the buffer.\<close>

definition gps_line :: "string \<Rightarrow> gps_test \<Rightarrow> gps_test option" where
  "gps_line line t = do {
     let buf = line @ [NUL];
     (buf, t) \<leftarrow>
       (if has_id buf ''$GPGGA'' then do {
          (rc, buf, gga) \<leftarrow> GPGGA buf (gt_gga t);
          q \<leftarrow> gga_quality gga;
          Some (buf, t\<lparr>gt_gga := gga, gt_fixed := q\<rparr>) }
        else Some (buf, t));
     if has_id buf ''$GPGSV'' then do {
       (rc, buf, gsv, tab) \<leftarrow> GPGSV buf (gt_gsv t) (gt_table t);
       Some (t\<lparr>gt_gsv := gsv, gt_table := tab\<rparr>) }
     else Some t }"

text \<open>The loop: \<open>False\<close> is the end of the input before a fix.\<close>

fun gps_loop :: "string list \<Rightarrow> gps_test \<Rightarrow> (bool \<times> gps_test) option" where
  "gps_loop ls t =
     (if gt_fixed t \<noteq> 0 then Some (True, t)
      else case ls of
             [] \<Rightarrow> Some (False, t)
           | l # ls \<Rightarrow> do { t \<leftarrow> gps_line l t; gps_loop ls t })"

declare gps_loop.simps [simp del]

text \<open>The average at the end: the table is sorted and its last three entries are taken.\<close>

definition gps_average :: "int list \<Rightarrow> int option" where
  "gps_average tab = do {
     let s = sort tab;
     a \<leftarrow> ck_int (s ! 29);
     a \<leftarrow> ck_int (a + s ! 30);
     a \<leftarrow> ck_int (a + s ! 31);
     Some (a sdiv 3) }"

text \<open>The test from \<open>runtime_init\<close> on: the average, or nothing when the receiver stops sending.\<close>

definition do_gps_test :: "nmea_gga \<Rightarrow> nmea_gsv \<Rightarrow> string list \<Rightarrow> (int option \<times> gps_test) option" where
  "do_gps_test gga gsv ls = do {
     (ok, t) \<leftarrow> gps_loop ls \<lparr>gt_gga = gga, gt_gsv = gsv, gt_table = replicate 32 (-1), gt_fixed = 0\<rparr>;
     if ok then do { a \<leftarrow> gps_average (gt_table t); Some (Some a, t) } else Some (None, t) }"

section \<open>The test for the carrier to noise ratio\<close>

definition CN_THRESHOLD :: int where "CN_THRESHOLD = 38"

definition cn_line :: "nat \<Rightarrow> int \<Rightarrow> string" where
  "cn_line i sn = ''prn: '' @ dec_nat i @ '', S/N: '' @ dec_int sn @ [CHR 0x0A]"

definition cn_hits :: "int list \<Rightarrow> nat list" where
  "cn_hits tab = filter (\<lambda>i. CN_THRESHOLD \<le> tab ! i) [0..<32]"

text \<open>
  What \<open>nmea_process2\<close> leaves: the text of the first buffer (of \<open>nb\<close> octets), the verdict, the text of
  the second buffer (of \<open>nq\<close> octets), the table and the beep flag. \<open>elapsed\<close> is the result of \<open>runtime\<close>.
\<close>

record cn_result =
  cn_text :: "string option"
  cn_fixed :: int
  cn_log :: string
  cn_table :: "int list"
  cn_beep :: bool

definition cn_verdict :: "nat \<Rightarrow> string" where
  "cn_verdict hits =
     (if hits = 0 then ''Fail'' else if hits = 1 then ''- Pass -'' else ''N/A'') @ [CHR 0x0A]"

definition nmea_process2 :: "nat \<Rightarrow> nat \<Rightarrow> u32 \<Rightarrow> string \<Rightarrow> string \<Rightarrow> int list \<Rightarrow> bool \<Rightarrow> cn_result option" where
  "nmea_process2 nb nq elapsed buf log tab beep =
     (case c_strstr buf ''$GPGSV'' of
        None \<Rightarrow> Some \<lparr>cn_text = None, cn_fixed = 0, cn_log = log, cn_table = tab, cn_beep = beep\<rparr>
      | Some n \<Rightarrow> do {
          (rc, s, g, tab) \<leftarrow> GPGSV (drop n buf @ [NUL])
             \<lparr>gsv_sentence = replicate 8 NUL, gsv_nose = replicate 4 NUL, gsv_sn = replicate 4 NUL,
              gsv_nosa = replicate 4 NUL, gsv_tail = replicate 72 NUL\<rparr> tab;
          let hits = cn_hits tab;
          let ls = concat (map (\<lambda>i. cn_line i (tab ! i)) hits);
          log \<leftarrow> (if hits = [] then Some log else sprintf_to nq ls);
          text \<leftarrow> sprintf_to nb (ls @ cn_verdict (length hits) @ ''(time: '' @ dec_int (sint elapsed) @ '')'');
          Some \<lparr>cn_text = Some text, cn_fixed = (if length hits = 1 then 1 else 0), cn_log = log,
                cn_table = tab, cn_beep = beep \<or> hits \<noteq> []\<rparr> })"

text \<open>
  \<open>get_gps_sn_data\<close>, with the device as the result of \<open>fopen\<close> and the line as the result of \<open>fgets\<close>. The
  first component is the return value; \<open>cn_text\<close> is the text left in the buffer.
\<close>

definition get_gps_sn_data :: "bool \<Rightarrow> string option \<Rightarrow> u32 \<Rightarrow> string \<Rightarrow> int list \<Rightarrow> bool \<Rightarrow> (int \<times> cn_result) option" where
  "get_gps_sn_data opened line elapsed log tab beep =
     (let r = \<lparr>cn_text = Some [], cn_fixed = 0, cn_log = log, cn_table = tab, cn_beep = beep\<rparr> in
      if \<not> opened then Some (1, r\<lparr>cn_text := Some (''[ERROR]Fail to open device interface!'' @ [CHR 0x0A])\<rparr>)
      else case line of
        None \<Rightarrow> Some (0, r\<lparr>cn_text := Some (''[ERROR]Fail to read NMEA 0813 Messages!'' @ [CHR 0x0A])\<rparr>)
      | Some l \<Rightarrow>
          if \<not> has_id (l @ [NUL]) ''$GPGSV'' then Some (0, r)
          else do {
            r \<leftarrow> nmea_process2 8192 128 elapsed l log tab beep;
            Some (cn_fixed r, r) })"

section \<open>The receiver accepts the frames\<close>

text \<open>What a receiver checks of a frame: the two sync octets, the length, and both check sums.\<close>

definition ubx_accepts :: "u8 list \<Rightarrow> bool" where
  "ubx_accepts fr \<longleftrightarrow>
     8 \<le> length fr \<and> take 2 fr = [0xb5, 0x62] \<and> length fr = 8 + unat (fr ! 4) + 256 * unat (fr ! 5) \<and>
     ubx_sum (take (length fr - 4) (drop 2 fr)) = (fr ! (length fr - 2), fr ! (length fr - 1))"

definition ubx_frame :: "u8 \<Rightarrow> u8 \<Rightarrow> u8 list \<Rightarrow> u8 list" where
  "ubx_frame cls ident ubx =
     (let h = ubx_header cls ident (length ubx); (a, c) = ubx_sum (drop 2 h @ ubx) in h @ ubx @ [a, c])"

lemma fst_ubx_sum: "fst (ubx_sum bs) = sum_list bs"
proof -
  have "fst (fold (\<lambda>b (a, c). (a + b, c + (a + b))) bs s) = fst s + sum_list bs" for s :: "u8 \<times> u8"
    by (induction bs arbitrary: s) (auto simp: algebra_simps)
  then show ?thesis by (simp add: ubx_sum_def)
qed

lemma length_ubx_frame [simp]: "length (ubx_frame cls ident ubx) = 8 + length ubx"
  by (simp add: ubx_frame_def ubx_header_def Let_def split: prod.splits)

lemma ubx_frame_accepted: "length ubx < 65536 \<Longrightarrow> ubx_accepts (ubx_frame cls ident ubx)"
proof -
  assume n: "length ubx < 65536"
  have "unat (of_nat (length ubx mod 256) :: u8) + 256 * unat (of_nat (length ubx div 256 mod 256) :: u8) = length ubx"
    using n by (simp add: unat_of_nat)
  then show ?thesis
    by (simp add: ubx_accepts_def ubx_frame_def ubx_header_def Let_def nth_append split: prod.splits)
qed

lemma sum_list_change:
  fixes xs :: "u8 list"
  shows "i < length xs \<Longrightarrow> sum_list (xs[i := b]) = sum_list xs + (b - xs ! i)"
  by (induction xs arbitrary: i) (auto split: nat.splits)

text \<open>A single octet that is changed on the way, after the sync octets, is always noticed.\<close>

lemma ubx_one_error:
  assumes a: "ubx_accepts fr" and i: "2 \<le> i" "i < length fr" and b: "b \<noteq> fr ! i"
  shows "\<not> ubx_accepts (fr[i := b])"
proof
  assume a': "ubx_accepts (fr[i := b])"
  let ?n = "length fr"
  have s: "sum_list (take (?n - 4) (drop 2 fr)) = fr ! (?n - 2)"
    using a fst_ubx_sum by (metis ubx_accepts_def fst_conv)
  have s': "sum_list (take (?n - 4) (drop 2 (fr[i := b]))) = fr[i := b] ! (?n - 2)"
    using a' fst_ubx_sum by (metis ubx_accepts_def fst_conv length_list_update)
  have n: "8 \<le> ?n" using a by (simp add: ubx_accepts_def)
  show False
  proof (cases "i < ?n - 2")
    case True
    obtain j where j: "i = Suc (Suc j)" using i(1) by (metis add_2_eq_Suc le_Suc_ex)
    have d: "drop 2 (fr[i := b]) = (drop 2 fr)[j := b]" by (simp add: j drop_update_swap)
    have t: "take (?n - 4) ((drop 2 fr)[j := b]) = (take (?n - 4) (drop 2 fr))[j := b]"
      by (simp add: take_update_swap)
    have "sum_list (take (?n - 4) (drop 2 (fr[i := b]))) = fr ! (?n - 2) + (b - fr ! i)"
      unfolding d t using sum_list_change [of j "take (?n - 4) (drop 2 fr)" b] s True n by (simp add: j)
    then have "b = fr ! i" using s' True by simp
    then show False using b by simp
  next
    case False
    have u: "take (?n - 4) (drop 2 (fr[i := b])) = take (?n - 4) (drop 2 fr)"
      using False i n by (simp add: drop_update_swap take_update_cancel)
    have "ubx_sum (take (?n - 4) (drop 2 fr)) = (fr ! (?n - 2), fr ! (?n - 1))" using a unfolding ubx_accepts_def by blast
    moreover have "ubx_sum (take (?n - 4) (drop 2 (fr[i := b]))) = (fr[i := b] ! (?n - 2), fr[i := b] ! (?n - 1))"
      using a' unfolding ubx_accepts_def length_list_update by blast
    ultimately have "fr[i := b] ! (?n - 2) = fr ! (?n - 2)" "fr[i := b] ! (?n - 1) = fr ! (?n - 1)"
      using u by auto
    moreover have "i = ?n - 2 \<or> i = ?n - 1" using False i by linarith
    ultimately show False using b i by auto
  qed
qed

lemma bwrite_slow_all:
  assumes "\<forall>k. ws k = 1"
  shows "bwrite_slow ws (n, out) bs i = (i + int (length bs), n + length bs, out @ bs)"
  by (induction bs arbitrary: n out i) (simp_all add: port_write_def assms)

lemma bwrite_all:
  "\<forall>k. ws k = 1 \<Longrightarrow> delay \<noteq> 0 \<Longrightarrow> bwrite ws (n, out) bs delay = (int (length bs), n + length bs, out @ bs)"
  by (simp add: bwrite_def bwrite_slow_all)

lemma gllin_ubx_frame:
  assumes "\<forall>k. ws k = 1" "fd \<noteq> 0" "delay \<noteq> 0"
  shows "gllin_ubx ws (n, out) fd cls ident ubx delay = (True, n + 8 + length ubx, out @ ubx_frame cls ident ubx)"
proof -
  obtain a c where s: "ubx_sum (drop 2 (ubx_header cls ident (length ubx)) @ ubx) = (a, c)" by fastforce
  have h: "length (ubx_header cls ident (length ubx)) = 6" by (simp add: ubx_header_def)
  show ?thesis
    by (cases "ubx = []")
      (use s h in \<open>simp_all add: gllin_ubx_def bwrite_all [OF assms(1,3)] assms(2) ubx_frame_def Let_def\<close>)
qed

text \<open>on a port that takes every octet, a reset sends the receiver two messages, the first of which stops
  it and the second of which starts it. It accepts both, and would notice any single octet of them (after
  the sync octets) that had been changed.
\<close>

theorem gps_reset_frames:
  assumes "\<forall>k. ws k = 1" "fd \<noteq> 0" "reset_bits c = Some bbr"
  shows "\<exists>n' stop start.
     gps_reset ws (n, out) fd c = Some (n', out @ stop @ start) \<and>
     stop = ubx_frame 6 4 [of_nat (bbr mod 256), of_nat (bbr div 256 mod 256), 8, 0] \<and>
     start = ubx_frame 6 4 [of_nat (bbr mod 256), of_nat (bbr div 256 mod 256), 9, 0] \<and>
     ubx_accepts stop \<and> ubx_accepts start \<and>
     (\<forall>fr \<in> {stop, start}. \<forall>i b. 2 \<le> i \<and> i < length fr \<and> b \<noteq> fr ! i \<longrightarrow> \<not> ubx_accepts (fr[i := b]))"
proof -
  let ?f = "\<lambda>k. ubx_frame 6 4 [of_nat (bbr mod 256), of_nat (bbr div 256 mod 256), k, 0]"
  have acc: "ubx_accepts (?f k)" for k by (rule ubx_frame_accepted) simp
  have "gps_reset ws (n, out) fd c = Some (n + 24, out @ ?f 8 @ ?f 9)"
    by (simp add: gps_reset_def assms(3) gllin_ubx_frame [OF assms(1,2)])
  then show ?thesis using acc ubx_one_error by blast
qed

theorem gps_reset_frames_witness:
  "gps_reset (\<lambda>k. 1) (0, []) 3 CHR ''c'' \<noteq> None \<and> reset_bits CHR ''c'' = Some 0x7ff"
proof -
  have r: "reset_bits CHR ''c'' = Some 0x7ff" by (simp add: reset_bits_def)
  have "\<exists>n' out'. gps_reset (\<lambda>k. 1) (0, []) 3 CHR ''c'' = Some (n', out')"
    using gps_reset_frames [of "\<lambda>k. 1" 3 "CHR ''c''" "0x7ff" 0 "[]"] r by auto
  then show ?thesis using r by auto
qed

section \<open>The test for a fix, over sentences\<close>

text \<open>
  The lines as sentences: a GGA sentence with its fields, a GSV sentence with its satellites, or any other
  line. The specification of the test keeps the S/N values and stops at the first fix.
\<close>

datatype nmea_sentence =
    GGA "string list" string
  | GSV string string string "sat list" string
  | Other string

fun sentence_text :: "nmea_sentence \<Rightarrow> string" where
  "sentence_text (GGA fs chk) = nmea_text (''$GPGGA'' # fs) chk"
| "sentence_text (GSV nose sn nosa sats chk) = gsv_line nose sn nosa sats chk"
| "sentence_text (Other l) = l"

fun sentence_ok :: "nmea_sentence \<Rightarrow> bool" where
  "sentence_ok (GGA fs chk) \<longleftrightarrow>
     6 \<le> length fs \<and> (\<forall>f \<in> set fs. plain_field f) \<and> plain_field chk \<and> length (fs ! 5) \<le> 3"
| "sentence_ok (GSV nose sn nosa sats chk) \<longleftrightarrow>
     plain_field nose \<and> plain_field sn \<and> plain_field nosa \<and> plain_field chk \<and>
     (\<forall>x \<in> set sats. sat_wf x) \<and> length sats \<le> 4 \<and> (\<forall>x \<in> set (takeWhile sat_taken sats). sat_prn x \<noteq> 32)"
| "sentence_ok (Other l) \<longleftrightarrow> NUL \<notin> set l \<and> take 6 l \<noteq> ''$GPGGA'' \<and> take 6 l \<noteq> ''$GPGSV''"

fun sentence_step :: "nmea_sentence \<Rightarrow> int list \<Rightarrow> int \<times> int list" where
  "sentence_step (GGA fs chk) tab = (c_atoi (fs ! 5), tab)"
| "sentence_step (GSV nose sn nosa sats chk) tab = (0, record_sats (takeWhile sat_taken sats) tab)"
| "sentence_step (Other l) tab = (0, tab)"

fun gps_spec :: "nmea_sentence list \<Rightarrow> int list \<Rightarrow> int \<times> int list" where
  "gps_spec [] tab = (0, tab)"
| "gps_spec (x # xs) tab =
     (let (q, tab) = sentence_step x tab in if q \<noteq> 0 then (q, tab) else gps_spec xs tab)"

lemma has_id_text: "NUL \<notin> set l \<Longrightarrow> has_id (l @ [NUL]) ident = (take 6 l = take 6 ident)"
  by (simp add: has_id_def c_strneq_def)

lemma nmea_text_Cons: "fs \<noteq> [] \<Longrightarrow> nmea_text (f # fs) chk = f @ CHR '','' # nmea_text fs chk"
  by (simp add: nmea_text_def)

lemma gga_cut:
  assumes "GPGGA (f @ CHR '','' # r) g = Some (rc, s', g')" "\<forall>c \<in> set f. \<not> nmea_delim c \<and> c \<noteq> NUL"
  shows "c_str s' = f"
proof -
  have e: "field_end (f @ CHR '','' # r) 0 = Some (length f, False)"
    using field_end_plain [of f "CHR '',''" "[]" r] assms(2) by (simp add: nmea_delim_def)
  obtain i where "nmea_loop gga_field (f @ CHR '','' # r) 0 (0, g) = Some (s', i, g')"
    using assms(1) by (auto simp: GPGGA_def split: bind_splits)
  then obtain st1 where "nmea_loop gga_field (f @ NUL # r) (Suc (length f)) st1 = Some (s', i, g')"
    using e by (subst (asm) nmea_loop.simps) (auto simp: Let_def list_update_append split: option.splits)
  from nmea_loop_prefix [OF this, of "Suc (length f)"] have "take (Suc (length f)) s' = f @ [NUL]" by simp
  then have "s' = f @ NUL # drop (Suc (length f)) s'"
    using append_take_drop_id [of "Suc (length f)" s'] by simp
  then show ?thesis using assms(2) c_str_pad [of f "drop (Suc (length f)) s'"] by metis
qed

lemma gps_line_GGA:
  assumes "sentence_ok (GGA fs chk)"
  obtains gga where "gps_line (sentence_text (GGA fs chk)) t = Some (t\<lparr>gt_gga := gga, gt_fixed := c_atoi (fs ! 5)\<rparr>)"
proof -
  let ?l = "nmea_text (''$GPGGA'' # fs) chk"
  have id: "\<forall>c \<in> set ''$GPGGA''. \<not> nmea_delim c \<and> c \<noteq> NUL" by (simp add: nmea_delim_def)
  then have pf: "\<forall>f \<in> set (''$GPGGA'' # fs). plain_field f" and pc: "plain_field chk"
    using assms by (auto simp: plain_field_def)
  have f: "nmea_fields ?l = ''$GPGGA'' # fs @ [chk]" using nmea_fields_text [OF _ pf pc] by simp
  have n: "NUL \<notin> set ?l" by (rule no_nul_text [OF _ pf pc]) simp
  have l: "?l = ''$GPGGA'' @ CHR '','' # nmea_text fs chk" using assms by (intro nmea_text_Cons) auto
  obtain s' g' where g: "GPGGA (?l @ [NUL]) (gt_gga t) = Some (0, s', g')" "\<forall>j < 16. gga_list g' ! j =
       (if j < length (nmea_fields ?l) then strncpy_all (gga_sizes ! j) (nmea_fields ?l ! j) else gga_list (gt_gga t) ! j)"
    using GPGGA_read [OF n, of "[]" "gt_gga t"] by auto
  have cut: "c_str s' = ''$GPGGA''"
    by (rule gga_cut [of _ "nmea_text fs chk @ [NUL]"]) (use g(1) id in \<open>simp_all add: l\<close>)
  have "gga_list g' ! 6 = strncpy_all 4 (fs ! 5)"
    using g(2) assms f by (simp add: gga_sizes_def nth_append nth_Cons')
  then have "concat (drop 6 (gga_list g')) = strncpy_all 4 (fs ! 5) @ concat (drop 7 (gga_list g'))"
    by (simp add: gga_list_def)
  moreover have p: "plain_field (fs ! 5)" and l4: "length (fs ! 5) < 4" using assms nth_mem [of 5 fs] by simp_all
  moreover have "NUL \<notin> set (fs ! 5)" using p by (auto simp: plain_field_def)
  ultimately have q: "gga_quality g' = Some (c_atoi (fs ! 5))" by (simp add: gga_quality_def c_str_at_strncpy)
  have h: "has_id (?l @ [NUL]) ''$GPGGA''" using has_id_text [OF n, of "''$GPGGA''"] by (simp add: l)
  have h': "\<not> has_id s' ''$GPGSV''" by (simp add: has_id_def c_strneq_def cut)
  show thesis by (rule that [of g']) (simp add: gps_line_def Let_def h h' g(1) q)
qed

lemma gps_line_GSV:
  assumes "sentence_ok (GSV nose sn nosa sats chk)" "gsv_wf (gt_gsv t)" "length (gt_table t) = 32"
  obtains gsv where "gps_line (sentence_text (GSV nose sn nosa sats chk)) t =
      Some (t\<lparr>gt_gsv := gsv, gt_table := record_sats (takeWhile sat_taken sats) (gt_table t)\<rparr>)" "gsv_wf gsv"
proof -
  let ?l = "gsv_line nose sn nosa sats chk"
  have n: "NUL \<notin> set ?l" using assms(1) by (intro gsv_line_fields) auto
  have tk: "take 6 ?l = ''$GPGSV''" by (simp add: gsv_line_def nmea_text_def)
  have "map_option (\<lambda>(rc, s, g, tab). tab) (GPGSV (?l @ [NUL]) (gt_gsv t) (gt_table t)) =
      Some (record_sats (takeWhile sat_taken sats) (gt_table t))"
    using assms by (subst gsv_table) (auto simp: Let_def)
  then obtain rc s' gsv where g: "GPGSV (?l @ [NUL]) (gt_gsv t) (gt_table t) =
      Some (rc, s', gsv, record_sats (takeWhile sat_taken sats) (gt_table t))" by auto
  show thesis
    by (rule that [of gsv])
      (use g tk has_id_text [OF n] GPGSV_sizes [OF g assms(2)] in \<open>simp_all add: gps_line_def\<close>)
qed

lemma gps_line_Other: "sentence_ok (Other l) \<Longrightarrow> gps_line (sentence_text (Other l)) t = Some t"
  by (simp add: gps_line_def has_id_text)

lemma length_record_sats [simp]: "length (record_sats xs tab) = length tab"
proof -
  have "length (fold (\<lambda>x t. t[nat (sat_prn x) := sat_sn x]) xs tab) = length tab"
    by (induction xs arbitrary: tab) simp_all
  then show ?thesis by (simp add: record_sats_def)
qed

lemma gps_line_step:
  assumes "sentence_ok x" "gsv_wf (gt_gsv t)" "length (gt_table t) = 32" "gt_fixed t = 0"
  obtains t' where "gps_line (sentence_text x) t = Some t'" "(gt_fixed t', gt_table t') = sentence_step x (gt_table t)"
    "gsv_wf (gt_gsv t')" "length (gt_table t') = 32"
proof (cases x)
  case (GGA fs chk)
  then obtain gga where "gps_line (sentence_text x) t = Some (t\<lparr>gt_gga := gga, gt_fixed := c_atoi (fs ! 5)\<rparr>)"
    using gps_line_GGA assms(1) by metis
  then show thesis using GGA assms by (intro that [of "t\<lparr>gt_gga := gga, gt_fixed := c_atoi (fs ! 5)\<rparr>"]) auto
next
  case (GSV nose sn nosa sats chk)
  then obtain gsv where "gps_line (sentence_text x) t =
      Some (t\<lparr>gt_gsv := gsv, gt_table := record_sats (takeWhile sat_taken sats) (gt_table t)\<rparr>)" "gsv_wf gsv"
    using gps_line_GSV assms by metis
  then show thesis using GSV assms
    by (intro that [of "t\<lparr>gt_gsv := gsv, gt_table := record_sats (takeWhile sat_taken sats) (gt_table t)\<rparr>"]) auto
next
  case (Other l)
  then show thesis using gps_line_Other assms by (intro that [of t]) auto
qed

lemma gps_loop_spec:
  assumes "\<forall>x \<in> set xs. sentence_ok x" "gsv_wf (gt_gsv t)" "length (gt_table t) = 32" "gt_fixed t = 0"
  shows "\<exists>t'. gps_loop (map sentence_text xs) t = Some (fst (gps_spec xs (gt_table t)) \<noteq> 0, t') \<and>
     gt_fixed t' = fst (gps_spec xs (gt_table t)) \<and> gt_table t' = snd (gps_spec xs (gt_table t))"
  using assms
proof (induction xs arbitrary: t)
  case Nil
  then show ?case by (simp add: gps_loop.simps)
next
  case (Cons x xs)
  have ok: "sentence_ok x" using Cons.prems(1) by simp
  obtain t' where t': "gps_line (sentence_text x) t = Some t'" "(gt_fixed t', gt_table t') = sentence_step x (gt_table t)"
    "gsv_wf (gt_gsv t')" "length (gt_table t') = 32"
    by (rule gps_line_step [OF ok Cons.prems(2-4)])
  have l: "gps_loop (map sentence_text (x # xs)) t = gps_loop (map sentence_text xs) t'"
    using t'(1) Cons.prems(4) by (subst gps_loop.simps) simp
  show ?case
  proof (cases "gt_fixed t' = 0")
    case True
    then show ?thesis using Cons.IH [OF _ t'(3,4) True] Cons.prems(1) l t'(2) by (auto simp: Let_def split: prod.splits)
  next
    case False
    then have "gps_loop (map sentence_text xs) t' = Some (True, t')" by (subst gps_loop.simps) simp
    then show ?thesis using False l t'(2) by (auto simp: Let_def split: prod.splits)
  qed
qed

text \<open>The values of the table, and the average of its three largest.\<close>

lemma digits_val_bound: "\<forall>c \<in> set s. is_digit c \<Longrightarrow> 0 \<le> digits_val s \<and> digits_val s < 10 ^ length s"
proof (induction s rule: rev_induct)
  case (snoc c s)
  have "0 \<le> digit_val c \<and> digit_val c \<le> 9" using snoc.prems by (auto simp: is_digit_def digit_val_def)
  then show ?case using snoc by (auto simp: digits_val_snoc)
qed (simp add: digits_val_def)

lemma split_sign_length: "length (snd (split_sign s)) \<le> length s"
  by (cases s) auto

lemma c_atoi_small:
  assumes "length s \<le> 3"
  shows "- 999 \<le> c_atoi s"
proof -
  obtain neg t where t: "split_sign (dropWhile is_space s) = (neg, t)" by fastforce
  have "length t \<le> 3" using t split_sign_length [of "dropWhile is_space s"] length_dropWhile_le [of is_space s] assms by simp
  then have "length (takeWhile is_digit t) \<le> 3" using length_takeWhile_le [of is_digit t] by simp
  then have p: "(10 :: int) ^ length (takeWhile is_digit t) \<le> 10 ^ 3" by (intro power_increasing) auto
  have "0 \<le> digits_val (takeWhile is_digit t) \<and> digits_val (takeWhile is_digit t) < 10 ^ length (takeWhile is_digit t)"
    by (rule digits_val_bound) (auto dest: set_takeWhileD)
  then show ?thesis using p by (auto simp: c_atoi_def t clamp_def Let_def)
qed

definition sn_range :: "int list \<Rightarrow> bool" where
  "sn_range tab \<longleftrightarrow> length tab = 32 \<and> (\<forall>v \<in> set tab. - 999 \<le> v \<and> v < 3120)"

lemma sn_range_step:
  assumes "sn_range tab" "sentence_ok x"
  shows "sn_range (snd (sentence_step x tab))"
proof (cases x)
  case (GSV nose sn nosa sats chk)
  have "sn_range (record_sats xs tab)" if "\<forall>y \<in> set xs. sat_wf y \<and> sat_taken y" for xs
    using that assms(1) unfolding record_sats_def
  proof (induction xs arbitrary: tab)
    case (Cons y ys)
    obtain p e a s where y: "y = (p, e, a, s)" by (cases y) auto
    have "- 999 \<le> c_atoi s" "c_atoi s < 3120" using Cons.prems c_atoi_small [of s] by (auto simp: y sat_wf_def sat_taken_def)
    then have "sn_range (tab[nat (sat_prn y) := sat_sn y])"
      using Cons.prems(2) by (auto simp: sn_range_def y dest!: subsetD [OF set_update_subset_insert])
    then show ?case using Cons by simp
  qed simp
  moreover have "\<forall>y \<in> set (takeWhile sat_taken sats). sat_wf y \<and> sat_taken y"
    using assms(2) GSV by (auto dest: set_takeWhileD)
  ultimately show ?thesis using GSV by simp
qed (use assms in simp_all)

lemma sn_range_spec: "sn_range tab \<Longrightarrow> \<forall>x \<in> set xs. sentence_ok x \<Longrightarrow> sn_range (snd (gps_spec xs tab))"
  by (induction xs arbitrary: tab) (use sn_range_step in \<open>fastforce split: prod.splits\<close>)+

definition largest3 :: "int list \<Rightarrow> int \<Rightarrow> int \<Rightarrow> int \<Rightarrow> bool" where
  "largest3 tab a b c \<longleftrightarrow>
     (\<exists>rest. mset tab = rest + {#a, b, c#} \<and> (\<forall>v \<in># rest. v \<le> a \<and> v \<le> b \<and> v \<le> c))"

lemma gps_average_largest:
  assumes "sn_range tab"
  shows "\<exists>a b c. largest3 tab a b c \<and> gps_average tab = Some ((a + b + c) sdiv 3)"
proof -
  define s where "s = sort tab"
  have l: "length s = 32" and m: "mset s = mset tab" and st: "sorted s" using assms by (simp_all add: s_def sn_range_def)
  have split: "s = take 29 s @ [s ! 29, s ! 30, s ! 31]"
    using l by (intro nth_equalityI) (auto simp: nth_append nth_Cons' less_Suc_eq numeral_eq_Suc)
  have "\<forall>v \<in> set (take 29 s). v \<le> s ! 29 \<and> v \<le> s ! 30 \<and> v \<le> s ! 31"
    using st split sorted_append [of "take 29 s" "[s ! 29, s ! 30, s ! 31]"] by auto
  moreover have "mset tab = mset (take 29 s) + {#s ! 29, s ! 30, s ! 31#}" using m split by (metis mset.simps mset_append)
  ultimately have "largest3 tab (s ! 29) (s ! 30) (s ! 31)" unfolding largest3_def
    by (intro exI [of _ "mset (take 29 s)"]) simp
  moreover have b: "- 999 \<le> s ! i \<and> s ! i < 3120" if "i < 32" for i
    using assms nth_mem [of i s] l that by (simp add: s_def sn_range_def)
  have "gps_average tab = Some ((s ! 29 + s ! 30 + s ! 31) sdiv 3)"
    using b [of 29] b [of 30] b [of 31] by (simp add: gps_average_def s_def [symmetric] Let_def ck_int_in)
  ultimately show ?thesis by blast
qed


definition some_gga :: nmea_gga where
  "some_gga = \<lparr>gga_sentence = [], gga_time = [], gga_latitude = [], gga_la = [], gga_longitude = [], gga_lo = [],
     gga_fix_quality = [], gga_nos = [], gga_hdop = [], gga_alme = [], gga_al = [], gga_hog = [], gga_ho = [],
     gga_tis = [], gga_DGPS = [], gga_checksum = []\<rparr>"

definition some_gsv :: nmea_gsv where
  "some_gsv = \<lparr>gsv_sentence = replicate 8 NUL, gsv_nose = replicate 4 NUL, gsv_sn = replicate 4 NUL,
     gsv_nosa = replicate 4 NUL, gsv_tail = replicate 72 NUL\<rparr>"

definition some_sentences :: "nmea_sentence list" where
  "some_sentences =
     [GGA [''123519'', ''4807.038'', ''N'', ''01131.000'', ''E'', ''0'', ''00''] ''47'',
      GSV ''1'' ''1'' ''03'' [(''01'', ''40'', ''083'', ''46''), (''02'', ''17'', ''308'', ''41''), (''14'', ''22'', ''228'', ''45'')] ''75'',
      Other ''$GPVTG'',
      GGA [''123520'', ''4807.038'', ''N'', ''01131.000'', ''E'', ''1'', ''03''] ''46'']"


text \<open>The carrier to noise test on a GSV sentence.\<close>

lemma dec_u32_length: "length (dec_int (sint (x :: u32))) \<le> 11"
proof -
  have "- (2 ^ 31) \<le> sint x \<and> sint x < 2 ^ 31" using sint_range_size [of x] by (simp add: word_size)
  then have "nat (- sint x) < 10 ^ 10" "nat (sint x) < 10 ^ 10" by auto
  then have "length (dec_nat (nat (- sint x))) \<le> 10" "length (dec_nat (nat (sint x))) \<le> 10"
    using dec_nat_length [of _ 10] by auto
  then show ?thesis by (simp add: dec_int_def)
qed

definition cn_report :: "int list \<Rightarrow> string" where
  "cn_report tab = concat (map (\<lambda>i. cn_line i (tab ! i)) (cn_hits tab))"

lemma cn_verdict_length: "length (cn_verdict n) \<le> 9"
  by (simp add: cn_verdict_def)

lemma strstr_here: "prefix_of p s \<Longrightarrow> s \<noteq> [] \<Longrightarrow> c_strstr s p = Some 0"
  by (cases s) auto

lemma cn_sentence:
  assumes "sentence_ok (GSV nose sn nosa sats chk)" "length tab = 32"
  defines "l \<equiv> gsv_line nose sn nosa sats chk" and "tab' \<equiv> record_sats (takeWhile sat_taken sats) tab"
  shows "get_gps_sn_data True (Some l) elapsed log tab beep =
    (if 128 \<le> length (cn_report tab') then None
     else Some (if length (cn_hits tab') = 1 then 1 else 0,
       \<lparr>cn_text = Some (cn_report tab' @ cn_verdict (length (cn_hits tab')) @ ''(time: '' @ dec_int (sint elapsed) @ '')''),
        cn_fixed = (if length (cn_hits tab') = 1 then 1 else 0),
        cn_log = (if cn_hits tab' = [] then log else cn_report tab'), cn_table = tab',
        cn_beep = beep \<or> cn_hits tab' \<noteq> []\<rparr>))"
proof -
  have n: "NUL \<notin> set l" unfolding l_def using assms(1) by (intro gsv_line_fields) auto
  have tk: "take 6 l = ''$GPGSV''" by (simp add: l_def gsv_line_def nmea_text_def)
  then have "l \<noteq> []" "prefix_of ''$GPGSV'' l" by (auto simp: prefix_of_def eval_nat_numeral)
  then have st: "c_strstr l ''$GPGSV'' = Some 0" by (simp add: strstr_here)
  let ?g = "\<lparr>gsv_sentence = replicate 8 NUL, gsv_nose = replicate 4 NUL, gsv_sn = replicate 4 NUL,
      gsv_nosa = replicate 4 NUL, gsv_tail = replicate 72 NUL\<rparr>"
  have "gsv_wf ?g" by (simp add: gsv_wf_def)
  then have "map_option (\<lambda>(rc, s, g, tab). tab) (GPGSV (l @ [NUL]) ?g tab) = Some tab'"
    using assms(1,2) unfolding l_def tab'_def by (subst gsv_table) (auto simp: Let_def)
  then obtain rc s' gsv where g: "GPGSV (l @ [NUL]) ?g tab = Some (rc, s', gsv, tab')" by auto
  have len: "length (cn_report tab' @ cn_verdict (length (cn_hits tab')) @ ''(time: '' @ dec_int (sint elapsed) @ '')'')
      \<le> length (cn_report tab') + 28"
    using dec_u32_length [of elapsed] cn_verdict_length [of "length (cn_hits tab')"] by simp
  have e: "cn_report tab' = []" if "cn_hits tab' = []" using that by (simp add: cn_report_def)
  show ?thesis
    using len e
    by (auto simp: get_gps_sn_data_def has_id_text [OF n] tk nmea_process2_def st g Let_def sprintf_to_def
        cn_report_def [symmetric])
qed

lemma card_one_iff: "card S = 1 \<longleftrightarrow> (\<exists>!x. x \<in> S)"
proof -
  have "card S = 1 \<longleftrightarrow> (\<exists>x. S = {x})" by (simp add: card_1_singleton_iff)
  then show ?thesis by blast
qed

text \<open>the CN test. Given a GSV sentence it passes exactly when one entry of the table has reached the
  threshold, and shows the entries; when their text has 128 characters or more it overruns the array of
  the log. When the device cannot be opened the test passes too, since that error returns the same value.
\<close>

theorem cn_test_verdict:
  assumes "sentence_ok (GSV nose sn nosa sats chk)" "length tab = 32"
  defines "l \<equiv> gsv_line nose sn nosa sats chk" and "tab' \<equiv> record_sats (takeWhile sat_taken sats) tab"
  shows "(case get_gps_sn_data True (Some l) elapsed log tab beep of
       None \<Rightarrow> 128 \<le> length (cn_report tab')
     | Some (rc, r) \<Rightarrow> length (cn_report tab') < 128 \<and> (rc = 1 \<longleftrightarrow> (\<exists>!i. i < 32 \<and> 38 \<le> tab' ! i)) \<and> (rc = 0 \<or> rc = 1) \<and>
         (cn_hits tab' \<noteq> [] \<longrightarrow> cn_log r = cn_report tab')) \<and>
    map_option fst (get_gps_sn_data False (Some l) elapsed log tab beep) = Some 1"
proof -
  have v: "length (cn_hits tab') = 1 \<longleftrightarrow> (\<exists>!i. i < 32 \<and> 38 \<le> tab' ! i)"
  proof -
    have "distinct (cn_hits tab')" "set (cn_hits tab') = {i. i < 32 \<and> 38 \<le> tab' ! i}"
      by (auto simp: cn_hits_def CN_THRESHOLD_def)
    then have "length (cn_hits tab') = card {i. i < 32 \<and> 38 \<le> tab' ! i}" by (metis distinct_card)
    then show ?thesis using card_one_iff [of "{i. i < 32 \<and> 38 \<le> tab' ! i}"] by simp
  qed
  have d: "map_option fst (get_gps_sn_data False (Some l) elapsed log tab beep) = Some 1"
    by (simp add: get_gps_sn_data_def)
  note g = cn_sentence [OF assms(1,2), of elapsed log beep, folded l_def tab'_def]
  show ?thesis
  proof (cases "128 \<le> length (cn_report tab')")
    case True
    then show ?thesis using d by (simp add: g)
  next
    case False
    then show ?thesis using d v by (cases "length (cn_hits tab') = 1") (simp_all add: g)
  qed
qed

theorem cn_test_verdict_witness:
  "map_option fst (get_gps_sn_data False
     (Some (gsv_line ''1'' ''1'' ''01'' [(''07'', ''40'', ''083'', ''46'')] ''75'')) 0 [] (replicate 32 (-1)) False) = Some 1 \<and>
   sentence_ok (GSV ''1'' ''1'' ''01'' [(''07'', ''40'', ''083'', ''46'')] ''75'')"
proof -
  have ok: "sentence_ok (GSV ''1'' ''1'' ''01'' [(''07'', ''40'', ''083'', ''46'')] ''75'')" by code_simp
  show ?thesis using cn_test_verdict [OF ok, of "replicate 32 (-1)" 0 "[]" False] ok by simp
qed

end
