(* ===== verification/Shell.thy ===== *)
theory Shell
  imports Lgsm_Api Scanf
begin

text \<open>
  The command shell of the tool \<^verbatim>\<open>libgsmd-tool\<close> (\<^verbatim>\<open>gsm/src/util/shell.c\<close>): a word that the user types is
  turned into a request of the client library. The words are kept in an array of 1025 characters that the
  packets of the daemon share. What an uninitialised array on the stack holds is the argument \<open>stk\<close>. A
  pointer that \<open>strchr\<close> did not find and that is used all the same is \<open>None\<close>.
\<close>

abbreviation (input) STDIN_BUF_SIZE :: nat where "STDIN_BUF_SIZE \<equiv> 1024"

record shell =
  sh_buf :: string
  sh_in :: string
  nFIND :: int
  nREADRG :: int

text \<open>What a command makes the loop do: a library call, nothing, the end of the program, or a pause.\<close>

datatype 'h shell_act =
    Act_Send "'h sender"
  | Act_Nothing
  | Act_Exit
  | Act_Eof
  | Act_Sleep int

section \<open>Words\<close>

text \<open>\<open>fscanf (stdin, "%s", buf)\<close>: the result is \<open>False\<close> at the end of the input.\<close>

definition scan_word :: "shell \<Rightarrow> (bool \<times> shell) option" where
  "scan_word sh =
     (let s = dropWhile is_space (sh_in sh)
      in if s = [] then Some (False, sh\<lparr>sh_in := []\<rparr>)
         else do {
           b \<leftarrow> wrn (sh_buf sh) 0 (takeWhile (Not \<circ> is_space) s @ [NUL]);
           Some (True, sh\<lparr>sh_buf := b, sh_in := dropWhile (Not \<circ> is_space) s\<rparr>) })"

text \<open>The C string at an offset of the array, the offset of a character, and the number behind it.\<close>

definition buf_str :: "string \<Rightarrow> nat \<Rightarrow> string option" where
  "buf_str buf p = c_str_at (drop p buf)"

definition buf_chr :: "string \<Rightarrow> nat \<Rightarrow> char \<Rightarrow> nat option" where
  "buf_chr buf p c = do { s \<leftarrow> buf_str buf p; n \<leftarrow> c_strchr s c; Some (p + n) }"

definition buf_num :: "string \<Rightarrow> nat \<Rightarrow> int option" where
  "buf_num buf p = map_option c_atoi (buf_str buf p)"

text \<open>\<open>strchr (buf, c)\<close> followed by \<open>atoi (ptr + 1)\<close>.\<close>

definition num_after :: "string \<Rightarrow> char \<Rightarrow> int option" where
  "num_after buf c = do { p \<leftarrow> buf_chr buf 0 c; buf_num buf (Suc p) }"

text \<open>The arrays on the stack.\<close>

definition stack_array :: "(nat \<Rightarrow> char) \<Rightarrow> nat \<Rightarrow> nat \<Rightarrow> string" where
  "stack_array stk p n = map (\<lambda>i. stk (p + i)) [0 ..< n]"

text \<open>\<open>strncpy (a, s, n); a[n] = 0\<close> where \<open>s\<close> has \<open>n\<close> characters or more.\<close>

definition store_str :: "string \<Rightarrow> string \<Rightarrow> string option" where
  "store_str a s = wrn a 0 (s @ [NUL])"

section \<open>Phone book\<close>

definition shell_pf :: "(nat \<Rightarrow> char) \<Rightarrow> string \<Rightarrow> string option" where
  "shell_pf stk buf = do {
     p \<leftarrow> buf_chr buf 0 CHR ''='';
     s \<leftarrow> buf_str buf (Suc p);
     a \<leftarrow> c_strncpy (stack_array stk 0 15) s 14;
     wr a (length s) NUL }"

definition shell_pw :: "(nat \<Rightarrow> char) \<Rightarrow> string \<Rightarrow> 'h sender option" where
  "shell_pw stk buf = do {
     index \<leftarrow> num_after buf CHR ''='';
     f \<leftarrow> buf_chr buf 0 CHR '','';
     l \<leftarrow> buf_chr buf (Suc f) CHR '','';
     numb \<leftarrow> store_str (stack_array stk 4 45) (take (l - f - 1) (drop (Suc f) buf));
     c \<leftarrow> rd numb 0;
     s \<leftarrow> buf_str buf (Suc l);
     text \<leftarrow> store_str (stack_array stk 56 15) s;
     Some (lgsm_pb_write_entry index numb (if c = CHR ''+'' then 145 else 129) text) }"

text \<open>The array \<open>storage\<close> has three characters, of which the last stays uninitialised; the library takes two.\<close>

definition shell_pp :: "string \<Rightarrow> string option" where
  "shell_pp buf = do {
     p \<leftarrow> buf_chr buf 0 CHR ''='';
     s \<leftarrow> buf_str buf (Suc p);
     Some (take 2 s) }"

definition shell_pb :: "(nat \<Rightarrow> char) \<Rightarrow> shell \<Rightarrow> 'h shell_act option" where
  "shell_pb stk sh =
     (let buf = sh_buf sh; w = c_str buf; cmd = (\<lambda>s. c_strneq w s (length s)) in
      if cmd ''pd'' then do { k \<leftarrow> num_after buf CHR ''=''; Some (Act_Send (lgsm_pb_del_entry k)) }
      else if cmd ''prr'' then do {
        i \<leftarrow> num_after buf CHR ''='';
        j \<leftarrow> num_after buf CHR '','';
        Some (Act_Send (lgsm_pb_read_entries i j)) }
      else if cmd ''pr'' then do { k \<leftarrow> num_after buf CHR ''=''; Some (Act_Send (lgsm_pb_read_entry k)) }
      else if cmd ''pf'' then do { a \<leftarrow> shell_pf stk buf; Some (Act_Send (lgsm_pb_find_entry a)) }
      else if cmd ''pw'' then do { r \<leftarrow> shell_pw stk buf; Some (Act_Send r) }
      else if cmd ''pm'' then Some (Act_Send lgsm_pb_list_storage)
      else if cmd ''pp'' then do { s \<leftarrow> shell_pp buf; Some (Act_Send (lgsm_pb_set_storage s)) }
      else if cmd ''ps'' then Some (Act_Send lgsm_pb_get_support)
      else if cmd ''pRr'' then Some (if nREADRG sh \<noteq> 0 then Act_Send (lgsm_pb_retrieve_readrg (nREADRG sh)) else Act_Nothing)
      else if cmd ''pRf'' then Some (if nFIND sh \<noteq> 0 then Act_Send (lgsm_pb_retrieve_find (nFIND sh)) else Act_Nothing)
      else Some Act_Nothing)"

section \<open>Short messages\<close>

text \<open>The number between the two commas, and where the text begins.\<close>

definition shell_addr :: "string \<Rightarrow> (string \<times> nat) option" where
  "shell_addr buf = do {
     f \<leftarrow> buf_chr buf 0 CHR '','';
     l \<leftarrow> buf_chr buf (Suc f) CHR '','';
     a \<leftarrow> sprintf_to 13 (take (l - f - 1) (drop (Suc f) buf));
     Some (a, l) }"

text \<open>\<open>data\<close> is the array of 141 octets in the structure before the text is packed into it.\<close>

definition shell_message :: "u8 list \<Rightarrow> string \<Rightarrow> string \<Rightarrow> int \<Rightarrow> lgsm_sms option" where
  "shell_message data addr txt ask = do {
     (j, n, d) \<leftarrow> packing_7bit_character (octets txt) data;
     Some \<lparr>ls_addr = addr, alpha = 0, ls_data = d, ls_length = int n, ls_ask_ds = ask\<rparr> }"

text \<open>
  A text that begins with a quote which the word does not close: the rest up to the closing quote is read
  to the end of the word, and the text begins behind the opening one. The result is \<open>None\<close> inside
  at the end of the input.
\<close>

definition read_quoted :: "nat \<Rightarrow> shell \<Rightarrow> ((nat \<times> shell) option) option" where
  "read_quoted l sh = do {
     c \<leftarrow> rd (sh_buf sh) (Suc l);
     s \<leftarrow> (if c = CHR 0x22 then buf_str (sh_buf sh) (Suc (Suc l)) else Some [CHR 0x22]);
     if c = CHR 0x22 \<and> c_strchr s CHR 0x22 = None then
       (if sh_in sh = [] then Some None
        else do {
          w \<leftarrow> buf_str (sh_buf sh) l;
          let t = takeWhile (\<lambda>c. c \<noteq> CHR 0x22) (sh_in sh);
          let r = dropWhile (\<lambda>c. c \<noteq> CHR 0x22) (sh_in sh);
          if t = [] then Some (Some (Suc l, sh))
          else do {
            b \<leftarrow> wrn (sh_buf sh) (l + length w) (t @ [NUL]);
            Some (Some (Suc l, sh\<lparr>sh_buf := b, sh_in := drop 1 r\<rparr>)) } })
     else Some (Some (l, sh)) }"

definition shell_ss :: "u8 list \<Rightarrow> shell \<Rightarrow> ('h shell_act \<times> shell) option" where
  "shell_ss data sh = do {
     ask \<leftarrow> num_after (sh_buf sh) CHR ''='';
     (addr, l) \<leftarrow> shell_addr (sh_buf sh);
     q \<leftarrow> read_quoted l sh;
     case q of
       None \<Rightarrow> Some (Act_Eof, sh\<lparr>sh_in := []\<rparr>)
     | Some (l, sh) \<Rightarrow> do {
         txt \<leftarrow> buf_str (sh_buf sh) (Suc l);
         m \<leftarrow> shell_message data addr txt ask;
         Some (Act_Send (lgsm_sms_send m), sh) } }"

definition shell_sw :: "u8 list \<Rightarrow> string \<Rightarrow> 'h sender option" where
  "shell_sw data buf = do {
     st \<leftarrow> num_after buf CHR ''='';
     (addr, l) \<leftarrow> shell_addr buf;
     txt \<leftarrow> buf_str buf (Suc l);
     m \<leftarrow> shell_message data addr txt 0;
     Some (lgsm_sms_write st m) }"

definition sM_format :: "conv list" where
  "sM_format = lits ''sM='' @ [C_Int True] @ lits '','' @ [C_Int True] @ lits '','' @ [C_Int True]"

definition shell_sM :: "string \<Rightarrow> 'h shell_act" where
  "shell_sM w = (case sscanf w sM_format of
       (_, [V_Int a, V_Int b, V_Int c]) \<Rightarrow> Act_Send (lgsm_sms_set_storage a b c)
     | _ \<Rightarrow> Act_Nothing)"

text \<open>A pointer from \<open>strchr\<close> that is tested, together with the length of what it points to.\<close>

definition long_value :: "string \<Rightarrow> (nat \<times> string) option option" where
  "long_value buf = do {
     w \<leftarrow> buf_str buf 0;
     case c_strchr w CHR ''='' of
       None \<Rightarrow> Some None
     | Some p \<Rightarrow> Some (if length (drop p w) < 6 then None else Some (p, drop (Suc p) w)) }"

definition shell_sms :: "u8 list \<Rightarrow> shell \<Rightarrow> ('h shell_act \<times> shell) option" where
  "shell_sms data sh =
     (let buf = sh_buf sh; w = c_str buf; cmd = (\<lambda>s. c_strneq w s (length s));
          send = (\<lambda>r. Some (Act_Send r, sh)) in
      if cmd ''sd'' then do {
        i \<leftarrow> num_after buf CHR ''='';
        d \<leftarrow> num_after buf CHR '','';
        send (lgsm_sms_delete i d) }
      else if cmd ''sl'' then do { k \<leftarrow> num_after buf CHR ''=''; send (lgsm_sms_list k) }
      else if cmd ''sr'' then do { k \<leftarrow> num_after buf CHR ''=''; send (lgsm_sms_read k) }
      else if cmd ''ss'' then shell_ss data sh
      else if cmd ''sw'' then do { r \<leftarrow> shell_sw data buf; send r }
      else if cmd ''sm'' then send lgsm_sms_get_storage
      else if cmd ''sM'' then Some (shell_sM w, sh)
      else if cmd ''sc'' then send lgsm_sms_get_smsc
      else if cmd ''sC'' then do {
        v \<leftarrow> long_value buf;
        case v of None \<Rightarrow> Some (Act_Nothing, sh) | Some (p, s) \<Rightarrow> send (lgsm_sms_set_smsc s) }
      else Some (Act_Nothing, sh))"

section \<open>All commands\<close>

definition is_pb_cmd :: "string \<Rightarrow> bool" where
  "is_pb_cmd w \<longleftrightarrow> (\<exists>s \<in> set [''pd'', ''prr'', ''pr'', ''pf'', ''pw'', ''pm'', ''pp'', ''ps'', ''pRr'', ''pRf'']. c_strneq w s (length s))"

definition is_sms_cmd :: "string \<Rightarrow> bool" where
  "is_sms_cmd w \<longleftrightarrow> (\<exists>s \<in> set [''sd'', ''sl'', ''sr'', ''ss'', ''sw'', ''sm'', ''sM'', ''sc'', ''sC'']. c_strneq w s (length s))"

text \<open>\<open>behind\<close> is the octet behind the address structure, and \<open>data\<close> the array of a short message.\<close>

definition shell_cmd :: "(nat \<Rightarrow> char) \<Rightarrow> u8 \<Rightarrow> u8 list \<Rightarrow> shell \<Rightarrow> ('h shell_act \<times> shell) option" where
  "shell_cmd stk behind data sh =
     (let buf = sh_buf sh; w = c_str buf; first = (\<lambda>c. w \<noteq> [] \<and> hd w = c); send = (\<lambda>r. Some (Act_Send r, sh)) in
      if w = ''h'' \<or> w = ''?'' then Some (Act_Nothing, sh)
      else if w = ''H'' then send lgsm_voice_hangup
      else if first CHR ''D'' then
        (if length w < 2 then Some (Act_Nothing, sh)
         else do {
           a \<leftarrow> c_strncpy (stack_array stk 4 32) (drop 1 w) 31;
           a \<leftarrow> wr a 31 NUL;
           send (lgsm_voice_out_init \<lparr>la_type = 129, la_addr = octets a\<rparr> behind) })
      else if w = ''A'' then send lgsm_voice_in_accept
      else if w = ''O'' then send (lgsm_phone_power 1)
      else if w = ''o'' then send (lgsm_phone_power 0)
      else if w = ''r'' then send (lgsm_netreg_register (NUL # ''     ''))
      else if first CHR ''R'' then do {
        v \<leftarrow> long_value buf;
        case v of
          None \<Rightarrow> Some (Act_Nothing, sh)
        | Some (p, s) \<Rightarrow> do { oper \<leftarrow> rdn buf (Suc p) 6; send (lgsm_netreg_register oper) } }
      else if w = ''U'' then send lgsm_netreg_deregister
      else if w = ''P'' then send lgsm_oper_get
      else if w = ''L'' then send lgsm_opers_get
      else if w = ''Q'' then send lgsm_signal_quality
      else if w = ''q'' then Some (Act_Exit, sh)
      else if first CHR ''T'' then
        (if length w < 2 then Some (Act_Nothing, sh) else send (lgsm_voice_dtmf (w ! 1)))
      else if is_pb_cmd w then map_option (\<lambda>a. (a, sh)) (shell_pb stk sh)
      else if is_sms_cmd w then shell_sms data sh
      else if w = ''n'' then send lgsm_get_subscriber_num
      else if c_strneq w ''im'' 2 then send lgsm_get_imsi
      else if first CHR ''S'' then
        (case num_after buf CHR ''='' of
           None \<Rightarrow> Some (Act_Sleep 5, sh)
         | Some k \<Rightarrow> Some (Act_Sleep (if k < 0 then 5 else k), sh))
      else Some (Act_Nothing, sh))"

text \<open>
  One round with input on \<open>stdin\<close>: the word, the command, and the octets that go to the daemon. The
  result \<open>None\<close> inside is the end of the program.
\<close>

definition shell_round ::
  "(nat \<Rightarrow> char) \<Rightarrow> u8 \<Rightarrow> u8 list \<Rightarrow> bool \<Rightarrow> (string \<Rightarrow> int) \<Rightarrow> shell \<times> 'h lgsm_handle \<Rightarrow>
     (((shell \<times> 'h lgsm_handle) \<times> string) option) option" where
  "shell_round stk behind data mem_ok net = (\<lambda>(sh, lh). do {
     (ok, sh) \<leftarrow> scan_word sh;
     if \<not> ok then Some None
     else do {
       (act, sh) \<leftarrow> shell_cmd stk behind data sh;
       Some (case act of
          Act_Send f \<Rightarrow> (let (rc, lh, out) = f mem_ok net lh in Some ((sh, lh), out))
        | Act_Nothing \<Rightarrow> Some ((sh, lh), [])
        | Act_Sleep k \<Rightarrow> Some ((sh, lh), [])
        | Act_Exit \<Rightarrow> None
        | Act_Eof \<Rightarrow> None) } })"

end
