(* ===== verification/Tool.thy ===== *)
theory Tool
  imports Shell Septets Sms_Pdu Llparse
begin

text \<open>
  What \<^verbatim>\<open>libgsmd-tool\<close> does with what arrives from the daemon: the handlers of answers of \<^verbatim>\<open>gsm/src/util/shell.c\<close>,
  the handlers of events of \<^verbatim>\<open>event.c\<close>, and the one that asks for a PIN, of \<^verbatim>\<open>pin.c\<close>. A handler reads the
  octets of the message and prints. An octet that the daemon never wrote, an index outside of a table of
  names and a text that leaves its array have the value \<open>None\<close>. The handlers of answers end without a
  \<open>return\<close>; what the register of the result then holds is the argument \<open>rv\<close>.
\<close>

section \<open>State\<close>

text \<open>The variables of the shell, what was printed, and what was sent to the daemon.\<close>

record tool =
  tl_shell :: shell
  tl_out :: string
  tl_sent :: string

datatype tool_handler =
    H_incall | H_insms | H_incbm | H_inds | H_clip | H_colp | H_netreg | H_sigq | H_cprog | H_error | H_pin
  | H_pt | H_pb | H_sms | H_net

definition say :: "string \<Rightarrow> int \<Rightarrow> 'h lgsm_handle \<times> tool \<Rightarrow> (int \<times> 'h lgsm_handle \<times> tool) option" where
  "say s rc = (\<lambda>(lh, w). Some (rc, lh, w\<lparr>tl_out := tl_out w @ s\<rparr>))"

text \<open>The conversions \<open>%10s\<close> and \<open>%04X\<close>, and a character that a string literal cannot hold.\<close>

definition pad_left :: "nat \<Rightarrow> string \<Rightarrow> string" where
  "pad_left n s = replicate (n - length s) CHR '' '' @ s"

fun hex_nat :: "nat \<Rightarrow> nat \<Rightarrow> string" where
  "hex_nat 0 n = []"
| "hex_nat (Suc k) n = hex_nat k (n div 16) @ [hex_digit (n mod 16)]"

definition quotes :: "string \<Rightarrow> string" where
  "quotes s = [CHR 0x22] @ s @ [CHR 0x22, LF]"

definition name_of :: "string list \<Rightarrow> nat \<Rightarrow> string option" where
  "name_of names i = rd names i"

section \<open>Short messages\<close>

text \<open>The octets of an array up to the first one that was never written.\<close>

fun octets_set :: "mem \<Rightarrow> u8 list" where
  "octets_set (Some c # m) = of_nat (char_code c) # octets_set m"
| "octets_set _ = []"

definition rd_payload :: "mem \<Rightarrow> nat \<Rightarrow> gsmd_sms option" where
  "rd_payload m i = do {
     l \<leftarrow> mem_u8 m i;
     c \<leftarrow> mem_u8 m (i + 1);
     h \<leftarrow> mem_i32 m (i + 2);
     v \<leftarrow> mem_i32 m (i + 6);
     Some \<lparr>sms_length = l, coding_scheme = c, has_header = h, is_voicemail = v,
       dcs = \<lparr>msg_class = 0, alphabet = 0, is_compressed = 0, mwi_group = 0, mwi_active = 0, mwi_kind = 0, raw_dcs_data = 0\<rparr>,
       sms_data = octets_set (take (GSMD_SMS_DATA_MAXLEN + 1) (drop (i + 35) m))\<rparr>
   }"

text \<open>A time stamp, with the digits in swapped nibbles.\<close>

definition nibbles :: "u8 \<Rightarrow> string" where
  "nibbles x = dec_nat (unat (x AND 15)) @ dec_nat (unat (drop_bit 4 x))"

definition stamp_text :: "u8 list \<Rightarrow> string" where
  "stamp_text t =
     nibbles (t ! 0) @ ''-'' @ nibbles (t ! 1) @ ''-'' @ nibbles (t ! 2) @ '' '' @ nibbles (t ! 3) @ '':'' @ nibbles (t ! 4) @
     '':'' @ nibbles (t ! 5) @ '', GMT'' @ (if t ! 6 AND 8 \<noteq> 0 then ''-'' else ''+'') @
     dec_nat (drop_bit 2 ((push_bit 4 (unat (t ! 6)) OR drop_bit 4 (unat (t ! 6))) AND 63))"

text \<open>The number, with a plus if it is international, and the time; the structure is at \<open>i\<close>.\<close>

definition sms_from :: "mem \<Rightarrow> nat \<Rightarrow> string option" where
  "sms_from m i = do {
     a \<leftarrow> mem_u8 m (i + 15);
     n \<leftarrow> mem_str m (i + 16);
     t \<leftarrow> mem_u8s m (i + 8) 7;
     Some ((if a AND GSMD_TOA_TON_MASK = GSMD_TOA_TON_INTERNATIONAL then ''+'' else []) @ n @ '', at '' @ stamp_text t @ [LF])
   }"

text \<open>The text; the array \<open>payload\<close> has 164 characters.\<close>

definition sms_body :: "mem \<Rightarrow> nat \<Rightarrow> string option" where
  "sms_body m i = do {
     p \<leftarrow> rd_payload m (i + 49);
     if coding_scheme p = ALPHABET_DEFAULT then do {
       s \<leftarrow> unpacking_7bit_character p;
       if length s \<ge> GSMD_SMS_DATA_MAXLEN then None else Some (quotes (c_str (u8s s)))
     }
     else if coding_scheme p = ALPHABET_8BIT then Some (''8-bit encoded data'' @ [LF])
     else if coding_scheme p = ALPHABET_UCS2 then Some (''Unicode-16 encoded text'' @ [LF])
     else Some []
   }"

definition sms_voice :: "string \<Rightarrow> mem \<Rightarrow> nat \<Rightarrow> string option" where
  "sms_voice s m i = map_option (\<lambda>v. if v \<noteq> 0 then s @ [LF] else []) (mem_i32 m (i + 55))"

section \<open>Events\<close>

text \<open>\<open>aux\<close> begins behind the header; the data of an inlined message are behind its 40 octets.\<close>

type_synonym handler_fn = "mem \<Rightarrow> tool_handler lgsm_handle \<times> tool \<Rightarrow> (int \<times> tool_handler lgsm_handle \<times> tool) option"

definition incall_handler :: handler_fn where
  "incall_handler aux lw = do {
     t \<leftarrow> mem_u32 aux 0;
     say (''EVENT: Incoming call type = '' @ dec_nat (unat t) @ [LF]) 0 lw
   }"

definition insms_handler :: handler_fn where
  "insms_handler aux lw = do {
     inlined \<leftarrow> mem_i32 aux 0;
     if inlined \<noteq> 0 then do {
       v \<leftarrow> sms_voice ''EVENT: You have a voice mail '' aux 40;
       f \<leftarrow> sms_from aux 40;
       b \<leftarrow> sms_body aux 40;
       say (v @ ''EVENT: Incoming SMS from/to '' @ f @ b) 0 lw
     }
     else do {
       k \<leftarrow> mem_i32 aux 8;
       say (''EVENT: Incoming SMS stored at location '' @ dec_int k @ [LF]) 0 lw
     }
   }"

definition scope_name :: "string list" where
  "scope_name = [''immediate-display cell'', ''PLMN'', ''Location Area'', ''cell'']"

definition lang_name :: "string list" where
  "lang_name = [''German'', ''English'', ''Italian'', ''French'', ''Spanish'', ''Dutch'', ''Swedish'', ''Danish'', ''Portuguese'',
     ''Finnish'', ''Norwegian'', ''Greek'', ''Turkish'', ''Hungarian'', ''Polish'', ''an unspecified language'']"

definition incbm_handler :: handler_fn where
  "incbm_handler aux lw = do {
     inlined \<leftarrow> mem_i32 aux 0;
     if inlined \<noteq> 0 then do {
       sc \<leftarrow> mem_u32 aux 40;
       sc \<leftarrow> name_of scope_name (unat sc);
       la \<leftarrow> mem_u32 aux 56;
       la \<leftarrow> name_of lang_name (unat la);
       pg \<leftarrow> mem_i32 aux 68;
       ps \<leftarrow> mem_i32 aux 64;
       let head = ''EVENT: Incoming '' @ sc @ ''-wide Cell Broadcast message in '' @ la @ '' (page '' @ dec_int pg @ '' of '' @
         dec_int ps @ '')'' @ [LF];
       c \<leftarrow> mem_u8 aux 60;
       if c = ALPHABET_DEFAULT then do {
         s \<leftarrow> cbm_unpacking_7bit_character (octets_set (take 82 (drop 72 aux)));
         say (head @ quotes (c_str (u8s s))) 0 lw
       }
       else if c = ALPHABET_8BIT then say (head @ ''8-bit encoded data'' @ [LF]) 0 lw
       else if c = ALPHABET_UCS2 then say (head @ ''Unicode-16 encoded text'' @ [LF]) 0 lw
       else say head 0 lw
     }
     else do {
       k \<leftarrow> mem_i32 aux 8;
       say (''EVENT: Incoming Cell Broadcast message stored at location '' @ dec_int k @ [LF]) 0 lw
     }
   }"

definition inds_handler :: handler_fn where
  "inds_handler aux lw = do {
     inlined \<leftarrow> mem_i32 aux 0;
     if inlined \<noteq> 0 then do {
       i \<leftarrow> mem_u8 aux 40;
       c \<leftarrow> mem_u8 aux 90;
       say (''EVENT: Incoming Status Report'' @ [LF] @ ''message ref = '' @ dec_nat (unat i) @ '', status = '' @
         dec_nat (unat c) @ [LF]) 0 lw
     }
     else do {
       k \<leftarrow> mem_i32 aux 8;
       say (''EVENT: Incoming Status Report stored at location '' @ dec_int k @ [LF]) 0 lw
     }
   }"

definition clip_handler :: handler_fn where
  "clip_handler aux lw = do { n \<leftarrow> mem_str aux 1; say (''EVENT: Incoming call clip = '' @ n @ [LF]) 0 lw }"

definition colp_handler :: handler_fn where
  "colp_handler aux lw = do { n \<leftarrow> mem_str aux 1; say (''EVENT: Outgoing call colp = '' @ n @ [LF]) 0 lw }"

definition netreg_text :: "int \<Rightarrow> string" where
  "netreg_text s =
     (if s = 0 then ''not searching for network '' else if s = 1 then ''registered (home network) ''
      else if s = 2 then ''searching for network '' else if s = 3 then ''registration denied ''
      else if s = 5 then ''registered (roaming) '' else [])"

definition netreg_handler :: handler_fn where
  "netreg_handler aux lw = do {
     s \<leftarrow> mem_i32 aux 0;
     lac \<leftarrow> mem_u16 aux 4;
     ci \<leftarrow> mem_u16 aux 6;
     say (''EVENT: Netreg '' @ netreg_text s @
       (if lac \<noteq> 0 then ''LocationAreaCode = 0x'' @ hex_nat 4 (unat lac) @ '' '' else []) @
       (if ci \<noteq> 0 then ''CellID = 0x'' @ hex_nat 4 (unat ci) @ '' '' else []) @ [LF]) 0 lw
   }"

definition sigq_handler :: handler_fn where
  "sigq_handler aux lw = do { r \<leftarrow> mem_u8 aux 0; say (''EVENT: Signal Quality: '' @ dec_nat (unat r) @ [LF]) 0 lw }"

definition cprog_names :: "string list" where
  "cprog_names = [''SETUP'', ''DISCONNECT'', ''ALERT'', ''PROCEED'', ''SYNC'', ''PROGRESS'', ''CONNECTED'', ''RELEASE'', ''REJECT'',
     ''UNKNOWN'']"

definition cdir_names :: "string list" where
  "cdir_names = [''Outgoing'', ''Incoming'', ''CCBS'', ''Outgoing Redial'']"

definition cprog_handler :: handler_fn where
  "cprog_handler aux lw = do {
     p \<leftarrow> mem_u32 aux 0;
     x \<leftarrow> mem_u8 aux 38;
     let name = (if unat p \<ge> length cprog_names then ''UNDEFINED'' else cprog_names ! unat p);
     let dir = cdir_names ! unat (drop_bit 2 x AND 3);
     say (''EVENT: '' @ dir @ '' Call Progress: '' @ name @ [LF]) 0 lw
   }"

text \<open>\<open>cme_err\<close> and \<open>cms_err\<close> are members of one union: their numbers are the same octets.\<close>

definition error_handler :: handler_fn where
  "error_handler aux lw = do {
     n \<leftarrow> mem_u32 aux 0;
     if n \<noteq> 0 then say (''cme error: '' @ dec_nat (unat n) @ [LF]) 0 lw else say [] 0 lw
   }"

definition event_init :: "tool_handler lgsm_handle \<Rightarrow> (int \<times> tool_handler lgsm_handle) option" where
  "event_init lh =
     foldl (\<lambda>r (e, h). do {
         (rc, lh) \<leftarrow> r;
         (rc', lh) \<leftarrow> lgsm_evt_handler_register (int e) (Some h) lh;
         Some (or_rc rc rc', lh) }) (Some (0, lh))
       [(GSMD_EVT_IN_CALL, H_incall), (GSMD_EVT_IN_CLIP, H_clip), (GSMD_EVT_IN_SMS, H_insms), (GSMD_EVT_IN_CBM, H_incbm),
        (GSMD_EVT_IN_DS, H_inds), (GSMD_EVT_OUT_COLP, H_colp), (GSMD_EVT_NETREG, H_netreg), (GSMD_EVT_SIGNAL, H_sigq),
        (GSMD_EVT_OUT_STATUS, H_cprog), (GSMD_EVT_IN_ERROR, H_error)]"

section \<open>PIN\<close>

text \<open>\<open>fscanf (stdin, "%8s", buf)\<close> in a loop that ends when a word was read: at the end of the input it goes on for ever.\<close>

definition read_pin :: "string \<Rightarrow> (string \<times> string) option" where
  "read_pin inp =
     (let s = dropWhile is_space inp; w = take 8 (takeWhile (Not \<circ> is_space) s)
      in if s = [] then None else Some (w, drop (length w) s))"

text \<open>\<open>pin\<close> is the option \<open>-p\<close> of the program; \<open>mem_ok\<close> and \<open>net\<close> are the allocation and the socket.\<close>

definition pin_handler :: "string option \<Rightarrow> bool \<Rightarrow> (string \<Rightarrow> int) \<Rightarrow> handler_fn" where
  "pin_handler pin mem_ok net aux lw = do {
     t \<leftarrow> mem_u32 aux 0;
     let name = lgsm_pin_name (unat t);
     let request = ''EVENT: PIN request (type='' @ [CHR 0x27] @ name @ [CHR 0x27] @ '') '';
     let (lh, w) = lw;
     case (if t = 1 then pin else None) of
       Some p \<Rightarrow>
         (let (rc, lh, out) = lgsm_pin (unat t) p None mem_ok net lh
          in Some (0, lh, w\<lparr>tl_out := tl_out w @ request @ ''Auto-responding with pin `'' @ p @ [CHR 0x27, LF],
               tl_sent := tl_sent w @ out\<rparr>))
     | None \<Rightarrow> do {
         (p, inp) \<leftarrow> read_pin (sh_in (tl_shell w));
         let text = request @ ''Please enter '' @ name @ '': '';
         (new, inp, text) \<leftarrow>
           (if int (unat t) = GSMD_PIN_SIM_PUK \<or> int (unat t) = GSMD_PIN_SIM_PUK2
            then do { (q, inp) \<leftarrow> read_pin inp; Some (Some q, inp, text @ ''Please enter new PIN: '') }
            else Some (None, inp, text));
         let (rc, lh, out) = lgsm_pin (unat t) p new mem_ok net lh;
         Some (rc, lh, w\<lparr>tl_shell := tl_shell w\<lparr>sh_in := inp\<rparr>, tl_out := tl_out w @ text, tl_sent := tl_sent w @ out\<rparr>)
       }
   }"

definition pin_init :: "tool_handler lgsm_handle \<Rightarrow> (int \<times> tool_handler lgsm_handle) option" where
  "pin_init lh = lgsm_evt_handler_register (int GSMD_EVT_PIN) (Some H_pin) lh"

section \<open>Answers\<close>

definition pt_msghandler :: "int \<Rightarrow> handler_fn" where
  "pt_msghandler rv gmh lw = do { s \<leftarrow> mem_str gmh 8; say (''RSTR=`'' @ s @ [CHR 0x27, LF]) rv lw }"

definition pb_text :: "mem \<Rightarrow> nat \<Rightarrow> string \<Rightarrow> string option" where
  "pb_text m i sep = do {
     k \<leftarrow> mem_u8 m i;
     n \<leftarrow> mem_str m (i + 1);
     a \<leftarrow> mem_u8 m (i + 46);
     t \<leftarrow> mem_str m (i + 47);
     Some (dec_nat (unat k) @ sep @ n @ sep @ dec_nat (unat a) @ sep @ t @ [LF])
   }"

text \<open>The entries from \<open>i\<close> on, 62 octets each; \<open>n\<close> of them.\<close>

fun pb_texts :: "nat \<Rightarrow> mem \<Rightarrow> nat \<Rightarrow> string option" where
  "pb_texts 0 m i = Some []"
| "pb_texts (Suc n) m i = do { s \<leftarrow> pb_text m i '',''; t \<leftarrow> pb_texts n m (i + 62); Some (s @ t) }"

fun storage_texts :: "nat \<Rightarrow> mem \<Rightarrow> nat \<Rightarrow> string option" where
  "storage_texts 0 m i = Some [LF]"
| "storage_texts (Suc n) m i = do { s \<leftarrow> mem_str m i; t \<leftarrow> storage_texts n m (i + 8); Some (s @ '', '' @ t) }"

definition set_shell :: "(shell \<Rightarrow> shell) \<Rightarrow> tool \<Rightarrow> tool" where
  "set_shell f w = w\<lparr>tl_shell := f (tl_shell w)\<rparr>"

definition pb_msghandler :: "int \<Rightarrow> handler_fn" where
  "pb_msghandler rv gmh lw = do {
     sub \<leftarrow> mem_u8 gmh 2;
     let (lh, w) = lw;
     if sub = GSMD_PHONEBOOK_FIND then do {
       n \<leftarrow> mem_i32 gmh 8;
       say (''Records:'' @ dec_int n @ [LF]) rv (lh, set_shell (nFIND_update (\<lambda>_. n)) w)
     }
     else if sub = GSMD_PHONEBOOK_READRG then do {
       n \<leftarrow> mem_i32 gmh 8;
       say (''Records:'' @ dec_int n @ [LF]) rv (lh, set_shell (nREADRG_update (\<lambda>_. n)) w)
     }
     else if sub = GSMD_PHONEBOOK_READ then do {
       k \<leftarrow> mem_u8 gmh 8;
       s \<leftarrow> (if k \<noteq> 0 then pb_text gmh 8 '', '' else Some (''Empty'' @ [LF]));
       say s rv lw
     }
     else if sub = GSMD_PHONEBOOK_GET_SUPPORT then do {
       i \<leftarrow> mem_u8 gmh 8;
       n \<leftarrow> mem_u8 gmh 9;
       t \<leftarrow> mem_u8 gmh 10;
       say (''(1-'' @ dec_nat (unat i) @ ''), '' @ dec_nat (unat n) @ '', '' @ dec_nat (unat t) @ [LF]) rv lw
     }
     else if sub = GSMD_PHONEBOOK_LIST_STORAGE then do {
       n \<leftarrow> mem_u8 gmh 8;
       s \<leftarrow> storage_texts (unat n) gmh 9;
       say s rv lw
     }
     else if sub = GSMD_PHONEBOOK_WRITE \<or> sub = GSMD_PHONEBOOK_DELETE \<or> sub = GSMD_PHONEBOOK_SET_STORAGE then do {
       s \<leftarrow> mem_str gmh 8;
       say (s @ [LF]) rv lw
     }
     else if sub = GSMD_PHONEBOOK_RETRIEVE_READRG then do {
       s \<leftarrow> pb_texts (nat (nREADRG (tl_shell w))) gmh 8;
       say s rv (lh, set_shell (nREADRG_update (\<lambda>_. 0)) w)
     }
     else if sub = GSMD_PHONEBOOK_RETRIEVE_FIND then do {
       s \<leftarrow> pb_texts (nat (nFIND (tl_shell w))) gmh 8;
       say s rv (lh, set_shell (nFIND_update (\<lambda>_. 0)) w)
     }
     else if sub = GSMD_PHONEBOOK_GET_IMSI then do {
       s \<leftarrow> mem_str gmh 8;
       say (''imsi <'' @ s @ ''>'' @ [LF]) rv lw
     }
     else say [] (- EINVAL) lw
   }"

definition msgtype :: "string list" where
  "msgtype = [''Unread'', ''Received'', ''Unsent'', ''Sent'']"

definition memtype :: "string list" where
  "memtype = [''Unknown'', ''Broadcast'', ''Me message'', ''MT'', ''SIM'', ''TA'', ''SR'']"

definition mem_text :: "mem \<Rightarrow> nat \<Rightarrow> string \<Rightarrow> string option" where
  "mem_text m i label = do {
     t \<leftarrow> mem_u8 m i;
     n \<leftarrow> name_of memtype (unat t);
     u \<leftarrow> mem_u16 m (i + 4);
     a \<leftarrow> mem_u16 m (i + 6);
     Some (label @ '': '' @ n @ '' ('' @ dec_nat (unat t) @ '')       Occupied: '' @ dec_nat (unat u) @ '' / '' @ dec_nat (unat a) @ [LF])
   }"

text \<open>The negation of a result overflows for the least number.\<close>

definition result_text :: "string \<Rightarrow> string \<Rightarrow> int \<Rightarrow> string \<Rightarrow> int \<Rightarrow> string option" where
  "result_text ok special code err r =
     (if r \<ge> 0 then Some (ok @ dec_int r @ [LF])
      else do { k \<leftarrow> ck_int (- r); Some (if k = code then special @ [LF] else err @ dec_int r @ [LF]) })"

definition sms_msghandler :: "int \<Rightarrow> handler_fn" where
  "sms_msghandler rv gmh lw = do {
     sub \<leftarrow> mem_u8 gmh 2;
     if sub = GSMD_SMS_LIST \<or> sub = GSMD_SMS_READ then do {
       v \<leftarrow> sms_voice (''it'' @ [CHR 0x27] @ ''s a voicemail '') gmh 8;
       st \<leftarrow> mem_i32 gmh 12;
       t \<leftarrow> (if st < 0 then None else name_of msgtype (nat st));
       i \<leftarrow> mem_u8 gmh 8;
       f \<leftarrow> sms_from gmh 8;
       b \<leftarrow> sms_body gmh 8;
       say (v @ t @ '' message '' @ dec_nat (unat i) @ '' from/to '' @ f @ b) rv lw
     }
     else if sub = GSMD_SMS_SEND then do {
       r \<leftarrow> mem_i32 gmh 8;
       s \<leftarrow> result_text ''Send: message sent as ref '' ''Store: congestion'' 42 ''Store: error '' r;
       say s rv lw
     }
     else if sub = GSMD_SMS_WRITE then do {
       r \<leftarrow> mem_i32 gmh 8;
       s \<leftarrow> result_text ''Store: message stored with index '' ''Store: SIM not inserted'' 310 ''Store: error '' r;
       say s rv lw
     }
     else if sub = GSMD_SMS_DELETE then do {
       r \<leftarrow> mem_i32 gmh 8;
       say ((if r = 0 then ''Delete: success'' else if r = 310 then ''Delete: SIM not inserted''
         else if r = 321 then ''Delete: invalid memory index'' else ''Delete: error '' @ dec_int r) @ [LF]) rv lw
     }
     else if sub = GSMD_SMS_GET_MSG_STORAGE then do {
       a \<leftarrow> mem_text gmh 8 ''mem1'';
       b \<leftarrow> mem_text gmh 16 ''mem2'';
       c \<leftarrow> mem_text gmh 24 ''mem3'';
       say (a @ b @ c) rv lw
     }
     else if sub = GSMD_SMS_GET_SERVICE_CENTRE then do {
       n \<leftarrow> mem_str gmh 9;
       say (''Number of the default Service Centre is '' @ n @ [LF]) rv lw
     }
     else say [] (- EINVAL) lw
   }"

definition oper_stat :: "string list" where
  "oper_stat = [''of unknown status'', ''available'', ''our current operator'', ''forbidden'']"

text \<open>The operators up to the entry that is marked as the last one, 40 octets each.\<close>

function oper_texts :: "mem \<Rightarrow> string option" where
  "oper_texts m =
     (case mem_i32 m 4 of
        None \<Rightarrow> None
      | Some l \<Rightarrow>
          if l \<noteq> 0 then Some []
          else do {
            num \<leftarrow> mem_strn 6 (drop 32 m);
            lng \<leftarrow> mem_strn 16 (drop 8 m);
            sht \<leftarrow> mem_strn 8 (drop 24 m);
            st \<leftarrow> mem_u32 m 0;
            st \<leftarrow> name_of oper_stat (unat st);
            t \<leftarrow> oper_texts (drop 40 m);
            Some (pad_left 8 num @ ''   '' @ pad_left 16 lng @ '',   '' @ sht @ '' for short, is '' @ st @ [LF] @ t)
          })"
  by pat_completeness auto
termination
  by (relation "measure length") (auto simp: mem_i32_def mem_u32_def mem_chars_def rdn_def split: bind_splits if_splits)

declare oper_texts.simps [simp del]

definition srvname :: "string list" where
  "srvname = [''asynchronous modem'', ''synchronous modem'', ''PAD Access (asynchronous)'', ''Packet Access (synchronous)'',
     ''voice'', ''fax'']"

definition net_msghandler :: "int \<Rightarrow> handler_fn" where
  "net_msghandler rv gmh lw = do {
     sub \<leftarrow> mem_u8 gmh 2;
     if sub = GSMD_NETWORK_SIGQ_GET then do {
       r \<leftarrow> mem_u8 gmh 8;
       b \<leftarrow> mem_u8 gmh 9;
       say ((if r = 99 then ''Signal undetectable'' else ''Signal quality '' @ dec_int (- 113 + uint r * 2) @ '' dBm'') @ [LF] @
         (if b = 99 then ''Error rate undetectable'' else ''Bit error rate '' @ dec_nat (unat b)) @ [LF]) rv lw
     }
     else if sub = GSMD_NETWORK_OPER_GET then do {
       s \<leftarrow> mem_str gmh 8;
       say ((if s \<noteq> [] then ''Our current operator is '' @ s else ''No current operator'') @ [LF]) rv lw
     }
     else if sub = GSMD_NETWORK_OPER_LIST then do { s \<leftarrow> oper_texts (drop 8 gmh); say s rv lw }
     else if sub = GSMD_NETWORK_GET_NUMBER then do {
       n \<leftarrow> mem_str gmh 17;
       name \<leftarrow> mem_str gmh 50;
       k \<leftarrow> mem_i32 gmh 12;
       srv \<leftarrow> (if k = - 1 then Some [] else if k < 0 then None else
         map_option (\<lambda>s. '' related to '' @ s @ '' services'') (name_of srvname (nat k)));
       say ([CHR 0x09] @ n @ [CHR 0x09] @ pad_left 10 name @ srv @ [LF]) rv lw
     }
     else say [] (- EINVAL) lw
   }"

section \<open>The tool\<close>

text \<open>What the handlers do, and the registrations of \<open>main\<close> and \<open>shell_main\<close>.\<close>

definition tool_env :: "int \<Rightarrow> string option \<Rightarrow> bool \<Rightarrow> (string \<Rightarrow> int) \<Rightarrow> (tool_handler, tool) lgsm_env" where
  "tool_env rv pin mem_ok net = \<lparr>
     msg_fn = (\<lambda>h. case h of H_pt \<Rightarrow> pt_msghandler rv | H_pb \<Rightarrow> pb_msghandler rv | H_sms \<Rightarrow> sms_msghandler rv
       | H_net \<Rightarrow> net_msghandler rv | _ \<Rightarrow> (\<lambda>_ _. None)),
     evt_fn = (\<lambda>h _. case h of H_incall \<Rightarrow> incall_handler | H_insms \<Rightarrow> insms_handler | H_incbm \<Rightarrow> incbm_handler
       | H_inds \<Rightarrow> inds_handler | H_clip \<Rightarrow> clip_handler | H_colp \<Rightarrow> colp_handler | H_netreg \<Rightarrow> netreg_handler
       | H_sigq \<Rightarrow> sigq_handler | H_cprog \<Rightarrow> cprog_handler | H_error \<Rightarrow> error_handler
       | H_pin \<Rightarrow> pin_handler pin mem_ok net | _ \<Rightarrow> (\<lambda>_ _. None))\<rparr>"

definition shell_register :: "tool_handler lgsm_handle \<Rightarrow> tool_handler lgsm_handle option" where
  "shell_register lh = do {
     (_, lh) \<leftarrow> lgsm_register_handler 2 (Some (Msg_Handler H_pt)) lh;
     (_, lh) \<leftarrow> lgsm_register_handler 5 (Some (Msg_Handler H_pb)) lh;
     (_, lh) \<leftarrow> lgsm_register_handler 9 (Some (Msg_Handler H_sms)) lh;
     (_, lh) \<leftarrow> lgsm_register_handler 6 (Some (Msg_Handler H_net)) lh;
     Some lh
   }"

text \<open>A connected tool in shell mode.\<close>

definition tool_start :: "u16 \<Rightarrow> tool_handler lgsm_handle option" where
  "tool_start ident = do {
     h \<leftarrow> lgsm_init True True (replicate 17 None) ident;
     lh \<leftarrow> h;
     (_, lh) \<leftarrow> pin_init lh;
     (_, lh) \<leftarrow> event_init lh;
     shell_register lh
   }"

end
