(* ===== verification/Shell_Laws.thy ===== *)
theory Shell_Laws
  imports Shell Short_Messages
begin

text \<open>
  From the keyboard to the modem: what a word typed into the shell makes the daemon queue. The table of
  words is the one that the shell prints as its help.
\<close>

section \<open>Words in the array\<close>

text \<open>The array holds the word \<open>w\<close>, with anything behind its NUL.\<close>

lemma buf_str_word: "NUL \<notin> set w \<Longrightarrow> p \<le> length w \<Longrightarrow> buf_str (w @ NUL # r) p = Some (drop p w)"
proof -
  assume "NUL \<notin> set w" "p \<le> length w"
  moreover from this have "NUL \<notin> set (drop p w)" using set_drop_subset [of p w] by blast
  ultimately show ?thesis by (simp add: buf_str_def c_str_at_def)
qed

lemma buf_chr_word:
  "NUL \<notin> set w \<Longrightarrow> p \<le> length w \<Longrightarrow> buf_chr (w @ NUL # r) p c = map_option ((+) p) (c_strchr (drop p w) c)"
  by (cases "c_strchr (drop p w) c") (simp_all add: buf_chr_def buf_str_word)

lemma buf_chr_at:
  assumes "NUL \<notin> set (a @ b @ c # d)" "c \<notin> set b"
  shows "buf_chr (a @ b @ c # d @ NUL # r) (length a) c = Some (length a + length b)"
  using buf_chr_word [of "a @ b @ c # d" "length a" r c] assms by (simp add: c_strchr_app)

lemma buf_str_at: "NUL \<notin> set (a @ b) \<Longrightarrow> buf_str (a @ b @ NUL # r) (length a) = Some b"
  using buf_str_word [of "a @ b" "length a" r] by simp

lemma num_after_word:
  assumes "NUL \<notin> set (a @ c # b)" "c \<notin> set a"
  shows "num_after (a @ c # b @ NUL # r) c = Some (c_atoi b)"
proof -
  have "buf_chr (a @ c # b @ NUL # r) 0 c = Some (length a)" using buf_chr_at [of "[]" a c b r] assms by simp
  moreover have "buf_str (a @ c # b @ NUL # r) (Suc (length a)) = Some b"
    using buf_str_at [of "a @ [c]" b r] assms(1) by simp
  ultimately show ?thesis by (simp add: num_after_def buf_num_def)
qed

text \<open>The word that \<open>scanf\<close> finds.\<close>

definition typed :: "string \<Rightarrow> string \<Rightarrow> bool" where
  "typed w inp \<longleftrightarrow> (\<exists>sp rest. inp = sp @ w @ rest \<and> (\<forall>c \<in> set sp. is_space c) \<and> (rest = [] \<or> is_space (hd rest)))"

definition plain_word :: "string \<Rightarrow> bool" where
  "plain_word w \<longleftrightarrow> w \<noteq> [] \<and> length w \<le> STDIN_BUF_SIZE \<and> (\<forall>c \<in> set w. \<not> is_space c \<and> c \<noteq> NUL)"

lemma scan_typed:
  assumes "typed w (sh_in sh)" "plain_word w" "length (sh_buf sh) = STDIN_BUF_SIZE + 1"
  obtains r sh' where "scan_word sh = Some (True, sh')" "sh_buf sh' = w @ NUL # r" "nFIND sh' = nFIND sh" "nREADRG sh' = nREADRG sh"
proof -
  obtain sp rest where i: "sh_in sh = sp @ w @ rest" "\<forall>c \<in> set sp. is_space c" "rest = [] \<or> is_space (hd rest)"
    using assms(1) by (auto simp: typed_def)
  have w: "w \<noteq> []" "\<forall>c \<in> set w. \<not> is_space c" "length w \<le> 1024" using assms(2) by (auto simp: plain_word_def)
  have d: "dropWhile is_space (sh_in sh) = w @ rest" using i(1,2) w(1,2) by (cases w) auto
  have t: "takeWhile (Not \<circ> is_space) (w @ rest) = w" "dropWhile (Not \<circ> is_space) (w @ rest) = rest"
    using w(2) i(3) by (cases rest; auto simp: takeWhile_append dropWhile_append)+
  have "wrn (sh_buf sh) 0 (w @ [NUL]) = Some ((w @ [NUL]) @ drop (length w + 1) (sh_buf sh))"
    using w(3) assms(3) by (simp add: wrn_def)
  then show thesis
    by (intro that [of "sh\<lparr>sh_buf := w @ NUL # drop (length w + 1) (sh_buf sh), sh_in := rest\<rparr>" "drop (length w + 1) (sh_buf sh)"])
      (use w(1) in \<open>simp_all add: scan_word_def d Let_def t\<close>)
qed

section \<open>The words of the requests\<close>

fun shell_word :: "request \<Rightarrow> string option" where
  "shell_word Voice_Hangup = Some ''H''"
| "shell_word (Voice_Out_Init s) = Some (''D'' @ s)"
| "shell_word Voice_In_Accept = Some ''A''"
| "shell_word (Phone_Power on) = Some (if on then ''O'' else ''o'')"
| "shell_word (Netreg_Register s) = Some (''R='' @ s)"
| "shell_word Netreg_Deregister = Some ''U''"
| "shell_word Oper_Get = Some ''P''"
| "shell_word Opers_Get = Some ''L''"
| "shell_word Signal_Quality = Some ''Q''"
| "shell_word (Voice_Dtmf c) = Some (''T'' @ [c])"
| "shell_word (Pb_Del_Entry k) = Some (''pd='' @ dec_int k)"
| "shell_word (Pb_Read_Entries i j) = Some (''prr='' @ dec_nat i @ '','' @ dec_nat j)"
| "shell_word (Pb_Read_Entry k) = Some (''pr='' @ dec_int k)"
| "shell_word (Pb_Find_Entry s) = Some (''pf='' @ s)"
| "shell_word (Pb_Write_Entry i s s' typ t t') = Some (''pw='' @ dec_nat i @ '','' @ s @ '','' @ t)"
| "shell_word Pb_List_Storage = Some ''pm''"
| "shell_word (Pb_Set_Storage s) = Some (''pp='' @ s)"
| "shell_word Pb_Get_Support = Some ''ps''"
| "shell_word (Sms_Delete i d) = Some (''sd='' @ dec_nat i @ '','' @ dec_nat d)"
| "shell_word (Sms_List k) = Some (''sl='' @ dec_int k)"
| "shell_word (Sms_Read k) = Some (''sr='' @ dec_int k)"
| "shell_word Sms_Get_Storage = Some ''sm''"
| "shell_word (Sms_Set_Storage a b c) = Some (''sM='' @ dec_nat a @ '','' @ dec_nat b @ '','' @ dec_nat c)"
| "shell_word Sms_Get_Smsc = Some ''sc''"
| "shell_word (Sms_Set_Smsc s) = Some (''sC='' @ s)"
| "shell_word Get_Subscriber_Num = Some ''n''"
| "shell_word Get_Imsi = Some ''im''"
| "shell_word _ = None"

text \<open>
  Numbers are not negative; a network has five or six characters, the number of a centre at least five; the
  number of a phone book entry has no comma, and its type follows from a plus sign. Behind the strings of
  an entry comes what the arrays on the stack held.
\<close>

fun word_ok :: "(nat \<Rightarrow> char) \<Rightarrow> request \<Rightarrow> bool" where
  "word_ok stk (Voice_Out_Init s) \<longleftrightarrow> s \<noteq> []"
| "word_ok stk (Netreg_Register s) \<longleftrightarrow> length s = 5 \<or> length s = 6"
| "word_ok stk (Pb_Del_Entry k) \<longleftrightarrow> 0 \<le> k"
| "word_ok stk (Pb_Read_Entry k) \<longleftrightarrow> 0 \<le> k"
| "word_ok stk (Sms_Read k) \<longleftrightarrow> 0 \<le> k"
| "word_ok stk (Sms_Set_Smsc s) \<longleftrightarrow> 5 \<le> length s"
| "word_ok stk (Pb_Write_Entry i s s' typ t t') \<longleftrightarrow>
     CHR '','' \<notin> set s \<and> typ = (if s \<noteq> [] \<and> hd s = CHR ''+'' then 145 else 129) \<and>
     s' = drop (Suc (length s)) (stack_array stk 4 45) \<and> t' = drop (Suc (length t)) (stack_array stk 56 15)"
| "word_ok stk r \<longleftrightarrow> True"

text \<open>The command does what the function of the library does.\<close>

definition does :: "(nat \<Rightarrow> char) \<Rightarrow> u8 \<Rightarrow> u8 list \<Rightarrow> shell \<Rightarrow> 'h lgsm_handle \<Rightarrow> request \<Rightarrow> bool" where
  "does stk behind data sh lh r \<longleftrightarrow>
     (\<exists>f. shell_cmd stk behind data sh = Some (Act_Send f, sh) \<and> f True all_sent lh = request_fn r True all_sent lh)"

lemma dec_not: "c \<in> set (dec_nat n) \<Longrightarrow> is_digit c"
  using dec_nat_digits [of n] by blast

lemma dec_char: "CHR '','' \<notin> set (dec_nat n)" "CHR ''='' \<notin> set (dec_nat n)" "NUL \<notin> set (dec_nat n)"
  by (auto simp: is_digit_def char_code_def dest: dec_not)

lemma atoi_dec: "0 \<le> k \<Longrightarrow> int32 k \<Longrightarrow> c_atoi (dec_int k) = k"
  using c_atoi_dec_nat [of "nat k" "[]"] by (auto simp: dec_int_def int32_def)

lemma atoi_dec_comma: "n < 2147483648 \<Longrightarrow> c_atoi (dec_nat n @ CHR '','' # r) = int n"
  by (rule c_atoi_dec_nat) (simp_all add: is_digit_def char_code_def)

lemma dec_int_chars: "0 \<le> k \<Longrightarrow> c \<notin> set (dec_nat (nat k)) \<Longrightarrow> c \<notin> set (dec_int k)"
  by (simp add: dec_int_def)

text \<open>The two families of commands.\<close>

lemma pb_dispatch:
  assumes "c_str (sh_buf sh) = CHR ''p'' # w" "is_pb_cmd (CHR ''p'' # w)"
  shows "shell_cmd stk behind data sh = map_option (\<lambda>a. (a, sh)) (shell_pb stk sh)"
  using assms by (simp add: shell_cmd_def)

lemma sms_dispatch:
  assumes "c_str (sh_buf sh) = CHR ''s'' # w" "is_sms_cmd (CHR ''s'' # w)"
  shows "shell_cmd stk behind data sh = shell_sms data sh"
proof -
  have "\<not> is_pb_cmd (CHR ''s'' # w)" by (simp add: is_pb_cmd_def c_strneq_def)
  then show ?thesis using assms by (simp add: shell_cmd_def)
qed

lemmas family_defs = is_pb_cmd_def is_sms_cmd_def c_strneq_def shell_pb_def shell_sms_def does_def request_fn_def Let_def

lemma simple_words:
  assumes "shell_word r = Some w" "sh_buf sh = w @ NUL # b"
    "r \<in> {Voice_Hangup, Voice_In_Accept, Phone_Power on, Netreg_Deregister, Oper_Get, Opers_Get, Signal_Quality,
      Pb_List_Storage, Pb_Get_Support, Sms_Get_Storage, Sms_Get_Smsc, Get_Subscriber_Num, Get_Imsi}"
  shows "does stk behind data sh lh r"
proof -
  have "NUL \<notin> set w" using assms(1,3) by (cases on) auto
  then have c: "Some (c_str (sh_buf sh)) = shell_word r" by (simp add: assms(1,2))
  from assms(3) consider "r = Voice_Hangup" | "r = Voice_In_Accept" | "r = Phone_Power on" | "r = Netreg_Deregister" | "r = Oper_Get"
    | "r = Opers_Get" | "r = Signal_Quality" | "r = Pb_List_Storage" | "r = Pb_Get_Support" | "r = Sms_Get_Storage"
    | "r = Sms_Get_Smsc" | "r = Get_Subscriber_Num" | "r = Get_Imsi" by blast
  then show ?thesis
  proof cases
    case 3
    then show ?thesis using c by (cases on) (auto simp: shell_cmd_def does_def request_fn_def Let_def)
  next
    case 8
    then have "c_str (sh_buf sh) = ''pm''" using c by simp
    then show ?thesis using 8 by (simp add: family_defs pb_dispatch [of sh])
  next
    case 9
    then have "c_str (sh_buf sh) = ''ps''" using c by simp
    then show ?thesis using 9 by (simp add: family_defs pb_dispatch [of sh])
  next
    case 10
    then have "c_str (sh_buf sh) = ''sm''" using c by simp
    then show ?thesis using 10 by (simp add: family_defs sms_dispatch [of sh])
  next
    case 11
    then have "c_str (sh_buf sh) = ''sc''" using c by simp
    then show ?thesis using 11 by (simp add: family_defs sms_dispatch [of sh])
  next
    case 12
    then show ?thesis using c by (simp add: shell_cmd_def family_defs)
  next
    case 13
    then show ?thesis using c by (simp add: shell_cmd_def family_defs)
  qed (use c in \<open>simp_all add: shell_cmd_def does_def request_fn_def Let_def\<close>)
qed

text \<open>One number.\<close>

lemma number_words:
  assumes "shell_word r = Some w" "sh_buf sh = w @ NUL # b" "0 \<le> k" "int32 k"
    "r \<in> {Pb_Del_Entry k, Pb_Read_Entry k, Sms_List k, Sms_Read k}"
  shows "does stk behind data sh lh r"
proof -
  obtain p where w: "w = (p @ [CHR ''='']) @ dec_int k" and p: "p \<in> {''pd'', ''pr'', ''sl'', ''sr''}"
    and r: "(p, r) \<in> {(''pd'', Pb_Del_Entry k), (''pr'', Pb_Read_Entry k), (''sl'', Sms_List k), (''sr'', Sms_Read k)}"
    using assms(1,5) by auto
  have n: "NUL \<notin> set w" using p dec_int_str(1) by (auto simp: w)
  have "num_after (p @ CHR ''='' # dec_int k @ NUL # b) CHR ''='' = Some (c_atoi (dec_int k))"
    by (rule num_after_word) (use n p in \<open>auto simp: w\<close>)
  then have na: "num_after (sh_buf sh) CHR ''='' = Some k" using assms(2-4) by (simp add: w atoi_dec)
  have c: "c_str (sh_buf sh) = w" using n by (simp add: assms(2))
  from r consider "p = ''pd''" "r = Pb_Del_Entry k" | "p = ''pr''" "r = Pb_Read_Entry k" | "p = ''sl''" "r = Sms_List k"
    | "p = ''sr''" "r = Sms_Read k" by auto
  then show ?thesis
    by cases (simp_all add: family_defs na c w pb_dispatch [of sh] sms_dispatch [of sh])
qed

text \<open>Two numbers.\<close>

lemma number2_words:
  assumes "shell_word r = Some w" "sh_buf sh = w @ NUL # b" "i < 256" "j < 256"
    "r \<in> {Pb_Read_Entries i j, Sms_Delete i j}"
  shows "does stk behind data sh lh r"
proof -
  obtain p where w: "w = p @ CHR ''='' # dec_nat i @ CHR '','' # dec_nat j" and p: "p \<in> {''prr'', ''sd''}"
    and r: "(p, r) \<in> {(''prr'', Pb_Read_Entries i j), (''sd'', Sms_Delete i j)}"
    using assms(1,5) by auto
  have n: "NUL \<notin> set w" using p dec_char by (auto simp: w)
  have "num_after (p @ CHR ''='' # (dec_nat i @ CHR '','' # dec_nat j) @ NUL # b) CHR ''='' = Some (c_atoi (dec_nat i @ CHR '','' # dec_nat j))"
    by (rule num_after_word) (use n p in \<open>auto simp: w\<close>)
  then have na: "num_after (sh_buf sh) CHR ''='' = Some (int i)" using assms(2,3) by (simp add: w atoi_dec_comma)
  have "num_after ((p @ CHR ''='' # dec_nat i) @ CHR '','' # dec_nat j @ NUL # b) CHR '','' = Some (c_atoi (dec_nat j))"
    by (rule num_after_word) (use n p dec_char in \<open>auto simp: w\<close>)
  then have nb: "num_after (sh_buf sh) CHR '','' = Some (int j)" using assms(2,4) c_atoi_dec_nat [of j "[]"] by (simp add: w)
  have c: "c_str (sh_buf sh) = w" using n by (simp add: assms(2))
  from r consider "p = ''prr''" "r = Pb_Read_Entries i j" | "p = ''sd''" "r = Sms_Delete i j" by auto
  then show ?thesis
    by cases (simp_all add: family_defs na nb c w pb_dispatch [of sh] sms_dispatch [of sh])
qed

lemma long_value_word:
  assumes "NUL \<notin> set (p @ CHR ''='' # s)" "CHR ''='' \<notin> set p" "5 \<le> length s"
  shows "long_value (p @ CHR ''='' # s @ NUL # b) = Some (Some (length p, s))"
proof -
  have "buf_str (p @ CHR ''='' # s @ NUL # b) 0 = Some (p @ CHR ''='' # s)"
    using buf_str_word [of "p @ CHR ''='' # s" 0 b] assms(1) by simp
  then show ?thesis using assms(2,3) by (simp add: long_value_def c_strchr_app)
qed

lemma char_array_stack:
  assumes "length s \<le> n" "NUL \<notin> set s"
  shows "c_strncpy (stack_array stk k (Suc n)) s n = Some (s @ replicate (n - length s) NUL @ [stk (k + n)])"
  using assms by (simp add: c_strncpy_def wrn_def stack_array_def)

lemma replicate_snoc: "replicate n x @ [x] = replicate (Suc n) x" "k \<le> n \<Longrightarrow> replicate (n - k) x @ [x] = replicate (Suc n - k) x"
  by (simp_all add: replicate_append_same Suc_diff_le)

text \<open>Strings.\<close>

lemma string_words:
  assumes "shell_word r = Some w" "sh_buf sh = w @ NUL # b" "request_ok r" "word_ok stk r" "plain_word w"
    "r \<in> {Voice_Out_Init s, Netreg_Register s, Pb_Find_Entry s, Pb_Set_Storage s, Sms_Set_Smsc s, Voice_Dtmf c}"
  shows "does stk behind data sh lh r"
proof -
  have n: "NUL \<notin> set w" using assms(5) by (auto simp: plain_word_def)
  have w: "c_str (sh_buf sh) = w" using n by (simp add: assms(2))
  note defs = does_def shell_cmd_def Let_def request_fn_def c_strneq_def is_pb_cmd_def is_sms_cmd_def shell_pb_def shell_sms_def
  consider "r = Voice_Out_Init s" | "r = Netreg_Register s" | "r = Pb_Find_Entry s" | "r = Pb_Set_Storage s"
    | "r = Sms_Set_Smsc s" | "r = Voice_Dtmf c" using assms(6) by blast
  then show ?thesis
  proof cases
    case 1
    then have s: "w = CHR ''D'' # s" "s \<noteq> []" "length s \<le> 31" "NUL \<notin> set s" using assms(1,3,4) n by (auto simp: request_ok_def fits_def)
    have a: "c_strncpy (stack_array stk 4 32) s 31 = Some (s @ replicate (31 - length s) NUL @ [stk 35])"
      using char_array_stack [OF s(3,4), of stk 4] by simp
    have b: "wr (s @ replicate (31 - length s) NUL @ [stk 35]) 31 NUL = Some (char_array 32 s)"
      using s(3) replicate_snoc(2) [of "length s" 31 NUL] by (simp add: wr_def list_update_append char_array_def)
    have l: "length (octets (char_array 32 s)) = 32" using s(3) by simp
    then have "(octets (char_array 32 s) @ [behind])[GSMD_ADDR_MAXLEN := 0] = (octets (char_array 32 s) @ [0])[GSMD_ADDR_MAXLEN := 0]"
      by (simp add: list_update_append)
    then show ?thesis using w s(2) by (auto simp: defs 1 s(1) a b lgsm_voice_out_init_def)
  next
    case 2
    then have s: "w = ''R'' @ CHR ''='' # s" "length s = 5 \<or> length s = 6" "5 \<le> length s" using assms(1,4) by auto
    have v: "long_value (sh_buf sh) = Some (Some (1, s))"
      using long_value_word [of "''R''" s b] n s by (simp add: assms(2))
    have "rdn (sh_buf sh) (Suc (Suc 0)) 6 = Some (char_array 6 s)"
      using s by (auto simp: assms(2) rdn_def char_array_def)
    then show ?thesis using w v by (auto simp: defs 2 s(1))
  next
    case 3
    then have s: "w = ''pf'' @ CHR ''='' # s" "length s \<le> 14" "NUL \<notin> set s" using assms(1,3) by (auto simp: request_ok_def fits_def)
    have p: "buf_chr (sh_buf sh) 0 CHR ''='' = Some (Suc (Suc 0))"
      using buf_chr_at [of "[]" "''pf''" "CHR ''=''" s b] n by (simp add: assms(2) s(1))
    have q: "buf_str (sh_buf sh) (Suc (Suc (Suc 0))) = Some s"
      using buf_str_at [of "''pf=''" s b] n by (simp add: assms(2) s(1))
    have a: "c_strncpy (stack_array stk 0 15) s 14 = Some (s @ replicate (14 - length s) NUL @ [stk 14])"
      using char_array_stack [OF s(2,3), of stk 0] by simp
    obtain t where t: "wr (s @ replicate (14 - length s) NUL @ [stk 14]) (length s) NUL = Some t" "t[14 := NUL] = char_array 15 s"
    proof (cases "length s = 14")
      case True
      then show ?thesis by (intro that [of "s @ [NUL]"]) (simp_all add: wr_def list_update_append char_array_def)
    next
      case False
      then obtain m where m: "14 - length s = Suc m" using s(2) by (cases "14 - length s") auto
      have "15 - length s = Suc (Suc m)" using m s(2) by simp
      then show ?thesis using m s(2)
        by (intro that [of "s @ NUL # replicate m NUL @ [stk 14]"])
          (simp_all add: wr_def list_update_append char_array_def replicate_snoc)
    qed
    have "(char_array 15 s)[14 := NUL] = char_array 15 s" using t(2) by (metis list_update_overwrite)
    then show ?thesis using w p q a t by (auto simp: defs 3 s(1) shell_pf_def lgsm_pb_find_entry_def)
  next
    case 4
    then have s: "w = ''pp'' @ CHR ''='' # s" "length s \<le> 2" using assms(1,3) by (auto simp: request_ok_def fits_def)
    have p: "buf_chr (sh_buf sh) 0 CHR ''='' = Some (Suc (Suc 0))"
      using buf_chr_at [of "[]" "''pp''" "CHR ''=''" s b] n by (simp add: assms(2) s(1))
    have q: "buf_str (sh_buf sh) (Suc (Suc (Suc 0))) = Some s"
      using buf_str_at [of "''pp=''" s b] n by (simp add: assms(2) s(1))
    then show ?thesis using w p q s(2) by (auto simp: defs 4 s(1) shell_pp_def)
  next
    case 5
    then have s: "w = ''sC'' @ CHR ''='' # s" "5 \<le> length s" using assms(1,4) by auto
    have v: "long_value (sh_buf sh) = Some (Some (2, s))"
      using long_value_word [of "''sC''" s b] n s by (simp add: assms(2))
    show ?thesis using w v by (auto simp: defs 5 s(1))
  next
    case 6
    then have s: "w = [CHR ''T'', c]" using assms(1) by auto
    show ?thesis using w by (auto simp: defs 6 s)
  qed
qed

lemma store_str_in:
  "length s < n \<Longrightarrow> store_str (stack_array stk k n) s = Some (s @ NUL # drop (Suc (length s)) (stack_array stk k n))"
  by (simp add: store_str_def wrn_def stack_array_def)

lemma write_word:
  fixes lh :: "'h lgsm_handle"
  assumes "shell_word r = Some w" "sh_buf sh = w @ NUL # b" "request_ok r" "word_ok stk r" "plain_word w"
    "r = Pb_Write_Entry i s s' typ t t'"
  shows "does stk behind data sh lh r"
proof -
  let ?p = "''pw='' @ dec_nat i"
  have w: "w = ?p @ CHR '','' # s @ CHR '','' # t" using assms(1,6) by simp
  have n: "NUL \<notin> set w" using assms(5) by (auto simp: plain_word_def)
  have ok: "i < 256" "CHR '','' \<notin> set s" "length s \<le> 44" "length t \<le> 14"
      "typ = (if s \<noteq> [] \<and> hd s = CHR ''+'' then 145 else 129)"
      "s' = drop (Suc (length s)) (stack_array stk 4 45)" "t' = drop (Suc (length t)) (stack_array stk 56 15)"
    using assms(3,4,6) by (auto simp: request_ok_def)
  have num: "num_after (sh_buf sh) CHR ''='' = Some (int i)"
    using num_after_word [of "''pw''" "CHR ''=''" "dec_nat i @ CHR '','' # s @ CHR '','' # t" b] n ok(1)
    by (simp add: assms(2) w atoi_dec_comma)
  have f: "buf_chr (sh_buf sh) 0 CHR '','' = Some (length ?p)"
    using buf_chr_at [of "[]" ?p "CHR '',''" "s @ CHR '','' # t" b] n dec_char(1) by (simp add: assms(2) w)
  have l: "buf_chr (sh_buf sh) (Suc (length ?p)) CHR '','' = Some (Suc (length ?p) + length s)"
    using buf_chr_at [of "?p @ '',''" s "CHR '',''" t b] n ok(2) by (simp add: assms(2) w)
  have num2: "take (Suc (length ?p) + length s - length ?p - 1) (drop (Suc (length ?p)) (sh_buf sh)) = s"
    by (simp add: assms(2) w)
  have t: "buf_str (sh_buf sh) (Suc (Suc (length ?p) + length s)) = Some t"
    using buf_str_at [of "?p @ '','' @ s @ '',''" t b] n by (simp add: assms(2) w)
  have c: "rd (s @ NUL # s') 0 = Some (if s = [] then NUL else hd s)" by (cases s) (simp_all add: rd_def)
  have st: "store_str (stack_array stk 4 45) s = Some (s @ NUL # s')" "store_str (stack_array stk 56 15) t = Some (t @ NUL # t')"
    using ok(3,4,6,7) by (simp_all add: store_str_in)
  have "shell_pw stk (sh_buf sh) = Some (lgsm_pb_write_entry (int i) (s @ NUL # s')
      (if (if s = [] then NUL else hd s) = CHR ''+'' then 145 else 129) (t @ NUL # t') :: 'h sender)"
    unfolding shell_pw_def by (simp only: num f l num2 st c t bind.bind_lunit)
  moreover have "(if (if s = [] then NUL else hd s) = CHR ''+'' then 145 else 129) = int typ" using ok(5) by simp
  moreover have "c_str (sh_buf sh) = CHR ''p'' # CHR ''w'' # CHR ''='' # dec_nat i @ CHR '','' # s @ CHR '','' # t"
    unfolding assms(2) c_str_pad [OF n] by (simp add: w)
  ultimately show ?thesis by (simp add: family_defs pb_dispatch [of sh] assms(6))
qed

lemma scan_number:
  assumes "r = [] \<or> \<not> is_digit (hd r) \<and> hd r \<noteq> CHR ''x'' \<and> hd r \<noteq> CHR ''X''" "n < 2147483648"
  shows "\<exists>p'. scan (C_Int True # fs) (dec_nat n @ r) p k = (let (j, vs) = scan fs r p' (k + 1) in (j, V_Int (int n) # vs))"
  using scan_int_dec_nat [OF assms] by (simp add: Let_def) blast

lemma storage_word:
  fixes lh :: "'h lgsm_handle"
  assumes "shell_word r = Some w" "sh_buf sh = w @ NUL # b" "r = Sms_Set_Storage a c d" "a < 256" "c < 256" "d < 256"
  shows "does stk behind data sh lh r"
proof -
  have w: "w = ''sM='' @ dec_nat a @ '','' @ dec_nat c @ '','' @ dec_nat d" using assms(1,3) by simp
  have n: "NUL \<notin> set w" using dec_char(3) by (simp add: w)
  have nx: "\<not> is_digit CHR '',''" by (simp add: is_digit_def char_code_def)
  obtain p1 where 1: "scan (C_Int True # lits '','' @ [C_Int True] @ lits '','' @ [C_Int True]) (dec_nat a @ CHR '','' # dec_nat c @ '','' @ dec_nat d) 3 0 =
      (let (j, vs) = scan (lits '','' @ [C_Int True] @ lits '','' @ [C_Int True]) (CHR '','' # dec_nat c @ '','' @ dec_nat d) p1 1 in (j, V_Int (int a) # vs))"
    using scan_number [of "CHR '','' # dec_nat c @ '','' @ dec_nat d" a "lits '','' @ [C_Int True] @ lits '','' @ [C_Int True]" 3 0] nx assms(4)
    by auto
  obtain p2 where 2: "scan (C_Int True # lits '','' @ [C_Int True]) (dec_nat c @ CHR '','' # dec_nat d) (Suc p1) 1 =
      (let (j, vs) = scan (lits '','' @ [C_Int True]) (CHR '','' # dec_nat d) p2 2 in (j, V_Int (int c) # vs))"
    using scan_number [of "CHR '','' # dec_nat d" c "lits '','' @ [C_Int True]" "Suc p1" 1] nx assms(5) by auto
  obtain p3 where 3: "scan [C_Int True] (dec_nat d @ []) (Suc p2) 2 = (let (j, vs) = scan [] [] p3 3 in (j, V_Int (int d) # vs))"
    using scan_number [of "[]" d "[]" "Suc p2" 2] assms(6) by auto
  have "scan (lits ''sM='' @ [C_Int True] @ lits '','' @ [C_Int True] @ lits '','' @ [C_Int True]) w 0 0 =
      (3, [V_Int (int a), V_Int (int c), V_Int (int d)])"
    using 1 2 3 by (simp add: w is_space_def char_code_def numeral_3_eq_3 del: scan.simps(4))
  then have "shell_sM w = Act_Send (lgsm_sms_set_storage (int a) (int c) (int d) :: 'h sender)"
    by (simp add: shell_sM_def sscanf_def sM_format_def)
  moreover have "c_str (sh_buf sh) = w" using n by (simp add: assms(2))
  ultimately show ?thesis by (simp add: family_defs sms_dispatch [of sh] assms(3) w)
qed

lemma word_does:
  assumes "shell_word r = Some w" "sh_buf sh = w @ NUL # b" "request_ok r" "word_ok stk r" "plain_word w"
  shows "does stk behind data sh lh r"
proof (cases r)
  case (Pb_Write_Entry i s s' ty t t')
  then show ?thesis using write_word [OF assms] by blast
next
  case (Sms_Set_Storage a b c)
  then show ?thesis using assms(3)
    by (intro storage_word [OF assms(1,2) Sms_Set_Storage]) (simp_all add: request_ok_def ts0705_memtype_name_def)
next
  case (Pb_Read_Entries i j)
  then show ?thesis using assms(3) by (intro number2_words [OF assms(1,2), of i j]) (simp_all add: request_ok_def)
next
  case (Sms_Delete i j)
  then show ?thesis using assms(3) by (intro number2_words [OF assms(1,2), of i j]) (simp_all add: request_ok_def)
next
  case (Pb_Del_Entry k)
  then show ?thesis using number_words [OF assms(1,2), of k] assms(3,4) by (simp add: request_ok_def)
next
  case (Pb_Read_Entry k)
  then show ?thesis using number_words [OF assms(1,2), of k] assms(3,4) by (simp add: request_ok_def)
next
  case (Sms_List k)
  then show ?thesis using number_words [OF assms(1,2), of k] assms(3,4) by (simp add: request_ok_def int32_def)
next
  case (Sms_Read k)
  then show ?thesis using number_words [OF assms(1,2), of k] assms(3,4) by (simp add: request_ok_def)
next
  case (Voice_Out_Init s)
  then show ?thesis using string_words [OF assms, of s] by simp
next
  case (Netreg_Register s)
  then show ?thesis using string_words [OF assms, of s] by simp
next
  case (Pb_Find_Entry s)
  then show ?thesis using string_words [OF assms, of s] by simp
next
  case (Pb_Set_Storage s)
  then show ?thesis using string_words [OF assms, of s] by simp
next
  case (Sms_Set_Smsc s)
  then show ?thesis using string_words [OF assms, of s] by simp
next
  case (Voice_Dtmf c)
  then show ?thesis using string_words [OF assms, of "[]" c] by simp
next
  case (Phone_Power on)
  then show ?thesis by (intro simple_words [OF assms(1,2), of on]) simp
qed (use assms(1) simple_words [OF assms(1,2)] in simp_all)

text \<open>C6: a word of the help text, typed into the shell, makes the daemon queue the command that stands for
  it, with the arguments of the word, the callback bound to the client of the shell, and the identifier of
  the message.
\<close>

theorem typed_command_reaches_modem:
  assumes "typed w (sh_in sh)" "plain_word w" "length (sh_buf sh) = STDIN_BUF_SIZE + 1"
    and "shell_word r = Some w" "request_ok r" "word_ok stk r"
    and "g_mem g = []" "find_user gu g \<noteq> None" "r = Voice_Hangup \<longrightarrow> busy_atcmds g = []"
  shows "\<exists>sh' lh' p.
     shell_round stk behind data True all_sent (sh, lh) = Some (Some ((sh', lh'), p)) \<and>
     asks g (usock_rcv_pcmd gu (read_buf p) (length p) g) (request_cmds g gu (next_msg_id lh) r)"
proof -
  obtain b sh1 where sh1: "scan_word sh = Some (True, sh1)" "sh_buf sh1 = w @ NUL # b"
    by (rule scan_typed [OF assms(1-3)])
  obtain f where f: "shell_cmd stk behind data sh1 = Some (Act_Send f, sh1)" "f True all_sent lh = request_fn r True all_sent lh"
    using word_does [OF assms(4) sh1(2) assms(5,6,2), of behind data lh] by (auto simp: does_def)
  obtain rc lh' p where p: "request_fn r True all_sent lh = (rc, lh', p)"
      "asks g (usock_rcv_pcmd gu (read_buf p) (length p) g) (request_cmds g gu (next_msg_id lh) r)"
    using request_reaches [OF assms(5,7,8,9), of lh] by (auto simp: reaches_def)
  have "shell_round stk behind data True all_sent (sh, lh) = Some (Some ((sh1, lh'), p))"
    using sh1(1) f p(1) by (simp add: shell_round_def)
  then show ?thesis using p(2) by blast
qed


definition ex_shell :: "string \<Rightarrow> shell" where
  "ex_shell inp = \<lparr>sh_buf = replicate 1025 NUL, sh_in = inp, nFIND = 0, nREADRG = 0\<rparr>"

abbreviation (input) ex_gu :: gsmd_user where
  "ex_gu \<equiv> \<lparr>gu_ptr = 1, finished_ucmds = [], gu_write = False, subscriptions = 0, pb_readrg_list = [], pb_find_list = []\<rparr>"

theorem typed_command_reaches_modem_witness:
  "let lh = \<lparr>lh_handler = replicate 11 None, netreg_state = 0, evt_handlers = replicate 17 None, next_msg_id = 5\<rparr> :: nat lgsm_handle;
       g = ex_daemon [ex_gu]
   in \<exists>sh' lh' p.
        shell_round (\<lambda>_. NUL) 0 [] True all_sent (ex_shell ''  pf=Ann '', lh) = Some (Some ((sh', lh'), p)) \<and>
        asks g (usock_rcv_pcmd 1 (read_buf p) (length p) g)
          [(''AT+CPBF='' @ [CHR 0x22] @ ''Ann'' @ [CHR 0x22], Some (Cb (Phonebook_find_cb, 1)), 5)]"
proof -
  let ?lh = "\<lparr>lh_handler = replicate 11 None, netreg_state = 0, evt_handlers = replicate 17 None, next_msg_id = 5\<rparr> :: nat lgsm_handle"
  let ?sh = "ex_shell ''  pf=Ann ''"
  have t: "typed ''pf=Ann'' (sh_in ?sh)"
    unfolding typed_def by (rule exI [of _ "''  ''"], rule exI [of _ "'' ''"]) (simp add: ex_shell_def)
  have p: "plain_word ''pf=Ann''" by (simp add: plain_word_def is_space_def char_code_def)
  have r: "shell_word (Pb_Find_Entry ''Ann'') = Some ''pf=Ann''" "request_ok (Pb_Find_Entry ''Ann'')" "word_ok (\<lambda>_. NUL) (Pb_Find_Entry ''Ann'')"
    by (simp_all add: request_ok_def fits_def)
  have g: "g_mem (ex_daemon [ex_gu]) = []" "find_user 1 (ex_daemon [ex_gu]) \<noteq> None" by (simp_all add: ex_daemon_def find_user_def)
  have l: "length (sh_buf ?sh) = 1025" by (simp add: ex_shell_def)
  show ?thesis
    using typed_command_reaches_modem [OF t p _ r g, of 0 "[]" ?lh] l unfolding Let_def by (simp add: request_cmds_def quoted_def)
qed

section \<open>Typing a short message\<close>

text \<open>The words up to the text, and what the shell sends.\<close>

definition ss_head :: "bool \<Rightarrow> bool \<Rightarrow> string \<Rightarrow> string" where
  "ss_head report intl num = ''ss='' @ (if report then ''1'' else ''0'') @ '','' @ dial_string intl num @ '',''"

lemma digits_plain: "list_all is_digit num \<Longrightarrow> CHR '','' \<notin> set (dial_string intl num) \<and> NUL \<notin> set (dial_string intl num)"
  by (auto simp: dial_string_def list_all_iff is_digit_def char_code_def)

lemma ss_parse:
  fixes report :: bool and b :: string
  assumes "list_all is_digit num" "length (dial_string intl num) \<le> 12" "NUL \<notin> set t"
  defines "buf \<equiv> ss_head report intl num @ t @ NUL # b"
  shows "num_after buf CHR ''='' = Some (if report then 1 else 0)"
    "shell_addr buf = Some (dial_string intl num, length (ss_head report intl num) - 1)"
    "buf_str buf (length (ss_head report intl num)) = Some t"
proof -
  let ?d = "dial_string intl num" and ?a = "if report then ''1'' else ''0''"
  have d: "CHR '','' \<notin> set ?d" "NUL \<notin> set ?d" using digits_plain [OF assms(1)] by blast+
  have a: "NUL \<notin> set ?a" "CHR '','' \<notin> set ?a" "length ?a = 1" by auto
  have buf: "buf = (''ss='' @ ?a) @ CHR '','' # ?d @ CHR '','' # t @ NUL # b" by (simp add: buf_def ss_head_def)
  have "c_atoi (?a @ CHR '','' # ?d @ CHR '','' # t) = (if report then 1 else 0)"
    by (simp add: c_atoi_def Let_def is_space_def is_digit_def char_code_def digits_val_def digit_val_def clamp_def)
  then show "num_after buf CHR ''='' = Some (if report then 1 else 0)"
    using num_after_word [of "''ss''" "CHR ''=''" "?a @ CHR '','' # ?d @ CHR '','' # t" b] a d assms(3) by (auto simp: buf)
  have f: "buf_chr buf 0 CHR '','' = Some (length (''ss='' @ ?a))"
    using buf_chr_at [of "[]" "''ss='' @ ?a" "CHR '',''" "?d @ CHR '','' # t" b] a d assms(3) by (auto simp: buf)
  have l: "buf_chr buf (Suc (length (''ss='' @ ?a))) CHR '','' = Some (Suc (length (''ss='' @ ?a)) + length ?d)"
    using buf_chr_at [of "''ss='' @ ?a @ '',''" ?d "CHR '',''" t b] a d assms(3) by (auto simp: buf)
  have n: "take (Suc (length (''ss='' @ ?a)) + length ?d - length (''ss='' @ ?a) - 1) (drop (Suc (length (''ss='' @ ?a))) buf) = ?d"
    by (simp add: buf)
  have h: "length (ss_head report intl num) - 1 = Suc (length (''ss='' @ ?a)) + length ?d" by (simp add: ss_head_def)
  show "shell_addr buf = Some (?d, length (ss_head report intl num) - 1)"
    unfolding shell_addr_def f bind.bind_lunit l n h using assms(2) by (simp add: sprintf_to_def)
  show "buf_str buf (length (ss_head report intl num)) = Some t"
    using buf_str_at [of "ss_head report intl num" t b] a d assms(3) by (auto simp: buf_def ss_head_def)
qed

lemma shell_message_packed:
  assumes "packing_7bit_character (octets txt) data = Some (j, n, d)"
  shows "shell_message data addr txt (if report then 1 else 0) = Some (text_message addr d n report)"
  using assms by (simp add: shell_message_def text_message_def)

text \<open>What is sent of a text in quotes: the quotes are only removed when there is a blank between them.\<close>

definition quoted_text :: "string \<Rightarrow> string" where
  "quoted_text txt = (if \<exists>c \<in> set txt. is_space c then txt else [CHR 0x22] @ txt @ [CHR 0x22])"

definition text_ok :: "string \<Rightarrow> bool" where
  "text_ok txt \<longleftrightarrow> txt \<noteq> [] \<and> length txt \<le> 158 \<and> (\<forall>c \<in> set txt. char_code c < 128 \<and> c \<noteq> NUL \<and> c \<noteq> CHR 0x22)"

lemma ss_head_plain: "list_all is_digit num \<Longrightarrow> \<forall>c \<in> set (ss_head report intl num). \<not> is_space c \<and> c \<noteq> NUL"
  by (auto simp: ss_head_def dial_string_def list_all_iff is_space_def is_digit_def char_code_def)

lemma shell_sms_ss: "c_str (sh_buf sh) = ''ss'' @ w \<Longrightarrow> shell_cmd stk behind data sh = shell_ss data sh"
  by (simp add: family_defs sms_dispatch [of sh])

lemma ss_cmd_quoted:
  fixes rest :: string
  assumes t: "text_ok txt" and num: "list_all is_digit num" "length (dial_string intl num) \<le> 12"
    and b: "length (sh_buf sh) = STDIN_BUF_SIZE + 1" and i: "sh_in sh = ss_head report intl num @ [CHR 0x22] @ txt @ [CHR 0x22] @ rest"
    and r: "rest = [] \<or> is_space (hd rest)" and pack: "packing_7bit_character (octets (quoted_text txt)) data = Some (j, n, d)"
  shows "\<exists>sh1 sh2. scan_word sh = Some (True, sh1) \<and>
     shell_cmd stk behind data sh1 = Some (Act_Send (lgsm_sms_send (text_message (dial_string intl num) d n report) :: 'h sender), sh2)"
proof -
  let ?h = "ss_head report intl num" and ?q = "CHR 0x22"
  have hp: "\<forall>c \<in> set ?h. \<not> is_space c \<and> c \<noteq> NUL" by (rule ss_head_plain [OF num(1)])
  have hl: "length ?h \<le> 18" "0 < length ?h" using num(2) by (auto simp: ss_head_def)
  have tx: "NUL \<notin> set txt" "?q \<notin> set txt" "length txt \<le> 158" "txt \<noteq> []" using t by (auto simp: text_ok_def)
  have q: "\<not> is_space ?q" by simp
  obtain h' where h': "?h = ''ss'' @ h'" by (simp add: ss_head_def)
  have dw: "dropWhile is_space (sh_in sh) = sh_in sh" using hp h' by (simp add: i is_space_def char_code_def)
  have ne: "sh_in sh \<noteq> []" by (simp add: i)
  have msg: "shell_message data (dial_string intl num) (quoted_text txt) (if report then 1 else 0) =
      Some (text_message (dial_string intl num) d n report)"
    by (rule shell_message_packed [OF pack])
  have ls: "Suc (length ?h - 1) = length ?h" using hl by simp
  show ?thesis
  proof (cases "\<exists>c \<in> set txt. is_space c")
    case True
    define w1 where "w1 = takeWhile (Not \<circ> is_space) txt"
    define t1 where "t1 = dropWhile (Not \<circ> is_space) txt"
    have split: "txt = w1 @ t1" by (simp add: w1_def t1_def)
    have t1: "t1 \<noteq> []" using True by (auto simp: t1_def dropWhile_eq_Nil_conv)
    have w1: "\<forall>c \<in> set w1. \<not> is_space c" by (auto simp: w1_def dest: set_takeWhileD)
    have t1s: "is_space (hd t1)" using t1 hd_dropWhile [of "Not \<circ> is_space" "txt"] by (simp add: t1_def)
    let ?w = "?h @ [?q] @ w1" and ?r = "t1 @ [?q] @ rest"
    have wi: "sh_in sh = ?w @ ?r" by (simp add: i split)
    have tw: "takeWhile (Not \<circ> is_space) (sh_in sh) = ?w" "dropWhile (Not \<circ> is_space) (sh_in sh) = ?r"
      unfolding wi using hp w1 q t1 t1s by (cases t1; auto simp: takeWhile_append dropWhile_append)+
    obtain b0 where b0: "wrn (sh_buf sh) 0 (?w @ [NUL]) = Some (?w @ NUL # b0)" "length b0 = 1024 - length ?w"
      using hl tx(3) b by (auto simp: wrn_def split)
    define sh1 where "sh1 = sh\<lparr>sh_buf := ?w @ NUL # b0, sh_in := ?r\<rparr>"
    have s1: "scan_word sh = Some (True, sh1)" using ne b0(1) by (simp add: scan_word_def dw Let_def tw sh1_def)
    note parse = ss_parse [OF num, of "?q # w1" report b0]
    have nn: "NUL \<notin> set (?q # w1)" using tx(1) by (auto simp: split)
    have bs: "sh_buf sh1 = ?h @ (?q # w1) @ NUL # b0" by (simp add: sh1_def)
    have c0: "rd (sh_buf sh1) (Suc (length ?h - 1)) = Some ?q" unfolding ls by (simp add: bs rd_def nth_append)
    have c1: "buf_str (sh_buf sh1) (Suc (Suc (length ?h - 1))) = Some w1"
      unfolding ls using buf_str_at [of "?h @ [?q]" w1 b0] hp nn by (auto simp: bs)
    have c2: "c_strchr w1 ?q = None" using tx(2) by (simp add: c_strchr_None split)
    have hs: "?h = butlast ?h @ [CHR '','']" by (simp add: ss_head_def)
    have c3: "buf_str (sh_buf sh1) (length ?h - 1) = Some (CHR '','' # ?q # w1)"
    proof -
      have "buf_str (butlast ?h @ (CHR '','' # ?q # w1) @ NUL # b0) (length (butlast ?h)) = Some (CHR '','' # ?q # w1)"
        by (rule buf_str_at) (use hp nn in \<open>auto dest: in_set_butlastD\<close>)
      moreover have "sh_buf sh1 = butlast ?h @ (CHR '','' # ?q # w1) @ NUL # b0" unfolding bs by (subst hs) simp
      ultimately show ?thesis by simp
    qed
    have tw2: "takeWhile (\<lambda>c. c \<noteq> ?q) (sh_in sh1) = t1" "dropWhile (\<lambda>c. c \<noteq> ?q) (sh_in sh1) = ?q # rest"
      using tx(2) by (auto simp: sh1_def split takeWhile_append dropWhile_append)
    have pos: "length ?h - 1 + length (CHR '','' # ?q # w1) = length ?w" using hl(2) by simp
    have "wrn (sh_buf sh1) (length ?w) (t1 @ [NUL]) = Some (?w @ (t1 @ [NUL]) @ drop (length ?w + length (t1 @ [NUL])) (sh_buf sh1))"
      using b0(2) hl tx(3) by (simp add: wrn_def bs split)
    then obtain b1 where b1: "wrn (sh_buf sh1) (length ?w) (t1 @ [NUL]) = Some (?h @ (?q # txt) @ NUL # b1)" by (auto simp: split)
    define sh2 where "sh2 = sh1\<lparr>sh_buf := ?h @ (?q # txt) @ NUL # b1, sh_in := rest\<rparr>"
    have rq: "read_quoted (length ?h - 1) sh1 = Some (Some (Suc (length ?h - 1), sh2))"
      unfolding read_quoted_def c0 bind.bind_lunit using t1 c1 c2 c3 b1 pos
      by (simp add: tw2 Let_def sh2_def del: One_nat_def) (simp add: sh1_def)
    have tq: "buf_str (sh_buf sh2) (Suc (Suc (length ?h - 1))) = Some (quoted_text txt)"
      unfolding ls using buf_str_at [of "?h @ [?q]" "txt" b1] hp tx(1) True by (auto simp: sh2_def quoted_text_def)
    have "shell_ss data sh1 = Some (Act_Send (lgsm_sms_send (text_message (dial_string intl num) d n report) :: 'h sender), sh2)"
      unfolding shell_ss_def bs parse(1) [OF nn] parse(2) [OF nn] using rq tq msg by simp
    moreover have "c_str (sh_buf sh1) = ''ss'' @ h' @ ?q # w1"
      using c_str_pad [of "?h @ ?q # w1" b0] hp nn by (auto simp: bs h')
    ultimately show ?thesis using s1 by (intro exI [of _ sh1] exI [of _ sh2] conjI) (simp_all add: shell_sms_ss)
  next
    case False
    let ?w = "?h @ [?q] @ txt @ [?q]"
    have tw: "takeWhile (Not \<circ> is_space) (sh_in sh) = ?w" "dropWhile (Not \<circ> is_space) (sh_in sh) = rest"
      unfolding i using hp False q r by (cases rest; auto simp: takeWhile_append dropWhile_append)+
    obtain b0 where b0: "wrn (sh_buf sh) 0 (?w @ [NUL]) = Some (?w @ NUL # b0)"
      using hl tx(3) b by (auto simp: wrn_def)
    define sh1 where "sh1 = sh\<lparr>sh_buf := ?w @ NUL # b0, sh_in := rest\<rparr>"
    have s1: "scan_word sh = Some (True, sh1)" using ne b0(1) by (simp add: scan_word_def dw Let_def tw sh1_def)
    let ?t = "?q # txt @ [?q]"
    note parse = ss_parse [OF num, of ?t report b0]
    have nn: "NUL \<notin> set ?t" using tx(1) by auto
    have bs: "sh_buf sh1 = ?h @ ?t @ NUL # b0" by (simp add: sh1_def)
    have c0: "rd (sh_buf sh1) (Suc (length ?h - 1)) = Some ?q" unfolding ls by (simp add: bs rd_def nth_append)
    have c1: "buf_str (sh_buf sh1) (Suc (Suc (length ?h - 1))) = Some (txt @ [?q])"
      unfolding ls using buf_str_at [of "?h @ [?q]" "txt @ [?q]" b0] hp nn by (auto simp: bs)
    obtain k where c2: "c_strchr (txt @ [?q]) ?q = Some k"
      using c_strchr_None [of ?q "txt @ [?q]"] by (cases "c_strchr (txt @ [?q]) ?q") auto
    have rq: "read_quoted (length ?h - 1) sh1 = Some (Some (length ?h - 1, sh1))"
      unfolding read_quoted_def c0 bind.bind_lunit using c1 c2 by simp
    have tq: "buf_str (sh_buf sh1) (Suc (length ?h - 1)) = Some (quoted_text txt)"
      unfolding ls bs parse(3) [OF nn] using False by (simp add: quoted_text_def)
    have "shell_ss data sh1 = Some (Act_Send (lgsm_sms_send (text_message (dial_string intl num) d n report) :: 'h sender), sh1)"
      unfolding shell_ss_def bs parse(1) [OF nn] parse(2) [OF nn] using rq tq msg by simp
    moreover have "c_str (sh_buf sh1) = ''ss'' @ h' @ ?t"
      using c_str_pad [of "?h @ ?t" b0] hp nn by (auto simp: bs h')
    ultimately show ?thesis using s1 by (intro exI [of _ sh1] exI [of _ sh1] conjI) (simp_all add: shell_sms_ss)
  qed
qed


text \<open>C11: a short message typed into the shell, in quotes, reaches the modem as a command with a PDU that
  decodes to the number and to the text between the quotes; without a blank in it, the quotes are sent too.
\<close>

theorem typed_message_reaches_modem:
  fixes lh :: "'h lgsm_handle"
  assumes t: "text_ok txt" and num: "list_all is_digit num" "length (dial_string intl num) \<le> 12"
    and i: "sh_in sh = ss_head report intl num @ [CHR 0x22] @ txt @ [CHR 0x22] @ rest" "rest = [] \<or> is_space (hd rest)"
    and b: "length (sh_buf sh) = STDIN_BUF_SIZE + 1" "length data = 141"
    and g: "g_mem g = []" "find_user gu g \<noteq> None" "g_flags g AND GSMD_FLAG_SMS_FMT_TEXT = 0" and m: "wf_sms_list m"
  shows "\<exists>sh' lh' p.
     shell_round stk behind data True all_sent (sh, lh) = Some (Some ((sh', lh'), p)) \<and>
     carries g (usock_rcv_pcmd gu (read_buf p) (length p) g) gu (next_msg_id lh) m intl num (octets (quoted_text txt))"
proof -
  let ?t = "octets (quoted_text txt)"
  have l: "?t \<noteq> []" "length ?t \<le> 160" using t by (auto simp: text_ok_def quoted_text_def octets_def)
  have "\<forall>c \<in> set (quoted_text txt). char_code c < 128" using t by (auto simp: text_ok_def quoted_text_def char_code_def)
  then have s: "\<forall>c \<in> set ?t. c < 128" by (auto simp: octets_def word_less_nat_alt unat_of_nat)
  have num': "length num < GSMD_ADDR_MAXLEN" using num(2) by (cases intl) (simp_all add: dial_string_def)
  obtain j n d where p: "packing_7bit_character ?t data = Some (j, n, d)" using packing_7bit_packs [OF l(2) b(2)] by auto
  obtain rc lh' out where o: "lgsm_sms_send (text_message (dial_string intl num) d n report) True all_sent lh = (rc, lh', out)"
    by (metis prod.exhaust)
  have c: "carries g (usock_rcv_pcmd gu (read_buf out) (length out) g) gu (next_msg_id lh) m intl num ?t"
    using message_carried [OF l s num(1) num' g m b(2) p o] by blast
  obtain sh1 sh2 where "scan_word sh = Some (True, sh1)"
      "shell_cmd stk behind data sh1 = Some (Act_Send (lgsm_sms_send (text_message (dial_string intl num) d n report) :: 'h sender), sh2)"
    using ss_cmd_quoted [OF t num b(1) i p] by blast
  then have "shell_round stk behind data True all_sent (sh, lh) = Some (Some ((sh2, lh'), out))"
    using o by (simp add: shell_round_def)
  then show ?thesis using c by blast
qed

theorem typed_message_reaches_modem_witness:
  "let lh = \<lparr>lh_handler = replicate 11 None, netreg_state = 0, evt_handlers = replicate 17 None, next_msg_id = 5\<rparr> :: nat lgsm_handle;
       g = ex_daemon [ex_gu];
       sh = ex_shell (''ss=1,+49170,'' @ [CHR 0x22] @ ''Hello world'' @ [CHR 0x22])
   in \<exists>sh' lh' p. shell_round (\<lambda>_. NUL) 0 (replicate 141 0) True all_sent (sh, lh) = Some (Some ((sh', lh'), p)) \<and>
        carries g (usock_rcv_pcmd 1 (read_buf p) (length p) g) 1 5 ex_msg True ''49170'' (octets ''Hello world'')"
proof -
  let ?lh = "\<lparr>lh_handler = replicate 11 None, netreg_state = 0, evt_handlers = replicate 17 None, next_msg_id = 5\<rparr> :: nat lgsm_handle"
  let ?sh = "ex_shell (''ss=1,+49170,'' @ [CHR 0x22] @ ''Hello world'' @ [CHR 0x22])"
  have t: "text_ok ''Hello world''" by (simp add: text_ok_def char_code_def)
  have num: "list_all is_digit ''49170''" "length (dial_string True ''49170'') \<le> 12"
    by (simp_all add: is_digit_def char_code_def dial_string_def)
  have i: "sh_in ?sh = ss_head True True ''49170'' @ [CHR 0x22] @ ''Hello world'' @ [CHR 0x22] @ []"
    by (simp add: ex_shell_def ss_head_def dial_string_def)
  have b: "length (sh_buf ?sh) = 1024 + 1" "length (replicate 141 (0 :: u8)) = 141" by (simp_all add: ex_shell_def)
  have g: "g_mem (ex_daemon [ex_gu]) = []" "find_user 1 (ex_daemon [ex_gu]) \<noteq> None" "g_flags (ex_daemon [ex_gu]) AND 2 = 0"
    by (simp_all add: ex_daemon_def find_user_def)
  show ?thesis
    using typed_message_reaches_modem [OF t num i _ b g wf_ex_msg, of "\<lambda>_. NUL" 0 ?lh] unfolding Let_def
    by (simp add: quoted_text_def)
qed

end
