(* ===== verification/Tool_Laws.thy ===== *)
theory Tool_Laws
  imports Tool Session Shell_Laws Short_Messages
begin

text \<open>
  What the user sees: a stored short message that the modem reads out goes through the decoder of the daemon,
  the packet on the socket and the dispatcher of the library, and is printed by the shell.
\<close>

section \<open>A DELIVER PDU\<close>

text \<open>
  The octets as the network makes them: the service centre, the first octet, the address of the sender, the
  protocol and the coding scheme (both 0), the time stamp, the number of characters, and the packed text.
\<close>

definition deliver_pdu :: "u8 list \<Rightarrow> u8 \<Rightarrow> u8 list \<Rightarrow> u8 list \<Rightarrow> nat \<Rightarrow> u8 list \<Rightarrow> u8 list" where
  "deliver_pdu sc ty ds stamp n ud =
     of_nat (length sc) # sc @ [4, of_nat (length ds), ty] @ semi_pack ds @ [0, 0] @ stamp @ [of_nat n] @ ud"

definition tpdu_length :: "u8 list \<Rightarrow> u8 list \<Rightarrow> nat" where
  "tpdu_length ds ud = 13 + (length ds + 1) div 2 + length ud"

lemma deliver_length: "length stamp = 7 \<Longrightarrow> length (deliver_pdu sc ty ds stamp n ud) = 1 + length sc + tpdu_length ds ud"
  by (simp add: deliver_pdu_def tpdu_length_def)

lemma read_deliver_success:
  assumes "rd src (p + 2) = Some ty" "rd src (p + 1) = Some ln" "k = (unat ln + 1) div 2" "13 + int k \<le> len"
    and "sms_address2ascii (sl_addr m) src (p + 1) = Some (0, a)"
    and "rd src (p + 3 + k) = Some pid" "rd src (p + 3 + k + 1) = Some b" "dcs_coding_scheme b = Some cs"
    and "rdn src (p + 3 + k + 2) 7 = Some ts"
  shows "read_deliver m src p len = read_user_data (deliver_fields m a pid b cs ts) src (p + 3 + k + 9) (len - (3 + int k) - 9)"
  using assms by (simp add: read_deliver_def Let_def deliver_fields_def)

text \<open>The decoded message: what the PDU does not say is as before.\<close>

definition received :: "gsmd_sms_list \<Rightarrow> u8 \<Rightarrow> u8 list \<Rightarrow> u8 list \<Rightarrow> nat \<Rightarrow> u8 list \<Rightarrow> gsmd_sms_list \<Rightarrow> bool" where
  "received m ty ds stamp n ud m' \<longleftrightarrow>
     wf_sms_list m' \<and> sl_index m' = sl_index m \<and> sl_stat m' = sl_stat m \<and> is_last m' = is_last m \<and> time_stamp m' = stamp \<and>
     addr_type (sl_addr m') = ty \<and> (\<exists>r. addr_number (sl_addr m') = ds @ 0 # r) \<and>
     coding_scheme (sl_payload m') = 0 \<and> has_header (sl_payload m') = 0 \<and> is_voicemail (sl_payload m') = 0 \<and>
     sms_length (sl_payload m') = of_nat n \<and> (\<exists>r. sms_data (sl_payload m') = ud @ 0 # r)"

lemma deliver_received:
  assumes ds: "\<forall>c \<in> set ds. is_semi c" "length ds \<le> 20" and ty: "ty AND GSMD_TOA_TON_MASK \<noteq> GSMD_TOA_TON_ALPHANUMERIC"
    and sc: "length sc \<le> 20" and st: "length stamp = 7" and n: "n \<le> 160" "length ud = (7 * n + 7) div 8" and wf: "wf_sms_list m"
  defines "pdu \<equiv> deliver_pdu sc ty ds stamp n ud"
  shows "\<exists>m'. sms_pdu_to_msg m (pdu @ r) (int (tpdu_length ds ud)) (int (length pdu)) = Some (0, m') \<and> received m ty ds stamp n ud m'"
proof -
  let ?k = "(length ds + 1) div 2" and ?s = "length sc" and ?src = "pdu @ r"
  define m1 where "m1 = upd_payload (\<lambda>s. s\<lparr>has_header := 0\<rparr>) (upd_payload (\<lambda>s. s\<lparr>is_voicemail := 0\<rparr>) m)"
  define a where "a = \<lparr>addr_type = ty, addr_number = ds @ 0 # drop (length ds + 1) (addr_number (sl_addr m))\<rparr>"
  have m1: "wf_sms_list m1" "sl_addr m1 = sl_addr m" "wf_addr (sl_addr m)" using wf by (simp_all add: m1_def wf_sms_list_def)
  have src: "?src = (of_nat ?s # sc @ [4]) @ of_nat (length ds) # ty # semi_pack ds @ [0, 0] @ stamp @ [of_nat n] @ ud @ r"
    by (simp add: pdu_def deliver_pdu_def)
  have ad: "sms_address2ascii (sl_addr m1) ?src (?s + 2) = Some (0, a)"
    unfolding src a_def m1(2) using address_decode [OF ds(1) _ m1(3) ty, of "of_nat ?s # sc @ [4]"] ds(2) by simp
  have wa: "wf_addr a" using m1(3) ds(2) by (simp add: a_def wf_addr_def)
  define f where "f = deliver_fields m1 a 0 0 0 stamp"
  have wff: "wf_sms_list f" unfolding f_def by (rule deliver_fields_simps(5) [OF m1(1) wa st])
  have u: "unat (of_nat ?s :: u8) = ?s" "uint (of_nat ?s :: u8) = int ?s" "unat (of_nat (length ds) :: u8) = length ds"
      "unat (of_nat n :: u8) = n"
    using sc ds(2) n(1) by (simp_all add: unat_of_nat uint_nat)
  have at: "?src = pre @ x @ q \<Longrightarrow> length pre = i \<Longrightarrow> rdn ?src i (length x) = Some x" for pre x q i by (simp add: rdn_def)
  have at1: "?src = pre @ x # q \<Longrightarrow> length pre = i \<Longrightarrow> rd ?src i = Some x" for pre x q i by (simp add: rd_def nth_append)
  have rds: "rd ?src 0 = Some (of_nat ?s)" "rd ?src (1 + ?s) = Some 4" "rd ?src (1 + ?s + 1) = Some (of_nat (length ds))"
      "rd ?src (1 + ?s + 2) = Some ty" "rd ?src (1 + ?s + 3 + ?k) = Some 0" "rd ?src (1 + ?s + 3 + ?k + 1) = Some 0"
      "rdn ?src (1 + ?s + 3 + ?k + 2) 7 = Some stamp" "rd ?src (1 + ?s + 3 + ?k + 9) = Some (of_nat n)"
      "rdn ?src (1 + ?s + 3 + ?k + 9 + 1) (length ud) = Some ud"
    using at1 [of "[]"] at1 [of "of_nat ?s # sc"] at1 [of "of_nat ?s # sc @ [4]"] at1 [of "of_nat ?s # sc @ [4, of_nat (length ds)]"]
      at1 [of "of_nat ?s # sc @ [4, of_nat (length ds), ty] @ semi_pack ds"]
      at1 [of "of_nat ?s # sc @ [4, of_nat (length ds), ty] @ semi_pack ds @ [0]"]
      at [of "of_nat ?s # sc @ [4, of_nat (length ds), ty] @ semi_pack ds @ [0, 0]" stamp]
      at1 [of "of_nat ?s # sc @ [4, of_nat (length ds), ty] @ semi_pack ds @ [0, 0] @ stamp"]
      at [of "of_nat ?s # sc @ [4, of_nat (length ds), ty] @ semi_pack ds @ [0, 0] @ stamp @ [of_nat n]" ud] st
    unfolding src by simp_all
  have bl: "length ud = sms_data_bytelen (coding_scheme (sl_payload f)) (of_nat n)"
    using n u(4) by (simp add: f_def deliver_fields_simps sms_data_bytelen_def)
  define m' where "m' = upd_payload (\<lambda>x. x\<lparr>sms_data := ud @ 0 # drop (length ud + 1) (sms_data (sl_payload f))\<rparr>)
    (upd_payload (\<lambda>x. x\<lparr>sms_length := of_nat n\<rparr>) f)"
  have ud: "read_user_data f ?src (1 + ?s + 3 + ?k + 9) (int (length ud) + 1) = Some (0, m')"
    unfolding m'_def by (rule read_user_data_copy [OF rds(8) rds(9) bl]) (use n wf_sms_listD [OF wff] in simp_all)
  have len: "int (length pdu) = 1 + int ?s + (13 + int ?k + int (length ud))"
    using deliver_length [OF st] by (simp add: pdu_def tpdu_length_def)
  have "read_deliver m1 ?src (1 + ?s) (13 + int ?k + int (length ud)) =
      read_user_data f ?src (1 + ?s + 3 + ?k + 9) (13 + int ?k + int (length ud) - (3 + int ?k) - 9)"
    unfolding f_def
    by (rule read_deliver_success [OF rds(4,3) _ _ _ rds(5,6) _ rds(7)]) (use u(3) ad in \<open>simp_all add: dcs_coding_scheme_def\<close>)
  then have "read_deliver m1 ?src (1 + ?s) (13 + int ?k + int (length ud)) = Some (0, m')"
    using ud by (simp add: add.commute)
  then have run: "sms_pdu_to_msg m ?src (int (tpdu_length ds ud)) (int (length pdu)) = Some (0, m')"
    using rds(1,2) u(1,2) len by (simp add: sms_pdu_to_msg_def m1_def tpdu_length_def Let_def add.assoc)
  have v: "is_voicemail (sl_payload f) = 0" unfolding f_def by (subst deliver_fields_voicemail) (simp_all add: m1_def)
  have "received m ty ds stamp n ud m'"
    using wff v n unfolding received_def m'_def
    by (auto simp: wf_sms_list_def wf_sms_def f_def deliver_fields_def mark_voicemail_def m1_def a_def)
  then show ?thesis using run by blast
qed

section \<open>Hexadecimal\<close>

lemma hex_digit_val:
  assumes "k < 16"
  shows "is_xdigit (hex_digit k)" "xdigit_val (hex_digit k) = int k" "48 \<le> char_code (hex_digit k)"
proof -
  have "\<forall>k < 16. is_xdigit (hex_digit k) \<and> xdigit_val (hex_digit k) = int k \<and> 48 \<le> char_code (hex_digit k)" by code_simp
  then show "is_xdigit (hex_digit k)" "xdigit_val (hex_digit k) = int k" "48 \<le> char_code (hex_digit k)" using assms by blast+
qed

lemma hex_pdu_hex02: "length xs \<le> n \<Longrightarrow> hex_pdu n (concat (map hex02 xs)) = Some xs"
proof (induction xs arbitrary: n)
  case Nil
  then show ?case by (cases n) auto
next
  case (Cons x xs)
  then obtain k where n: "n = Suc k" "length xs \<le> k" by (cases n) auto
  have b: "unat x div 16 < 16" "unat x mod 16 < 16" using unsigned_less [of x, where ?'a = nat] by auto
  have "scan_hhX (hex_digit (unat x div 16)) (hex_digit (unat x mod 16)) = Some x"
  proof -
    have "int (unat x div 16 * 16 + unat x mod 16) = int (unat x)" by (simp only: div_mult_mod_eq)
    then have "int (unat x div 16) * 16 + int (unat x mod 16) = uint x" by (simp only: of_nat_add of_nat_mult uint_nat of_nat_numeral)
    then show ?thesis using hex_digit_val [OF b(1)] hex_digit_val [OF b(2)] by (simp only: scan_hhX_small word_of_int_uint)
  qed
  then show ?case using Cons.IH [OF n(2)] n hex_digit_val(3) [OF b(1)] hex_digit_val(3) [OF b(2)] by (simp add: hex02_def)
qed

section \<open>The answer of the daemon\<close>

lemma answer_queued:
  assumes "g_mem g = []" "find_user gu g \<noteq> None" "n < 65536" "f (fresh_mem n) = Some (Inr b)" "length b = n"
  shows "answer gu (int n) t s i f g = Some (0, queued gu (ucmd_of t s i b) g)"
proof -
  have a: "fst (g_alloc g) \<noteq> None" using assms(1) by (simp add: g_alloc_def)
  show ?thesis
    using ucmd_fill_Some [OF a, of n t s i] assms(3-5) enqueue_queued [OF assms(2), of t s i b]
    by (simp add: answer_def ucmd_of_def)
qed

lemma scan_dec_pos:
  assumes "r = [] \<or> \<not> is_digit (hd r) \<and> hd r \<noteq> CHR ''x'' \<and> hd r \<noteq> CHR ''X''" "n < 2147483648"
  shows "scan (C_Int True # fs) (dec_nat n @ r) p k =
    (let (j, vs) = scan fs r (p + length (dec_nat n)) (k + 1) in (j, V_Int (int n) # vs))"
proof -
  have "dropWhile is_space (dec_nat n @ r) = dec_nat n @ r" by (rule dropWhile_space_dec)
  then show ?thesis using scan_int_dec_nat [OF assms] by (simp add: Let_def)
qed

lemma drop_front: "drop (length xs) (xs @ ys) = ys"
  by simp

text \<open>What the modem answers to a request for a stored message.\<close>

definition cmgr_text :: "nat \<Rightarrow> nat \<Rightarrow> u8 list \<Rightarrow> string" where
  "cmgr_text st len pdu = ''+CMGR: '' @ dec_nat st @ '',,'' @ dec_nat len @ [LF] @ concat (map hex02 pdu)"

lemma hex_dump_hd:
  assumes "pdu \<noteq> []"
  shows "\<exists>c s. concat (map hex02 pdu) = c # s \<and> \<not> is_space c"
proof -
  obtain x xs where x: "pdu = x # xs" using assms by (cases pdu) auto
  have "unat x div 16 < 16" using unsigned_less [of x, where ?'a = nat] by auto
  then have "is_xdigit (hex_digit (unat x div 16))" by (rule hex_digit_val(1))
  then have "\<not> is_space (hex_digit (unat x div 16))" by (auto simp: is_xdigit_def is_space_def is_digit_def char_code_def)
  then show ?thesis by (simp add: x hex02_def)
qed

lemma cmgr_scan:
  assumes "st < 2147483648" "len < 2147483648" "pdu \<noteq> []"
  shows "\<exists>p. sscanf (cmgr_text st len pdu) (cmgr_fmt False) = (2, [V_Int (int st), V_Int (int len), V_Pos p]) \<and>
    drop p (cmgr_text st len pdu) = concat (map hex02 pdu)"
proof -
  let ?h = "concat (map hex02 pdu)" and ?p = "7 + length (dec_nat st) + 2 + length (dec_nat len) + 1"
  have c: "\<not> is_digit CHR '',''" "\<not> is_digit LF" by (simp_all add: is_digit_def char_code_def)
  obtain a s where h: "?h = a # s" "\<not> is_space a" using hex_dump_hd [OF assms(3)] by blast
  have 1: "scan (C_Int True # lits [LF] @ [C_Pos]) (dec_nat len @ LF # ?h) p k =
      (k + 1, [V_Int (int len), V_Pos (p + length (dec_nat len) + 1)])" for p k
    using assms(2) c(2) h by (simp add: scan_dec_pos del: scan.simps(4))
  have 2: "scan (C_Int True # lits '',,'' @ C_Int True # lits [LF] @ [C_Pos]) (dec_nat st @ '',,'' @ dec_nat len @ LF # ?h) p k =
      (k + 2, [V_Int (int st), V_Int (int len), V_Pos (p + length (dec_nat st) + 2 + length (dec_nat len) + 1)])" for p k
    using assms(1) c(1) 1 by (simp add: scan_dec_pos del: scan.simps(4))
  have "sscanf (cmgr_text st len pdu) (cmgr_fmt False) = (2, [V_Int (int st), V_Int (int len), V_Pos ?p])"
    using 2 [of "Suc (Suc (Suc (Suc (Suc (Suc (Suc 0))))))" 0]
    by (simp add: sscanf_def cmgr_text_def cmgr_fmt_def is_space_def char_code_def del: scan.simps(4))
  moreover have "cmgr_text st len pdu = (''+CMGR: '' @ dec_nat st @ '',,'' @ dec_nat len @ [LF]) @ ?h"
      "length (''+CMGR: '' @ dec_nat st @ '',,'' @ dec_nat len @ [LF]) = ?p" by (simp_all add: cmgr_text_def)
  then have "drop ?p (cmgr_text st len pdu) = ?h" by (metis drop_front)
  ultimately show ?thesis by blast
qed

section \<open>What the tool prints\<close>

lemma octets_set_u8s [simp]: "octets_set (map Some (u8s ws)) = ws"
  using char_u8 by (induction ws) (simp_all add: u8s_def del: char_code_char)

lemma take_at: "mem_at m i M \<Longrightarrow> take (length M) (drop i m) = M"
  by (simp add: mem_at_def)

text \<open>Unpacking what was packed: the number of characters is the one that the network counts.\<close>

lemma unpack_text:
  assumes s: "length s \<le> 160" "\<forall>c \<in> set s. c < 128" and pk: "packs s ud ((7 * length s + 7) div 8)"
    and m: "sms_data m = ud @ 0 # r" "length ud = (7 * length s + 7) div 8" "has_header m = 0" "sms_length m = of_nat (length s)"
  shows "unpacking_7bit_character m = Some s"
proof -
  let ?j = "(7 * length s + 7) div 8"
  have pk': "packs s (sms_data m) ?j" using pk m(1,2) by (auto simp: packs_def nth_append)
  have "unpack_octet (sms_data m) i = Some (str_octet s i)" if i: "i < length s" for i
  proof -
    have "7 * i + 6 < 8 * ?j" "(i * 7 + 7) div 8 < length (sms_data m)" using i m(1,2) by simp_all
    then have "unpack_octet (sms_data m) i = Some (str_octet s i AND 0x7F)" by (rule unpack_octet_packs [OF pk'])
    moreover have "str_octet s i < 128" using s(2) by (simp add: str_octet_def)
    ultimately show ?thesis using septet_id by simp
  qed
  then have "unpack_from (sms_data m) [0 ..< length s] = Some (map (str_octet s) [0 ..< length s])"
    by (intro unpack_from_map) simp
  moreover have "map (str_octet s) [0 ..< length s] = s" by (rule nth_equalityI) (auto simp: str_octet_def)
  moreover have "unat (of_nat (length s) :: u8) = length s" using s(1) by (simp add: unat_of_nat)
  ultimately show ?thesis using m(3,4) by (simp add: unpacking_7bit_character_def)
qed

lemma sms_list_reads:
  assumes "mem_at m i (sms_list_mem s)" "wf_sms_list s"
  shows "mem_u8 m i = Some (sl_index s)" "int32 (sl_stat s) \<Longrightarrow> mem_i32 m (i + 4) = Some (sl_stat s)"
    "mem_u8s m (i + 8) 7 = Some (time_stamp s)" "mem_u8 m (i + 15) = Some (addr_type (sl_addr s))"
    "mem_at m (i + 16) (map Some (u8s (addr_number (sl_addr s))))"
    "mem_u8 m (i + 49) = Some (sms_length (sl_payload s))" "mem_u8 m (i + 50) = Some (coding_scheme (sl_payload s))"
    "int32 (has_header (sl_payload s)) \<Longrightarrow> mem_i32 m (i + 51) = Some (has_header (sl_payload s))"
    "int32 (is_voicemail (sl_payload s)) \<Longrightarrow> mem_i32 m (i + 55) = Some (is_voicemail (sl_payload s))"
    "mem_at m (i + 84) (map Some (u8s (sms_data (sl_payload s))))"
proof -
  have w: "wf_addr (sl_addr s)" "length (time_stamp s) = 7" using assms(2) by (simp_all add: wf_sms_list_def)
  have at: "mem_at m i (map Some (b8 (sl_index s)))" "mem_at m (i + 4) (map Some (bint (sl_stat s)))"
    "mem_at m (i + 8) (map Some (u8s (time_stamp s)))" "mem_at m (i + 15) (addr_mem (sl_addr s))"
    "mem_at m (i + 49) (sms_mem (sl_payload s))"
    using assms by (simp_all add: sms_list_mem_def mem_at_append wf_sms_list_def add.commute [of i])
  have at2: "mem_at m (i + 15) (map Some (b8 (addr_type (sl_addr s))))"
    "mem_at m (i + 16) (map Some (u8s (addr_number (sl_addr s))))"
    using at(4) by (simp_all add: addr_mem_def mem_at_append add.commute [of i])
  have at3: "mem_at m (i + 49) (map Some (b8 (sms_length (sl_payload s))))"
    "mem_at m (i + 50) (map Some (b8 (coding_scheme (sl_payload s))))"
    "mem_at m (i + 51) (map Some (bint (has_header (sl_payload s))))"
    "mem_at m (i + 55) (map Some (bint (is_voicemail (sl_payload s))))"
    "mem_at m (i + 84) (map Some (u8s (sms_data (sl_payload s))))"
    using at(5) by (simp_all add: sms_mem_def mem_at_append add.commute [of i])
  show "mem_u8 m i = Some (sl_index s)" "mem_u8 m (i + 15) = Some (addr_type (sl_addr s))"
    "mem_u8 m (i + 49) = Some (sms_length (sl_payload s))" "mem_u8 m (i + 50) = Some (coding_scheme (sl_payload s))"
    using at(1) at2(1) at3(1,2) by (simp_all add: mem_at_readers(1))
  show "mem_u8s m (i + 8) 7 = Some (time_stamp s)" using mem_at_readers(5) [OF at(3)] w(2) by simp
  show "int32 (sl_stat s) \<Longrightarrow> mem_i32 m (i + 4) = Some (sl_stat s)"
    "int32 (has_header (sl_payload s)) \<Longrightarrow> mem_i32 m (i + 51) = Some (has_header (sl_payload s))"
    "int32 (is_voicemail (sl_payload s)) \<Longrightarrow> mem_i32 m (i + 55) = Some (is_voicemail (sl_payload s))"
    using at(2) at3(3,4) by (simp_all add: rd_int_at)
  show "mem_at m (i + 16) (map Some (u8s (addr_number (sl_addr s))))"
    "mem_at m (i + 84) (map Some (u8s (sms_data (sl_payload s))))" by (rule at2(2), rule at3(5))
qed

text \<open>A received text message, printed from the octets of its structure.\<close>

lemma received_printed:
  assumes m: "mem_at m i (sms_list_mem s)" and s: "received s0 ty (octets num) stamp (length txt) ud s"
    and num: "NUL \<notin> set num" and tx: "length txt \<le> 160" "\<forall>c \<in> set txt. c \<noteq> NUL \<and> char_code c < 128"
    and ud: "packs (octets txt) ud ((7 * length txt + 7) div 8)" "length ud = (7 * length txt + 7) div 8"
  shows "sms_voice l m i = Some []" "sms_body m i = Some (quotes txt)"
    "sms_from m i = Some ((if ty AND GSMD_TOA_TON_MASK = GSMD_TOA_TON_INTERNATIONAL then ''+'' else []) @ num @ '', at '' @
       stamp_text stamp @ [LF])"
proof -
  note r = s [unfolded received_def]
  have wf: "wf_sms_list s" using r by blast
  note rd = sms_list_reads [OF m wf]
  obtain q where q: "addr_number (sl_addr s) = octets num @ 0 # q" using r by blast
  obtain e where e: "sms_data (sl_payload s) = ud @ 0 # e" using r by blast
  have "mem_str m (i + 16) = Some num" by (rule mem_at_str [OF _ num, of _ _ "u8s q"]) (use rd(5) in \<open>simp add: q\<close>)
  then show "sms_from m i = Some ((if ty AND GSMD_TOA_TON_MASK = GSMD_TOA_TON_INTERNATIONAL then ''+'' else []) @ num @ '', at '' @
       stamp_text stamp @ [LF])"
    using rd(3,4) r by (simp add: sms_from_def)
  show "sms_voice l m i = Some []" using rd(9) r by (simp add: sms_voice_def int32_def)
  have "length (sms_data (sl_payload s)) = 165" using wf by (simp add: wf_sms_list_def wf_sms_def)
  then have "take 165 (drop (i + 84) m) = map Some (u8s (sms_data (sl_payload s)))" using take_at [OF rd(10)] by simp
  then have d: "octets_set (take 165 (drop (84 + i) m)) = ud @ 0 # e" by (simp only: octets_set_u8s e add.commute)
  have p: "\<exists>d. rd_payload m (i + 49) = Some \<lparr>sms_length = of_nat (length txt), coding_scheme = 0, has_header = 0, is_voicemail = 0,
      dcs = d, sms_data = ud @ 0 # e\<rparr>"
    using rd(6-9) r by (simp add: rd_payload_def int32_def d add.commute [of i])
  then obtain d where p: "rd_payload m (i + 49) = Some \<lparr>sms_length = of_nat (length txt), coding_scheme = 0, has_header = 0,
      is_voicemail = 0, dcs = d, sms_data = ud @ 0 # e\<rparr>" by blast
  have "of_nat (char_code c) < (128 :: u8)" if "c \<in> set txt" for c
  proof -
    have "char_code c < 128" using that tx(2) by blast
    then show ?thesis by (simp add: word_less_nat_alt unat_of_nat)
  qed
  then have t: "\<forall>c \<in> set (octets txt). c < 128" by (auto simp: octets_def)
  have l: "length (octets txt) = length txt" by (simp add: octets_def)
  have "unpacking_7bit_character \<lparr>sms_length = of_nat (length txt), coding_scheme = 0, has_header = 0,
      is_voicemail = 0, dcs = d, sms_data = ud @ 0 # e\<rparr> = Some (octets txt)"
    by (rule unpack_text [OF _ t]) (use tx(1) ud l in simp_all)
  moreover have "c_str txt = txt" by (rule c_str_no_nul) (use tx(2) in blast)
  ultimately show "sms_body m i = Some (quotes txt)" using p tx(1) l by (simp add: sms_body_def)
qed

section \<open>A stored message is shown\<close>

lemma tool_start_handlers:
  assumes "tool_start ident = Some lh"
  shows "rd (lh_handler lh) 2 = Some (Some (Msg_Handler H_pt))" "rd (lh_handler lh) 5 = Some (Some (Msg_Handler H_pb))"
    "rd (lh_handler lh) 9 = Some (Some (Msg_Handler H_sms))" "rd (lh_handler lh) 6 = Some (Some (Msg_Handler H_net))"
  using assms
  by (auto simp: tool_start_def lgsm_init_def lgsm_evt_init_def pin_init_def event_init_def lgsm_evt_handler_register_def
    lgsm_register_handler_def shell_register_def wr_def rd_def numeral_eq_Suc)

lemma read_answer:
  assumes c: "at_ret cmd = 0" "c_str_at (at_buf cmd) = Some (''AT+CMGR='' @ dec_nat idx)" "idx < 256"
    and g: "g_mem g = []" "find_user gu g \<noteq> None" "wf_sms_list (stack_sms (world g))"
    and ds: "\<forall>c \<in> set ds. is_semi c" "length ds \<le> 20" and ty: "ty AND GSMD_TOA_TON_MASK \<noteq> GSMD_TOA_TON_ALPHANUMERIC"
    and l: "length sc \<le> 12" "length stamp = 7" "n \<le> 160" "length ud = (7 * n + 7) div 8" "st < 4"
  shows "\<exists>s0 m. sms_read_cb cmd gu (cmgr_text st (tpdu_length ds ud) (deliver_pdu sc ty ds stamp n ud)) g =
      Some (0, queued gu (ucmd_of GSMD_MSG_SMS GSMD_SMS_READ (at_id cmd) (sms_list_mem m)) g) \<and>
    received s0 ty ds stamp n ud m \<and> sl_index m = of_nat idx \<and> sl_stat m = int st"
proof -
  let ?pdu = "deliver_pdu sc ty ds stamp n ud" and ?len = "tpdu_length ds ud"
  define s0 where "s0 = (stack_sms (world g))\<lparr>sl_index := of_nat idx, sl_stat := int st, is_last := 1\<rparr>"
  have w0: "wf_sms_list s0" using g(3) by (simp add: s0_def wf_sms_list_def)
  obtain m where m: "sms_pdu_to_msg s0 (pdu_array SMS_MAX_PDU_SIZE ?pdu g) (int ?len) (int (length ?pdu)) = Some (0, m)"
      "received s0 ty ds stamp n ud m"
    using deliver_received [OF ds ty _ l(2-4) w0, of sc] l(1) unfolding pdu_array_def by auto
  have "length ud \<le> 140" "(length ds + 1) div 2 \<le> 10" using l(3,4) ds(2) by linarith+
  then have len: "?len \<le> 163" "length ?pdu \<le> 180" "?pdu \<noteq> []"
    using deliver_length [OF l(2), of sc ty ds n ud] l(1) by (simp_all add: tpdu_length_def deliver_pdu_def)
  obtain p where p: "sscanf (cmgr_text st ?len ?pdu) (cmgr_fmt False) = (2, [V_Int (int st), V_Int (int ?len), V_Pos p])"
      "drop p (cmgr_text st ?len ?pdu) = concat (map hex02 ?pdu)"
    using cmgr_scan [of st ?len ?pdu] len l(5) by auto
  define buf resp where "buf = ''AT+CMGR='' @ dec_nat idx" and "resp = cmgr_text st ?len ?pdu"
  have idx: "c_strchr buf CHR ''='' = Some 7" "c_strneq buf ''AT+CMGR'' 7" "drop (7 + 1) buf = dec_nat idx"
    by (simp_all add: c_strneq_def eval_nat_numeral buf_def)
  have atoi: "c_atoi (dec_nat idx) = int idx" using c_atoi_dec_nat [of idx "[]"] c(3) by simp
  have wm: "wf_sms_list m" "sl_index m = of_nat idx" "sl_stat m = int st"
    using m(2) by (simp_all add: received_def s0_def)
  have b: "wrn (fresh_mem 256) 0 (sms_list_mem m) = Some (sms_list_mem m)" using wm(1) by (simp add: wrn_def)
  have "sms_read_cb cmd gu resp g =
      sms_answer GSMD_SMS_READ (\<lambda>m. m\<lparr>sl_index := word_of_int (int idx), sl_stat := int st, is_last := 1\<rparr>) cmd gu (drop p resp) (int ?len) g"
    using c(1) c(2) [folded buf_def] p(1) [folded resp_def] len(1) idx atoi by (simp add: sms_read_cb_def)
  also have "\<dots> = answer gu (int sizeof_sms_list) GSMD_MSG_SMS GSMD_SMS_READ (at_id cmd) (\<lambda>b. filled (wrn b 0 (sms_list_mem m))) g"
    using m(1) hex_pdu_hex02 [OF len(2)] by (simp add: sms_answer_def s0_def p(2) [folded resp_def])
  also have "\<dots> = Some (0, queued gu (ucmd_of GSMD_MSG_SMS GSMD_SMS_READ (at_id cmd) (sms_list_mem m)) g)"
    by (rule answer_queued [OF g(1,2)]) (use b wm(1) in \<open>simp_all add: filled_def\<close>)
  finally show ?thesis using m(2) wm unfolding resp_def by blast
qed

lemma message_printed:
  assumes h: "rd (lh_handler lh) 9 = Some (Some (Msg_Handler H_sms))"
    and s: "received s0 ty (octets num) stamp (length txt) ud s" "sl_index s = of_nat idx" "sl_stat s = int st" "idx < 256" "st < 4"
    and num: "NUL \<notin> set num" and tx: "length txt \<le> 160" "\<forall>c \<in> set txt. c \<noteq> NUL \<and> char_code c < 128"
    and ud: "packs (octets txt) ud ((7 * length txt + 7) div 8)" "length ud = (7 * length txt + 7) div 8"
    and u_is: "u = ucmd_of GSMD_MSG_SMS GSMD_SMS_READ i (sms_list_mem s)"
  shows "\<exists>p. ucmd_octets u = Some p \<and> (\<forall>w. lgsm_handle_packet (tool_env rv pin mem_ok net) p (int (length p)) (lh, w) =
    Some (or_rc 0 rv, lh, w\<lparr>tl_out := tl_out w @ msgtype ! st @ '' message '' @ dec_nat idx @ '' from/to '' @
      (if ty AND GSMD_TOA_TON_MASK = GSMD_TOA_TON_INTERNATIONAL then ''+'' else []) @ num @ '', at '' @ stamp_text stamp @ [LF] @
      quotes txt\<rparr>))"
proof -
  have wf: "wf_sms_list s" using s(1) by (simp add: received_def)
  let ?h = "\<lparr>version = GSMD_PROTO_VERSION, msg_type = GSMD_MSG_SMS, msg_subtype = GSMD_SMS_READ, hdr_id = i, hdr_len = 256\<rparr>"
  let ?p = "hdr_mem ?h @ sms_list_mem s"
  have u: "u_hdr u = hdr_mem ?h" "u_buf u = sms_list_mem s" using wf by (simp_all add: u_is ucmd_of_def)
  have pk: "packet_ok u" using wf by (simp add: packet_ok_def u hdr_mem_reads del: One_nat_def)
  have o: "ucmd_octets u = Some ?p" using packet_octets(2) [OF pk] wf by (simp add: u)
  have "rd_hdr ?p = Some ?h" by (rule rd_hdr_mem) (simp add: mem_at_def)
  then have r: "mem_u8 ?p 1 = Some GSMD_MSG_SMS" "mem_u8 ?p 2 = Some GSMD_SMS_READ" "mem_u16 ?p 6 = Some 256"
    by (auto simp: rd_hdr_def split: bind_splits)
  have l: "length ?p = sizeof_hdr + 256" using wf by simp
  have wp: "whole_packet ?p" using r(1,3) l by (simp add: whole_packet_def)
  have m: "mem_at ?p 8 (sms_list_mem s)" by (simp add: mem_at_def)
  note pr = received_printed [OF m s(1) num tx ud] and rd = sms_list_reads [OF m wf]
  have st: "mem_i32 ?p 12 = Some (int st)" "name_of msgtype (nat (int st)) = Some (msgtype ! st)"
    using rd(2) s(3,5) by (simp_all add: int32_def name_of_def rd_def msgtype_def)
  have ix: "mem_u8 ?p 8 = Some (of_nat idx)" "unat (of_nat idx :: u8) = idx" using rd(1) s(2,4) by (simp_all add: unat_of_nat)
  have "sms_msghandler rv ?p (lh, w) = Some (rv, lh, w\<lparr>tl_out := tl_out w @ msgtype ! st @ '' message '' @ dec_nat idx @ '' from/to '' @
      (if ty AND GSMD_TOA_TON_MASK = GSMD_TOA_TON_INTERNATIONAL then ''+'' else []) @ num @ '', at '' @ stamp_text stamp @ [LF] @
      quotes txt\<rparr>)" for w
    using st by (simp add: sms_msghandler_def r pr ix say_def)
  then have "dispatch (tool_env rv pin mem_ok net) 0 [?p] (lh, w) =
      Some (or_rc 0 rv, lh, w\<lparr>tl_out := tl_out w @ msgtype ! st @ '' message '' @ dec_nat idx @ '' from/to '' @
      (if ty AND GSMD_TOA_TON_MASK = GSMD_TOA_TON_INTERNATIONAL then ''+'' else []) @ num @ '', at '' @ stamp_text stamp @ [LF] @
      quotes txt\<rparr>)" for w
    using r(1) h by (simp add: call_handler_def tool_env_def)
  moreover have "lgsm_handle_packet (tool_env rv pin mem_ok net) ?p (int (length ?p)) (lh, w) =
      dispatch (tool_env rv pin mem_ok net) 0 [?p] (lh, w)" for w
    using handle_loop_dispatch [of "[?p]" "of_nat (length ?p)"] wp l by (simp add: lgsm_handle_packet_def del: dispatch.simps)
  ultimately show ?thesis using o by metis
qed


lemma all_less_list: "(\<forall>j < n. P j) \<longleftrightarrow> list_all P [0 ..< n]"
  by (auto simp: list_all_iff)

definition ex_read_cmd :: "gcb gsmd_atcmd" where
  "ex_read_cmd = \<lparr>at_ptr = 7, at_cb = None, at_resp = None, at_ret = 0, at_buflen = 0, at_id = 4, at_cur = 0,
     at_buf = ''AT+CMGR=3'' @ [NUL]\<rparr>"


end
