(* ===== verification/Select.thy ===== *)
theory Select
  imports Llist
begin

text \<open>
  The main loop's \<^verbatim>\<open>gsm/src/gsmd/select.c\<close>: the list \<open>gsmd_fds\<close> of descriptors, on the heap of list heads, and one call of
  \<open>gsmd_select_main\<close>. Where the structures \<open>gsmd_fd\<close> lie is the caller's business: \<open>rd_fd\<close> reads the one at an address from
  the rest of the state. The system call and the callbacks are arguments; a callback may change the state, and the list,
  and \<open>None\<close> is its undefined behaviour. A set of descriptors has the numbers below 1024.
\<close>

section \<open>The code\<close>

abbreviation (input) GSMD_FD_READ :: u32 where "GSMD_FD_READ \<equiv> 1"
abbreviation (input) GSMD_FD_WRITE :: u32 where "GSMD_FD_WRITE \<equiv> 2"
abbreviation (input) GSMD_FD_EXCEPT :: u32 where "GSMD_FD_EXCEPT \<equiv> 4"
abbreviation (input) FD_SETSIZE :: int where "FD_SETSIZE \<equiv> 1024"

record gsmd_fd =
  fd_num :: int
  fd_when :: u32

record 'w select =
  gsmd_fds :: ptr
  fd_links :: links
  maxfd :: int
  fd_world :: 'w

type_synonym fd_sets = "int set \<times> int set \<times> int set"

text \<open>\<open>gsmd_register_fd\<close>; \<open>fl\<close> and \<open>fl'\<close> are the results of the two calls of \<open>fcntl\<close>.\<close>

definition gsmd_register_fd :: "int \<Rightarrow> int \<Rightarrow> ptr \<Rightarrow> int \<Rightarrow> 'w select \<Rightarrow> int \<times> 'w select" where
  "gsmd_register_fd fl fl' e n s =
     (if fl < 0 then (- 1, s)
      else if fl' < 0 then (- 1, s)
      else (0, s\<lparr>maxfd := (if n > maxfd s then n else maxfd s), fd_links := llist_add_tail (fd_links s) e (gsmd_fds s)\<rparr>))"

definition gsmd_unregister_fd :: "ptr \<Rightarrow> 'w select \<Rightarrow> 'w select" where
  "gsmd_unregister_fd e s = s\<lparr>fd_links := llist_del (fd_links s) e\<rparr>"

definition FD_SET :: "bool \<Rightarrow> int \<Rightarrow> int set \<Rightarrow> int set option" where
  "FD_SET want n ns = (if want then if 0 \<le> n \<and> n < FD_SETSIZE then Some (insert n ns) else None else Some ns)"

definition pair_links :: "'w select \<times> 'x \<Rightarrow> links" where
  "pair_links x = fd_links (fst x)"

definition prepare_body :: "('w \<Rightarrow> ptr \<Rightarrow> gsmd_fd) \<Rightarrow> ptr \<Rightarrow> 'w select \<times> fd_sets option \<Rightarrow> 'w select \<times> fd_sets option" where
  "prepare_body rd_fd pos x =
     (case x of (s, sets) \<Rightarrow>
        let u = rd_fd (fd_world s) pos
        in (s, do {
             (rs, ws, es) \<leftarrow> sets;
             rs \<leftarrow> FD_SET (fd_when u AND GSMD_FD_READ \<noteq> 0) (fd_num u) rs;
             ws \<leftarrow> FD_SET (fd_when u AND GSMD_FD_WRITE \<noteq> 0) (fd_num u) ws;
             es \<leftarrow> FD_SET (fd_when u AND GSMD_FD_EXCEPT \<noteq> 0) (fd_num u) es;
             Some (rs, ws, es) }))"

definition fd_flags :: "fd_sets \<Rightarrow> int \<Rightarrow> u32" where
  "fd_flags sets n =
     (case sets of (rs, ws, es) \<Rightarrow>
        (if n \<in> rs then GSMD_FD_READ else 0) OR (if n \<in> ws then GSMD_FD_WRITE else 0) OR
        (if n \<in> es then GSMD_FD_EXCEPT else 0))"

definition ready_flags :: "fd_sets \<Rightarrow> int \<Rightarrow> u32 option" where
  "ready_flags sets n = (if 0 \<le> n \<and> n < FD_SETSIZE then Some (fd_flags sets n) else None)"

text \<open>The second component tells whether everything was defined so far.\<close>

definition dispatch_body ::
  "('w \<Rightarrow> ptr \<Rightarrow> gsmd_fd) \<Rightarrow> (ptr \<Rightarrow> u32 \<Rightarrow> 'w select \<Rightarrow> 'w select option) \<Rightarrow> fd_sets \<Rightarrow>
     ptr \<Rightarrow> 'w select \<times> bool \<Rightarrow> 'w select \<times> bool" where
  "dispatch_body rd_fd cb sets pos x =
     (case x of (s, ok) \<Rightarrow>
        if \<not> ok then (s, False)
        else case ready_flags sets (fd_num (rd_fd (fd_world s) pos)) of
               None \<Rightarrow> (s, False)
             | Some flags \<Rightarrow>
                 if flags \<noteq> 0 then (case cb pos flags s of None \<Rightarrow> (s, False) | Some s' \<Rightarrow> (s', True)) else (s, True))"

text \<open>\<open>sel\<close> is the system call: the number of descriptors and the three sets, to its result and the sets that it leaves.\<close>

definition gsmd_select_main ::
  "('w \<Rightarrow> ptr \<Rightarrow> gsmd_fd) \<Rightarrow> (ptr \<Rightarrow> u32 \<Rightarrow> 'w select \<Rightarrow> 'w select option) \<Rightarrow> (int \<Rightarrow> fd_sets \<Rightarrow> int \<times> fd_sets) \<Rightarrow>
     'w select \<Rightarrow> (int \<times> 'w select) option" where
  "gsmd_select_main rd_fd cb sel s = do {
     (s, sets) \<leftarrow> llist_for_each_entry pair_links (prepare_body rd_fd) (gsmd_fds s) (s, Some ({}, {}, {}));
     sets \<leftarrow> sets;
     let (i, sets) = sel (maxfd s + 1) sets;
     if i > 0 then do {
       (s, ok) \<leftarrow> llist_for_each_entry_safe pair_links (dispatch_body rd_fd cb sets) (gsmd_fds s) (s, True);
       if ok then Some (i, s) else None
     }
     else Some (i, s)
   }"

section \<open>The descriptors of interest\<close>

text \<open>The reference: the numbers of the descriptors that ask for an event.\<close>

definition interest :: "('w \<Rightarrow> ptr \<Rightarrow> gsmd_fd) \<Rightarrow> u32 \<Rightarrow> 'w select \<Rightarrow> ptr list \<Rightarrow> int set" where
  "interest rd_fd f s xs = {fd_num (rd_fd (fd_world s) e) | e. e \<in> set xs \<and> fd_when (rd_fd (fd_world s) e) AND f \<noteq> 0}"

definition fds_ok :: "('w \<Rightarrow> ptr \<Rightarrow> gsmd_fd) \<Rightarrow> 'w select \<Rightarrow> ptr list \<Rightarrow> bool" where
  "fds_ok rd_fd s xs \<longleftrightarrow> dl_list (fd_links s) (gsmd_fds s) xs \<and>
     (\<forall>e \<in> set xs. 0 \<le> fd_num (rd_fd (fd_world s) e) \<and> fd_num (rd_fd (fd_world s) e) < FD_SETSIZE) \<and>
     (\<forall>e \<in> set xs. fd_num (rd_fd (fd_world s) e) \<le> maxfd s)"

lemma prepare_fold:
  assumes "\<forall>e \<in> set xs. 0 \<le> fd_num (rd_fd (fd_world s) e) \<and> fd_num (rd_fd (fd_world s) e) < FD_SETSIZE"
  shows "fold (prepare_body rd_fd) xs (s, Some (rs, ws, es)) =
    (s, Some (rs \<union> interest rd_fd GSMD_FD_READ s xs, ws \<union> interest rd_fd GSMD_FD_WRITE s xs, es \<union> interest rd_fd GSMD_FD_EXCEPT s xs))"
  using assms
proof (induction xs arbitrary: rs ws es)
  case (Cons e xs)
  have i: "interest rd_fd f s (e # xs) =
      (if fd_when (rd_fd (fd_world s) e) AND f \<noteq> 0 then {fd_num (rd_fd (fd_world s) e)} else {}) \<union> interest rd_fd f s xs" for f
    by (auto simp: interest_def)
  have "prepare_body rd_fd e (s, Some (rs, ws, es)) =
      (s, Some (rs \<union> (if fd_when (rd_fd (fd_world s) e) AND GSMD_FD_READ \<noteq> 0 then {fd_num (rd_fd (fd_world s) e)} else {}),
        ws \<union> (if fd_when (rd_fd (fd_world s) e) AND GSMD_FD_WRITE \<noteq> 0 then {fd_num (rd_fd (fd_world s) e)} else {}),
        es \<union> (if fd_when (rd_fd (fd_world s) e) AND GSMD_FD_EXCEPT \<noteq> 0 then {fd_num (rd_fd (fd_world s) e)} else {})))"
    using Cons.prems by (simp add: prepare_body_def FD_SET_def Let_def)
  moreover have "\<forall>e \<in> set xs. 0 \<le> fd_num (rd_fd (fd_world s) e) \<and> fd_num (rd_fd (fd_world s) e) < FD_SETSIZE"
    using Cons.prems by simp
  ultimately show ?case using Cons.IH by (simp add: i Un_assoc)
qed (simp add: interest_def)

lemma prepare_loop:
  assumes "fds_ok rd_fd s xs"
  shows "llist_for_each_entry pair_links (prepare_body rd_fd) (gsmd_fds s) (s, Some ({}, {}, {})) =
    Some (s, Some (interest rd_fd GSMD_FD_READ s xs, interest rd_fd GSMD_FD_WRITE s xs, interest rd_fd GSMD_FD_EXCEPT s xs))"
proof -
  have "llist_for_each_entry pair_links (prepare_body rd_fd) (gsmd_fds s) (s, Some ({}, {}, {})) =
      Some (fold (prepare_body rd_fd) xs (s, Some ({}, {}, {})))"
    using llist_for_each_fold [where lnk = pair_links and body = "prepare_body rd_fd" and p = "gsmd_fds s" and xs = xs
      and s = "(s, Some ({}, {}, {}))" and I = "\<lambda>_. True"] assms
    by (auto simp: fds_ok_def prepare_body_def pair_links_def Let_def split: prod.splits)
  then show ?thesis using prepare_fold [of xs rd_fd s "{}" "{}" "{}"] assms by (simp add: fds_ok_def)
qed

section \<open>The dispatch\<close>

text \<open>The reference: the callbacks of a list of descriptors with their flags, one after the other.\<close>

fun run_ready :: "(ptr \<Rightarrow> u32 \<Rightarrow> 's \<Rightarrow> 's option) \<Rightarrow> (ptr \<times> u32) list \<Rightarrow> 's \<Rightarrow> 's option" where
  "run_ready cb [] s = Some s"
| "run_ready cb ((e, f) # r) s = (if f = 0 then run_ready cb r s else Option.bind (cb e f s) (run_ready cb r))"

definition ready_calls :: "('w \<Rightarrow> ptr \<Rightarrow> gsmd_fd) \<Rightarrow> fd_sets \<Rightarrow> 'w select \<Rightarrow> ptr list \<Rightarrow> (ptr \<times> u32) list" where
  "ready_calls rd_fd sets s xs = map (\<lambda>e. (e, fd_flags sets (fd_num (rd_fd (fd_world s) e)))) xs"

definition sets_within :: "fd_sets \<Rightarrow> int set \<Rightarrow> bool" where
  "sets_within sets N \<longleftrightarrow> fst sets \<subseteq> N \<and> fst (snd sets) \<subseteq> N \<and> snd (snd sets) \<subseteq> N"

lemma fd_flags_outside: "sets_within sets N \<Longrightarrow> n \<notin> N \<Longrightarrow> fd_flags sets n = 0"
  by (auto simp: fd_flags_def sets_within_def split: prod.split)

lemma dispatch_simps [simp]:
  "dispatch_body rd_fd cb sets e (s, False) = (s, False)"
  "ready_flags sets (fd_num (rd_fd (fd_world s) e)) = Some f \<Longrightarrow> dispatch_body rd_fd cb sets e (s, True) =
    (if f \<noteq> 0 then (case cb e f s of None \<Rightarrow> (s, False) | Some s' \<Rightarrow> (s', True)) else (s, True))"
  by (simp_all add: dispatch_body_def)

text \<open>
  What the loop relies on in the callbacks: a callback may remove its own descriptor from the list, and may append new ones,
  whose numbers are not among those that the system call was asked about. The invariant \<open>inv N s kept todo\<close> speaks of
  the numbers \<open>N\<close> at the begin of the round, the descriptors before the current position and those from it on.
\<close>

locale fd_callbacks =
  fixes rd_fd :: "'w \<Rightarrow> ptr \<Rightarrow> gsmd_fd"
    and cb :: "ptr \<Rightarrow> u32 \<Rightarrow> 'w select \<Rightarrow> 'w select option"
    and inv :: "int set \<Rightarrow> 'w select \<Rightarrow> ptr list \<Rightarrow> ptr list \<Rightarrow> bool"
  assumes inv_fds: "inv N s kept todo \<Longrightarrow> fds_ok rd_fd s (kept @ todo)"
    and inv_skip: "inv N s kept (e # todo) \<Longrightarrow> inv N s (kept @ [e]) todo"
    and inv_cb: "inv N s kept (e # todo) \<Longrightarrow> cb e f s = Some s' \<Longrightarrow>
      \<exists>mid new. inv N s' (kept @ mid) (todo @ new) \<and> gsmd_fds s' = gsmd_fds s \<and>
        (\<forall>x \<in> set todo. fd_num (rd_fd (fd_world s') x) = fd_num (rd_fd (fd_world s) x)) \<and>
        (\<forall>x \<in> set new. fd_num (rd_fd (fd_world s') x) \<notin> N)"
begin

abbreviation loop :: "fd_sets \<Rightarrow> ptr \<Rightarrow> ptr list \<Rightarrow> 'w select \<times> bool \<Rightarrow> ('w select \<times> bool) option" where
  "loop sets p todo x \<equiv> for_each_safe pair_links (dispatch_body rd_fd cb sets) p (hd (todo @ [p]))
     (nxt (pair_links x) (hd (todo @ [p]))) x"

lemma next_todo: "inv N s kept (e # todo) \<Longrightarrow> e \<noteq> gsmd_fds s \<and> nxt (fd_links s) e = hd (todo @ [gsmd_fds s])"
  using dl_list_next_at [of "fd_links s" "gsmd_fds s" kept e todo] dl_list_distinct [of "fd_links s" "gsmd_fds s" "kept @ e # todo"]
  by (auto dest!: inv_fds simp: fds_ok_def)

lemma loop_end: "loop sets p [] x = Some x"
  by (subst for_each_safe.simps) simp

lemma loop_step:
  assumes "inv N s kept (e # todo)" "dispatch_body rd_fd cb sets e (s, ok) = x" "gsmd_fds (fst x) = gsmd_fds s"
    and "todo = [] \<longrightarrow> todo' = []" "todo \<noteq> [] \<longrightarrow> hd todo' = hd todo \<and> todo' \<noteq> []"
  shows "loop sets (gsmd_fds s) (e # todo) (s, ok) = loop sets (gsmd_fds (fst x)) todo' x"
proof -
  have "hd (todo' @ [gsmd_fds s]) = hd (todo @ [gsmd_fds s])" using assms(4,5) by (cases todo; cases todo') auto
  then show ?thesis
    using next_todo [OF assms(1)] assms(2,3) by (subst for_each_safe.simps) (simp add: pair_links_def)
qed

text \<open>After undefined behaviour, and over descriptors that are not ready, the loop runs to its end and does nothing.\<close>

lemma loop_failed: "inv N s kept todo \<Longrightarrow> loop sets (gsmd_fds s) todo (s, False) = Some (s, False)"
proof (induction todo arbitrary: kept)
  case (Cons e todo)
  then show ?case
    using loop_step [OF Cons.prems, of sets False "(s, False)" todo] Cons.IH [OF inv_skip [OF Cons.prems]] by simp
qed (rule loop_end)

lemma num_range: "inv N s kept (e # todo) \<Longrightarrow> ready_flags sets (fd_num (rd_fd (fd_world s) e)) = Some (fd_flags sets (fd_num (rd_fd (fd_world s) e)))"
  using inv_fds [of N s kept "e # todo"] by (simp add: fds_ok_def ready_flags_def)

lemma loop_idle:
  assumes "inv N s kept todo" "\<forall>x \<in> set todo. fd_flags sets (fd_num (rd_fd (fd_world s) x)) = 0"
  shows "loop sets (gsmd_fds s) todo (s, True) = Some (s, True)"
  using assms
proof (induction todo arbitrary: kept)
  case (Cons e todo)
  then show ?case
    using loop_step [OF Cons.prems(1), of sets True "(s, True)" todo] num_range [OF Cons.prems(1)] Cons.IH [OF inv_skip [OF Cons.prems(1)]]
    by simp
qed (rule loop_end)

text \<open>
  The loop over the descriptors of the begin of the round (\<open>rest\<close>), and those that were added since (\<open>news\<close>).
\<close>

lemma loop_runs:
  assumes "inv N s kept (rest @ news)" "\<forall>x \<in> set news. fd_num (rd_fd (fd_world s) x) \<notin> N" "sets_within sets N"
  shows "\<exists>x. loop sets (gsmd_fds s) (rest @ news) (s, True) = Some x \<and>
    (if snd x then Some (fst x) else None) = run_ready cb (ready_calls rd_fd sets s rest) s \<and>
    (snd x \<longrightarrow> (\<exists>xs ys. inv N (fst x) xs ys))"
  using assms
proof (induction rest arbitrary: s kept news)
  case Nil
  have "loop sets (gsmd_fds s) news (s, True) = Some (s, True)"
    using Nil(1,2) fd_flags_outside [OF Nil(3)] by (intro loop_idle [of N s kept]) simp_all
  then show ?case using Nil(1) by (auto simp: ready_calls_def)
next
  case (Cons e rest)
  let ?f = "fd_flags sets (fd_num (rd_fd (fd_world s) e))"
  have i: "inv N s kept (e # rest @ news)" using Cons.prems(1) by simp
  have calls: "ready_calls rd_fd sets s (e # rest) = (e, ?f) # ready_calls rd_fd sets s rest" by (simp add: ready_calls_def)
  note step = loop_step [OF i]
  have body: "dispatch_body rd_fd cb sets e (s, True) =
      (if ?f \<noteq> 0 then (case cb e ?f s of None \<Rightarrow> (s, False) | Some s' \<Rightarrow> (s', True)) else (s, True))"
    using num_range [OF i, of sets] by simp
  show ?case
  proof (cases "?f = 0")
    case True
    then have "loop sets (gsmd_fds s) (e # rest @ news) (s, True) = loop sets (gsmd_fds s) (rest @ news) (s, True)"
      using step [of sets True "(s, True)" "rest @ news"] body by simp
    then show ?thesis using Cons.IH [OF inv_skip [OF i] Cons.prems(2,3)] True by (simp add: calls)
  next
    case False
    show ?thesis
    proof (cases "cb e ?f s")
      case None
      then have "loop sets (gsmd_fds s) (e # rest @ news) (s, True) = loop sets (gsmd_fds s) (rest @ news) (s, False)"
        using step [of sets True "(s, False)" "rest @ news"] body False by simp
      then show ?thesis using False None loop_failed [OF inv_skip [OF i], of sets] by (simp add: calls)
    next
      case (Some s')
      obtain mid new where m: "inv N s' (kept @ mid) ((rest @ news) @ new)" "gsmd_fds s' = gsmd_fds s"
          "\<forall>x \<in> set (rest @ news). fd_num (rd_fd (fd_world s') x) = fd_num (rd_fd (fd_world s) x)"
          "\<forall>x \<in> set new. fd_num (rd_fd (fd_world s') x) \<notin> N"
        using inv_cb [OF i Some] by blast
      have calls': "ready_calls rd_fd sets s' rest = ready_calls rd_fd sets s rest" using m(3) by (simp add: ready_calls_def)
      have b: "dispatch_body rd_fd cb sets e (s, True) = (s', True)" using body False Some by simp
      show ?thesis
      proof (cases "rest @ news = []")
        case True
        then have "loop sets (gsmd_fds s) (e # rest @ news) (s, True) = Some (s', True)"
          using step [OF b, of "[]"] m(2) loop_end [of sets "gsmd_fds s" "(s', True)"] by simp
        then show ?thesis using True False Some m(1) by (auto simp: ready_calls_def)
      next
        case ne: False
        have l: "loop sets (gsmd_fds s) (e # rest @ news) (s, True) = loop sets (gsmd_fds s') (rest @ news @ new) (s', True)"
          using step [OF b, of "rest @ news @ new"] m(2) ne by (cases rest) auto
        have "\<exists>x. loop sets (gsmd_fds s') (rest @ news @ new) (s', True) = Some x \<and>
            (if snd x then Some (fst x) else None) = run_ready cb (ready_calls rd_fd sets s' rest) s' \<and>
            (snd x \<longrightarrow> (\<exists>xs ys. inv N (fst x) xs ys))"
          by (rule Cons.IH) (use m Cons.prems(2,3) in auto)
        then obtain x where "loop sets (gsmd_fds s') (rest @ news @ new) (s', True) = Some x"
            "(if snd x then Some (fst x) else None) = run_ready cb (ready_calls rd_fd sets s' rest) s'"
            "snd x \<longrightarrow> (\<exists>xs ys. inv N (fst x) xs ys)" by blast
        then show ?thesis using l False Some calls calls' by (intro exI [of _ x]) simp
      qed
    qed
  qed
qed

text \<open>
  One round: the system call is asked about exactly the descriptors of interest; then every descriptor that it reports gets its
  callback once, in the order of registration, with exactly the events reported for its number; the loop ends.
\<close>

lemma select_main_runs:
  assumes "inv N s [] xs" "sel (maxfd s + 1) (interest rd_fd GSMD_FD_READ s xs, interest rd_fd GSMD_FD_WRITE s xs,
      interest rd_fd GSMD_FD_EXCEPT s xs) = (i, sets)" "sets_within sets N"
  shows "gsmd_select_main rd_fd cb sel s = map_option (Pair i) (if i > 0 then run_ready cb (ready_calls rd_fd sets s xs) s else Some s)"
    "gsmd_select_main rd_fd cb sel s = Some (i, s') \<Longrightarrow> \<exists>N xs ys. inv N s' xs ys"
proof -
  have f: "fds_ok rd_fd s xs" using inv_fds [OF assms(1)] by simp
  have "nxt (fd_links s) (gsmd_fds s) = hd (xs @ [gsmd_fds s])" using f dl_list_next by (auto simp: fds_ok_def)
  then have l: "llist_for_each_entry_safe pair_links (dispatch_body rd_fd cb sets) (gsmd_fds s) (s, True) = loop sets (gsmd_fds s) xs (s, True)"
    by (simp add: llist_for_each_entry_safe_def pair_links_def)
  have "\<exists>x. loop sets (gsmd_fds s) (xs @ []) (s, True) = Some x \<and>
      (if snd x then Some (fst x) else None) = run_ready cb (ready_calls rd_fd sets s xs) s \<and>
      (snd x \<longrightarrow> (\<exists>xs ys. inv N (fst x) xs ys))"
    by (rule loop_runs [of N s "[]"]) (use assms(1,3) in simp_all)
  then obtain x where x: "loop sets (gsmd_fds s) xs (s, True) = Some x"
      "(if snd x then Some (fst x) else None) = run_ready cb (ready_calls rd_fd sets s xs) s"
      "snd x \<longrightarrow> (\<exists>xs ys. inv N (fst x) xs ys)"
    unfolding append_Nil2 by blast
  obtain s1 ok where x1: "x = (s1, ok)" by (cases x)
  have e: "gsmd_select_main rd_fd cb sel s = (if i > 0 then (if ok then Some (i, s1) else None) else Some (i, s))"
    by (simp add: gsmd_select_main_def prepare_loop [OF f] assms(2) l x(1) x1)
  show "gsmd_select_main rd_fd cb sel s = map_option (Pair i) (if i > 0 then run_ready cb (ready_calls rd_fd sets s xs) s else Some s)"
    using x(2) [symmetric] by (auto simp: e x1 split: if_splits)
  show "gsmd_select_main rd_fd cb sel s = Some (i, s') \<Longrightarrow> \<exists>N xs ys. inv N s' xs ys"
    using x(3) assms(1) by (auto simp: e x1 split: if_splits)
qed

end

section \<open>Registration\<close>

lemma register_fds_ok:
  assumes "fds_ok rd_fd s xs" "e \<notin> set (gsmd_fds s # xs)" "fd_num (rd_fd (fd_world s) e) = n" "0 \<le> n" "n < FD_SETSIZE"
  shows "\<exists>ys. (ys = xs \<or> ys = xs @ [e]) \<and> fds_ok rd_fd (snd (gsmd_register_fd fl fl' e n s)) ys"
proof -
  have d: "dl_list (llist_add_tail (fd_links s) e (gsmd_fds s)) (gsmd_fds s) (xs @ [e])"
    using assms(1,2) by (auto simp: fds_ok_def intro: dl_list_add_tail)
  show ?thesis
  proof (cases "fl < 0 \<or> fl' < 0")
    case True
    then show ?thesis using assms(1) by (auto simp: gsmd_register_fd_def)
  next
    case False
    then show ?thesis using assms d by (intro exI [of _ "xs @ [e]"]) (auto simp: gsmd_register_fd_def fds_ok_def)
  qed
qed

lemma unregister_fds_ok:
  assumes "fds_ok rd_fd s (xs @ e # ys)"
  shows "fds_ok rd_fd (gsmd_unregister_fd e s) (xs @ ys)"
  using assms dl_list_del [of "fd_links s" "gsmd_fds s" xs e ys] by (auto simp: fds_ok_def gsmd_unregister_fd_def)

end
