(* ===== verification/Main_Loop.thy ===== *)
theory Main_Loop
  imports Daemon Select
begin

text \<open>
  One round of the daemon's main loop: \<open>gsmd_select_main\<close> with the callbacks that the daemon registers, \<open>atcmd_select_cb\<close>
  (\<^verbatim>\<open>atcmd.c\<close>) for the modem, \<open>gsmd_usock_cb\<close> for the listening socket and \<open>gsmd_usock_user_cb\<close> for each client (\<^verbatim>\<open>usock.c\<close>). A round is
  shown to be a run of \<open>daemon_step\<close>, so that what holds for every run holds for the program's own loop.
\<close>

section \<open>State\<close>

text \<open>
  The structures \<open>gsmd_fd\<close>: two in \<^verbatim>\<open>struct gsmd\<close>, and one in the structure of each client. The head of the list is at 0.
\<close>

abbreviation (input) uart_fd :: ptr where "uart_fd \<equiv> 1"
abbreviation (input) sock_fd :: ptr where "sock_fd \<equiv> 2"

definition client_fd :: "nat \<Rightarrow> ptr" where
  "client_fd gu = gu + 3"

text \<open>
  What the system calls return in a round: the chunks read from the modem and whether the last \<open>read\<close> returned 0 (and not \<open>EAGAIN\<close>), the
  results of writing to it, of \<open>accept\<close> and of \<open>fcntl\<close>, and what is read from and written to each client.
\<close>

record loop_input =
  in_uart :: "string list"
  in_uart_eof :: bool
  in_write :: "nat \<Rightarrow> int"
  in_cr :: bool
  in_accept :: int
  in_fcntl :: "int \<times> int"
  in_client :: "nat \<Rightarrow> int + string"
  in_client_write :: "nat \<Rightarrow> int list"

record loop_world =
  lw_daemon :: daemon
  lw_llp :: llparser
  lw_num :: "ptr \<Rightarrow> int"
  lw_in :: loop_input

definition daemon_fd :: "loop_world \<Rightarrow> ptr \<Rightarrow> gsmd_fd" where
  "daemon_fd w e = \<lparr>fd_num = lw_num w e, fd_when =
     (if e = uart_fd then GSMD_FD_READ OR (if uart_write (lw_daemon w) then GSMD_FD_WRITE else 0)
      else if e = sock_fd then GSMD_FD_READ OR GSMD_FD_EXCEPT
      else GSMD_FD_READ OR (case find_user (e - 3) (lw_daemon w) of
             Some u \<Rightarrow> if gu_write u then GSMD_FD_WRITE else 0
           | None \<Rightarrow> 0))\<rparr>"

section \<open>Callbacks\<close>

definition upd_loop :: "(loop_world \<Rightarrow> loop_world) \<Rightarrow> loop_world select \<Rightarrow> loop_world select" where
  "upd_loop f s = s\<lparr>fd_world := f (fd_world s)\<rparr>"

text \<open>\<open>atcmd_select_cb\<close>: after \<open>EAGAIN\<close> it returns at once, and does not come to the write half.\<close>

definition uart_write_half :: "u32 \<Rightarrow> loop_input \<Rightarrow> daemon \<Rightarrow> daemon option" where
  "uart_write_half flags i g =
     (if flags AND GSMD_FD_WRITE \<noteq> 0
      then map_option (\<lambda>(_, g, _). g)
        (select_write (in_write i (case pending_atcmds g of [] \<Rightarrow> 1 | c # _ \<Rightarrow> write_len c)) (in_cr i) g)
      else Some g)"

definition atcmd_select_cb :: "u32 \<Rightarrow> loop_world \<Rightarrow> loop_world option" where
  "atcmd_select_cb flags w =
     (if flags AND GSMD_FD_READ \<noteq> 0
      then case select_read daemon_env (in_uart (lw_in w)) (lw_llp w) (Some (lw_daemon w)) of
             (rc, llp, None) \<Rightarrow> None
           | (rc, llp, Some g) \<Rightarrow>
               if rc < 0 \<or> \<not> in_uart_eof (lw_in w) then Some (w\<lparr>lw_llp := llp, lw_daemon := g\<rparr>)
               else map_option (\<lambda>g. w\<lparr>lw_llp := llp, lw_daemon := g\<rparr>) (uart_write_half flags (lw_in w) g)
      else map_option (\<lambda>g. w\<lparr>lw_daemon := g\<rparr>) (uart_write_half flags (lw_in w) (lw_daemon w)))"

text \<open>A new client is registered with the number that \<open>accept\<close> returned.\<close>

definition sock_cb :: "u32 \<Rightarrow> loop_world select \<Rightarrow> loop_world select option" where
  "sock_cb flags s =
     (let w = fd_world s; i = lw_in w
      in if flags AND GSMD_FD_READ = 0 then Some s
         else do {
           (rc, g) \<leftarrow> gsmd_usock_cb (in_accept i) (lw_daemon w);
           if rc < 0 then Some (upd_loop (lw_daemon_update (\<lambda>_. g)) s)
           else
             let e = client_fd (gu_ptr (hd (users (world g))));
                 s = upd_loop (\<lambda>w. w\<lparr>lw_daemon := g, lw_num := (lw_num w)(e := in_accept i)\<rparr>) s
             in Some (snd (gsmd_register_fd (fst (in_fcntl i)) (snd (in_fcntl i)) e (in_accept i) s))
         })"

definition client_cb :: "nat \<Rightarrow> u32 \<Rightarrow> loop_world select \<Rightarrow> loop_world select option" where
  "client_cb gu flags s =
     (let w = fd_world s; i = lw_in w
      in do {
        (rc, g, out) \<leftarrow> gsmd_usock_user_cb (flags AND GSMD_FD_READ \<noteq> 0) (flags AND GSMD_FD_WRITE \<noteq> 0) gu (in_client i gu)
          (in_client_write i gu) (lw_daemon w);
        let s = (if flags AND GSMD_FD_READ \<noteq> 0 \<and> in_client i gu = Inr [] then gsmd_unregister_fd (client_fd gu) s else s);
        Some (upd_loop (lw_daemon_update (\<lambda>_. g)) s)
      })"

definition daemon_cb :: "ptr \<Rightarrow> u32 \<Rightarrow> loop_world select \<Rightarrow> loop_world select option" where
  "daemon_cb e flags s =
     (if e = uart_fd then map_option (\<lambda>w. s\<lparr>fd_world := w\<rparr>) (atcmd_select_cb flags (fd_world s))
      else if e = sock_fd then sock_cb flags s
      else client_cb (e - 3) flags s)"

text \<open>A round of the loop of \<open>main\<close>, with the results of the system calls in it.\<close>

definition main_round :: "loop_input \<Rightarrow> (int \<Rightarrow> fd_sets \<Rightarrow> int \<times> fd_sets) \<Rightarrow> loop_world select \<Rightarrow> (int \<times> loop_world select) option" where
  "main_round i sel s = gsmd_select_main daemon_fd daemon_cb sel (upd_loop (lw_in_update (\<lambda>_. i)) s)"

section \<open>Rounds are runs\<close>

definition loop_state :: "loop_world select \<Rightarrow> daemon \<times> llparser" where
  "loop_state s = (lw_daemon (fd_world s), lw_llp (fd_world s))"

text \<open>The results of the system calls are possible ones.\<close>

definition input_ok :: "loop_input \<Rightarrow> bool" where
  "input_ok i \<longleftrightarrow> (\<forall>n. in_write i n \<noteq> 0 \<and> in_write i n \<le> int n) \<and> in_accept i < FD_SETSIZE"

text \<open>The modem, the listening socket and some clients of the daemon are registered, each with a number of its own.\<close>

definition main_ok :: "loop_world select \<Rightarrow> ptr list \<Rightarrow> bool" where
  "main_ok s xs \<longleftrightarrow> fds_ok daemon_fd s xs \<and> gsmd_fds s = 0 \<and> daemon_ok (lw_daemon (fd_world s)) \<and>
     (\<exists>cs. xs = uart_fd # sock_fd # map client_fd cs \<and> set cs \<subseteq> gu_ptr ` set (users (world (lw_daemon (fd_world s)))))"

definition main_inv :: "int set \<Rightarrow> loop_world select \<Rightarrow> ptr list \<Rightarrow> ptr list \<Rightarrow> bool" where
  "main_inv N s kept todo \<longleftrightarrow> main_ok s (kept @ todo) \<and> input_ok (lw_in (fd_world s)) \<and>
     (sock_fd \<in> set todo \<longrightarrow> in_accept (lw_in (fd_world s)) \<notin> N)"

lemma write_half_step:
  assumes "uart_write_half flags i g = Some g'" "input_ok i"
  shows "daemon_step\<^sup>*\<^sup>* (g, llp) (g', llp)" "world g' = world g"
proof -
  let ?w = "in_write i (case pending_atcmds g of [] \<Rightarrow> 1 | c # _ \<Rightarrow> write_len c)"
  have w: "write_ok ?w g" using assms(2) by (auto simp: write_ok_def input_ok_def split: list.split)
  consider "g' = g" | rc out where "select_write ?w (in_cr i) g = Some (rc, g', out)"
    using assms(1) by (auto simp: uart_write_half_def split: if_splits)
  then show "daemon_step\<^sup>*\<^sup>* (g, llp) (g', llp)" "world g' = world g"
    using Uart_Write [OF w] select_write_same by (cases; fastforce)+
qed

lemma steps_daemon_ok:
  assumes "daemon_step\<^sup>*\<^sup>* a b" "daemon_ok (fst a)"
  shows "daemon_ok (fst b)"
  using assms
proof (induction rule: rtranclp_induct)
  case (step b c)
  then show ?case using step_daemon_ok [of "fst b" "snd b" "fst c" "snd c"] by simp
qed simp

lemma read_step:
  assumes "select_read daemon_env rxs llp (Some g) = (rc, llp', Some g')"
  shows "daemon_step (g, llp) (g', llp')" "map gu_ptr (users (world g')) = map gu_ptr (users (world g))"
proof -
  show "daemon_step (g, llp) (g', llp')" by (rule Uart_Read [OF assms])
  have "daemon_keeps g g'" using select_read_keeps [of g "Some g" rxs llp] assms by (simp add: state_keeps_def qk.R_refl)
  then show "map gu_ptr (users (world g')) = map gu_ptr (users (world g))"
    using world_growsD(1) by (simp add: daemon_keeps_def)
qed

lemma uart_cb_runs:
  assumes "atcmd_select_cb flags w = Some w'" "input_ok (lw_in w)"
  shows "daemon_step\<^sup>*\<^sup>* (lw_daemon w, lw_llp w) (lw_daemon w', lw_llp w') \<and>
    map gu_ptr (users (world (lw_daemon w'))) = map gu_ptr (users (world (lw_daemon w))) \<and> lw_num w' = lw_num w \<and> lw_in w' = lw_in w"
proof (cases "flags AND GSMD_FD_READ = 0")
  case True
  then obtain g where "uart_write_half flags (lw_in w) (lw_daemon w) = Some g" "w' = w\<lparr>lw_daemon := g\<rparr>"
    using assms(1) by (auto simp: atcmd_select_cb_def)
  then show ?thesis using write_half_step [OF _ assms(2)] by simp
next
  case False
  obtain rc llp g where r: "select_read daemon_env (in_uart (lw_in w)) (lw_llp w) (Some (lw_daemon w)) = (rc, llp, Some g)"
    and c: "w' = w\<lparr>lw_llp := llp, lw_daemon := g\<rparr> \<or>
      (\<exists>g2. uart_write_half flags (lw_in w) g = Some g2 \<and> w' = w\<lparr>lw_llp := llp, lw_daemon := g2\<rparr>)"
    using assms(1) False by (auto simp: atcmd_select_cb_def split: prod.splits option.splits if_splits)
  note rs = read_step [OF r]
  show ?thesis
  proof (cases "w' = w\<lparr>lw_llp := llp, lw_daemon := g\<rparr>")
    case True
    then show ?thesis using rs by simp
  next
    case False
    then obtain g2 where g2: "uart_write_half flags (lw_in w) g = Some g2" "w' = w\<lparr>lw_llp := llp, lw_daemon := g2\<rparr>" using c by blast
    then show ?thesis
      using rs(2) write_half_step(2) [OF g2(1) assms(2)]
        rtranclp_trans [OF r_into_rtranclp [of daemon_step, OF rs(1)] write_half_step(1) [OF g2(1) assms(2), of llp]] by simp
  qed
qed

lemma client_cb_users:
  assumes "gsmd_usock_user_cb ro wo gu rcv rcs g = Some (rc, g', out)"
  shows "gu_ptr ` set (users (world g')) = (if ro \<and> rcv = Inr [] then gu_ptr ` set (users (world g)) - {gu} else gu_ptr ` set (users (world g)))"
proof -
  have u: "gu_ptr ` set (users (world (upd_user gu f g))) = gu_ptr ` set (users (world g))" if "\<And>u. gu_ptr (f u) = gu_ptr u" for f
  proof -
    have "map gu_ptr (users (world (upd_user gu f g))) = map gu_ptr (users (world g))"
      using that by (simp add: upd_user_def upd_world_def)
    then show ?thesis by (metis list.set_map)
  qed
  consider (eof) "ro" "rcv = Inr []" "g' = del_user gu g" | (same) "\<not> (ro \<and> rcv = Inr [])" "g' = g"
    | (msg) c s where "ro" "rcv = Inr (c # s)" "user_read gu rcv g = Some (rc, g')" | (wt) "\<not> ro" "user_write gu rcs g = Some (rc, g', out)"
    using assms by (cases rcv) (auto simp: gsmd_usock_user_cb_def user_read_def split: if_splits bind_splits list.splits)
  then show ?thesis
  proof cases
    case eof
    then show ?thesis by (auto simp: del_user_def upd_world_def)
  next
    case msg
    then have "map gu_ptr (users (world g')) = map gu_ptr (users (world g))"
      using user_read_keeps [of gu c s g rc g'] world_growsD(1) by (simp add: daemon_keeps_def)
    then have "gu_ptr ` set (users (world g')) = gu_ptr ` set (users (world g))" by (metis list.set_map)
    then show ?thesis using msg by simp
  next
    case wt
    then obtain x r left where "find_user gu g = Some x" and x: "write_loop rcs (finished_ucmds x) = Some (r, left, out)"
      "g' = upd_user gu (case r of Some _ \<Rightarrow> finished_ucmds_update (\<lambda>_. left)
        | None \<Rightarrow> (\<lambda>u. u\<lparr>finished_ucmds := left, gu_write := (gu_write u \<and> left \<noteq> [])\<rparr>)) g"
      by (auto simp: user_write_def split: bind_splits option.splits)
    have "gu_ptr ` set (users (world g')) = gu_ptr ` set (users (world g))"
      unfolding x(2) by (rule u) (simp split: option.split)
    then show ?thesis using wt(1) by simp
  qed auto
qed

text \<open>The three kinds of descriptors.\<close>

lemma fd_kinds:
  assumes "kept @ e # todo = uart_fd # sock_fd # map client_fd cs"
  obtains (Uart) "e = uart_fd" "kept = []" | (Sock) "e = sock_fd" "kept = [uart_fd]"
    | (Client) c1 gu c2 where "e = client_fd gu" "cs = c1 @ gu # c2" "kept = uart_fd # sock_fd # map client_fd c1" "todo = map client_fd c2"
proof (cases kept)
  case (Cons a k)
  then show ?thesis
  proof (cases k)
    case (Cons b r)
    then have "map client_fd cs = r @ e # todo" "kept = uart_fd # sock_fd # r" using assms \<open>kept = a # k\<close> by simp_all
    then show ?thesis using Client by (fastforce simp: map_eq_append_conv)
  qed (use assms Sock in simp)
qed (use assms Uart in simp)

lemma client_fd_simps [simp]: "client_fd gu \<noteq> uart_fd" "client_fd gu \<noteq> sock_fd" "client_fd gu - 3 = gu" "client_fd gu \<noteq> 0"
    "uart_fd \<noteq> client_fd gu" "sock_fd \<noteq> client_fd gu" "client_fd a = client_fd b \<longleftrightarrow> a = b" "client_fd gu \<noteq> Suc 0" "Suc 0 \<noteq> client_fd gu"
    "client_fd gu - Suc (Suc (Suc 0)) = gu"
  by (auto simp: client_fd_def)

lemma fd_num_daemon [simp]: "fd_num (daemon_fd w e) = lw_num w e"
  by (simp add: daemon_fd_def)

lemma daemon_fd_in [simp]: "daemon_fd (lw_in_update f w) e = daemon_fd w e"
  by (simp add: daemon_fd_def)

lemma main_inv_upd:
  assumes "main_inv N s kept (e # todo)" "daemon_step\<^sup>*\<^sup>* (loop_state s) (g, llp)"
    and "gu_ptr ` set (users (world g)) = gu_ptr ` set (users (world (lw_daemon (fd_world s))))"
  shows "main_inv N (upd_loop (\<lambda>w. w\<lparr>lw_daemon := g, lw_llp := llp\<rparr>) s) (kept @ [e]) todo"
  using assms steps_daemon_ok [OF assms(2)]
  by (auto simp: main_inv_def main_ok_def upd_loop_def fds_ok_def loop_state_def)

lemma user_steps:
  assumes "gsmd_usock_user_cb ro wo gu rcv rcs g = Some (rc, g', out)"
  shows "daemon_step\<^sup>*\<^sup>* (g, llp) (g', llp)"
  by (rule r_into_rtranclp, rule Client [OF assms])

text \<open>A client that closed its connection leaves the list.\<close>

lemma client_left:
  assumes "main_inv N s kept (e # todo)" "e = client_fd gu" "kept = uart_fd # sock_fd # map client_fd c1" "todo = map client_fd c2"
    and "daemon_step\<^sup>*\<^sup>* (loop_state s) (g, lw_llp (fd_world s))"
    and "gu_ptr ` set (users (world g)) = gu_ptr ` set (users (world (lw_daemon (fd_world s)))) - {gu}"
  shows "main_inv N (upd_loop (lw_daemon_update (\<lambda>_. g)) (gsmd_unregister_fd e s)) kept todo"
proof -
  have f: "fds_ok daemon_fd s (kept @ e # todo)" using assms(1) by (simp add: main_inv_def main_ok_def)
  then have "distinct (kept @ e # todo)"
    using dl_list_distinct [of "fd_links s" "gsmd_fds s" "kept @ e # todo"] by (simp add: fds_ok_def)
  then have "gu \<notin> set (c1 @ c2)" using assms(2-4) by auto
  moreover have "set (c1 @ gu # c2) \<subseteq> gu_ptr ` set (users (world (lw_daemon (fd_world s))))"
  proof -
    obtain cs where "kept @ e # todo = uart_fd # sock_fd # map client_fd cs" "set cs \<subseteq> gu_ptr ` set (users (world (lw_daemon (fd_world s))))"
      using assms(1) by (auto simp: main_inv_def main_ok_def)
    moreover have "kept @ e # todo = uart_fd # sock_fd # map client_fd (c1 @ gu # c2)" using assms(2-4) by simp
    ultimately have "map client_fd cs = map client_fd (c1 @ gu # c2)" by (metis list.inject)
    then have "cs = c1 @ gu # c2" by (rule map_injective) (simp add: inj_def)
    then show ?thesis using \<open>set cs \<subseteq> _\<close> by simp
  qed
  ultimately have c: "set (c1 @ c2) \<subseteq> gu_ptr ` set (users (world g))" using assms(6) by auto
  show ?thesis
    using assms(1) steps_daemon_ok [OF assms(5)] unregister_fds_ok [OF f] c
    by (auto simp: main_inv_def main_ok_def upd_loop_def fds_ok_def loop_state_def gsmd_unregister_fd_def assms(3,4)
      intro!: exI [of _ "c1 @ c2"])
qed

text \<open>A new connection: the new client's descriptor comes last.\<close>

lemma connect_cases:
  assumes "gsmd_usock_cb n g = Some (rc, g')"
  obtains (Refused) "rc < 0" "users (world g') = users (world g)"
    | (Accepted) u where "rc = 0" "users (world g') = u # users (world g)" "gu_ptr u = g_next g" "0 \<le> n"
proof (cases g rule: g_alloc_cases)
  case (ok ms)
  then have "rc = 0 \<and> 0 \<le> n \<and> (\<exists>u. users (world g') = u # users (world g) \<and> gu_ptr u = g_next g)"
    using assms by (auto simp: gsmd_usock_cb_def Let_def upd_world_def split: if_splits)
  then show ?thesis using Accepted by blast
next
  case (fail ms)
  then have "rc = - ENOMEM" "g' = g\<lparr>g_mem := ms\<rparr>" using assms by (simp_all add: gsmd_usock_cb_def Let_def)
  then show ?thesis using Refused by (simp add: ENOMEM_def)
qed

lemma sock_runs:
  assumes i: "main_inv N s [uart_fd] (sock_fd # todo)" and c: "sock_cb f s = Some s'"
  shows "\<exists>new. main_inv N s' [uart_fd, sock_fd] (todo @ new) \<and> gsmd_fds s' = gsmd_fds s \<and>
    (\<forall>x \<in> set todo. fd_num (daemon_fd (fd_world s') x) = fd_num (daemon_fd (fd_world s) x)) \<and>
    (\<forall>x \<in> set new. fd_num (daemon_fd (fd_world s') x) \<notin> N) \<and> daemon_step\<^sup>*\<^sup>* (loop_state s) (loop_state s')"
proof -
  let ?w = "fd_world s" and ?n = "in_accept (lw_in (fd_world s))"
  obtain cs where cs: "todo = map client_fd cs" "set cs \<subseteq> gu_ptr ` set (users (world (lw_daemon ?w)))"
    and f: "fds_ok daemon_fd s (uart_fd # sock_fd # todo)" and d: "daemon_ok (lw_daemon ?w)" and n: "?n \<notin> N" "?n < FD_SETSIZE"
      and h: "gsmd_fds s = 0" "input_ok (lw_in ?w)"
    using i by (auto simp: main_inv_def main_ok_def input_ok_def)
  have sk: "sock_fd \<notin> set todo" using cs(1) by auto
  show ?thesis
  proof (cases "f AND GSMD_FD_READ = 0")
    case True
    then have "s' = s" using c by (simp add: sock_cb_def Let_def)
    then show ?thesis using i sk by (intro exI [of _ "[]"]) (auto simp: main_inv_def)
  next
    case False
    obtain rc g where u: "gsmd_usock_cb ?n (lw_daemon ?w) = Some (rc, g)"
        "s' = (if rc < 0 then upd_loop (lw_daemon_update (\<lambda>_. g)) s
         else let e = client_fd (gu_ptr (hd (users (world g)))) in
           snd (gsmd_register_fd (fst (in_fcntl (lw_in ?w))) (snd (in_fcntl (lw_in ?w))) e ?n
             (upd_loop (\<lambda>w. w\<lparr>lw_daemon := g, lw_num := (lw_num w)(e := ?n)\<rparr>) s)))"
      using c False by (auto simp: sock_cb_def Let_def split: bind_splits if_splits)
    have st: "daemon_step (lw_daemon ?w, lw_llp ?w) (g, lw_llp ?w)" by (rule Connect [OF u(1)])
    have dg: "daemon_ok g" by (rule step_daemon_ok [OF st d])
    from u(1) show ?thesis
    proof (cases rule: connect_cases)
      case Refused
      then show ?thesis using u(2) f d dg cs h st sk
        by (intro exI [of _ "[]"]) (auto simp: main_inv_def main_ok_def upd_loop_def fds_ok_def loop_state_def)
    next
      case (Accepted v)
      let ?e = "client_fd (g_next (lw_daemon ?w))"
      let ?s1 = "upd_loop (\<lambda>w. w\<lparr>lw_daemon := g, lw_num := (lw_num w)(?e := ?n)\<rparr>) s"
      have s': "s' = snd (gsmd_register_fd (fst (in_fcntl (lw_in ?w))) (snd (in_fcntl (lw_in ?w))) ?e ?n ?s1)"
        using u(2) Accepted by (simp add: Let_def)
      have "g_next (lw_daemon ?w) \<notin> gu_ptr ` set (users (world (lw_daemon ?w)))" using d by (auto simp: daemon_ok_def)
      then have ne: "?e \<notin> set todo" using cs by auto
      then have f1: "fds_ok daemon_fd ?s1 (uart_fd # sock_fd # todo)" using f by (auto simp: fds_ok_def upd_loop_def)
      have "\<exists>ys. (ys = uart_fd # sock_fd # todo \<or> ys = (uart_fd # sock_fd # todo) @ [?e]) \<and> fds_ok daemon_fd s' ys"
        unfolding s' by (rule register_fds_ok [OF f1]) (use ne h(1) n(2) Accepted(4) in \<open>auto simp: upd_loop_def\<close>)
      then have "\<exists>new. (new = [] \<or> new = [?e]) \<and> fds_ok daemon_fd s' (uart_fd # sock_fd # todo @ new)"
        by (metis append_Cons append_Nil2)
      then obtain new where new: "new = [] \<or> new = [?e]" "fds_ok daemon_fd s' (uart_fd # sock_fd # todo @ new)" by blast
      have w': "fd_world s' = ?w\<lparr>lw_daemon := g, lw_num := (lw_num ?w)(?e := ?n)\<rparr>" "gsmd_fds s' = gsmd_fds s"
        by (simp_all add: s' gsmd_register_fd_def upd_loop_def)
      obtain cs' where cs': "todo @ new = map client_fd cs'" "set cs' \<subseteq> gu_ptr ` set (users (world g))"
      proof
        show "todo @ new = map client_fd (if new = [] then cs else cs @ [g_next (lw_daemon ?w)])" using new(1) cs(1) by auto
        show "set (if new = [] then cs else cs @ [g_next (lw_daemon ?w)]) \<subseteq> gu_ptr ` set (users (world g))"
          using cs(2) Accepted(2,3) by auto
      qed
      have "main_inv N s' [uart_fd, sock_fd] (todo @ new)"
        using new cs' dg h sk by (auto simp: main_inv_def main_ok_def w')
      then show ?thesis
        using w' ne n(1) new(1) st by (intro exI [of _ new]) (auto simp: loop_state_def)
    qed
  qed
qed

text \<open>All callbacks together, and what is reachable from a start state.\<close>

definition main_run_inv :: "daemon \<times> llparser \<Rightarrow> int set \<Rightarrow> loop_world select \<Rightarrow> ptr list \<Rightarrow> ptr list \<Rightarrow> bool" where
  "main_run_inv st N s kept todo \<longleftrightarrow> main_inv N s kept todo \<and> daemon_step\<^sup>*\<^sup>* st (loop_state s)"

lemma uart_runs:
  assumes "main_inv N s [] (uart_fd # todo)" "daemon_cb uart_fd f s = Some s'"
  shows "main_inv N s' [uart_fd] todo \<and> gsmd_fds s' = gsmd_fds s \<and> lw_num (fd_world s') = lw_num (fd_world s) \<and>
    daemon_step\<^sup>*\<^sup>* (loop_state s) (loop_state s')"
proof -
  obtain w' where w: "atcmd_select_cb f (fd_world s) = Some w'" "s' = s\<lparr>fd_world := w'\<rparr>"
    using assms(2) by (auto simp: daemon_cb_def)
  have i: "input_ok (lw_in (fd_world s))" using assms(1) by (simp add: main_inv_def)
  note r = uart_cb_runs [OF w(1) i]
  have u: "gu_ptr ` set (users (world (lw_daemon w'))) = gu_ptr ` set (users (world (lw_daemon (fd_world s))))"
    using r by (metis list.set_map)
  have e: "s' = upd_loop (\<lambda>w. w\<lparr>lw_daemon := lw_daemon w', lw_llp := lw_llp w'\<rparr>) s"
    using r w(2) by (cases w'; cases "fd_world s") (simp add: upd_loop_def)
  have "main_inv N s' ([] @ [uart_fd]) todo"
    unfolding e by (rule main_inv_upd [OF assms(1)]) (use r u in \<open>simp_all add: loop_state_def\<close>)
  then show ?thesis using r w(2) by (simp add: loop_state_def)
qed

lemma client_runs:
  assumes "main_inv N s kept (e # todo)" "e = client_fd gu" "kept = uart_fd # sock_fd # map client_fd c1" "todo = map client_fd c2"
    and "daemon_cb e f s = Some s'"
  shows "(\<exists>mid. main_inv N s' (kept @ mid) todo) \<and> gsmd_fds s' = gsmd_fds s \<and> lw_num (fd_world s') = lw_num (fd_world s) \<and>
    daemon_step\<^sup>*\<^sup>* (loop_state s) (loop_state s')"
proof -
  let ?w = "fd_world s"
  let ?eof = "f AND GSMD_FD_READ \<noteq> 0 \<and> in_client (lw_in ?w) gu = Inr []"
  have "client_cb gu f s = Some s'" using assms(2,5) by (simp add: daemon_cb_def)
  then obtain rc g out where u: "gsmd_usock_user_cb (f AND GSMD_FD_READ \<noteq> 0) (f AND GSMD_FD_WRITE \<noteq> 0) gu (in_client (lw_in ?w) gu)
          (in_client_write (lw_in ?w) gu) (lw_daemon ?w) = Some (rc, g, out)"
      and s': "s' = upd_loop (lw_daemon_update (\<lambda>_. g)) (if ?eof then gsmd_unregister_fd e s else s)"
    using assms(2) by (auto simp: client_cb_def Let_def split: bind_splits if_splits)
  have st: "daemon_step\<^sup>*\<^sup>* (loop_state s) (g, lw_llp ?w)" using user_steps [OF u] by (simp add: loop_state_def)
  note us = client_cb_users [OF u]
  have "\<exists>mid. main_inv N s' (kept @ mid) todo"
  proof (cases ?eof)
    case True
    then have "main_inv N s' kept todo" using client_left [OF assms(1-4) st] us s' by simp
    then show ?thesis by (intro exI [of _ "[]"]) simp
  next
    case False
    then have "s' = upd_loop (\<lambda>w. w\<lparr>lw_daemon := g, lw_llp := lw_llp ?w\<rparr>) s" using s' by (auto simp: upd_loop_def)
    then have "main_inv N s' (kept @ [e]) todo" using main_inv_upd [OF assms(1) st] us False by simp
    then show ?thesis by blast
  qed
  then show ?thesis using st s' by (simp add: upd_loop_def gsmd_unregister_fd_def loop_state_def)
qed

lemma daemon_cb_runs:
  assumes "main_inv N s kept (e # todo)" "daemon_cb e f s = Some s'"
  shows "\<exists>mid new. main_inv N s' (kept @ mid) (todo @ new) \<and> gsmd_fds s' = gsmd_fds s \<and>
    (\<forall>x \<in> set todo. fd_num (daemon_fd (fd_world s') x) = fd_num (daemon_fd (fd_world s) x)) \<and>
    (\<forall>x \<in> set new. fd_num (daemon_fd (fd_world s') x) \<notin> N) \<and> daemon_step\<^sup>*\<^sup>* (loop_state s) (loop_state s')"
proof -
  obtain cs where "kept @ e # todo = uart_fd # sock_fd # map client_fd cs" using assms(1) by (auto simp: main_inv_def main_ok_def)
  then show ?thesis
  proof (cases rule: fd_kinds)
    case Uart
    have "main_inv N s [] (uart_fd # todo)" "daemon_cb uart_fd f s = Some s'" using assms Uart by simp_all
    then show ?thesis using uart_runs [of N s todo f s'] Uart by (intro exI [of _ "[uart_fd]"] exI [of _ "[]"]) simp
  next
    case Sock
    have "sock_cb f s = Some s'" using assms(2) Sock by (simp add: daemon_cb_def)
    moreover have "main_inv N s [uart_fd] (sock_fd # todo)" using assms(1) Sock by simp
    ultimately obtain new where "main_inv N s' (kept @ [e]) (todo @ new)" "gsmd_fds s' = gsmd_fds s"
        "\<forall>x \<in> set todo. fd_num (daemon_fd (fd_world s') x) = fd_num (daemon_fd (fd_world s) x)"
        "\<forall>x \<in> set new. fd_num (daemon_fd (fd_world s') x) \<notin> N" "daemon_step\<^sup>*\<^sup>* (loop_state s) (loop_state s')"
      using sock_runs [of N s todo f s'] by (auto simp: Sock)
    then show ?thesis by blast
  next
    case (Client c1 gu c2)
    obtain mid where "main_inv N s' (kept @ mid) todo" and r: "gsmd_fds s' = gsmd_fds s" "lw_num (fd_world s') = lw_num (fd_world s)"
        "daemon_step\<^sup>*\<^sup>* (loop_state s) (loop_state s')"
      using client_runs [OF assms(1) Client(1,3,4) assms(2)] by blast
    then show ?thesis by (intro exI [of _ mid] exI [of _ "[]"]) simp
  qed
qed

interpretation ml: fd_callbacks daemon_fd daemon_cb "main_run_inv st" for st
proof unfold_locales
  show "fds_ok daemon_fd s (kept @ todo)" if "main_run_inv st N s kept todo" for N s kept todo
    using that by (simp add: main_run_inv_def main_inv_def main_ok_def)
  show "main_run_inv st N s (kept @ [e]) todo" if "main_run_inv st N s kept (e # todo)" for N s kept e todo
    using that by (auto simp: main_run_inv_def main_inv_def)
  show "\<exists>mid new. main_run_inv st N s' (kept @ mid) (todo @ new) \<and> gsmd_fds s' = gsmd_fds s \<and>
      (\<forall>x \<in> set todo. fd_num (daemon_fd (fd_world s') x) = fd_num (daemon_fd (fd_world s) x)) \<and>
      (\<forall>x \<in> set new. fd_num (daemon_fd (fd_world s') x) \<notin> N)"
    if i: "main_run_inv st N s kept (e # todo)" and c: "daemon_cb e f s = Some s'" for N s kept e todo f s'
  proof -
    obtain mid new where "main_inv N s' (kept @ mid) (todo @ new)" "gsmd_fds s' = gsmd_fds s"
        "\<forall>x \<in> set todo. fd_num (daemon_fd (fd_world s') x) = fd_num (daemon_fd (fd_world s) x)"
        "\<forall>x \<in> set new. fd_num (daemon_fd (fd_world s') x) \<notin> N" "daemon_step\<^sup>*\<^sup>* (loop_state s) (loop_state s')"
      using daemon_cb_runs [of N s kept e todo f s', OF _ c] i unfolding main_run_inv_def by blast
    moreover have "daemon_step\<^sup>*\<^sup>* st (loop_state s')"
      using i calculation(5) by (auto simp: main_run_inv_def intro: rtranclp_trans)
    ultimately show ?thesis by (intro exI [of _ mid] exI [of _ new]) (simp add: main_run_inv_def)
  qed
qed

text \<open>
  Main property of this theory: one round of the main loop calls, in the order of registration and with exactly the events that
  \<open>select\<close> reported for its number, the callback of every descriptor that is ready - also when a callback accepts or
  drops a client - and it takes the daemon along a run of \<open>daemon_step\<close> to a state in which the next round can begin.
\<close>

definition asked :: "loop_world select \<Rightarrow> ptr list \<Rightarrow> fd_sets" where
  "asked s xs = (interest daemon_fd GSMD_FD_READ s xs, interest daemon_fd GSMD_FD_WRITE s xs, interest daemon_fd GSMD_FD_EXCEPT s xs)"

lemma round_run:
  assumes "main_ok s xs" "input_ok i" "in_accept i \<notin> lw_num (fd_world s) ` set xs"
    and "sel (maxfd s + 1) (asked s xs) = (n, sets)" "sets_within sets (lw_num (fd_world s) ` set xs)"
  shows "main_round i sel s = map_option (Pair n) (let s = upd_loop (lw_in_update (\<lambda>_. i)) s in
      if n > 0 then run_ready daemon_cb (ready_calls daemon_fd sets s xs) s else Some s)"
    "main_round i sel s = Some (n, s') \<Longrightarrow> (\<exists>xs'. main_ok s' xs') \<and> daemon_step\<^sup>*\<^sup>* (loop_state s) (loop_state s')"
proof -
  let ?s = "upd_loop (lw_in_update (\<lambda>_. i)) s" and ?N = "lw_num (fd_world s) ` set xs"
  have inv: "main_run_inv (loop_state s) ?N ?s [] xs"
  proof -
    have "main_ok ?s xs" using assms(1) by (auto simp: main_ok_def upd_loop_def fds_ok_def)
    moreover have "sock_fd \<in> set xs \<longrightarrow> in_accept i \<notin> ?N" using assms(3) by simp
    moreover have "lw_in (fd_world ?s) = i" "loop_state ?s = loop_state s" by (simp_all add: upd_loop_def loop_state_def)
    ultimately show ?thesis using assms(2) by (simp add: main_run_inv_def main_inv_def)
  qed
  have a: "sel (maxfd ?s + 1) (interest daemon_fd GSMD_FD_READ ?s xs, interest daemon_fd GSMD_FD_WRITE ?s xs,
      interest daemon_fd GSMD_FD_EXCEPT ?s xs) = (n, sets)"
    using assms(4) by (simp add: asked_def interest_def upd_loop_def)
  note r = ml.select_main_runs [where sel = sel, OF inv a assms(5)]
  show "main_round i sel s = map_option (Pair n) (let s = upd_loop (lw_in_update (\<lambda>_. i)) s in
      if n > 0 then run_ready daemon_cb (ready_calls daemon_fd sets s xs) s else Some s)"
    using r(1) by (simp add: main_round_def Let_def)
  show "(\<exists>xs'. main_ok s' xs') \<and> daemon_step\<^sup>*\<^sup>* (loop_state s) (loop_state s')" if "main_round i sel s = Some (n, s')"
    using r(2) [of s'] that by (auto simp: main_round_def main_run_inv_def main_inv_def)
qed


text \<open>A daemon with one client, and a second connection that arrives.\<close>

definition ex_input :: loop_input where
  "ex_input = \<lparr>in_uart = [], in_uart_eof = False, in_write = \<lambda>_. -1, in_cr = True, in_accept = 9, in_fcntl = (0, 0),
     in_client = \<lambda>_. Inl (-1), in_client_write = \<lambda>_. []\<rparr>"

definition ex_loop :: "daemon \<Rightarrow> nat \<Rightarrow> loop_world select" where
  "ex_loop g u = \<lparr>gsmd_fds = 0,
     fd_links = foldl (\<lambda>h e. llist_add_tail h e 0) (INIT_LLIST_HEAD \<lparr>nxt = \<lambda>_. 0, prv = \<lambda>_. 0\<rparr> 0) [uart_fd, sock_fd, client_fd u],
     maxfd = 7, fd_world = \<lparr>lw_daemon = g, lw_llp = atcmd_init, lw_num = (\<lambda>e. if e = uart_fd then 3 else if e = sock_fd then 5 else 7), lw_in = ex_input\<rparr>\<rparr>"

lemma ex_loop_ok:
  assumes "daemon_ok g" "u \<in> gu_ptr ` set (users (world g))"
  shows "main_ok (ex_loop g u) [uart_fd, sock_fd, client_fd u]"
proof -
  have "dl_list (INIT_LLIST_HEAD \<lparr>nxt = \<lambda>_. 0, prv = \<lambda>_. 0\<rparr> 0) 0 []" by (rule dl_list_init)
  from dl_list_add_tail [OF this, of uart_fd]
  have "dl_list (foldl (\<lambda>h e. llist_add_tail h e 0) (INIT_LLIST_HEAD \<lparr>nxt = \<lambda>_. 0, prv = \<lambda>_. 0\<rparr> 0) [uart_fd]) 0 [uart_fd]" by simp
  from dl_list_add_tail [OF this, of sock_fd]
  have "dl_list (foldl (\<lambda>h e. llist_add_tail h e 0) (INIT_LLIST_HEAD \<lparr>nxt = \<lambda>_. 0, prv = \<lambda>_. 0\<rparr> 0) [uart_fd, sock_fd]) 0 [uart_fd, sock_fd]"
    by simp
  from dl_list_add_tail [OF this, of "client_fd u"]
  have "dl_list (fd_links (ex_loop g u)) 0 [uart_fd, sock_fd, client_fd u]" by (simp add: ex_loop_def)
  then show ?thesis
    using assms by (auto simp: main_ok_def fds_ok_def ex_loop_def intro!: exI [of _ "[u]"])
qed


end
