(* ===== verification/Machine.thy ===== *)
theory Machine
  imports Llist C_String Llparse
begin

text \<open>
  The machine plugins, \<^verbatim>\<open>gsm/src/gsmd/machine.c\<close> and \<^verbatim>\<open>machine_generic.c\<close>, with the registration of the vendor plugin (\<^verbatim>\<open>vendor.c\<close>): the
  hardware's name in \<^verbatim>\<open>/proc/cpuinfo\<close>, the table of machines, and the two lists of plugins. The build links one plugin of each kind, so that every
  name loads the same structure. In both lists the head is at 0 and the structure at 1.
\<close>

section \<open>The code\<close>

definition HARDWARE :: string where
  "HARDWARE = ''Hardware'' @ [CHR 0x09] @ '': ''"

function find_hw :: "string \<Rightarrow> string option" where
  "find_hw s =
     (case strtok LF s of
        None \<Rightarrow> None
      | Some (line, s') \<Rightarrow> if c_strneq line HARDWARE 11 then Some (drop 11 line) else find_hw s')"
  by auto
termination
  by (relation "measure length") (auto dest: strtok_shorter)

declare find_hw.simps [simp del]

text \<open>
  The buffer: what \<open>fread\<close> got of the file, and behind that what was on the stack. A file that cannot be opened is a NULL pointer for \<open>fread\<close>.
\<close>

definition cpuinfo_buf :: "string \<Rightarrow> string \<Rightarrow> string" where
  "cpuinfo_buf file stack = takeWhile (\<lambda>c. c \<noteq> NUL) ((take 1024 (file @ drop (length file) stack))[1023 := NUL])"

definition cpuinfo_hw :: "string \<Rightarrow> string option" where
  "cpuinfo_hw buf = (case strtok LF buf of None \<Rightarrow> None | Some (_, s) \<Rightarrow> find_hw s)"

definition machines :: "(string \<times> string \<times> string) list" where
  "machines = [(''GTA01'', ''generic'', ''ti''), (''GTA02'', ''generic'', ''ti''), (''HTC Blueangel'', ''tihtc'', ''tihtc''),
     (''HTC Himalaya'', ''tihtc'', ''tihtc''), (''HTC Magician'', ''tihtc'', ''tihtc''), (''HTC Universal'', ''generic'', ''qc''),
     (''Palm Treo 650'', ''generic'', ''bcm'')]"

definition machine_names :: "string option \<Rightarrow> string option \<Rightarrow> string option \<Rightarrow> string option \<times> string option" where
  "machine_names hw machine_name vendor_name =
     (case Option.bind hw (map_of machines) of
        None \<Rightarrow> (machine_name, vendor_name)
      | Some (m, v) \<Rightarrow>
          (case machine_name of None \<Rightarrow> Some m | Some x \<Rightarrow> Some x, case vendor_name of None \<Rightarrow> Some v | Some x \<Rightarrow> Some x))"

record plugins =
  machinepl_list :: links
  vendorpl_list :: links

definition gsmd_machine_plugin_register :: "ptr \<Rightarrow> plugins \<Rightarrow> int \<times> plugins" where
  "gsmd_machine_plugin_register pl p = (0, p\<lparr>machinepl_list := llist_add (machinepl_list p) pl 0\<rparr>)"

definition gsmd_machine_plugin_unregister :: "ptr \<Rightarrow> plugins \<Rightarrow> plugins" where
  "gsmd_machine_plugin_unregister pl p = p\<lparr>machinepl_list := llist_del (machinepl_list p) pl\<rparr>"

definition gsmd_vendor_plugin_register :: "ptr \<Rightarrow> plugins \<Rightarrow> int \<times> plugins" where
  "gsmd_vendor_plugin_register pl p = (0, p\<lparr>vendorpl_list := llist_add (vendorpl_list p) pl 0\<rparr>)"

definition gsmd_vendor_plugin_unregister :: "ptr \<Rightarrow> plugins \<Rightarrow> plugins" where
  "gsmd_vendor_plugin_unregister pl p = p\<lparr>vendorpl_list := llist_del (vendorpl_list p) pl\<rparr>"

definition gsmd_machine_plugin_load :: "string \<Rightarrow> plugins \<Rightarrow> int \<times> plugins" where
  "gsmd_machine_plugin_load name p = gsmd_machine_plugin_register 1 p"

definition gsmd_vendor_plugin_load :: "string \<Rightarrow> plugins \<Rightarrow> int \<times> plugins" where
  "gsmd_vendor_plugin_load name p = gsmd_vendor_plugin_register 1 p"

definition gsmd_machine_plugin_init ::
  "string option \<Rightarrow> string \<Rightarrow> string option \<Rightarrow> string option \<Rightarrow> plugins \<Rightarrow> (int \<times> plugins) option" where
  "gsmd_machine_plugin_init cpuinfo stack machine_name vendor_name p = do {
     file \<leftarrow> cpuinfo;
     let (machine_name, vendor_name) = machine_names (cpuinfo_hw (cpuinfo_buf file stack)) machine_name vendor_name;
     let (rc, p) = gsmd_machine_plugin_load (case machine_name of None \<Rightarrow> ''generic'' | Some n \<Rightarrow> n) p;
     let p = (case vendor_name of
         Some n \<Rightarrow> snd (gsmd_vendor_plugin_load n p)
       | None \<Rightarrow> fold (\<lambda>n p. snd (gsmd_vendor_plugin_load n p)) [''ti'', ''tihtc'', ''qc'', ''bcm''] p);
     Some (rc, p)
   }"

lemmas plugin_load_defs =
  gsmd_machine_plugin_load_def gsmd_machine_plugin_register_def gsmd_vendor_plugin_load_def gsmd_vendor_plugin_register_def

text \<open>
  \<open>gsmd_machine_plugin_find\<close> and \<open>gsmd_vendor_plugin_find\<close> on the heap: \<open>detect\<close> is what the function of the plugin at an address returns. The
  result is the plugin, if one was selected.
\<close>

partial_function (option) find_plugin :: "(ptr \<Rightarrow> int) \<Rightarrow> links \<Rightarrow> ptr \<Rightarrow> (int \<times> ptr option) option" where
  "find_plugin detect h pos =
     (if pos = 0 then Some (0, None)
      else if detect pos = 1 then Some (1, Some pos)
      else find_plugin detect h (nxt h pos))"

definition plugin_find :: "ptr option \<Rightarrow> (ptr \<Rightarrow> int) \<Rightarrow> links \<Rightarrow> (int \<times> ptr option) option" where
  "plugin_find selected detect h = (if selected \<noteq> None then Some (- EEXIST, selected) else find_plugin detect h (nxt h 0))"

text \<open>The generic machine: \<open>main\<close> then looks at the option \<open>-w\<close>, which is -1 when it is not given.\<close>

definition generic_detect :: "ptr \<Rightarrow> int" where
  "generic_detect p = 1"

definition generic_init :: "int \<times> bool" where
  "generic_init = (0, True)"

definition main_ready :: "int \<Rightarrow> bool" where
  "main_ready wait = (if wait \<ge> 0 then wait = 0 else snd generic_init)"

section \<open>The name of the hardware\<close>

text \<open>The reference: the lines of the file.\<close>

fun split_on :: "char \<Rightarrow> string \<Rightarrow> string list" where
  "split_on d [] = [[]]"
| "split_on d (c # s) = (if c = d then [] # split_on d s else case split_on d s of [] \<Rightarrow> [[c]] | l # ls \<Rightarrow> (c # l) # ls)"

definition text_lines :: "string \<Rightarrow> string list" where
  "text_lines s = filter (\<lambda>l. l \<noteq> []) (split_on LF s)"

lemma split_on_eq:
  "split_on d s = takeWhile (\<lambda>c. c \<noteq> d) s # (case dropWhile (\<lambda>c. c \<noteq> d) s of [] \<Rightarrow> [] | _ # r \<Rightarrow> split_on d r)"
  by (induction s) auto

lemma text_lines_split:
  "text_lines s = (let t = dropWhile (\<lambda>c. c = LF) s
    in if t = [] then [] else takeWhile (\<lambda>x. x \<noteq> LF) t # text_lines (drop 1 (dropWhile (\<lambda>x. x \<noteq> LF) t)))"
proof (induction s)
  case (Cons c s)
  show ?case
  proof (cases "c = LF")
    case True
    then have "text_lines (c # s) = text_lines s" by (simp add: text_lines_def)
    then show ?thesis using Cons True by (simp add: Let_def)
  next
    case False
    define u w where "u = takeWhile (\<lambda>x. x \<noteq> LF) (c # s)" and "w = dropWhile (\<lambda>x. x \<noteq> LF) (c # s)"
    have "split_on LF (c # s) = u # (case w of [] \<Rightarrow> [] | _ # r \<Rightarrow> split_on LF r)" unfolding u_def w_def by (rule split_on_eq)
    moreover have "u \<noteq> []" using False by (simp add: u_def)
    ultimately have "text_lines (c # s) = u # text_lines (drop 1 w)" unfolding text_lines_def by (cases w) simp_all
    moreover have "dropWhile (\<lambda>c. c = LF) (c # s) = c # s" using False by simp
    ultimately show ?thesis unfolding Let_def u_def w_def by simp
  qed
qed (simp add: text_lines_def)

lemma text_lines_strtok: "text_lines s = (case strtok LF s of None \<Rightarrow> [] | Some (l, r) \<Rightarrow> l # text_lines r)"
proof -
  define t where "t = dropWhile (\<lambda>c. c = LF) s"
  have h: "t \<noteq> [] \<Longrightarrow> hd t \<noteq> LF" unfolding t_def using hd_dropWhile [of "\<lambda>c. c = LF" s] by simp
  have "dropWhile P u = drop (length (takeWhile P u)) u" for P and u :: string by (rule dropWhile_eq_drop)
  then have d: "drop (Suc 0) (dropWhile P u) = drop (Suc (length (takeWhile P u))) u" for P and u :: string by simp
  show ?thesis
    using h d unfolding text_lines_split [of s] strtok_def Let_def t_def [symmetric] by (cases t) simp_all
qed

lemma find_hw_eq: "find_hw s = map_option (drop 11) (List.find (\<lambda>l. prefix_of HARDWARE l) (text_lines s))"
proof (induction s rule: find_hw.induct)
  case (1 s)
  have "length HARDWARE = 11" by (simp add: HARDWARE_def)
  then have p: "c_strneq l HARDWARE 11 \<longleftrightarrow> prefix_of HARDWARE l" for l by (simp add: c_strneq_def prefix_of_def)
  show ?case
  proof (cases "strtok LF s")
    case None
    then show ?thesis by (subst find_hw.simps, subst text_lines_strtok) simp
  next
    case (Some x)
    obtain l r where x: "x = (l, r)" by (cases x)
    have "find_hw r = map_option (drop 11) (List.find (\<lambda>l. prefix_of HARDWARE l) (text_lines r))" if "\<not> c_strneq l HARDWARE 11"
      using 1 Some x that by simp
    then show ?thesis using Some x p by (subst find_hw.simps, subst text_lines_strtok) simp
  qed
qed

lemma cpuinfo_hw_eq: "cpuinfo_hw s = map_option (drop 11) (List.find (\<lambda>l. prefix_of HARDWARE l) (drop 1 (text_lines s)))"
  by (subst text_lines_strtok) (simp add: cpuinfo_hw_def find_hw_eq split: prod.splits option.splits)

section \<open>The lists of plugins\<close>

lemma load_once: "dl_list h 0 [] \<Longrightarrow> dl_list (llist_add h 1 0) 0 [1]"
  using dl_list_add [of h 0 "[]" 1] by simp

text \<open>A structure that is added while it is the first element becomes its own successor.\<close>

lemma load_twice:
  assumes "nxt h 0 = 1"
  shows "nxt (llist_add h 1 0) 0 = 1" "nxt (llist_add h 1 0) 1 = 1"
  using assms by (simp_all add: llist_add_def llist_link_def set_nxt_def set_prv_def)

lemma find_cycle_open:
  assumes "find_plugin d k pos = Some r"
  shows "nxt k 1 = 1 \<and> d 1 \<noteq> 1 \<longrightarrow> pos \<noteq> 1"
  by (rule find_plugin.raw_induct [where P = "\<lambda>d k pos r. nxt k 1 = 1 \<and> d 1 \<noteq> 1 \<longrightarrow> pos \<noteq> 1", OF _ assms]) (auto split: if_splits, metis)

lemma find_cycle: "nxt h 1 = 1 \<Longrightarrow> detect 1 \<noteq> 1 \<Longrightarrow> find_plugin detect h 1 = None"
  using find_cycle_open [of detect h 1] by (cases "find_plugin detect h 1") auto

lemma find_single:
  assumes "dl_list h 0 [1]"
  shows "find_plugin detect h (nxt h 0) = Some (if detect 1 = 1 then (1, Some 1) else (0, None))"
proof -
  have "nxt h 0 = 1" "nxt h 1 = 0" using dl_list_next [OF assms] dl_list_next_at [of h 0 "[]" 1 "[]"] assms by simp_all
  then show ?thesis by (subst find_plugin.simps, subst find_plugin.simps) simp
qed

lemma load_four:
  assumes "dl_list h 0 []"
  shows "nxt (llist_add (llist_add (llist_add (llist_add h 1 0) 1 0) 1 0) 1 0) 0 = 1"
    "nxt (llist_add (llist_add (llist_add (llist_add h 1 0) 1 0) 1 0) 1 0) 1 = 1"
proof -
  have "nxt (llist_add h 1 0) 0 = 1" using dl_list_next [OF load_once [OF assms]] by simp
  from load_twice(1) [OF load_twice(1) [OF this]]
  show "nxt (llist_add (llist_add (llist_add (llist_add h 1 0) 1 0) 1 0) 1 0) 0 = 1"
    "nxt (llist_add (llist_add (llist_add (llist_add h 1 0) 1 0) 1 0) 1 0) 1 = 1"
    by (rule load_twice)+
qed

text \<open>C39: When the hardware's line of \<^verbatim>\<open>/proc/cpuinfo\<close> is in the table, or a vendor is given, both lists have their one plugin. Otherwise the same
  structure is put into the list of vendors four times and the list becomes a cycle without its head: a search with a plugin that does not
  detect its modem never ends.
\<close>

theorem plugin_lists:
  assumes "dl_list (machinepl_list p) 0 []" "dl_list (vendorpl_list p) 0 []"
    and "gsmd_machine_plugin_init (Some file) stack machine_name vendor_name p = Some (rc, p')"
    and "known = (vendor_name \<noteq> None \<or> (\<exists>l. List.find (\<lambda>l. prefix_of HARDWARE l) (drop 1 (text_lines (cpuinfo_buf file stack))) = Some l \<and>
      drop 11 l \<in> fst ` set machines))"
  shows "rc = 0 \<and> plugin_find None generic_detect (machinepl_list p') = Some (1, Some 1) \<and>
    plugin_find None detect (vendorpl_list p') =
      (if detect 1 = 1 then Some (1, Some 1) else if known then Some (0, None) else None)"
proof -
  define hw where "hw = cpuinfo_hw (cpuinfo_buf file stack)"
  obtain m v where n: "machine_names hw machine_name vendor_name = (m, v)" by fastforce
  have "Option.bind hw (map_of machines) \<noteq> None \<longleftrightarrow>
      (\<exists>l. List.find (\<lambda>l. prefix_of HARDWARE l) (drop 1 (text_lines (cpuinfo_buf file stack))) = Some l \<and> drop 11 l \<in> fst ` set machines)"
    unfolding hw_def cpuinfo_hw_eq by (cases "List.find (\<lambda>l. prefix_of HARDWARE l) (drop 1 (text_lines (cpuinfo_buf file stack)))")
      (simp_all add: map_of_eq_None_iff)
  then have k: "known \<longleftrightarrow> v \<noteq> None"
    using n unfolding assms(4) by (auto simp: machine_names_def split: option.splits)
  have r: "rc = 0" "machinepl_list p' = llist_add (machinepl_list p) 1 0"
      "vendorpl_list p' = (if v = None then llist_add (llist_add (llist_add (llist_add (vendorpl_list p) 1 0) 1 0) 1 0) 1 0
        else llist_add (vendorpl_list p) 1 0)"
    using assms(3) n
    by (auto simp: gsmd_machine_plugin_init_def hw_def plugin_load_defs split: option.splits)
  have "plugin_find None generic_detect (machinepl_list p') = Some (1, Some 1)"
    using find_single [OF load_once [OF assms(1)], of generic_detect] by (simp add: plugin_find_def r(2) generic_detect_def)
  moreover have "plugin_find None detect (vendorpl_list p') =
      (if detect 1 = 1 then Some (1, Some 1) else if known then Some (0, None) else None)"
  proof (cases "v = None")
    case False
    then have "vendorpl_list p' = llist_add (vendorpl_list p) 1 0" using r(3) by (simp only: if_False)
    then show ?thesis using find_single [OF load_once [OF assms(2)], of detect] k False by (simp add: plugin_find_def)
  next
    case True
    then have v: "nxt (vendorpl_list p') 0 = 1" "nxt (vendorpl_list p') 1 = 1" using load_four [OF assms(2)] by (simp_all add: r(3))
    show ?thesis
    proof (cases "detect 1 = 1")
      case False
      then show ?thesis using find_cycle [of "vendorpl_list p'" detect] v True k by (simp add: plugin_find_def)
    next
      case True
      then show ?thesis by (simp add: plugin_find_def v(1) find_plugin.simps [of detect _ 1] del: One_nat_def)
    qed
  qed
  ultimately show ?thesis using r(1) by simp
qed

text \<open>The phone itself, and a machine that the table does not have.\<close>

definition ex_cpuinfo :: "string \<Rightarrow> string" where
  "ex_cpuinfo hw = ''Processor'' @ [CHR 0x09] @ '': ARM920T'' @ [LF, LF] @ HARDWARE @ hw @ [LF] @ ''Revision'' @ [LF]"

definition ex_plugins :: plugins where
  "ex_plugins = \<lparr>machinepl_list = \<lparr>nxt = id, prv = id\<rparr>, vendorpl_list = \<lparr>nxt = id, prv = id\<rparr>\<rparr>"

lemma buf_of_file:
  assumes "length file < 1024" "NUL \<notin> set file"
  shows "cpuinfo_buf file (replicate 1024 NUL) = file"
proof -
  define m where "m = 1023 - length file"
  have m: "1024 = length file + Suc m" using assms(1) by (simp add: m_def)
  have "take 1024 (file @ drop (length file) (replicate 1024 NUL)) = file @ replicate (Suc m) NUL"
  proof -
    have "1024 - length file = Suc m" using m by simp
    then have d: "drop (length file) (replicate 1024 NUL) = replicate (Suc m) NUL" by (simp only: drop_replicate)
    have "length (file @ replicate (Suc m) NUL) \<le> 1024" using m by simp
    then show ?thesis unfolding d by (rule take_all)
  qed
  moreover have "(file @ replicate (Suc m) NUL)[1023 := NUL] = file @ replicate (Suc m) NUL"
  proof (rule nth_equalityI)
    fix i
    assume "i < length ((file @ replicate (Suc m) NUL)[1023 := NUL])"
    then show "(file @ replicate (Suc m) NUL)[1023 := NUL] ! i = (file @ replicate (Suc m) NUL) ! i"
      using m by (auto simp: nth_list_update nth_append simp del: replicate_Suc)
  qed simp
  moreover have "takeWhile (\<lambda>c. c \<noteq> NUL) (file @ replicate (Suc m) NUL) = file @ takeWhile (\<lambda>c. c \<noteq> NUL) (replicate (Suc m) NUL)"
    by (rule takeWhile_append2) (use assms(2) in auto)
  ultimately show ?thesis unfolding cpuinfo_buf_def by simp
qed

lemma init_total: "\<exists>p'. gsmd_machine_plugin_init (Some file) stack m v p = Some (0, p')"
  by (cases "machine_names (cpuinfo_hw (cpuinfo_buf file stack)) m v") (simp add: gsmd_machine_plugin_init_def plugin_load_defs)

theorem plugin_lists_witness:
  "\<exists>p' p''. gsmd_machine_plugin_init (Some (ex_cpuinfo ''GTA02'')) (replicate 1024 NUL) None None ex_plugins = Some (0, p') \<and>
     plugin_find None (\<lambda>_. 0) (vendorpl_list p') = Some (0, None) \<and>
     gsmd_machine_plugin_init (Some (ex_cpuinfo ''PC'')) (replicate 1024 NUL) None None ex_plugins = Some (0, p'') \<and>
     plugin_find None (\<lambda>_. 0) (vendorpl_list p'') = None"
proof -
  have e: "dl_list (machinepl_list ex_plugins) 0 []" "dl_list (vendorpl_list ex_plugins) 0 []"
    by (simp_all add: ex_plugins_def dl_list_def chain_def)
  have b: "cpuinfo_buf (ex_cpuinfo hw) (replicate 1024 NUL) = ex_cpuinfo hw" if "length hw < 10" "NUL \<notin> set hw" for hw
    using that by (intro buf_of_file) (simp_all add: ex_cpuinfo_def HARDWARE_def)
  have l: "List.find (\<lambda>l. prefix_of HARDWARE l) (drop 1 (text_lines (ex_cpuinfo hw))) = Some (HARDWARE @ hw)" if "hw \<in> {''GTA02'', ''PC''}" for hw
    using that by (auto simp: ex_cpuinfo_def HARDWARE_def text_lines_def prefix_of_def)
  have h: "drop 11 (HARDWARE @ hw) = hw" for hw by (simp add: HARDWARE_def)
  have m: "''GTA02'' \<in> fst ` set machines" "''PC'' \<notin> fst ` set machines" by (simp_all add: machines_def)
  obtain p' where p': "gsmd_machine_plugin_init (Some (ex_cpuinfo ''GTA02'')) (replicate 1024 NUL) None None ex_plugins = Some (0, p')"
    using init_total by blast
  obtain p'' where p'': "gsmd_machine_plugin_init (Some (ex_cpuinfo ''PC'')) (replicate 1024 NUL) None None ex_plugins = Some (0, p'')"
    using init_total by blast
  have "plugin_find None (\<lambda>_. 0) (vendorpl_list p') = Some (0, None)"
    using plugin_lists [OF e p' refl, of "\<lambda>_. 0"] b [of "''GTA02''"] l [of "''GTA02''"] h m(1) by simp
  moreover have "plugin_find None (\<lambda>_. 0) (vendorpl_list p'') = None"
    using plugin_lists [OF e p'' refl, of "\<lambda>_. 0"] b [of "''PC''"] l [of "''PC''"] h m(2) by simp
  ultimately show ?thesis using p' p'' by blast
qed

end
