(* ===== verification/Main_Program.thy ===== *)
theory Main_Program
  imports Main_Loop Machine
begin

text \<open>
  The program \<open>gsmd\<close> as \<open>main\<close> puts it together: what sets up the descriptors (\<open>gsmd_initialize\<close> and \<open>main\<close> in \<^verbatim>\<open>gsmd.c\<close>, \<open>atcmd_init\<close>,
  \<open>usock_init\<close>), and the loop with its exits. Every state in the loop is one that \<open>daemon_step\<close> reaches.
\<close>

section \<open>Start and loop\<close>

text \<open>
  \<open>gsmd_initialize\<close>, \<open>atcmd_init\<close> and \<open>usock_init\<close>. The results of the system calls are arguments: the descriptors, the results of
  \<open>bind\<close> and \<open>listen\<close>, and two of \<open>fcntl\<close> for each registration. What the fresh buffer \<open>mlbuf\<close> contains is left as it is.
\<close>

definition gsmd_initialize :: "daemon \<Rightarrow> int \<times> daemon" where
  "gsmd_initialize g =
     (let (p, g) = g_alloc (upd_world (users_update (\<lambda>_. [])) g) in (if p = None then - ENOMEM else 0, g))"

definition atcmd_setup :: "int \<Rightarrow> int \<times> int \<Rightarrow> loop_world select \<Rightarrow> int \<times> loop_world select" where
  "atcmd_setup fd fl s =
     gsmd_register_fd (fst fl) (snd fl) uart_fd fd
       (upd_loop (\<lambda>w. w\<lparr>lw_daemon := (lw_daemon w)\<lparr>uart_write := False, pending_atcmds := [], busy_atcmds := [], mlbuf_len := 0,
            mlunsolicited := False, wakeup_timer := None\<rparr>,
          lw_llp := atcmd_init, lw_num := (lw_num w)(uart_fd := fd)\<rparr>) s)"

definition usock_init :: "int \<Rightarrow> int \<Rightarrow> int \<Rightarrow> int \<times> int \<Rightarrow> loop_world select \<Rightarrow> int \<times> loop_world select" where
  "usock_init fd rc_bind rc_listen fl s =
     (if fd < 0 then (fd, s)
      else if rc_bind < 0 then (rc_bind, s)
      else if rc_listen < 0 then (rc_listen, s)
      else gsmd_register_fd (fst fl) (snd fl) sock_fd fd (upd_loop (\<lambda>w. w\<lparr>lw_num := (lw_num w)(sock_fd := fd)\<rparr>) s))"

record start_input =
  st_uart :: int
  st_uart_fl :: "int \<times> int"
  st_sock :: int
  st_bind :: int
  st_listen :: int
  st_sock_fl :: "int \<times> int"
  st_wait :: int

text \<open>
  \<open>main\<close> from \<open>gsmd_initialize\<close> to the loop; \<open>Inl\<close> is the code of \<open>exit\<close>. \<open>st_wait\<close> is the argument of the option \<open>-w\<close>, or -1. The plugins are found
  as \<open>Machine\<close> says.
\<close>

definition main_start :: "start_input \<Rightarrow> loop_world select \<Rightarrow> (int + loop_world select) option" where
  "main_start i s =
     (let (rc, g) = gsmd_initialize (lw_daemon (fd_world s)); s = upd_loop (lw_daemon_update (\<lambda>_. g)) s
      in if rc < 0 then Some (Inl 1)
         else let (rc, s) = atcmd_setup (st_uart i) (st_uart_fl i) s
         in if rc < 0 then Some (Inl 1)
         else let (rc, s) = usock_init (st_sock i) (st_bind i) (st_listen i) (st_sock_fl i) s
         in if rc < 0 then Some (Inl 1)
         else map_option (\<lambda>g. Inr (upd_loop (lw_daemon_update (\<lambda>_. g)) s)) (daemon_start (main_ready (st_wait i)) (lw_daemon (fd_world s))))"

text \<open>
  What happens in a call of \<open>gsmd_select_main\<close>: \<open>select\<close> returns, or the signal SIGALRM interrupts it (\<open>EINTR\<close>), whose handler runs the
  callbacks of some timers. A handler that runs at any other moment is not modelled.
\<close>

datatype loop_timer = Tm_Wakeup nat | Tm_Alive nat nat | Tm_Interval nat

datatype loop_event =
    Round loop_input "int \<Rightarrow> fd_sets \<Rightarrow> int \<times> fd_sets" int
  | Alarm "loop_timer list"

abbreviation (input) EINTR :: int where "EINTR \<equiv> 4"

definition run_timer :: "loop_timer \<Rightarrow> daemon \<Rightarrow> (int + daemon) option" where
  "run_timer t g =
     (case t of Tm_Wakeup a \<Rightarrow> map_option Inr (wakeup_timeout a g)
      | Tm_Alive a alp \<Rightarrow> alive_tmr_cb a alp g
      | Tm_Interval a \<Rightarrow> map_option Inr (alive_interval_tmr_cb a g))"

fun run_timers :: "loop_timer list \<Rightarrow> daemon \<Rightarrow> (int + daemon) option" where
  "run_timers [] g = Some (Inr g)"
| "run_timers (t # ts) g =
     (case run_timer t g of None \<Rightarrow> None | Some (Inl code) \<Rightarrow> Some (Inl code) | Some (Inr g) \<Rightarrow> run_timers ts g)"

fun main_loop :: "loop_event list \<Rightarrow> loop_world select \<Rightarrow> (int + loop_world select) option" where
  "main_loop [] s = Some (Inr s)"
| "main_loop (Round i sel errno # es) s =
     (case main_round i sel s of
        None \<Rightarrow> None
      | Some (ret, s) \<Rightarrow>
          if ret = 0 then main_loop es s
          else if ret < 0 then if errno = EINTR then main_loop es s else Some (Inl 0)
          else main_loop es s)"
| "main_loop (Alarm ts # es) s =
     (case run_timers ts (lw_daemon (fd_world s)) of
        None \<Rightarrow> None
      | Some (Inl code) \<Rightarrow> Some (Inl code)
      | Some (Inr g) \<Rightarrow> main_loop es (upd_loop (lw_daemon_update (\<lambda>_. g)) s))"

section \<open>The states of the loop\<close>

text \<open>
  The whole program: \<open>possible\<close> says of the events that the system calls return what they can: \<open>select\<close> reports
  descriptors it was asked about, and \<open>accept\<close> returns a number that is not in use.
\<close>

definition round_possible :: "loop_input \<Rightarrow> (int \<Rightarrow> fd_sets \<Rightarrow> int \<times> fd_sets) \<Rightarrow> loop_world select \<Rightarrow> bool" where
  "round_possible i sel s \<longleftrightarrow> input_ok i \<and>
     (\<forall>xs. dl_list (fd_links s) (gsmd_fds s) xs \<longrightarrow>
        in_accept i \<notin> lw_num (fd_world s) ` set xs \<and>
        sets_within (snd (sel (maxfd s + 1) (asked s xs))) (lw_num (fd_world s) ` set xs))"

fun possible :: "loop_event list \<Rightarrow> loop_world select \<Rightarrow> bool" where
  "possible [] s = True"
| "possible (Round i sel errno # es) s =
     (round_possible i sel s \<and> (case main_round i sel s of None \<Rightarrow> True | Some (_, s) \<Rightarrow> possible es s))"
| "possible (Alarm ts # es) s =
     (case run_timers ts (lw_daemon (fd_world s)) of
        Some (Inr g) \<Rightarrow> possible es (upd_loop (lw_daemon_update (\<lambda>_. g)) s) | _ \<Rightarrow> True)"

lemma run_timer_runs:
  assumes "run_timer t g = Some (Inr g')"
  shows "daemon_step (g, llp) (g', llp)" "map gu_ptr (users (world g')) = map gu_ptr (users (world g))"
proof -
  have u: "map gu_ptr (users (world g')) = map gu_ptr (users (world g))" if "daemon_grows g g'"
    using that growsD world_growsD(1) by blast
  have "daemon_step (g, llp) (g', llp) \<and> map gu_ptr (users (world g')) = map gu_ptr (users (world g))"
  proof (cases t)
    case (Tm_Wakeup a)
    then have "wakeup_timeout a g = Some g'" using assms by (simp add: run_timer_def)
    then show ?thesis using Wakeup_Timer timeout_same by fastforce
  next
    case (Tm_Alive a alp)
    then have "alive_tmr_cb a alp g = Some (Inr g')" using assms by (simp add: run_timer_def)
    then show ?thesis using Alive_Timer u [OF alive_tmr_grows] by blast
  next
    case (Tm_Interval a)
    then have "alive_interval_tmr_cb a g = Some g'" using assms by (simp add: run_timer_def)
    then show ?thesis using Interval_Timer u [OF interval_grows] by blast
  qed
  then show "daemon_step (g, llp) (g', llp)" "map gu_ptr (users (world g')) = map gu_ptr (users (world g))" by blast+
qed

lemma run_timers_runs: "run_timers ts g = Some (Inr g') \<Longrightarrow>
    daemon_step\<^sup>*\<^sup>* (g, llp) (g', llp) \<and> map gu_ptr (users (world g')) = map gu_ptr (users (world g))"
proof (induction ts arbitrary: g)
  case (Cons t ts)
  then obtain g1 where g1: "run_timer t g = Some (Inr g1)" "run_timers ts g1 = Some (Inr g')"
    by (auto split: option.splits sum.splits)
  then show ?case
    using Cons.IH [OF g1(2)] run_timer_runs [OF g1(1)] by (metis converse_rtranclp_into_rtranclp)
qed simp

lemma round_facts:
  assumes "main_ok s xs" "round_possible i sel s" "main_round i sel s = Some (n, s')"
  shows "(\<exists>xs'. main_ok s' xs') \<and> daemon_step\<^sup>*\<^sup>* (loop_state s) (loop_state s')"
proof -
  obtain n0 sets where z: "sel (maxfd s + 1) (asked s xs) = (n0, sets)" by (metis surj_pair)
  have "dl_list (fd_links s) (gsmd_fds s) xs" using assms(1) by (auto simp: main_ok_def fds_ok_def)
  then have p: "input_ok i" "in_accept i \<notin> lw_num (fd_world s) ` set xs" "sets_within sets (lw_num (fd_world s) ` set xs)"
    using assms(2) z unfolding round_possible_def by (blast, blast, metis snd_conv)
  note r = round_run [where sel = sel, OF assms(1) p(1,2) z p(3)]
  have "n = n0" using r(1) assms(3) by (metis (no_types, lifting) map_option_eq_Some prod.inject)
  then show ?thesis using r(2) assms(3) by blast
qed

lemma main_loop_runs:
  assumes "main_loop es s = Some (Inr s')" "possible es s" "main_ok s xs"
  shows "(\<exists>xs'. main_ok s' xs') \<and> daemon_step\<^sup>*\<^sup>* (loop_state s) (loop_state s')"
  using assms
proof (induction es s arbitrary: xs rule: main_loop.induct)
  case (1 s)
  then show ?case by auto
next
  case (2 i sel errno es s)
  obtain n s1 where r: "main_round i sel s = Some (n, s1)" using "2.prems"(1) by (auto split: option.splits)
  have l: "main_loop es s1 = Some (Inr s')" "possible es s1" "round_possible i sel s"
    using "2.prems"(1,2) r by (auto split: if_splits)
  have f: "(\<exists>xs'. main_ok s1 xs') \<and> daemon_step\<^sup>*\<^sup>* (loop_state s) (loop_state s1)" by (rule round_facts [OF "2.prems"(3) l(3) r])
  then have "(\<exists>xs'. main_ok s' xs') \<and> daemon_step\<^sup>*\<^sup>* (loop_state s1) (loop_state s')"
    using "2.IH" [OF r refl] l "2.prems"(1) r by (auto split: if_splits)
  then show ?case using f by (meson rtranclp_trans)
next
  case (3 ts es s)
  then obtain g where g: "run_timers ts (lw_daemon (fd_world s)) = Some (Inr g)" by (auto split: option.splits sum.splits)
  let ?s = "upd_loop (lw_daemon_update (\<lambda>_. g)) s"
  have t: "daemon_step\<^sup>*\<^sup>* (loop_state s) (g, lw_llp (fd_world s)) \<and>
      map gu_ptr (users (world g)) = map gu_ptr (users (world (lw_daemon (fd_world s))))"
    using run_timers_runs [OF g] by (simp add: loop_state_def)
  then have "gu_ptr ` set (users (world g)) = gu_ptr ` set (users (world (lw_daemon (fd_world s))))" by (metis list.set_map)
  then have "main_ok ?s xs"
    using "3.prems"(3) t steps_daemon_ok [of "loop_state s" "(g, lw_llp (fd_world s))"]
    by (auto simp: main_ok_def upd_loop_def fds_ok_def loop_state_def)
  then have "(\<exists>xs'. main_ok s' xs') \<and> daemon_step\<^sup>*\<^sup>* (loop_state ?s) (loop_state s')"
    using "3.IH" [OF g refl] "3.prems"(1,2) g by auto
  moreover have "loop_state ?s = (g, lw_llp (fd_world s))" by (simp add: loop_state_def upd_loop_def)
  ultimately show ?case using t by (auto intro: rtranclp_trans)
qed

lemma gsmd_initialize_zero:
  assumes "gsmd_initialize g = (rc, g')"
  shows "users (world g') = []"
  using assms by (cases "g_alloc (upd_world (users_update (\<lambda>_. [])) g)")
    (auto simp: gsmd_initialize_def g_alloc_def upd_world_def Let_def split: list.splits if_splits)

definition fresh_select :: "loop_world select \<Rightarrow> bool" where
  "fresh_select s \<longleftrightarrow> gsmd_fds s = 0 \<and> maxfd s = 0 \<and> dl_list (fd_links s) 0 []"

definition start_possible :: "start_input \<Rightarrow> bool" where
  "start_possible i \<longleftrightarrow> 0 \<le> st_uart i \<and> st_uart i < FD_SETSIZE \<and> st_sock i < FD_SETSIZE"

lemma register_ok:
  assumes "gsmd_register_fd fl fl' e n s = (rc, s')" "\<not> rc < 0" "fds_ok daemon_fd s xs" "e \<notin> set (gsmd_fds s # xs)"
    and "lw_num (fd_world s) e = n" "0 \<le> n" "n < FD_SETSIZE"
  shows "fds_ok daemon_fd s' (xs @ [e])" "gsmd_fds s' = gsmd_fds s" "fd_world s' = fd_world s"
proof -
  have s': "s' = s\<lparr>maxfd := (if n > maxfd s then n else maxfd s), fd_links := llist_add_tail (fd_links s) e (gsmd_fds s)\<rparr>"
    using assms(1,2) by (auto simp: gsmd_register_fd_def split: if_splits)
  have "dl_list (llist_add_tail (fd_links s) e (gsmd_fds s)) (gsmd_fds s) (xs @ [e])"
    using assms(3,4) by (auto simp: fds_ok_def intro: dl_list_add_tail)
  then show "fds_ok daemon_fd s' (xs @ [e])" using assms(3,5-7) by (auto simp: s' fds_ok_def)
  show "gsmd_fds s' = gsmd_fds s" "fd_world s' = fd_world s" by (simp_all add: s')
qed

lemma main_start_ok:
  assumes "main_start i s = Some (Inr s1)" "fresh_select s" "start_possible i"
  shows "main_ok s1 [uart_fd, sock_fd]" "\<exists>g0. daemon_zero g0 \<and> daemon_reach g0 (loop_state s1)"
proof -
  obtain rc g where 1: "gsmd_initialize (lw_daemon (fd_world s)) = (rc, g)" by fastforce
  let ?s = "upd_loop (lw_daemon_update (\<lambda>_. g)) s"
  obtain rc2 s2 where 2: "atcmd_setup (st_uart i) (st_uart_fl i) ?s = (rc2, s2)" by fastforce
  obtain rc3 s3 where 3: "usock_init (st_sock i) (st_bind i) (st_listen i) (st_sock_fl i) s2 = (rc3, s3)" by fastforce
  obtain g4 where ok: "\<not> rc2 < 0" "\<not> rc3 < 0" and 4: "daemon_start (main_ready (st_wait i)) (lw_daemon (fd_world s3)) = Some g4"
      "s1 = upd_loop (lw_daemon_update (\<lambda>_. g4)) s3"
    using assms(1) by (auto simp: main_start_def 1 2 3 Let_def split: if_splits)
  let ?a = "upd_loop (\<lambda>w. w\<lparr>lw_daemon := (lw_daemon w)\<lparr>uart_write := False, pending_atcmds := [], busy_atcmds := [], mlbuf_len := 0,
      mlunsolicited := False, wakeup_timer := None\<rparr>, lw_llp := atcmd_init, lw_num := (lw_num w)(uart_fd := st_uart i)\<rparr>) ?s"
  have fa: "fds_ok daemon_fd ?a []" using assms(2) by (simp add: fds_ok_def fresh_select_def upd_loop_def)
  have "fds_ok daemon_fd s2 ([] @ [uart_fd])" "gsmd_fds s2 = gsmd_fds ?a" "fd_world s2 = fd_world ?a"
    by (rule register_ok [OF 2 [unfolded atcmd_setup_def] ok(1) fa];
      use assms(2,3) in \<open>simp add: fresh_select_def start_possible_def upd_loop_def\<close>)+
  then have s2: "fds_ok daemon_fd s2 [uart_fd]" "gsmd_fds s2 = 0" "fd_world s2 = fd_world ?a"
    using assms(2) by (simp_all add: fresh_select_def upd_loop_def)
  let ?b = "upd_loop (\<lambda>w. w\<lparr>lw_num := (lw_num w)(sock_fd := st_sock i)\<rparr>) s2"
  have sk: "gsmd_register_fd (fst (st_sock_fl i)) (snd (st_sock_fl i)) sock_fd (st_sock i) ?b = (rc3, s3)" "0 \<le> st_sock i"
    using 3 ok(2) by (auto simp: usock_init_def split: if_splits)
  have fb: "fds_ok daemon_fd ?b [uart_fd]" using s2(1) by (simp add: fds_ok_def upd_loop_def)
  have "fds_ok daemon_fd s3 ([uart_fd] @ [sock_fd])" "gsmd_fds s3 = gsmd_fds ?b" "fd_world s3 = fd_world ?b"
    by (rule register_ok [OF sk(1) ok(2) fb]; use assms(3) s2(2) sk(2) in \<open>simp add: start_possible_def upd_loop_def\<close>)+
  then have s3: "fds_ok daemon_fd s3 [uart_fd, sock_fd]" "gsmd_fds s3 = 0" "fd_world s3 = fd_world ?b"
    using s2(2) by (simp_all add: upd_loop_def)
  have "users (world g) = []" by (rule gsmd_initialize_zero [OF 1])
  then have z: "daemon_zero (lw_daemon (fd_world s3))" by (simp add: s3(3) s2(3) upd_loop_def daemon_zero_def)
  have l: "loop_state s1 = (g4, atcmd_init)" by (simp add: 4(2) s3(3) s2(3) upd_loop_def loop_state_def)
  show "\<exists>g0. daemon_zero g0 \<and> daemon_reach g0 (loop_state s1)" using z daemon_reach.Start [OF 4(1)] l by metis
  have "daemon_ok g4" by (rule start_ok [OF z 4(1)])
  then show "main_ok s1 [uart_fd, sock_fd]"
    using s3(1,2) by (auto simp: main_ok_def 4(2) upd_loop_def fds_ok_def)
qed

lemma reach_steps: "daemon_step\<^sup>*\<^sup>* a b \<Longrightarrow> daemon_reach g0 a \<Longrightarrow> daemon_reach g0 b"
  by (induction rule: rtranclp_induct) (auto intro: daemon_reach.Step)

text \<open>No answer is forgotten: the system call is asked to report when a client with a queued answer can be written to.\<close>

lemma answers_asked:
  assumes "main_ok s xs" "u \<in> set (users (world (lw_daemon (fd_world s))))" "finished_ucmds u \<noteq> []" "client_fd (gu_ptr u) \<in> set xs"
  shows "lw_num (fd_world s) (client_fd (gu_ptr u)) \<in> fst (snd (asked s xs))"
proof -
  have d: "daemon_ok (lw_daemon (fd_world s))" using assms(1) by (simp add: main_ok_def)
  then have "gu_write u" using assms(2,3) by (auto simp: daemon_ok_def user_live_def)
  moreover have "find_user (gu_ptr u) (lw_daemon (fd_world s)) = Some u"
    using d assms(2) find_user_middle [of "lw_daemon (fd_world s)" _ u] by (auto simp: daemon_ok_def in_set_conv_decomp)
  ultimately have "fd_when (daemon_fd (fd_world s) (client_fd (gu_ptr u))) AND GSMD_FD_WRITE \<noteq> 0" by (simp add: daemon_fd_def)
  then show ?thesis using assms(4) by (force simp: asked_def interest_def)
qed


definition ex_start :: start_input where
  "ex_start = \<lparr>st_uart = 3, st_uart_fl = (0, 0), st_sock = 5, st_bind = 0, st_listen = 0, st_sock_fl = (0, 0), st_wait = 1\<rparr>"

definition ex_program :: "loop_world select" where
  "ex_program = \<lparr>gsmd_fds = 0, fd_links = \<lparr>nxt = \<lambda>_. 0, prv = \<lambda>_. 0\<rparr>, maxfd = 0,
     fd_world = \<lparr>lw_daemon = ex_daemon [], lw_llp = atcmd_init, lw_num = \<lambda>_. 0, lw_in = ex_input\<rparr>\<rparr>"

lemma ex_program_fresh: "fresh_select ex_program"
  by (simp add: fresh_select_def ex_program_def dl_list_def chain_def)

lemma ex_start_runs: "\<exists>s1. main_start ex_start ex_program = Some (Inr s1) \<and> lw_num (fd_world s1) = (\<lambda>_. 0)(uart_fd := 3, sock_fd := 5) \<and>
    users (world (lw_daemon (fd_world s1))) = [] \<and> g_mem (lw_daemon (fd_world s1)) = []"
  by (simp add: main_start_def gsmd_initialize_def g_alloc_def atcmd_setup_def usock_init_def gsmd_register_fd_def Let_def upd_loop_def
    ex_start_def ex_program_def main_ready_def daemon_start_def gsmd_vendor_plugin_find_def unsolicited_init_def unsolicited_register_array_def
    pl_detect_def pl_unsolicit_def ticalypso_unsolicit_def gsm0707_unsolicit_def upd_world_def ex_daemon_def)


end
