(* ===== verification/Lis_Sensor.thy ===== *)
theory Lis_Sensor
  imports Prelude
begin

text \<open>
  The motion sensor test of the boot loader, \<^verbatim>\<open>src/gta02-dm1/dm1-uboot/dm1_test/cmd_sensor.c\<close>: a serial bus driven by hand on the pins of
  two ports, the frames that read and write a register of one of the two sensors, and the tests. The hardware is an
  argument: what the input pins show is any function of the history of what was stored to the two ports. Delays are not modelled.
\<close>

section \<open>Ports\<close>

abbreviation (input) GTA02_SCLK :: u32 where "GTA02_SCLK \<equiv> 0x80"
abbreviation (input) GTA02_MOSI :: u32 where "GTA02_MOSI \<equiv> 0x40"
abbreviation (input) GTA02_MISO :: u32 where "GTA02_MISO \<equiv> 0x20"
abbreviation (input) GPG_INPUTS :: u32 where "GPG_INPUTS \<equiv> 0x120"

text \<open>An entry of the history: what the ports D and G hold after a store.\<close>

type_synonym pins = "(u32 \<times> u32) list"

record hardware =
  in_G :: "pins \<Rightarrow> u32"
  in_F :: "pins \<Rightarrow> u32"

record board =
  GPDDAT :: u32
  GPGDAT :: u32
  GPGCON :: u32
  GPFCON :: u32
  GPFUP :: u32
  pins :: pins
  printed :: "(string \<times> int) list"

definition store_D :: "u32 \<Rightarrow> board \<Rightarrow> board" where
  "store_D v s = s\<lparr>GPDDAT := v, pins := pins s @ [(v, GPGDAT s)]\<rparr>"

definition store_G :: "u32 \<Rightarrow> board \<Rightarrow> board" where
  "store_G v s = s\<lparr>GPGDAT := v, pins := pins s @ [(GPDDAT s, v)]\<rparr>"

text \<open>The pins 5 and 8 of port G are inputs.\<close>

definition load_G :: "hardware \<Rightarrow> board \<Rightarrow> u32" where
  "load_G hw s = (GPGDAT s AND NOT GPG_INPUTS) OR (in_G hw (pins s) AND GPG_INPUTS)"

definition cs_bit :: "int \<Rightarrow> u32" where
  "cs_bit n = (if n = 1 then 0x1000 else 0x2000)"

definition SPI_CS :: "int \<Rightarrow> bool \<Rightarrow> board \<Rightarrow> board" where
  "SPI_CS n b s = store_D (if b then GPDDAT s OR cs_bit n else GPDDAT s AND NOT (cs_bit n)) s"

definition SPI_SDA :: "hardware \<Rightarrow> bool \<Rightarrow> board \<Rightarrow> board" where
  "SPI_SDA hw b s = store_G (if b then load_G hw s OR GTA02_MOSI else load_G hw s AND NOT GTA02_MOSI) s"

definition SPI_SCL :: "hardware \<Rightarrow> bool \<Rightarrow> board \<Rightarrow> board" where
  "SPI_SCL hw b s = store_G (if b then load_G hw s OR GTA02_SCLK else load_G hw s AND NOT GTA02_SCLK) s"

definition SPI_READ :: "hardware \<Rightarrow> board \<Rightarrow> bool" where
  "SPI_READ hw s \<longleftrightarrow> load_G hw s AND GTA02_MISO \<noteq> 0"

section \<open>The bus\<close>

text \<open>The inner loop of \<open>lis_spi_snd\<close>: \<open>n\<close> bits are left to send.\<close>

fun snd_bits :: "hardware \<Rightarrow> nat \<Rightarrow> nat \<Rightarrow> u16 \<Rightarrow> board \<Rightarrow> board" where
  "snd_bits hw bitlen 0 tmpout s = s"
| "snd_bits hw bitlen (Suc n) tmpout s =
     (let s = SPI_SCL hw False s;
          s = SPI_SDA hw (tmpout AND push_bit (bitlen - 1) 1 \<noteq> 0) s;
          s = SPI_SCL hw True s
      in snd_bits hw bitlen n (push_bit 1 tmpout) s)"

definition lis_spi_snd :: "hardware \<Rightarrow> nat \<Rightarrow> u16 list \<Rightarrow> board \<Rightarrow> board" where
  "lis_spi_snd hw bitlen dout s = fold (snd_bits hw bitlen bitlen) dout s"

fun rev_bits :: "hardware \<Rightarrow> nat \<Rightarrow> u16 \<Rightarrow> board \<Rightarrow> u16 \<times> board" where
  "rev_bits hw 0 tmpin s = (tmpin, s)"
| "rev_bits hw (Suc n) tmpin s =
     (let s = SPI_SCL hw False s;
          tmpin = (if SPI_READ hw s then tmpin OR 1 else tmpin AND NOT 1);
          s = SPI_SCL hw True s
      in rev_bits hw n (if n \<noteq> 0 then push_bit 1 tmpin else tmpin) s)"

text \<open>The words are stored from the end of \<open>din\<close> on.\<close>

fun lis_spi_rev :: "hardware \<Rightarrow> nat \<Rightarrow> nat \<Rightarrow> board \<Rightarrow> u16 list \<times> board" where
  "lis_spi_rev hw 0 bitlen s = ([], s)"
| "lis_spi_rev hw (Suc n) bitlen s =
     (let (x, s) = rev_bits hw bitlen 0 s; (xs, s) = lis_spi_rev hw n bitlen s in (xs @ [x], s))"

definition sensor_spi_init :: "board \<Rightarrow> board" where
  "sensor_spi_init s =
     (let s = s\<lparr>GPGCON := (GPGCON s AND 0xfffc03ff) OR 0x5000, GPFCON := GPFCON s AND 0xfffffffc, GPFUP := GPFUP s OR 1\<rparr>
      in SPI_CS 2 True (SPI_CS 1 True s))"

section \<open>Registers\<close>

definition lis_printf :: "string \<Rightarrow> int \<Rightarrow> board \<Rightarrow> board" where
  "lis_printf t v s = s\<lparr>printed := printed s @ [(t, v)]\<rparr>"

definition select_sensor :: "int \<Rightarrow> board \<Rightarrow> board" where
  "select_sensor lisno s =
     (if lisno = 1 then SPI_CS 1 False s
      else if lisno = 2 then SPI_CS 2 False s
      else lis_printf ''lis302dl number is wrong'' 0 s)"

definition release_sensor :: "int \<Rightarrow> board \<Rightarrow> board" where
  "release_sensor lisno s = (if lisno = 1 then SPI_CS 1 True s else if lisno = 2 then SPI_CS 2 True s else s)"

definition lis_reg_read :: "hardware \<Rightarrow> int \<Rightarrow> u16 \<Rightarrow> board \<Rightarrow> u16 \<times> board" where
  "lis_reg_read hw lisno reg s =
     (let s = select_sensor lisno s;
          s = lis_spi_snd hw 8 [push_bit 7 1 OR push_bit 6 0 OR (reg AND 0x3F)] s;
          (rev_data, s) = lis_spi_rev hw 1 8 s
      in (hd rev_data, release_sensor lisno s))"

definition lis_reg_write :: "hardware \<Rightarrow> int \<Rightarrow> u16 \<Rightarrow> u16 \<Rightarrow> board \<Rightarrow> board" where
  "lis_reg_write hw lisno reg data s =
     (let s = select_sensor lisno s;
          s = lis_spi_snd hw 16 [push_bit 15 0 OR push_bit 14 0 OR push_bit 8 (reg AND 0x3F) OR (data AND 0xFF)] s
      in release_sensor lisno s)"

section \<open>The tests\<close>

text \<open>The loops that wait for a measurement end when the sensor reports one; otherwise the test does not return.\<close>

partial_function (option) wait_ready :: "hardware \<Rightarrow> int \<Rightarrow> board \<Rightarrow> board option" where
  "wait_ready hw lisno s =
     (let (v, s) = lis_reg_read hw lisno 0x27 s in if v AND 8 \<noteq> 0 then Some s else wait_ready hw lisno s)"

definition read_i8 :: "hardware \<Rightarrow> int \<Rightarrow> u16 \<Rightarrow> board \<Rightarrow> 8 word \<times> board" where
  "read_i8 hw lisno reg s = (let (v, s) = lis_reg_read hw lisno reg s in (ucast v, s))"

definition read_xyz :: "hardware \<Rightarrow> int \<Rightarrow> board \<Rightarrow> (8 word \<times> 8 word \<times> 8 word) \<times> board" where
  "read_xyz hw lisno s =
     (let (x, s) = read_i8 hw lisno 0x29 s; (y, s) = read_i8 hw lisno 0x2B s; (z, s) = read_i8 hw lisno 0x2D s in ((x, y, z), s))"

fun five_samples :: "hardware \<Rightarrow> int \<Rightarrow> nat \<Rightarrow> board \<Rightarrow> board option" where
  "five_samples hw lisno 0 s = Some s"
| "five_samples hw lisno (Suc n) s = do {
     s \<leftarrow> wait_ready hw lisno (snd (read_xyz hw lisno s));
     five_samples hw lisno n s
   }"

definition say_value :: "hardware \<Rightarrow> int \<Rightarrow> board \<Rightarrow> board" where
  "say_value hw lisno s = (let (v, s) = lis_reg_read hw lisno 0x20 s in lis_printf ''value : %x'' (uint v) s)"

definition say_xyz :: "string \<Rightarrow> 8 word \<times> 8 word \<times> 8 word \<Rightarrow> board \<Rightarrow> board" where
  "say_xyz k xyz s =
     (case xyz of (x, y, z) \<Rightarrow> lis_printf (k @ '' OUT Z : %d'') (sint z) (lis_printf (k @ '' OUT Y : %d'') (sint y) (lis_printf (k @ '' OUT X : %d'') (sint x) s)))"

definition lis_self_test :: "hardware \<Rightarrow> int \<Rightarrow> board \<Rightarrow> board option" where
  "lis_self_test hw lisno s = do {
     let s = say_value hw lisno s;
     let s = lis_reg_write hw lisno 0x20 0x47 (lis_reg_write hw lisno 0x22 0 (lis_reg_write hw lisno 0x21 0 s));
     s \<leftarrow> wait_ready hw lisno s;
     let (v, s) = read_i8 hw lisno 0x0F s;
     let s = lis_printf ''who_am_i : %x'' (sint v) s;
     if v AND 0xff = 0xff then Some (lis_printf ''fail!! '' 0 (lis_reg_write hw lisno 0x20 0 s))
     else do {
       let (abc, s) = read_xyz hw lisno s;
       let s = lis_reg_write hw lisno 0x20 0x57 (say_xyz ''1'' abc s);
       s \<leftarrow> wait_ready hw lisno s;
       s \<leftarrow> five_samples hw lisno 5 s;
       let (def, s) = read_xyz hw lisno s;
       let s = say_value hw lisno (say_xyz ''2'' def s);
       Some (lis_printf ''pass!! '' 0 (lis_reg_write hw lisno 0x20 0 s))
     }
   }"

text \<open>\<open>ctrl3 revision a b\<close> is the value for register 0x22 of the two revisions of the board; on another one it is not written.\<close>

definition ctrl3 :: "hardware \<Rightarrow> int \<Rightarrow> int \<Rightarrow> u16 \<Rightarrow> u16 \<Rightarrow> board \<Rightarrow> board" where
  "ctrl3 hw revision lisno a b s =
     (if revision = 6 then lis_reg_write hw lisno 0x22 a s else if revision = 5 then lis_reg_write hw lisno 0x22 b s else s)"

definition check_interrupt :: "hardware \<Rightarrow> int \<Rightarrow> board \<Rightarrow> board" where
  "check_interrupt hw lisno s =
     (let s = (if lisno = 1
               then lis_printf (if in_F hw (pins s) AND 1 \<noteq> 0 then ''first check : no interrupt !!'' else ''first check : interrupt !!'') 0 s
               else s)
      in if lisno = 2
         then lis_printf (if load_G hw s AND 0x100 \<noteq> 0 then ''first check : no interrupt !!'' else ''first check : interrupt !!'') 0 s
         else s)"

definition lis_interrupt_test :: "hardware \<Rightarrow> int \<Rightarrow> int \<Rightarrow> int \<Rightarrow> board \<Rightarrow> board" where
  "lis_interrupt_test hw revision lisno INTno s =
     (let s = (if lisno = 1 then s\<lparr>GPFCON := GPFCON s AND 0xfffffffc, GPFUP := GPFUP s OR 1\<rparr>
               else if lisno = 2 then s\<lparr>GPGCON := GPGCON s AND 0xfffcffff, GPFUP := GPFUP s OR 0x10000\<rparr> else s);
          s = lis_reg_write hw lisno 0x20 0x47 s;
          s = ctrl3 hw revision lisno 0x80 0xc0 s;
          s = (if INTno = 1
               then ctrl3 hw revision lisno 0x81 0xc1
                 (lis_reg_write hw lisno 0x30 0x95 (lis_reg_write hw lisno 0x33 0 (lis_reg_write hw lisno 0x32 0x14 s)))
               else s);
          s = (if INTno = 2
               then ctrl3 hw revision lisno 0x90 0xd0
                 (lis_reg_write hw lisno 0x34 0x95 (lis_reg_write hw lisno 0x37 0 (lis_reg_write hw lisno 0x36 0x14 s)))
               else s);
          s = check_interrupt hw lisno s;
          s = ctrl3 hw revision lisno 0x80 0xc0 s;
          s = (if INTno = 1 then ctrl3 hw revision lisno 0x81 0xc1 (lis_reg_write hw lisno 0x32 0x54 s) else s);
          s = (if INTno = 2 then ctrl3 hw revision lisno 0x90 0xd0 (lis_reg_write hw lisno 0x36 0x54 s) else s);
          s = check_interrupt hw lisno s
      in lis_reg_write hw lisno 0x20 0 s)"

definition lis_init :: "hardware \<Rightarrow> int \<Rightarrow> board \<Rightarrow> board option" where
  "lis_init hw revision s = do {
     let s = sensor_spi_init (lis_printf ''Init LIS302DL'' 0 (lis_printf ''[SENSOR] start test'' 0 s));
     s \<leftarrow> lis_self_test hw 1 s;
     let s = lis_interrupt_test hw revision 1 2 (lis_interrupt_test hw revision 1 1 s);
     s \<leftarrow> lis_self_test hw 2 s;
     let s = lis_interrupt_test hw revision 2 2 (lis_interrupt_test hw revision 2 1 s);
     Some (lis_printf ''[SENSOR] end test'' 0 s)
   }"

section \<open>What the sensor sees\<close>

text \<open>
  The reference: a sensor samples the data line at each rising edge of the clock while its chip select is low. \<open>sampled n p evs\<close> are
  these bits in \<open>evs\<close>, after the entry \<open>p\<close>.
\<close>

definition clk :: "u32 \<times> u32 \<Rightarrow> bool" where
  "clk p \<longleftrightarrow> bit (snd p) 7"

definition mosi :: "u32 \<times> u32 \<Rightarrow> bool" where
  "mosi p \<longleftrightarrow> bit (snd p) 6"

definition cs_low :: "int \<Rightarrow> u32 \<times> u32 \<Rightarrow> bool" where
  "cs_low n p \<longleftrightarrow> \<not> bit (fst p) (if n = 1 then 12 else 13)"

fun sampled :: "int \<Rightarrow> u32 \<times> u32 \<Rightarrow> pins \<Rightarrow> bool list" where
  "sampled n p [] = []"
| "sampled n p (q # qs) = (if \<not> clk p \<and> clk q \<and> cs_low n q then [mosi q] else []) @ sampled n q qs"

definition msb_bits :: "nat \<Rightarrow> 'a::len word \<Rightarrow> bool list" where
  "msb_bits n w = map (\<lambda>i. bit w (n - 1 - i)) [0..<n]"

definition now :: "board \<Rightarrow> u32 \<times> u32" where
  "now s = (GPDDAT s, GPGDAT s)"

lemma sampled_append: "sampled n p (xs @ ys) = sampled n p xs @ sampled n (last (p # xs)) ys"
  by (induction xs arbitrary: p) auto

lemma cs_low_unit [simp]: "cs_low n (d, g) = cs_low n (d, g')"
  by (simp add: cs_low_def)

lemma load_bits: "bit (load_G hw s) 7 = bit (GPGDAT s) 7" "bit (load_G hw s) 6 = bit (GPGDAT s) 6"
    "bit (load_G hw s) 5 = bit (in_G hw (pins s)) 5"
  by (simp_all add: load_G_def bit_simps)

lemma scl_step:
  "pins (SPI_SCL hw b s) = pins s @ [now (SPI_SCL hw b s)]" "GPDDAT (SPI_SCL hw b s) = GPDDAT s"
  "clk (now (SPI_SCL hw b s)) = b" "mosi (now (SPI_SCL hw b s)) = mosi (now s)"
  by (simp_all add: SPI_SCL_def store_G_def now_def clk_def mosi_def bit_simps load_bits)

lemma sda_step:
  "pins (SPI_SDA hw b s) = pins s @ [now (SPI_SDA hw b s)]" "GPDDAT (SPI_SDA hw b s) = GPDDAT s"
  "clk (now (SPI_SDA hw b s)) = clk (now s)" "mosi (now (SPI_SDA hw b s)) = b"
  by (simp_all add: SPI_SDA_def store_G_def now_def clk_def mosi_def bit_simps load_bits)

lemma spi_read: "SPI_READ hw s = bit (in_G hw (pins s)) 5"
proof -
  have "SPI_READ hw s \<longleftrightarrow> bit (load_G hw s) 5"
    using and_exp_eq_0_iff_not_bit [of "load_G hw s" 5] by (simp add: SPI_READ_def)
  then show ?thesis by (simp add: load_bits)
qed

text \<open>What a bus operation does to the history: it appends entries that leave port D alone, and the last one is the present.\<close>

definition moves :: "board \<Rightarrow> pins \<Rightarrow> board \<Rightarrow> bool" where
  "moves s evs s' \<longleftrightarrow> pins s' = pins s @ evs \<and> GPDDAT s' = GPDDAT s \<and> (\<forall>q \<in> set evs. fst q = GPDDAT s) \<and> now s' = last (now s # evs)"

lemma moves_trans: "moves s a s' \<Longrightarrow> moves s' b s'' \<Longrightarrow> moves s (a @ b) s''"
  by (auto simp: moves_def now_def)

lemma moves_refl: "moves s [] s"
  by (simp add: moves_def)

lemma scl_moves: "moves s [now (SPI_SCL hw b s)] (SPI_SCL hw b s)"
  using scl_step(1,2) [of hw b s] by (simp add: moves_def now_def)

lemma sda_moves: "moves s [now (SPI_SDA hw b s)] (SPI_SDA hw b s)"
  using sda_step(1,2) [of hw b s] by (simp add: moves_def now_def)

lemma sampled_other: "\<forall>q \<in> set evs. \<not> cs_low n q \<Longrightarrow> sampled n p evs = []"
  by (induction evs arbitrary: p) auto

lemma bit_shifted: "bit (push_bit 1 (t :: u16)) k \<longleftrightarrow> 0 < k \<and> k < 16 \<and> bit t (k - 1)"
  by (cases k) (auto simp only: bit_push_bit_iff possible_bit_word, auto)

lemma snd_bits_moves:
  assumes "n \<le> bitlen" "bitlen \<le> 16"
  shows "\<exists>evs. moves s evs (snd_bits hw bitlen n t s) \<and> (n \<noteq> 0 \<longrightarrow> clk (now (snd_bits hw bitlen n t s))) \<and>
    (cs_low m (now s) \<longrightarrow> sampled m (now s) evs = map (\<lambda>i. bit t (bitlen - 1 - i)) [0..<n])"
  using assms(1)
proof (induction n arbitrary: s t)
  case 0
  show ?case by (intro exI [of _ "[]"]) (simp add: moves_refl)
next
  case (Suc n)
  define b where "b = (t AND push_bit (bitlen - 1) 1 \<noteq> 0)"
  let ?s1 = "SPI_SCL hw False s"
  let ?s2 = "SPI_SDA hw b ?s1"
  let ?s3 = "SPI_SCL hw True ?s2"
  have b: "b = bit t (bitlen - 1)"
    using and_exp_eq_0_iff_not_bit [of t "bitlen - 1"] by (simp add: b_def push_bit_eq_mult)
  have m3: "moves s [now ?s1, now ?s2, now ?s3] ?s3"
    using moves_trans [OF moves_trans [OF scl_moves sda_moves] scl_moves, of s hw False hw b hw True] by simp
  have d: "GPDDAT ?s1 = GPDDAT s" "GPDDAT ?s2 = GPDDAT s" "GPDDAT ?s3 = GPDDAT s" by (simp_all add: scl_step sda_step)
  obtain evs where e: "moves ?s3 evs (snd_bits hw bitlen n (push_bit 1 t) ?s3)"
      "n \<noteq> 0 \<longrightarrow> clk (now (snd_bits hw bitlen n (push_bit 1 t) ?s3))"
      "cs_low m (now ?s3) \<longrightarrow> sampled m (now ?s3) evs = map (\<lambda>i. bit (push_bit 1 t) (bitlen - 1 - i)) [0..<n]"
    using Suc.IH [of ?s3 "push_bit 1 t"] Suc.prems by auto
  have r: "snd_bits hw bitlen (Suc n) t s = snd_bits hw bitlen n (push_bit 1 t) ?s3" by (simp add: Let_def b_def)
  have "sampled m (now s) ([now ?s1, now ?s2, now ?s3] @ evs) = map (\<lambda>i. bit t (bitlen - 1 - i)) [0..<Suc n]" if "cs_low m (now s)"
  proof -
    have c: "cs_low m (now ?s3)" using that d by (simp add: now_def cs_low_def)
    have "sampled m (now s) ([now ?s1, now ?s2, now ?s3] @ evs) = b # sampled m (now ?s3) evs"
      using c by (simp add: scl_step sda_step)
    also have "sampled m (now ?s3) evs = map (\<lambda>i. bit (push_bit 1 t) (bitlen - 1 - i)) [0..<n]" using e(3) c by blast
    also have "\<dots> = map (\<lambda>i. bit t (bitlen - 1 - Suc i)) [0..<n]"
      using Suc.prems assms(2) by (intro map_cong refl) (simp only: bit_shifted, auto)
    also have "b # \<dots> = map (\<lambda>i. bit t (bitlen - 1 - i)) [0..<Suc n]"
      by (simp add: b upt_conv_Cons map_Suc_upt [symmetric] del: upt_Suc map_Suc_upt)
    finally show ?thesis .
  qed
  moreover have "clk (now (snd_bits hw bitlen (Suc n) t s))" using e(2) unfolding r by (cases "n = 0") (simp_all add: scl_step)
  ultimately show ?case using moves_trans [OF m3 e(1)] unfolding r by blast
qed

text \<open>A chip select does not look like a clock edge.\<close>

lemma cs_step:
  "pins (SPI_CS n b s) = pins s @ [now (SPI_CS n b s)]" "clk (now (SPI_CS n b s)) = clk (now s)"
  "n \<in> {1, 2} \<Longrightarrow> cs_low n (now (SPI_CS n b s)) = (\<not> b)"
  "n \<in> {1, 2} \<Longrightarrow> m \<in> {1, 2} \<Longrightarrow> m \<noteq> n \<Longrightarrow> cs_low m (now (SPI_CS n b s)) = cs_low m (now s)"
  by (auto simp: SPI_CS_def store_D_def now_def clk_def cs_low_def cs_bit_def bit_simps)

lemma select_release:
  assumes "n \<in> {1, 2}"
  shows "select_sensor n s = SPI_CS n False s" "release_sensor n s = SPI_CS n True s"
  using assms by (auto simp: select_sensor_def release_sensor_def)

lemma moves_cs: "moves s evs s' \<Longrightarrow> q \<in> set evs \<Longrightarrow> cs_low m q = cs_low m (now s)"
  by (auto simp: moves_def cs_low_def now_def)

lemma moves_now_cs: "moves s evs s' \<Longrightarrow> cs_low m (now s') = cs_low m (now s)"
  by (auto simp: moves_def cs_low_def now_def)

text \<open>A frame: select, move, release. The other sensor, which is not selected, sees nothing.\<close>

lemma frame_sampled:
  assumes "n \<in> {1, 2}" "moves (SPI_CS n False s) evs s1"
  shows "\<exists>h. pins (SPI_CS n True s1) = pins s @ h \<and> now (SPI_CS n True s1) = last (now s # h) \<and>
    sampled n (now s) h = sampled n (now (SPI_CS n False s)) evs \<and> \<not> cs_low n (now (SPI_CS n True s1)) \<and>
    (\<forall>m \<in> {1, 2}. m \<noteq> n \<and> \<not> cs_low m (now s) \<longrightarrow> sampled m (now s) h = [] \<and> \<not> cs_low m (now (SPI_CS n True s1)))"
proof -
  let ?s0 = "SPI_CS n False s"
  define h where "h = now ?s0 # evs @ [now (SPI_CS n True s1)]"
  have l: "last (now ?s0 # evs) = now s1" using assms(2) by (simp add: moves_def)
  have 1: "pins (SPI_CS n True s1) = pins s @ h" using assms(2) cs_step(1) by (simp add: h_def moves_def)
  have 2: "now (SPI_CS n True s1) = last (now s # h)" by (simp add: h_def)
  have 3: "sampled k (now s) h = sampled k (now ?s0) evs" for k
    using l cs_step(2) [of n True s1] cs_step(2) [of n False s] by (simp add: h_def sampled_append)
  have 4: "sampled m (now s) h = [] \<and> \<not> cs_low m (now (SPI_CS n True s1))"
    if m: "m \<in> {1, 2}" "m \<noteq> n \<and> \<not> cs_low m (now s)" for m
  proof -
    have c: "\<not> cs_low m (now ?s0)" using cs_step(4) [OF assms(1) m(1)] m(2) by simp
    then have "\<forall>q \<in> set evs. \<not> cs_low m q" using moves_cs [OF assms(2)] by blast
    moreover have "\<not> cs_low m (now s1)" using moves_now_cs [OF assms(2)] c by simp
    ultimately show ?thesis using 3 [of m] cs_step(4) [OF assms(1) m(1), of True s1] m(2) sampled_other [of evs m] by metis
  qed
  have 5: "\<not> cs_low n (now (SPI_CS n True s1))" using cs_step(3) [OF assms(1), of True s1] by simp
  show ?thesis using 1 2 3 [of n] 5 by (intro exI [of _ h] conjI ballI impI) (assumption | (drule (1) 4, simp))+
qed

definition write_frame :: "u16 \<Rightarrow> u16 \<Rightarrow> bool list" where
  "write_frame reg data = [False, False] @ msb_bits 6 reg @ msb_bits 8 data"

definition read_command :: "u16 \<Rightarrow> bool list" where
  "read_command reg = [True, False] @ msb_bits 6 reg"

lemma upt_numerals: "[0..<6] = [0, 1, 2, 3, 4, 5]" "[0..<8] = [0, 1, 2, 3, 4, 5, 6, 7]"
  "[0..<16] = [0, 1, 2, 3, 4, 5, 6, 7, 8, 9, 10, 11, 12, 13, 14, 15]"
  by (simp_all add: upt_rec)

lemma write_frame_word: "map (\<lambda>i. bit (push_bit 15 0 OR push_bit 14 0 OR push_bit 8 (reg AND 0x3F) OR (data AND 0xFF) :: u16) (16 - 1 - i)) [0..<16] =
    write_frame reg data"
  by (simp add: write_frame_def msb_bits_def upt_numerals bit_simps)

lemma read_command_word: "map (\<lambda>i. bit (push_bit 7 1 OR push_bit 6 0 OR (reg AND 0x3F) :: u16) (8 - 1 - i)) [0..<8] = read_command reg"
  by (simp add: read_command_def msb_bits_def upt_numerals bit_simps)

lemma snd_word:
  assumes "n \<in> {1, 2}" "bitlen \<le> 16" "bitlen \<noteq> 0"
  shows "\<exists>evs. moves (SPI_CS n False s) evs (lis_spi_snd hw bitlen [w] (SPI_CS n False s)) \<and>
    clk (now (lis_spi_snd hw bitlen [w] (SPI_CS n False s))) \<and>
    sampled n (now (SPI_CS n False s)) evs = map (\<lambda>i. bit w (bitlen - 1 - i)) [0..<bitlen]"
  using snd_bits_moves [of bitlen bitlen "SPI_CS n False s" hw w n] cs_step(3) [OF assms(1)] assms(2,3)
  by (auto simp: lis_spi_snd_def)

lemma write_sampled:
  assumes "n \<in> {1, 2}"
  shows "\<exists>h. pins (lis_reg_write hw n reg data s) = pins s @ h \<and> now (lis_reg_write hw n reg data s) = last (now s # h) \<and>
    sampled n (now s) h = write_frame reg data \<and> \<not> cs_low n (now (lis_reg_write hw n reg data s)) \<and>
    (\<forall>m \<in> {1, 2}. m \<noteq> n \<and> \<not> cs_low m (now s) \<longrightarrow> sampled m (now s) h = [] \<and> \<not> cs_low m (now (lis_reg_write hw n reg data s)))"
proof -
  define w :: u16 where "w = push_bit 15 0 OR push_bit 14 0 OR push_bit 8 (reg AND 0x3F) OR (data AND 0xFF)"
  obtain evs where e: "moves (SPI_CS n False s) evs (lis_spi_snd hw 16 [w] (SPI_CS n False s))"
      "sampled n (now (SPI_CS n False s)) evs = write_frame reg data"
    using snd_word [OF assms, of 16 s hw w] unfolding w_def write_frame_word by auto
  have r: "lis_reg_write hw n reg data s = SPI_CS n True (lis_spi_snd hw 16 [w] (SPI_CS n False s))"
    by (simp add: lis_reg_write_def select_release [OF assms] w_def Let_def)
  show ?thesis using frame_sampled [OF assms e(1)] unfolding r e(2) .
qed

text \<open>C28: A register write shows the selected sensor exactly one frame: the write bit, no address increment, the six bits of the address and the eight
  bits of the value, the most significant one first; the other sensor, not selected, sees no bit.
\<close>

theorem lis_write_frame:
  "n \<in> {1, 2} \<Longrightarrow> \<exists>h. pins (lis_reg_write hw n reg data s) = pins s @ h \<and> sampled n (now s) h = write_frame reg data \<and>
     \<not> cs_low n (now (lis_reg_write hw n reg data s)) \<and>
     (\<forall>m \<in> {1, 2}. m \<noteq> n \<and> \<not> cs_low m (now s) \<longrightarrow> sampled m (now s) h = [])"
  using write_sampled [of n hw reg data s] by blast

section \<open>Reading\<close>

text \<open>
  The data sheet of the sensor, as a hypothesis on the hardware: after the eight bits of a read command it shows the bits of
  the register at the address, the most significant one first, while the clock is low.
\<close>

definition answers :: "hardware \<Rightarrow> int \<Rightarrow> board \<Rightarrow> (u16 \<Rightarrow> 8 word) \<Rightarrow> bool" where
  "answers hw n s regs \<longleftrightarrow> (\<forall>evs reg. evs \<noteq> [] \<and> (\<forall>q \<in> set evs. cs_low n q) \<and> \<not> clk (last evs) \<and>
     take 8 (sampled n (now s) evs) = read_command reg \<and> length (sampled n (now s) evs) < 16 \<longrightarrow>
       bit (in_G hw (pins s @ evs)) 5 = bit (regs (reg AND 0x3F)) (15 - length (sampled n (now s) evs)))"

lemma next_bit:
  fixes v :: u16
  shows "(if bit v n then push_bit 1 (drop_bit (Suc n) v) OR 1 else push_bit 1 (drop_bit (Suc n) v) AND NOT 1) = drop_bit n v"
proof (rule bit_word_eqI)
  fix k :: nat
  assume k: "k < LENGTH(16)"
  define x where "x = push_bit 1 (drop_bit (Suc n) v)"
  have x: "bit x k \<longleftrightarrow> 0 < k \<and> bit v (n + k)"
    unfolding x_def bit_shifted using k by (cases k) (simp_all add: bit_simps)
  show "bit (if bit v n then push_bit 1 (drop_bit (Suc n) v) OR 1 else push_bit 1 (drop_bit (Suc n) v) AND NOT 1) k = bit (drop_bit n v) k"
    unfolding x_def [symmetric] using x k by (cases k) (simp_all add: bit_simps)
qed

lemma rev_bits_value:
  fixes regs :: "u16 \<Rightarrow> 8 word"
  assumes "answers hw n s0 regs" "\<forall>q \<in> set evs0. cs_low n q" "cs_low n (now s)"
    and "pins s = pins s0 @ evs0" "now s = last (now s0 # evs0)" "clk (now s)"
    and "take 8 (sampled n (now s0) evs0) = read_command reg" "length (sampled n (now s0) evs0) = 16 - k" "0 < k" "k \<le> 8"
    and "t = push_bit 1 (drop_bit k (ucast (regs (reg AND 0x3F)) :: u16))"
  shows "\<exists>evs. moves s evs (snd (rev_bits hw k t s)) \<and> fst (rev_bits hw k t s) = ucast (regs (reg AND 0x3F))"
  using assms(2-)
proof (induction k arbitrary: s t evs0)
  case (Suc k)
  let ?v = "ucast (regs (reg AND 0x3F)) :: u16"
  let ?s1 = "SPI_SCL hw False s"
  let ?s2 = "SPI_SCL hw True ?s1"
  let ?t = "if SPI_READ hw ?s1 then t OR 1 else t AND NOT 1"
  have c1: "cs_low n (now ?s1)" using Suc.prems(2) scl_step(2) [of hw False s] by (simp add: now_def cs_low_def)
  have c2: "cs_low n (now ?s2)" using c1 scl_step(2) [of hw True ?s1] by (simp add: now_def cs_low_def)
  have sm: "sampled n (now s0) (evs0 @ [now ?s1]) = sampled n (now s0) evs0"
    using Suc.prems(4) by (simp add: sampled_append scl_step)
  have "bit (in_G hw (pins ?s1)) 5 = bit (regs (reg AND 0x3F)) k"
  proof -
    have "pins ?s1 = pins s0 @ (evs0 @ [now ?s1])" using Suc.prems(3) by (simp add: scl_step)
    moreover have "bit (in_G hw (pins s0 @ (evs0 @ [now ?s1]))) 5 =
        bit (regs (reg AND 0x3F)) (15 - length (sampled n (now s0) (evs0 @ [now ?s1])))"
      using assms(1) [unfolded answers_def, rule_format, of "evs0 @ [now ?s1]" reg] Suc.prems c1 sm by (simp add: scl_step)
    ultimately show ?thesis using Suc.prems(7,9) sm by simp
  qed
  then have "SPI_READ hw ?s1 = bit ?v k" using Suc.prems(9) by (simp add: spi_read bit_simps)
  then have t: "?t = drop_bit k ?v" unfolding Suc.prems(10) by (simp only: next_bit)
  have m: "moves s [now ?s1, now ?s2] ?s2" using moves_trans [OF scl_moves scl_moves] by simp
  have r: "rev_bits hw (Suc k) t s = rev_bits hw k (if k \<noteq> 0 then push_bit 1 (drop_bit k ?v) else drop_bit k ?v) ?s2"
    unfolding t [symmetric] by (simp add: Let_def)
  show ?case
  proof (cases k)
    case 0
    then show ?thesis using m r by (auto simp: 0)
  next
    case (Suc j)
    have s2: "sampled n (now s0) (evs0 @ [now ?s1, now ?s2]) = sampled n (now s0) evs0 @ [mosi (now ?s2)]"
      using Suc.prems(4) c2 by (simp add: sampled_append scl_step)
    have "\<exists>evs. moves ?s2 evs (snd (rev_bits hw k (push_bit 1 (drop_bit k ?v)) ?s2)) \<and>
        fst (rev_bits hw k (push_bit 1 (drop_bit k ?v)) ?s2) = ?v"
    proof (rule Suc.IH [of "evs0 @ [now ?s1, now ?s2]"])
      show "take 8 (sampled n (now s0) (evs0 @ [now ?s1, now ?s2])) = read_command reg"
        unfolding s2 using Suc.prems(6,7,9) by simp
    qed (use Suc.prems s2 c1 c2 \<open>k = Suc j\<close> in \<open>auto simp: scl_step\<close>)
    then obtain evs where "moves ?s2 evs (snd (rev_bits hw (Suc k) t s))" "fst (rev_bits hw (Suc k) t s) = ?v"
      using r \<open>k = Suc j\<close> by auto
    then show ?thesis using moves_trans [OF m] by blast
  qed
qed simp

lemma read_sampled:
  assumes n: "n \<in> {1, 2}" and a: "answers hw n s regs"
  shows "fst (lis_reg_read hw n reg s) = ucast (regs (reg AND 0x3F)) \<and>
    (\<forall>m \<in> {1, 2}. m \<noteq> n \<and> \<not> cs_low m (now s) \<longrightarrow> \<not> cs_low m (now (snd (lis_reg_read hw n reg s))))"
proof -
  define w :: u16 where "w = push_bit 7 1 OR push_bit 6 0 OR (reg AND 0x3F)"
  let ?s0 = "SPI_CS n False s"
  let ?s1 = "lis_spi_snd hw 8 [w] ?s0"
  obtain evs where e: "moves ?s0 evs ?s1" "clk (now ?s1)" "sampled n (now ?s0) evs = read_command reg"
    using snd_word [OF n, of 8 s hw w] unfolding w_def read_command_word by auto
  have c0: "cs_low n (now ?s0)" using cs_step(3) [OF n, of False s] by simp
  have sm: "sampled n (now s) (now ?s0 # evs) = read_command reg" using e(3) cs_step(2) [of n False s] by simp
  have l: "length (read_command reg) = 8" by (simp add: read_command_def msb_bits_def)
  have "\<exists>evs'. moves ?s1 evs' (snd (rev_bits hw 8 0 ?s1)) \<and> fst (rev_bits hw 8 0 ?s1) = ucast (regs (reg AND 0x3F))"
  proof (rule rev_bits_value [OF a, of "now ?s0 # evs"])
    show "\<forall>q \<in> set (now ?s0 # evs). cs_low n q" using moves_cs [OF e(1)] c0 by auto
    show "cs_low n (now ?s1)" using moves_now_cs [OF e(1)] c0 by simp
    show "pins ?s1 = pins s @ now ?s0 # evs" using e(1) cs_step(1) by (simp add: moves_def)
    show "now ?s1 = last (now s # now ?s0 # evs)" using e(1) by (simp add: moves_def)
    have "drop_bit 8 (ucast (regs (reg AND 0x3F)) :: u16) = 0" by (rule bit_word_eqI) (auto simp: bit_simps)
    then show "(0 :: u16) = push_bit 1 (drop_bit 8 (ucast (regs (reg AND 0x3F))))" by simp
  qed (use e(2) sm l in simp_all)
  then obtain evs' where e': "moves ?s1 evs' (snd (rev_bits hw 8 0 ?s1))" "fst (rev_bits hw 8 0 ?s1) = ucast (regs (reg AND 0x3F))"
    by blast
  have r: "lis_reg_read hw n reg s = (fst (rev_bits hw 8 0 ?s1), SPI_CS n True (snd (rev_bits hw 8 0 ?s1)))"
    by (simp add: lis_reg_read_def select_release [OF n] w_def Let_def split: prod.split)
  have "\<forall>m \<in> {1, 2}. m \<noteq> n \<and> \<not> cs_low m (now s) \<longrightarrow> \<not> cs_low m (now (SPI_CS n True (snd (rev_bits hw 8 0 ?s1))))"
    using frame_sampled [OF n moves_trans [OF e(1) e'(1)]] by blast
  then show ?thesis using e'(2) unfolding r by simp
qed

text \<open>C15: A register read of a sensor that answers as its data sheet says returns the value of the register. The other sensor stays
  unselected.
\<close>

theorem lis_read_value:
  assumes "n \<in> {1, 2}" "answers hw n s regs"
  shows "fst (lis_reg_read hw n reg s) = ucast (regs (reg AND 0x3F)) \<and>
    (\<forall>m \<in> {1, 2}. m \<noteq> n \<and> \<not> cs_low m (now s) \<longrightarrow> \<not> cs_low m (now (snd (lis_reg_read hw n reg s))))"
  by (rule read_sampled [OF assms])

section \<open>The self test\<close>

text \<open>Between the operations no bus cycle is open.\<close>

definition idle :: "int \<Rightarrow> board \<Rightarrow> bool" where
  "idle n s \<longleftrightarrow> pins s \<noteq> [] \<and> now s = last (pins s) \<and> \<not> cs_low n (now s)"

lemma rev_bits_moves: "\<exists>evs. moves s evs (snd (rev_bits hw k t s))"
proof (induction k arbitrary: s t)
  case 0
  show ?case using moves_refl by auto
next
  case (Suc k)
  let ?s2 = "SPI_SCL hw True (SPI_SCL hw False s)"
  obtain t' where "rev_bits hw (Suc k) t s = rev_bits hw k t' ?s2" by (simp add: Let_def)
  then show ?case using Suc.IH [of ?s2 t'] moves_trans [OF moves_trans [OF scl_moves scl_moves], of hw True hw False] by metis
qed

lemma read_state:
  assumes n: "n \<in> {1, 2}"
  shows "\<exists>evs s1. moves (SPI_CS n False s) evs s1 \<and> snd (lis_reg_read hw n reg s) = SPI_CS n True s1"
proof -
  define w :: u16 where "w = push_bit 7 1 OR push_bit 6 0 OR (reg AND 0x3F)"
  let ?s1 = "lis_spi_snd hw 8 [w] (SPI_CS n False s)"
  obtain evs where e: "moves (SPI_CS n False s) evs ?s1" using snd_word [OF n, of 8 s hw w] by auto
  obtain evs' where "moves ?s1 evs' (snd (rev_bits hw 8 0 ?s1))" using rev_bits_moves by blast
  moreover have "snd (lis_reg_read hw n reg s) = SPI_CS n True (snd (rev_bits hw 8 0 ?s1))"
    by (simp add: lis_reg_read_def select_release [OF n] w_def Let_def split: prod.split)
  ultimately show ?thesis using moves_trans [OF e] by blast
qed

text \<open>Operations on one sensor leave the other one alone.\<close>

definition quiet :: "board \<Rightarrow> board \<Rightarrow> bool" where
  "quiet s s' \<longleftrightarrow> (\<forall>m \<in> {1, 2}. idle m s \<longrightarrow> idle m s')"

lemma quiet_trans: "quiet s s' \<Longrightarrow> quiet s' s'' \<Longrightarrow> quiet s s''"
  by (simp add: quiet_def)

lemma quiet_same: "pins s' = pins s \<Longrightarrow> now s' = now s \<Longrightarrow> quiet s s'"
  unfolding quiet_def idle_def by metis

lemma frame_idle: "n \<in> {1, 2} \<Longrightarrow> idle n (SPI_CS n True s)"
  using cs_step(1) [of n True s] cs_step(3) [of n True s] by (simp add: idle_def)

lemma frame_quiet:
  assumes "n \<in> {1, 2}" "moves (SPI_CS n False s) evs s1"
  shows "quiet s (SPI_CS n True s1)"
  unfolding quiet_def
proof (intro ballI impI)
  fix m
  assume m: "m \<in> {1, 2}" "idle m s"
  show "idle m (SPI_CS n True s1)"
  proof (cases "m = n")
    case True
    then show ?thesis using frame_idle [OF assms(1)] by simp
  next
    case False
    then have "\<not> cs_low m (now (SPI_CS n True s1))" using frame_sampled [OF assms] m by (auto simp: idle_def)
    then show ?thesis using cs_step(1) [of n True s1] by (simp add: idle_def)
  qed
qed

lemma ops_idle:
  assumes "n \<in> {1, 2}"
  shows "idle n (snd (lis_reg_read hw n reg s))" "idle n (lis_reg_write hw n reg data s)"
  using read_state [OF assms, of s hw reg] frame_idle [OF assms] by (auto simp: lis_reg_write_def Let_def select_release [OF assms])

lemma ops_quiet:
  assumes "n \<in> {1, 2}"
  shows "quiet s (snd (lis_reg_read hw n reg s))" "quiet s (lis_reg_write hw n reg data s)"
proof -
  show "quiet s (snd (lis_reg_read hw n reg s))" using read_state [OF assms, of s hw reg] frame_quiet [OF assms] by auto
  show "quiet s (lis_reg_write hw n reg data s)"
    using snd_word [OF assms, of 16 s hw] frame_quiet [OF assms]
    by (fastforce simp: lis_reg_write_def Let_def select_release [OF assms])
qed

lemma printf_idle [simp]: "idle n (lis_printf t v s) = idle n s"
  by (simp add: idle_def lis_printf_def now_def)

lemma printf_quiet [simp]: "quiet s (lis_printf t v s') = quiet s s'" "quiet (lis_printf t v s) s' = quiet s s'"
  by (simp_all add: quiet_def)

lemma last_said [simp]: "last (printed (lis_printf t v s)) = (t, v)"
  by (simp add: lis_printf_def)

lemma derived_idle:
  assumes "n \<in> {1, 2}"
  shows "idle n (snd (read_i8 hw n reg s))" "idle n (snd (read_xyz hw n s))" "idle n (say_value hw n s)" "idle n (say_xyz k xyz s) = idle n s"
  using ops_idle [OF assms] by (auto simp: read_i8_def read_xyz_def say_value_def say_xyz_def Let_def split_def)

lemma derived_quiet:
  assumes "n \<in> {1, 2}"
  shows "quiet s (snd (read_i8 hw n reg s))" "quiet s (snd (read_xyz hw n s))" "quiet s (say_value hw n s)"
    "quiet s (say_xyz k xyz s') = quiet s s'"
proof -
  show i8: "quiet s (snd (read_i8 hw n reg s))" for s reg using ops_quiet(1) [OF assms] by (simp add: read_i8_def split_def Let_def)
  show "quiet s (snd (read_xyz hw n s))"
    using quiet_trans [OF quiet_trans [OF i8 i8] i8] by (simp add: read_xyz_def split_def Let_def)
  show "quiet s (say_value hw n s)" using ops_quiet(1) [OF assms] by (simp add: say_value_def split_def Let_def)
  show "quiet s (say_xyz k xyz s') = quiet s s'" by (simp add: say_xyz_def split: prod.split)
qed

text \<open>
  The hypothesis on the hardware: whatever the registers hold at each moment, the sensor identifies itself as \<open>ident\<close>, and a
  measurement is ready.
\<close>

definition sensor_ready :: "hardware \<Rightarrow> int \<Rightarrow> 8 word \<Rightarrow> bool" where
  "sensor_ready hw n ident \<longleftrightarrow> (\<forall>s. idle n s \<longrightarrow> (\<exists>regs. regs 0x0F = ident \<and> regs 0x27 AND 8 \<noteq> 0 \<and> answers hw n s regs))"

lemma ready_reads:
  assumes "n \<in> {1, 2}" "sensor_ready hw n ident" "idle n s"
  shows "fst (lis_reg_read hw n 0x0F s) = ucast ident" "fst (lis_reg_read hw n 0x27 s) AND 8 \<noteq> 0"
proof -
  obtain regs where r: "regs 0x0F = ident" "regs 0x27 AND 8 \<noteq> 0" "answers hw n s regs" using assms(2,3) by (auto simp: sensor_ready_def)
  show "fst (lis_reg_read hw n 0x0F s) = ucast ident" using read_sampled [OF assms(1) r(3), of "0x0F"] r(1) by simp
  have "fst (lis_reg_read hw n 0x27 s) = ucast (regs 0x27)" using read_sampled [OF assms(1) r(3), of "0x27"] by simp
  moreover have "bit (regs 0x27) 3" using r(2) and_exp_eq_0_iff_not_bit [of "regs 0x27" 3] by simp
  ultimately have "bit (fst (lis_reg_read hw n 0x27 s)) 3" by (simp add: bit_simps)
  then show "fst (lis_reg_read hw n 0x27 s) AND 8 \<noteq> 0" using and_exp_eq_0_iff_not_bit [of "fst (lis_reg_read hw n 0x27 s)" 3] by simp
qed

lemma wait_ready_ends:
  assumes "n \<in> {1, 2}" "sensor_ready hw n ident" "idle n s"
  shows "\<exists>s'. wait_ready hw n s = Some s' \<and> idle n s' \<and> quiet s s'"
  using ready_reads(2) [OF assms] ops_idle(1) [OF assms(1), of hw "0x27" s] ops_quiet(1) [OF assms(1), of s hw "0x27"]
  by (subst wait_ready.simps) (simp add: Let_def split_def)

lemma five_samples_end:
  assumes "n \<in> {1, 2}" "sensor_ready hw n ident"
  shows "idle n s \<Longrightarrow> \<exists>s'. five_samples hw n k s = Some s' \<and> idle n s' \<and> quiet s s'"
proof (induction k arbitrary: s)
  case (Suc k)
  obtain s1 where s1: "wait_ready hw n (snd (read_xyz hw n s)) = Some s1" "idle n s1" "quiet (snd (read_xyz hw n s)) s1"
    using wait_ready_ends [OF assms derived_idle(2) [OF assms(1)]] by blast
  obtain s2 where "five_samples hw n k s1 = Some s2" "idle n s2" "quiet s1 s2" using Suc.IH [OF s1(2)] by blast
  then show ?case using s1 quiet_trans [OF quiet_trans [OF derived_quiet(2) [OF assms(1)] s1(3)]] by auto
qed (simp add: quiet_same)

text \<open>What the test ends with: the sensor is switched off.\<close>

definition switched_off :: "int \<Rightarrow> board \<Rightarrow> bool" where
  "switched_off n s \<longleftrightarrow> (\<exists>pre h. pins s = pre @ h \<and> pre \<noteq> [] \<and> sampled n (last pre) h = write_frame 0x20 0 \<and> \<not> cs_low n (last (pins s)))"

lemma off_frame:
  assumes "n \<in> {1, 2}" "idle n s"
  shows "switched_off n (lis_printf t v (lis_reg_write hw n 0x20 0 s))"
proof -
  obtain h where h: "pins (lis_reg_write hw n 0x20 0 s) = pins s @ h" "sampled n (now s) h = write_frame 0x20 0"
    using write_sampled [OF assms(1), of hw "0x20" 0 s] by blast
  have "idle n (lis_reg_write hw n 0x20 0 s)" using ops_idle(2) [OF assms(1)] .
  then have "\<not> cs_low n (last (pins (lis_reg_write hw n 0x20 0 s)))" unfolding idle_def by metis
  then show ?thesis using h assms(2) unfolding switched_off_def idle_def
    by (intro exI [of _ "pins s"] exI [of _ h]) (simp add: lis_printf_def)
qed

lemma self_test_ends:
  assumes "n \<in> {1, 2}" "sensor_ready hw n ident" "idle n s"
  shows "\<exists>s'. lis_self_test hw n s = Some s' \<and> switched_off n s' \<and>
    last (printed s') = (if ident = 0xff then ''fail!! '' else ''pass!! '', 0) \<and> quiet s s'"
proof -
  note i = derived_idle [OF assms(1)] ops_idle [OF assms(1)] and q = derived_quiet [OF assms(1)] ops_quiet [OF assms(1)]
  define sa where "sa = lis_reg_write hw n 0x20 0x47 (lis_reg_write hw n 0x22 0 (lis_reg_write hw n 0x21 0 (say_value hw n s)))"
  have qa: "quiet s sa" unfolding sa_def by (intro quiet_trans [OF quiet_trans [OF quiet_trans [OF q(3) q(6)] q(6)] q(6)])
  obtain s1 where s1: "wait_ready hw n sa = Some s1" "idle n s1" "quiet sa s1"
    using wait_ready_ends [OF assms(1,2)] i(6) unfolding sa_def by blast
  obtain v s2 where v: "read_i8 hw n 0x0F s1 = (v, s2)" by fastforce
  have "ucast (ucast ident :: u16) = ident" by (rule bit_word_eqI) (auto simp: bit_simps)
  then have id: "v = ident" using ready_reads(1) [OF assms(1,2) s1(2)] v by (auto simp: read_i8_def split_def)
  let ?s2 = "lis_printf ''who_am_i : %x'' (sint v) s2"
  have i2: "idle n ?s2" using i(1) [of hw "0x0F" s1] v by simp
  have q2: "quiet s ?s2" using quiet_trans [OF quiet_trans [OF qa s1(3)], of s2] q(1) [of s1 hw "0x0F"] v by simp
  have "(0xff :: 8 word) = - 1" by simp
  then have ff: "v AND 0xff = v" by (simp only: and.right_neutral)
  show ?thesis
  proof (cases "ident = 0xff")
    case True
    then have "lis_self_test hw n s = Some (lis_printf ''fail!! '' 0 (lis_reg_write hw n 0x20 0 ?s2))"
      using s1(1) v id by (simp add: lis_self_test_def sa_def [symmetric])
    then show ?thesis using off_frame [OF assms(1) i2] True quiet_trans [OF q2 q(6)] by simp
  next
    case False
    obtain abc s3 where a: "read_xyz hw n ?s2 = (abc, s3)" by fastforce
    let ?s3 = "lis_reg_write hw n 0x20 0x57 (say_xyz ''1'' abc s3)"
    obtain s4 where s4: "wait_ready hw n ?s3 = Some s4" "idle n s4" "quiet ?s3 s4"
      using wait_ready_ends [OF assms(1,2)] i(6) by blast
    obtain s5 where s5: "five_samples hw n 5 s4 = Some s5" "quiet s4 s5" using five_samples_end [OF assms(1,2) s4(2)] by blast
    obtain d s6 where d: "read_xyz hw n s5 = (d, s6)" by fastforce
    have "quiet ?s2 s3" "quiet s5 s6" using q(2) [of ?s2 hw] q(2) [of s5 hw] a d by simp_all
    then have "quiet ?s2 (say_xyz ''1'' abc s3)" "quiet s5 (say_xyz ''2'' d s6)" by (simp_all add: q(4))
    then have "quiet s (lis_reg_write hw n 0x20 0 (say_value hw n (say_xyz ''2'' d s6)))"
      using quiet_trans q2 q(3,6) s4(3) s5(2) by meson
    moreover have "lis_self_test hw n s = Some (lis_printf ''pass!! '' 0 (lis_reg_write hw n 0x20 0 (say_value hw n (say_xyz ''2'' d s6))))"
      using s1(1) v id False ff a s4(1) s5 d by (simp add: lis_self_test_def sa_def [symmetric])
    ultimately show ?thesis using off_frame [OF assms(1) i(3)] False by simp
  qed
qed

text \<open>C29: With a sensor that answers and measures, the self test ends, switches the sensor off, and passes unless the identification is 0xff: the
  values that were measured play no part in the result.
\<close>

theorem self_test_verdict:
  assumes "n \<in> {1, 2}" "sensor_ready hw n ident" "idle n s"
  shows "\<exists>s'. lis_self_test hw n s = Some s' \<and> switched_off n s' \<and>
    last (printed s') = (if ident = 0xff then ''fail!! '' else ''pass!! '', 0)"
  using self_test_ends [OF assms] by blast

section \<open>The whole test\<close>

lemma quiet_refl: "quiet s s"
  by (simp add: quiet_def)

lemma config_quiet [simp]:
  "quiet s (s'\<lparr>GPFCON := x, GPFUP := y\<rparr>) = quiet s s'" "quiet s (s'\<lparr>GPGCON := x, GPFUP := y\<rparr>) = quiet s s'"
  by (simp_all add: quiet_def idle_def now_def)

lemma interrupt_quiet:
  assumes "n \<in> {1, 2}"
  shows "quiet s (lis_interrupt_test hw revision n i s)"
proof -
  note w = ops_quiet(2) [OF assms]
  have w': "quiet s (lis_reg_write hw n r d s')" if "quiet s s'" for s s' r d using quiet_trans [OF that w] .
  have c: "quiet s (ctrl3 hw revision n a b s')" if "quiet s s'" for s s' a b using that w' by (simp add: ctrl3_def)
  have k: "quiet s (check_interrupt hw n s')" if "quiet s s'" for s s' using that by (simp add: check_interrupt_def Let_def)
  show ?thesis
    unfolding lis_interrupt_test_def Let_def by (intro w' c k if_split [where P = "quiet s", THEN iffD2] conjI impI) (simp_all add: quiet_refl)
qed

lemma init_idle: "idle 1 (sensor_spi_init s)" "idle 2 (sensor_spi_init s)"
proof -
  obtain s0 where s0: "sensor_spi_init s = SPI_CS 2 True (SPI_CS 1 True s0)" by (simp add: sensor_spi_init_def Let_def)
  have "\<not> cs_low 1 (now (SPI_CS 2 True (SPI_CS 1 True s0)))"
    using cs_step(4) [of 2 1 True "SPI_CS 1 True s0"] cs_step(3) [of 1 True s0] by simp
  then show "idle 1 (sensor_spi_init s)" "idle 2 (sensor_spi_init s)"
    using frame_idle [of 2 "SPI_CS 1 True s0"] by (simp_all add: s0 idle_def cs_step(1))
qed

lemma lis_init_ends:
  assumes "sensor_ready hw 1 a" "sensor_ready hw 2 b"
  shows "\<exists>s'. lis_init hw revision s = Some s' \<and> last (printed s') = (''[SENSOR] end test'', 0) \<and> idle 1 s' \<and> idle 2 s'"
proof -
  define s0 where "s0 = sensor_spi_init (lis_printf ''Init LIS302DL'' 0 (lis_printf ''[SENSOR] start test'' 0 s))"
  have i0: "idle 1 s0" "idle 2 s0" by (simp_all add: s0_def init_idle)
  obtain s1 where s1: "lis_self_test hw 1 s0 = Some s1" "quiet s0 s1" using self_test_ends [OF _ assms(1) i0(1)] by auto
  let ?s2 = "lis_interrupt_test hw revision 1 2 (lis_interrupt_test hw revision 1 1 s1)"
  have q2: "quiet s0 ?s2" using s1(2) interrupt_quiet [of 1] quiet_trans by blast
  then have "idle 2 ?s2" using i0(2) by (simp add: quiet_def)
  then obtain s3 where s3: "lis_self_test hw 2 ?s2 = Some s3" "quiet ?s2 s3" using self_test_ends [OF _ assms(2)] by auto
  let ?s4 = "lis_interrupt_test hw revision 2 2 (lis_interrupt_test hw revision 2 1 s3)"
  have "quiet s0 ?s4" using q2 s3(2) interrupt_quiet [of 2] quiet_trans by blast
  then have "idle 1 ?s4" "idle 2 ?s4" using i0 by (simp_all add: quiet_def)
  then show ?thesis using s1(1) s3(1) by (simp add: lis_init_def s0_def [symmetric])
qed

section \<open>A sensor\<close>

text \<open>It looks at the bits of the present cycle, which began with the last entry whose chip select is high.\<close>

definition addr_of :: "bool list \<Rightarrow> u16" where
  "addr_of bs = horner_sum of_bool 2 (rev (take 6 (drop 2 bs)))"

definition cycle_bits :: "int \<Rightarrow> pins \<Rightarrow> bool list" where
  "cycle_bits n h = (let low = rev (takeWhile (cs_low n) (rev h)) in sampled n (last (take (length h - length low) h)) low)"

definition ex_hw :: "int \<Rightarrow> (u16 \<Rightarrow> 8 word) \<Rightarrow> hardware" where
  "ex_hw n regs = \<lparr>in_G = (\<lambda>h. let bs = cycle_bits n h
       in if 8 \<le> length bs \<and> length bs < 16 \<and> bit (regs (addr_of bs)) (15 - length bs) then 0x20 else 0), in_F = \<lambda>_. 0\<rparr>"

definition ex_board :: board where
  "ex_board = \<lparr>GPDDAT = 0x3000, GPGDAT = 0, GPGCON = 0, GPFCON = 0, GPFUP = 0, pins = [(0x3000, 0)], printed = []\<rparr>"

lemma addr_of_command:
  assumes "take 8 bs = read_command reg"
  shows "addr_of bs = reg AND 0x3F"
proof -
  have "addr_of bs = addr_of (take 8 bs)" by (simp add: addr_of_def drop_take)
  also have "\<dots> = horner_sum of_bool 2 (map (bit reg) [0..<6])"
    unfolding assms by (simp add: addr_of_def read_command_def msb_bits_def upt_numerals)
  also have "\<dots> = take_bit 6 reg" by (rule horner_sum_bit_eq_take_bit)
  also have "\<dots> = reg AND 0x3F" by (simp add: take_bit_eq_mask mask_eq_exp_minus_1)
  finally show ?thesis .
qed

lemma cycle_idle:
  assumes "idle n s" "\<forall>q \<in> set evs. cs_low n q"
  shows "cycle_bits n (pins s @ evs) = sampled n (now s) evs"
proof -
  obtain pre q where p: "pins s = pre @ [q]" using assms(1) by (metis idle_def rev_exhaust)
  then have q: "now s = q" "\<not> cs_low n q" using assms(1) by (auto simp: idle_def)
  have "takeWhile (cs_low n) (rev (pins s @ evs)) = rev evs" 
    using takeWhile_append2 [of "rev evs" "cs_low n" "q # rev pre"] assms(2) q(2) by (simp add: p)
  then show ?thesis by (simp add: cycle_bits_def Let_def p q(1))
qed

lemma ex_answers:
  assumes "idle n s"
  shows "answers (ex_hw n regs) n s regs"
  unfolding answers_def
proof (intro allI impI)
  fix evs reg
  let ?bs = "sampled n (now s) evs"
  assume a: "evs \<noteq> [] \<and> (\<forall>q \<in> set evs. cs_low n q) \<and> \<not> clk (last evs) \<and> take 8 ?bs = read_command reg \<and> length ?bs < 16"
  then have t: "take 8 ?bs = read_command reg" and l: "length ?bs < 16" by simp_all
  have "8 \<le> length ?bs"
    using arg_cong [OF t, of length] by (simp add: read_command_def msb_bits_def min_def split: if_splits)
  moreover have "bit (0x20 :: u32) 5" by (simp add: bit_simps)
  ultimately show "bit (in_G (ex_hw n regs) (pins s @ evs)) 5 = bit (regs (reg AND 0x3F)) (15 - length ?bs)"
    using l a cycle_idle [OF assms] addr_of_command [OF t] by (simp add: ex_hw_def Let_def)
qed

lemma ex_board_idle: "idle 1 ex_board" "idle 2 ex_board"
  by (simp_all add: idle_def ex_board_def now_def cs_low_def bit_simps)

theorem lis_read_value_witness: "fst (lis_reg_read (ex_hw 1 (\<lambda>r. if r = 0x0F then 0x3B else 0)) 1 0x0F ex_board) = 0x3B"
  using lis_read_value [OF _ ex_answers [OF ex_board_idle(1), of "\<lambda>r. if r = 0x0F then 0x3B else 0"], of "0x0F"] by simp

theorem lis_write_frame_witness:
  "\<exists>h. pins (lis_reg_write (ex_hw 1 (\<lambda>_. 0)) 1 0x20 0x47 ex_board) = pins ex_board @ h \<and>
     sampled 1 (now ex_board) h = write_frame 0x20 0x47 \<and> sampled 2 (now ex_board) h = []"
  using lis_write_frame [of 1 "ex_hw 1 (\<lambda>_. 0)" "0x20" "0x47" ex_board] ex_board_idle(2) by (auto simp: idle_def)

lemma ex_ready: "regs 0x0F = ident \<Longrightarrow> regs 0x27 AND 8 \<noteq> 0 \<Longrightarrow> sensor_ready (ex_hw n regs) n ident"
  using ex_answers by (auto simp: sensor_ready_def)

theorem self_test_verdict_witness:
  "\<exists>s'. lis_self_test (ex_hw 2 (\<lambda>r. if r = 0x0F then 0x3B else 0xff)) 2 ex_board = Some s' \<and> switched_off 2 s' \<and>
     last (printed s') = (''pass!! '', 0)"
  using self_test_verdict [OF _ ex_ready [of "\<lambda>r. if r = 0x0F then 0x3B else 0xff" "0x3B" 2] ex_board_idle(2)] by simp

end
