(* ===== verification/Motion.thy ===== *)
theory Motion
  imports C_String
begin

text \<open>
  The motion sensor test of the second test suite, \<open>do_sensor_test\<close> in \<^verbatim>\<open>src/gta02-dm2/src/tests-motion.c\<close>: it reads events of two sensors in turn
  until 1000 passes are done, and judges each sensor by its samples. What \<open>select\<close> and \<open>read\<close> give in each pass is an argument.
\<close>

section \<open>The code\<close>

abbreviation (input) SAMPLES_NEEDED :: int where "SAMPLES_NEEDED \<equiv> 100"
abbreviation (input) BAD_SAMPLES_ALLOWED :: int where "BAD_SAMPLES_ALLOWED \<equiv> 2"
abbreviation (input) TOLERANCE :: int where "TOLERANCE \<equiv> 200"

record input_event =
  ev_type :: nat
  ev_code :: nat
  ev_value :: int

record sensor =
  coords :: "int list"
  fail_value :: "int list"
  seen :: int
  failed :: int

definition sensor_zero :: sensor where
  "sensor_zero = \<lparr>coords = [0, 0, 0], fail_value = [0, 0, 0], seen = 0, failed = 0\<rparr>"

text \<open>The index \<open>ev.code\<close> is not checked.\<close>

definition sensor_event :: "input_event \<Rightarrow> sensor \<Rightarrow> sensor option" where
  "sensor_event ev s =
     (if ev_type ev \<noteq> 2 then Some s
      else do {
        c \<leftarrow> wr (coords s) (ev_code ev) (ev_value ev);
        let s = s\<lparr>coords := c\<rparr>;
        if ev_code ev \<noteq> 2 then Some s
        else do {
          let s = s\<lparr>seen := seen s + 1\<rparr>;
          x \<leftarrow> rd c 0; y \<leftarrow> rd c 1; z \<leftarrow> rd c 2;
          Some (if x > TOLERANCE \<or> x < - TOLERANCE \<or> y > TOLERANCE \<or> y < - TOLERANCE \<or>
                   z > 1000 + TOLERANCE \<or> z < 1000 - TOLERANCE
                then s\<lparr>failed := failed s + 1, fail_value := c\<rparr> else s)
        }
      })"

record pass_input =
  top_rc :: int
  top_ev :: input_event
  bot_rc :: int
  bot_ev :: input_event

text \<open>
  The loop; \<open>True\<close> says that it ended. \<open>continue\<close> goes to the condition of the loop and leaves the counter as it is.
\<close>

fun motion_loop :: "pass_input list \<Rightarrow> int \<Rightarrow> sensor \<times> sensor \<Rightarrow> (bool \<times> sensor \<times> sensor) option" where
  "motion_loop [] updates st = Some (False, st)"
| "motion_loop (i # is) updates (t, b) =
     (if top_rc i \<le> 0 then if updates \<noteq> 0 then motion_loop is updates (t, b) else Some (True, t, b)
      else do {
        t \<leftarrow> sensor_event (top_ev i) t;
        if bot_rc i \<le> 0 then if updates \<noteq> 0 then motion_loop is updates (t, b) else Some (True, t, b)
        else do {
          b \<leftarrow> sensor_event (bot_ev i) b;
          let updates = updates - 1;
          if updates \<noteq> 0 then motion_loop is updates (t, b) else Some (True, t, b)
        }
      })"

abbreviation (input) NL :: string where "NL \<equiv> [CHR 0x0A]"

definition xyz_text :: "int list \<Rightarrow> string" where
  "xyz_text c = ''(X: '' @ dec_int (c ! 0) @ '', Y: '' @ dec_int (c ! 1) @ '', Z: '' @ dec_int (c ! 2) @ '')''"

definition sensor_text :: "string \<Rightarrow> string \<Rightarrow> sensor \<Rightarrow> string" where
  "sensor_text name tail s =
     (if seen s < SAMPLES_NEEDED \<or> failed s \<ge> BAD_SAMPLES_ALLOWED
      then name @ '' sensor FAIL'' @ NL @ ''    ('' @ dec_int (seen s) @ ''/'' @ dec_int SAMPLES_NEEDED @ '', '' @ dec_int (failed s) @ ''/'' @
        dec_int BAD_SAMPLES_ALLOWED @ '')'' @ NL @ ''    '' @ xyz_text (fail_value s) @ tail
      else name @ '' sensor PASS'' @ NL @ xyz_text (coords s) @ tail)"

datatype motion_result = Running | Shows string

text \<open>The text is put together in \<open>buf\<close>, which has 200 characters.\<close>

definition do_sensor_test :: "int \<Rightarrow> int \<Rightarrow> pass_input list \<Rightarrow> motion_result option" where
  "do_sensor_test fdtop fdbot is =
     (if fdtop < 0 then Some (Shows ''Top Sensor Fail'')
      else if fdbot < 0 then Some (Shows ''Bottom Sensor Fail'')
      else do {
        (ended, t, b) \<leftarrow> motion_loop is (SAMPLES_NEEDED * 10) (sensor_zero, sensor_zero);
        if \<not> ended then Some Running
        else do {
          let buf = sensor_text ''Top'' (NL @ NL) t @ sensor_text ''Bot'' NL b;
          if length buf < 200 then Some (Shows buf) else None
        }
      })"

section \<open>The samples\<close>

text \<open>The reference: a sample is the three coordinates known when the third one arrives.\<close>

fun samples :: "int list \<Rightarrow> input_event list \<Rightarrow> int list list" where
  "samples c [] = []"
| "samples c (e # es) =
     (if ev_type e \<noteq> 2 then samples c es
      else let c = c[ev_code e := ev_value e] in (if ev_code e = 2 then [c] else []) @ samples c es)"

definition bad_sample :: "int list \<Rightarrow> bool" where
  "bad_sample c \<longleftrightarrow> \<bar>c ! 0\<bar> > 200 \<or> \<bar>c ! 1\<bar> > 200 \<or> \<bar>c ! 2 - 1000\<bar> > 200"

definition top_read :: "pass_input list \<Rightarrow> input_event list" where
  "top_read is = map top_ev (filter (\<lambda>i. top_rc i > 0) is)"

definition bot_read :: "pass_input list \<Rightarrow> input_event list" where
  "bot_read is = map bot_ev (filter (\<lambda>i. top_rc i > 0 \<and> bot_rc i > 0) is)"

definition counts :: "sensor \<Rightarrow> input_event list \<Rightarrow> sensor \<Rightarrow> bool" where
  "counts s es s' \<longleftrightarrow> length (coords s') = length (coords s) \<and>
     seen s' = seen s + int (length (samples (coords s) es)) \<and>
     failed s' = failed s + int (length (filter bad_sample (samples (coords s) es))) \<and>
     (\<forall>es'. samples (coords s) (es @ es') = samples (coords s) es @ samples (coords s') es')"

lemma counts_nil [simp]: "counts s [] s"
  by (simp add: counts_def)

lemma counts_trans: "counts s es s' \<Longrightarrow> counts s' es' s'' \<Longrightarrow> counts s (es @ es') s''"
  by (auto simp: counts_def)

text \<open>The effect of an event, with the reference's notion of a bad sample.\<close>

lemma sensor_event_eq:
  assumes "length (coords s) = 3" "ev_type e = 2"
  defines "c \<equiv> (coords s)[ev_code e := ev_value e]"
  shows "sensor_event e s = (if 3 \<le> ev_code e then None
    else Some (if ev_code e \<noteq> 2 then s\<lparr>coords := c\<rparr>
      else if bad_sample c then s\<lparr>coords := c, seen := seen s + 1, failed := failed s + 1, fail_value := c\<rparr>
      else s\<lparr>coords := c, seen := seen s + 1\<rparr>))"
proof -
  have w: "wr (coords s) (ev_code e) (ev_value e) = (if 3 \<le> ev_code e then None else Some c)"
    using assms(1) by (simp add: wr_def c_def)
  have r: "rd c 0 = Some (c ! 0)" "rd c 1 = Some (c ! 1)" "rd c 2 = Some (c ! 2)" using assms(1) by (simp_all add: rd_def c_def)
  have b: "bad_sample c \<longleftrightarrow> c ! 0 > 200 \<or> c ! 0 < - 200 \<or> c ! 1 > 200 \<or> c ! 1 < - 200 \<or> c ! 2 > 1000 + 200 \<or> c ! 2 < 1000 - 200"
    unfolding bad_sample_def by (simp only: abs_if) (auto split: if_splits)
  show ?thesis unfolding b using assms(2) w r by (simp add: sensor_event_def del: One_nat_def)
qed

lemma event_counts:
  assumes "sensor_event e s = Some s'" "length (coords s) = 3"
  shows "counts s [e] s'"
proof (cases "ev_type e = 2")
  case True
  then show ?thesis
    using assms sensor_event_eq [OF assms(2) True] by (auto simp: counts_def Let_def split: if_splits)
next
  case False
  then show ?thesis using assms(1) by (auto simp: sensor_event_def counts_def)
qed

lemma motion_loop_counts:
  assumes "motion_loop is n (t, b) = Some (True, t', b')" "length (coords t) = 3" "length (coords b) = 3" "0 < n"
  shows "\<exists>pre post. is = pre @ post \<and> int (length (bot_read pre)) = n \<and> counts t (top_read pre) t' \<and> counts b (bot_read pre) b'"
  using assms
proof (induction "is" arbitrary: n t b)
  case (Cons i "is")
  let ?C = "\<lambda>n t b is. \<exists>pre post. is = pre @ post \<and> int (length (bot_read pre)) = n \<and> counts t (top_read pre) t' \<and> counts b (bot_read pre) b'"
  show ?case
  proof (cases "top_rc i \<le> 0")
    case True
    then have "?C n t b is" using Cons.prems by (intro Cons.IH) auto
    then obtain pre post where p: "is = pre @ post" "int (length (bot_read pre)) = n" "counts t (top_read pre) t'" "counts b (bot_read pre) b'"
      by blast
    moreover have "top_read (i # pre) = top_read pre" "bot_read (i # pre) = bot_read pre" using True by (simp_all add: top_read_def bot_read_def)
    ultimately show ?thesis by (intro exI [of _ "i # pre"] exI [of _ post]) simp
  next
    case top: False
    then obtain t1 where t1: "sensor_event (top_ev i) t = Some t1" using Cons.prems(1) by (auto split: bind_splits)
    note ct = event_counts [OF t1 Cons.prems(2)]
    then have l1: "length (coords t1) = 3" using Cons.prems(2) by (simp add: counts_def)
    have tr: "top_read (i # pre) = top_ev i # top_read pre" for pre using top by (simp add: top_read_def)
    show ?thesis
    proof (cases "bot_rc i \<le> 0")
      case True
      then have "?C n t1 b is" using Cons.prems top t1 l1 by (intro Cons.IH) auto
      then obtain pre post where p: "is = pre @ post" "int (length (bot_read pre)) = n" "counts t1 (top_read pre) t'" "counts b (bot_read pre) b'"
        by blast
      moreover have "bot_read (i # pre) = bot_read pre" using True by (simp add: bot_read_def)
      ultimately show ?thesis using counts_trans [OF ct p(3)] tr by (intro exI [of _ "i # pre"] exI [of _ post]) simp
    next
      case False
      then obtain b1 where b1: "sensor_event (bot_ev i) b = Some b1" using Cons.prems(1) top t1 by (auto split: bind_splits)
      note cb = event_counts [OF b1 Cons.prems(3)]
      then have l2: "length (coords b1) = 3" using Cons.prems(3) by (simp add: counts_def)
      have br: "bot_read (i # pre) = bot_ev i # bot_read pre" for pre using top False by (simp add: bot_read_def)
      show ?thesis
      proof (cases "n = 1")
        case True
        then have "t' = t1" "b' = b1" using Cons.prems(1) top False t1 b1 by simp_all
        then show ?thesis using ct cb tr br [of "[]"] tr [of "[]"] True
          by (intro exI [of _ "[i]"] exI [of _ "is"]) (simp add: top_read_def bot_read_def)
      next
        case n: False
        then have "?C (n - 1) t1 b1 is" using Cons.prems top False t1 b1 l1 l2 by (intro Cons.IH) auto
        then obtain pre post where p: "is = pre @ post" "int (length (bot_read pre)) = n - 1" "counts t1 (top_read pre) t'"
            "counts b1 (bot_read pre) b'"
          by blast
        then show ?thesis using counts_trans [OF ct p(3)] counts_trans [OF cb p(4)] tr br
          by (intro exI [of _ "i # pre"] exI [of _ post]) simp
      qed
    qed
  qed
qed simp

section \<open>The result\<close>

definition passes :: "input_event list \<Rightarrow> bool" where
  "passes es \<longleftrightarrow> (let S = samples [0, 0, 0] es in 100 \<le> length S \<and> length (filter bad_sample S) < 2)"

lemma text_verdict:
  assumes "counts sensor_zero es s" "length name = 3"
  shows "take 15 (sensor_text name tail s) = name @ '' sensor PASS'' \<longleftrightarrow> passes es"
proof -
  have "passes es \<longleftrightarrow> \<not> (seen s < 100 \<or> failed s \<ge> 2)"
    using assms(1) by (auto simp: passes_def counts_def sensor_zero_def Let_def)
  then show ?thesis using assms(2) by (auto simp: sensor_text_def)
qed

lemma zero_coords [simp]: "length (coords sensor_zero) = 3"
  by (simp add: sensor_zero_def)


section \<open>Whether it ends\<close>

text \<open>Events as the driver sends them: three axes, and values of 32 bits.\<close>

definition event_ok :: "input_event \<Rightarrow> bool" where
  "event_ok e \<longleftrightarrow> (ev_type e = 2 \<longrightarrow> ev_code e < 3) \<and> - (2 ^ 31) \<le> ev_value e \<and> ev_value e < 2 ^ 31"

definition triple_ok :: "int list \<Rightarrow> bool" where
  "triple_ok c \<longleftrightarrow> length c = 3 \<and> (\<forall>v \<in> set c. - (2 ^ 31) \<le> v \<and> v < 2 ^ 31)"

definition sensor_ok :: "sensor \<Rightarrow> bool" where
  "sensor_ok s \<longleftrightarrow> triple_ok (coords s) \<and> triple_ok (fail_value s)"

lemma event_runs:
  assumes "event_ok e" "sensor_ok s"
  shows "\<exists>s'. sensor_event e s = Some s' \<and> sensor_ok s'"
proof (cases "ev_type e = 2")
  case True
  have l: "length (coords s) = 3" using assms(2) by (simp add: sensor_ok_def triple_ok_def)
  have "triple_ok ((coords s)[ev_code e := ev_value e])"
    using assms set_update_subset_insert [of "coords s" "ev_code e" "ev_value e"] by (force simp: sensor_ok_def triple_ok_def event_ok_def)
  then show ?thesis using assms True sensor_event_eq [OF l True] by (auto simp: sensor_ok_def event_ok_def)
qed (use assms in \<open>simp add: sensor_event_def\<close>)

lemma motion_loop_runs:
  assumes "\<forall>i \<in> set is. event_ok (top_ev i) \<and> event_ok (bot_ev i)" "sensor_ok t" "sensor_ok b" "0 < n"
  shows "\<exists>t' b'. motion_loop is n (t, b) = Some (n \<le> int (length (bot_read is)), t', b') \<and> sensor_ok t' \<and> sensor_ok b'"
  using assms
proof (induction "is" arbitrary: n t b)
  case (Cons i "is")
  obtain t1 where t1: "sensor_event (top_ev i) t = Some t1" "sensor_ok t1" using event_runs [of "top_ev i" t] Cons.prems by auto
  obtain b1 where b1: "sensor_event (bot_ev i) b = Some b1" "sensor_ok b1" using event_runs [of "bot_ev i" b] Cons.prems by auto
  have br: "bot_read (i # is) = (if top_rc i > 0 \<and> bot_rc i > 0 then [bot_ev i] else []) @ bot_read is" by (simp add: bot_read_def)
  consider "top_rc i \<le> 0" | "top_rc i > 0" "bot_rc i \<le> 0" | "top_rc i > 0" "bot_rc i > 0" "n = 1" | "top_rc i > 0" "bot_rc i > 0" "n > 1"
    using Cons.prems(4) by linarith
  then show ?case
  proof cases
    case 1
    then show ?thesis using Cons.IH [of t b n] Cons.prems br by auto
  next
    case 2
    then show ?thesis using Cons.IH [of t1 b n] Cons.prems br t1 by auto
  next
    case 3
    then show ?thesis using br t1 b1 by simp
  next
    case 4
    then have "\<exists>t' b'. motion_loop is (n - 1) (t1, b1) = Some (n - 1 \<le> int (length (bot_read is)), t', b') \<and> sensor_ok t' \<and> sensor_ok b'"
      using Cons.prems t1 b1 by (intro Cons.IH) auto
    then show ?thesis using 4 br t1 b1 by (auto simp: algebra_simps)
  qed
qed (simp add: bot_read_def)

lemma dec_int_length:
  assumes "\<bar>k\<bar> < 10 ^ m" "0 < m"
  shows "length (dec_int k) \<le> (if k < 0 then Suc m else m)"
proof -
  have "nat \<bar>k\<bar> < 10 ^ m" using assms(1) by (simp add: nat_less_iff)
  then show ?thesis using dec_nat_length [OF _ assms(2), of "nat \<bar>k\<bar>"] by (auto simp: dec_int_def)
qed

lemma xyz_length:
  assumes "triple_ok c"
  shows "length (xyz_text c) \<le> 48"
proof -
  have "length (dec_int (c ! i)) \<le> 11" if "i < 3" for i
  proof -
    have "c ! i \<in> set c" using assms that by (simp add: triple_ok_def)
    then have "\<bar>c ! i\<bar> < 10 ^ 10" using assms by (fastforce simp: triple_ok_def)
    from dec_int_length [OF this] show ?thesis by (simp split: if_splits)
  qed
  from this [of 0] this [of 1] this [of 2] show ?thesis by (simp add: xyz_text_def)
qed

lemma text_length:
  assumes "sensor_ok s" "length name = 3" "0 \<le> seen s" "seen s < 10 ^ m" "0 \<le> failed s" "failed s < 10 ^ m" "0 < m"
  shows "length (sensor_text name tail s) \<le> 83 + 2 * m + length tail"
proof -
  have c: "length (xyz_text (coords s)) \<le> 48" "length (xyz_text (fail_value s)) \<le> 48" using assms(1) xyz_length by (auto simp: sensor_ok_def)
  have "length (dec_int (seen s)) \<le> m" "length (dec_int (failed s)) \<le> m"
    using dec_int_length [of "seen s" m] dec_int_length [of "failed s" m] assms by auto
  moreover have "length (dec_int 100) = 3" "length (dec_int 2) = 1" by (simp_all add: dec_int_def dec_nat.simps)
  ultimately show ?thesis using c assms(2) by (simp add: sensor_text_def)
qed

lemma samples_length: "length (samples c es) \<le> length es"
proof (induction es arbitrary: c)
  case (Cons e es)
  then show ?case using Cons.IH [of c] Cons.IH [of "c[ev_code e := ev_value e]"] by (auto simp: Let_def le_SucI)
qed simp

lemma counts_bounds:
  assumes "counts sensor_zero es s" "length es \<le> n"
  shows "0 \<le> seen s" "seen s \<le> int n" "0 \<le> failed s" "failed s \<le> int n"
proof -
  let ?S = "samples (coords sensor_zero) es"
  have "seen s = int (length ?S)" "failed s = int (length (filter bad_sample ?S))" using assms(1) by (simp_all add: counts_def sensor_zero_def)
  moreover have "length ?S \<le> n" using samples_length [of "coords sensor_zero" es] assms(2) by simp
  moreover have "length (filter bad_sample ?S) \<le> length ?S" by simp
  ultimately show "0 \<le> seen s" "seen s \<le> int n" "0 \<le> failed s" "failed s \<le> int n" by linarith+
qed

lemma test_ends:
  assumes "\<forall>i \<in> set is. event_ok (top_ev i) \<and> event_ok (bot_ev i)" "length is < 2 ^ 31" "0 \<le> fdtop" "0 \<le> fdbot"
  shows "\<exists>text. do_sensor_test fdtop fdbot is = Some (if length (bot_read is) < 1000 then Running else Shows text)"
proof -
  have z: "sensor_ok sensor_zero" by (simp add: sensor_ok_def triple_ok_def sensor_zero_def)
  obtain t b where m: "motion_loop is 1000 (sensor_zero, sensor_zero) = Some (1000 \<le> int (length (bot_read is)), t, b)" "sensor_ok t" "sensor_ok b"
    using motion_loop_runs [OF assms(1) z z, of 1000] by auto
  show ?thesis
  proof (cases "length (bot_read is) < 1000")
    case True
    then show ?thesis using assms(3,4) m(1) by (simp add: do_sensor_test_def)
  next
    case False
    then have e: "motion_loop is 1000 (sensor_zero, sensor_zero) = Some (True, t, b)" using m(1) by simp
    obtain pre post where p: "is = pre @ post" "length (bot_read pre) = 1000" "counts sensor_zero (top_read pre) t"
        "counts sensor_zero (bot_read pre) b"
      using motion_loop_counts [OF e] by auto
    have "length (top_read pre) \<le> length is" by (simp add: p(1) top_read_def le_trans [OF length_filter_le])
    note ct = counts_bounds [OF p(3) this] and cb = counts_bounds [OF p(4), of 1000]
    have "length (sensor_text ''Top'' (NL @ NL) t) \<le> 83 + 2 * 10 + length (NL @ NL)"
      using ct assms(2) by (intro text_length m(2)) auto
    moreover have "length (sensor_text ''Bot'' NL b) \<le> 83 + 2 * 4 + length NL"
      using cb p(2) by (intro text_length m(3)) auto
    ultimately have "length (sensor_text ''Top'' (NL @ NL) t @ sensor_text ''Bot'' NL b) < 200" by simp
    then show ?thesis using assms(3,4) e False by (simp add: do_sensor_test_def Let_def)
  qed
qed

text \<open>C24: The test ends when, and only when, 1000 passes have read both sensors: with one silent sensor it runs for ever. Its text always fits into
  the buffer, and with events of three axes nothing undefined happens.
\<close>

theorem motion_test_ends:
  assumes "\<forall>i \<in> set is. event_ok (top_ev i) \<and> event_ok (bot_ev i)" "length is < 2 ^ 31" "0 \<le> fdtop" "0 \<le> fdbot"
  shows "\<exists>text. do_sensor_test fdtop fdbot is = Some (if length (bot_read is) < 1000 then Running else Shows text)"
  by (rule test_ends [OF assms])

text \<open>A phone that lies still, and one whose lower sensor is silent.\<close>

definition ex_pass :: "int \<Rightarrow> pass_input" where
  "ex_pass rc = \<lparr>top_rc = 1, top_ev = \<lparr>ev_type = 2, ev_code = 2, ev_value = 1000\<rparr>, bot_rc = rc,
     bot_ev = \<lparr>ev_type = 2, ev_code = 2, ev_value = 1000\<rparr>\<rparr>"

theorem motion_test_ends_witness:
  "(\<exists>text. do_sensor_test 3 4 (replicate 1000 (ex_pass 1)) = Some (Shows text)) \<and>
   do_sensor_test 3 4 (replicate 5000 (ex_pass 0)) = Some Running"
  using motion_test_ends [of "replicate 1000 (ex_pass 1)" 3 4] motion_test_ends [of "replicate 5000 (ex_pass 0)" 3 4]
  by (simp add: ex_pass_def event_ok_def bot_read_def)

lemma ex_passes: "passes (replicate 1000 (bot_ev (ex_pass 1)))"
proof -
  have "samples [0, 0, 1000] (replicate n (bot_ev (ex_pass 1))) = replicate n [0, 0, 1000]" for n
    by (induction n) (simp_all add: ex_pass_def Let_def)
  then have "samples [0, 0, 0] (replicate (Suc n) (bot_ev (ex_pass 1))) = replicate (Suc n) [0, 0, 1000]" for n
    by (simp add: ex_pass_def Let_def)
  from this [of 999] have "samples [0, 0, 0] (replicate 1000 (bot_ev (ex_pass 1))) = replicate 1000 [0, 0, 1000]" by simp
  then show ?thesis by (simp add: passes_def bad_sample_def)
qed


end
