(* ===== verification/Oltk_Draw.thy ===== *)
theory Oltk_Draw
  imports C_String
begin

text \<open>
  The drawing half of the toolkit of the second suite, \<^verbatim>\<open>gta02-dm2/src/oltk/oltk.c\<close> (lines, rectangles, characters) on the frame buffer of
  \<^verbatim>\<open>gr.h\<close>, and the colours of \<^verbatim>\<open>gr_fb.c\<close>. A frame buffer is the list of its octets. What an operation does to the screen is a
  picture, the map of the pixels it writes: \<open>paints\<close> says that an operation ends inside the frame buffer and has that effect.
\<close>

section \<open>The code\<close>

record gr =
  gr_width :: int
  gr_height :: int
  gr_pitch :: int
  gr_bpp :: int
  gr_fb :: "u8 list"

text \<open>The octets that one store of a pixel writes.\<close>

definition pixel_bytes :: "int \<Rightarrow> u32 \<Rightarrow> u8 list" where
  "pixel_bytes bpp p = map (\<lambda>k. ucast (drop_bit (8 * k) p)) [0..<nat bpp]"

definition hline_put :: "gr \<Rightarrow> int \<Rightarrow> int \<Rightarrow> u32 \<Rightarrow> u32 \<Rightarrow> gr option" where
  "hline_put g x y width pixel = do {
     a \<leftarrow> ck_int (gr_pitch g * y);
     b \<leftarrow> ck_int (gr_bpp g * x);
     if a + b < 0 then None
     else if pixel = 0 \<or> gr_bpp g = 1 then
       map_option (\<lambda>fb. g\<lparr>gr_fb := fb\<rparr>) (wrn (gr_fb g) (nat (a + b)) (replicate (unat (word_of_int (gr_bpp g) * width)) (ucast pixel)))
     else if gr_bpp g = 2 \<or> gr_bpp g = 4 then
       map_option (\<lambda>fb. g\<lparr>gr_fb := fb\<rparr>) (wrn (gr_fb g) (nat (a + b)) (concat (replicate (unat width) (pixel_bytes (gr_bpp g) pixel))))
     else Some g
   }"

definition hline :: "gr \<Rightarrow> int \<Rightarrow> int \<Rightarrow> u32 \<Rightarrow> u32 \<Rightarrow> gr option" where
  "hline g x y width pixel =
     (if y < 0 \<or> y \<ge> gr_height g \<or> x \<ge> gr_width g then Some g
      else if x < 0 \<and> word_of_int x + width \<le> 0 then Some g
      else
        let (x, width) = (if x < 0 then (0, width + word_of_int x) else (x, width));
            width = (if word_of_int x + width \<ge> word_of_int (gr_width g) then word_of_int (gr_width g - x) else width)
        in hline_put g x y width pixel)"

fun fill_rows :: "gr \<Rightarrow> int \<Rightarrow> int \<Rightarrow> u32 \<Rightarrow> u32 \<Rightarrow> int \<Rightarrow> nat \<Rightarrow> gr option" where
  "fill_rows g x y width color i 0 = Some g"
| "fill_rows g x y width color i (Suc n) = do {
     row \<leftarrow> ck_int (y + i);
     g \<leftarrow> hline g x row width color;
     i \<leftarrow> ck_int (i + 1);
     fill_rows g x y width color i n
   }"

definition fill_rectangle :: "gr \<Rightarrow> int \<Rightarrow> int \<Rightarrow> u32 \<Rightarrow> u32 \<Rightarrow> u32 \<Rightarrow> gr option" where
  "fill_rectangle g x y width height color = fill_rows g x y width color 0 (unat height)"

definition draw_point :: "gr \<Rightarrow> int \<Rightarrow> int \<Rightarrow> u32 \<Rightarrow> gr option" where
  "draw_point g x y color = hline g x y 1 color"

text \<open>
  The loop of a line that is not horizontal. It exists twice, along \<open>y\<close> and along \<open>x\<close>; \<open>m\<close> is the coordinate that grows in every pass, \<open>dm\<close> its extent,
  \<open>n\<close> the other one.
\<close>

function line_loop :: "(gr \<Rightarrow> int \<Rightarrow> int \<Rightarrow> gr option) \<Rightarrow> int \<Rightarrow> int \<Rightarrow> int \<Rightarrow> int \<Rightarrow> gr \<Rightarrow> int \<Rightarrow> int \<Rightarrow> int \<Rightarrow> gr option" where
  "line_loop draw dm dn step end_m g m n tmp =
     (if m \<le> end_m then do {
        g \<leftarrow> draw g m n;
        tmp \<leftarrow> ck_int (tmp + dn);
        n' \<leftarrow> (if tmp > dm then ck_int (n + step) else Some n);
        m' \<leftarrow> ck_int (m + 1);
        line_loop draw dm dn step end_m g m' n' (if tmp > dm then tmp - dm else tmp)
      } else Some g)"
  by pat_completeness auto
termination by (relation "measure (\<lambda>(_, _, _, _, e, _, m, _, _). nat (e + 1 - m))") (auto simp: ck_int_eq_Some)

declare line_loop.simps [simp del]

definition SIGN :: "int \<Rightarrow> int" where
  "SIGN x = (if x \<ge> 0 then 1 else - 1)"

definition draw_line :: "gr \<Rightarrow> int \<Rightarrow> int \<Rightarrow> int \<Rightarrow> int \<Rightarrow> u32 \<Rightarrow> gr option" where
  "draw_line g x1 y1 x2 y2 color = do {
     dx \<leftarrow> ck_int (x2 - x1);
     dy \<leftarrow> ck_int (y2 - y1);
     let step = SIGN dx * SIGN dy;
     dx \<leftarrow> ck_int (dx * SIGN dx);
     dy \<leftarrow> ck_int (dy * SIGN dy);
     if dy = 0 then do {
       n \<leftarrow> ck_int (dx + 1);
       hline g (if x1 < x2 then x1 else x2) y1 (word_of_int n) color
     }
     else if dx < dy then
       (let (x1, y1, x2, y2) = (if y1 > y2 then (x2, y2, x1, y1) else (x1, y1, x2, y2)) in line_loop (\<lambda>g y x. draw_point g x y color) dy dx step y2 g y1 x1 0)
     else
       (let (x1, y1, x2, y2) = (if x1 > x2 then (x2, y2, x1, y1) else (x1, y1, x2, y2)) in line_loop (\<lambda>g x y. draw_point g x y color) dx dy step x2 g x1 y1 0)
   }"

definition draw_rectangle :: "gr \<Rightarrow> int \<Rightarrow> int \<Rightarrow> int \<Rightarrow> int \<Rightarrow> bool \<Rightarrow> u32 \<Rightarrow> gr option" where
  "draw_rectangle g x y width height fill color =
     (if fill then fill_rectangle g x y (word_of_int width) (word_of_int height) color
      else do {
        width \<leftarrow> ck_int (width - 1);
        height \<leftarrow> ck_int (height - 1);
        r \<leftarrow> ck_int (x + width);
        b \<leftarrow> ck_int (y + height);
        g \<leftarrow> draw_line g x y r y color;
        g \<leftarrow> draw_line g x b r b color;
        g \<leftarrow> draw_line g x y x b color;
        draw_line g r y r b color
      })"

text \<open>
  The characters: the table of the font is an argument (in \<^verbatim>\<open>font_8x13.c\<close> it has 128 characters of 13 rows, one octet each). \<open>char\<close> is unsigned on the
  target; a character behind the table is an access outside of it.
\<close>

record font =
  font_width :: nat
  font_height :: nat
  font_data :: "u8 list"
  font_pitch :: nat

text \<open>The bits of one octet of a row; \<open>line\<close> is an \<open>int\<close> that is shifted to the left at most 8 times.\<close>

fun char_bits :: "gr \<Rightarrow> int \<Rightarrow> int \<Rightarrow> u32 \<Rightarrow> u32 \<Rightarrow> nat \<Rightarrow> gr option" where
  "char_bits g x y color line 0 = Some g"
| "char_bits g x y color line (Suc n) = do {
     g \<leftarrow> (if line AND 0x80 \<noteq> 0 then draw_point g x y color else Some g);
     x \<leftarrow> ck_int (x + 1);
     char_bits g x y color (push_bit 1 line) n
   }"

fun char_cols :: "font \<Rightarrow> gr \<Rightarrow> int \<Rightarrow> int \<Rightarrow> char \<Rightarrow> u32 \<Rightarrow> nat \<Rightarrow> nat list \<Rightarrow> gr option" where
  "char_cols f g x y c color i [] = Some g"
| "char_cols f g x y c color i (j # js) = do {
     line \<leftarrow> rd (font_data f) ((font_height f * char_code c + i) * font_pitch f + j);
     g \<leftarrow> char_bits g (x + 8 * int j) (y + int i) color (ucast line) (if j = font_pitch f - 1 then font_width f - 8 * j else 8);
     char_cols f g x y c color i js
   }"

fun char_rows :: "font \<Rightarrow> gr \<Rightarrow> int \<Rightarrow> int \<Rightarrow> char \<Rightarrow> u32 \<Rightarrow> nat list \<Rightarrow> gr option" where
  "char_rows f g x y c color [] = Some g"
| "char_rows f g x y c color (i # is) = do {
     g \<leftarrow> char_cols f g x y c color i [0..<font_pitch f];
     char_rows f g x y c color is
   }"

definition draw_char :: "font \<Rightarrow> gr \<Rightarrow> int \<Rightarrow> int \<Rightarrow> char \<Rightarrow> u32 \<Rightarrow> gr option" where
  "draw_char f g x y c color = char_rows f g x y c color [0..<font_height f]"

fun draw_string :: "font \<Rightarrow> gr \<Rightarrow> string \<Rightarrow> int \<Rightarrow> int \<Rightarrow> u32 \<Rightarrow> gr option" where
  "draw_string f g [] x y color = Some g"
| "draw_string f g (c # s) x y color = do {
     g \<leftarrow> draw_char f g x y c color;
     x \<leftarrow> ck_int (x + int (font_width f));
     draw_string f g s x y color
   }"

definition string_extents :: "font \<Rightarrow> string \<Rightarrow> int \<times> int" where
  "string_extents f s = (int (length s * font_width f), int (font_height f))"

definition put_string_center :: "font \<Rightarrow> gr \<Rightarrow> int \<Rightarrow> int \<Rightarrow> string \<Rightarrow> u32 \<Rightarrow> gr option" where
  "put_string_center f g x y s color =
     (let (w, h) = string_extents f s
      in do { x \<leftarrow> ck_int (x - w sdiv 2); y \<leftarrow> ck_int (y - h sdiv 2); draw_string f g s x y color })"


section \<open>Pictures\<close>

type_synonym picture = "int \<times> int \<Rightarrow> u8 list option"

definition pixel :: "gr \<Rightarrow> int \<times> int \<Rightarrow> u8 list" where
  "pixel g = (\<lambda>(x, y). map (\<lambda>k. gr_fb g ! (nat (gr_pitch g * y + gr_bpp g * x) + k)) [0..<nat (gr_bpp g)])"

definition area :: "gr \<Rightarrow> (int \<times> int) set" where
  "area g = {(x, y). 0 \<le> x \<and> x < gr_width g \<and> 0 \<le> y \<and> y < gr_height g}"

definition gr_ok :: "gr \<Rightarrow> bool" where
  "gr_ok g \<longleftrightarrow> gr_bpp g \<in> {1, 2, 4} \<and> 0 < gr_width g \<and> gr_width g < 32768 \<and> 0 < gr_height g \<and> gr_height g < 32768 \<and>
     gr_bpp g * gr_width g \<le> gr_pitch g \<and> gr_pitch g * gr_height g < 2147483648 \<and> gr_pitch g * gr_height g \<le> int (length (gr_fb g))"

text \<open>The same frame buffer with other pixels.\<close>

definition gr_like :: "gr \<Rightarrow> gr \<Rightarrow> bool" where
  "gr_like g g' \<longleftrightarrow> g'\<lparr>gr_fb := gr_fb g\<rparr> = g \<and> length (gr_fb g') = length (gr_fb g)"

definition paints :: "gr \<Rightarrow> (gr \<Rightarrow> gr option) \<Rightarrow> picture \<Rightarrow> bool" where
  "paints g0 f m \<longleftrightarrow> (\<forall>g. gr_like g0 g \<longrightarrow> (\<exists>g'. f g = Some g' \<and> gr_like g0 g' \<and>
     (\<forall>p \<in> area g0. pixel g' p = (case m p of Some v \<Rightarrow> v | None \<Rightarrow> pixel g p))))"

lemma gr_like_refl: "gr_like g g"
  by (simp add: gr_like_def)

lemma gr_like_same:
  assumes "gr_like g g'"
  shows "gr_width g' = gr_width g" "gr_height g' = gr_height g" "gr_pitch g' = gr_pitch g" "gr_bpp g' = gr_bpp g"
    "length (gr_fb g') = length (gr_fb g)" "area g' = area g" "gr_ok g' = gr_ok g"
proof -
  have "g'\<lparr>gr_fb := gr_fb g\<rparr> = g" using assms by (simp add: gr_like_def)
  then show l: "gr_width g' = gr_width g" "gr_height g' = gr_height g" "gr_pitch g' = gr_pitch g" "gr_bpp g' = gr_bpp g"
    by (metis gr.select_convs(1-4) gr.surjective gr.update_convs(5))+
  show n: "length (gr_fb g') = length (gr_fb g)" using assms by (simp add: gr_like_def)
  show "area g' = area g" by (simp add: area_def l)
  show "gr_ok g' = gr_ok g" by (simp add: gr_ok_def l n)
qed

lemma paintsD:
  assumes "paints g0 f m" "gr_like g0 g"
  obtains g' where "f g = Some g'" "gr_like g0 g'" "\<And>p. p \<in> area g0 \<Longrightarrow> pixel g' p = (case m p of Some v \<Rightarrow> v | None \<Rightarrow> pixel g p)"
  using assms unfolding paints_def by blast

lemma paints_empty: "paints g0 Some Map.empty"
  by (simp add: paints_def)

lemma paints_seq:
  assumes "paints g0 f m" "paints g0 h n"
  shows "paints g0 (\<lambda>g. Option.bind (f g) h) (m ++ n)"
  unfolding paints_def
proof (intro allI impI)
  fix g
  assume "gr_like g0 g"
  from paintsD [OF assms(1) this] obtain g1 where 1: "f g = Some g1" "gr_like g0 g1"
    "\<And>p. p \<in> area g0 \<Longrightarrow> pixel g1 p = (case m p of Some v \<Rightarrow> v | None \<Rightarrow> pixel g p)" by metis
  from paintsD [OF assms(2) 1(2)] obtain g2 where 2: "h g1 = Some g2" "gr_like g0 g2"
    "\<And>p. p \<in> area g0 \<Longrightarrow> pixel g2 p = (case n p of Some v \<Rightarrow> v | None \<Rightarrow> pixel g1 p)" by metis
  show "\<exists>g'. Option.bind (f g) h = Some g' \<and> gr_like g0 g' \<and>
      (\<forall>p\<in>area g0. pixel g' p = (case (m ++ n) p of Some v \<Rightarrow> v | None \<Rightarrow> pixel g p))"
    using 1 2 by (auto simp: map_add_def split: option.splits)
qed

text \<open>Only the pixels of the screen count.\<close>

lemma paints_cong:
  assumes "paints g0 f m" "\<And>p. p \<in> area g0 \<Longrightarrow> m p = n p"
  shows "paints g0 f n"
  using assms unfolding paints_def by simp

text \<open>A set of pixels in one colour.\<close>

definition ink :: "(int \<times> int) set \<Rightarrow> u8 list \<Rightarrow> picture" where
  "ink A v = (\<lambda>p. if p \<in> A then Some v else None)"

lemma ink_empty [simp]: "ink {} v = Map.empty"
  by (simp add: ink_def)

lemma ink_un: "ink A v ++ ink B v = ink (A \<union> B) v"
  by (auto simp: ink_def map_add_def fun_eq_iff)

lemma paints_ink_seq: "paints g0 f (ink A v) \<Longrightarrow> paints g0 h (ink B v) \<Longrightarrow> paints g0 (\<lambda>g. Option.bind (f g) h) (ink (A \<union> B) v)"
  using paints_seq by (metis ink_un)

lemma paints_ink_cong: "paints g0 f (ink A v) \<Longrightarrow> A \<inter> area g0 = B \<inter> area g0 \<Longrightarrow> paints g0 f (ink B v)"
proof (erule paints_cong)
  fix p
  assume "A \<inter> area g0 = B \<inter> area g0" "p \<in> area g0"
  then have "p \<in> A \<longleftrightarrow> p \<in> B" by blast
  then show "ink A v p = ink B v p" by (simp add: ink_def)
qed

lemma paints_inkE:
  assumes "paints g f (ink A v)"
  obtains g' where "f g = Some g'" "gr_like g g'" "\<forall>p \<in> area g. pixel g' p = (if p \<in> A then v else pixel g p)"
proof -
  obtain g' where g': "f g = Some g'" "gr_like g g'" "\<And>p. p \<in> area g \<Longrightarrow> pixel g' p = (case ink A v p of Some v \<Rightarrow> v | None \<Rightarrow> pixel g p)"
    using paintsD [OF assms gr_like_refl] by metis
  have "pixel g' p = (if p \<in> A then v else pixel g p)" if "p \<in> area g" for p using g'(3) [OF that] by (simp add: ink_def)
  then show thesis using that g'(1,2) by blast
qed

section \<open>Rows\<close>

lemma concat_replicate_nth:
  "k < w \<Longrightarrow> j < length xs \<Longrightarrow> concat (replicate w xs) ! (length xs * k + j) = xs ! j"
proof (induction w arbitrary: k)
  case (Suc w)
  then show ?case
    by (cases k) (simp_all add: nth_append algebra_simps)
qed simp

lemma wrn_nth:
  assumes "wrn xs i ys = Some zs" "k < length xs"
  shows "zs ! k = (if i \<le> k \<and> k < i + length ys then ys ! (k - i) else xs ! k)"
  using assms by (auto simp: wrn_def nth_append min_def split: if_splits)

text \<open>The octets of a run of pixels in both ways of writing them.\<close>

definition run_bytes :: "gr \<Rightarrow> u32 \<Rightarrow> nat \<Rightarrow> u8 list \<Rightarrow> bool" where
  "run_bytes g c w bs \<longleftrightarrow> length bs = nat (gr_bpp g) * w \<and>
     (\<forall>k < w. \<forall>j < nat (gr_bpp g). bs ! (nat (gr_bpp g) * k + j) = pixel_bytes (gr_bpp g) c ! j)"

lemma run_bytes_zero: "gr_bpp g \<in> {1, 2, 4} \<Longrightarrow> c = 0 \<or> gr_bpp g = 1 \<Longrightarrow> run_bytes g c w (replicate (nat (gr_bpp g) * w) (ucast c))"
proof -
  assume b: "gr_bpp g \<in> {1, 2, 4}" and c: "c = 0 \<or> gr_bpp g = 1"
  have "nat (gr_bpp g) * k + j < nat (gr_bpp g) * w" if "k < w" "j < nat (gr_bpp g)" for k j
  proof -
    have "nat (gr_bpp g) * k + j < nat (gr_bpp g) * Suc k" using that(2) by simp
    also have "\<dots> \<le> nat (gr_bpp g) * w" using that(1) by (intro mult_le_mono2) simp
    finally show ?thesis .
  qed
  then show ?thesis using b c by (auto simp: run_bytes_def pixel_bytes_def)
qed

lemma run_bytes_concat: "gr_bpp g \<in> {1, 2, 4} \<Longrightarrow> run_bytes g c w (concat (replicate w (pixel_bytes (gr_bpp g) c)))"
  using concat_replicate_nth [of _ w _ "pixel_bytes (gr_bpp g) c"]
  by (auto simp: run_bytes_def length_concat sum_list_replicate pixel_bytes_def)

lemma px_off:
  assumes "gr_ok g" "(x, y) \<in> area g"
  shows "0 \<le> gr_pitch g * y" "0 \<le> gr_bpp g * x" "gr_pitch g * y + gr_bpp g * x + gr_bpp g \<le> gr_pitch g * (y + 1)"
    "gr_pitch g * (y + 1) \<le> gr_pitch g * gr_height g"
proof -
  have a: "0 \<le> x" "x + 1 \<le> gr_width g" "0 \<le> y" "y + 1 \<le> gr_height g" "0 < gr_bpp g" "0 \<le> gr_pitch g" "gr_bpp g * gr_width g \<le> gr_pitch g"
    using assms by (auto simp: gr_ok_def area_def intro: order_trans [rotated])
  show "0 \<le> gr_pitch g * y" "0 \<le> gr_bpp g * x" using a by simp_all
  have "gr_bpp g * (x + 1) \<le> gr_bpp g * gr_width g" using a by (intro mult_left_mono) simp_all
  then show "gr_pitch g * y + gr_bpp g * x + gr_bpp g \<le> gr_pitch g * (y + 1)" using a(7) by (simp add: algebra_simps)
  show "gr_pitch g * (y + 1) \<le> gr_pitch g * gr_height g" using a by (intro mult_left_mono) simp_all
qed

lemma put_run:
  assumes ok: "gr_ok g" and x: "0 \<le> x" "x + int w \<le> gr_width g" "x < gr_width g" and y: "0 \<le> y" "y < gr_height g" and bs: "run_bytes g c w bs"
  shows "\<exists>fb. wrn (gr_fb g) (nat (gr_pitch g * y + gr_bpp g * x)) bs = Some fb \<and> length fb = length (gr_fb g) \<and>
    (\<forall>p \<in> area g. pixel (g\<lparr>gr_fb := fb\<rparr>) p =
      (if snd p = y \<and> x \<le> fst p \<and> fst p < x + int w then pixel_bytes (gr_bpp g) c else pixel g p))"
proof -
  define b where "b = nat (gr_bpp g)"
  define at where "at = (\<lambda>q. nat (gr_pitch g * snd q + gr_bpp g * fst q))"
  have b: "0 < b" "gr_bpp g = int b" using ok by (auto simp: b_def gr_ok_def)
  have atI: "int (at q) = gr_pitch g * snd q + int b * fst q" if "q \<in> area g" for q
    using px_off [OF ok, of "fst q" "snd q"] that b(2) by (simp add: at_def)
  have sq: "(x, y) \<in> area g" using x y by (simp add: area_def)
  have run: "int (at (x, y)) + int b * int w \<le> gr_pitch g * (y + 1)"
  proof (cases "w = 0")
    case True
    then show ?thesis using px_off(3) [OF ok sq] atI [OF sq] b by simp
  next
    case False
    then have "(x + int w - 1, y) \<in> area g" using x y by (simp add: area_def)
    from px_off(3) [OF ok this] show ?thesis using atI [OF sq] b(2) by (simp add: algebra_simps)
  qed
  have "int (at (x, y)) + int b * int w \<le> gr_pitch g * gr_height g" using run px_off(4) [OF ok sq] by simp
  then have "int (at (x, y) + length bs) \<le> int (length (gr_fb g))"
    using ok bs by (simp add: gr_ok_def run_bytes_def b_def [symmetric] algebra_simps)
  then have fits: "at (x, y) + length bs \<le> length (gr_fb g)" by (simp only: of_nat_le_iff)
  then obtain fb where fb: "wrn (gr_fb g) (at (x, y)) bs = Some fb" by (simp add: wrn_def)
  have len: "length fb = length (gr_fb g)" by (rule wrn_length [OF fb])
  have px: "pixel (g\<lparr>gr_fb := fb\<rparr>) p = (if snd p = y \<and> x \<le> fst p \<and> fst p < x + int w then pixel_bytes (gr_bpp g) c else pixel g p)"
    if p: "p \<in> area g" for p
  proof -
    obtain px py where [simp]: "p = (px, py)" by (cases p)
    have pb: "int (at p) + int b \<le> gr_pitch g * (py + 1)" "gr_pitch g * (py + 1) \<le> gr_pitch g * gr_height g"
      using px_off(3,4) [OF ok, of px py] p atI [OF p] b(2) by simp_all
    have inb: "at p + k < length (gr_fb g)" if "k < b" for k
    proof -
      have "int (at p + k) < int (length (gr_fb g))" using pb that ok by (simp add: gr_ok_def)
      then show ?thesis by (simp only: of_nat_less_iff)
    qed
    have nth: "fb ! (at p + k) = (if at (x, y) \<le> at p + k \<and> at p + k < at (x, y) + b * w then bs ! (at p + k - at (x, y)) else gr_fb g ! (at p + k))"
      if "k < b" for k
      using wrn_nth [OF fb inb [OF that]] bs by (simp add: run_bytes_def b_def)
    show ?thesis
    proof (cases "py = y \<and> x \<le> px \<and> px < x + int w")
      case True
      define m where "m = nat (px - x)"
      have "int (at p) = int (at (x, y)) + int b * (px - x)" using atI [OF p] atI [OF sq] True by (simp add: algebra_simps)
      moreover have "px - x = int m" "m < w" using True by (auto simp: m_def)
      ultimately have "int (at p) = int (at (x, y) + b * m)" by simp
      then have at: "at p = at (x, y) + b * m" by (simp only: of_nat_eq_iff)
      have "fb ! (at p + k) = pixel_bytes (gr_bpp g) c ! k" if "k < b" for k
      proof -
        have "b * m + k < b * Suc m" using that by simp
        also have "\<dots> \<le> b * w" using \<open>m < w\<close> by (intro mult_le_mono2) simp
        finally have "fb ! (at p + k) = bs ! (b * m + k)" using nth [OF that] at by (simp add: add.assoc)
        then show ?thesis using bs \<open>m < w\<close> that by (simp add: run_bytes_def b_def)
      qed
      then have "pixel (g\<lparr>gr_fb := fb\<rparr>) p = map (\<lambda>k. pixel_bytes (gr_bpp g) c ! k) [0..<b]"
        by (simp add: pixel_def b_def at_def)
      also have "\<dots> = pixel_bytes (gr_bpp g) c"
        by (metis b_def length_map length_upt minus_nat.diff_0 map_nth pixel_bytes_def)
      finally show ?thesis using True by simp
    next
      case False
      have "at p + b \<le> at (x, y) \<or> at (x, y) + b * w \<le> at p"
      proof -
        consider "py < y" | "py > y" | "py = y" "px < x" | "py = y" "x + int w \<le> px" using False by force
        then have "int (at p + b) \<le> int (at (x, y)) \<or> int (at (x, y) + b * w) \<le> int (at p)"
        proof cases
          case 1
          have "gr_pitch g * (py + 1) \<le> gr_pitch g * y" using 1 ok by (intro mult_left_mono) (auto simp: gr_ok_def intro: order_trans [rotated])
          then show ?thesis using pb(1) atI [OF sq] px_off(2) [OF ok sq] b(2) by simp
        next
          case 2
          have "gr_pitch g * (y + 1) \<le> gr_pitch g * py" using 2 ok by (intro mult_left_mono) (auto simp: gr_ok_def intro: order_trans [rotated])
          moreover have "gr_pitch g * py \<le> int (at p)" using atI [OF p] px_off(2) [OF ok, of px py] p b(2) by simp
          ultimately show ?thesis using run by simp
        next
          case 3
          have "int b * (px + 1) \<le> int b * x" using 3 by (intro mult_left_mono) simp_all
          then show ?thesis using atI [OF p] atI [OF sq] 3 by (simp add: algebra_simps)
        next
          case 4
          have "int b * (x + int w) \<le> int b * px" using 4 by (intro mult_left_mono) simp_all
          then show ?thesis using atI [OF p] atI [OF sq] 4 by (simp add: algebra_simps)
        qed
        then show ?thesis by (simp only: of_nat_le_iff)
      qed
      then have "fb ! (at p + k) = gr_fb g ! (at p + k)" if "k < b" for k using nth [OF that] that by auto
      then show ?thesis using False by (auto simp: pixel_def b_def at_def)
    qed
  qed
  show ?thesis using fb len px by (auto simp: at_def)
qed

text \<open>
  A row, for positions and widths that do not leave the integers. What ends left of the screen is drawn over its whole width, because the
  sum is unsigned.
\<close>

definition row_set :: "int \<Rightarrow> int \<Rightarrow> int \<Rightarrow> (int \<times> int) set" where
  "row_set x y w = {(px, py). py = y \<and> (x + w < 0 \<or> x \<le> px \<and> px < x + w)}"

abbreviation row_pic :: "gr \<Rightarrow> int \<Rightarrow> int \<Rightarrow> int \<Rightarrow> u32 \<Rightarrow> picture" where
  "row_pic g x y w c \<equiv> ink (row_set x y w) (pixel_bytes (gr_bpp g) c)"

lemmas row_pic_def = ink_def row_set_def

lemma hline_put_like:
  assumes ok: "gr_ok g" and x: "0 \<le> x" "x + int (unat w) \<le> gr_width g" "x < gr_width g" and y: "0 \<le> y" "y < gr_height g"
  shows "\<exists>g'. hline_put g x y w c = Some g' \<and> gr_like g g' \<and>
    (\<forall>p \<in> area g. pixel g' p = (if snd p = y \<and> x \<le> fst p \<and> fst p < x + int (unat w) then pixel_bytes (gr_bpp g) c else pixel g p))"
proof -
  have sq: "(x, y) \<in> area g" using x y by (simp add: area_def)
  have b: "gr_bpp g \<in> {1, 2, 4}" using ok by (simp add: gr_ok_def)
  note o = px_off [OF ok sq]
  have bound: "gr_pitch g * gr_height g < 2147483648" using ok by (simp add: gr_ok_def)
  have ck: "ck_int (gr_pitch g * y) = Some (gr_pitch g * y)" "ck_int (gr_bpp g * x) = Some (gr_bpp g * x)"
    using o bound b by (auto intro!: ck_int_in)
  have "int (unat w) \<le> int 32767" using x ok by (auto simp: gr_ok_def)
  then have "unat w \<le> 32767" by (simp only: of_nat_le_iff)
  then have u: "unat (word_of_int (gr_bpp g) * w) = nat (gr_bpp g) * unat w"
    using b by (auto simp: unat_word_ariths)
  define bs where "bs = (if c = 0 \<or> gr_bpp g = 1 then replicate (nat (gr_bpp g) * unat w) (ucast c) else concat (replicate (unat w) (pixel_bytes (gr_bpp g) c)))"
  have "run_bytes g c (unat w) bs" unfolding bs_def using run_bytes_zero [OF b] run_bytes_concat [OF b] by simp
  from put_run [OF ok x y this] obtain fb where fb: "wrn (gr_fb g) (nat (gr_pitch g * y + gr_bpp g * x)) bs = Some fb"
    "length fb = length (gr_fb g)" "\<forall>p \<in> area g. pixel (g\<lparr>gr_fb := fb\<rparr>) p =
      (if snd p = y \<and> x \<le> fst p \<and> fst p < x + int (unat w) then pixel_bytes (gr_bpp g) c else pixel g p)" by blast
  have "hline_put g x y w c = map_option (\<lambda>fb. g\<lparr>gr_fb := fb\<rparr>) (wrn (gr_fb g) (nat (gr_pitch g * y + gr_bpp g * x)) bs)"
    using o b by (auto simp: hline_put_def ck u bs_def)
  then show ?thesis using fb by (auto simp: gr_like_def)
qed

lemma mod_u32:
  fixes x :: int
  shows "0 \<le> x \<Longrightarrow> x < 4294967296 \<Longrightarrow> x mod 4294967296 = x"
    and "4294967296 \<le> x \<Longrightarrow> x < 8589934592 \<Longrightarrow> x mod 4294967296 = x - 4294967296"
    and "- 4294967296 \<le> x \<Longrightarrow> x < 0 \<Longrightarrow> x mod 4294967296 = x + 4294967296"
  using mod_pos_pos_trivial [of x 4294967296] mod_pos_pos_trivial [of "x - 4294967296" 4294967296]
    mod_pos_pos_trivial [of "x + 4294967296" 4294967296] by simp_all

lemma hline_like:
  assumes ok: "gr_ok g" and x: "- 2147483648 \<le> x" "x + uint w < 4294967296"
  shows "\<exists>g'. hline g x y w c = Some g' \<and> gr_like g g' \<and>
    (\<forall>p \<in> area g. pixel g' p = (case row_pic g x y (uint w) c p of Some v \<Rightarrow> v | None \<Rightarrow> pixel g p))"
proof -
  have gw: "0 < gr_width g" "gr_width g < 32768" using ok by (simp_all add: gr_ok_def)
  have nn: "\<not> x + uint w < 0" if "gr_width g \<le> x" using that gw uint_ge_0 [of w] by linarith
  have skip: ?thesis if "hline g x y w c = Some g" "\<And>p. p \<in> area g \<Longrightarrow> row_pic g x y (uint w) c p = None"
    using that by (auto simp: gr_like_refl)
  have w0: "0 \<le> uint w" "uint w < 4294967296" using uint_lt2p [of w] by simp_all
  show ?thesis
  proof (cases "y < 0 \<or> y \<ge> gr_height g \<or> x \<ge> gr_width g")
    case True
    have "hline g x y w c = Some g" using True by (simp add: hline_def)
    moreover have "row_pic g x y (uint w) c p = None" if "p \<in> area g" for p
      using True that nn by (auto simp: row_pic_def area_def)
    ultimately show ?thesis by (rule skip)
  next
    case False
    define e where "e = uint (word_of_int x + w)"
    have wx: "uint (word_of_int x :: u32) = (if x < 0 then x + 4294967296 else x)"
      using x(1) False gw by (simp add: uint_word_of_int mod_u32)
    have e: "e = (if 0 \<le> x + uint w then x + uint w else x + uint w + 4294967296)"
      using wx x w0 unfolding e_def by (auto simp: uint_word_ariths mod_u32)
    have le0: "word_of_int x + w = 0 \<longleftrightarrow> e = 0" unfolding e_def by (simp only: uint_0_iff)
    have run: ?thesis
      if h: "hline g x y w c = hline_put g x' y w' c" and i: "0 \<le> x'" "x' + uint w' \<le> gr_width g"
        and eq: "\<And>px. 0 \<le> px \<Longrightarrow> px < gr_width g \<Longrightarrow> (x' \<le> px \<and> px < x' + uint w') = (x + uint w < 0 \<or> x \<le> px \<and> px < x + uint w)"
        and j: "x' < gr_width g"
      for x' w'
    proof -
      have u: "int (unat w') = uint w'" by simp
      obtain g' where "hline_put g x' y w' c = Some g'" "gr_like g g'" "\<forall>p \<in> area g. pixel g' p =
          (if snd p = y \<and> x' \<le> fst p \<and> fst p < x' + uint w' then pixel_bytes (gr_bpp g) c else pixel g p)"
        using hline_put_like [OF ok i(1) _ j, of w' y c] i(2) False unfolding u by (meson linorder_not_less)
      then show ?thesis using h eq by (auto simp: row_pic_def area_def)
    qed
    have z: "x + uint w = 0" if "e = 0" 
    proof (cases "0 \<le> x + uint w")
      case False
      then have "e = x + uint w + 4294967296" using e by simp
      then show ?thesis using that x(1) uint_ge_0 [of w] by linarith
    qed (use that e in simp)
    show ?thesis
    proof (cases "x < 0 \<and> e = 0")
      case True
      then have "hline g x y w c = Some g" using False by (simp add: hline_def le0)
      moreover have "row_pic g x y (uint w) c p = None" if "p \<in> area g" for p
        using True that z by (auto simp: row_pic_def area_def)
      ultimately show ?thesis by (rule skip)
    next
      case 2: False
      define x' where "x' = (if x < 0 then 0 else x)"
      define v where "v = (if x < 0 then w + word_of_int x else w)"
      define w' where "w' = (if e \<ge> gr_width g then word_of_int (gr_width g - x') else v)"
      have x': "0 \<le> x'" "x' < gr_width g" using False gw by (auto simp: x'_def)
      have v: "uint v = (if x < 0 then e else uint w)" by (simp add: v_def e_def add.commute)
      have "uint (word_of_int x' + v) = e"
        using v e wx w0 x False by (auto simp: x'_def v_def e_def uint_word_ariths add.commute)
      then have cmp: "word_of_int (gr_width g) \<le> word_of_int x' + v \<longleftrightarrow> gr_width g \<le> e"
        using gw by (simp add: word_le_def uint_word_of_int)
      have "uint (word_of_int (gr_width g - x') :: u32) = (gr_width g - x') mod 4294967296" by (simp only: uint_word_of_int) simp
      also have "\<dots> = gr_width g - x'" using x' gw by (intro mod_u32(1)) simp_all
      finally have w': "uint w' = (if e \<ge> gr_width g then gr_width g - x' else uint v)"
        by (simp add: w'_def del: of_int_diff)
      have "hline g x y w c = hline_put g x' y (if word_of_int (gr_width g) \<le> word_of_int x' + v then word_of_int (gr_width g - x') else v) c"
        using False 2 le0 unfolding hline_def x'_def v_def by (cases "x < 0") (simp_all del: of_int_diff)
      then have h: "hline g x y w c = hline_put g x' y w' c" unfolding cmp w'_def .
      show ?thesis
      proof (cases "x + uint w < 0")
        case True
        then have "e = x + uint w + 4294967296" "x < 0" using e uint_ge_0 [of w] by (simp, linarith)
        then have "gr_width g \<le> e" "x' = 0" using x(1) uint_ge_0 [of w] gw by (linarith, simp add: x'_def)
        then show ?thesis by (intro run [OF h]) (use True w' gw in simp_all)
      next
        case False
        then have "uint w' = (if x + uint w \<ge> gr_width g then gr_width g - x' else x + uint w - x')"
          using w' v e by (simp add: x'_def)
        then show ?thesis by (intro run [OF h x'(1) _ _ x'(2)]) (use False in \<open>auto simp: x'_def\<close>)
      qed
    qed
  qed
qed

lemma row_paints:
  assumes "gr_ok g0" "- 2147483648 \<le> x" "x + uint w < 4294967296"
  shows "paints g0 (\<lambda>g. hline g x y w c) (row_pic g0 x y (uint w) c)"
  unfolding paints_def
proof (intro allI impI)
  fix g
  assume l: "gr_like g0 g"
  have "gr_ok g" using gr_like_same(7) [OF l] assms(1) by simp
  from hline_like [OF this assms(2,3), of y c] obtain g' where g': "hline g x y w c = Some g'" "gr_like g g'"
    "\<forall>p\<in>area g. pixel g' p = (case row_pic g x y (uint w) c p of Some v \<Rightarrow> v | None \<Rightarrow> pixel g p)" by blast
  have "gr_like g0 g'" using l g'(2) by (simp add: gr_like_def) (metis gr.update_convs(5) gr.surjective gr.update_convs(5))
  then show "\<exists>g'. hline g x y w c = Some g' \<and> gr_like g0 g' \<and>
      (\<forall>p\<in>area g0. pixel g' p = (case row_pic g0 x y (uint w) c p of Some v \<Rightarrow> v | None \<Rightarrow> pixel g p))"
    using g' gr_like_same [OF l] by auto
qed

section \<open>Rectangles\<close>

definition rect_set :: "int \<Rightarrow> int \<Rightarrow> int \<Rightarrow> int \<Rightarrow> (int \<times> int) set" where
  "rect_set x y w h = {(px, py). y \<le> py \<and> py < y + h \<and> x \<le> px \<and> px < x + w}"

definition filled_set :: "int \<Rightarrow> int \<Rightarrow> int \<Rightarrow> int \<Rightarrow> (int \<times> int) set" where
  "filled_set x y w h = {(px, py). y \<le> py \<and> py < y + h \<and> (x + w < 0 \<or> x \<le> px \<and> px < x + w)}"

lemma rows_paint:
  assumes "gr_ok g0" "- 2147483648 \<le> x" "x + uint w < 4294967296"
  shows "0 \<le> i \<Longrightarrow> i + int n < 2147483648 \<Longrightarrow> - 2147483648 \<le> y \<Longrightarrow> y + i + int n \<le> 2147483648 \<Longrightarrow>
    paints g0 (\<lambda>g. fill_rows g x y w c i n) (ink (filled_set x (y + i) (uint w) (int n)) (pixel_bytes (gr_bpp g0) c))"
proof (induction n arbitrary: i)
  case 0
  have "filled_set x (y + i) (uint w) 0 = {}" by (auto simp: filled_set_def)
  then show ?case using paints_empty by simp
next
  case (Suc n)
  have e: "(\<lambda>g. fill_rows g x y w c i (Suc n)) = (\<lambda>g. Option.bind (hline g x (y + i) w c) (\<lambda>g. fill_rows g x y w c (i + 1) n))"
    using Suc.prems by (simp add: ck_int_in)
  have "row_set x (y + i) (uint w) \<union> filled_set x (y + (i + 1)) (uint w) (int n) = filled_set x (y + i) (uint w) (int (Suc n))"
    by (auto simp: row_set_def filled_set_def)
  moreover have "paints g0 (\<lambda>g. fill_rows g x y w c (i + 1) n) (ink (filled_set x (y + (i + 1)) (uint w) (int n)) (pixel_bytes (gr_bpp g0) c))"
    by (rule Suc.IH) (use Suc.prems in simp_all)
  ultimately show ?case unfolding e using paints_ink_seq [OF row_paints [OF assms]] by metis
qed


lemma fill_paints:
  assumes "gr_ok g0" "- 2147483648 \<le> x" "x + uint w < 4294967296" "- 2147483648 \<le> y" "y + uint h \<le> 2147483648" "uint h < 2147483648"
  shows "paints g0 (\<lambda>g. fill_rectangle g x y w h c) (ink (filled_set x y (uint w) (uint h)) (pixel_bytes (gr_bpp g0) c))"
  using rows_paint [OF assms(1-3), of 0 "unat h" y c] assms(4-6) by (simp add: fill_rectangle_def)

lemma filled_set_rect: "0 \<le> x + w \<Longrightarrow> filled_set x y w h = rect_set x y w h"
  by (auto simp: filled_set_def rect_set_def)

section \<open>Lines\<close>

text \<open>How far the other coordinate of a line has moved after \<open>k\<close> points.\<close>

definition adv :: "int \<Rightarrow> int \<Rightarrow> int \<Rightarrow> int \<Rightarrow> int" where
  "adv dm dn t k = max 0 ((t + k * dn - 1) div dm)"

lemma adv_0: "0 \<le> t \<Longrightarrow> t \<le> dm \<Longrightarrow> 0 < dm \<Longrightarrow> adv dm dn t 0 = 0"
proof -
  assume "0 \<le> t" "t \<le> dm" "0 < dm"
  then have "(t - 1) div dm \<le> (dm - 1) div dm" by (intro zdiv_mono1) simp_all
  also have "\<dots> = 0" using \<open>0 < dm\<close> by (intro div_pos_pos_trivial) simp_all
  finally have "(t - 1) div dm \<le> 0" .
  then show ?thesis by (simp add: adv_def)
qed

lemma adv_Suc:
  assumes "0 \<le> dn" "0 < dm" "0 \<le> k"
  shows "adv dm dn t (k + 1) = (if t + dn > dm then 1 + adv dm dn (t + dn - dm) k else adv dm dn (t + dn) k)"
proof -
  have a: "t + (k + 1) * dn - 1 = t + dn + k * dn - 1" by (simp add: algebra_simps)
  show ?thesis
  proof (cases "t + dn > dm")
    case True
    have "(t + dn + k * dn - 1) div dm = 1 + (t + dn - dm + k * dn - 1) div dm"
      using div_add_self2 [of dm "t + dn - dm + k * dn - 1"] assms(2) by (simp add: algebra_simps)
    moreover have "0 \<le> t + dn - dm + k * dn - 1" using True mult_nonneg_nonneg [OF assms(3,1)] by linarith
    then have "0 \<le> (t + dn - dm + k * dn - 1) div dm" using assms(2) by (simp only: pos_imp_zdiv_nonneg_iff)
    ultimately show ?thesis using True unfolding adv_def a by (simp add: max_def)
  qed (simp add: adv_def a)
qed

definition line_set :: "(int \<Rightarrow> int \<Rightarrow> int \<times> int) \<Rightarrow> int \<Rightarrow> int \<Rightarrow> int \<Rightarrow> int \<Rightarrow> int \<Rightarrow> int \<Rightarrow> int \<Rightarrow> (int \<times> int) set" where
  "line_set pt dm dn step e m n t = (\<lambda>k. pt (m + k) (n + step * adv dm dn t k)) ` {0..e - m}"

lemma line_set_Suc:
  assumes "m \<le> e" "0 \<le> dn" "0 < dm" "0 \<le> t" "t \<le> dm"
  shows "line_set pt dm dn step e m n t =
    {pt m n} \<union> line_set pt dm dn step e (m + 1) (if t + dn > dm then n + step else n) (if t + dn > dm then t + dn - dm else t + dn)"
proof -
  define f where "f = (\<lambda>k. pt (m + k) (n + step * adv dm dn t k))"
  have "{0..e - m} = insert 0 ((\<lambda>k. k + 1) ` {0..e - (m + 1)})"
  proof (rule set_eqI)
    fix k
    show "k \<in> {0..e - m} \<longleftrightarrow> k \<in> insert 0 ((\<lambda>k. k + 1) ` {0..e - (m + 1)})"
      using assms(1) by (auto simp: image_iff intro: bexI [of _ "k - 1"])
  qed
  then have "line_set pt dm dn step e m n t = insert (f 0) ((\<lambda>k. f (k + 1)) ` {0..e - (m + 1)})"
    by (simp only: line_set_def f_def image_insert image_image)
  moreover have "f 0 = pt m n" using adv_0 [OF assms(4,5,3), of dn] by (simp add: f_def)
  moreover have "(\<lambda>k. f (k + 1)) ` {0..e - (m + 1)} =
      line_set pt dm dn step e (m + 1) (if t + dn > dm then n + step else n) (if t + dn > dm then t + dn - dm else t + dn)"
    unfolding line_set_def f_def by (intro image_cong refl) (simp add: adv_Suc [OF assms(2,3)] algebra_simps)
  ultimately show ?thesis by simp
qed

lemma line_loop_paints:
  assumes dm: "0 \<le> dn" "dn \<le> dm" "0 < dm" "dm < 1073741824" and step: "step = 1 \<or> step = - 1"
    and draw: "\<And>m n. lo \<le> m \<Longrightarrow> m \<le> e \<Longrightarrow> good n \<Longrightarrow> paints g0 (\<lambda>g. draw g m n) (ink {pt m n} v)"
    and good: "\<And>n. good n \<Longrightarrow> - 1073741824 \<le> n \<and> n < 1073741824" and e: "- 2147483648 \<le> lo" "e < 2147483647"
  shows "lo \<le> m \<Longrightarrow> 0 \<le> t \<Longrightarrow> t \<le> dm \<Longrightarrow> (\<And>k. 0 \<le> k \<Longrightarrow> m + k \<le> e \<Longrightarrow> good (n + step * adv dm dn t k)) \<Longrightarrow>
    paints g0 (\<lambda>g. line_loop draw dm dn step e g m n t) (ink (line_set pt dm dn step e m n t) v)"
proof (induction "nat (e + 1 - m)" arbitrary: m n t)
  case 0
  then have "line_set pt dm dn step e m n t = {}" by (simp add: line_set_def)
  moreover have "(\<lambda>g. line_loop draw dm dn step e g m n t) = Some" using 0 by (intro ext) (subst line_loop.simps, simp)
  ultimately show ?case using paints_empty by simp
next
  case (Suc j)
  define n' where "n' = (if t + dn > dm then n + step else n)"
  define t' where "t' = (if t + dn > dm then t + dn - dm else t + dn)"
  have m: "m \<le> e" using Suc.hyps(2) by simp
  have g: "good n" using Suc.prems(4) [of 0] adv_0 [OF Suc.prems(2,3) dm(3), of dn] m by simp
  have "paints g0 (\<lambda>g. line_loop draw dm dn step e g (m + 1) n' t') (ink (line_set pt dm dn step e (m + 1) n' t') v)"
  proof (rule Suc.hyps(1))
    show "j = nat (e + 1 - (m + 1))" "lo \<le> m + 1" using Suc.hyps(2) Suc.prems(1) by simp_all
    show "0 \<le> t'" "t' \<le> dm" using dm Suc.prems(2,3) by (simp_all add: t'_def)
    show "good (n' + step * adv dm dn t' k)" if "0 \<le> k" "m + 1 + k \<le> e" for k
      using Suc.prems(4) [of "k + 1"] that adv_Suc [OF dm(1,3) that(1), of t] by (simp add: n'_def t'_def algebra_simps split: if_splits)
  qed
  moreover have "(\<lambda>g. line_loop draw dm dn step e g m n t) = (\<lambda>g. Option.bind (draw g m n) (\<lambda>g. line_loop draw dm dn step e g (m + 1) n' t'))"
  proof
    fix g
    have "ck_int (t + dn) = Some (t + dn)" using dm Suc.prems(2,3) by (intro ck_int_in) simp_all
    moreover have "ck_int (n + step) = Some (n + step)" using good [OF g] step by (intro ck_int_in) auto
    moreover have "ck_int (m + 1) = Some (m + 1)" using e Suc.prems(1) m by (intro ck_int_in) simp_all
    ultimately show "line_loop draw dm dn step e g m n t = Option.bind (draw g m n) (\<lambda>g. line_loop draw dm dn step e g (m + 1) n' t')"
      using m by (subst line_loop.simps) (simp add: n'_def t'_def)
  qed
  ultimately show ?case
    using paints_ink_seq [OF draw [OF Suc.prems(1) m g]] line_set_Suc [OF m dm(1,3) Suc.prems(2,3), of pt step n]
    by (simp add: n'_def t'_def)
qed

lemma point_paints:
  assumes "gr_ok g0" "- 1 \<le> x" "x < 1073741824"
  shows "paints g0 (\<lambda>g. draw_point g x y c) (ink {(x, y)} (pixel_bytes (gr_bpp g0) c))"
proof -
  have "paints g0 (\<lambda>g. hline g x y 1 c) (row_pic g0 x y (uint (1::u32)) c)" by (rule row_paints) (use assms in simp_all)
  moreover have "row_set x y (uint (1::u32)) = {(x, y)}" using assms(2) by (auto simp: row_set_def)
  ultimately show ?thesis by (simp add: draw_point_def)
qed

text \<open>
  The points of a line, from its lower end for the coordinate with the greater extent. The other coordinate moves one step too little: a line
  that is neither horizontal nor vertical stops before its end point.
\<close>

definition line_points :: "int \<Rightarrow> int \<Rightarrow> int \<Rightarrow> int \<Rightarrow> (int \<times> int) set" where
  "line_points x1 y1 x2 y2 =
     (let dx = \<bar>x2 - x1\<bar>; dy = \<bar>y2 - y1\<bar>; step = SIGN (x2 - x1) * SIGN (y2 - y1)
      in if dy = 0 then {min x1 x2..max x1 x2} \<times> {y1}
         else if dx < dy then line_set (\<lambda>y x. (x, y)) dy dx step (max y1 y2) (min y1 y2) (if y1 > y2 then x2 else x1) 0
         else line_set (\<lambda>x y. (x, y)) dx dy step (max x1 x2) (min x1 x2) (if x1 > x2 then y2 else y1) 0)"

lemma adv_le:
  assumes "0 \<le> dn" "0 < dm" "0 \<le> k" "k \<le> dm"
  shows "0 \<le> adv dm dn 0 k" "adv dm dn 0 k \<le> dn"
proof -
  show "0 \<le> adv dm dn 0 k" by (simp add: adv_def)
  have "(k * dn - 1) div dm \<le> (dn * dm) div dm" using mult_right_mono [OF assms(4,1)] assms(2) by (intro zdiv_mono1) (simp_all add: mult.commute)
  then show "adv dm dn 0 k \<le> dn" using assms(1,2) by (simp add: adv_def)
qed

lemma line_paints:
  assumes ok: "gr_ok g0" and x: "- 1 \<le> x1" "x1 < 536870912" "- 1 \<le> x2" "x2 < 536870912"
    and y: "- 536870912 \<le> y1" "y1 < 536870912" "- 536870912 \<le> y2" "y2 < 536870912"
  shows "paints g0 (\<lambda>g. draw_line g x1 y1 x2 y2 c) (ink (line_points x1 y1 x2 y2) (pixel_bytes (gr_bpp g0) c))"
proof -
  define dx dy step where "dx = \<bar>x2 - x1\<bar>" and "dy = \<bar>y2 - y1\<bar>" and "step = SIGN (x2 - x1) * SIGN (y2 - y1)"
  have d: "0 \<le> dx" "dx < 1073741824" "0 \<le> dy" "dy < 1073741824" using x y by (auto simp: dx_def dy_def)
  have step: "step = 1 \<or> step = - 1" by (simp add: step_def SIGN_def)
  have ab: "a * SIGN a = \<bar>a\<bar>" for a by (simp add: SIGN_def)
  have ck: "ck_int (x2 - x1) = Some (x2 - x1)" "ck_int (y2 - y1) = Some (y2 - y1)" "ck_int dx = Some dx" "ck_int dy = Some dy" "ck_int (dx + 1) = Some (dx + 1)"
    using x y d by (auto intro!: ck_int_in)
  have dl: "draw_line g x1 y1 x2 y2 c =
      (if dy = 0 then hline g (min x1 x2) y1 (word_of_int (dx + 1)) c
       else if dx < dy then line_loop (\<lambda>g y x. draw_point g x y c) dy dx step (max y1 y2) g (min y1 y2) (if y1 > y2 then x2 else x1) 0
       else line_loop (\<lambda>g x y. draw_point g x y c) dx dy step (max x1 x2) g (min x1 x2) (if x1 > x2 then y2 else y1) 0)" for g
    using ck(1,2) unfolding draw_line_def ab step_def [symmetric] Let_def bind.bind_lunit
    by (simp add: ab dx_def [symmetric] dy_def [symmetric] step_def [symmetric] ck(3-5) min_def max_def del: of_int_add)
  show ?thesis
  proof (cases "dy = 0")
    case True
    define w where "w = (word_of_int (dx + 1) :: u32)"
    have w: "uint w = dx + 1" using d by (simp add: w_def uint_word_of_int mod_u32 del: of_int_add)
    have "paints g0 (\<lambda>g. hline g (min x1 x2) y1 w c) (row_pic g0 (min x1 x2) y1 (uint w) c)"
      by (rule row_paints [OF ok]) (use x d w in auto)
    moreover have "row_set (min x1 x2) y1 (uint w) = line_points x1 y1 x2 y2"
      using True x unfolding row_set_def line_points_def w Let_def dx_def dy_def by (auto simp: min_def max_def)
    moreover have "(\<lambda>g. draw_line g x1 y1 x2 y2 c) = (\<lambda>g. hline g (min x1 x2) y1 w c)"
      using True by (simp add: dl w_def)
    ultimately show ?thesis by simp
  next
    case False
    note loop = line_loop_paints [OF _ _ _ _ step, where v = "pixel_bytes (gr_bpp g0) c" and t = 0]
    show ?thesis
    proof (cases "dx < dy")
      case True
      define n where "n = (if y1 > y2 then x2 else x1)"
      have "paints g0 (\<lambda>g. line_loop (\<lambda>g y x. draw_point g x y c) dy dx step (max y1 y2) g (min y1 y2) n 0)
          (ink (line_set (\<lambda>y x. (x, y)) dy dx step (max y1 y2) (min y1 y2) n 0) (pixel_bytes (gr_bpp g0) c))"
      proof (rule loop [where lo = "min y1 y2" and good = "\<lambda>n. - 1 \<le> n \<and> n < 536870912"])
        fix k
        assume k: "0 \<le> k" "min y1 y2 + k \<le> max y1 y2"
        then have "k \<le> dy" by (auto simp: dy_def)
        from adv_le [OF d(1) _ k(1) this] have "0 \<le> adv dy dx 0 k" "adv dy dx 0 k \<le> dx" using True d(1) by simp_all
        then show "- 1 \<le> n + step * adv dy dx 0 k \<and> n + step * adv dy dx 0 k < 536870912"
          using x by (auto simp: n_def step_def SIGN_def dx_def)
      qed (use True d x y False point_paints [OF ok] in auto)
      moreover have "(\<lambda>g. draw_line g x1 y1 x2 y2 c) =
          (\<lambda>g. line_loop (\<lambda>g y x. draw_point g x y c) dy dx step (max y1 y2) g (min y1 y2) n 0)"
        using True False by (simp add: dl n_def)
      moreover have "line_set (\<lambda>y x. (x, y)) dy dx step (max y1 y2) (min y1 y2) n 0 = line_points x1 y1 x2 y2"
        using True False by (simp add: line_points_def Let_def n_def dx_def dy_def step_def)
      ultimately show ?thesis by simp
    next
      case 2: False
      define n where "n = (if x1 > x2 then y2 else y1)"
      have "paints g0 (\<lambda>g. line_loop (\<lambda>g x y. draw_point g x y c) dx dy step (max x1 x2) g (min x1 x2) n 0)
          (ink (line_set (\<lambda>x y. (x, y)) dx dy step (max x1 x2) (min x1 x2) n 0) (pixel_bytes (gr_bpp g0) c))"
      proof (rule loop [where lo = "min x1 x2" and good = "\<lambda>n. - 536870912 \<le> n \<and> n < 536870912"])
        fix k
        assume k: "0 \<le> k" "min x1 x2 + k \<le> max x1 x2"
        then have "k \<le> dx" by (auto simp: dx_def)
        from adv_le [OF d(3) _ k(1) this] have "0 \<le> adv dx dy 0 k" "adv dx dy 0 k \<le> dy" using 2 False d by simp_all
        then show "- 536870912 \<le> n + step * adv dx dy 0 k \<and> n + step * adv dx dy 0 k < 536870912"
          using y by (auto simp: n_def step_def SIGN_def dy_def)
      qed (use 2 False d x y point_paints [OF ok] in auto)
      moreover have "(\<lambda>g. draw_line g x1 y1 x2 y2 c) =
          (\<lambda>g. line_loop (\<lambda>g x y. draw_point g x y c) dx dy step (max x1 x2) g (min x1 x2) n 0)"
        using 2 False by (simp add: dl n_def)
      moreover have "line_set (\<lambda>x y. (x, y)) dx dy step (max x1 x2) (min x1 x2) n 0 = line_points x1 y1 x2 y2"
        using 2 False by (simp add: line_points_def Let_def n_def dx_def dy_def step_def)
      ultimately show ?thesis by simp
    qed
  qed
qed

lemma line_points_ends:
  "{(x1, y1), (x2, y2)} \<subseteq> line_points x1 y1 x2 y2 \<longleftrightarrow> x1 = x2 \<or> y1 = y2"
proof -
  define dx dy where "dx = \<bar>x2 - x1\<bar>" and "dy = \<bar>y2 - y1\<bar>"
  have d: "0 \<le> dx" "0 \<le> dy" by (simp_all add: dx_def dy_def)
  have full: "adv m n 0 m = n - 1" if "0 < n" "0 < m" for m n
  proof -
    have "(m * n - 1) div m = (m * (n - 1) + (m - 1)) div m" by (simp add: algebra_simps)
    also have "\<dots> = n - 1" using that by (simp only: div_mult_self4) (simp add: div_pos_pos_trivial)
    finally show ?thesis using that by (simp add: adv_def)
  qed
  have none: "adv m 0 0 k = 0" if "0 < m" for m k
    using that by (simp add: adv_def div_eq_minus1)
  consider "y1 = y2" | "y1 \<noteq> y2" "x1 = x2" | "y1 \<noteq> y2" "x1 \<noteq> x2" "dx < dy" | "y1 \<noteq> y2" "x1 \<noteq> x2" "dy \<le> dx" by linarith
  then show ?thesis
  proof cases
    case 1
    then show ?thesis by (auto simp: line_points_def)
  next
    case 2
    then have eq: "line_points x1 y1 x2 y2 = (\<lambda>k. (x1, min y1 y2 + k)) ` {0..max y1 y2 - min y1 y2}"
      using none [of "\<bar>y2 - y1\<bar>"] by (simp add: line_points_def line_set_def Let_def)
    have "(x1, y1) \<in> line_points x1 y1 x2 y2" unfolding eq by (rule image_eqI [of _ _ "y1 - min y1 y2"]) auto
    moreover have "(x1, y2) \<in> line_points x1 y1 x2 y2" unfolding eq by (rule image_eqI [of _ _ "y2 - min y1 y2"]) auto
    ultimately show ?thesis using 2 by simp
  next
    case 3
    then have lp: "line_points x1 y1 x2 y2 = line_set (\<lambda>y x. (x, y)) dy dx (SIGN (x2 - x1) * SIGN (y2 - y1)) (max y1 y2) (min y1 y2) (if y1 > y2 then x2 else x1) 0"
      using d by (simp add: line_points_def Let_def dx_def dy_def)
    define xe where "xe = (if y1 > y2 then x1 else x2)"
    have "(xe, max y1 y2) \<notin> line_points x1 y1 x2 y2"
    proof
      assume "(xe, max y1 y2) \<in> line_points x1 y1 x2 y2"
      then have "xe = (if y1 > y2 then x2 else x1) + SIGN (x2 - x1) * SIGN (y2 - y1) * adv dy dx 0 dy"
        unfolding lp line_set_def by (auto simp: dy_def max_def min_def abs_if split: if_splits)
      then show False using full [of dx dy] 3 by (auto simp: xe_def SIGN_def dx_def dy_def split: if_splits)
    qed
    moreover have "(xe, max y1 y2) \<in> {(x1, y1), (x2, y2)}" by (simp add: xe_def)
    ultimately show ?thesis using 3 by blast
  next
    case 4
    then have lp: "line_points x1 y1 x2 y2 = line_set (\<lambda>x y. (x, y)) dx dy (SIGN (x2 - x1) * SIGN (y2 - y1)) (max x1 x2) (min x1 x2) (if x1 > x2 then y2 else y1) 0"
      using d by (simp add: line_points_def Let_def dx_def dy_def)
    define ye where "ye = (if x1 > x2 then y1 else y2)"
    have "(max x1 x2, ye) \<notin> line_points x1 y1 x2 y2"
    proof
      assume "(max x1 x2, ye) \<in> line_points x1 y1 x2 y2"
      then have "ye = (if x1 > x2 then y2 else y1) + SIGN (x2 - x1) * SIGN (y2 - y1) * adv dx dy 0 dx"
        unfolding lp line_set_def by (auto simp: dx_def max_def min_def abs_if split: if_splits)
      then show False using full [of dy dx] 4 by (auto simp: ye_def SIGN_def dx_def dy_def split: if_splits)
    qed
    moreover have "(max x1 x2, ye) \<in> {(x1, y1), (x2, y2)}" by (simp add: ye_def)
    ultimately show ?thesis using 4 by blast
  qed
qed

text \<open>The outline of a rectangle that is not empty.\<close>

definition outline_set :: "int \<Rightarrow> int \<Rightarrow> int \<Rightarrow> int \<Rightarrow> (int \<times> int) set" where
  "outline_set x y w h = {(px, py). (px, py) \<in> rect_set x y w h \<and> (px = x \<or> px = x + w - 1 \<or> py = y \<or> py = y + h - 1)}"

lemma line_points_row: "x1 \<le> x2 \<Longrightarrow> line_points x1 y x2 y = {x1..x2} \<times> {y}"
  by (simp add: line_points_def)

lemma line_points_col: "y1 < y2 \<Longrightarrow> line_points x y1 x y2 = {x} \<times> {y1..y2}"
proof -
  assume y: "y1 < y2"
  have "adv m 0 0 k = 0" if "0 < m" for m k using that by (simp add: adv_def div_eq_minus1)
  then have "line_points x y1 x y2 = (\<lambda>k. (x, y1 + k)) ` {0..y2 - y1}" using y by (simp add: line_points_def line_set_def Let_def)
  also have "\<dots> = {x} \<times> {y1..y2}" by (auto intro!: rev_image_eqI [of "_ - y1"])
  finally show ?thesis .
qed

lemma outline_paints:
  assumes ok: "gr_ok g0" and xy: "- 1 \<le> x" "0 < w" "x + w \<le> 32768" "- 32768 \<le> y" "0 < h" "y + h \<le> 32768"
  shows "paints g0 (\<lambda>g. draw_rectangle g x y w h False c) (ink (outline_set x y w h) (pixel_bytes (gr_bpp g0) c))"
proof -
  define r b where "r = x + (w - 1)" and "b = y + (h - 1)"
  have rb: "x \<le> r" "r < 32768" "y \<le> b" "b < 32768" "- 1 \<le> r" "- 32768 \<le> b" using xy by (auto simp: r_def b_def)
  note p = line_paints [OF ok, of _ _ _ _ c]
  have "paints g0 (\<lambda>g. Option.bind (draw_line g x y r y c) (\<lambda>g. Option.bind (draw_line g x b r b c)
      (\<lambda>g. Option.bind (draw_line g x y x b c) (\<lambda>g. draw_line g r y r b c))))
      (ink (line_points x y r y \<union> (line_points x b r b \<union> (line_points x y x b \<union> line_points r y r b))) (pixel_bytes (gr_bpp g0) c))"
    by (intro paints_ink_seq p) (use xy rb in simp_all)
  moreover have "line_points x y r y \<union> (line_points x b r b \<union> (line_points x y x b \<union> line_points r y r b)) = outline_set x y w h"
  proof (cases "y = b")
    case True
    then have "h = 1" by (simp add: b_def)
    then show ?thesis using True rb by (auto simp: line_points_row outline_set_def rect_set_def r_def line_points_def)
  next
    case False
    then show ?thesis using rb by (auto simp: line_points_row line_points_col outline_set_def rect_set_def r_def b_def)
  qed
  moreover have "(\<lambda>g. draw_rectangle g x y w h False c) = (\<lambda>g. Option.bind (draw_line g x y r y c) (\<lambda>g. Option.bind (draw_line g x b r b c)
      (\<lambda>g. Option.bind (draw_line g x y x b c) (\<lambda>g. draw_line g r y r b c))))"
    using xy by (intro ext) (simp add: draw_rectangle_def r_def b_def ck_int_in)
  ultimately show ?thesis by simp
qed

lemma filled_paints:
  assumes "gr_ok g0" "- 32768 \<le> x" "0 \<le> w" "0 \<le> x + w" "x + w \<le> 32768" "- 32768 \<le> y" "0 \<le> h" "y + h \<le> 32768"
  shows "paints g0 (\<lambda>g. draw_rectangle g x y w h True c) (ink (rect_set x y w h) (pixel_bytes (gr_bpp g0) c))"
proof -
  have u: "uint (word_of_int w :: u32) = w" "uint (word_of_int h :: u32) = h" using assms by (simp_all add: uint_word_of_int mod_u32)
  have "paints g0 (\<lambda>g. fill_rectangle g x y (word_of_int w) (word_of_int h) c)
      (ink (filled_set x y (uint (word_of_int w :: u32)) (uint (word_of_int h :: u32))) (pixel_bytes (gr_bpp g0) c))"
    by (rule fill_paints) (use assms u in simp_all)
  then show ?thesis using filled_set_rect [of x w y h] assms u by (simp add: draw_rectangle_def)
qed

section \<open>Text\<close>

text \<open>The only font, with its 128 characters.\<close>

definition font_ok :: "font \<Rightarrow> bool" where
  "font_ok f \<longleftrightarrow> font_width f = 8 \<and> font_height f = 13 \<and> font_pitch f = 1 \<and> length (font_data f) = 128 * 13"

definition bits_set :: "u32 \<Rightarrow> int \<Rightarrow> int \<Rightarrow> nat \<Rightarrow> (int \<times> int) set" where
  "bits_set line x y n = {(x + int k, y) | k. k < n \<and> k \<le> 7 \<and> bit line (7 - k)}"

definition glyph_row :: "font \<Rightarrow> char \<Rightarrow> int \<Rightarrow> int \<Rightarrow> nat \<Rightarrow> (int \<times> int) set" where
  "glyph_row f c x y i = bits_set (ucast (font_data f ! (13 * char_code c + i))) x (y + int i) 8"

definition glyph_set :: "font \<Rightarrow> char \<Rightarrow> int \<Rightarrow> int \<Rightarrow> (int \<times> int) set" where
  "glyph_set f c x y = (\<Union>i < 13. glyph_row f c x y i)"

fun text_set :: "font \<Rightarrow> string \<Rightarrow> int \<Rightarrow> int \<Rightarrow> (int \<times> int) set" where
  "text_set f [] x y = {}"
| "text_set f (c # s) x y = glyph_set f c x y \<union> text_set f s (x + 8) y"

lemma bits_set_Suc: "bits_set line x y (Suc n) = (if bit line 7 then {(x, y)} else {}) \<union> bits_set (push_bit 1 line) (x + 1) y n"
proof (rule set_eqI)
  fix p
  have "p \<in> bits_set line x y (Suc n) \<longleftrightarrow>
      (\<exists>k. p = (x + int k, y) \<and> k < Suc n \<and> k \<le> 7 \<and> bit line (7 - k))" by (auto simp: bits_set_def)
  also have "\<dots> \<longleftrightarrow> (p = (x, y) \<and> bit line 7) \<or> (\<exists>j. p = (x + 1 + int j, y) \<and> j < n \<and> Suc j \<le> 7 \<and> bit line (7 - Suc j))" (is "_ \<longleftrightarrow> ?r")
  proof
    assume "\<exists>k. p = (x + int k, y) \<and> k < Suc n \<and> k \<le> 7 \<and> bit line (7 - k)"
    then obtain k where k: "p = (x + int k, y)" "k < Suc n" "k \<le> 7" "bit line (7 - k)" by blast
    show ?r
    proof (cases k)
      case (Suc j)
      then have "p = (x + 1 + int j, y) \<and> j < n \<and> Suc j \<le> 7 \<and> bit line (7 - Suc j)" using k by simp
      then show ?thesis by blast
    qed (use k in simp)
  next
    assume ?r
    then show "\<exists>k. p = (x + int k, y) \<and> k < Suc n \<and> k \<le> 7 \<and> bit line (7 - k)"
    proof
      assume "\<exists>j. p = (x + 1 + int j, y) \<and> j < n \<and> Suc j \<le> 7 \<and> bit line (7 - Suc j)"
      then obtain j where "p = (x + 1 + int j, y)" "j < n" "Suc j \<le> 7" "bit line (7 - Suc j)" by blast
      then show ?thesis by (intro exI [of _ "Suc j"]) simp
    qed (auto intro: exI [of _ 0])
  qed
  also have "(\<exists>j. p = (x + 1 + int j, y) \<and> j < n \<and> Suc j \<le> 7 \<and> bit line (7 - Suc j)) \<longleftrightarrow> p \<in> bits_set (push_bit 1 line) (x + 1) y n"
  proof -
    have "bit (push_bit 1 line) (7 - j) \<longleftrightarrow> j \<le> 6 \<and> bit line (7 - Suc j)" if "j \<le> 7" for j
      using that unfolding bit_push_bit_iff by auto
    then show ?thesis unfolding bits_set_def mem_Collect_eq by fastforce
  qed
  finally show "p \<in> bits_set line x y (Suc n) \<longleftrightarrow>
      p \<in> (if bit line 7 then {(x, y)} else {}) \<union> bits_set (push_bit 1 line) (x + 1) y n" by auto
qed

lemma and_0x80: "(line :: u32) AND 0x80 \<noteq> 0 \<longleftrightarrow> bit line 7"
proof -
  have "(0x80 :: u32) = push_bit 7 1" by simp
  then show ?thesis by (metis and_exp_eq_0_iff_not_bit push_bit_of_1)
qed

lemma bits_paint:
  assumes "gr_ok g0"
  shows "- 1 \<le> x \<Longrightarrow> x + int n < 1073741824 \<Longrightarrow>
    paints g0 (\<lambda>g. char_bits g x y c line n) (ink (bits_set line x y n) (pixel_bytes (gr_bpp g0) c))"
proof (induction n arbitrary: x line)
  case 0
  have "bits_set line x y 0 = {}" by (auto simp: bits_set_def)
  then show ?case using paints_empty by simp
next
  case (Suc n)
  have p: "paints g0 (\<lambda>g. if bit line 7 then draw_point g x y c else Some g) (ink (if bit line 7 then {(x, y)} else {}) (pixel_bytes (gr_bpp g0) c))"
    using point_paints [OF assms Suc.prems(1), of y c] Suc.prems(2) paints_empty by simp
  have r: "paints g0 (\<lambda>g. char_bits g (x + 1) y c (push_bit 1 line) n) (ink (bits_set (push_bit 1 line) (x + 1) y n) (pixel_bytes (gr_bpp g0) c))"
    by (rule Suc.IH) (use Suc.prems in simp_all)
  have e: "(\<lambda>g. char_bits g x y c line (Suc n)) =
      (\<lambda>g. Option.bind (if bit line 7 then draw_point g x y c else Some g) (\<lambda>g. char_bits g (x + 1) y c (push_bit 1 line) n))"
    using Suc.prems by (simp add: and_0x80 ck_int_in cong: if_cong)
  show ?case unfolding e bits_set_Suc by (rule paints_ink_seq [OF p r])
qed

lemma rows_char_paint:
  assumes "gr_ok g0" "font_ok f" "char_code c < 128" "- 1 \<le> x" "x < 1073741816"
  shows "(\<forall>i \<in> set is. i < 13) \<Longrightarrow>
    paints g0 (\<lambda>g. char_rows f g x y c col is) (ink (\<Union>i \<in> set is. glyph_row f c x y i) (pixel_bytes (gr_bpp g0) col))"
proof (induction "is")
  case Nil
  then show ?case using paints_empty by simp
next
  case (Cons i "is")
  have "13 * char_code c + i < 128 * 13" using assms(3) Cons.prems by simp
  then have r: "rd (font_data f) (13 * char_code c + i) = Some (font_data f ! (13 * char_code c + i))"
    using assms(2) by (simp add: font_ok_def rd_in)
  have e: "(\<lambda>g. char_rows f g x y c col (i # is)) =
      (\<lambda>g. Option.bind (char_bits g x (y + int i) col (ucast (font_data f ! (13 * char_code c + i))) 8) (\<lambda>g. char_rows f g x y c col is))"
    using assms(2) r by (intro ext) (simp add: font_ok_def)
  have "paints g0 (\<lambda>g. char_bits g x (y + int i) col (ucast (font_data f ! (13 * char_code c + i))) 8)
      (ink (glyph_row f c x y i) (pixel_bytes (gr_bpp g0) col))"
    unfolding glyph_row_def by (rule bits_paint) (use assms in simp_all)
  from paints_ink_seq [OF this Cons.IH] show ?case unfolding e using Cons.prems by simp
qed

lemma char_paint:
  assumes "gr_ok g0" "font_ok f" "char_code c < 128" "- 1 \<le> x" "x < 1073741816"
  shows "paints g0 (\<lambda>g. draw_char f g x y c col) (ink (glyph_set f c x y) (pixel_bytes (gr_bpp g0) col))"
proof -
  have "font_height f = 13" using assms(2) by (simp add: font_ok_def)
  moreover have "(\<Union>i \<in> set [0..<13]. glyph_row f c x y i) = glyph_set f c x y" by (auto simp: glyph_set_def)
  ultimately show ?thesis using rows_char_paint [OF assms, of "[0..<13]" y col] by (simp only: draw_char_def) simp
qed

lemma string_paint:
  assumes "gr_ok g0" "font_ok f"
  shows "\<forall>c \<in> set s. char_code c < 128 \<Longrightarrow> - 1 \<le> x \<Longrightarrow> x + 8 * int (length s) < 1073741816 \<Longrightarrow>
    paints g0 (\<lambda>g. draw_string f g s x y col) (ink (text_set f s x y) (pixel_bytes (gr_bpp g0) col))"
proof (induction s arbitrary: x)
  case (Cons c s)
  have e: "(\<lambda>g. draw_string f g (c # s) x y col) = (\<lambda>g. Option.bind (draw_char f g x y c col) (\<lambda>g. draw_string f g s (x + 8) y col))"
    using Cons.prems assms(2) by (intro ext) (simp add: font_ok_def ck_int_in)
  have "paints g0 (\<lambda>g. draw_char f g x y c col) (ink (glyph_set f c x y) (pixel_bytes (gr_bpp g0) col))"
    by (rule char_paint [OF assms]) (use Cons.prems in simp_all)
  from paints_ink_seq [OF this Cons.IH] show ?case unfolding e using Cons.prems by simp
qed (use paints_empty in simp)

text \<open>A character that the font does not have.\<close>

lemma char_beyond:
  assumes "font_ok f" "128 \<le> char_code c"
  shows "draw_char f g x y c col = None"
proof -
  have "rd (font_data f) (13 * char_code c) = None" by (rule rd_out) (use assms in \<open>simp add: font_ok_def\<close>)
  moreover have "[0..<13] = (0::nat) # [1..<13]" by (simp add: upt_conv_Cons)
  ultimately show ?thesis using assms(1) by (simp add: draw_char_def font_ok_def)
qed

lemma string_beyond:
  assumes "gr_ok g0" "font_ok f" "gr_like g0 g"
  shows "\<exists>c \<in> set s. 128 \<le> char_code c \<Longrightarrow> - 1 \<le> x \<Longrightarrow> x + 8 * int (length s) < 1073741816 \<Longrightarrow> draw_string f g s x y col = None"
  using assms(3)
proof (induction s arbitrary: x g)
  case (Cons c s)
  show ?case
  proof (cases "128 \<le> char_code c")
    case False
    then have "char_code c < 128" "x < 1073741816" using Cons.prems(3) by simp_all
    from paintsD [OF char_paint [OF assms(1,2) this(1) Cons.prems(2) this(2)] Cons.prems(4)]
    obtain g' where g': "draw_char f g x y c col = Some g'" "gr_like g0 g'" by metis
    have "draw_string f g' s (x + 8) y col = None" by (rule Cons.IH) (use Cons.prems False g' in auto)
    then show ?thesis using g' assms(2) Cons.prems by (simp add: font_ok_def ck_int_in)
  qed (simp add: char_beyond [OF assms(2)])
qed simp

lemma glyph_box: "glyph_set f c x y \<subseteq> rect_set x y 8 13"
  by (auto simp: glyph_set_def glyph_row_def bits_set_def rect_set_def)

lemma text_box: "text_set f s x y \<subseteq> rect_set x y (8 * int (length s)) 13"
proof (induction s arbitrary: x)
  case (Cons c s)
  have "rect_set (x + 8) y (8 * int (length s)) 13 \<subseteq> rect_set x y (8 * int (length (c # s))) 13"
    "rect_set x y 8 13 \<subseteq> rect_set x y (8 * int (length (c # s))) 13" by (auto simp: rect_set_def)
  then show ?case using Cons [of "x + 8"] glyph_box [of f c x y] by simp blast
qed simp

section \<open>What is drawn\<close>

text \<open>C22: A filled rectangle changes exactly its pixels that are on the screen, except that a rectangle which lies left of the screen (by more than
  nothing) is drawn over the whole width of its rows.
\<close>

theorem fill_rectangle_pixels:
  assumes "gr_ok g" "- 2147483648 \<le> x" "x + uint w < 4294967296" "- 2147483648 \<le> y" "y + uint h \<le> 2147483648" "uint h < 2147483648"
  shows "\<exists>g'. fill_rectangle g x y w h c = Some g' \<and> gr_like g g' \<and> (\<forall>px py. (px, py) \<in> area g \<longrightarrow>
    pixel g' (px, py) = (if y \<le> py \<and> py < y + uint h \<and> (x + uint w < 0 \<or> x \<le> px \<and> px < x + uint w) then pixel_bytes (gr_bpp g) c
      else pixel g (px, py)))"
proof -
  obtain g' where g': "fill_rectangle g x y w h c = Some g'" "gr_like g g'"
    "\<forall>p \<in> area g. pixel g' p = (if p \<in> filled_set x y (uint w) (uint h) then pixel_bytes (gr_bpp g) c else pixel g p)"
    using paints_inkE [OF fill_paints [OF assms]] by metis
  have "(px, py) \<in> filled_set x y (uint w) (uint h) \<longleftrightarrow> y \<le> py \<and> py < y + uint h \<and> (x + uint w < 0 \<or> x \<le> px \<and> px < x + uint w)" for px py
    by (simp add: filled_set_def)
  then show ?thesis using g' by (intro exI [of _ g'] conjI allI impI) simp_all
qed

definition ex_gr :: gr where
  "ex_gr = \<lparr>gr_width = 4, gr_height = 2, gr_pitch = 8, gr_bpp = 2, gr_fb = replicate 16 0\<rparr>"

lemma ex_gr_ok: "gr_ok ex_gr"
  by (simp add: gr_ok_def ex_gr_def)

theorem fill_rectangle_pixels_witness:
  "\<exists>g'. fill_rectangle ex_gr (- 3) 1 1 1 0x1234 = Some g' \<and> pixel g' (3, 1) = [0x34, 0x12] \<and> pixel g' (3, 0) = [0, 0]"
proof -
  obtain g' where g: "fill_rectangle ex_gr (- 3) 1 1 1 0x1234 = Some g'" and p: "\<And>px py. (px, py) \<in> area ex_gr \<Longrightarrow>
      pixel g' (px, py) = (if 1 \<le> py \<and> py < 1 + uint (1::u32) \<and> (- 3 + uint (1::u32) < 0 \<or> - 3 \<le> px \<and> px < - 3 + uint (1::u32))
        then pixel_bytes (gr_bpp ex_gr) 0x1234 else pixel ex_gr (px, py))"
    using fill_rectangle_pixels [OF ex_gr_ok, of "- 3" 1 1 1 "0x1234"] by auto
  have "(3, 1) \<in> area ex_gr" "(3, 0) \<in> area ex_gr" by (simp_all add: area_def ex_gr_def)
  from p [OF this(1)] p [OF this(2)] show ?thesis using g
    by (simp add: ex_gr_def pixel_bytes_def pixel_def upt_conv_Cons numeral_2_eq_2 [symmetric] drop_bit_eq_div)
qed

text \<open>C34: A line on the screen is drawn from one of its ends, one pixel for every step of its longer extent. Its other end is drawn if and only if the
  line is horizontal or vertical.
\<close>

theorem line_drawn:
  assumes "gr_ok g" "(x1, y1) \<in> area g" "(x2, y2) \<in> area g"
  shows "\<exists>g'. draw_line g x1 y1 x2 y2 c = Some g' \<and> gr_like g g' \<and>
      (\<forall>p \<in> area g. pixel g' p = (if p \<in> line_points x1 y1 x2 y2 then pixel_bytes (gr_bpp g) c else pixel g p)) \<and>
      ({(x1, y1), (x2, y2)} \<subseteq> line_points x1 y1 x2 y2 \<longleftrightarrow> x1 = x2 \<or> y1 = y2)"
proof -
  have "gr_width g < 32768" "gr_height g < 32768" using assms(1) by (simp_all add: gr_ok_def)
  then have "paints g (\<lambda>g. draw_line g x1 y1 x2 y2 c) (ink (line_points x1 y1 x2 y2) (pixel_bytes (gr_bpp g) c))"
    using assms by (intro line_paints) (auto simp: area_def)
  from paints_inkE [OF this] show ?thesis unfolding line_points_ends by metis
qed

theorem line_drawn_witness: "\<exists>g'. draw_line ex_gr 0 0 3 1 7 = Some g' \<and> (3, 1) \<in> area ex_gr \<and> \<not> {(0, 0), (3, 1)} \<subseteq> line_points 0 0 3 1"
proof -
  have a: "(0, 0) \<in> area ex_gr" "(3, 1) \<in> area ex_gr" by (simp_all add: area_def ex_gr_def)
  from line_drawn [OF ex_gr_ok a, of 7] show ?thesis using a(2) by auto
qed

text \<open>C35: Text that starts on the screen is drawn as the pixels of its characters in the font, inside of its extents, and text with a character that is
  not ASCII reads behind the table of the font.
\<close>

theorem text_drawn:
  assumes "gr_ok g" "font_ok f" "0 \<le> x" "x + fst (string_extents f s) < 1073741816"
  shows "(if \<forall>c \<in> set s. char_code c < 128
      then \<exists>g'. draw_string f g s x y col = Some g' \<and> gr_like g g' \<and>
        (\<forall>p \<in> area g. pixel g' p = (if p \<in> text_set f s x y then pixel_bytes (gr_bpp g) col else pixel g p))
      else draw_string f g s x y col = None) \<and>
    text_set f s x y \<subseteq> rect_set x y (fst (string_extents f s)) (snd (string_extents f s))"
proof -
  have e: "fst (string_extents f s) = 8 * int (length s)" "snd (string_extents f s) = 13" using assms(2) by (simp_all add: string_extents_def font_ok_def)
  show ?thesis
  proof (cases "\<forall>c \<in> set s. char_code c < 128")
    case True
    have "paints g (\<lambda>g. draw_string f g s x y col) (ink (text_set f s x y) (pixel_bytes (gr_bpp g) col))"
      by (rule string_paint [OF assms(1,2) True]) (use assms(3,4) e in simp_all)
    from paints_inkE [OF this] obtain g' where "draw_string f g s x y col = Some g'" "gr_like g g'"
      "\<forall>p \<in> area g. pixel g' p = (if p \<in> text_set f s x y then pixel_bytes (gr_bpp g) col else pixel g p)" by metis
    then have "\<exists>g'. draw_string f g s x y col = Some g' \<and> gr_like g g' \<and>
        (\<forall>p \<in> area g. pixel g' p = (if p \<in> text_set f s x y then pixel_bytes (gr_bpp g) col else pixel g p))" by blast
    then show ?thesis using text_box [of f s x y] unfolding e if_P [OF True] by blast
  next
    case False
    have "draw_string f g s x y col = None"
      by (rule string_beyond [OF assms(1,2) gr_like_refl]) (use assms(3,4) e False in \<open>auto simp: not_less\<close>)
    then show ?thesis using False text_box [of f s x y] e by auto
  qed
qed

definition ex_font :: font where
  "ex_font = \<lparr>font_width = 8, font_height = 13, font_data = replicate (128 * 13) 0xAA, font_pitch = 1\<rparr>"

theorem text_drawn_witness:
  "(\<exists>g'. draw_string ex_font ex_gr ''Pass'' 0 0 7 = Some g') \<and> draw_string ex_font ex_gr [CHR ''P'', char_of (228 :: nat)] 0 0 7 = None"
proof -
  have f: "font_ok ex_font" by (simp add: font_ok_def ex_font_def)
  have "(\<forall>c \<in> set ''Pass''. char_code c < 128)" "\<not> (\<forall>c \<in> set [CHR ''P'', char_of (228 :: nat)]. char_code c < 128)"
    by (simp_all add: char_code_def)
  then show ?thesis
    using text_drawn [OF ex_gr_ok f, of 0 "''Pass''" 0 7] text_drawn [OF ex_gr_ok f, of 0 "[CHR ''P'', char_of (228 :: nat)]" 0 7]
    by (auto simp: string_extents_def ex_font_def split: if_splits)
qed

end
