(* ===== verification/Oltk.thy ===== *)
theory Oltk
  imports Oltk_Draw
begin

text \<open>
  The widgets of the second suite, \<^verbatim>\<open>gta02-dm2/src/oltk/oltk.c\<close>, on the frame buffer of \<open>Oltk_Draw\<close>: buttons, the view of text, the popup with its own loop, the events of
  the touch screen, and the redraw. A pointer to a button is its index in \<open>zbuttons\<close> (buttons are freed at the end only), a pointer to a view or a popup its
  index in \<open>views\<close> or \<open>popups\<close>. A callback is a name; what the callbacks of the program do is the argument \<open>run_cb\<close>. \<open>int\<close> flags that are only 0 or 1
  are truth values. The list \<open>o_heap\<close> has the results of the coming allocations, and all of them succeed when it is used up; \<open>o_input\<close> has what the
  touch screen gives, and ends with the signal that ends the program.
\<close>

section \<open>The data\<close>

record oltk_rectangle =
  r_x :: int
  r_y :: int
  r_width :: int
  r_height :: int

datatype button_state = BUTTON_NORMAL | BUTTON_ACTIVE

datatype 'c click_cb = On_popup nat | On_popdown nat | On_click 'c

datatype draw_cb = On_button_draw | Draw_view nat

record 'c oltk_button =
  b_rect :: oltk_rectangle
  b_show :: bool
  b_sensitive :: bool
  b_name :: "string option"
  b_state :: button_state
  b_click :: "'c click_cb option"
  b_draw :: "draw_cb option"
  b_fg :: "u32 \<times> u32"
  b_bg :: "u32 \<times> u32"
  b_bd :: "u32 \<times> u32"
  b_update :: bool

record oltk_view =
  v_button :: nat
  v_text :: "string option"
  v_lines :: "nat list"
  v_xpad :: int
  v_ypad :: int
  v_xalign :: int
  v_yalign :: int

record 'c oltk_popup =
  p_button :: nat
  p_select :: "'c option"
  p_dialog :: nat
  p_items :: "nat list"
  p_run :: bool
  p_selected :: int

record sample =
  s_x :: int
  s_y :: int
  s_pressure :: u32

datatype input = In_sample sample | In_none | In_error int

record ('c, 'a) oltk =
  o_gr :: gr
  o_font :: font
  o_cmap :: "u32 list"
  o_var :: "(nat \<times> nat) \<times> (nat \<times> nat) \<times> (nat \<times> nat)"
  zbuttons :: "'c oltk_button list"
  zsize :: nat
  o_abort :: bool
  depressed :: "nat option"
  o_fg :: "u32 \<times> u32"
  o_bg :: "u32 \<times> u32"
  o_bd :: "u32 \<times> u32"
  color_index :: nat
  invalid_rect :: oltk_rectangle
  views :: "oltk_view list"
  popups :: "'c oltk_popup list"
  o_heap :: "bool list"
  o_input :: "input list"
  app :: 'a

definition set_button :: "nat \<Rightarrow> ('c oltk_button \<Rightarrow> 'c oltk_button) \<Rightarrow> ('c, 'a) oltk \<Rightarrow> ('c, 'a) oltk option" where
  "set_button b f s = do { x \<leftarrow> rd (zbuttons s) b; Some (s\<lparr>zbuttons := (zbuttons s)[b := f x]\<rparr>) }"

definition set_view :: "nat \<Rightarrow> (oltk_view \<Rightarrow> oltk_view) \<Rightarrow> ('c, 'a) oltk \<Rightarrow> ('c, 'a) oltk option" where
  "set_view v f s = do { x \<leftarrow> rd (views s) v; Some (s\<lparr>views := (views s)[v := f x]\<rparr>) }"

definition set_popup :: "nat \<Rightarrow> ('c oltk_popup \<Rightarrow> 'c oltk_popup) \<Rightarrow> ('c, 'a) oltk \<Rightarrow> ('c, 'a) oltk option" where
  "set_popup p f s = do { x \<leftarrow> rd (popups s) p; Some (s\<lparr>popups := (popups s)[p := f x]\<rparr>) }"

definition malloc :: "('c, 'a) oltk \<Rightarrow> bool \<times> ('c, 'a) oltk" where
  "malloc s = (case o_heap s of [] \<Rightarrow> (True, s) | ok # h \<Rightarrow> (ok, s\<lparr>o_heap := h\<rparr>))"

section \<open>Colours\<close>

text \<open>A colour in the format of the frame buffer; shifting by a negative count is undefined.\<close>

definition pack_color :: "(nat \<times> nat) \<times> (nat \<times> nat) \<times> (nat \<times> nat) \<Rightarrow> nat \<times> nat \<times> nat \<Rightarrow> u32 option" where
  "pack_color var rgb =
     (case (var, rgb) of (((rl, ro), (gl, go), (bl, bo)), (r, g, b)) \<Rightarrow>
        let part = (\<lambda>c l sh. push_bit sh (word_of_nat (drop_bit (8 - l) ((c + 0x80) div 256)) :: u32))
        in if rl > 8 \<or> gl > 8 \<or> bl > 8 then None else Some (part r rl ro OR part g gl go OR part b bl bo))"

fun set_colors :: "int \<Rightarrow> (nat \<times> nat) \<times> (nat \<times> nat) \<times> (nat \<times> nat) \<Rightarrow> u32 list \<Rightarrow> nat \<Rightarrow> (nat \<times> nat \<times> nat) list \<Rightarrow> u32 list option" where
  "set_colors bpp var cmap index [] = Some cmap"
| "set_colors bpp var cmap index (rgb # rgbs) = do {
     c \<leftarrow> (if bpp = 2 \<or> bpp = 4 then pack_color var rgb else Some (word_of_nat index));
     cmap \<leftarrow> wr cmap index c;
     set_colors bpp var cmap (index + 1) rgbs
   }"

abbreviation (input) N_COLORS :: nat where "N_COLORS \<equiv> 256"

definition gr_fb_set_color :: "int \<Rightarrow> (nat \<times> nat) \<times> (nat \<times> nat) \<times> (nat \<times> nat) \<Rightarrow> u32 list \<Rightarrow> nat \<Rightarrow> (nat \<times> nat \<times> nat) list \<Rightarrow> u32 list option" where
  "gr_fb_set_color bpp var cmap index rgbs =
     (if index \<ge> N_COLORS then Some cmap
      else set_colors bpp var cmap index (if index + length rgbs \<ge> N_COLORS then take (N_COLORS - index) rgbs else rgbs))"

definition gr_fb_get_color :: "u32 list \<Rightarrow> nat \<Rightarrow> u32 option" where
  "gr_fb_get_color cmap index = (if index \<ge> N_COLORS then Some 0 else rd cmap index)"

text \<open>A colour 0xrrggbb with 16 bits for each part.\<close>

definition gr_rgb :: "u32 \<Rightarrow> nat \<times> nat \<times> nat" where
  "gr_rgb c = (unat (push_bit 8 (drop_bit 16 c AND 0xff)), unat (push_bit 8 (drop_bit 8 c AND 0xff)), unat (push_bit 8 (c AND 0xff)))"

datatype button_color = COLOR_FG | COLOR_BG | COLOR_BD

definition put_state :: "button_state \<Rightarrow> 'v \<Rightarrow> 'v \<times> 'v \<Rightarrow> 'v \<times> 'v" where
  "put_state st v p = (case st of BUTTON_NORMAL \<Rightarrow> (v, snd p) | BUTTON_ACTIVE \<Rightarrow> (fst p, v))"

definition in_state :: "button_state \<Rightarrow> 'v \<times> 'v \<Rightarrow> 'v" where
  "in_state st p = (case st of BUTTON_NORMAL \<Rightarrow> fst p | BUTTON_ACTIVE \<Rightarrow> snd p)"

definition oltk_button_set_color :: "nat \<Rightarrow> button_state \<Rightarrow> button_color \<Rightarrow> u32 \<Rightarrow> ('c, 'a) oltk \<Rightarrow> ('c, 'a) oltk option" where
  "oltk_button_set_color b st color rgb s = do {
     cm \<leftarrow> gr_fb_set_color (gr_bpp (o_gr s)) (o_var s) (o_cmap s) (color_index s) [gr_rgb rgb];
     c \<leftarrow> gr_fb_get_color cm (color_index s);
     set_button b (\<lambda>x. case color of
         COLOR_FG \<Rightarrow> x\<lparr>b_fg := put_state st c (b_fg x)\<rparr>
       | COLOR_BG \<Rightarrow> x\<lparr>b_bg := put_state st c (b_bg x)\<rparr>
       | COLOR_BD \<Rightarrow> x\<lparr>b_bd := put_state st c (b_bd x)\<rparr>) (s\<lparr>o_cmap := cm, color_index := color_index s + 1\<rparr>)
   }"

definition theme_state :: "button_state \<Rightarrow> u32 \<times> u32 \<Rightarrow> u32 \<times> u32 \<Rightarrow> u32 \<times> u32 \<Rightarrow> ('c, 'a) oltk \<Rightarrow> ('c, 'a) oltk option" where
  "theme_state st fg bg bd s = do {
     let i = color_index s;
     cm \<leftarrow> gr_fb_set_color (gr_bpp (o_gr s)) (o_var s) (o_cmap s) i (map (\<lambda>c. gr_rgb (in_state st c)) [fg, bg, bd]);
     f \<leftarrow> gr_fb_get_color cm i;
     b \<leftarrow> gr_fb_get_color cm (i + 1);
     d \<leftarrow> gr_fb_get_color cm (i + 2);
     Some (s\<lparr>o_cmap := cm, o_fg := put_state st f (o_fg s), o_bg := put_state st b (o_bg s), o_bd := put_state st d (o_bd s), color_index := i + 3\<rparr>)
   }"

definition oltk_set_theme :: "u32 \<times> u32 \<Rightarrow> u32 \<times> u32 \<Rightarrow> u32 \<times> u32 \<Rightarrow> ('c, 'a) oltk \<Rightarrow> ('c, 'a) oltk option" where
  "oltk_set_theme fg bg bd s = Option.bind (theme_state BUTTON_NORMAL fg bg bd s) (theme_state BUTTON_ACTIVE fg bg bd)"

section \<open>The damaged rectangle\<close>

definition oltk_invalidate :: "oltk_rectangle \<Rightarrow> oltk_rectangle \<Rightarrow> oltk_rectangle option" where
  "oltk_invalidate old rect = do {
     a \<leftarrow> ck_int (r_width old * r_height old);
     if a = 0 then Some rect
     else do {
       let l = r_x old;
       r \<leftarrow> ck_int (r_x old + r_width old);
       let t = r_y old;
       b \<leftarrow> ck_int (r_y old + r_height old);
       let l = (if r_x rect < l then r_x rect else l);
       r' \<leftarrow> ck_int (r_x rect + r_width rect);
       let r = (if r' > r then r' else r);
       let t = (if r_y rect < t then r_y rect else t);
       b' \<leftarrow> ck_int (r_y rect + r_height rect);
       let b = (if b' > b then b' else b);
       w \<leftarrow> ck_int (r - l);
       h \<leftarrow> ck_int (b - t);
       Some \<lparr>r_x = l, r_y = t, r_width = w, r_height = h\<rparr>
     }
   }"

definition rect_intersect :: "oltk_rectangle \<Rightarrow> oltk_rectangle \<Rightarrow> bool \<times> oltk_rectangle" where
  "rect_intersect rect1 rect2 =
     (let empty = (False, rect1\<lparr>r_width := 0\<rparr>)
      in if r_width rect1 = 0 \<or> r_height rect1 = 0 \<or> r_width rect2 = 0 \<or> r_height rect2 = 0 then empty
         else
           let l = r_x rect1; r = r_x rect1 + r_width rect1; t = r_y rect1; b = r_y rect1 + r_height rect1;
               l = (if l < r_x rect2 then r_x rect2 else l);
               r = (if r > r_x rect2 + r_width rect2 then r_x rect2 + r_width rect2 else r)
           in if l \<ge> r then empty
              else
                let t = (if t < r_y rect2 then r_y rect2 else t);
                    b = (if b > r_y rect2 + r_height rect2 then r_y rect2 + r_height rect2 else b)
                in if t \<ge> b then empty else (True, \<lparr>r_x = l, r_y = t, r_width = r - l, r_height = b - t\<rparr>))"

section \<open>Buttons\<close>

definition new_button :: "('c, 'a) oltk \<Rightarrow> int \<Rightarrow> int \<Rightarrow> int \<Rightarrow> int \<Rightarrow> 'c oltk_button" where
  "new_button s x y width height =
     \<lparr>b_rect = \<lparr>r_x = x, r_y = y, r_width = width, r_height = height\<rparr>, b_show = False, b_sensitive = True, b_name = None,
      b_state = BUTTON_NORMAL, b_click = None, b_draw = Some On_button_draw, b_fg = o_fg s, b_bg = o_bg s, b_bd = o_bd s, b_update = True\<rparr>"

definition oltk_button_add :: "('c, 'a) oltk \<Rightarrow> int \<Rightarrow> int \<Rightarrow> int \<Rightarrow> int \<Rightarrow> nat option \<times> ('c, 'a) oltk" where
  "oltk_button_add s x y width height =
     (let (ok, s) = (if length (zbuttons s) \<ge> zsize s then
            (let (ok, s) = malloc s in (ok, if ok then s\<lparr>zsize := zsize s * 2\<rparr> else s)) else (True, s))
      in if \<not> ok then (None, s)
         else
           let (ok, s) = malloc s
           in if \<not> ok then (None, s)
              else (Some (length (zbuttons s)), s\<lparr>zbuttons := zbuttons s @ [new_button s x y width height]\<rparr>))"

definition oltk_button_set_cb :: "nat \<Rightarrow> 'c click_cb \<Rightarrow> ('c, 'a) oltk \<Rightarrow> ('c, 'a) oltk option" where
  "oltk_button_set_cb b cb = set_button b (\<lambda>x. x\<lparr>b_click := Some cb\<rparr>)"

definition oltk_button_set_draw :: "nat \<Rightarrow> draw_cb \<Rightarrow> ('c, 'a) oltk \<Rightarrow> ('c, 'a) oltk option" where
  "oltk_button_set_draw b cb = set_button b (\<lambda>x. x\<lparr>b_draw := Some cb\<rparr>)"

definition oltk_button_sensitive :: "nat \<Rightarrow> bool \<Rightarrow> ('c, 'a) oltk \<Rightarrow> ('c, 'a) oltk option" where
  "oltk_button_sensitive b v = set_button b (\<lambda>x. x\<lparr>b_sensitive := v\<rparr>)"

definition oltk_button_show :: "nat \<Rightarrow> bool \<Rightarrow> ('c, 'a) oltk \<Rightarrow> ('c, 'a) oltk option" where
  "oltk_button_show b v s = do {
     x \<leftarrow> rd (zbuttons s) b;
     if b_show x \<noteq> v then do {
       s \<leftarrow> set_button b (\<lambda>x. x\<lparr>b_show := v, b_update := True\<rparr>) s;
       if \<not> v then map_option (\<lambda>r. s\<lparr>invalid_rect := r\<rparr>) (oltk_invalidate (invalid_rect s) (b_rect x)) else Some s
     } else Some s
   }"

definition oltk_button_set_name :: "nat \<Rightarrow> string option \<Rightarrow> ('c, 'a) oltk \<Rightarrow> ('c, 'a) oltk option" where
  "oltk_button_set_name b name = set_button b (\<lambda>x. x\<lparr>b_name := name, b_update := True\<rparr>)"

type_synonym ('c, 'a) cb_runner = "'c click_cb \<Rightarrow> nat \<Rightarrow> ('c, 'a) oltk \<Rightarrow> ('c, 'a) oltk option"

definition oltk_button_click :: "('c, 'a) cb_runner \<Rightarrow> nat \<Rightarrow> ('c, 'a) oltk \<Rightarrow> ('c, 'a) oltk option" where
  "oltk_button_click run_cb b s = do {
     x \<leftarrow> rd (zbuttons s) b;
     (case b_click x of None \<Rightarrow> Some s | Some cb \<Rightarrow> run_cb cb b s)
   }"

definition has_point :: "oltk_rectangle \<Rightarrow> int \<Rightarrow> int \<Rightarrow> bool" where
  "has_point r px py \<longleftrightarrow> px \<ge> r_x r \<and> px < r_x r + r_width r \<and> py \<ge> r_y r \<and> py < r_y r + r_height r"

definition set_state :: "nat \<Rightarrow> button_state \<Rightarrow> ('c, 'a) oltk \<Rightarrow> ('c, 'a) oltk option" where
  "set_state b st = set_button b (\<lambda>x. x\<lparr>b_state := st\<rparr>)"

definition button_press :: "('c, 'a) cb_runner \<Rightarrow> nat \<Rightarrow> 'c oltk_button \<Rightarrow> sample option \<Rightarrow> ('c, 'a) oltk \<Rightarrow> (bool \<times> ('c, 'a) oltk) option" where
  "button_press run_cb b x e s =
     (case e of
        Some ev \<Rightarrow>
          if has_point (b_rect x) (s_x ev) (s_y ev) then
            map_option (Pair True)
              (if s_pressure ev \<noteq> 0 then (if b_state x = BUTTON_NORMAL then set_state b BUTTON_ACTIVE s else Some s)
               else if b_state x = BUTTON_ACTIVE then Option.bind (set_state b BUTTON_NORMAL s) (oltk_button_click run_cb b)
               else Some s)
          else map_option (Pair False) (if b_state x = BUTTON_ACTIVE then set_state b BUTTON_NORMAL s else Some s)
      | None \<Rightarrow> map_option (Pair False) (if b_state x = BUTTON_ACTIVE then set_state b BUTTON_NORMAL s else Some s))"

definition button_handle :: "('c, 'a) cb_runner \<Rightarrow> nat \<Rightarrow> sample option \<Rightarrow> ('c, 'a) oltk \<Rightarrow> (bool \<times> ('c, 'a) oltk) option" where
  "button_handle run_cb b e s = do {
     x \<leftarrow> rd (zbuttons s) b;
     if \<not> b_show x \<or> \<not> b_sensitive x then Some (False, s)
     else do {
       (handled, s) \<leftarrow> button_press run_cb b x e s;
       y \<leftarrow> rd (zbuttons s) b;
       s \<leftarrow> (if b_state x \<noteq> b_state y then set_button b (\<lambda>x. x\<lparr>b_update := True\<rparr>) s else Some s);
       Some (handled, s)
     }
   }"

section \<open>The view\<close>

text \<open>
  \<open>text\<close> is the array without its last NUL. The lines are the offsets where they begin; \<open>strchr\<close> is called with NULL when the loop goes on behind the last
  newline.
\<close>

abbreviation (input) NEWLINE :: char where "NEWLINE \<equiv> CHR 0x0A"

function count_lines :: "string \<Rightarrow> nat" where
  "count_lines p = (case c_strchr p NEWLINE of None \<Rightarrow> if p \<noteq> [] then 1 else 0 | Some i \<Rightarrow> Suc (count_lines (drop (i + 1) p)))"
  by auto
termination by (relation "measure length") (auto dest: c_strchr_Some)

declare count_lines.simps [simp del]

fun view_fill :: "string \<Rightarrow> nat option \<Rightarrow> nat \<Rightarrow> (string \<times> nat list) option" where
  "view_fill text pos 0 = Some (text, [])"
| "view_fill text pos (Suc n) = do {
     p \<leftarrow> pos;
     let nl = c_strchr (c_str (drop p text)) NEWLINE;
     let text = (case nl of None \<Rightarrow> text | Some i \<Rightarrow> text[p + i := NUL]);
     (text, ls) \<leftarrow> view_fill text (map_option (\<lambda>i. p + i + 1) nl) n;
     Some (text, p # ls)
   }"

definition view_split_lines :: "nat \<Rightarrow> ('c, 'a) oltk \<Rightarrow> ('c, 'a) oltk option" where
  "view_split_lines v s = do {
     x \<leftarrow> rd (views s) v;
     (case v_text x of
        None \<Rightarrow> set_view v (\<lambda>x. x\<lparr>v_lines := []\<rparr>) s
      | Some text \<Rightarrow>
          let n = count_lines (c_str text); (ok, s) = malloc s
          in if \<not> ok \<and> n > 0 then None
             else do { (text, ls) \<leftarrow> view_fill text (Some 0) n; set_view v (\<lambda>x. x\<lparr>v_text := Some text, v_lines := ls\<rparr>) s })
   }"

definition update_view :: "nat \<Rightarrow> ('c, 'a) oltk \<Rightarrow> ('c, 'a) oltk option" where
  "update_view v s = do { x \<leftarrow> rd (views s) v; set_button (v_button x) (\<lambda>b. b\<lparr>b_update := True\<rparr>) s }"

definition oltk_view_set_text :: "nat \<Rightarrow> string option \<Rightarrow> ('c, 'a) oltk \<Rightarrow> ('c, 'a) oltk option" where
  "oltk_view_set_text v text s = do {
     let (ok, s) = (case text of None \<Rightarrow> (True, s) | Some _ \<Rightarrow> malloc s);
     s \<leftarrow> set_view v (\<lambda>x. x\<lparr>v_text := (if ok then text else None)\<rparr>) s;
     s \<leftarrow> view_split_lines v s;
     update_view v s
   }"

text \<open>The block has the size of both strings, without room for the NUL that \<open>strcpy\<close> writes.\<close>

definition oltk_view_append_text :: "nat \<Rightarrow> string \<Rightarrow> ('c, 'a) oltk \<Rightarrow> ('c, 'a) oltk option" where
  "oltk_view_append_text v text s = do {
     x \<leftarrow> rd (views s) v;
     (case v_text x of
        None \<Rightarrow> oltk_view_set_text v (Some text) s
      | Some t \<Rightarrow>
          let old = c_str t; size = length old + length text; (ok, s) = malloc s
          in if \<not> ok then Some s
             else do {
               p \<leftarrow> wrn (replicate size NUL) 0 (old @ [NUL]);
               p \<leftarrow> wrn p (length old) (text @ [NUL]);
               s \<leftarrow> set_view v (\<lambda>x. x\<lparr>v_text := Some (c_str p)\<rparr>) s;
               s \<leftarrow> view_split_lines v s;
               update_view v s
             })
   }"

definition oltk_view_add :: "('c, 'a) oltk \<Rightarrow> int \<Rightarrow> int \<Rightarrow> int \<Rightarrow> int \<Rightarrow> (nat option \<times> ('c, 'a) oltk) option" where
  "oltk_view_add s x y width height =
     (let (ok, s) = malloc s
      in if \<not> ok then Some (None, s)
         else do {
           let v = length (views s);
           let (b, s) = oltk_button_add s x y width height;
           b \<leftarrow> b;
           let s = s\<lparr>views := views s @
             [\<lparr>v_button = b, v_text = None, v_lines = [], v_xpad = 5, v_ypad = 5, v_xalign = 50, v_yalign = 50\<rparr>]\<rparr>;
           s \<leftarrow> oltk_button_sensitive b False s;
           s \<leftarrow> oltk_button_show b True s;
           s \<leftarrow> oltk_button_set_draw b (Draw_view v) s;
           Some (Some v, s)
         })"

section \<open>Drawing\<close>

definition on_button_draw :: "font \<Rightarrow> 'c oltk_button \<Rightarrow> gr \<Rightarrow> gr option" where
  "on_button_draw f b g = do {
     let r = b_rect b;
     g \<leftarrow> draw_rectangle g (r_x r) (r_y r) (r_width r) (r_height r) True (in_state (b_state b) (b_bg b));
     g \<leftarrow> draw_rectangle g (r_x r) (r_y r) (r_width r) (r_height r) False (in_state (b_state b) (b_bd b));
     (case b_name b of
        None \<Rightarrow> Some g
      | Some name \<Rightarrow> put_string_center f g (r_x r + r_width r sdiv 2) (r_y r + r_height r sdiv 2) name (in_state (b_state b) (b_fg b)))
   }"

definition line_text :: "string \<Rightarrow> nat \<Rightarrow> string" where
  "line_text text p = c_str (drop p text)"

definition view_extents :: "font \<Rightarrow> string list \<Rightarrow> int \<times> int" where
  "view_extents f ls = fold (\<lambda>l (width, height). let (w, h) = string_extents f l in (if w > width then w else width, height + h)) ls (0, 0)"

fun draw_lines :: "font \<Rightarrow> string list \<Rightarrow> int \<Rightarrow> int \<Rightarrow> int \<Rightarrow> u32 \<Rightarrow> gr \<Rightarrow> gr option" where
  "draw_lines f [] x y height c g = Some g"
| "draw_lines f (l # ls) x y height c g = do {
     g \<leftarrow> draw_string f g l x y c;
     y \<leftarrow> ck_int (y + height);
     draw_lines f ls x y height c g
   }"

definition draw_view :: "font \<Rightarrow> oltk_view \<Rightarrow> 'c oltk_button \<Rightarrow> gr \<Rightarrow> gr option" where
  "draw_view f v b g = do {
     let r = b_rect b;
     g \<leftarrow> draw_rectangle g (r_x r) (r_y r) (r_width r) (r_height r) True (in_state (b_state b) (b_bg b));
     g \<leftarrow> draw_rectangle g (r_x r) (r_y r) (r_width r) (r_height r) False (in_state (b_state b) (b_bd b));
     if v_lines v = [] then Some g
     else do {
       text \<leftarrow> v_text v;
       let ls = map (line_text text) (v_lines v);
       let (width, height) = view_extents f ls;
       dx \<leftarrow> ck_int ((r_width r - 2 * v_xpad v - width) * v_xalign v);
       dy \<leftarrow> ck_int ((r_height r - 2 * v_ypad v - height) * v_yalign v);
       draw_lines f ls (r_x r + v_xpad v + dx sdiv 100) (r_y r + v_ypad v + dy sdiv 100) (height sdiv int (length ls))
         (in_state (b_state b) (b_fg b)) g
     }
   }"

definition draw_widget :: "('c, 'a) oltk \<Rightarrow> 'c oltk_button \<Rightarrow> gr \<Rightarrow> gr option" where
  "draw_widget s b g =
     (case b_draw b of
        None \<Rightarrow> Some g
      | Some On_button_draw \<Rightarrow> on_button_draw (o_font s) b g
      | Some (Draw_view v) \<Rightarrow> Option.bind (rd (views s) v) (\<lambda>v. draw_view (o_font s) v b g))"

definition redraw_button :: "nat \<Rightarrow> ('c, 'a) oltk \<Rightarrow> ('c, 'a) oltk option" where
  "redraw_button i s = do {
     b \<leftarrow> rd (zbuttons s) i;
     s \<leftarrow> (if b_show b \<and> (b_update b \<or> fst (rect_intersect (invalid_rect s) (b_rect b))) then do {
              g \<leftarrow> draw_widget s b (o_gr s);
              r \<leftarrow> oltk_invalidate (invalid_rect s) (b_rect b);
              Some (s\<lparr>o_gr := g, invalid_rect := r\<rparr>)
            } else Some s);
     set_button i (\<lambda>b. b\<lparr>b_update := False\<rparr>) s
   }"

fun redraw_buttons :: "nat list \<Rightarrow> ('c, 'a) oltk \<Rightarrow> ('c, 'a) oltk option" where
  "redraw_buttons [] s = Some s"
| "redraw_buttons (i # is) s = Option.bind (redraw_button i s) (redraw_buttons is)"

definition oltk_redraw :: "('c, 'a) oltk \<Rightarrow> ('c, 'a) oltk option" where
  "oltk_redraw s = do {
     let r = invalid_rect s;
     a \<leftarrow> ck_int (r_width r * r_height r);
     g \<leftarrow> (if a \<noteq> 0 then draw_rectangle (o_gr s) (r_x r) (r_y r) (r_width r) (r_height r) True 0 else Some (o_gr s));
     s \<leftarrow> redraw_buttons [0..<length (zbuttons s)] (s\<lparr>o_gr := g\<rparr>);
     Some (s\<lparr>invalid_rect := (invalid_rect s)\<lparr>r_width := 0\<rparr>\<rparr>)
   }"

section \<open>Events\<close>

text \<open>What \<open>oltk_listen\<close> gets: the code or the sample, the rest of the input, and whether the signal came.\<close>

fun listen_in :: "input list \<Rightarrow> (int + sample) \<times> input list \<times> bool" where
  "listen_in [] = (Inl (- 1), [], True)"
| "listen_in (In_none # is) = listen_in is"
| "listen_in (In_error r # is) = (Inl r, is, False)"
| "listen_in (In_sample e # is) = (Inr e, is, False)"

definition oltk_listen :: "('c, 'a) oltk \<Rightarrow> (int + sample) \<times> ('c, 'a) oltk" where
  "oltk_listen s =
     (if o_abort s then (Inl (- 1), s)
      else case listen_in (o_input s) of (r, is, ended) \<Rightarrow> (r, s\<lparr>o_input := is, o_abort := ended\<rparr>))"

fun feed_from :: "('c, 'a) cb_runner \<Rightarrow> sample \<Rightarrow> nat \<Rightarrow> ('c, 'a) oltk \<Rightarrow> ('c, 'a) oltk option" where
  "feed_from run_cb e 0 s = Some (s\<lparr>depressed := None\<rparr>)"
| "feed_from run_cb e (Suc i) s = do {
     (handled, s) \<leftarrow> button_handle run_cb i (Some e) s;
     if handled then do {
       s \<leftarrow> (case depressed s of
              Some d \<Rightarrow> if d \<noteq> i then map_option snd (button_handle run_cb d None s) else Some s
            | None \<Rightarrow> Some s);
       b \<leftarrow> rd (zbuttons s) i;
       Some (s\<lparr>depressed := if b_state b = BUTTON_ACTIVE then Some i else None\<rparr>)
     } else feed_from run_cb e i s
   }"

definition oltk_feed :: "('c, 'a) cb_runner \<Rightarrow> sample \<Rightarrow> ('c, 'a) oltk \<Rightarrow> ('c, 'a) oltk option" where
  "oltk_feed run_cb e s = feed_from run_cb e (length (zbuttons s)) s"

text \<open>The passes of the loop of \<open>oltk_msleep\<close>, each of which throws away the samples that are there.\<close>

fun drop_samples :: "input list \<Rightarrow> input list" where
  "drop_samples (In_sample e # is) = drop_samples is"
| "drop_samples (In_none # is) = is"
| "drop_samples (In_error r # is) = is"
| "drop_samples [] = []"

definition oltk_msleep :: "nat \<Rightarrow> ('c, 'a) oltk \<Rightarrow> ('c, 'a) oltk" where
  "oltk_msleep passes s = s\<lparr>o_input := (drop_samples ^^ passes) (o_input s)\<rparr>"

section \<open>The popup\<close>

fun index_of :: "nat \<Rightarrow> nat list \<Rightarrow> nat option" where
  "index_of b [] = None"
| "index_of b (i # is) = (if b = i then Some 0 else map_option Suc (index_of b is))"

definition on_popdown :: "nat \<Rightarrow> nat \<Rightarrow> ('c, 'a) oltk \<Rightarrow> ('c, 'a) oltk option" where
  "on_popdown p b = set_popup p (\<lambda>x. x\<lparr>p_run := False, p_selected := (case index_of b (p_items x) of None \<Rightarrow> p_selected x | Some i \<Rightarrow> int i)\<rparr>)"

type_synonym ('c, 'a) sel_runner = "'c \<Rightarrow> nat \<Rightarrow> int \<Rightarrow> ('c, 'a) oltk \<Rightarrow> ('c, 'a) oltk option"

definition oltk_popup_set_selected :: "('c, 'a) sel_runner \<Rightarrow> nat \<Rightarrow> int \<Rightarrow> ('c, 'a) oltk \<Rightarrow> (bool \<times> ('c, 'a) oltk) option" where
  "oltk_popup_set_selected run_sel p sel s = do {
     x \<leftarrow> rd (popups s) p;
     if sel < 0 \<or> sel \<ge> int (length (p_items x)) then Some (False, s)
     else do {
       s \<leftarrow> set_popup p (\<lambda>x. x\<lparr>p_selected := sel\<rparr>) s;
       item \<leftarrow> rd (p_items x) (nat sel);
       b \<leftarrow> rd (zbuttons s) item;
       s \<leftarrow> oltk_button_set_name (p_button x) (b_name b) s;
       c \<leftarrow> p_select x;
       s \<leftarrow> run_sel c p sel s;
       Some (True, s)
     }
   }"

fun popup_items :: "('c, 'a) cb_runner \<Rightarrow> nat list \<Rightarrow> sample option \<Rightarrow> ('c, 'a) oltk \<Rightarrow> ('c, 'a) oltk option" where
  "popup_items run_cb [] e s = Some s"
| "popup_items run_cb (b # bs) e s = do {
     (handled, s) \<leftarrow> button_handle run_cb b e s;
     popup_items run_cb bs (if handled then None else e) s
   }"

partial_function (option) popup_loop :: "('c, 'a) cb_runner \<Rightarrow> nat \<Rightarrow> ('c, 'a) oltk \<Rightarrow> ('c, 'a) oltk option" where
  "popup_loop run_cb p s = do {
     x \<leftarrow> rd (popups s) p;
     if \<not> p_run x then Some s
     else (case oltk_listen s of
         (Inl ret, s) \<Rightarrow> Some s
       | (Inr e, s) \<Rightarrow> do {
           s \<leftarrow> popup_items run_cb (p_items x) (Some e) s;
           x \<leftarrow> rd (popups s) p;
           s \<leftarrow> (if p_run x then oltk_redraw s else Some s);
           popup_loop run_cb p s
         })
   }"

fun show_all :: "bool \<Rightarrow> nat list \<Rightarrow> ('c, 'a) oltk \<Rightarrow> ('c, 'a) oltk option" where
  "show_all v [] s = Some s"
| "show_all v (b # bs) s = Option.bind (oltk_button_show b v s) (show_all v bs)"

definition on_popup :: "('c, 'a) cb_runner \<Rightarrow> ('c, 'a) sel_runner \<Rightarrow> nat \<Rightarrow> ('c, 'a) oltk \<Rightarrow> ('c, 'a) oltk option" where
  "on_popup run_cb run_sel p s = do {
     s \<leftarrow> set_popup p (\<lambda>x. x\<lparr>p_run := True, p_selected := - 1\<rparr>) s;
     x \<leftarrow> rd (popups s) p;
     s \<leftarrow> oltk_button_show (p_dialog x) True s;
     s \<leftarrow> show_all True (p_items x) s;
     s \<leftarrow> oltk_redraw s;
     s \<leftarrow> popup_loop run_cb p s;
     s \<leftarrow> show_all False (p_items x) s;
     s \<leftarrow> oltk_button_show (p_dialog x) False s;
     x \<leftarrow> rd (popups s) p;
     map_option snd (oltk_popup_set_selected run_sel p (p_selected x) s)
   }"

text \<open>The grid of the items: 8 rows on a screen of 640 lines, and every row that does not fit starts the same second column.\<close>

fun add_items :: "nat \<Rightarrow> oltk_rectangle \<Rightarrow> int \<Rightarrow> int \<Rightarrow> int \<Rightarrow> nat \<Rightarrow> ('c, 'a) oltk \<Rightarrow> (nat list \<times> ('c, 'a) oltk) option" where
  "add_items p dlg n_items x y 0 s = Some ([], s)"
| "add_items p dlg n_items x y (Suc k) s = do {
     let (b, s) = oltk_button_add s x y 100 40;
     b \<leftarrow> b;
     s \<leftarrow> oltk_button_set_cb b (On_popdown p) s;
     let y = y + (40 + 40);
     let (x, y) = (if y \<ge> gr_height (o_gr s) then (r_x dlg + 40 * (n_items div 6 + 1) + 100, r_y dlg + 25) else (x, y));
     (bs, s) \<leftarrow> add_items p dlg n_items x y k s;
     Some (b # bs, s)
   }"

definition oltk_popup_add :: "('c, 'a) oltk \<Rightarrow> int \<Rightarrow> int \<Rightarrow> int \<Rightarrow> int \<Rightarrow> nat \<Rightarrow> (nat option \<times> ('c, 'a) oltk) option" where
  "oltk_popup_add s x y width height n =
     (let (ok, s) = malloc s
      in if \<not> ok then Some (None, s)
         else do {
           let p = length (popups s);
           let (b, s) = oltk_button_add s x y width height;
           b \<leftarrow> b;
           s \<leftarrow> oltk_button_show b True s;
           s \<leftarrow> oltk_button_set_cb b (On_popup p) s;
           let (ok, s) = malloc s;
           let dw = (100 + 20) * (int n div 6 + 1) + 20;
           let dh = (30 + 40) * int n;
           let dh = (if dh \<ge> gr_height (o_gr s) then gr_height (o_gr s) else dh);
           let (d, s) = oltk_button_add s x y dw dh;
           d \<leftarrow> d;
           s \<leftarrow> oltk_button_sensitive d False s;
           (items, s) \<leftarrow> (if ok \<or> n = 0 then add_items p \<lparr>r_x = x, r_y = y, r_width = dw, r_height = dh\<rparr> (int n) (x + 40) (y + 25) n s else None);
           Some (Some p, s\<lparr>popups := popups s @
             [\<lparr>p_button = b, p_select = None, p_dialog = d, p_items = items, p_run = False, p_selected = 0\<rparr>]\<rparr>)
         })"

definition oltk_popup_entry :: "nat \<Rightarrow> int \<Rightarrow> string option \<Rightarrow> ('c, 'a) oltk \<Rightarrow> ('c, 'a) oltk option" where
  "oltk_popup_entry p i name s = do {
     x \<leftarrow> rd (popups s) p;
     if i \<ge> int (length (p_items x)) then Some s
     else if i < 0 then None
     else do { b \<leftarrow> rd (p_items x) (nat i); oltk_button_set_name b name s }
   }"

definition oltk_popup_set_cb :: "nat \<Rightarrow> 'c \<Rightarrow> ('c, 'a) oltk \<Rightarrow> ('c, 'a) oltk option" where
  "oltk_popup_set_cb p cb = set_popup p (\<lambda>x. x\<lparr>p_select := Some cb\<rparr>)"

definition oltk_popup_get_selected :: "nat \<Rightarrow> ('c, 'a) oltk \<Rightarrow> int option" where
  "oltk_popup_get_selected p s = map_option p_selected (rd (popups s) p)"

section \<open>Start\<close>

text \<open>Some None is the NULL pointer that \<open>oltk_new\<close> returns.\<close>

definition oltk_new ::
  "bool list \<Rightarrow> gr option \<Rightarrow> font \<Rightarrow> u32 list \<Rightarrow> (nat \<times> nat) \<times> (nat \<times> nat) \<times> (nat \<times> nat) \<Rightarrow> input list \<Rightarrow> 'a \<Rightarrow> ('c, 'a) oltk option option" where
  "oltk_new heap gr font cmap var inp a =
     (let alloc = (\<lambda>h :: bool list. case h of [] \<Rightarrow> (True, []) | ok # h \<Rightarrow> (ok, h));
          (ok, heap) = alloc heap
      in if \<not> ok \<or> gr = None then Some None
         else
           let (ok, heap) = alloc heap
           in if \<not> ok then Some None
              else do {
                g \<leftarrow> gr;
                g \<leftarrow> draw_rectangle g 0 0 (gr_width g) (gr_height g) True 0;
                map_option Some (oltk_set_theme (0xffffff, 0x000000) (0x304050, 0x80b8c0) (0xffe080, 0xffe080)
                  \<lparr>o_gr = g, o_font = font, o_cmap = cmap, o_var = var, zbuttons = [], zsize = 64, o_abort = False, depressed = None,
                   o_fg = (0, 0), o_bg = (0, 0), o_bd = (0, 0), color_index = 0,
                   invalid_rect = \<lparr>r_x = 0, r_y = 0, r_width = 0, r_height = 0\<rparr>, views = [], popups = [], o_heap = heap, o_input = inp, app = a\<rparr>)
              })"

definition oltk_get_resolution :: "('c, 'a) oltk \<Rightarrow> int \<times> int" where
  "oltk_get_resolution s = (gr_width (o_gr s), gr_height (o_gr s))"

definition oltk_abort :: "('c, 'a) oltk \<Rightarrow> ('c, 'a) oltk" where
  "oltk_abort s = s\<lparr>o_abort := True\<rparr>"

definition oltk_fill_rect :: "int \<Rightarrow> int \<Rightarrow> u32 \<Rightarrow> u32 \<Rightarrow> u32 \<Rightarrow> ('c, 'a) oltk \<Rightarrow> ('c, 'a) oltk option" where
  "oltk_fill_rect x y width height color s = map_option (\<lambda>g. s\<lparr>o_gr := g\<rparr>) (fill_rectangle (o_gr s) x y width height color)"

end
