(* ===== verification/Oltk_Redraw.thy ===== *)
theory Oltk_Redraw
  imports Oltk
begin

text \<open>
  The redraw of \<open>Oltk\<close>: \<open>oltk_redraw\<close> draws what is damaged or changed, and the result is the screen that painting everything from scratch gives.
\<close>

section \<open>Rectangles\<close>

abbreviation rset :: "oltk_rectangle \<Rightarrow> (int \<times> int) set" where
  "rset r \<equiv> rect_set (r_x r) (r_y r) (r_width r) (r_height r)"

definition rect_ok :: "oltk_rectangle \<Rightarrow> bool" where
  "rect_ok r \<longleftrightarrow> 0 \<le> r_x r \<and> 0 \<le> r_width r \<and> r_x r + r_width r \<le> 32767 \<and> 0 \<le> r_y r \<and> 0 \<le> r_height r \<and> r_y r + r_height r \<le> 32767"

lemma rect_area:
  assumes "rect_ok r"
  shows "ck_int (r_width r * r_height r) = Some (r_width r * r_height r)" "r_width r * r_height r = 0 \<Longrightarrow> rset r = {}"
proof -
  have "0 \<le> r_width r" "r_width r \<le> 32767" "0 \<le> r_height r" "r_height r \<le> 32767" using assms by (simp_all add: rect_ok_def)
  then have "0 \<le> r_width r * r_height r" "r_width r * r_height r \<le> 32767 * 32767" by (simp, intro mult_mono) simp_all
  then show "ck_int (r_width r * r_height r) = Some (r_width r * r_height r)" by (intro ck_int_in) simp_all
  show "r_width r * r_height r = 0 \<Longrightarrow> rset r = {}" by (auto simp: rect_set_def)
qed

lemma invalidate_hull:
  assumes "rect_ok a" "rect_ok b"
  shows "\<exists>c. oltk_invalidate a b = Some c \<and> rect_ok c \<and> rset a \<union> rset b \<subseteq> rset c"
proof (cases "r_width a * r_height a = 0")
  case True
  have "rset a = {}" by (rule rect_area(2) [OF assms(1) True])
  moreover have "oltk_invalidate a b = Some b" using rect_area(1) [OF assms(1)] True by (simp add: oltk_invalidate_def del: mult_eq_0_iff)
  ultimately show ?thesis using assms(2) by (intro exI [of _ b] conjI) simp_all
next
  case False
  define l t r b' where "l = min (r_x b) (r_x a)" and "t = min (r_y b) (r_y a)" and "r = max (r_x b + r_width b) (r_x a + r_width a)"
    and "b' = max (r_y b + r_height b) (r_y a + r_height a)"
  have bounds: "0 \<le> l" "l \<le> r" "r \<le> 32767" "0 \<le> t" "t \<le> b'" "b' \<le> 32767"
    using assms by (auto simp: rect_ok_def l_def t_def r_def b'_def)
  have sums: "ck_int (r_x a + r_width a) = Some (r_x a + r_width a)" "ck_int (r_y a + r_height a) = Some (r_y a + r_height a)"
    "ck_int (r_x b + r_width b) = Some (r_x b + r_width b)" "ck_int (r_y b + r_height b) = Some (r_y b + r_height b)"
    using assms by (auto simp: rect_ok_def intro!: ck_int_in)
  have ck: "ck_int (r - l) = Some (r - l)" "ck_int (b' - t) = Some (b' - t)" using bounds by (auto intro!: ck_int_in)
  have "oltk_invalidate a b = Some \<lparr>r_x = l, r_y = t, r_width = r - l, r_height = b' - t\<rparr>"
  proof -
    have "(if r_x b < r_x a then r_x b else r_x a) = l" "(if r_y b < r_y a then r_y b else r_y a) = t"
      "(if r_x a + r_width a < r_x b + r_width b then r_x b + r_width b else r_x a + r_width a) = r"
      "(if r_y a + r_height a < r_y b + r_height b then r_y b + r_height b else r_y a + r_height a) = b'"
      by (auto simp: l_def t_def r_def b'_def)
    then show ?thesis
      using False ck by (simp add: oltk_invalidate_def rect_area(1) [OF assms(1)] sums Let_def del: mult_eq_0_iff)
  qed
  moreover have "rset a \<union> rset b \<subseteq> rect_set l t (r - l) (b' - t)" by (auto simp: rect_set_def l_def t_def r_def b'_def)
  ultimately show ?thesis using bounds by (simp add: rect_ok_def)
qed

lemma rect_intersect_set:
  assumes "rect_ok a" "rect_ok b"
  shows "rset (snd (rect_intersect a b)) = rset a \<inter> rset b" "fst (rect_intersect a b) \<longleftrightarrow> rset a \<inter> rset b \<noteq> {}"
proof -
  define l t r b' where "l = max (r_x a) (r_x b)" and "t = max (r_y a) (r_y b)" and "r = min (r_x a + r_width a) (r_x b + r_width b)"
    and "b' = min (r_y a + r_height a) (r_y b + r_height b)"
  have i: "rset a \<inter> rset b = rect_set l t (r - l) (b' - t)" by (auto simp: rect_set_def l_def t_def r_def b'_def)
  have e: "rect_intersect a b =
      (if l < r \<and> t < b' then (True, \<lparr>r_x = l, r_y = t, r_width = r - l, r_height = b' - t\<rparr>) else (False, a\<lparr>r_width := 0\<rparr>))"
    using assms by (auto simp: rect_intersect_def rect_ok_def l_def t_def r_def b'_def Let_def max_def min_def)
  have z: "rect_set l t (r - l) (b' - t) = {}" if "\<not> (l < r \<and> t < b')" using that by (auto simp: rect_set_def)
  have n: "(l, t) \<in> rect_set l t (r - l) (b' - t)" if "l < r \<and> t < b'" using that by (simp add: rect_set_def)
  show "rset (snd (rect_intersect a b)) = rset a \<inter> rset b" unfolding i e using z by (auto simp: rect_set_def)
  show "fst (rect_intersect a b) \<longleftrightarrow> rset a \<inter> rset b \<noteq> {}" unfolding i e using z n by auto
qed

section \<open>Painting from scratch\<close>

fun repaint_buttons :: "nat list \<Rightarrow> ('c, 'a) oltk \<Rightarrow> gr \<Rightarrow> gr option" where
  "repaint_buttons [] s g = Some g"
| "repaint_buttons (i # is) s g = do {
     b \<leftarrow> rd (zbuttons s) i;
     g \<leftarrow> (if b_show b then draw_widget s b g else Some g);
     repaint_buttons is s g
   }"

definition repaint :: "('c, 'a) oltk \<Rightarrow> gr option" where
  "repaint s = do {
     g \<leftarrow> draw_rectangle (o_gr s) 0 0 (gr_width (o_gr s)) (gr_height (o_gr s)) True 0;
     repaint_buttons [0..<length (zbuttons s)] s g
   }"

text \<open>A widget that draws exactly its rectangle.\<close>

definition draws :: "('c, 'a) oltk \<Rightarrow> 'c oltk_button \<Rightarrow> picture \<Rightarrow> bool" where
  "draws s b m \<longleftrightarrow> rect_ok (b_rect b) \<and> paints (o_gr s) (draw_widget s b) m \<and> (\<forall>p \<in> area (o_gr s). m p \<noteq> None \<longleftrightarrow> p \<in> rset (b_rect b))"

definition covers :: "('c, 'a) oltk \<Rightarrow> nat \<Rightarrow> int \<times> int \<Rightarrow> bool" where
  "covers s i p \<longleftrightarrow> i < length (zbuttons s) \<and> b_show (zbuttons s ! i) \<and> p \<in> rset (b_rect (zbuttons s ! i))"

definition topmost :: "('c, 'a) oltk \<Rightarrow> nat \<Rightarrow> int \<times> int \<Rightarrow> bool" where
  "topmost s i p \<longleftrightarrow> covers s i p \<and> (\<forall>j > i. \<not> covers s j p)"

lemma topmost_or_none: "(\<exists>i. topmost s i p) \<or> (\<forall>j. \<not> covers s j p)"
proof (cases "\<exists>j. covers s j p")
  case True
  have f: "finite {j. covers s j p}" by (rule finite_subset [of _ "{..<length (zbuttons s)}"]) (auto simp: covers_def)
  have "Max {j. covers s j p} \<in> {j. covers s j p}" using True by (intro Max_in f) auto
  moreover have "\<not> covers s j p" if "j > Max {j. covers s j p}" for j using Max_ge [OF f] that by (metis mem_Collect_eq not_le)
  ultimately have "topmost s (Max {j. covers s j p}) p" by (simp only: topmost_def mem_Collect_eq simp_thms) blast
  then show ?thesis by blast
qed simp

lemma draws_pixel:
  assumes "draws s b m" "gr_like (o_gr s) g"
  obtains g' where "draw_widget s b g = Some g'" "gr_like (o_gr s) g'"
    "\<And>p. p \<in> area (o_gr s) \<Longrightarrow> pixel g' p = (if p \<in> rset (b_rect b) then the (m p) else pixel g p)"
proof -
  have "paints (o_gr s) (draw_widget s b) m" using assms(1) by (simp add: draws_def)
  from paintsD [OF this assms(2)] obtain g' where g': "draw_widget s b g = Some g'" "gr_like (o_gr s) g'"
    "\<And>p. p \<in> area (o_gr s) \<Longrightarrow> pixel g' p = (case m p of Some v \<Rightarrow> v | None \<Rightarrow> pixel g p)" by metis
  have "pixel g' p = (if p \<in> rset (b_rect b) then the (m p) else pixel g p)" if "p \<in> area (o_gr s)" for p
    using g'(3) [OF that] assms(1) that unfolding draws_def by (auto split: option.splits)
  then show thesis using that g'(1,2) by blast
qed

definition all_draw :: "('c, 'a) oltk \<Rightarrow> (nat \<Rightarrow> picture) \<Rightarrow> bool" where
  "all_draw s pic \<longleftrightarrow> (\<forall>i < length (zbuttons s). b_show (zbuttons s ! i) \<longrightarrow> draws s (zbuttons s ! i) (pic i))"

lemma repaint_from:
  assumes "all_draw s pic"
  shows "k \<le> length (zbuttons s) \<Longrightarrow> gr_like (o_gr s) g \<Longrightarrow> \<exists>g'. repaint_buttons [k..<length (zbuttons s)] s g = Some g' \<and> gr_like (o_gr s) g' \<and>
    (\<forall>p \<in> area (o_gr s). (\<forall>i \<ge> k. topmost s i p \<longrightarrow> pixel g' p = the (pic i p)) \<and> ((\<forall>j \<ge> k. \<not> covers s j p) \<longrightarrow> pixel g' p = pixel g p))"
proof (induction "length (zbuttons s) - k" arbitrary: k g)
  case 0
  then have k: "k = length (zbuttons s)" by simp
  have "\<not> topmost s i p" if "k \<le> i" for i p using that k by (simp add: topmost_def covers_def)
  then show ?case using 0 k by auto
next
  case (Suc n)
  define b where "b = zbuttons s ! k"
  have k: "k < length (zbuttons s)" using Suc.hyps(2) by simp
  obtain g1 where g1: "(if b_show b then draw_widget s b g else Some g) = Some g1" "gr_like (o_gr s) g1"
    and p1: "\<And>p. p \<in> area (o_gr s) \<Longrightarrow> pixel g1 p = (if covers s k p then the (pic k p) else pixel g p)"
  proof (cases "b_show b")
    case True
    then have "draws s b (pic k)" using assms k by (simp add: all_draw_def b_def)
    from draws_pixel [OF this Suc.prems(2)] show thesis using that True k by (auto simp: covers_def b_def)
  next
    case False
    then show thesis using that [of g] Suc.prems(2) by (simp add: covers_def b_def)
  qed
  have "n = length (zbuttons s) - Suc k" "Suc k \<le> length (zbuttons s)" using Suc.hyps(2) k by simp_all
  from Suc.hyps(1) [OF this g1(2)] obtain g' where g': "repaint_buttons [Suc k..<length (zbuttons s)] s g1 = Some g'" "gr_like (o_gr s) g'"
    and p': "\<And>p. p \<in> area (o_gr s) \<Longrightarrow> (\<forall>i \<ge> Suc k. topmost s i p \<longrightarrow> pixel g' p = the (pic i p)) \<and>
      ((\<forall>j \<ge> Suc k. \<not> covers s j p) \<longrightarrow> pixel g' p = pixel g1 p)" by blast
  have "repaint_buttons [k..<length (zbuttons s)] s g = Some g'"
    using k g1(1) g'(1) by (simp add: upt_conv_Cons rd_in b_def [symmetric])
  moreover have "pixel g' p = the (pic i p)" if "p \<in> area (o_gr s)" "k \<le> i" "topmost s i p" for i p
  proof (cases "i = k")
    case True
    then have "\<forall>j \<ge> Suc k. \<not> covers s j p" "covers s k p" using that(3) by (simp_all add: topmost_def)
    then show ?thesis using p' [OF that(1)] p1 [OF that(1)] True by simp
  next
    case False
    then show ?thesis using p' [OF that(1)] that(2,3) by simp
  qed
  moreover have "pixel g' p = pixel g p" if "p \<in> area (o_gr s)" "\<forall>j \<ge> k. \<not> covers s j p" for p
    using p' [OF that(1)] p1 [OF that(1)] that(2) by simp
  ultimately show ?case using g'(2) by blast
qed

section \<open>The loop of the redraw\<close>

definition clear_update :: "'c oltk_button \<Rightarrow> 'c oltk_button" where
  "clear_update b = b\<lparr>b_update := False\<rparr>"

text \<open>The state before the button \<open>k\<close>.\<close>

definition mid :: "('c, 'a) oltk \<Rightarrow> nat \<Rightarrow> gr \<Rightarrow> oltk_rectangle \<Rightarrow> ('c, 'a) oltk" where
  "mid s k g r = s\<lparr>o_gr := g, invalid_rect := r, zbuttons := map clear_update (take k (zbuttons s)) @ drop k (zbuttons s)\<rparr>"

lemma mid_step: "k < length (zbuttons s) \<Longrightarrow>
    (map clear_update (take k (zbuttons s)) @ drop k (zbuttons s))[k := clear_update (zbuttons s ! k)] =
      map clear_update (take (Suc k) (zbuttons s)) @ drop (Suc k) (zbuttons s)"
  by (simp add: list_update_append take_Suc_conv_app_nth Cons_nth_drop_Suc [symmetric])

lemma mid_nth: "k < length (zbuttons s) \<Longrightarrow> rd (zbuttons (mid s k g r)) k = Some (zbuttons s ! k)"
  by (simp add: mid_def rd_in nth_append)

lemma draw_widget_mid: "draw_widget (mid s k g r) b = draw_widget s b"
  by (intro ext) (simp add: draw_widget_def mid_def split: option.split draw_cb.split)

lemma redraw_button_mid:
  assumes "k < length (zbuttons s)"
  shows "redraw_button k (mid s k g r) =
    (let b = zbuttons s ! k
     in if b_show b \<and> (b_update b \<or> fst (rect_intersect r (b_rect b))) then do {
          g \<leftarrow> draw_widget s b g;
          r \<leftarrow> oltk_invalidate r (b_rect b);
          Some (mid s (Suc k) g r)
        } else Some (mid s (Suc k) g r))"
proof -
  have upd: "set_button k (\<lambda>b. b\<lparr>b_update := False\<rparr>) (mid s k g' r') = Some (mid s (Suc k) g' r')" for g' r'
    using mid_step [OF assms] unfolding set_button_def mid_nth [OF assms]
    by (simp add: mid_def clear_update_def [symmetric])
  have "(mid s k g r)\<lparr>o_gr := g', invalid_rect := r'\<rparr> = mid s k g' r'" for g' r' by (simp add: mid_def)
  moreover have "invalid_rect (mid s k g r) = r" "o_gr (mid s k g r) = g" by (simp_all add: mid_def)
  ultimately show ?thesis
    unfolding redraw_button_def mid_nth [OF assms] draw_widget_mid by (auto simp: Let_def upd intro!: Option.bind_cong)
qed

lemma redraw_from:
  assumes "all_draw s pic"
  shows "k \<le> length (zbuttons s) \<Longrightarrow> gr_like (o_gr s) g \<Longrightarrow> rect_ok r \<Longrightarrow>
    \<exists>g' r'. redraw_buttons [k..<length (zbuttons s)] (mid s k g r) = Some (mid s (length (zbuttons s)) g' r') \<and> gr_like (o_gr s) g' \<and> rect_ok r' \<and>
    (\<forall>p \<in> area (o_gr s). (\<forall>i \<ge> k. topmost s i p \<longrightarrow> pixel g' p = the (pic i p) \<or>
        (\<not> b_update (zbuttons s ! i) \<and> p \<notin> rset r \<and> pixel g' p = pixel g p)) \<and>
      ((\<forall>j \<ge> k. \<not> covers s j p) \<longrightarrow> pixel g' p = pixel g p))"
proof (induction "length (zbuttons s) - k" arbitrary: k g r)
  case 0
  then have k: "k = length (zbuttons s)" by simp
  have "\<not> topmost s i p" if "k \<le> i" for i p using that k by (simp add: topmost_def covers_def)
  then show ?case using 0 k by auto
next
  case (Suc n)
  define b where "b = zbuttons s ! k"
  have k: "k < length (zbuttons s)" using Suc.hyps(2) by simp
  define hit where "hit \<longleftrightarrow> b_show b \<and> (b_update b \<or> fst (rect_intersect r (b_rect b)))"
  obtain g1 r1 where step: "redraw_button k (mid s k g r) = Some (mid s (Suc k) g1 r1)" "gr_like (o_gr s) g1" "rect_ok r1" "rset r \<subseteq> rset r1"
    and p1: "\<And>p. p \<in> area (o_gr s) \<Longrightarrow> pixel g1 p = (if hit \<and> p \<in> rset (b_rect b) then the (pic k p) else pixel g p)"
    and r1: "hit \<Longrightarrow> rset (b_rect b) \<subseteq> rset r1"
  proof (cases hit)
    case True
    then have d: "draws s b (pic k)" using assms k by (simp add: all_draw_def b_def hit_def)
    obtain g1 where g1: "draw_widget s b g = Some g1" "gr_like (o_gr s) g1"
      "\<And>p. p \<in> area (o_gr s) \<Longrightarrow> pixel g1 p = (if p \<in> rset (b_rect b) then the (pic k p) else pixel g p)"
      by (rule draws_pixel [OF d Suc.prems(2)]) (rule that)
    have "rect_ok (b_rect b)" using d by (simp add: draws_def)
    from invalidate_hull [OF Suc.prems(3) this] obtain r1 where r1: "oltk_invalidate r (b_rect b) = Some r1" "rect_ok r1" "rset r \<union> rset (b_rect b) \<subseteq> rset r1"
      by blast
    have "redraw_button k (mid s k g r) = Some (mid s (Suc k) g1 r1)"
      using True g1(1) r1(1) unfolding redraw_button_mid [OF k] hit_def b_def by (simp add: Let_def)
    then show thesis using that [of g1 r1] g1 r1 True by simp
  next
    case False
    then have "redraw_button k (mid s k g r) = Some (mid s (Suc k) g r)"
      unfolding redraw_button_mid [OF k] hit_def b_def by (auto simp: Let_def)
    then show thesis using that [of g r] False Suc.prems by simp
  qed
  have "n = length (zbuttons s) - Suc k" "Suc k \<le> length (zbuttons s)" using Suc.hyps(2) k by simp_all
  from Suc.hyps(1) [OF this step(2,3)] obtain g' r' where
    g': "redraw_buttons [Suc k..<length (zbuttons s)] (mid s (Suc k) g1 r1) = Some (mid s (length (zbuttons s)) g' r')" "gr_like (o_gr s) g'" "rect_ok r'"
    and p': "\<And>p. p \<in> area (o_gr s) \<Longrightarrow> (\<forall>i \<ge> Suc k. topmost s i p \<longrightarrow> pixel g' p = the (pic i p) \<or>
        (\<not> b_update (zbuttons s ! i) \<and> p \<notin> rset r1 \<and> pixel g' p = pixel g1 p)) \<and> ((\<forall>j \<ge> Suc k. \<not> covers s j p) \<longrightarrow> pixel g' p = pixel g1 p)" by blast
  have "redraw_buttons [k..<length (zbuttons s)] (mid s k g r) = Some (mid s (length (zbuttons s)) g' r')"
    using k step(1) g'(1) by (simp add: upt_conv_Cons)
  moreover have "pixel g' p = the (pic i p) \<or> (\<not> b_update (zbuttons s ! i) \<and> p \<notin> rset r \<and> pixel g' p = pixel g p)"
    if p: "p \<in> area (o_gr s)" and i: "k \<le> i" "topmost s i p" for i p
  proof (cases "i = k")
    case True
    then have c: "\<forall>j \<ge> Suc k. \<not> covers s j p" "b_show b" "p \<in> rset (b_rect b)" using i(2) by (simp_all add: topmost_def covers_def b_def)
    have e: "pixel g' p = pixel g1 p" using p' [OF p] c(1) by blast
    show ?thesis
    proof (cases hit)
      case False
      have ok: "rect_ok (b_rect b)" using assms k c(2) by (simp add: all_draw_def draws_def b_def)
      have "\<not> b_update b" "p \<notin> rset r"
        using False c(2,3) rect_intersect_set(2) [OF Suc.prems(3) ok] by (auto simp: hit_def)
      then show ?thesis using e p1 [OF p] False True by (simp add: b_def)
    qed (use e p1 [OF p] c True in simp)
  next
    case False
    then have "Suc k \<le> i" using i(1) by simp
    with p' [OF p] i(2) have or: "pixel g' p = the (pic i p) \<or> (\<not> b_update (zbuttons s ! i) \<and> p \<notin> rset r1 \<and> pixel g' p = pixel g1 p)" by blast
    show ?thesis
    proof (cases "pixel g' p = the (pic i p)")
      case f: False
      then have nh: "\<not> (hit \<and> p \<in> rset (b_rect b))" and nr: "p \<notin> rset r" using or r1 step(4) by auto
      have "pixel g1 p = pixel g p" unfolding p1 [OF p] if_not_P [OF nh] ..
      then show ?thesis using or f nr by metis
    qed simp
  qed
  moreover have "pixel g' p = pixel g p" if p: "p \<in> area (o_gr s)" and c: "\<forall>j \<ge> k. \<not> covers s j p" for p
  proof -
    have nh: "\<not> (hit \<and> p \<in> rset (b_rect b))" using c k by (auto simp: covers_def hit_def b_def)
    have "pixel g' p = pixel g1 p" using p' [OF p] c by simp
    then show ?thesis unfolding p1 [OF p] if_not_P [OF nh] .
  qed
  ultimately show ?case using g'(2,3) by blast
qed

lemma mid_0: "mid s 0 g r = s\<lparr>o_gr := g, invalid_rect := r\<rparr>"
  by (simp add: mid_def)

lemma black_paints:
  assumes "gr_ok g0" "rect_ok r"
  shows "paints g0 (\<lambda>g. draw_rectangle g (r_x r) (r_y r) (r_width r) (r_height r) True 0) (ink (rset r) (pixel_bytes (gr_bpp g0) 0))"
  by (rule filled_paints) (use assms in \<open>simp_all add: rect_ok_def\<close>)

lemma area_rect: "rect_set 0 0 (gr_width g) (gr_height g) = area g"
  by (auto simp: rect_set_def area_def)

text \<open>The pixels of the repainted screen.\<close>

lemma repaint_pixels:
  assumes "gr_ok (o_gr s)" "all_draw s pic"
  shows "\<exists>g. repaint s = Some g \<and> gr_like (o_gr s) g \<and> (\<forall>p \<in> area (o_gr s). (\<forall>i. topmost s i p \<longrightarrow> pixel g p = the (pic i p)) \<and>
    ((\<forall>j. \<not> covers s j p) \<longrightarrow> pixel g p = pixel_bytes (gr_bpp (o_gr s)) 0))"
proof -
  have "paints (o_gr s) (\<lambda>g. draw_rectangle g 0 0 (gr_width (o_gr s)) (gr_height (o_gr s)) True 0) (ink (area (o_gr s)) (pixel_bytes (gr_bpp (o_gr s)) 0))"
    using filled_paints [OF assms(1), of 0 "gr_width (o_gr s)" 0 "gr_height (o_gr s)" 0] assms(1) unfolding area_rect by (simp add: gr_ok_def)
  from paints_inkE [OF this] obtain g1 where g1: "draw_rectangle (o_gr s) 0 0 (gr_width (o_gr s)) (gr_height (o_gr s)) True 0 = Some g1"
    "gr_like (o_gr s) g1" "\<forall>p \<in> area (o_gr s). pixel g1 p = (if p \<in> area (o_gr s) then pixel_bytes (gr_bpp (o_gr s)) 0 else pixel (o_gr s) p)" by blast
  from repaint_from [OF assms(2) le0 g1(2)] show ?thesis
    unfolding repaint_def g1(1) using g1(3) by auto
qed

definition screen_valid :: "('c, 'a) oltk \<Rightarrow> bool" where
  "screen_valid s \<longleftrightarrow> (\<forall>g. repaint s = Some g \<longrightarrow> (\<forall>p \<in> area (o_gr s). p \<notin> rset (invalid_rect s) \<longrightarrow>
     (\<forall>i. topmost s i p \<longrightarrow> \<not> b_update (zbuttons s ! i)) \<longrightarrow> pixel (o_gr s) p = pixel g p))"

lemma redraw_pixels:
  assumes ok: "gr_ok (o_gr s)" and r: "rect_ok (invalid_rect s)" and d: "all_draw s pic" and v: "screen_valid s"
  shows "\<exists>g g' r'. repaint s = Some g \<and> oltk_redraw s = Some ((mid s (length (zbuttons s)) g' r')\<lparr>invalid_rect := r'\<lparr>r_width := 0\<rparr>\<rparr>) \<and>
    gr_like (o_gr s) g' \<and> rect_ok r' \<and> (\<forall>p \<in> area (o_gr s). pixel g' p = pixel g p)"
proof -
  define r0 where "r0 = invalid_rect s"
  define n where "n = length (zbuttons s)"
  obtain g where g: "repaint s = Some g" and gp: "\<And>p. p \<in> area (o_gr s) \<Longrightarrow> (\<forall>i. topmost s i p \<longrightarrow> pixel g p = the (pic i p)) \<and>
    ((\<forall>j. \<not> covers s j p) \<longrightarrow> pixel g p = pixel_bytes (gr_bpp (o_gr s)) 0)" using repaint_pixels [OF ok d] by blast
  obtain g1 where g1: "(if r_width r0 * r_height r0 \<noteq> 0 then draw_rectangle (o_gr s) (r_x r0) (r_y r0) (r_width r0) (r_height r0) True 0 else Some (o_gr s)) = Some g1"
    "gr_like (o_gr s) g1" and p1: "\<forall>p \<in> area (o_gr s). pixel g1 p = (if p \<in> rset r0 then pixel_bytes (gr_bpp (o_gr s)) 0 else pixel (o_gr s) p)"
  proof (cases "r_width r0 * r_height r0 = 0")
    case True
    have "rset r0 = {}" by (rule rect_area(2)) (use r True in \<open>simp_all add: r0_def\<close>)
    then show thesis using that [of "o_gr s"] True gr_like_refl by simp
  next
    case False
    have "rect_ok r0" using r by (simp add: r0_def)
    from paints_inkE [OF black_paints [OF ok this]] show thesis using that False by (simp del: mult_eq_0_iff) blast
  qed
  obtain g' r' where l: "redraw_buttons [0..<n] (mid s 0 g1 r0) = Some (mid s n g' r')" "gr_like (o_gr s) g'" "rect_ok r'"
    and lp: "\<And>p. p \<in> area (o_gr s) \<Longrightarrow> (\<forall>i. topmost s i p \<longrightarrow> pixel g' p = the (pic i p) \<or>
        (\<not> b_update (zbuttons s ! i) \<and> p \<notin> rset r0 \<and> pixel g' p = pixel g1 p)) \<and> ((\<forall>j. \<not> covers s j p) \<longrightarrow> pixel g' p = pixel g1 p)"
    using redraw_from [OF d le0 g1(2), of r0] r unfolding n_def r0_def by auto
  have "oltk_redraw s = Some ((mid s n g' r')\<lparr>invalid_rect := r'\<lparr>r_width := 0\<rparr>\<rparr>)"
  proof -
    have "s\<lparr>o_gr := g1\<rparr> = mid s 0 g1 r0" by (simp add: mid_0 r0_def)
    moreover have "invalid_rect (mid s n g' r') = r'" by (simp add: mid_def)
    ultimately show ?thesis
      using l(1) g1(1) unfolding oltk_redraw_def r0_def [symmetric] Let_def rect_area(1) [OF r [folded r0_def]] by (simp add: n_def [symmetric])
  qed
  moreover have "pixel g' p = pixel g p" if p: "p \<in> area (o_gr s)" for p
  proof -
    have keep: "pixel (o_gr s) p = pixel g p" if "p \<notin> rset r0" "\<And>i. topmost s i p \<Longrightarrow> \<not> b_update (zbuttons s ! i)"
      using v g p that unfolding screen_valid_def r0_def by blast
    consider i where "topmost s i p" | "\<forall>j. \<not> covers s j p" using topmost_or_none [of s p] by blast
    then show ?thesis
    proof cases
      case 1
      have uniq: "j = i" if "topmost s j p" for j using 1 that unfolding topmost_def by (metis linorder_neqE_nat)
      show ?thesis
      proof (cases "pixel g' p = the (pic i p)")
        case False
        then have "\<not> b_update (zbuttons s ! i)" "p \<notin> rset r0" "pixel g' p = pixel g1 p" using lp [OF p] 1 by blast+
        then show ?thesis using keep uniq bspec [OF p1 p] by metis
      qed (use gp [OF p] 1 in metis)
    next
      case 2
      then have nt: "\<not> topmost s i p" for i by (simp add: topmost_def)
      have "pixel g' p = pixel g1 p" using lp [OF p] 2 by blast
      then show ?thesis using bspec [OF p1 p] keep nt gp [OF p] 2 by metis
    qed
  qed
  ultimately show ?thesis using g l(2,3) unfolding n_def by blast
qed

section \<open>Widgets that fit\<close>

definition ascii :: "string \<Rightarrow> bool" where
  "ascii t \<longleftrightarrow> (\<forall>c \<in> set t. char_code c < 128)"

definition view_fits :: "oltk_rectangle \<Rightarrow> oltk_view \<Rightarrow> bool" where
  "view_fits r v \<longleftrightarrow> v_xpad v = 5 \<and> v_ypad v = 5 \<and> v_xalign v = 50 \<and> v_yalign v = 50 \<and>
     (v_lines v = [] \<or> (case v_text v of None \<Rightarrow> False | Some t \<Rightarrow>
        (\<forall>p \<in> set (v_lines v). ascii (line_text t p) \<and> 8 * int (length (line_text t p)) \<le> r_width r - 10) \<and>
        13 * int (length (v_lines v)) \<le> r_height r - 10))"

definition widget_fits :: "('c, 'a) oltk \<Rightarrow> 'c oltk_button \<Rightarrow> bool" where
  "widget_fits s b \<longleftrightarrow> rect_ok (b_rect b) \<and> 0 < r_width (b_rect b) \<and> 0 < r_height (b_rect b) \<and>
     (case b_draw b of
        None \<Rightarrow> False
      | Some On_button_draw \<Rightarrow>
          (case b_name b of None \<Rightarrow> True | Some t \<Rightarrow> ascii t \<and> 8 * int (length t) \<le> r_width (b_rect b) \<and> 13 \<le> r_height (b_rect b))
      | Some (Draw_view v) \<Rightarrow> v < length (views s) \<and> view_fits (b_rect b) (views s ! v))"

lemma rect_mono: "x \<le> x' \<Longrightarrow> x' + w' \<le> x + w \<Longrightarrow> y \<le> y' \<Longrightarrow> y' + h' \<le> y + h \<Longrightarrow> rect_set x' y' w' h' \<subseteq> rect_set x y w h"
  by (auto simp: rect_set_def)

lemma outline_in: "outline_set x y w h \<subseteq> rect_set x y w h"
  by (auto simp: outline_set_def)

lemma frame_draws:
  assumes ok: "gr_ok g0" and r: "rect_ok r" "0 < r_width r" "0 < r_height r" and f: "paints g0 f m"
    and m: "\<And>p. p \<in> area g0 \<Longrightarrow> m p \<noteq> None \<Longrightarrow> p \<in> rset r"
  shows "\<exists>m. paints g0 (\<lambda>g. do { g \<leftarrow> draw_rectangle g (r_x r) (r_y r) (r_width r) (r_height r) True c;
      g \<leftarrow> draw_rectangle g (r_x r) (r_y r) (r_width r) (r_height r) False d; f g }) m \<and> (\<forall>p \<in> area g0. m p \<noteq> None \<longleftrightarrow> p \<in> rset r)"
proof (intro exI conjI ballI)
  show "paints g0 (\<lambda>g. do { g \<leftarrow> draw_rectangle g (r_x r) (r_y r) (r_width r) (r_height r) True c;
      g \<leftarrow> draw_rectangle g (r_x r) (r_y r) (r_width r) (r_height r) False d; f g })
    (ink (rset r) (pixel_bytes (gr_bpp g0) c) ++ (ink (outline_set (r_x r) (r_y r) (r_width r) (r_height r)) (pixel_bytes (gr_bpp g0) d) ++ m))"
    by (intro paints_seq filled_paints outline_paints f ok) (use r in \<open>simp_all add: rect_ok_def\<close>)
  fix p
  assume "p \<in> area g0"
  then show "(ink (rset r) (pixel_bytes (gr_bpp g0) c) ++ (ink (outline_set (r_x r) (r_y r) (r_width r) (r_height r)) (pixel_bytes (gr_bpp g0) d) ++ m)) p \<noteq> None
      \<longleftrightarrow> p \<in> rset r"
    using m [of p] subsetD [OF outline_in, of p "r_x r" "r_y r" "r_width r" "r_height r"] by (auto simp: ink_def map_add_def split: option.splits)
qed

lemma half_fit:
  assumes "0 \<le> a" "a \<le> (b :: int)"
  shows "0 \<le> b sdiv 2 - a sdiv 2" "b sdiv 2 - a sdiv 2 + a \<le> b"
  using assms by (auto simp: signed_divide_int_def sgn_if)

lemma centre_paints:
  assumes ok: "gr_ok g0" "font_ok f" and t: "ascii t" "8 * int (length t) \<le> r_width r" "13 \<le> r_height r" and r: "rect_ok r"
  shows "\<exists>m. paints g0 (\<lambda>g. put_string_center f g (r_x r + r_width r sdiv 2) (r_y r + r_height r sdiv 2) t c) m \<and> (\<forall>p. m p \<noteq> None \<longrightarrow> p \<in> rset r)"
proof -
  define x y where "x = r_x r + r_width r sdiv 2 - (8 * int (length t)) sdiv 2" and "y = r_y r + r_height r sdiv 2 - 13 sdiv 2"
  have b: "r_x r \<le> x" "x + 8 * int (length t) \<le> r_x r + r_width r" "r_y r \<le> y" "y + 13 \<le> r_y r + r_height r"
    using half_fit [of "8 * int (length t)" "r_width r"] half_fit [of 13 "r_height r"] t by (simp_all add: x_def y_def)
  have ck: "ck_int x = Some x" "ck_int y = Some y" using b r by (auto simp: rect_ok_def intro!: ck_int_in)
  have "paints g0 (\<lambda>g. draw_string f g t x y c) (ink (text_set f t x y) (pixel_bytes (gr_bpp g0) c))"
    by (rule string_paint [OF ok]) (use t b r in \<open>auto simp: ascii_def rect_ok_def\<close>)
  moreover have "put_string_center f g (r_x r + r_width r sdiv 2) (r_y r + r_height r sdiv 2) t c = draw_string f g t x y c" for g
    using ok(2) ck by (simp add: put_string_center_def string_extents_def font_ok_def x_def y_def mult.commute)
  moreover have "text_set f t x y \<subseteq> rset r" using text_box [of f t x y] rect_mono [of "r_x r" x "8 * int (length t)" "r_width r" "r_y r" y 13 "r_height r"] b by blast
  ultimately show ?thesis by (intro exI [of _ "ink (text_set f t x y) (pixel_bytes (gr_bpp g0) c)"]) (auto simp: ink_def split: if_splits)
qed

lemma lines_paint:
  assumes ok: "gr_ok g0" "font_ok f" and x: "0 \<le> x"
  shows "0 \<le> y \<Longrightarrow> y + 13 * int (length ls) < 1073741816 \<Longrightarrow> (\<forall>l \<in> set ls. ascii l \<and> x + 8 * int (length l) \<le> e) \<Longrightarrow> e < 1073741816 \<Longrightarrow>
    \<exists>m. paints g0 (draw_lines f ls x y 13 c) m \<and> (\<forall>p. m p \<noteq> None \<longrightarrow> p \<in> rect_set x y (e - x) (13 * int (length ls)))"
proof (induction ls arbitrary: y)
  case Nil
  have "draw_lines f [] x y 13 c = Some" by (intro ext) simp
  then show ?case using paints_empty by (intro exI [of _ Map.empty]) simp
next
  case (Cons l ls)
  obtain m where m: "paints g0 (draw_lines f ls x (y + 13) 13 c) m" "\<forall>p. m p \<noteq> None \<longrightarrow> p \<in> rect_set x (y + 13) (e - x) (13 * int (length ls))"
    using Cons.IH [of "y + 13"] Cons.prems by auto
  have l: "paints g0 (\<lambda>g. draw_string f g l x y c) (ink (text_set f l x y) (pixel_bytes (gr_bpp g0) c))"
    by (rule string_paint [OF ok]) (use Cons.prems x in \<open>auto simp: ascii_def\<close>)
  have "draw_lines f (l # ls) x y 13 c = (\<lambda>g. Option.bind (draw_string f g l x y c) (draw_lines f ls x (y + 13) 13 c))"
    using Cons.prems by (intro ext) (simp add: ck_int_in)
  moreover have "text_set f l x y \<subseteq> rect_set x y (e - x) (13 * int (length (l # ls)))"
    using text_box [of f l x y] rect_mono [of x x "8 * int (length l)" "e - x" y y 13 "13 * int (length (l # ls))"] Cons.prems by auto
  moreover have "rect_set x (y + 13) (e - x) (13 * int (length ls)) \<subseteq> rect_set x y (e - x) (13 * int (length (l # ls)))"
    by (rule rect_mono) simp_all
  ultimately show ?case
    using paints_seq [OF l m(1)] m(2)
    by (intro exI [of _ "ink (text_set f l x y) (pixel_bytes (gr_bpp g0) c) ++ m"]) (auto simp: ink_def map_add_def split: option.splits if_splits)
qed

lemma view_extents_eq:
  assumes "font_ok f"
  shows "view_extents f ls = (fold (\<lambda>l w. max (8 * int (length l)) w) ls 0, 13 * int (length ls))"
proof -
  have "fold (\<lambda>l (width, height). let (w, h) = string_extents f l in (if w > width then w else width, height + h)) ls (a, b) =
      (fold (\<lambda>l w. max (8 * int (length l)) w) ls a, b + 13 * int (length ls))" for a b
    using assms by (induction ls arbitrary: a b) (auto simp: string_extents_def font_ok_def max_def mult.commute)
  then show ?thesis by (simp add: view_extents_def)
qed

lemma fold_max:
  fixes a :: int
  shows "a \<le> fold (\<lambda>l w. max (h l) w) ls a" "\<forall>l \<in> set ls. h l \<le> fold (\<lambda>l w. max (h l) w) ls a"
    "a \<le> m \<Longrightarrow> \<forall>l \<in> set ls. h l \<le> m \<Longrightarrow> fold (\<lambda>l w. max (h l) w) ls a \<le> m"
proof (induction ls arbitrary: a)
  case (Cons l ls)
  { case 1 show ?case using Cons(1) [of "max (h l) a"] by simp
  next case 2 show ?case using Cons(1,2) [of "max (h l) a"] by simp
  next case 3 then show ?case using Cons(3) [of "max (h l) a"] by simp }
qed simp_all

lemma half_space: "0 \<le> (k :: int) \<Longrightarrow> 0 \<le> (k * 50) sdiv 100 \<and> (k * 50) sdiv 100 \<le> k"
  by (auto simp: signed_divide_int_def sgn_if)

lemma view_text_paints:
  assumes ok: "gr_ok g0" "font_ok f" and r: "rect_ok r" and v: "view_fits r v" "v_lines v \<noteq> []" "v_text v = Some t"
  shows "\<exists>m. paints g0 (\<lambda>g. do {
      let ls = map (line_text t) (v_lines v);
      let (width, height) = view_extents f ls;
      dx \<leftarrow> ck_int ((r_width r - 2 * v_xpad v - width) * v_xalign v);
      dy \<leftarrow> ck_int ((r_height r - 2 * v_ypad v - height) * v_yalign v);
      draw_lines f ls (r_x r + v_xpad v + dx sdiv 100) (r_y r + v_ypad v + dy sdiv 100) (height sdiv int (length ls)) c g }) m \<and>
    (\<forall>p. m p \<noteq> None \<longrightarrow> p \<in> rset r)"
proof -
  define ls where "ls = map (line_text t) (v_lines v)"
  define w where "w = fold (\<lambda>l w. max (8 * int (length l)) w) ls 0"
  define x y where "x = r_x r + 5 + ((r_width r - 10 - w) * 50) sdiv 100" and "y = r_y r + 5 + ((r_height r - 10 - 13 * int (length ls)) * 50) sdiv 100"
  have v': "v_xpad v = 5" "v_ypad v = 5" "v_xalign v = 50" "v_yalign v = 50" using v(1) by (simp_all add: view_fits_def)
  have l: "\<forall>l \<in> set ls. ascii l \<and> 8 * int (length l) \<le> r_width r - 10" "13 * int (length ls) \<le> r_height r - 10" "ls \<noteq> []"
    using v by (auto simp: view_fits_def ls_def)
  have "0 \<le> r_width r - 10" using l(1,3) by (metis list.set_sel(1) mult_nonneg_nonneg of_nat_0_le_iff order_trans zero_le_numeral)
  then have w: "0 \<le> w" "w \<le> r_width r - 10" "\<forall>l \<in> set ls. 8 * int (length l) \<le> w"
    unfolding w_def using fold_max [where h = "\<lambda>l. 8 * int (length l)" and ls = ls and a = 0] l(1) by auto
  have xy: "r_x r \<le> x" "x + w \<le> r_x r + r_width r" "r_y r \<le> y" "y + 13 * int (length ls) \<le> r_y r + r_height r"
    using half_space [of "r_width r - 10 - w"] half_space [of "r_height r - 10 - 13 * int (length ls)"] w(2) l(2) unfolding x_def y_def by linarith+
  have ck: "ck_int ((r_width r - 10 - w) * 50) = Some ((r_width r - 10 - w) * 50)"
    "ck_int ((r_height r - 10 - 13 * int (length ls)) * 50) = Some ((r_height r - 10 - 13 * int (length ls)) * 50)"
    using w l(2) r by (auto simp: rect_ok_def intro!: ck_int_in)
  have "(13 * int (length ls)) sdiv int (length ls) = 13" using l(3) by (simp add: signed_divide_int_def sgn_if)
  then have e: "(do { let ls = map (line_text t) (v_lines v);
      let (width, height) = view_extents f ls;
      dx \<leftarrow> ck_int ((r_width r - 2 * v_xpad v - width) * v_xalign v);
      dy \<leftarrow> ck_int ((r_height r - 2 * v_ypad v - height) * v_yalign v);
      draw_lines f ls (r_x r + v_xpad v + dx sdiv 100) (r_y r + v_ypad v + dy sdiv 100) (height sdiv int (length ls)) c g }) = draw_lines f ls x y 13 c g" for g
    unfolding ls_def [symmetric] Let_def view_extents_eq [OF ok(2)] w_def [symmetric] by (simp add: v' ck x_def y_def del: left_diff_distrib_numeral)
  obtain m where m: "paints g0 (draw_lines f ls x y 13 c) m" "\<forall>p. m p \<noteq> None \<longrightarrow> p \<in> rect_set x y (x + w - x) (13 * int (length ls))"
    using lines_paint [OF ok, of x y ls "x + w" c] xy w l r by (auto simp: rect_ok_def)
  have "rect_set x y (x + w - x) (13 * int (length ls)) \<subseteq> rset r" by (rule rect_mono) (use xy in simp_all)
  then show ?thesis unfolding e using m by blast
qed

lemma widget_draws:
  assumes ok: "gr_ok (o_gr s)" "font_ok (o_font s)" and b: "widget_fits s b"
  shows "\<exists>m. draws s b m"
proof -
  define r where "r = b_rect b"
  have r: "rect_ok r" "0 < r_width r" "0 < r_height r" using b by (simp_all add: widget_fits_def r_def)
  note frame = frame_draws [OF ok(1) r, where c = "in_state (b_state b) (b_bg b)" and d = "in_state (b_state b) (b_bd b)"]
  have draws: ?thesis if eq: "draw_widget s b = (\<lambda>g. do { g \<leftarrow> draw_rectangle g (r_x r) (r_y r) (r_width r) (r_height r) True (in_state (b_state b) (b_bg b));
      g \<leftarrow> draw_rectangle g (r_x r) (r_y r) (r_width r) (r_height r) False (in_state (b_state b) (b_bd b)); f g })"
    and f: "paints (o_gr s) f m" and m: "\<forall>p. m p \<noteq> None \<longrightarrow> p \<in> rset r" for f m
  proof -
    obtain m' where "paints (o_gr s) (draw_widget s b) m'" "\<forall>p \<in> area (o_gr s). m' p \<noteq> None \<longleftrightarrow> p \<in> rset r"
      using frame [OF f] eq m by metis
    then show ?thesis using r by (auto simp: draws_def r_def)
  qed
  consider "b_draw b = Some On_button_draw" | v where "b_draw b = Some (Draw_view v)" "v < length (views s)" "view_fits r (views s ! v)"
    using b by (auto simp: widget_fits_def r_def split: option.splits draw_cb.splits)
  then show ?thesis
  proof cases
    case 1
    show ?thesis
    proof (cases "b_name b")
      case None
      show ?thesis
        by (rule draws [where f = Some and m = Map.empty]) (use 1 None paints_empty in \<open>simp_all add: draw_widget_def on_button_draw_def r_def fun_eq_iff Let_def\<close>)
    next
      case (Some t)
      have "ascii t" "8 * int (length t) \<le> r_width r" "13 \<le> r_height r" using b 1 Some by (simp_all add: widget_fits_def r_def)
      from centre_paints [OF ok this r(1)] obtain m where m:
        "paints (o_gr s) (\<lambda>g. put_string_center (o_font s) g (r_x r + r_width r sdiv 2) (r_y r + r_height r sdiv 2) t (in_state (b_state b) (b_fg b))) m"
        "\<forall>p. m p \<noteq> None \<longrightarrow> p \<in> rset r" by blast
      show ?thesis by (rule draws [OF _ m]) (use 1 Some in \<open>simp add: draw_widget_def on_button_draw_def r_def fun_eq_iff Let_def\<close>)
    qed
  next
    case 2
    define v' where "v' = views s ! v"
    show ?thesis
    proof (cases "v_lines v' = []")
      case True
      show ?thesis
        by (rule draws [where f = Some and m = Map.empty])
          (use 2 True paints_empty in \<open>simp_all add: draw_widget_def draw_view_def rd_in r_def v'_def fun_eq_iff Let_def\<close>)
    next
      case False
      then obtain t where t: "v_text v' = Some t" using 2(3) by (auto simp: view_fits_def v'_def split: option.splits)
      from view_text_paints [OF ok r(1) 2(3) [folded v'_def] False t] obtain m where m: "paints (o_gr s) (\<lambda>g. do {
          let ls = map (line_text t) (v_lines v');
          let (width, height) = view_extents (o_font s) ls;
          dx \<leftarrow> ck_int ((r_width r - 2 * v_xpad v' - width) * v_xalign v');
          dy \<leftarrow> ck_int ((r_height r - 2 * v_ypad v' - height) * v_yalign v');
          draw_lines (o_font s) ls (r_x r + v_xpad v' + dx sdiv 100) (r_y r + v_ypad v' + dy sdiv 100) (height sdiv int (length ls))
            (in_state (b_state b) (b_fg b)) g }) m" "\<forall>p. m p \<noteq> None \<longrightarrow> p \<in> rset r" by blast
      show ?thesis
        by (rule draws [OF _ m]) (use 2 False t in \<open>simp add: draw_widget_def draw_view_def rd_in r_def [symmetric] v'_def [symmetric] fun_eq_iff Let_def\<close>)
    qed
  qed
qed

section \<open>Changes of the widgets\<close>

definition ui_ok :: "('c, 'a) oltk \<Rightarrow> bool" where
  "ui_ok s \<longleftrightarrow> gr_ok (o_gr s) \<and> font_ok (o_font s) \<and> rect_ok (invalid_rect s) \<and> (\<forall>b \<in> set (zbuttons s). rect_ok (b_rect b) \<and> (b_show b \<longrightarrow> widget_fits s b)) \<and>
     (\<forall>i < length (zbuttons s). \<forall>v < length (views s). b_draw (zbuttons s ! i) = Some (Draw_view v) \<longrightarrow> i = v_button (views s ! v))"

lemma ui_ok_draw:
  assumes "ui_ok s"
  obtains pic where "all_draw s pic"
proof -
  have "\<exists>m. b_show (zbuttons s ! i) \<longrightarrow> draws s (zbuttons s ! i) m" if "i < length (zbuttons s)" for i
    using widget_draws [of s "zbuttons s ! i"] that assms by (auto simp: ui_ok_def)
  then obtain pic where "\<forall>i. i < length (zbuttons s) \<longrightarrow> b_show (zbuttons s ! i) \<longrightarrow> draws s (zbuttons s ! i) (pic i)" by metis
  then show thesis using that by (simp add: all_draw_def)
qed

text \<open>One button changes: it is marked, or its rectangle is.\<close>

lemma valid_change:
  assumes v: "screen_valid s" and ok: "gr_ok (o_gr s)" "all_draw s pic" "all_draw s' pic'"
    and same: "o_gr s' = o_gr s" "rset (invalid_rect s) \<subseteq> rset (invalid_rect s')"
    and k: "k < length (zbuttons s)" "zbuttons s' = (zbuttons s)[k := b']" "b_rect b' = b_rect (zbuttons s ! k)"
    and others: "\<And>i. i < length (zbuttons s) \<Longrightarrow> i \<noteq> k \<Longrightarrow> draw_widget s' (zbuttons s ! i) = draw_widget s (zbuttons s ! i)"
    and marked: "b_show b' \<Longrightarrow> b_update b'" "b_show (zbuttons s ! k) \<Longrightarrow> \<not> b_show b' \<Longrightarrow> rset (b_rect b') \<subseteq> rset (invalid_rect s')"
  shows "screen_valid s'"
proof -
  define pc where "pc = pic(k := pic' k)"
  have n: "length (zbuttons s') = length (zbuttons s)" by (simp add: k(2))
  have d: "all_draw s' pc"
    unfolding all_draw_def n
  proof (intro allI impI)
    fix i
    assume i: "i < length (zbuttons s)" "b_show (zbuttons s' ! i)"
    show "draws s' (zbuttons s' ! i) (pc i)"
    proof (cases "i = k")
      case False
      then have "draws s (zbuttons s ! i) (pic i)" using ok(2) i k by (simp add: all_draw_def)
      then show ?thesis using False k i others [of i] same(1) by (simp add: draws_def pc_def)
    qed (use ok(3) i n in \<open>simp add: all_draw_def pc_def\<close>)
  qed
  obtain g where g: "repaint s = Some g" and gp: "\<And>p. p \<in> area (o_gr s) \<Longrightarrow> (\<forall>i. topmost s i p \<longrightarrow> pixel g p = the (pic i p)) \<and>
    ((\<forall>j. \<not> covers s j p) \<longrightarrow> pixel g p = pixel_bytes (gr_bpp (o_gr s)) 0)" using repaint_pixels [OF ok(1,2)] by blast
  have "gr_ok (o_gr s')" using ok(1) same by simp
  from repaint_pixels [OF this d] obtain g' where g': "repaint s' = Some g'" and gp': "\<And>p. p \<in> area (o_gr s) \<Longrightarrow>
    (\<forall>i. topmost s' i p \<longrightarrow> pixel g' p = the (pc i p)) \<and> ((\<forall>j. \<not> covers s' j p) \<longrightarrow> pixel g' p = pixel_bytes (gr_bpp (o_gr s)) 0)"
    unfolding same(1) by blast
  have oth: "covers s' j p = covers s j p" if "j \<noteq> k" for j p using that by (simp add: covers_def k)
  show ?thesis
    unfolding screen_valid_def g' same(1)
  proof (intro allI impI ballI)
    fix g2 p
    assume g2: "Some g' = Some g2" and p: "p \<in> area (o_gr s)" and ni: "p \<notin> rset (invalid_rect s')"
      and nu: "\<forall>i. topmost s' i p \<longrightarrow> \<not> b_update (zbuttons s' ! i)"
    have hid: "\<not> covers s k p" if "\<not> covers s' k p" using that ni marked(2) k by (auto simp: covers_def)
    have keep: "pixel (o_gr s) p = pixel g p" if "\<And>i. topmost s i p \<Longrightarrow> \<not> b_update (zbuttons s ! i)"
      using v g p ni same(2) that unfolding screen_valid_def by blast
    consider i where "topmost s' i p" | "\<forall>j. \<not> covers s' j p" using topmost_or_none [of s' p] by blast
    then show "pixel (o_gr s) p = pixel g2 p"
    proof cases
      case 1
      have ik: "i \<noteq> k" using 1 nu marked(1) k by (auto simp: topmost_def covers_def)
      have t: "topmost s i p"
        unfolding topmost_def
      proof (intro conjI allI impI)
        show "covers s i p" using 1 oth [OF ik] by (simp add: topmost_def)
        show "\<not> covers s j p" if "j > i" for j using 1 that oth [of j p] hid by (cases "j = k") (auto simp: topmost_def)
      qed
      have "j = i" if "topmost s j p" for j using t that unfolding topmost_def by (metis linorder_neqE_nat)
      then have "pixel (o_gr s) p = pixel g p" using keep nu 1 ik k by (metis nth_list_update_neq)
      then show ?thesis using gp [OF p] gp' [OF p] t 1 ik g2 by (simp add: pc_def)
    next
      case 2
      then have nc: "\<forall>j. \<not> covers s j p" using oth hid by metis
      then have "pixel (o_gr s) p = pixel g p" using keep by (simp add: topmost_def)
      then show ?thesis using gp [OF p] gp' [OF p] nc 2 g2 by simp
    qed
  qed
qed

lemma draw_widget_cong: "o_font s' = o_font s \<Longrightarrow> views s' = views s \<Longrightarrow> draw_widget s' b = draw_widget s b"
  by (intro ext) (simp add: draw_widget_def split: option.split draw_cb.split)

lemma set_buttonE:
  assumes "set_button k f s = Some s'"
  obtains "k < length (zbuttons s)" "s' = s\<lparr>zbuttons := (zbuttons s)[k := f (zbuttons s ! k)]\<rparr>"
  using assms by (auto simp: set_button_def rd_def split: if_splits bind_splits)

lemma valid_button:
  assumes v: "screen_valid s" "ui_ok s" "ui_ok s'" and k: "k < length (zbuttons s)"
    and s': "s' = s\<lparr>invalid_rect := r, zbuttons := (zbuttons s)[k := b']\<rparr>" and b': "b_rect b' = b_rect (zbuttons s ! k)"
    and r: "rset (invalid_rect s) \<subseteq> rset r"
    and m: "b_show b' \<Longrightarrow> b_update b'" "b_show (zbuttons s ! k) \<Longrightarrow> \<not> b_show b' \<Longrightarrow> rset (b_rect b') \<subseteq> rset r"
  shows "screen_valid s'"
proof -
  obtain pic pic' where "all_draw s pic" "all_draw s' pic'" using ui_ok_draw [OF v(2)] ui_ok_draw [OF v(3)] by metis
  moreover have "gr_ok (o_gr s)" using v(2) by (simp add: ui_ok_def)
  ultimately show ?thesis
    by (rule_tac valid_change [OF v(1), where k = k and b' = b']) (use k s' b' r m in \<open>auto intro: draw_widget_cong\<close>)
qed

lemma valid_show:
  assumes v: "screen_valid s" "ui_ok s" "ui_ok s'" and s': "oltk_button_show k x s = Some s'"
  shows "screen_valid s'"
proof -
  obtain b where b: "rd (zbuttons s) k = Some b" using s' by (cases "rd (zbuttons s) k") (simp_all add: oltk_button_show_def)
  then have k: "k < length (zbuttons s)" "b = zbuttons s ! k" by (auto simp: rd_eq_Some)
  define b' where "b' = b\<lparr>b_show := x, b_update := True\<rparr>"
  have u: "set_button k (\<lambda>y. y\<lparr>b_show := x, b_update := True\<rparr>) s = Some (s\<lparr>zbuttons := (zbuttons s)[k := b']\<rparr>)"
    using b by (simp add: set_button_def b'_def)
  show ?thesis
  proof (cases "b_show b = x")
    case True
    then have "s' = s" using s' b by (simp add: oltk_button_show_def)
    then show ?thesis using v by simp
  next
    case ne: False
    show ?thesis
    proof (cases x)
      case True
      then have "s' = s\<lparr>invalid_rect := invalid_rect s, zbuttons := (zbuttons s)[k := b']\<rparr>" using s' b ne u by (simp add: oltk_button_show_def)
      then show ?thesis by (rule valid_button [OF v k(1)]) (use k True in \<open>simp_all add: b'_def\<close>)
    next
      case False
      have "rect_ok (invalid_rect s)" "rect_ok (b_rect b)" using v(2) k by (auto simp: ui_ok_def)
      then obtain r where r: "oltk_invalidate (invalid_rect s) (b_rect b) = Some r" "rset (invalid_rect s) \<union> rset (b_rect b) \<subseteq> rset r"
        using invalidate_hull by blast
      have "s' = s\<lparr>invalid_rect := r, zbuttons := (zbuttons s)[k := b']\<rparr>" using s' b ne u False r by (cases s) (auto simp: oltk_button_show_def)
      then show ?thesis by (rule valid_button [OF v k(1)]) (use k False r in \<open>simp_all add: b'_def\<close>)
    qed
  qed
qed

lemma valid_name:
  assumes v: "screen_valid s" "ui_ok s" "ui_ok s'" and s': "oltk_button_set_name k t s = Some s'"
  shows "screen_valid s'"
proof -
  obtain k: "k < length (zbuttons s)" and "s' = s\<lparr>zbuttons := (zbuttons s)[k := (zbuttons s ! k)\<lparr>b_name := t, b_update := True\<rparr>]\<rparr>"
    using set_buttonE [OF s' [unfolded oltk_button_set_name_def]] by metis
  then have "s' = s\<lparr>invalid_rect := invalid_rect s, zbuttons := (zbuttons s)[k := (zbuttons s ! k)\<lparr>b_name := t, b_update := True\<rparr>]\<rparr>" by simp
  then show ?thesis by (rule valid_button [OF v k]) simp_all
qed

text \<open>A new text only changes its view, and marks the button of the view.\<close>

lemma set_text_frame:
  assumes "oltk_view_set_text v t s = Some s'"
  obtains x' h k where "v < length (views s)" "k = v_button (views s ! v)" "v_button x' = k" "k < length (zbuttons s)"
    "s' = s\<lparr>views := (views s)[v := x'], o_heap := h, zbuttons := (zbuttons s)[k := (zbuttons s ! k)\<lparr>b_update := True\<rparr>]\<rparr>"
proof -
  define s1 where "s1 = snd (case t of None \<Rightarrow> (True, s) | Some _ \<Rightarrow> malloc s)"
  obtain h1 where s1: "s1 = s\<lparr>o_heap := h1\<rparr>"
    by (cases t; cases "o_heap s") (auto simp: s1_def malloc_def intro: that [of "o_heap s"])
  obtain ok where ok: "(case t of None \<Rightarrow> (True, s) | Some _ \<Rightarrow> malloc s) = (ok, s1)"
    by (cases "case t of None \<Rightarrow> (True, s) | Some _ \<Rightarrow> malloc s") (simp add: s1_def)
  have v: "v < length (views s)"
    using assms ok s1 by (auto simp: oltk_view_set_text_def set_view_def rd_def split: if_splits)
  define x1 where "x1 = (views s ! v)\<lparr>v_text := (if ok then t else None)\<rparr>"
  define s2 where "s2 = s1\<lparr>views := (views s)[v := x1]\<rparr>"
  have "Option.bind (view_split_lines v s2) (update_view v) = Some s'"
    using assms ok s1 v by (simp add: oltk_view_set_text_def set_view_def rd_in x1_def s2_def)
  then have s2: "v < length (views s)" "s2 = s1\<lparr>views := (views s)[v := x1]\<rparr>" "v_button x1 = v_button (views s ! v)"
      "Option.bind (view_split_lines v s2) (update_view v) = Some s'" using v by (simp_all add: s2_def x1_def)
  obtain x3 h3 s3 where s3: "s3 = s2\<lparr>o_heap := h3, views := (views s2)[v := x3]\<rparr>" "v_button x3 = v_button x1" "update_view v s3 = Some s'"
  proof -
    obtain s3 where s3: "view_split_lines v s2 = Some s3" "update_view v s3 = Some s'" using s2(4) by (auto split: bind_splits)
    have r: "rd (views s2) v = Some x1" using s2(1,2) by (simp add: rd_in)
    show thesis
    proof (cases "v_text x1")
      case None
      then show thesis using s3 r that [of s3 "x1\<lparr>v_lines := []\<rparr>" "o_heap s2"] by (simp add: view_split_lines_def set_view_def)
    next
      case (Some tx)
      then obtain ok s2' text' ls where m: "malloc s2 = (ok, s2')" "set_view v (\<lambda>x. x\<lparr>v_text := Some text', v_lines := ls\<rparr>) s2' = Some s3"
        using s3(1) r by (auto simp: view_split_lines_def Let_def split: prod.splits if_splits bind_splits)
      then have "s2' = s2\<lparr>o_heap := o_heap s2'\<rparr>" by (auto simp: malloc_def split: list.splits)
      then have "s3 = s2\<lparr>o_heap := o_heap s2', views := (views s2)[v := x1\<lparr>v_text := Some text', v_lines := ls\<rparr>]\<rparr>"
        using m(2) r by (cases s2, cases s2') (auto simp: set_view_def split: bind_splits)
      then show thesis using s3(2) that [of s3 "x1\<lparr>v_text := Some text', v_lines := ls\<rparr>" "o_heap s2'"] by simp
    qed
  qed
  have r: "rd (views s3) v = Some x3" using s2(1,2) s3(1) by (simp add: rd_in)
  have "set_button (v_button x3) (\<lambda>b. b\<lparr>b_update := True\<rparr>) s3 = Some s'" using s3(3) r by (simp add: update_view_def)
  from set_buttonE [OF this] have k: "v_button x3 < length (zbuttons s)"
      "s' = s3\<lparr>zbuttons := (zbuttons s)[v_button x3 := (zbuttons s ! v_button x3)\<lparr>b_update := True\<rparr>]\<rparr>"
    using s1 s2(2) s3(1) by auto
  show thesis
    by (rule that [of "v_button x3" x3 h3]) (use k s1 s2 s3 in simp_all)
qed

lemma valid_text:
  assumes v: "screen_valid s" "ui_ok s" "ui_ok s'" and s': "oltk_view_set_text w t s = Some s'"
  shows "screen_valid s'"
proof -
  obtain x' h k where x: "w < length (views s)" "k = v_button (views s ! w)" "v_button x' = k" and k: "k < length (zbuttons s)"
    and e: "s' = s\<lparr>views := (views s)[w := x'], o_heap := h, zbuttons := (zbuttons s)[k := (zbuttons s ! k)\<lparr>b_update := True\<rparr>]\<rparr>"
    by (rule set_text_frame [OF s']) (rule that)
  obtain pic pic' where d: "all_draw s pic" "all_draw s' pic'" using ui_ok_draw [OF v(2)] ui_ok_draw [OF v(3)] by metis
  have "draw_widget s' (zbuttons s ! i) = draw_widget s (zbuttons s ! i)" if i: "i < length (zbuttons s)" "i \<noteq> k" for i
  proof -
    have "b_draw (zbuttons s ! i) \<noteq> Some (Draw_view w)" using v(2) i x by (auto simp: ui_ok_def)
    then show ?thesis by (intro ext) (auto simp: draw_widget_def e rd_def split: option.split draw_cb.split)
  qed
  moreover have "gr_ok (o_gr s)" using v(2) by (simp add: ui_ok_def)
  ultimately show ?thesis
    by (rule_tac valid_change [OF v(1) _ d, where k = k and b' = "(zbuttons s ! k)\<lparr>b_update := True\<rparr>"]) (use k e in simp_all)
qed

lemma clear_update_sel:
  "b_rect (clear_update b) = b_rect b" "b_state (clear_update b) = b_state b" "b_bg (clear_update b) = b_bg b" "b_bd (clear_update b) = b_bd b"
  "b_fg (clear_update b) = b_fg b" "b_name (clear_update b) = b_name b" "b_draw (clear_update b) = b_draw b" "b_show (clear_update b) = b_show b"
  by (simp_all add: clear_update_def)

lemma draw_widget_clear: "draw_widget s (clear_update b) = draw_widget s b"
  by (intro ext) (simp only: draw_widget_def on_button_draw_def draw_view_def clear_update_sel)

lemma paints_like: "gr_like g0 g1 \<Longrightarrow> paints g0 f m \<Longrightarrow> paints g1 f m"
proof -
  assume l: "gr_like g0 g1" and p: "paints g0 f m"
  have "gr_like g0 g" if "gr_like g1 g" for g
    using l that by (simp add: gr_like_def) (metis gr.update_convs(5) gr.surjective)
  moreover have "gr_like g1 g" if "gr_like g0 g" for g
    using l that by (simp add: gr_like_def) (metis gr.update_convs(5) gr.surjective)
  ultimately show ?thesis using p gr_like_same(6) [OF l] unfolding paints_def by metis
qed

lemma valid_redraw:
  assumes v: "screen_valid s" "ui_ok s"
  shows "\<exists>s' g. oltk_redraw s = Some s' \<and> repaint s = Some g \<and> gr_like (o_gr s) (o_gr s') \<and> (\<forall>p \<in> area (o_gr s). pixel (o_gr s') p = pixel g p) \<and>
    zbuttons s' = map clear_update (zbuttons s) \<and> rset (invalid_rect s') = {} \<and> views s' = views s \<and> screen_valid s'"
proof -
  obtain pic where d: "all_draw s pic" by (rule ui_ok_draw [OF v(2)])
  have ok: "gr_ok (o_gr s)" "rect_ok (invalid_rect s)" using v(2) by (simp_all add: ui_ok_def)
  obtain g g' r' where g: "repaint s = Some g" and s': "oltk_redraw s = Some ((mid s (length (zbuttons s)) g' r')\<lparr>invalid_rect := r'\<lparr>r_width := 0\<rparr>\<rparr>)"
    and g': "gr_like (o_gr s) g'" "\<forall>p \<in> area (o_gr s). pixel g' p = pixel g p"
    using redraw_pixels [OF ok d v(1)] by metis
  define t where "t = (mid s (length (zbuttons s)) g' r')\<lparr>invalid_rect := r'\<lparr>r_width := 0\<rparr>\<rparr>"
  have t: "o_gr t = g'" "zbuttons t = map clear_update (zbuttons s)" "o_font t = o_font s" "views t = views s" "invalid_rect t = r'\<lparr>r_width := 0\<rparr>"
    by (simp_all add: t_def mid_def)
  have dw: "draw_widget t (clear_update b) = draw_widget s b" for b
    unfolding draw_widget_clear by (rule draw_widget_cong) (simp_all add: t)
  have dt: "all_draw t pic"
    using d gr_like_same(6) [OF g'(1)] paints_like [OF g'(1)] by (simp add: all_draw_def draws_def t dw clear_update_sel)
  have cov: "covers t i p = covers s i p" for i p by (auto simp: covers_def t clear_update_def)
  then have top: "topmost t i p = topmost s i p" for i p by (simp add: topmost_def)
  have "gr_ok (o_gr t)" using ok(1) gr_like_same(7) [OF g'(1)] by (simp add: t)
  from repaint_pixels [OF this dt] obtain g2 where g2: "repaint t = Some g2" and p2: "\<And>p. p \<in> area (o_gr s) \<Longrightarrow>
      (\<forall>i. topmost s i p \<longrightarrow> pixel g2 p = the (pic i p)) \<and> ((\<forall>j. \<not> covers s j p) \<longrightarrow> pixel g2 p = pixel_bytes (gr_bpp (o_gr s)) 0)"
    unfolding cov top t(1) using gr_like_same(4,6) [OF g'(1)] by metis
  have "screen_valid t"
    unfolding screen_valid_def g2
  proof (intro allI impI ballI)
    fix h p
    assume h: "Some g2 = Some h" and "p \<in> area (o_gr t)"
    then have p: "p \<in> area (o_gr s)" using gr_like_same(6) [OF g'(1)] by (simp add: t)
    obtain gs where "repaint s = Some gs" "(\<forall>i. topmost s i p \<longrightarrow> pixel gs p = the (pic i p)) \<and>
        ((\<forall>j. \<not> covers s j p) \<longrightarrow> pixel gs p = pixel_bytes (gr_bpp (o_gr s)) 0)" using repaint_pixels [OF ok(1) d] p by blast
    then have "pixel g p = pixel g2 p" using topmost_or_none [of s p] p2 [OF p] g by force
    then show "pixel (o_gr t) p = pixel h p" using g'(2) p h by (simp add: t)
  qed
  moreover have "rset (invalid_rect t) = {}" by (auto simp: t rect_set_def)
  ultimately show ?thesis using s' g g' t unfolding t_def [symmetric] by auto
qed

section \<open>The screen follows the widgets\<close>

text \<open>A program changes the widgets in any order, and redraws whenever it wants.\<close>

inductive ui_step :: "('c, 'a) oltk \<Rightarrow> ('c, 'a) oltk \<Rightarrow> bool" where
  step_show: "oltk_button_show b v s = Some s' \<Longrightarrow> ui_ok s' \<Longrightarrow> ui_step s s'"
| step_name: "oltk_button_set_name b t s = Some s' \<Longrightarrow> ui_ok s' \<Longrightarrow> ui_step s s'"
| step_text: "oltk_view_set_text w t s = Some s' \<Longrightarrow> ui_ok s' \<Longrightarrow> ui_step s s'"
| step_redraw: "oltk_redraw s = Some s' \<Longrightarrow> ui_ok s' \<Longrightarrow> ui_step s s'"

lemma ui_steps_valid:
  assumes "ui_step\<^sup>*\<^sup>* s s'" "screen_valid s" "ui_ok s"
  shows "screen_valid s' \<and> ui_ok s'"
  using assms
proof (induction rule: rtranclp_induct)
  case (step s1 s2)
  then have v: "screen_valid s1" "ui_ok s1" by simp_all
  from step.hyps(2) show ?case
  proof cases
    case step_show
    then show ?thesis using valid_show v by blast
  next
    case step_name
    then show ?thesis using valid_name v by blast
  next
    case step_text
    then show ?thesis using valid_text v by blast
  next
    case step_redraw
    then show ?thesis using valid_redraw [OF v] by auto
  qed
qed simp


text \<open>A button that is shown, named and hidden on a small screen.\<close>

definition ex_ui :: "(unit, unit) oltk" where
  "ex_ui = \<lparr>o_gr = ex_gr, o_font = ex_font, o_cmap = replicate 256 0, o_var = ((5, 11), (6, 5), (5, 0)),
     zbuttons = [\<lparr>b_rect = \<lparr>r_x = 1, r_y = 0, r_width = 2, r_height = 2\<rparr>, b_show = False, b_sensitive = True, b_name = None, b_state = BUTTON_NORMAL,
       b_click = None, b_draw = Some On_button_draw, b_fg = (0xFFFF, 0), b_bg = (1, 2), b_bd = (3, 4), b_update = True\<rparr>],
     zsize = 64, o_abort = False, depressed = None, o_fg = (0, 0), o_bg = (0, 0), o_bd = (0, 0), color_index = 6,
     invalid_rect = \<lparr>r_x = 0, r_y = 0, r_width = 0, r_height = 0\<rparr>, views = [], popups = [], o_heap = [], o_input = [], app = ()\<rparr>"

lemma ex_ui_valid: "screen_valid ex_ui" "ui_ok ex_ui"
proof -
  show ok: "ui_ok ex_ui" using ex_gr_ok by (simp add: ui_ok_def ex_ui_def font_ok_def ex_font_def rect_ok_def)
  obtain pic where "all_draw ex_ui pic" by (rule ui_ok_draw [OF ok])
  moreover have nc: "\<not> covers ex_ui i p" for i p by (cases i) (simp_all add: covers_def ex_ui_def)
  moreover have g: "gr_ok (o_gr ex_ui)" using ok by (simp add: ui_ok_def)
  ultimately obtain g where "repaint ex_ui = Some g" "\<forall>p \<in> area (o_gr ex_ui). pixel g p = pixel_bytes (gr_bpp (o_gr ex_ui)) 0"
    using repaint_pixels by blast
  moreover have "pixel (o_gr ex_ui) p = pixel_bytes (gr_bpp (o_gr ex_ui)) 0" if "p \<in> area (o_gr ex_ui)" for p
  proof -
    have "0 \<le> snd p" "snd p < 2" "0 \<le> fst p" "fst p < 4" using that by (auto simp: area_def ex_ui_def ex_gr_def)
    then have "nat (8 * snd p + 2 * fst p) + 1 < 16" by simp
    then show ?thesis by (simp add: pixel_def ex_ui_def ex_gr_def pixel_bytes_def case_prod_beta upt_conv_Cons numeral_2_eq_2)
  qed
  ultimately show "screen_valid ex_ui" by (simp add: screen_valid_def)
qed


end
