(* ===== verification/Oltk_Events.thy ===== *)
theory Oltk_Events
  imports Oltk_Redraw
begin

text \<open>
  The text of a view and the delivery of events in \<open>Oltk\<close>: the lines that a view shows, the button that is pressed, and the loop
  of a popup.
\<close>

section \<open>The lines of a view\<close>

text \<open>The lines of a text: they have no newline, and put together again they are the text, whose last newline may be missing.\<close>

definition lines_of :: "string \<Rightarrow> string list \<Rightarrow> bool" where
  "lines_of t ls \<longleftrightarrow> (\<forall>l \<in> set ls. NEWLINE \<notin> set l) \<and>
     concat (map (\<lambda>l. l @ [NEWLINE]) ls) = (if t = [] \<or> last t = NEWLINE then t else t @ [NEWLINE])"

lemma lines_of_Nil: "lines_of [] []"
  by (simp add: lines_of_def)

lemma lines_of_last: "t \<noteq> [] \<Longrightarrow> NEWLINE \<notin> set t \<Longrightarrow> lines_of t [t]"
proof -
  assume "t \<noteq> []" "NEWLINE \<notin> set t"
  then have "last t \<noteq> NEWLINE" using last_in_set by fastforce
  then show ?thesis using \<open>t \<noteq> []\<close> \<open>NEWLINE \<notin> set t\<close> by (simp add: lines_of_def)
qed

lemma lines_of_Cons: "NEWLINE \<notin> set l \<Longrightarrow> lines_of r ls \<Longrightarrow> lines_of (l @ NEWLINE # r) (l # ls)"
  by (auto simp: lines_of_def)

lemma c_str_prefix: "NUL \<notin> set l \<Longrightarrow> c_str (l @ NUL # r) = l"
  by (simp add: c_str_def takeWhile_append)

lemma c_str_self: "NUL \<notin> set l \<Longrightarrow> c_str l = l"
  by (induction l) (auto simp: c_str_def)

lemma view_fill_lines:
  "NUL \<notin> set t \<Longrightarrow> \<exists>t' ls. view_fill (pre @ t) (Some (length pre)) (count_lines t) = Some (pre @ t', ls) \<and> length t' = length t \<and>
     lines_of t (map (line_text (pre @ t')) ls)"
proof (induction t arbitrary: pre rule: count_lines.induct)
  case (1 t)
  show ?case
  proof (cases "c_strchr t NEWLINE")
    case None
    then have nn: "NEWLINE \<notin> set t" by (simp add: c_strchr_None)
    show ?thesis
    proof (cases "t = []")
      case True
      then show ?thesis by (simp add: count_lines.simps [of "[]"] lines_of_Nil)
    next
      case False
      have "count_lines t = Suc 0" using None False by (simp add: count_lines.simps [of t])
      then have "view_fill (pre @ t) (Some (length pre)) (count_lines t) = Some (pre @ t, [length pre])"
        using None c_str_self [OF 1(2)] by simp
      moreover have "line_text (pre @ t) (length pre) = t" using c_str_self [OF 1(2)] by (simp add: line_text_def)
      ultimately show ?thesis using lines_of_last [OF False nn] by (intro exI [of _ t] exI [of _ "[length pre]"]) simp
    qed
  next
    case (Some i)
    define l r where "l = take i t" and "r = drop (i + 1) t"
    have i: "i < length t" "t ! i = NEWLINE" "NEWLINE \<notin> set l" using c_strchr_Some [OF Some] by (simp_all add: l_def)
    have t: "t = l @ NEWLINE # r" "length l = i" using i(1) id_take_nth_drop [OF i(1)] i(2) by (simp_all add: l_def r_def)
    have "NUL \<notin> set r" "NUL \<notin> set l" using 1(2) t(1) by auto
    from 1(1) [OF Some, folded r_def, OF this(1), of "pre @ l @ [NUL]"] obtain r' ls where
      r': "view_fill (pre @ l @ NUL # r) (Some (length pre + i + 1)) (count_lines r) = Some (pre @ l @ NUL # r', ls)" "length r' = length r"
        "lines_of r (map (line_text (pre @ l @ NUL # r')) ls)"
      by (auto simp: t(2))
    have "count_lines t = Suc (count_lines r)" using Some by (simp add: count_lines.simps [of t] r_def)
    moreover have "(pre @ t)[length pre + i := NUL] = pre @ l @ NUL # r" by (simp add: t(1) list_update_append t(2) [symmetric])
    ultimately have "view_fill (pre @ t) (Some (length pre)) (count_lines t) = Some (pre @ l @ NUL # r', length pre # ls)"
      using Some c_str_self [OF 1(2)] r'(1) by simp
    moreover have "line_text (pre @ l @ NUL # r') (length pre) = l" using c_str_prefix [OF \<open>NUL \<notin> set l\<close>] by (simp add: line_text_def)
    moreover have "lines_of t (l # map (line_text (pre @ l @ NUL # r')) ls)" unfolding t(1) by (rule lines_of_Cons [OF i(3) r'(3)])
    ultimately show ?thesis using r'(2) t by (intro exI [of _ "l @ NUL # r'"] exI [of _ "length pre # ls"]) simp
  qed
qed

text \<open>C36: A view shows the lines of its text, in order and without any loss; a text cannot be appended to it: the block for both has no room for the NUL.
\<close>

theorem view_text_shown:
  assumes "v < length (views s)" "v_button (views s ! v) < length (zbuttons s)" "NUL \<notin> set t" "o_heap s = []"
  shows "\<exists>s' x t'. oltk_view_set_text v (Some t) s = Some s' \<and> views s' ! v = x \<and> v_text x = Some t' \<and>
    lines_of t (map (line_text t') (v_lines x)) \<and> b_update (zbuttons s' ! v_button x) \<and> oltk_view_append_text v u s' = None"
proof -
  obtain t' ls where f: "view_fill t (Some 0) (count_lines t) = Some (t', ls)" "lines_of t (map (line_text t') ls)"
    using view_fill_lines [OF assms(3), of "[]"] by auto
  define x where "x = (views s ! v)\<lparr>v_text := Some t', v_lines := ls\<rparr>"
  define k where "k = v_button (views s ! v)"
  define s' where "s' = s\<lparr>views := (views s)[v := x], zbuttons := (zbuttons s)[k := (zbuttons s ! k)\<lparr>b_update := True\<rparr>]\<rparr>"
  have "oltk_view_set_text v (Some t) s = Some s'"
    using assms f by (simp add: oltk_view_set_text_def malloc_def set_view_def rd_in view_split_lines_def c_str_self update_view_def set_button_def
        s'_def x_def k_def)
  moreover have "oltk_view_append_text v u s' = None"
  proof -
    have "wrn p (length o') (u @ [NUL]) = None" if "wrn (replicate (length o' + length u) NUL) 0 (o' @ [NUL]) = Some p" for p o'
      using wrn_length [OF that] by (simp add: wrn_eq_None)
    then show ?thesis
      using assms by (cases "wrn (replicate (length (c_str t') + length u) NUL) 0 (c_str t' @ [NUL])")
        (simp_all add: oltk_view_append_text_def s'_def x_def rd_in malloc_def)
  qed
  ultimately show ?thesis
    using assms f(2) by (intro exI [of _ s'] exI [of _ x] exI [of _ t']) (simp add: s'_def x_def k_def)
qed

definition ex_view_ui :: "(unit, unit) oltk" where
  "ex_view_ui = ex_ui\<lparr>views := [\<lparr>v_button = 0, v_text = None, v_lines = [], v_xpad = 5, v_ypad = 5, v_xalign = 50, v_yalign = 50\<rparr>]\<rparr>"

theorem view_text_shown_witness:
  "\<exists>s' x t'. oltk_view_set_text 0 (Some [CHR ''a'', NEWLINE, CHR ''b'', NEWLINE]) ex_view_ui = Some s' \<and> views s' ! 0 = x \<and> v_text x = Some t' \<and>
     lines_of [CHR ''a'', NEWLINE, CHR ''b'', NEWLINE] (map (line_text t') (v_lines x)) \<and> oltk_view_append_text 0 ''c'' s' = None"
proof -
  have "0 < length (views ex_view_ui)" "v_button (views ex_view_ui ! 0) < length (zbuttons ex_view_ui)" "o_heap ex_view_ui = []"
    by (simp_all add: ex_view_ui_def ex_ui_def)
  moreover have "NUL \<notin> set [CHR ''a'', NEWLINE, CHR ''b'', NEWLINE]" by simp
  ultimately show ?thesis using view_text_shown [of 0 ex_view_ui "[CHR ''a'', NEWLINE, CHR ''b'', NEWLINE]" "''c''"] by blast
qed

section \<open>The pressed button\<close>

definition no_active :: "('c, 'a) oltk \<Rightarrow> bool" where
  "no_active s \<longleftrightarrow> (\<forall>i < length (zbuttons s). b_state (zbuttons s ! i) = BUTTON_NORMAL)"

definition active_ok :: "('c, 'a) oltk \<Rightarrow> bool" where
  "active_ok s \<longleftrightarrow> (\<forall>i < length (zbuttons s). b_state (zbuttons s ! i) = BUTTON_ACTIVE \<longrightarrow>
     depressed s = Some i \<and> b_show (zbuttons s ! i) \<and> b_sensitive (zbuttons s ! i))"

text \<open>Buttons that differ at most in one, which keeps its flags.\<close>

definition same_but :: "nat \<Rightarrow> ('c, 'a) oltk \<Rightarrow> ('c, 'a) oltk \<Rightarrow> bool" where
  "same_but d s s' \<longleftrightarrow> length (zbuttons s') = length (zbuttons s) \<and> depressed s' = depressed s \<and>
     (\<forall>i < length (zbuttons s). i \<noteq> d \<longrightarrow> zbuttons s' ! i = zbuttons s ! i) \<and>
     (d < length (zbuttons s) \<longrightarrow> b_show (zbuttons s' ! d) = b_show (zbuttons s ! d) \<and> b_sensitive (zbuttons s' ! d) = b_sensitive (zbuttons s ! d))"

lemma button_state_cases: "st \<noteq> BUTTON_ACTIVE \<longleftrightarrow> st = BUTTON_NORMAL"
  by (cases st) simp_all

lemma handle_hidden:
  assumes "button_handle run_cb b e s = Some (h, s')" "\<not> b_show (zbuttons s ! b) \<or> \<not> b_sensitive (zbuttons s ! b)"
  shows "\<not> h \<and> s' = s"
  using assms by (auto simp: button_handle_def rd_def split: if_splits bind_splits)

lemma handle_release:
  assumes h: "button_handle run_cb b e s = Some (h, s')" and v: "b_show (zbuttons s ! b)" "b_sensitive (zbuttons s ! b)"
    and e: "case e of None \<Rightarrow> True | Some ev \<Rightarrow> \<not> has_point (b_rect (zbuttons s ! b)) (s_x ev) (s_y ev)"
  shows "\<not> h \<and> same_but b s s' \<and> b_state (zbuttons s' ! b) = BUTTON_NORMAL"
proof -
  have b: "b < length (zbuttons s)" using h by (auto simp: button_handle_def rd_def split: if_splits)
  have p: "button_press run_cb b (zbuttons s ! b) e s =
      map_option (Pair False) (if b_state (zbuttons s ! b) = BUTTON_ACTIVE then set_state b BUTTON_NORMAL s else Some s)"
    using e by (cases e) (simp_all add: button_press_def)
  show ?thesis
    using h v b by (cases "b_state (zbuttons s ! b)")
      (auto simp: button_handle_def rd_in p set_state_def set_button_def same_but_def)
qed

lemma none_calm:
  assumes "button_handle run_cb d None s = Some (h, s')" "no_active s"
  shows "no_active s'"
proof (cases "b_show (zbuttons s ! d) \<and> b_sensitive (zbuttons s ! d)")
  case True
  have r: "same_but d s s'" "b_state (zbuttons s' ! d) = BUTTON_NORMAL" using handle_release [OF assms(1)] True by auto
  show ?thesis
    unfolding no_active_def
  proof (intro allI impI)
    fix i
    assume "i < length (zbuttons s')"
    then show "b_state (zbuttons s' ! i) = BUTTON_NORMAL" using r assms(2) by (cases "i = d") (auto simp: same_but_def no_active_def)
  qed
next
  case False
  then have "s' = s" using handle_hidden [OF assms(1)] by blast
  then show ?thesis using assms(2) by simp
qed

locale calm_callbacks =
  fixes run_cb :: "('c, 'a) cb_runner"
  assumes calm: "run_cb cb b s = Some s' \<Longrightarrow> no_active s \<Longrightarrow> no_active s'"
begin

lemma click_calm: "oltk_button_click run_cb b s = Some s' \<Longrightarrow> no_active s \<Longrightarrow> no_active s'"
  using calm by (auto simp: oltk_button_click_def rd_def split: if_splits option.splits)

text \<open>A hit: the button is pressed, or it was released and no button is active.\<close>

lemma handle_hit:
  assumes h: "button_handle run_cb b (Some ev) s = Some (True, s')" and ok: "active_ok s"
  shows "(same_but b s s' \<and> b_show (zbuttons s' ! b) \<and> b_sensitive (zbuttons s' ! b)) \<or> no_active s'"
proof -
  have b: "b < length (zbuttons s)" using h by (auto simp: button_handle_def rd_def split: if_splits)
  have v: "b_show (zbuttons s ! b)" "b_sensitive (zbuttons s ! b)" using h handle_hidden [OF h] by auto
  have hp: "has_point (b_rect (zbuttons s ! b)) (s_x ev) (s_y ev)"
    using handle_release [OF h v] by auto
  show ?thesis
  proof (cases "s_pressure ev \<noteq> 0 \<or> b_state (zbuttons s ! b) \<noteq> BUTTON_ACTIVE")
    case True
    then have "same_but b s s' \<and> b_show (zbuttons s' ! b) \<and> b_sensitive (zbuttons s' ! b)"
      using h v b hp by (cases "b_state (zbuttons s ! b)")
        (auto simp: button_handle_def button_press_def rd_in set_state_def set_button_def same_but_def split: if_splits)
    then show ?thesis by blast
  next
    case False
    define s1 where "s1 = s\<lparr>zbuttons := (zbuttons s)[b := (zbuttons s ! b)\<lparr>b_state := BUTTON_NORMAL\<rparr>]\<rparr>"
    have "\<forall>i < length (zbuttons s). i \<noteq> b \<longrightarrow> b_state (zbuttons s ! i) = BUTTON_NORMAL"
      using ok False b unfolding active_ok_def by (metis button_state_cases option.inject)
    then have n1: "no_active s1" using b by (auto simp: no_active_def s1_def nth_list_update)
    obtain s2 where s2: "oltk_button_click run_cb b s1 = Some s2" and b2: "b < length (zbuttons s2)"
      and s': "(if b_state (zbuttons s ! b) \<noteq> b_state (zbuttons s2 ! b) then set_button b (\<lambda>x. x\<lparr>b_update := True\<rparr>) s2 else Some s2) = Some s'"
      using h False b v hp by (auto simp: button_handle_def button_press_def rd_def set_state_def set_button_def s1_def split: if_splits bind_splits)
    have "no_active s2" by (rule click_calm [OF s2 n1])
    then have "no_active s'"
      using s' b2 by (auto simp: set_button_def rd_in no_active_def nth_list_update split: if_splits)
    then show ?thesis by blast
  qed
qed

lemma feed_from_keeps:
  assumes "feed_from run_cb e k s = Some s'" "active_ok s" "\<forall>i < length (zbuttons s). k \<le> i \<longrightarrow> b_state (zbuttons s ! i) = BUTTON_NORMAL"
  shows "active_ok s'"
  using assms
proof (induction k arbitrary: s)
  case 0
  then show ?case by (auto simp: active_ok_def)
next
  case (Suc k)
  obtain h s1 where h: "button_handle run_cb k (Some e) s = Some (h, s1)" using Suc.prems(1) by (auto split: bind_splits)
  have k: "k < length (zbuttons s)" using h by (auto simp: button_handle_def rd_def split: if_splits)
  show ?case
  proof (cases h)
    case False
    have f: "feed_from run_cb e k s1 = Some s'" using Suc.prems(1) h False by simp
    show ?thesis
    proof (cases "b_show (zbuttons s ! k) \<and> b_sensitive (zbuttons s ! k)")
      case False
      then have "s1 = s" using handle_hidden [OF h] by blast
      moreover have "b_state (zbuttons s ! k) = BUTTON_NORMAL"
        using Suc.prems(2) k False unfolding button_state_cases [symmetric] active_ok_def by blast
      then have "\<forall>i < length (zbuttons s). k \<le> i \<longrightarrow> b_state (zbuttons s ! i) = BUTTON_NORMAL"
        using Suc.prems(3) by (metis Suc_leI le_neq_implies_less)
      ultimately show ?thesis using Suc.IH [OF f] Suc.prems(2) by blast
    next
      case True
      have "\<not> has_point (b_rect (zbuttons s ! k)) (s_x e) (s_y e)"
      proof
        assume "has_point (b_rect (zbuttons s ! k)) (s_x e) (s_y e)"
        then have "h" using h True k by (auto simp: button_handle_def button_press_def rd_in split: if_splits bind_splits)
        then show False using \<open>\<not> h\<close> by simp
      qed
      then have r: "same_but k s s1" "b_state (zbuttons s1 ! k) = BUTTON_NORMAL" using handle_release [OF h] True by auto
      have st: "b_state (zbuttons s1 ! i) = (if i = k then BUTTON_NORMAL else b_state (zbuttons s ! i))"
        "i \<noteq> k \<Longrightarrow> zbuttons s1 ! i = zbuttons s ! i" if "i < length (zbuttons s1)" for i using r that by (auto simp: same_but_def)
      have l: "length (zbuttons s1) = length (zbuttons s)" "depressed s1 = depressed s" using r(1) by (simp_all add: same_but_def)
      have "active_ok s1"
        unfolding active_ok_def
      proof (intro allI impI)
        fix i
        assume i: "i < length (zbuttons s1)" "b_state (zbuttons s1 ! i) = BUTTON_ACTIVE"
        then have "i \<noteq> k" using st(1) by auto
        then show "depressed s1 = Some i \<and> b_show (zbuttons s1 ! i) \<and> b_sensitive (zbuttons s1 ! i)"
          using Suc.prems(2) i st(2) l by (auto simp: active_ok_def)
      qed
      moreover have "\<forall>i < length (zbuttons s1). k \<le> i \<longrightarrow> b_state (zbuttons s1 ! i) = BUTTON_NORMAL"
        using Suc.prems(3) st(1) l(1) by (simp add: Suc_le_eq)
      ultimately show ?thesis by (rule Suc.IH [OF f])
    qed
  next
    case hit: True
    obtain s2 where s2: "(case depressed s1 of Some d \<Rightarrow> if d \<noteq> k then map_option snd (button_handle run_cb d None s1) else Some s1 | None \<Rightarrow> Some s1) = Some s2"
      and k2: "k < length (zbuttons s2)" and s': "s' = s2\<lparr>depressed := if b_state (zbuttons s2 ! k) = BUTTON_ACTIVE then Some k else None\<rparr>"
      using Suc.prems(1) h hit by (auto simp: rd_def split: bind_splits if_splits)
    have "\<forall>i < length (zbuttons s2). b_state (zbuttons s2 ! i) = BUTTON_ACTIVE \<longrightarrow> i = k \<and> b_show (zbuttons s2 ! i) \<and> b_sensitive (zbuttons s2 ! i)"
    proof (cases "no_active s1")
      case True
      have "no_active s2"
      proof (cases "\<exists>d. depressed s1 = Some d \<and> d \<noteq> k")
        case True
        then obtain d h' where d: "button_handle run_cb d None s1 = Some (h', s2)" using s2 by auto
        show ?thesis by (rule none_calm [OF d \<open>no_active s1\<close>])
      qed (use s2 True in \<open>auto split: option.splits if_splits\<close>)
      then show ?thesis by (simp add: no_active_def)
    next
      case False
      then have r: "same_but k s s1" "b_show (zbuttons s1 ! k)" "b_sensitive (zbuttons s1 ! k)"
        using handle_hit [of k e s s1] h hit Suc.prems(2) by auto
      have l: "length (zbuttons s1) = length (zbuttons s)" "depressed s1 = depressed s" using r(1) by (simp_all add: same_but_def)
      have a: "depressed s1 = Some i \<and> b_show (zbuttons s1 ! i) \<and> b_sensitive (zbuttons s1 ! i)"
        if "i < length (zbuttons s1)" "i \<noteq> k" "b_state (zbuttons s1 ! i) = BUTTON_ACTIVE" for i
        using Suc.prems(2) r(1) that by (auto simp: active_ok_def same_but_def)
      show ?thesis
      proof (cases "\<exists>d. depressed s1 = Some d \<and> d \<noteq> k")
        case True
        then obtain d h' where d: "depressed s1 = Some d" "d \<noteq> k" "button_handle run_cb d None s1 = Some (h', s2)" using s2 by auto
        show ?thesis
        proof (cases "b_show (zbuttons s1 ! d) \<and> b_sensitive (zbuttons s1 ! d)")
          case True
          have r2: "same_but d s1 s2" "b_state (zbuttons s2 ! d) = BUTTON_NORMAL"
            using handle_release [OF d(3)] True by auto
          show ?thesis
          proof (intro allI impI)
            fix i
            assume i: "i < length (zbuttons s2)" "b_state (zbuttons s2 ! i) = BUTTON_ACTIVE"
            then have "i \<noteq> d" "i < length (zbuttons s1)" "zbuttons s2 ! i = zbuttons s1 ! i" using r2 by (auto simp: same_but_def)
            then show "i = k \<and> b_show (zbuttons s2 ! i) \<and> b_sensitive (zbuttons s2 ! i)" using a [of i] d(1) i(2) r(2,3) by auto
          qed
        next
          case False
          then have "s2 = s1" using handle_hidden [OF d(3)] by blast
          then show ?thesis using a d(1) False r(2,3) by (metis option.inject)
        qed
      next
        case False
        then have "s2 = s1" using s2 by (auto split: option.splits if_splits)
        then show ?thesis using a False r(2,3) by metis
      qed
    qed
    then show ?thesis unfolding s' active_ok_def by auto
  qed
qed

end

text \<open>The callback of the items of a popup.\<close>

definition item_click :: "('c, 'a) cb_runner" where
  "item_click cb b s = (case cb of On_popdown p \<Rightarrow> on_popdown p b s | _ \<Rightarrow> None)"

interpretation items: calm_callbacks item_click
  by unfold_locales (auto simp: item_click_def on_popdown_def set_popup_def rd_def no_active_def split: click_cb.splits if_splits)



section \<open>The popup\<close>

lemma redraw_keeps:
  assumes v: "screen_valid s" and u: "ui_ok s"
  shows "\<exists>s'. oltk_redraw s = Some s' \<and> screen_valid s' \<and> ui_ok s' \<and> popups s' = popups s \<and> o_input s' = o_input s \<and>
    zbuttons s' = map clear_update (zbuttons s)"
proof -
  obtain pic where d: "all_draw s pic" by (rule ui_ok_draw [OF u])
  have ok: "gr_ok (o_gr s)" "rect_ok (invalid_rect s)" using u by (simp_all add: ui_ok_def)
  obtain g' r' where r: "oltk_redraw s = Some ((mid s (length (zbuttons s)) g' r')\<lparr>invalid_rect := r'\<lparr>r_width := 0\<rparr>\<rparr>)" "gr_like (o_gr s) g'" "rect_ok r'"
    using redraw_pixels [OF ok d v] by metis
  define t where "t = (mid s (length (zbuttons s)) g' r')\<lparr>invalid_rect := r'\<lparr>r_width := 0\<rparr>\<rparr>"
  have t: "o_gr t = g'" "zbuttons t = map clear_update (zbuttons s)" "o_font t = o_font s" "views t = views s" "invalid_rect t = r'\<lparr>r_width := 0\<rparr>"
    "popups t = popups s" "o_input t = o_input s" by (simp_all add: t_def mid_def)
  have "screen_valid t" using valid_redraw [OF v u] r(1) by (auto simp: t_def)
  moreover have "widget_fits t (clear_update b) = widget_fits s b" for b by (simp only: widget_fits_def t clear_update_sel)
  then have "ui_ok t"
    using u gr_like_same(7) [OF r(2)] r(3) by (auto simp: ui_ok_def t clear_update_sel rect_ok_def)
  ultimately show ?thesis using r(1) t unfolding t_def [symmetric] by blast
qed

definition pop_inv :: "nat \<Rightarrow> nat list \<Rightarrow> ('c, 'a) oltk \<Rightarrow> bool" where
  "pop_inv p its s \<longleftrightarrow> screen_valid s \<and> ui_ok s \<and> p < length (popups s) \<and> p_items (popups s ! p) = its \<and>
     (\<forall>b \<in> set its. b < length (zbuttons s) \<and> b_click (zbuttons s ! b) = Some (On_popdown p)) \<and>
     (if p_run (popups s ! p) then p_selected (popups s ! p) = - 1
      else 0 \<le> p_selected (popups s ! p) \<and> p_selected (popups s ! p) < int (length its))"

lemma pop_inv_change:
  assumes i: "pop_inv p its s" and b: "b \<in> set its" and b': "b' = (zbuttons s ! b)\<lparr>b_state := st, b_update := True\<rparr>"
    and ps: "ps = popups s \<or> (\<exists>k < length its. ps = (popups s)[p := (popups s ! p)\<lparr>p_run := False, p_selected := int k\<rparr>])"
  shows "pop_inv p its (s\<lparr>zbuttons := (zbuttons s)[b := b'], popups := ps\<rparr>)"
proof -
  define t where "t = s\<lparr>zbuttons := (zbuttons s)[b := b'], popups := ps\<rparr>"
  have k: "b < length (zbuttons s)" and v: "screen_valid s" and u: "ui_ok s" using i b by (auto simp: pop_inv_def)
  have t: "o_gr t = o_gr s" "o_font t = o_font s" "views t = views s" "invalid_rect t = invalid_rect s" "zbuttons t = (zbuttons s)[b := b']" "popups t = ps"
    by (simp_all add: t_def)
  have sel: "b_rect b' = b_rect (zbuttons s ! b)" "b_draw b' = b_draw (zbuttons s ! b)" "b_name b' = b_name (zbuttons s ! b)"
    "b_show b' = b_show (zbuttons s ! b)" "b_click b' = b_click (zbuttons s ! b)" by (simp_all add: b')
  have wf: "widget_fits t x = widget_fits s x" "widget_fits s b' = widget_fits s (zbuttons s ! b)" for x
    by (simp_all only: widget_fits_def t sel)
  have "ui_ok t"
    using u k unfolding ui_ok_def t wf
    by (auto simp: nth_list_update b' wf(2) [unfolded b'] dest!: set_update_subset_insert [THEN subsetD])
  moreover have "screen_valid t"
  proof -
    obtain pic pic' where d: "all_draw s pic" "all_draw t pic'" using ui_ok_draw [OF u] ui_ok_draw [OF \<open>ui_ok t\<close>] by metis
    have "gr_ok (o_gr s)" using u by (simp add: ui_ok_def)
    from valid_change [OF v this d t(1) _ k t(5)] show ?thesis by (simp add: t(4) b' draw_widget_cong [OF t(2,3)])
  qed
  moreover have "p < length ps" "p_items (ps ! p) = its"
    "if p_run (ps ! p) then p_selected (ps ! p) = - 1 else 0 \<le> p_selected (ps ! p) \<and> p_selected (ps ! p) < int (length its)"
    using ps i by (auto simp: pop_inv_def)
  moreover have "\<forall>c \<in> set its. c < length (zbuttons t) \<and> b_click (zbuttons t ! c) = Some (On_popdown p)"
    using i k by (auto simp: pop_inv_def t b' nth_list_update)
  ultimately show ?thesis by (simp add: pop_inv_def t t_def [symmetric])
qed

lemma index_of_mem: "b \<in> set is \<Longrightarrow> \<exists>k < length is. index_of b is = Some k"
  by (induction "is") auto

lemma handle_item:
  assumes i: "pop_inv p its s" and b: "b \<in> set its"
  shows "\<exists>h s'. button_handle item_click b e s = Some (h, s') \<and> pop_inv p its s' \<and> o_input s' = o_input s"
proof -
  have k: "b < length (zbuttons s)" "b_click (zbuttons s ! b) = Some (On_popdown p)" and p: "p < length (popups s)" "p_items (popups s ! p) = its"
    using i b by (auto simp: pop_inv_def)
  define new where "new = (\<lambda>st ps. s\<lparr>zbuttons := (zbuttons s)[b := (zbuttons s ! b)\<lparr>b_state := st, b_update := True\<rparr>], popups := ps\<rparr>)"
  have keep: "pop_inv p its (new st (popups s))" for st unfolding new_def by (rule pop_inv_change [OF i b refl]) simp
  obtain j where j: "j < length its" "index_of b its = Some j" using index_of_mem [OF b] by blast
  define ps where "ps = (popups s)[p := (popups s ! p)\<lparr>p_run := False, p_selected := int j\<rparr>]"
  have chosen: "pop_inv p its (new BUTTON_NORMAL ps)"
    unfolding new_def ps_def by (rule pop_inv_change [OF i b refl]) (use j(1) in blast)
  have put: "set_state b st s = Some (s\<lparr>zbuttons := (zbuttons s)[b := (zbuttons s ! b)\<lparr>b_state := st\<rparr>]\<rparr>)" for st
    using k by (simp add: set_state_def set_button_def rd_in)
  have click: "oltk_button_click item_click b (s\<lparr>zbuttons := (zbuttons s)[b := (zbuttons s ! b)\<lparr>b_state := BUTTON_NORMAL\<rparr>]\<rparr>) =
      Some (s\<lparr>zbuttons := (zbuttons s)[b := (zbuttons s ! b)\<lparr>b_state := BUTTON_NORMAL\<rparr>], popups := ps\<rparr>)"
    using k p j by (simp add: oltk_button_click_def rd_in item_click_def on_popdown_def set_popup_def ps_def)
  define Q where "Q = (\<lambda>t. t = s \<or> (\<exists>st. t = s\<lparr>zbuttons := (zbuttons s)[b := (zbuttons s ! b)\<lparr>b_state := st\<rparr>]\<rparr> \<and> st \<noteq> b_state (zbuttons s ! b)) \<or>
      (t = s\<lparr>zbuttons := (zbuttons s)[b := (zbuttons s ! b)\<lparr>b_state := BUTTON_NORMAL\<rparr>], popups := ps\<rparr> \<and> b_state (zbuttons s ! b) = BUTTON_ACTIVE))"
  have Q: "Q s" "st \<noteq> b_state (zbuttons s ! b) \<Longrightarrow> Q (s\<lparr>zbuttons := (zbuttons s)[b := (zbuttons s ! b)\<lparr>b_state := st\<rparr>]\<rparr>)"
    "b_state (zbuttons s ! b) = BUTTON_ACTIVE \<Longrightarrow> Q (s\<lparr>zbuttons := (zbuttons s)[b := (zbuttons s ! b)\<lparr>b_state := BUTTON_NORMAL\<rparr>], popups := ps\<rparr>)" for st
    unfolding Q_def by blast+
  have leave: "\<exists>t. (if b_state (zbuttons s ! b) = BUTTON_ACTIVE then set_state b BUTTON_NORMAL s else Some s) = Some t \<and> Q t"
    unfolding put using Q(1) Q(2) [of BUTTON_NORMAL] by simp
  have "\<exists>h t. button_press item_click b (zbuttons s ! b) e s = Some (h, t) \<and> Q t"
  proof (cases "\<exists>ev. e = Some ev \<and> has_point (b_rect (zbuttons s ! b)) (s_x ev) (s_y ev)")
    case True
    then obtain ev where ev: "e = Some ev" "has_point (b_rect (zbuttons s ! b)) (s_x ev) (s_y ev)" by blast
    have "\<exists>t. (if s_pressure ev \<noteq> 0 then (if b_state (zbuttons s ! b) = BUTTON_NORMAL then set_state b BUTTON_ACTIVE s else Some s)
        else if b_state (zbuttons s ! b) = BUTTON_ACTIVE then Option.bind (set_state b BUTTON_NORMAL s) (oltk_button_click item_click b)
        else Some s) = Some t \<and> Q t"
      unfolding put bind.bind_lunit click using Q(1) Q(2) [of BUTTON_ACTIVE] Q(3) by simp
    then show ?thesis using ev by (auto simp: button_press_def)
  next
    case False
    then have "button_press item_click b (zbuttons s ! b) e s =
        map_option (Pair False) (if b_state (zbuttons s ! b) = BUTTON_ACTIVE then set_state b BUTTON_NORMAL s else Some s)"
      by (cases e) (auto simp: button_press_def)
    then show ?thesis using leave by auto
  qed
  then obtain h t where press: "button_press item_click b (zbuttons s ! b) e s = Some (h, t)" and t: "Q t" by blast
  have "\<exists>h s'. button_handle item_click b e s = Some (h, s') \<and> (s' = s \<or> (\<exists>st. s' = new st (popups s)) \<or> s' = new BUTTON_NORMAL ps)"
  proof (cases "b_show (zbuttons s ! b) \<and> b_sensitive (zbuttons s ! b)")
    case True
    then have h: "button_handle item_click b e s = do {
        y \<leftarrow> rd (zbuttons t) b;
        s \<leftarrow> (if b_state (zbuttons s ! b) \<noteq> b_state y then set_button b (\<lambda>x. x\<lparr>b_update := True\<rparr>) t else Some t);
        Some (h, s) }"
      using k press by (simp add: button_handle_def rd_in)
    from t [unfolded Q_def] show ?thesis
    proof (elim disjE exE conjE)
      assume "t = s"
      then show ?thesis using h k by (simp add: rd_in)
    next
      fix st
      assume "t = s\<lparr>zbuttons := (zbuttons s)[b := (zbuttons s ! b)\<lparr>b_state := st\<rparr>]\<rparr>" "st \<noteq> b_state (zbuttons s ! b)"
      then have "button_handle item_click b e s = Some (h, new st (popups s))" using h k by (simp add: rd_in set_button_def new_def)
      then show ?thesis by blast
    next
      assume "t = s\<lparr>zbuttons := (zbuttons s)[b := (zbuttons s ! b)\<lparr>b_state := BUTTON_NORMAL\<rparr>], popups := ps\<rparr>" "b_state (zbuttons s ! b) = BUTTON_ACTIVE"
      then have "button_handle item_click b e s = Some (h, new BUTTON_NORMAL ps)" using h k by (simp add: rd_in set_button_def new_def)
      then show ?thesis by blast
    qed
  next
    case False
    then have "button_handle item_click b e s = Some (False, s)" using k by (auto simp: button_handle_def rd_in)
    then show ?thesis by blast
  qed
  then obtain h s' where s': "button_handle item_click b e s = Some (h, s')"
    "s' = s \<or> (\<exists>st. s' = new st (popups s)) \<or> s' = new BUTTON_NORMAL ps" by blast
  then have "pop_inv p its s'" using i keep chosen by auto
  moreover have "o_input s' = o_input s" using s'(2) by (auto simp: new_def)
  ultimately show ?thesis using s'(1) by blast
qed

lemma handle_items:
  "pop_inv p its s \<Longrightarrow> set bs \<subseteq> set its \<Longrightarrow> \<exists>s'. popup_items item_click bs e s = Some s' \<and> pop_inv p its s' \<and> o_input s' = o_input s"
proof (induction bs arbitrary: e s)
  case (Cons b bs)
  have "b \<in> set its" using Cons.prems(2) by simp
  from handle_item [OF Cons.prems(1) this] obtain h s1 where s1: "button_handle item_click b e s = Some (h, s1)" "pop_inv p its s1" "o_input s1 = o_input s"
    by blast
  from Cons.IH [OF s1(2), of "if h then None else e"] Cons.prems(2) show ?case using s1(1,3) by auto
qed simp

lemma listen_shorter: "listen_in is = (Inr e, is', ended) \<Longrightarrow> length is' < length is"
  by (induction "is" rule: listen_in.induct) auto

lemma pop_inv_listen:
  assumes "pop_inv p its s"
  shows "pop_inv p its (s\<lparr>o_input := is, o_abort := a\<rparr>)"
proof -
  define t where "t = s\<lparr>o_input := is, o_abort := a\<rparr>"
  have t: "o_gr t = o_gr s" "o_font t = o_font s" "views t = views s" "invalid_rect t = invalid_rect s" "zbuttons t = zbuttons s" "popups t = popups s"
    by (simp_all add: t_def)
  have same: "draw_widget t b = draw_widget s b" for b by (rule draw_widget_cong) (simp_all add: t)
  have "repaint_buttons ks t g = repaint_buttons ks s g" for ks g
  proof (induction ks arbitrary: g)
    case (Cons k ks)
    have "repaint_buttons ks t = repaint_buttons ks s" using Cons.IH by (rule ext)
    then show ?case by (simp add: t same cong: if_cong)
  qed simp
  then have "repaint t = repaint s" by (simp add: repaint_def t)
  then have "screen_valid t = screen_valid s" by (simp add: screen_valid_def topmost_def covers_def t)
  moreover have "ui_ok t = ui_ok s" by (simp only: ui_ok_def widget_fits_def t)
  ultimately show ?thesis using assms unfolding t_def [symmetric] pop_inv_def t by simp
qed

lemma popup_loop_ends:
  "pop_inv p its s \<Longrightarrow> \<exists>s'. popup_loop item_click p s = Some s' \<and> pop_inv p its s'"
proof (induction "length (o_input s)" arbitrary: s rule: less_induct)
  case less
  have p: "rd (popups s) p = Some (popups s ! p)" "p_items (popups s ! p) = its" using less.prems by (simp_all add: pop_inv_def rd_in)
  show ?case
  proof (cases "p_run (popups s ! p)")
    case False
    then show ?thesis using less.prems p by (subst popup_loop.simps) auto
  next
    case run: True
    obtain r s1 where l: "oltk_listen s = (r, s1)" by (cases "oltk_listen s")
    have s1: "s1 = s\<lparr>o_input := o_input s1, o_abort := o_abort s1\<rparr>" using l by (auto simp: oltk_listen_def split: if_splits prod.splits)
    have i1: "pop_inv p its s1" using pop_inv_listen [OF less.prems] s1 by metis
    show ?thesis
    proof (cases r)
      case (Inl c)
      then show ?thesis using run p l i1 by (subst popup_loop.simps) auto
    next
      case (Inr e)
      have short: "length (o_input s1) < length (o_input s)"
        using l Inr listen_shorter by (auto simp: oltk_listen_def split: if_splits prod.splits)
      obtain s2 where s2: "popup_items item_click its (Some e) s1 = Some s2" "pop_inv p its s2" "o_input s2 = o_input s1"
        using handle_items [OF i1, of its "Some e"] by auto
      have p2: "rd (popups s2) p = Some (popups s2 ! p)" using s2(2) by (simp add: pop_inv_def rd_in)
      obtain s3 where s3: "(if p_run (popups s2 ! p) then oltk_redraw s2 else Some s2) = Some s3" "pop_inv p its s3" "o_input s3 = o_input s2"
      proof (cases "p_run (popups s2 ! p)")
        case True
        have "screen_valid s2" "ui_ok s2" using s2(2) by (simp_all add: pop_inv_def)
        from redraw_keeps [OF this] obtain s3 where r: "oltk_redraw s2 = Some s3" "screen_valid s3" "ui_ok s3" "popups s3 = popups s2" "o_input s3 = o_input s2"
          "zbuttons s3 = map clear_update (zbuttons s2)" by blast
        have "pop_inv p its s3" using s2(2) r by (auto simp: pop_inv_def clear_update_def)
        then show thesis using that True r by simp
      next
        case False
        then show thesis using that s2 by simp
      qed
      have "length (o_input s3) < length (o_input s)" using short s2(3) s3(3) by simp
      from less.hyps [OF this s3(2)] show ?thesis using run p l Inr s2(1) p2 s3(1) by (subst popup_loop.simps) auto
    qed
  qed
qed


definition ex_pop_ui :: "(unit, unit) oltk" where
  "ex_pop_ui = ex_ui\<lparr>zbuttons := [(zbuttons ex_ui ! 0)\<lparr>b_click := Some (On_popdown 0)\<rparr>],
     popups := [\<lparr>p_button = 0, p_select = None, p_dialog = 0, p_items = [0], p_run = True, p_selected = - 1\<rparr>],
     o_input := [In_none, In_sample \<lparr>s_x = 1, s_y = 1, s_pressure = 9\<rparr>]\<rparr>"


end
